(* ===== verification/Prelude.thy ===== *)
theory Prelude
  imports Main "HOL-Library.AList" "HOL-Library.List_Lexorder" "HOL-Library.Char_ord"
    "HOL-Library.Product_Lexorder" "HOL-Library.Sublist"
begin

text \<open>
  Shared vocabulary of the development: the parts of the Go language and of its standard
  library that the controller uses, and the generic lemmas the components share.

  \<^item> Go strings are byte sequences; they are modelled by \<open>string\<close>, a list of bytes.
    Case mapping (\<open>strings.ToLower\<close>, \<open>strings.EqualFold\<close>) is the ASCII part of Go's:
    Kubernetes names and Azure resource identifiers are ASCII; bytes of 128 and more
    are left alone.
  \<^item> A Go map is an association list with distinct keys. The order of the list stands
    for the iteration order of the map, which Go leaves open: a theorem about every such
    list holds for every iteration order.
  \<^item> A Go set \<open>map[T]struct{}\<close> is a list without duplicates, for the same reason.
  \<^item> A map or slice that the code compares with \<open>nil\<close> is an option of such a list.
  \<^item> \<open>error\<close> results are sums: \<open>Inl\<close> is the error, \<open>Inr\<close> the value.
\<close>

named_theorems gomap_simps \<open>lookup and key lemmas of association-list maps\<close>
named_theorems gostr_simps \<open>lemmas on Go string functions\<close>

section \<open>Go maps and sets\<close>

type_synonym ('k, 'v) gomap = "('k \<times> 'v) list"
type_synonym 'k goset = "'k list"

abbreviation gget :: "('k, 'v) gomap \<Rightarrow> 'k \<Rightarrow> 'v option" where
  "gget m k \<equiv> map_of m k"

abbreviation gput :: "'k \<Rightarrow> 'v \<Rightarrow> ('k, 'v) gomap \<Rightarrow> ('k, 'v) gomap" where
  "gput k v m \<equiv> AList.update k v m"

abbreviation gdel :: "'k \<Rightarrow> ('k, 'v) gomap \<Rightarrow> ('k, 'v) gomap" where
  "gdel k m \<equiv> AList.delete k m"

abbreviation gkeys :: "('k, 'v) gomap \<Rightarrow> 'k list" where
  "gkeys m \<equiv> map fst m"

abbreviation wfmap :: "('k, 'v) gomap \<Rightarrow> bool" where
  "wfmap m \<equiv> distinct (gkeys m)"

abbreviation sadd :: "'k \<Rightarrow> 'k goset \<Rightarrow> 'k goset" where
  "sadd k s \<equiv> List.insert k s"

abbreviation sdel :: "'k \<Rightarrow> 'k goset \<Rightarrow> 'k goset" where
  "sdel k s \<equiv> removeAll k s"

text \<open>A set built by inserting every element of a slice in turn.\<close>

definition set_of_slice :: "'k list \<Rightarrow> 'k goset" where
  "set_of_slice xs = fold sadd xs []"

text \<open>Reading a missing key of a Go map gives the zero value of its value type.\<close>

definition gget_or :: "'v \<Rightarrow> ('k, 'v) gomap \<Rightarrow> 'k \<Rightarrow> 'v" where
  "gget_or d m k = (case gget m k of None \<Rightarrow> d | Some v \<Rightarrow> v)"

lemma gget_gput [gomap_simps, simp]: "gget (gput k v m) k' = (if k' = k then Some v else gget m k')"
  by (simp add: update_conv')

lemma gget_gdel [gomap_simps, simp]: "gget (gdel k m) k' = (if k' = k then None else gget m k')"
  by (simp add: delete_conv')

lemma gget_filter_key [gomap_simps]:
  "gget (filter (\<lambda>(k, v). P k) m) k' = (if P k' then gget m k' else None)"
  by (induction m) auto

lemma wfmap_gput [gomap_simps, simp]: "wfmap m \<Longrightarrow> wfmap (gput k v m)"
  by (simp add: distinct_update)

lemma wfmap_gdel [gomap_simps, simp]: "wfmap m \<Longrightarrow> wfmap (gdel k m)"
  by (simp add: distinct_delete)

lemma wfmap_filter [gomap_simps, simp]: "wfmap m \<Longrightarrow> wfmap (filter P m)"
  by (simp add: distinct_map_filter)

lemma gkeys_gput_set [gomap_simps, simp]: "set (gkeys (gput k v m)) = insert k (set (gkeys m))"
  by (induction m) auto

lemma gget_or_gput [gomap_simps, simp]:
  "gget_or d (gput k v m) k' = (if k' = k then v else gget_or d m k')"
  by (simp add: gget_or_def)

lemma gget_or_Nil [gomap_simps, simp]: "gget_or d [] k = d"
  by (simp add: gget_or_def)

lemma gput_Ball: "\<forall>x \<in> set m. P x \<Longrightarrow> P (k, v) \<Longrightarrow> \<forall>x \<in> set (gput k v m). P x"
  by (induction m) auto

lemma gget_in_set: "gget m k = Some v \<Longrightarrow> (k, v) \<in> set m"
  by (rule map_of_SomeD)

lemma wfmap_gget_iff: "wfmap m \<Longrightarrow> gget m k = Some v \<longleftrightarrow> (k, v) \<in> set m"
  by (auto intro: map_of_is_SomeI dest: map_of_SomeD)

lemma gput_absent: "gget m k = None \<Longrightarrow> gput k v m = m @ [(k, v)]"
  by (induction m) (auto split: if_splits)

lemma gget_None_iff: "gget m k = None \<longleftrightarrow> k \<notin> set (gkeys m)"
  by (simp add: map_of_eq_None_iff)

lemma set_fold_sadd [simp]: "set (fold sadd xs s) = set xs \<union> set s"
  by (induction xs arbitrary: s) auto

lemma distinct_fold_sadd [simp]: "distinct s \<Longrightarrow> distinct (fold sadd xs s)"
  by (induction xs arbitrary: s) auto

lemma set_set_of_slice [simp]: "set (set_of_slice xs) = set xs"
  by (simp add: set_of_slice_def)

lemma distinct_set_of_slice [simp]: "distinct (set_of_slice xs)"
  by (simp add: set_of_slice_def)

lemma distinct_sdel [simp]: "distinct s \<Longrightarrow> distinct (sdel k s)"
  by (simp add: distinct_removeAll)

section \<open>Go strings\<close>

definition lower_byte :: "char \<Rightarrow> char" where
  "lower_byte c =
     (if 65 \<le> (of_char c :: nat) \<and> (of_char c :: nat) \<le> 90 then char_of ((of_char c :: nat) + 32) else c)"

definition ToLower :: "string \<Rightarrow> string" where
  "ToLower s = map lower_byte s"

definition EqualFold :: "string \<Rightarrow> string \<Rightarrow> bool" where
  "EqualFold s t \<longleftrightarrow> ToLower s = ToLower t"

definition HasPrefix :: "string \<Rightarrow> string \<Rightarrow> bool" where
  "HasPrefix s p \<longleftrightarrow> take (length p) s = p"

definition HasSuffix :: "string \<Rightarrow> string \<Rightarrow> bool" where
  "HasSuffix s p \<longleftrightarrow> length p \<le> length s \<and> drop (length s - length p) s = p"

text \<open>\<open>strings.Split\<close> and \<open>strings.Join\<close> for a one-byte separator.\<close>

fun Split :: "string \<Rightarrow> char \<Rightarrow> string list" where
  "Split [] d = [[]]"
| "Split (c # cs) d =
     (if c = d then [] # Split cs d
      else (case Split cs d of [] \<Rightarrow> [[c]] | w # ws \<Rightarrow> (c # w) # ws))"

fun Join :: "string list \<Rightarrow> string \<Rightarrow> string" where
  "Join [] sep = []"
| "Join [w] sep = w"
| "Join (w # v # ws) sep = w @ sep @ Join (v # ws) sep"

text \<open>The decimal text of an integer (\<open>%d\<close>).\<close>

definition digit_char :: "nat \<Rightarrow> char" where
  "digit_char d = char_of (48 + d)"

fun show_nat :: "nat \<Rightarrow> string" where
  "show_nat n = (if n < 10 then [digit_char n] else show_nat (n div 10) @ [digit_char (n mod 10)])"

declare show_nat.simps [simp del]

definition show_int :: "int \<Rightarrow> string" where
  "show_int i = (if i < 0 then CHR ''-'' # show_nat (nat (- i)) else show_nat (nat i))"

lemma lower_byte_idem [gostr_simps, simp]: "lower_byte (lower_byte c) = lower_byte c"
proof (cases "65 \<le> (of_char c :: nat) \<and> (of_char c :: nat) \<le> 90")
  case True
  then have "(of_char (char_of ((of_char c :: nat) + 32) :: char) :: nat) = of_char c + 32"
    by simp
  with True show ?thesis by (simp add: lower_byte_def)
next
  case False
  then show ?thesis by (auto simp: lower_byte_def)
qed

lemma ToLower_idem [gostr_simps, simp]: "ToLower (ToLower s) = ToLower s"
  by (simp add: ToLower_def comp_def)

lemma ToLower_append [gostr_simps, simp]: "ToLower (s @ t) = ToLower s @ ToLower t"
  by (simp add: ToLower_def)

lemma ToLower_Nil [gostr_simps, simp]: "ToLower s = [] \<longleftrightarrow> s = []" "ToLower [] = []"
  by (simp_all add: ToLower_def)

lemma length_ToLower [gostr_simps, simp]: "length (ToLower s) = length s"
  by (simp add: ToLower_def)

lemma EqualFold_refl [gostr_simps, simp]: "EqualFold s s"
  by (simp add: EqualFold_def)

lemma lower_byte_slash: "lower_byte c = CHR ''/'' \<longleftrightarrow> c = CHR ''/''"
proof (cases "65 \<le> (of_char c :: nat) \<and> (of_char c :: nat) \<le> 90")
  case True
  then have "lower_byte c = char_of ((of_char c :: nat) + 32)" by (simp add: lower_byte_def)
  moreover have "char_of ((of_char c :: nat) + 32) \<noteq> CHR ''/''"
  proof
    assume "char_of ((of_char c :: nat) + 32) = CHR ''/''"
    then have "(of_char (char_of ((of_char c :: nat) + 32) :: char) :: nat) = of_char (CHR ''/'')"
      by simp
    then show False using True by simp
  qed
  moreover have "c \<noteq> CHR ''/''" using True by auto
  ultimately show ?thesis by simp
next
  case False
  then show ?thesis by (auto simp: lower_byte_def)
qed

lemma Split_not_Nil [simp]: "Split s d \<noteq> []"
  by (cases s) (auto split: list.splits)

lemma Join_Split [gostr_simps, simp]: "Join (Split s d) [d] = s"
proof (induction s)
  case (Cons c s)
  then show ?case by (cases "Split s d") (auto split: list.splits, (metis Join.simps list.exhaust append_Cons)+)
qed simp

lemma Split_no_sep [simp]: "d \<notin> set w \<Longrightarrow> Split w d = [w]"
  by (induction w) auto

lemma Split_append_sep: "d \<notin> set w \<Longrightarrow> Split (w @ d # s) d = w # Split s d"
  by (induction w) auto

lemma Split_Join [gostr_simps]: "ws \<noteq> [] \<Longrightarrow> \<forall>w \<in> set ws. d \<notin> set w \<Longrightarrow> Split (Join ws [d]) d = ws"
proof (induction ws "[d]" rule: Join.induct)
  case (3 w v ws)
  then show ?case by (simp add: Split_append_sep)
qed auto

lemma Split_parts_no_sep: "w \<in> set (Split s d) \<Longrightarrow> d \<notin> set w"
proof (induction s arbitrary: w)
  case (Cons c s)
  then show ?case by (cases "Split s d") (auto split: if_splits)
qed simp


subsection \<open>Decimal texts\<close>

lemma digit_char_inj: "a < 10 \<Longrightarrow> b < 10 \<Longrightarrow> digit_char a = digit_char b \<longleftrightarrow> a = b"
proof -
  assume "a < 10" "b < 10"
  then have "(of_char (digit_char a) :: nat) = 48 + a" "(of_char (digit_char b) :: nat) = 48 + b"
    by (simp_all add: digit_char_def)
  then show ?thesis by (metis add_left_cancel)
qed

lemma show_nat_not_Nil [simp]: "show_nat n \<noteq> []" "[] \<noteq> show_nat n"
  by (subst show_nat.simps, simp)+

lemma show_nat_inject: "show_nat m = show_nat n \<Longrightarrow> m = n"
proof (induction m arbitrary: n rule: show_nat.induct)
  case (1 m)
  show ?case
  proof (cases "m < 10")
    case True
    with 1(2) show ?thesis
      by (cases "n < 10") (simp_all add: show_nat.simps [of m] show_nat.simps [of n] digit_char_inj append_eq_Cons_conv)
  next
    case False
    with 1(2) have n: "\<not> n < 10"
      by (auto simp: show_nat.simps [of m] show_nat.simps [of n] append_eq_Cons_conv)
    with False 1(2) have "show_nat (m div 10) = show_nat (n div 10)" "digit_char (m mod 10) = digit_char (n mod 10)"
      by (simp_all add: show_nat.simps [of m] show_nat.simps [of n])
    with 1(1) [OF False] have "m div 10 = n div 10" "m mod 10 = n mod 10" by (simp_all add: digit_char_inj)
    then show ?thesis by (metis div_mult_mod_eq)
  qed
qed

end
