(* ===== verification/Net_Ip.thy ===== *)
theory Net_Ip
  imports Prelude
begin

text \<open>
  IP addresses as \<open>toCIDR\<close> (\<open>internal/engine/desired_state.go\<close>) needs them:
  Go's \<open>net.ParseIP\<close> and \<open>IP.To4\<close>, byte for byte, and \<open>toCIDR\<close> itself. An address is its
  16-byte form; an IPv4 address is \<open>::ffff:a.b.c.d\<close>.
\<close>

section \<open>net.ParseIP\<close>

definition dec_digit :: "char \<Rightarrow> nat option" where
  "dec_digit c = (let n = (of_char c :: nat) in if 48 \<le> n \<and> n \<le> 57 then Some (n - 48) else None)"

definition hex_digit :: "char \<Rightarrow> nat option" where
  "hex_digit c =
     (let n = (of_char c :: nat) in
      if 48 \<le> n \<and> n \<le> 57 then Some (n - 48)
      else if 97 \<le> n \<and> n \<le> 102 then Some (n - 87)
      else if 65 \<le> n \<and> n \<le> 70 then Some (n - 55)
      else None)"

text \<open>
  The loop of \<open>parseIPv4Fields\<close>: the value and digit count of the current octet, the
  octets read, and whether the previous byte was a dot (or there is none).
\<close>

fun v4_loop :: "string \<Rightarrow> nat \<Rightarrow> nat \<Rightarrow> nat list \<Rightarrow> bool \<Rightarrow> nat list option" where
  "v4_loop [] val digLen fields prevDot = (if length fields < 3 then None else Some (fields @ [val]))"
| "v4_loop (c # cs) val digLen fields prevDot =
     (case dec_digit c of
        Some d \<Rightarrow>
          if digLen = 1 \<and> val = 0 then None
          else if val * 10 + d > 255 then None
          else v4_loop cs (val * 10 + d) (Suc digLen) fields False
      | None \<Rightarrow>
          if c \<noteq> CHR ''.'' then None
          else if prevDot \<or> cs = [] then None
          else if length fields = 3 then None
          else v4_loop cs 0 0 (fields @ [val]) True)"

definition parseIPv4Fields :: "string \<Rightarrow> nat list option" where
  "parseIPv4Fields s = v4_loop s 0 0 [] True"

text \<open>A run of hexadecimal digits: their number, their value and the rest of the string.\<close>

fun hex_run :: "string \<Rightarrow> nat \<Rightarrow> nat \<Rightarrow> (nat \<times> nat \<times> string) option" where
  "hex_run [] off acc = Some (off, acc, [])"
| "hex_run (c # cs) off acc =
     (case hex_digit c of
        None \<Rightarrow> Some (off, acc, c # cs)
      | Some d \<Rightarrow>
          if off > 3 then None
          else if acc * 16 + d > 65535 then None
          else hex_run cs (Suc off) (acc * 16 + d))"

text \<open>
  The loop of \<open>parseIPv6\<close> over at most eight groups: the rest of the string, the bytes
  read and the position of the ellipsis.
\<close>

fun v6_loop :: "nat \<Rightarrow> string \<Rightarrow> nat list \<Rightarrow> nat option \<Rightarrow> (string \<times> nat list \<times> nat option) option" where
  "v6_loop 0 s ip ell = Some (s, ip, ell)"
| "v6_loop (Suc n) s ip ell =
     (case hex_run s 0 0 of
        None \<Rightarrow> None
      | Some (off, acc, rest) \<Rightarrow>
          if off = 0 then None
          else if rest \<noteq> [] \<and> hd rest = CHR ''.'' then
            (if ell = None \<and> length ip \<noteq> 12 then None
             else if length ip + 4 > 16 then None
             else (case parseIPv4Fields s of None \<Rightarrow> None | Some f \<Rightarrow> Some ([], ip @ f, ell)))
          else let ip' = ip @ [acc div 256, acc mod 256] in
            (case rest of
               [] \<Rightarrow> Some ([], ip', ell)
             | c # r \<Rightarrow>
                 if c \<noteq> CHR '':'' then None
                 else if r = [] then None
                 else if hd r = CHR '':'' then
                   (if ell \<noteq> None then None
                    else if tl r = [] then Some ([], ip', Some (length ip'))
                    else v6_loop n (tl r) ip' (Some (length ip')))
                 else v6_loop n r ip' ell))"

definition expand_ellipsis :: "string \<times> nat list \<times> nat option \<Rightarrow> nat list option" where
  "expand_ellipsis res =
     (case res of (s, ip, ell) \<Rightarrow>
        if s \<noteq> [] then None
        else if length ip < 16 then
          (case ell of None \<Rightarrow> None
           | Some e \<Rightarrow> Some (take e ip @ replicate (16 - length ip) 0 @ drop e ip))
        else if ell \<noteq> None then None
        else Some ip)"

text \<open>\<open>net.ParseIP\<close> refuses zones, so a percent sign anywhere gives nil.\<close>

definition parseIPv6 :: "string \<Rightarrow> nat list option" where
  "parseIPv6 s =
     (if CHR ''%'' \<in> set s then None
      else if HasPrefix s ''::'' then
        (if drop 2 s = [] then Some (replicate 16 0)
         else Option.bind (v6_loop 8 (drop 2 s) [] (Some 0)) expand_ellipsis)
      else Option.bind (v6_loop 8 s [] None) expand_ellipsis)"

fun ParseAddr :: "string \<Rightarrow> string \<Rightarrow> nat list option" where
  "ParseAddr whole [] = None"
| "ParseAddr whole (c # cs) =
     (if c = CHR ''.'' then
        map_option (\<lambda>f. replicate 10 0 @ [255, 255] @ f) (parseIPv4Fields whole)
      else if c = CHR '':'' then parseIPv6 whole
      else if c = CHR ''%'' then None
      else ParseAddr whole cs)"

definition ParseIP :: "string \<Rightarrow> nat list option" where
  "ParseIP s = ParseAddr s s"

definition is_To4 :: "nat list \<Rightarrow> bool" where
  "is_To4 ip \<longleftrightarrow> length ip = 16 \<and> take 10 ip = replicate 10 0 \<and> ip ! 10 = 255 \<and> ip ! 11 = 255"

section \<open>toCIDR\<close>

definition toCIDR :: "string \<Rightarrow> string" where
  "toCIDR ip =
     (if CHR ''/'' \<in> set ip then ip
      else (case ParseIP ip of
              Some parsed \<Rightarrow> if \<not> is_To4 parsed then ip @ ''/128'' else ip @ ''/32''
            | None \<Rightarrow> ip @ ''/32''))"

section \<open>Lemmas\<close>

lemma v4_loop_length: "v4_loop s v d fs p = Some f \<Longrightarrow> length fs \<le> 3 \<Longrightarrow> length f = 4"
  by (induction s v d fs p rule: v4_loop.induct) (auto split: option.splits if_splits)

lemma ParseAddr_v4:
  "CHR '':'' \<notin> set s \<Longrightarrow> ParseAddr whole s = Some ip \<Longrightarrow> is_To4 ip"
proof (induction s)
  case (Cons c cs)
  then show ?case
    by (auto simp: is_To4_def parseIPv4Fields_def nth_append split: if_splits dest: v4_loop_length)
qed simp

lemma toCIDR_cases: "CHR ''/'' \<notin> set ip \<Longrightarrow> toCIDR ip = ip @ ''/128'' \<or> toCIDR ip = ip @ ''/32''"
  by (auto simp: toCIDR_def split: option.splits)

lemma toCIDR_has_slash: "CHR ''/'' \<in> set (toCIDR ip)"
  by (auto simp: toCIDR_def split: option.splits)

lemma toCIDR_not_Nil [simp]: "toCIDR ip \<noteq> []"
  using toCIDR_has_slash [of ip] by auto

lemma toCIDR_Split: "CHR ''/'' \<notin> set ip \<Longrightarrow> hd (Split (toCIDR ip) (CHR ''/'')) = ip"
  using toCIDR_cases [of ip] by (auto simp: Split_append_sep)

lemmas toCIDR_eval = toCIDR_def ParseIP_def parseIPv4Fields_def dec_digit_def hex_digit_def
  parseIPv6_def HasPrefix_def expand_ellipsis_def is_To4_def v6_loop.simps(2) [of "pred_numeral k" for k, folded numeral_eq_Suc]
  replicate_Suc [of "pred_numeral k" for k, folded numeral_eq_Suc]

lemma toCIDR_idem [simp]: "toCIDR (toCIDR ip) = toCIDR ip"
  using toCIDR_has_slash [of ip] by (simp add: toCIDR_def [of "toCIDR ip"])

section \<open>Properties\<close>

lemma toCIDR_v4:
  assumes "CHR '':'' \<notin> set ip" and "CHR ''/'' \<notin> set ip"
  shows "toCIDR ip = ip @ ''/32''"
  using ParseAddr_v4 [OF assms(1), of ip] assms(2)
  by (auto simp: toCIDR_def ParseIP_def split: option.splits)

text \<open>Two addresses without a slash get the same prefix from \<open>toCIDR\<close> exactly when they are the
  same string: distinct pod addresses never collapse into one prefix.
\<close>

theorem toCIDR_injective:
  assumes "CHR ''/'' \<notin> set a" and "CHR ''/'' \<notin> set b"
  shows "toCIDR a = toCIDR b \<longleftrightarrow> a = b"
  by (metis toCIDR_Split assms)


theorem toCIDR_injective_witness:
  "CHR ''/'' \<notin> set ''10.0.0.1'' \<and> CHR ''/'' \<notin> set ''10.0.0.2'' \<and>
   (toCIDR ''10.0.0.1'' = toCIDR ''10.0.0.2'' \<longleftrightarrow> ''10.0.0.1'' = ''10.0.0.2'') \<and>
   toCIDR ''10.0.0.1'' = ''10.0.0.1/32''"
proof -
  have "CHR ''/'' \<notin> set ''10.0.0.1''" "CHR ''/'' \<notin> set ''10.0.0.2''" by simp_all
  moreover have "toCIDR ''10.0.0.1'' = ''10.0.0.1/32''" by (simp add: toCIDR_eval)
  ultimately show ?thesis using toCIDR_injective [of "''10.0.0.1''" "''10.0.0.2''"] by blast
qed

text \<open>
  An address without a colon (dotted IPv4, or not an address at all) always becomes the
  address followed by \<open>/32\<close>.
\<close>

theorem toCIDR_ipv4:
  assumes "CHR '':'' \<notin> set ip" and "CHR ''/'' \<notin> set ip"
  shows "toCIDR ip = ip @ ''/32''"
  using assms by (rule toCIDR_v4)

theorem toCIDR_ipv4_witness:
  "CHR '':'' \<notin> set ''10.1.2.3'' \<and> CHR ''/'' \<notin> set ''10.1.2.3'' \<and>
   toCIDR ''10.1.2.3'' = ''10.1.2.3/32''"
  using toCIDR_ipv4 [of "''10.1.2.3''"] by simp

end
