(* ===== verification/Api_Types.thy ===== *)
theory Api_Types
  imports Prelude
begin

text \<open>
  The data the controller works on: the PodASGMapping custom resource
  (\<open>api/v1alpha1/types.go\<close>), the fields of Kubernetes pods and object metadata
  that the code reads, and namespaced names. Times and durations are nanoseconds
  (Go's \<open>time.Time\<close> and \<open>time.Duration\<close>) as integers; \<open>int64\<close> generations are integers.
\<close>

text \<open>A Go \<open>map[string]string\<close> that may be nil.\<close>

type_synonym labels = "(string, string) gomap option"

type_synonym gotime = int
type_synonym duration = int

definition second :: duration where
  "second = 1000000000"

definition millisecond :: duration where
  "millisecond = 1000000"

text \<open>\<open>len\<close> of a nil-able map or slice.\<close>

definition nlen :: "'a list option \<Rightarrow> nat" where
  "nlen m = (case m of None \<Rightarrow> 0 | Some xs \<Rightarrow> length xs)"

record ASGReference =
  ref_ResourceID :: string
  ref_SubscriptionID :: string
  ref_Description :: string

record PodSelector =
  sel_MatchLabels :: labels

record Mapping =
  rule_PodSelector :: PodSelector
  rule_ASGs :: "ASGReference list"

record PodASGMappingSpec =
  spec_Mappings :: "Mapping list"

record MappingStatus =
  ms_SelectorHash :: string
  ms_MatchedPods :: int
  ms_ASGSyncState :: string
  ms_LastSyncTime :: gotime
  ms_Error :: string

datatype ConditionStatus = ConditionTrue | ConditionFalse | ConditionUnknown

record Condition =
  cond_Type :: string
  cond_Status :: ConditionStatus
  cond_ObservedGeneration :: int
  cond_Reason :: string
  cond_Message :: string
  cond_LastTransitionTime :: gotime

record PodASGMappingStatus =
  st_Conditions :: "Condition list"
  st_MappingCount :: int
  st_MappingStatuses :: "MappingStatus list"

record PodASGMapping =
  m_Namespace :: string
  m_Name :: string
  m_UID :: string
  m_Generation :: int
  m_ResourceVersion :: string
  m_Finalizers :: "string list"
  m_DeletionTimestamp :: "gotime option"
  m_CreationTimestamp :: gotime
  m_Annotations :: "(string, string) gomap option"
  m_Spec :: PodASGMappingSpec
  m_Status :: PodASGMappingStatus

abbreviation m_Mappings :: "PodASGMapping \<Rightarrow> Mapping list" where
  "m_Mappings m \<equiv> spec_Mappings (m_Spec m)"

text \<open>The fields of \<open>corev1.Pod\<close> the controller reads.\<close>

record Pod =
  p_Namespace :: string
  p_Name :: string
  p_UID :: string
  p_Labels :: labels
  p_Annotations :: labels
  p_PodIP :: string

record NamespacedName =
  nn_Namespace :: string
  nn_Name :: string

definition mapping_key :: "PodASGMapping \<Rightarrow> NamespacedName" where
  "mapping_key m = \<lparr>nn_Namespace = m_Namespace m, nn_Name = m_Name m\<rparr>"

text \<open>\<open>NamespacedName.String\<close> joins namespace and name with a slash.\<close>

definition nn_String :: "NamespacedName \<Rightarrow> string" where
  "nn_String n = nn_Namespace n @ ''/'' @ nn_Name n"

text \<open>
  Label selectors. \<open>k8s.io/apimachinery/pkg/labels\<close> is not part of the repository: a
  selector is the library call that made it, and matching a selector against labels is
  a parameter \<open>M\<close> of every definition that uses it.
\<close>

datatype Selector = Everything | SelectorFromSet labels

type_synonym matcher = "Selector \<Rightarrow> labels \<Rightarrow> bool"

text \<open>
  The documented behaviour of that library, as a concrete function: \<open>Everything\<close> matches
  all labels and a set selector matches when every pair of the set is present. It is used
  to instantiate the parameter at concrete inputs, never inside the model.
\<close>

definition doc_matches :: matcher where
  "doc_matches sel ls =
     (case sel of Everything \<Rightarrow> True
      | SelectorFromSet None \<Rightarrow> True
      | SelectorFromSet (Some kvs) \<Rightarrow>
          list_all (\<lambda>(k, v). (case ls of None \<Rightarrow> False | Some l \<Rightarrow> gget l k = Some v)) kvs)"

lemma mapping_key_eq_iff:
  "mapping_key m = mapping_key m' \<longleftrightarrow> m_Namespace m = m_Namespace m' \<and> m_Name m = m_Name m'"
  by (simp add: mapping_key_def)

end
