(* ===== verification/Resource_Model.thy ===== *)
theory Resource_Model
  imports Api_Types
begin

text \<open>
  The domain model of \<open>internal/model\<close>: Azure resource identifiers
  (\<open>resourceid.go\<close>), ownership keys (\<open>ownership.go\<close>), selectors (\<open>selector.go\<close>) and
  the mapping index (\<open>index.go\<close>).
\<close>

section \<open>Resource identifiers\<close>

record ParsedASGReference =
  par_SubscriptionID :: string
  par_ResourceGroup :: string
  par_ASGName :: string
  par_FullResourceID :: string

datatype parse_error =
    EmptyResourceID
  | NoLeadingSlash string
  | TrailingSlash string
  | WrongSegmentCount nat string
  | BadSegment string string
  | EmptySubscription string
  | EmptyResourceGroup string
  | BadProvider string
  | BadResourceType string
  | EmptyASGName string

definition ParseASGResourceID :: "string \<Rightarrow> parse_error + ParsedASGReference" where
  "ParseASGResourceID resourceID =
     (if resourceID = [] then Inl EmptyResourceID
      else if \<not> HasPrefix resourceID ''/'' then Inl (NoLeadingSlash resourceID)
      else if HasSuffix resourceID ''/'' then Inl (TrailingSlash resourceID)
      else let parts = Split resourceID (CHR ''/'') in
        if length parts \<noteq> 9 then Inl (WrongSegmentCount (length parts) resourceID)
        else if \<not> EqualFold (parts ! 1) ''subscriptions''
          then Inl (BadSegment ''subscriptions'' (parts ! 1))
        else let sub = parts ! 2 in
          if sub = [] then Inl (EmptySubscription resourceID)
        else if \<not> EqualFold (parts ! 3) ''resourceGroups''
          then Inl (BadSegment ''resourceGroups'' (parts ! 3))
        else let rg = parts ! 4 in
          if rg = [] then Inl (EmptyResourceGroup resourceID)
        else if \<not> EqualFold (parts ! 5) ''providers''
          then Inl (BadSegment ''providers'' (parts ! 5))
        else if \<not> EqualFold (parts ! 6) ''Microsoft.Network'' then Inl (BadProvider (parts ! 6))
        else if \<not> EqualFold (parts ! 7) ''applicationSecurityGroups''
          then Inl (BadResourceType (parts ! 7))
        else let asgName = parts ! 8 in
          if asgName = [] then Inl (EmptyASGName resourceID)
        else Inr \<lparr>par_SubscriptionID = sub, par_ResourceGroup = rg, par_ASGName = asgName,
                  par_FullResourceID = ''/subscriptions/'' @ sub @ ''/resourceGroups/'' @ rg
                    @ ''/providers/Microsoft.Network/applicationSecurityGroups/'' @ asgName\<rparr>)"

section \<open>Ownership keys\<close>

definition OwnershipKey :: "string \<Rightarrow> string \<Rightarrow> string \<Rightarrow> string" where
  "OwnershipKey clusterName namespace mappingName =
     clusterName @ ''-'' @ namespace @ ''-'' @ mappingName"

section \<open>Selectors\<close>

text \<open>The error result of \<open>CompileSelector\<close> exists in its type only.\<close>

definition CompileSelector :: "PodSelector \<Rightarrow> string + Selector" where
  "CompileSelector sel =
     (if nlen (sel_MatchLabels sel) = 0 then Inr Everything
      else Inr (SelectorFromSet (sel_MatchLabels sel)))"

section \<open>The mapping index\<close>

record compiledASGRef =
  cref_ref :: ASGReference
  cref_canonicalKey :: string

record compiledEntry =
  ent_namespace :: string
  ent_selector :: Selector
  ent_asgs :: "compiledASGRef list"

definition canonicalASGKey :: "string \<Rightarrow> string" where
  "canonicalASGKey resourceID =
     (case ParseASGResourceID resourceID of
        Inl _ \<Rightarrow> ToLower resourceID
      | Inr parsed \<Rightarrow> ToLower (par_FullResourceID parsed))"

text \<open>\<open>sel, _ := CompileSelector(...)\<close>: on an error the selector would be Go's nil.\<close>

definition compile_rule :: "string \<Rightarrow> Mapping \<Rightarrow> compiledEntry" where
  "compile_rule ns rule =
     \<lparr>ent_namespace = ns,
      ent_selector = (case CompileSelector (rule_PodSelector rule) of Inl _ \<Rightarrow> Everything | Inr s \<Rightarrow> s),
      ent_asgs = map (\<lambda>r. \<lparr>cref_ref = r, cref_canonicalKey = canonicalASGKey (ref_ResourceID r)\<rparr>)
                   (rule_ASGs rule)\<rparr>"

definition BuildIndex :: "PodASGMapping list \<Rightarrow> compiledEntry list" where
  "BuildIndex mappings =
     concat (map (\<lambda>m. map (compile_rule (m_Namespace m)) (m_Mappings m)) mappings)"

text \<open>The inner loop over an entry's references: the set of seen keys and the result.\<close>

fun match_refs :: "compiledASGRef list \<Rightarrow> string goset \<times> ASGReference list \<Rightarrow>
    string goset \<times> ASGReference list" where
  "match_refs [] acc = acc"
| "match_refs (r # rs) (seen, result) =
     (if cref_canonicalKey r \<in> set seen then match_refs rs (seen, result)
      else match_refs rs (sadd (cref_canonicalKey r) seen, result @ [cref_ref r]))"

fun match_entries :: "matcher \<Rightarrow> Pod \<Rightarrow> compiledEntry list \<Rightarrow> string goset \<times> ASGReference list \<Rightarrow>
    string goset \<times> ASGReference list" where
  "match_entries M pod [] acc = acc"
| "match_entries M pod (e # es) acc =
     (if ent_namespace e \<noteq> p_Namespace pod then match_entries M pod es acc
      else if \<not> M (ent_selector e) (p_Labels pod) then match_entries M pod es acc
      else match_entries M pod es (match_refs (ent_asgs e) acc))"

definition MatchingASGs :: "matcher \<Rightarrow> compiledEntry list option \<Rightarrow> Pod option \<Rightarrow> ASGReference list" where
  "MatchingASGs M idx pod =
     (case (idx, pod) of
        (Some entries, Some p) \<Rightarrow> snd (match_entries M p entries ([], []))
      | _ \<Rightarrow> [])"

section \<open>Specifications\<close>

text \<open>
  The references of every rule that applies to a pod, in the order of the mappings, of
  their rules and of each rule's references.
\<close>

definition candidate_refs :: "matcher \<Rightarrow> PodASGMapping list \<Rightarrow> Pod \<Rightarrow> ASGReference list" where
  "candidate_refs M mappings pod =
     concat (map (\<lambda>m. concat (map rule_ASGs
       (filter (\<lambda>rule. case CompileSelector (rule_PodSelector rule) of
                  Inl _ \<Rightarrow> False | Inr s \<Rightarrow> M s (p_Labels pod)) (m_Mappings m))))
       (filter (\<lambda>m. m_Namespace m = p_Namespace pod) mappings))"

text \<open>Keep the first element of each key.\<close>

fun first_by_key :: "('a \<Rightarrow> 'k) \<Rightarrow> 'a list \<Rightarrow> 'a list" where
  "first_by_key f [] = []"
| "first_by_key f (x # xs) = x # filter (\<lambda>y. f y \<noteq> f x) (first_by_key f xs)"

abbreviation ref_key :: "ASGReference \<Rightarrow> string" where
  "ref_key r \<equiv> canonicalASGKey (ref_ResourceID r)"

section \<open>Resource identifiers: lemmas\<close>

lemma length_9_conv:
  assumes "length xs = 9"
  shows "\<exists>a b c d e f g h i. xs = [a, b, c, d, e, f, g, h, i]"
proof -
  have "length xs = Suc (Suc (Suc (Suc (Suc (Suc (Suc (Suc (Suc 0))))))))" using assms by simp
  then show ?thesis by (simp only: length_Suc_conv) auto
qed

lemma EqualFold_no_slash:
  assumes "EqualFold s t" and "CHR ''/'' \<notin> set t"
  shows "CHR ''/'' \<notin> set s"
proof
  assume "CHR ''/'' \<in> set s"
  moreover have "lower_byte (CHR ''/'') = CHR ''/''" by (simp add: lower_byte_slash)
  ultimately have "CHR ''/'' \<in> set (ToLower s)" by (metis ToLower_def image_eqI set_map)
  then have "CHR ''/'' \<in> set (ToLower t)" using assms(1) by (simp add: EqualFold_def)
  then obtain c where "c \<in> set t" and "lower_byte c = CHR ''/''"
    by (auto simp: ToLower_def)
  then show False using assms(2) by (simp add: lower_byte_slash)
qed

text \<open>A well-formed identifier, by its segments.\<close>

definition asg_id :: "string \<Rightarrow> string \<Rightarrow> string \<Rightarrow> string \<Rightarrow> string \<Rightarrow> string \<Rightarrow> string \<Rightarrow> string \<Rightarrow> string" where
  "asg_id a sub b rg c d e nm = Join [[], a, sub, b, rg, c, d, e, nm] ''/''"

definition static_segments :: "string \<Rightarrow> string \<Rightarrow> string \<Rightarrow> string \<Rightarrow> string \<Rightarrow> bool" where
  "static_segments a b c d e \<longleftrightarrow>
     EqualFold a ''subscriptions'' \<and> EqualFold b ''resourceGroups'' \<and> EqualFold c ''providers'' \<and>
     EqualFold d ''Microsoft.Network'' \<and> EqualFold e ''applicationSecurityGroups''"

definition name_segment :: "string \<Rightarrow> bool" where
  "name_segment s \<longleftrightarrow> s \<noteq> [] \<and> CHR ''/'' \<notin> set s"

definition canonical_ref :: "string \<Rightarrow> string \<Rightarrow> string \<Rightarrow> ParsedASGReference" where
  "canonical_ref sub rg nm =
     \<lparr>par_SubscriptionID = sub, par_ResourceGroup = rg, par_ASGName = nm,
      par_FullResourceID = ''/subscriptions/'' @ sub @ ''/resourceGroups/'' @ rg
        @ ''/providers/Microsoft.Network/applicationSecurityGroups/'' @ nm\<rparr>"

lemma canonical_ref_full:
  "par_FullResourceID (canonical_ref sub rg nm) =
     asg_id ''subscriptions'' sub ''resourceGroups'' rg ''providers'' ''Microsoft.Network''
       ''applicationSecurityGroups'' nm"
  by (simp add: canonical_ref_def asg_id_def)

lemma static_segments_canonical [simp]:
  "static_segments ''subscriptions'' ''resourceGroups'' ''providers'' ''Microsoft.Network''
     ''applicationSecurityGroups''"
  by (simp add: static_segments_def)

lemma static_segments_no_slash:
  "static_segments a b c d e \<Longrightarrow>
     CHR ''/'' \<notin> set a \<and> CHR ''/'' \<notin> set b \<and> CHR ''/'' \<notin> set c \<and> CHR ''/'' \<notin> set d \<and> CHR ''/'' \<notin> set e"
  by (auto simp: static_segments_def dest!: EqualFold_no_slash)

lemma Split_asg_id:
  assumes "static_segments a b c d e" and "name_segment sub" and "name_segment rg" and "name_segment nm"
  shows "Split (asg_id a sub b rg c d e nm) (CHR ''/'') = [[], a, sub, b, rg, c, d, e, nm]"
  using static_segments_no_slash [OF assms(1)] assms(2-4)
  unfolding asg_id_def name_segment_def
  by (intro Split_Join) auto

lemma HasSuffix_slash: "HasSuffix s ''/'' \<longleftrightarrow> s \<noteq> [] \<and> last s = CHR ''/''"
  by (cases s rule: rev_cases) (auto simp: HasSuffix_def)

lemma HasPrefix_slash: "HasPrefix s ''/'' \<longleftrightarrow> s \<noteq> [] \<and> hd s = CHR ''/''"
  by (cases s) (auto simp: HasPrefix_def)

lemma asg_id_suffix:
  "name_segment nm \<Longrightarrow> \<not> HasSuffix (asg_id a sub b rg c d e nm) ''/''"
  by (auto simp: HasSuffix_slash asg_id_def name_segment_def) (metis last_in_set)

lemma Parse_asg_id:
  assumes "static_segments a b c d e" and "name_segment sub" and "name_segment rg" and "name_segment nm"
  shows "ParseASGResourceID (asg_id a sub b rg c d e nm) = Inr (canonical_ref sub rg nm)"
proof -
  have "asg_id a sub b rg c d e nm \<noteq> []" "HasPrefix (asg_id a sub b rg c d e nm) ''/''"
    by (simp_all add: asg_id_def HasPrefix_def)
  then show ?thesis
    using assms asg_id_suffix [OF assms(4)]
    by (simp add: ParseASGResourceID_def Split_asg_id Let_def canonical_ref_def static_segments_def
        name_segment_def)
qed

lemma Parse_segments:
  assumes "ParseASGResourceID s = Inr r"
  shows "\<exists>a b c d e sub rg nm. s = asg_id a sub b rg c d e nm \<and> static_segments a b c d e \<and>
    name_segment sub \<and> name_segment rg \<and> name_segment nm \<and> r = canonical_ref sub rg nm"
proof -
  let ?p = "Split s (CHR ''/'')"
  from assms have len: "length ?p = 9" and pre: "HasPrefix s ''/''"
    by (auto simp: ParseASGResourceID_def Let_def split: if_splits)
  from length_9_conv [OF len] obtain z a sub b rg c d e nm
    where p: "?p = [z, a, sub, b, rg, c, d, e, nm]" by blast
  from pre obtain s' where s': "s = CHR ''/'' # s'" by (cases s) (auto simp: HasPrefix_slash)
  with p have z: "z = []" by simp
  have s: "s = asg_id a sub b rg c d e nm"
    using Join_Split [of s "CHR ''/''"] p z by (simp add: asg_id_def)
  have "\<forall>w \<in> set ?p. CHR ''/'' \<notin> set w" using Split_parts_no_sep by blast
  with p have ns: "CHR ''/'' \<notin> set sub" "CHR ''/'' \<notin> set rg" "CHR ''/'' \<notin> set nm" by auto
  from assms p have "static_segments a b c d e" "sub \<noteq> []" "rg \<noteq> []" "nm \<noteq> []" "r = canonical_ref sub rg nm"
    by (auto simp: ParseASGResourceID_def Let_def static_segments_def canonical_ref_def split: if_splits)
  with s ns show ?thesis unfolding name_segment_def by blast
qed

lemma Parse_iff:
  "ParseASGResourceID s = Inr r \<longleftrightarrow>
     (\<exists>a b c d e sub rg nm. s = asg_id a sub b rg c d e nm \<and> static_segments a b c d e \<and>
        name_segment sub \<and> name_segment rg \<and> name_segment nm \<and> r = canonical_ref sub rg nm)"
  using Parse_segments Parse_asg_id by blast

lemma Parse_FullResourceID:
  assumes "ParseASGResourceID s = Inr r"
  shows "ParseASGResourceID (par_FullResourceID r) = Inr r"
proof -
  from Parse_segments [OF assms] obtain sub rg nm
    where n: "name_segment sub" "name_segment rg" "name_segment nm" and r: "r = canonical_ref sub rg nm"
    by blast
  show ?thesis unfolding r canonical_ref_full by (rule Parse_asg_id) (simp_all add: n)
qed

section \<open>Ownership keys: lemmas\<close>

lemma append_dash_inject:
  assumes "xs @ CHR ''-'' # ys = xs' @ CHR ''-'' # ys'"
    and "CHR ''-'' \<notin> set xs" and "CHR ''-'' \<notin> set xs'"
  shows "xs = xs' \<and> ys = ys'"
proof -
  have "Split (xs @ CHR ''-'' # ys) (CHR ''-'') = Split (xs' @ CHR ''-'' # ys') (CHR ''-'')"
    using assms(1) by simp
  then have "xs = xs'" by (simp add: Split_append_sep assms(2,3))
  with assms(1) show ?thesis by simp
qed

section \<open>The mapping index: lemmas\<close>

definition selector_of :: "PodSelector \<Rightarrow> Selector" where
  "selector_of sel = (if nlen (sel_MatchLabels sel) = 0 then Everything
     else SelectorFromSet (sel_MatchLabels sel))"

lemma CompileSelector_Inr [simp]: "CompileSelector sel = Inr (selector_of sel)"
  by (simp add: CompileSelector_def selector_of_def)

lemma match_refs_append: "match_refs (xs @ ys) acc = match_refs ys (match_refs xs acc)"
  by (induction xs acc rule: match_refs.induct) auto

definition entry_applies :: "matcher \<Rightarrow> Pod \<Rightarrow> compiledEntry \<Rightarrow> bool" where
  "entry_applies M pod e \<longleftrightarrow> ent_namespace e = p_Namespace pod \<and> M (ent_selector e) (p_Labels pod)"

lemma match_entries_flat:
  "match_entries M pod es acc = match_refs (concat (map ent_asgs (filter (entry_applies M pod) es))) acc"
  by (induction es arbitrary: acc) (auto simp: entry_applies_def match_refs_append)

lemma match_refs_spec:
  assumes "\<forall>r \<in> set rs. cref_canonicalKey r = ref_key (cref_ref r)"
  shows "snd (match_refs rs (seen, result)) =
    result @ filter (\<lambda>r. ref_key r \<notin> set seen) (first_by_key ref_key (map cref_ref rs))"
  using assms
proof (induction rs arbitrary: seen result)
  case (Cons r rs)
  have "(\<lambda>x. ref_key x \<notin> set seen \<and> ref_key x \<noteq> ref_key (cref_ref r)) =
        (\<lambda>x. ref_key x \<noteq> ref_key (cref_ref r) \<and> ref_key x \<notin> set seen)" by auto
  moreover have "filter (\<lambda>x. ref_key x \<noteq> ref_key (cref_ref r) \<and> ref_key x \<notin> set seen) xs =
      filter (\<lambda>x. ref_key x \<notin> set seen) xs" if "ref_key (cref_ref r) \<in> set seen" for xs
    using that by (intro filter_cong) auto
  ultimately show ?case using Cons by auto
qed simp

lemma first_by_key_keys: "set (map f (first_by_key f xs)) = set (map f xs)"
proof (induction xs)
  case (Cons x xs)
  then have IH: "f ` set (first_by_key f xs) = f ` set xs" by simp
  have "f ` {y \<in> set (first_by_key f xs). f y \<noteq> f x} = f ` set (first_by_key f xs) - {f x}" by auto
  then show ?case using IH by auto
qed simp

lemma first_by_key_distinct: "distinct (map f (first_by_key f xs))"
proof (induction xs)
  case (Cons x xs)
  then show ?case by (simp add: distinct_map_filter) auto
qed simp

lemma first_by_key_first: "y \<in> set (first_by_key f xs) \<Longrightarrow> find (\<lambda>x. f x = f y) xs = Some y"
  by (induction xs) auto

lemma candidate_refs_index:
  "map cref_ref (concat (map ent_asgs (filter (entry_applies M pod) (BuildIndex mappings)))) =
     candidate_refs M mappings pod"
proof (induction mappings)
  case (Cons m ms)
  have "map cref_ref (concat (map ent_asgs (filter (entry_applies M pod)
          (map (compile_rule (m_Namespace m)) rules)))) =
        (if m_Namespace m = p_Namespace pod then concat (map rule_ASGs
           (filter (\<lambda>rule. case CompileSelector (rule_PodSelector rule) of
              Inl _ \<Rightarrow> False | Inr s \<Rightarrow> M s (p_Labels pod)) rules)) else [])" for rules
    by (induction rules) (auto simp: compile_rule_def entry_applies_def comp_def)
  with Cons show ?case by (simp add: BuildIndex_def candidate_refs_def)
qed (simp add: BuildIndex_def candidate_refs_def)

lemma BuildIndex_keys:
  "e \<in> set (BuildIndex mappings) \<Longrightarrow> r \<in> set (ent_asgs e) \<Longrightarrow>
    cref_canonicalKey r = ref_key (cref_ref r)"
  by (auto simp: BuildIndex_def compile_rule_def)

lemma MatchingASGs_reference:
  "MatchingASGs M (Some (BuildIndex mappings)) (Some pod) =
     first_by_key ref_key (candidate_refs M mappings pod)"
proof -
  let ?rs = "concat (map ent_asgs (filter (entry_applies M pod) (BuildIndex mappings)))"
  have "\<forall>r \<in> set ?rs. cref_canonicalKey r = ref_key (cref_ref r)" by (auto dest: BuildIndex_keys)
  from match_refs_spec [OF this, of "[]" "[]"] show ?thesis
    by (simp add: MatchingASGs_def match_entries_flat candidate_refs_index)
qed

section \<open>Properties\<close>

text \<open>C28:
  \<open>ParseASGResourceID\<close> succeeds exactly on the strings of eight slash-separated segments
  whose five fixed segments match case-insensitively and whose three names are neither blank
  nor contain a slash, and then returns those names and the canonical identifier.
\<close>

theorem parse_asg_resource_id_exact:
  "ParseASGResourceID s = Inr r \<longleftrightarrow>
     (\<exists>a b c d e sub rg nm. s = asg_id a sub b rg c d e nm \<and> static_segments a b c d e \<and>
        name_segment sub \<and> name_segment rg \<and> name_segment nm \<and> r = canonical_ref sub rg nm)"
  by (rule Parse_iff)

text \<open>Parsing the canonical identifier of a parsed reference gives the same reference again,
  and both spellings have the same deduplication key.
\<close>

theorem parse_canonical_roundtrip:
  assumes "ParseASGResourceID s = Inr r"
  shows "ParseASGResourceID (par_FullResourceID r) = Inr r \<and>
    canonicalASGKey s = canonicalASGKey (par_FullResourceID r)"
  using assms Parse_FullResourceID [OF assms] by (simp add: canonicalASGKey_def)

theorem parse_canonical_roundtrip_witness:
  "ParseASGResourceID ''/SUBSCRIPTIONS/s/resourcegroups/RG/providers/microsoft.network/applicationSecurityGroups/web'' =
      Inr (canonical_ref ''s'' ''RG'' ''web'') \<and>
   ParseASGResourceID (par_FullResourceID (canonical_ref ''s'' ''RG'' ''web'')) = Inr (canonical_ref ''s'' ''RG'' ''web'')"
proof -
  let ?s = "''/SUBSCRIPTIONS/s/resourcegroups/RG/providers/microsoft.network/applicationSecurityGroups/web''"
  have h: "ParseASGResourceID ?s = Inr (canonical_ref ''s'' ''RG'' ''web'')" by code_simp
  show ?thesis using h parse_canonical_roundtrip [OF h] by blast
qed

text \<open>For namespaces without a dash, the ownership key of a cluster determines namespace and name.
\<close>

theorem ownership_key_injective:
  assumes "CHR ''-'' \<notin> set ns" and "CHR ''-'' \<notin> set ns'"
  shows "OwnershipKey c ns n = OwnershipKey c ns' n' \<longleftrightarrow> ns = ns' \<and> n = n'"
  using assms append_dash_inject [of ns n ns' n'] by (auto simp: OwnershipKey_def)

theorem ownership_key_injective_witness:
  "CHR ''-'' \<notin> set ''prod'' \<and> CHR ''-'' \<notin> set ''dev'' \<and>
   OwnershipKey ''c1'' ''prod'' ''web-a'' \<noteq> OwnershipKey ''c1'' ''dev'' ''web-a''"
  using ownership_key_injective [of "''prod''" "''dev''" "''c1''" "''web-a''" "''web-a''"] by simp

text \<open>In general the ownership key is not collision-free: namespace \<open>a-b\<close> with name \<open>c\<close>
  and namespace \<open>a\<close> with name \<open>b-c\<close> own the same key in every cluster.
\<close>

theorem ownership_key_collision:
  "OwnershipKey c ''a-b'' ''c'' = OwnershipKey c ''a'' ''b-c'' \<and> (''a-b'', ''c'') \<noteq> (''a'', ''b-c'')"
  by (simp add: OwnershipKey_def)

text \<open>\<open>MatchingASGs\<close> returns the references of the matching rules in order, only the first one
  for each canonical identifier: the result has no two references with the same key, and
  every key of a matching rule is there.
\<close>

theorem matching_asgs_first_wins:
  "MatchingASGs M (Some (BuildIndex mappings)) (Some pod) =
     first_by_key ref_key (candidate_refs M mappings pod) \<and>
   distinct (map ref_key (MatchingASGs M (Some (BuildIndex mappings)) (Some pod))) \<and>
   set (map ref_key (MatchingASGs M (Some (BuildIndex mappings)) (Some pod))) =
     set (map ref_key (candidate_refs M mappings pod))"
  by (simp only: MatchingASGs_reference first_by_key_distinct first_by_key_keys simp_thms)

end
