(* ===== verification/Target_Key.thy ===== *)
theory Target_Key
  imports Resource_Model
begin

text \<open>
  Targets and actions of the diff engine (\<open>internal/engine/types.go\<close>) and the
  case-insensitive identity of a target (\<open>internal/engine/target_key.go\<close>).
\<close>

record ASGTarget =
  tgt_SubscriptionID :: string
  tgt_ResourceGroup :: string
  tgt_ASGName :: string
  tgt_FullResourceID :: string
  tgt_PrefixSetName :: string

text \<open>
  Desired and actual state: for every target, the set of its prefixes
  (\<open>DesiredPrefixSet.IPs\<close>, \<open>ActualPrefixSet.IPs\<close>).
\<close>

type_synonym DesiredPrefixSet = "string goset"
type_synonym ActualPrefixSet = "string goset"
type_synonym desired_state = "(ASGTarget, DesiredPrefixSet) gomap"
type_synonym actual_state = "(ASGTarget, ActualPrefixSet) gomap"

text \<open>\<open>ActionKind\<close> is a string type: \<open>OtherActionKind\<close> is any other value, the empty one included.\<close>

datatype ActionKind =
    CreatePrefixSet
  | UpdatePrefixSet
  | PatchPrefixSet
  | DeletePrefixSet
  | OtherActionKind string

record Action =
  act_Kind :: ActionKind
  act_Target :: ASGTarget
  act_DesiredIPs :: "string list"
  act_AddIPs :: "string list"
  act_RemoveIPs :: "string list"

definition targetIdentityKey :: "string \<Rightarrow> string \<Rightarrow> string" where
  "targetIdentityKey fullResourceID prefixSetName = ToLower (fullResourceID @ ''/'' @ prefixSetName)"

definition canonicalASGResourceID :: "string \<Rightarrow> string \<Rightarrow> string \<Rightarrow> string" where
  "canonicalASGResourceID subscriptionID resourceGroup asgName =
     ''/subscriptions/'' @ subscriptionID @ ''/resourceGroups/'' @ resourceGroup @
     ''/providers/Microsoft.Network/applicationSecurityGroups/'' @ asgName"

definition targetKey :: "ASGTarget \<Rightarrow> string" where
  "targetKey target =
     (let resourceID =
        (if tgt_FullResourceID target = []
         then canonicalASGResourceID (tgt_SubscriptionID target) (tgt_ResourceGroup target)
                (tgt_ASGName target)
         else tgt_FullResourceID target)
      in targetIdentityKey resourceID (tgt_PrefixSetName target))"

text \<open>The target of a parsed reference, as every caller builds it.\<close>

definition target_of :: "ParsedASGReference \<Rightarrow> string \<Rightarrow> ASGTarget" where
  "target_of parsed prefixSetName =
     \<lparr>tgt_SubscriptionID = par_SubscriptionID parsed, tgt_ResourceGroup = par_ResourceGroup parsed,
      tgt_ASGName = par_ASGName parsed, tgt_FullResourceID = par_FullResourceID parsed,
      tgt_PrefixSetName = prefixSetName\<rparr>"

section \<open>Lemmas\<close>

lemma canonical_ref_id: "par_FullResourceID (canonical_ref sub rg nm) = canonicalASGResourceID sub rg nm"
  by (simp add: canonical_ref_def canonicalASGResourceID_def)

lemma Parse_full_not_Nil: "ParseASGResourceID s = Inr r \<Longrightarrow> par_FullResourceID r \<noteq> []"
  by (auto simp: Parse_iff canonical_ref_def)

lemma Parse_canonical_id:
  "ParseASGResourceID s = Inr r \<Longrightarrow>
     par_FullResourceID r = canonicalASGResourceID (par_SubscriptionID r) (par_ResourceGroup r) (par_ASGName r)"
  by (auto simp: Parse_iff canonical_ref_def canonicalASGResourceID_def)

lemma targetKey_target_of:
  "ParseASGResourceID s = Inr r \<Longrightarrow>
     targetKey (target_of r psn) = targetIdentityKey (par_FullResourceID r) psn"
  by (simp add: targetKey_def target_of_def Parse_full_not_Nil)

lemma Split_ToLower: "Split (ToLower s) (CHR ''/'') = map ToLower (Split s (CHR ''/''))"
  unfolding ToLower_def
  by (induction s) (auto simp: lower_byte_slash split: list.splits)

lemma canonicalASGResourceID_asg_id:
  "canonicalASGResourceID sub rg nm = asg_id ''subscriptions'' sub ''resourceGroups'' rg ''providers''
     ''Microsoft.Network'' ''applicationSecurityGroups'' nm"
  by (simp add: canonicalASGResourceID_def asg_id_def)

lemma Split_canonical:
  assumes "name_segment sub" and "name_segment rg" and "name_segment nm" and "CHR ''/'' \<notin> set psn"
  shows "Split (canonicalASGResourceID sub rg nm @ ''/'' @ psn) (CHR ''/'') =
    [[], ''subscriptions'', sub, ''resourceGroups'', rg, ''providers'', ''Microsoft.Network'',
     ''applicationSecurityGroups'', nm, psn]"
proof -
  have eq: "canonicalASGResourceID sub rg nm @ ''/'' @ psn =
    Join [[], ''subscriptions'', sub, ''resourceGroups'', rg, ''providers'', ''Microsoft.Network'',
     ''applicationSecurityGroups'', nm, psn] ''/''"
    by (simp add: canonicalASGResourceID_def)
  show ?thesis unfolding eq by (rule Split_Join) (use assms in \<open>auto simp: name_segment_def\<close>)
qed

lemma identity_key_parts:
  assumes "name_segment sub" "name_segment rg" "name_segment nm" "CHR ''/'' \<notin> set psn"
    and "name_segment sub'" "name_segment rg'" "name_segment nm'" "CHR ''/'' \<notin> set psn'"
    and "targetIdentityKey (canonicalASGResourceID sub rg nm) psn =
         targetIdentityKey (canonicalASGResourceID sub' rg' nm') psn'"
  shows "EqualFold sub sub' \<and> EqualFold rg rg' \<and> EqualFold nm nm' \<and> EqualFold psn psn'"
proof -
  have "map ToLower (Split (canonicalASGResourceID sub rg nm @ ''/'' @ psn) (CHR ''/'')) =
        map ToLower (Split (canonicalASGResourceID sub' rg' nm' @ ''/'' @ psn') (CHR ''/''))"
    using arg_cong [OF assms(9), of "\<lambda>s. Split s (CHR ''/'')"]
    unfolding targetIdentityKey_def Split_ToLower .
  then show ?thesis
    unfolding Split_canonical [OF assms(1-4)] Split_canonical [OF assms(5-8)] by (simp add: EqualFold_def)
qed

lemma identity_key_fold:
  assumes "EqualFold sub sub'" "EqualFold rg rg'" "EqualFold nm nm'" "EqualFold psn psn'"
  shows "targetIdentityKey (canonicalASGResourceID sub rg nm) psn =
         targetIdentityKey (canonicalASGResourceID sub' rg' nm') psn'"
  using assms by (simp only: targetIdentityKey_def canonicalASGResourceID_def EqualFold_def ToLower_append)

section \<open>Properties\<close>

text \<open>Two targets built from parsed references have the same key exactly when subscription,
  resource group, group name and prefix set name agree up to case.
\<close>

theorem target_key_identity:
  assumes "ParseASGResourceID s = Inr r" and "ParseASGResourceID s' = Inr r'"
    and "CHR ''/'' \<notin> set psn" and "CHR ''/'' \<notin> set psn'"
  shows "targetKey (target_of r psn) = targetKey (target_of r' psn') \<longleftrightarrow>
    EqualFold (par_SubscriptionID r) (par_SubscriptionID r') \<and>
    EqualFold (par_ResourceGroup r) (par_ResourceGroup r') \<and>
    EqualFold (par_ASGName r) (par_ASGName r') \<and> EqualFold psn psn'"
proof -
  from assms(1) obtain sub rg nm where n: "name_segment sub" "name_segment rg" "name_segment nm"
    and r: "r = canonical_ref sub rg nm" using Parse_segments by blast
  from assms(2) obtain sub' rg' nm' where n': "name_segment sub'" "name_segment rg'" "name_segment nm'"
    and r': "r' = canonical_ref sub' rg' nm'" using Parse_segments by blast
  have k: "targetKey (target_of r psn) = targetIdentityKey (canonicalASGResourceID sub rg nm) psn"
    using targetKey_target_of [OF assms(1)] by (simp add: r canonical_ref_id)
  have k': "targetKey (target_of r' psn') = targetIdentityKey (canonicalASGResourceID sub' rg' nm') psn'"
    using targetKey_target_of [OF assms(2)] by (simp add: r' canonical_ref_id)
  have "targetKey (target_of r psn) = targetKey (target_of r' psn') \<longleftrightarrow>
    EqualFold sub sub' \<and> EqualFold rg rg' \<and> EqualFold nm nm' \<and> EqualFold psn psn'"
    unfolding k k' using identity_key_parts [OF n assms(3) n' assms(4)] identity_key_fold by blast
  then show ?thesis by (simp add: r r' canonical_ref_def)
qed

theorem target_key_identity_witness:
  "ParseASGResourceID (canonicalASGResourceID ''S'' ''rg'' ''Web'') = Inr (canonical_ref ''S'' ''rg'' ''Web'') \<and>
   (targetKey (target_of (canonical_ref ''S'' ''rg'' ''Web'') ''c-ns-m'') =
    targetKey (target_of (canonical_ref ''S'' ''rg'' ''Web'') ''C-ns-m''))"
proof -
  have h: "ParseASGResourceID (canonicalASGResourceID ''S'' ''rg'' ''Web'') = Inr (canonical_ref ''S'' ''rg'' ''Web'')"
    unfolding canonicalASGResourceID_asg_id by (rule Parse_asg_id) (simp_all add: name_segment_def)
  have "EqualFold ''c-ns-m'' ''C-ns-m''" by code_simp
  then show ?thesis using h target_key_identity [OF h h, of "''c-ns-m''" "''C-ns-m''"] by simp
qed

end
