(* ===== verification/Diff.thy ===== *)
theory Diff
  imports Target_Key "HOL-Library.Multiset"
begin

text \<open>
  The diff engine (\<open>internal/engine/diff.go\<close>): from desired and actual state to a
  sorted list of create, update, patch and delete actions. The specification is a state
  of Azure, the set of prefixes stored under each target key, and the effect of an action
  on it; the main theorem is that the actions take the actual state to the desired one.

  \<open>sort.Slice\<close> is modelled by the library's stable sort: Go's order of elements that
  compare equal is unspecified, and theorem \<open>diff_order_independent\<close> shows that no
  two actions compare equal when targets carry canonical resource identifiers.
\<close>

definition DefaultPatchThresholdPercent :: int where
  "DefaultPatchThresholdPercent = 50"

definition ipSetsEqual :: "string goset \<Rightarrow> string goset \<Rightarrow> bool" where
  "ipSetsEqual a b \<longleftrightarrow> length a = length b \<and> (\<forall>ip \<in> set a. ip \<in> set b)"

definition sortedIPs :: "string goset \<Rightarrow> string list" where
  "sortedIPs ips = sort ips"

fun actionPrecedence :: "ActionKind \<Rightarrow> int" where
  "actionPrecedence CreatePrefixSet = 0"
| "actionPrecedence UpdatePrefixSet = 1"
| "actionPrecedence PatchPrefixSet = 1"
| "actionPrecedence DeletePrefixSet = 2"
| "actionPrecedence (OtherActionKind _) = 3"

definition computeIPDelta :: "string goset \<Rightarrow> string goset \<Rightarrow> string list \<times> string list" where
  "computeIPDelta desiredIPs actualIPs =
     (sort (filter (\<lambda>ip. ip \<notin> set actualIPs) desiredIPs),
      sort (filter (\<lambda>ip. ip \<notin> set desiredIPs) actualIPs))"

definition shouldUsePatch :: "int \<Rightarrow> int \<Rightarrow> int \<Rightarrow> int \<Rightarrow> int \<Rightarrow> bool" where
  "shouldUsePatch addCount removeCount desiredCount actualCount thresholdPercent =
     (let deltaOps = addCount + removeCount; denominator = desiredCount + actualCount in
      if denominator = 0 then False else 100 * deltaOps \<le> thresholdPercent * denominator)"

text \<open>The lookup maps of \<open>ComputeDiff\<close>: normalised key to target and prefixes.\<close>

type_synonym keyed_state = "(string, ASGTarget \<times> string goset) gomap"

definition byKey :: "(ASGTarget, string goset) gomap \<Rightarrow> keyed_state" where
  "byKey m = fold (\<lambda>(t, ips) acc. gput (targetKey t) (t, ips) acc) m []"

definition effectiveThreshold :: "int \<Rightarrow> int" where
  "effectiveThreshold patchThresholdPercent =
     (if patchThresholdPercent < 1 \<or> patchThresholdPercent > 100 then DefaultPatchThresholdPercent
      else patchThresholdPercent)"

text \<open>The body of the loop over the desired entries: no action or one.\<close>

definition diffDesired :: "int \<Rightarrow> keyed_state \<Rightarrow> string \<times> ASGTarget \<times> string goset \<Rightarrow> Action list" where
  "diffDesired thresholdPercent actualByKey entry =
     (case entry of (key, target, ips) \<Rightarrow>
        (case gget actualByKey key of
           Some (_, aips) \<Rightarrow>
             if \<not> ipSetsEqual ips aips then
               (let (addIPs, removeIPs) = computeIPDelta ips aips in
                if shouldUsePatch (int (length addIPs)) (int (length removeIPs)) (int (length ips))
                     (int (length aips)) thresholdPercent
                then [\<lparr>act_Kind = PatchPrefixSet, act_Target = target, act_DesiredIPs = sortedIPs ips,
                       act_AddIPs = addIPs, act_RemoveIPs = removeIPs\<rparr>]
                else [\<lparr>act_Kind = UpdatePrefixSet, act_Target = target, act_DesiredIPs = sortedIPs ips,
                       act_AddIPs = [], act_RemoveIPs = []\<rparr>])
             else []
         | None \<Rightarrow>
             [\<lparr>act_Kind = CreatePrefixSet, act_Target = target, act_DesiredIPs = sortedIPs ips,
               act_AddIPs = [], act_RemoveIPs = []\<rparr>]))"

text \<open>The body of the loop over the actual entries.\<close>

definition diffActual :: "keyed_state \<Rightarrow> string \<times> ASGTarget \<times> string goset \<Rightarrow> Action list" where
  "diffActual desiredByKey entry =
     (case entry of (key, target, _) \<Rightarrow>
        (case gget desiredByKey key of
           Some _ \<Rightarrow> []
         | None \<Rightarrow> [\<lparr>act_Kind = DeletePrefixSet, act_Target = target, act_DesiredIPs = [],
                      act_AddIPs = [], act_RemoveIPs = []\<rparr>]))"

text \<open>The comparison of \<open>sort.Slice\<close>, as the key it compares lexicographically.\<close>

definition actionSortKey :: "Action \<Rightarrow> string \<times> string \<times> string \<times> string \<times> int" where
  "actionSortKey a =
     (tgt_SubscriptionID (act_Target a), tgt_ResourceGroup (act_Target a), tgt_ASGName (act_Target a),
      tgt_PrefixSetName (act_Target a), actionPrecedence (act_Kind a))"

definition unsortedDiff :: "keyed_state \<Rightarrow> keyed_state \<Rightarrow> int \<Rightarrow> Action list" where
  "unsortedDiff desiredByKey actualByKey thresholdPercent =
     concat (map (diffDesired thresholdPercent actualByKey) desiredByKey) @
     concat (map (diffActual desiredByKey) actualByKey)"

definition ComputeDiff :: "desired_state \<Rightarrow> actual_state \<Rightarrow> int \<Rightarrow> Action list" where
  "ComputeDiff desired actual patchThresholdPercent =
     sort_key actionSortKey
       (unsortedDiff (byKey desired) (byKey actual) (effectiveThreshold patchThresholdPercent))"

section \<open>Specification: the state of Azure and the effect of an action\<close>

type_synonym azure_view = "string \<Rightarrow> string set option"

definition view :: "(ASGTarget, string goset) gomap \<Rightarrow> azure_view" where
  "view m key = map_option (\<lambda>(_, ips). set ips) (gget (byKey m) key)"

abbreviation actionKey :: "Action \<Rightarrow> string" where
  "actionKey a \<equiv> targetKey (act_Target a)"

text \<open>What an action is to make of the prefixes stored under its target.\<close>

definition action_effect :: "Action \<Rightarrow> string set option \<Rightarrow> string set option" where
  "action_effect a old =
     (case act_Kind a of
        CreatePrefixSet \<Rightarrow> Some (set (act_DesiredIPs a))
      | UpdatePrefixSet \<Rightarrow> Some (set (act_DesiredIPs a))
      | PatchPrefixSet \<Rightarrow>
          Some ((case old of None \<Rightarrow> {} | Some s \<Rightarrow> s) - set (act_RemoveIPs a) \<union> set (act_AddIPs a))
      | DeletePrefixSet \<Rightarrow> None
      | OtherActionKind _ \<Rightarrow> old)"

definition apply_action :: "Action \<Rightarrow> azure_view \<Rightarrow> azure_view" where
  "apply_action a s = s(actionKey a := action_effect a (s (actionKey a)))"

text \<open>Go sets have no duplicates.\<close>

definition wf_state :: "(ASGTarget, string goset) gomap \<Rightarrow> bool" where
  "wf_state m \<longleftrightarrow> wfmap m \<and> (\<forall>(t, ips) \<in> set m. distinct ips)"

text \<open>The maps \<open>byKey\<close> builds: every entry is stored under the key of its target.\<close>

definition keyed :: "keyed_state \<Rightarrow> bool" where
  "keyed m \<longleftrightarrow> wfmap m \<and> (\<forall>e \<in> set m. fst e = targetKey (fst (snd e)) \<and> distinct (snd (snd e)))"

text \<open>Two association lists for the same Go map, in whatever iteration order.\<close>

definition same_state :: "(ASGTarget, string goset) gomap \<Rightarrow> (ASGTarget, string goset) gomap \<Rightarrow> bool" where
  "same_state m m' \<longleftrightarrow> (\<forall>t. map_option set (gget m t) = map_option set (gget m' t))"

text \<open>Targets as the controller builds them: canonical resource identifiers, distinct keys.\<close>

definition canonical_targets :: "(ASGTarget, string goset) gomap \<Rightarrow> bool" where
  "canonical_targets m \<longleftrightarrow> inj_on targetKey (set (gkeys m)) \<and>
     (\<forall>t \<in> set (gkeys m). tgt_FullResourceID t =
        canonicalASGResourceID (tgt_SubscriptionID t) (tgt_ResourceGroup t) (tgt_ASGName t))"

text \<open>Concrete targets and states for the witnesses.\<close>

definition ex_target :: "string \<Rightarrow> ASGTarget" where
  "ex_target nm = \<lparr>tgt_SubscriptionID = ''S'', tgt_ResourceGroup = ''rg'', tgt_ASGName = nm,
     tgt_FullResourceID = canonicalASGResourceID ''S'' ''rg'' nm, tgt_PrefixSetName = ''c-ns-m''\<rparr>"

definition ex_desired :: desired_state where
  "ex_desired = [(ex_target ''web'', [''a'', ''b'']), (ex_target ''new'', [])]"

definition ex_actual :: actual_state where
  "ex_actual = [(ex_target ''web'', [''a'']), (ex_target ''old'', [''c''])]"

section \<open>Lemmas\<close>

lemma ipSetsEqual_iff:
  assumes "distinct a" and "distinct b"
  shows "ipSetsEqual a b \<longleftrightarrow> set a = set b"
proof -
  have "set a \<subseteq> set b \<Longrightarrow> length a = length b \<Longrightarrow> set a = set b"
    using assms by (metis List.finite_set card_subset_eq distinct_card)
  moreover have "set a = set b \<Longrightarrow> length a = length b"
    using assms by (metis distinct_card)
  ultimately show ?thesis by (auto simp: ipSetsEqual_def)
qed

lemma keyed_gput: "keyed m \<Longrightarrow> distinct ips \<Longrightarrow> keyed (gput (targetKey t) (t, ips) m)"
  unfolding keyed_def by (intro conjI wfmap_gput gput_Ball) auto

lemma keyed_fold:
  "keyed acc \<Longrightarrow> \<forall>e \<in> set m. distinct (snd e) \<Longrightarrow>
     keyed (fold (\<lambda>(t, ips) a. gput (targetKey t) (t, ips) a) m acc)"
  by (induction m arbitrary: acc) (auto simp: keyed_gput)

lemma keyed_byKey: "wf_state m \<Longrightarrow> keyed (byKey m)"
  unfolding byKey_def wf_state_def by (rule keyed_fold) (auto simp: keyed_def)

lemma byKey_wf: "wf_state m \<Longrightarrow> wfmap (byKey m)"
  using keyed_byKey [of m] by (simp add: keyed_def)

lemma byKey_entry:
  assumes "wf_state m" and "(k, t, ips) \<in> set (byKey m)"
  shows "k = targetKey t" and "distinct ips"
  using keyed_byKey [of m] assms by (auto simp: keyed_def)

lemma fold_apply_other:
  "k \<notin> actionKey ` set as \<Longrightarrow> fold apply_action as s k = s k"
  by (induction as arbitrary: s) (auto simp: apply_action_def)

lemma fold_apply_mem:
  assumes "distinct (map actionKey as)" and "a \<in> set as"
  shows "fold apply_action as s (actionKey a) = action_effect a (s (actionKey a))"
  using assms
proof (induction as arbitrary: s)
  case (Cons b as)
  show ?case
  proof (cases "a = b")
    case True
    with Cons.prems have "fold apply_action as (apply_action b s) (actionKey b) = apply_action b s (actionKey b)"
      by (intro fold_apply_other) auto
    with True show ?thesis by (simp add: apply_action_def [of b])
  next
    case False
    with Cons.prems have "actionKey b \<noteq> actionKey a" by (auto simp: rev_image_eqI)
    with Cons False show ?thesis by (simp add: apply_action_def)
  qed
qed simp

lemma diffDesired_cases:
  assumes "a \<in> set (diffDesired th A (k, t, ips))"
  shows "act_Target a = t" and "act_DesiredIPs a = sort ips"
    and "act_Kind a \<in> {CreatePrefixSet, UpdatePrefixSet, PatchPrefixSet}"
  using assms by (auto simp: diffDesired_def computeIPDelta_def sortedIPs_def split: option.splits if_splits)

lemma diffActual_cases:
  assumes "a \<in> set (diffActual D (k, t, ips))"
  shows "act_Target a = t" and "act_Kind a = DeletePrefixSet" and "gget D k = None"
  using assms by (auto simp: diffActual_def split: option.splits)

lemma length_diffDesired: "length (diffDesired th A e) \<le> 1"
  by (auto simp: diffDesired_def computeIPDelta_def split: option.splits prod.splits)

lemma length_diffActual: "length (diffActual D e) \<le> 1"
  by (auto simp: diffActual_def split: option.splits prod.splits)

lemma diffDesired_effect:
  assumes "a \<in> set (diffDesired th A (k, t, ips))"
  shows "action_effect a (map_option (\<lambda>(_, ips). set ips) (gget A k)) = Some (set ips)"
  using assms
  by (auto simp: diffDesired_def action_effect_def computeIPDelta_def sortedIPs_def split: option.splits if_splits)

lemma diffDesired_Nil:
  assumes "diffDesired th A (k, t, ips) = []" and "distinct ips"
    and "\<forall>(k, t, aips) \<in> set A. distinct aips"
  shows "map_option (\<lambda>(_, ips). set ips) (gget A k) = Some (set ips)"
proof -
  from assms(1) obtain t' aips where g: "gget A k = Some (t', aips)" and e: "ipSetsEqual ips aips"
    by (auto simp: diffDesired_def computeIPDelta_def split: option.splits if_splits)
  from g assms(3) have "distinct aips" using gget_in_set by fastforce
  with e assms(2) g show ?thesis by (simp add: ipSetsEqual_iff)
qed

lemma concat_map_distinct_keys:
  assumes "distinct (map g xs)"
    and "\<And>x. x \<in> set xs \<Longrightarrow> length (f x) \<le> 1"
    and "\<And>x y. x \<in> set xs \<Longrightarrow> y \<in> set (f x) \<Longrightarrow> h y = g x"
  shows "distinct (map h (concat (map f xs)))"
  using assms
proof (induction xs)
  case (Cons x xs)
  have "length (f x) \<le> 1" using Cons.prems(2) by simp
  then have "f x = [] \<or> (\<exists>y. f x = [y])" by (cases "f x") auto
  moreover have "h y \<notin> h ` set (concat (map f xs))" if "y \<in> set (f x)" for y
  proof -
    have "h y = g x" using that Cons.prems(3) by simp
    moreover have "h ` set (concat (map f xs)) \<subseteq> g ` set xs" using Cons.prems(3) by fastforce
    ultimately show ?thesis using Cons.prems(1) by auto
  qed
  ultimately show ?case using Cons by auto
qed simp

lemma diff_keys_desired:
  assumes "keyed D" and "a \<in> set (concat (map (diffDesired th A) D))"
  obtains t ips where "gget D (actionKey a) = Some (t, ips)" and "a \<in> set (diffDesired th A (actionKey a, t, ips))"
proof -
  from assms(2) obtain k t ips where e: "(k, t, ips) \<in> set D" and a: "a \<in> set (diffDesired th A (k, t, ips))"
    by auto
  from assms(1) e have "k = targetKey t" by (auto simp: keyed_def)
  with diffDesired_cases(1) [OF a] have k: "k = actionKey a" by simp
  with e assms(1) have "gget D (actionKey a) = Some (t, ips)" by (simp add: keyed_def wfmap_gget_iff)
  with a k that show thesis by blast
qed

lemma diff_keys_actual:
  assumes "keyed A" and "a \<in> set (concat (map (diffActual D) A))"
  obtains t ips where "gget A (actionKey a) = Some (t, ips)" and "gget D (actionKey a) = None"
    and "act_Kind a = DeletePrefixSet" and "act_Target a = t"
proof -
  from assms(2) obtain k t ips where e: "(k, t, ips) \<in> set A" and a: "a \<in> set (diffActual D (k, t, ips))"
    by auto
  from assms(1) e have "k = targetKey t" by (auto simp: keyed_def)
  with diffActual_cases [OF a] have k: "k = actionKey a" by simp
  with e assms(1) have "gget A (actionKey a) = Some (t, ips)" by (simp add: keyed_def wfmap_gget_iff)
  with k diffActual_cases [OF a] that show thesis by blast
qed

lemma unsortedDiff_cases [consumes 3, case_names desired actual]:
  assumes "keyed D" and "keyed A" and "a \<in> set (unsortedDiff D A th)"
  obtains t ips where "gget D (actionKey a) = Some (t, ips)" and "a \<in> set (diffDesired th A (actionKey a, t, ips))"
  | t ips where "gget A (actionKey a) = Some (t, ips)" and "gget D (actionKey a) = None"
    and "act_Kind a = DeletePrefixSet" and "act_Target a = t"
proof -
  from assms(3) consider "a \<in> set (concat (map (diffDesired th A) D))" | "a \<in> set (concat (map (diffActual D) A))"
    unfolding unsortedDiff_def set_append by blast
  then show thesis
  proof cases
    case 1
    with assms(1) show thesis by (rule diff_keys_desired) (rule that(1))
  next
    case 2
    with assms(2) show thesis by (rule diff_keys_actual) (rule that(2))
  qed
qed

lemma unsortedDiff_distinct:
  assumes "keyed D" and "keyed A"
  shows "distinct (map actionKey (unsortedDiff D A th))"
proof -
  have 1: "distinct (map actionKey (concat (map (diffDesired th A) D)))"
  proof (rule concat_map_distinct_keys [where g = fst])
    show "actionKey y = fst x" if "x \<in> set D" "y \<in> set (diffDesired th A x)" for x y
      using that assms(1) by (cases x rule: prod_cases3) (fastforce simp: keyed_def dest: diffDesired_cases(1))
  qed (use assms(1) length_diffDesired in \<open>auto simp: keyed_def\<close>)
  have 2: "distinct (map actionKey (concat (map (diffActual D) A)))"
  proof (rule concat_map_distinct_keys [where g = fst])
    show "actionKey y = fst x" if "x \<in> set A" "y \<in> set (diffActual D x)" for x y
      using that assms(2) by (cases x rule: prod_cases3) (fastforce simp: keyed_def dest: diffActual_cases(1))
  qed (use assms(2) length_diffActual in \<open>auto simp: keyed_def\<close>)
  have "actionKey a \<noteq> actionKey b" if "a \<in> set (concat (map (diffDesired th A) D))"
    and "b \<in> set (concat (map (diffActual D) A))" for a b
    using diff_keys_desired [OF assms(1) that(1)] diff_keys_actual [OF assms(2) that(2)] by (metis option.distinct(1))
  with 1 2 show ?thesis unfolding unsortedDiff_def map_append distinct_append by auto
qed

lemma ComputeDiff_set: "set (ComputeDiff d a th) = set (unsortedDiff (byKey d) (byKey a) (effectiveThreshold th))"
  by (simp add: ComputeDiff_def)

lemma ComputeDiff_distinct:
  assumes "wf_state d" and "wf_state a"
  shows "distinct (map actionKey (ComputeDiff d a th))"
proof -
  let ?u = "unsortedDiff (byKey d) (byKey a) (effectiveThreshold th)"
  have "mset (map actionKey (ComputeDiff d a th)) = mset (map actionKey ?u)"
    unfolding ComputeDiff_def mset_map by simp
  moreover have "distinct (map actionKey ?u)" using assms by (intro unsortedDiff_distinct keyed_byKey)
  ultimately show ?thesis by (metis mset_eq_imp_distinct_iff)
qed

lemma ComputeDiff_effect:
  assumes "wf_state d" and "wf_state a" and "x \<in> set (ComputeDiff d a th)"
  shows "action_effect x (view a (actionKey x)) = view d (actionKey x)"
  using keyed_byKey [OF assms(1)] keyed_byKey [OF assms(2)] assms(3) [unfolded ComputeDiff_set]
proof (cases rule: unsortedDiff_cases)
  case (desired t ips)
  then show ?thesis using diffDesired_effect [OF desired(2)] by (simp add: view_def)
next
  case (actual t ips)
  then show ?thesis by (simp add: view_def action_effect_def)
qed

lemma no_action_same_view:
  assumes "wf_state d" and "wf_state a" and "k \<notin> actionKey ` set (ComputeDiff d a th)"
  shows "view a k = view d k"
proof (cases "gget (byKey d) k")
  case (Some e)
  obtain t ips where e: "e = (t, ips)" by (cases e)
  with Some have m: "(k, t, ips) \<in> set (byKey d)" by (auto dest: gget_in_set)
  note kt = byKey_entry [OF assms(1) m]
  have "diffDesired (effectiveThreshold th) (byKey a) (k, t, ips) = []"
  proof (rule ccontr)
    assume "diffDesired (effectiveThreshold th) (byKey a) (k, t, ips) \<noteq> []"
    then obtain x where x: "x \<in> set (diffDesired (effectiveThreshold th) (byKey a) (k, t, ips))"
      by (meson list.set_sel(1))
    then have "x \<in> set (ComputeDiff d a th)" using m by (force simp: ComputeDiff_set unsortedDiff_def)
    moreover have "actionKey x = k" using diffDesired_cases(1) [OF x] kt(1) by simp
    ultimately show False using assms(3) by blast
  qed
  moreover have "\<forall>(k, t, aips) \<in> set (byKey a). distinct aips" using byKey_entry(2) [OF assms(2)] by blast
  ultimately have "view a k = Some (set ips)"
    unfolding view_def by (rule diffDesired_Nil [OF _ kt(2)])
  with Some e show ?thesis by (simp add: view_def)
next
  case None
  have "gget (byKey a) k = None"
  proof (rule ccontr)
    assume "gget (byKey a) k \<noteq> None"
    then obtain t ips where m: "(k, t, ips) \<in> set (byKey a)" by (auto dest: gget_in_set)
    let ?x = "\<lparr>act_Kind = DeletePrefixSet, act_Target = t, act_DesiredIPs = [], act_AddIPs = [], act_RemoveIPs = []\<rparr>"
    from None have "?x \<in> set (diffActual (byKey d) (k, t, ips))" by (simp add: diffActual_def)
    then have "?x \<in> set (ComputeDiff d a th)" using m by (force simp: ComputeDiff_set unsortedDiff_def)
    then show False using assms(3) byKey_entry(1) [OF assms(2) m] by force
  qed
  with None show ?thesis by (simp add: view_def)
qed

lemma action_changes_view:
  assumes "wf_state d" and "wf_state a" and "x \<in> set (ComputeDiff d a th)"
  shows "view a (actionKey x) \<noteq> view d (actionKey x)"
  using keyed_byKey [OF assms(1)] keyed_byKey [OF assms(2)] assms(3) [unfolded ComputeDiff_set]
proof (cases rule: unsortedDiff_cases)
  case (desired t ips)
  show ?thesis
  proof (cases "gget (byKey a) (actionKey x)")
    case (Some e)
    obtain t' aips where e: "e = (t', aips)" by (cases e)
    have "distinct ips" using byKey_entry(2) [OF assms(1)] gget_in_set [OF desired(1)] by blast
    moreover have "distinct aips" using byKey_entry(2) [OF assms(2)] gget_in_set [OF Some] e by blast
    moreover have "\<not> ipSetsEqual ips aips"
      using desired(2) Some e by (auto simp: diffDesired_def split: if_splits)
    ultimately show ?thesis using desired(1) Some e by (auto simp: view_def ipSetsEqual_iff)
  qed (use desired in \<open>simp add: view_def\<close>)
qed (simp add: view_def)


lemma fold_byKey_mem:
  "inj_on targetKey (set (gkeys m)) \<Longrightarrow> wfmap m \<Longrightarrow> (t, ips) \<in> set m \<Longrightarrow>
     gget (fold (\<lambda>(t, ips) a. gput (targetKey t) (t, ips) a) m acc) (targetKey t) = Some (t, ips)"
proof (induction m arbitrary: acc)
  case (Cons e m)
  obtain t' ips' where e: "e = (t', ips')" by (cases e)
  show ?case
  proof (cases "(t, ips) \<in> set m")
    case False
    with Cons.prems e have "t' = t" "ips' = ips" by auto
    moreover have "targetKey t \<notin> targetKey ` set (gkeys m)" using Cons.prems e \<open>t' = t\<close> by auto
    moreover have "gget (fold (\<lambda>(t, ips) a. gput (targetKey t) (t, ips) a) m a) k = gget a k"
      if "k \<notin> targetKey ` set (gkeys m)" for a k
      using that by (induction m arbitrary: a) auto
    ultimately show ?thesis by (simp add: e)
  qed (use Cons e in auto)
qed simp

lemma byKey_inj_iff:
  assumes "wf_state m" and "inj_on targetKey (set (gkeys m))"
  shows "gget (byKey m) k = Some (t, ips) \<longleftrightarrow> k = targetKey t \<and> gget m t = Some ips"
proof -
  have wf: "wfmap m" using assms(1) by (simp add: wf_state_def)
  have mem: "(t', ips') \<in> set m \<Longrightarrow> gget (byKey m) (targetKey t') = Some (t', ips')" for t' ips'
    unfolding byKey_def using assms(2) wf by (rule fold_byKey_mem)
  have sub: "\<forall>e \<in> set (fold (\<lambda>(t, ips) a. gput (targetKey t) (t, ips) a) m' acc). snd e \<in> set m"
    if "set m' \<subseteq> set m" "\<forall>e \<in> set acc. snd e \<in> set m" for m' acc
    using that
  proof (induction m' arbitrary: acc)
    case (Cons e m')
    then show ?case by (cases e) (simp, intro Cons.IH gput_Ball, auto)
  qed simp
  have "\<forall>e \<in> set (byKey m). snd e \<in> set m" unfolding byKey_def by (rule sub) auto
  then have "gget (byKey m) k = Some (t, ips) \<Longrightarrow> k = targetKey t \<and> (t, ips) \<in> set m"
    using byKey_entry(1) [OF assms(1)] gget_in_set [of "byKey m" k "(t, ips)"] by auto
  then show ?thesis using mem wf by (auto simp: wfmap_gget_iff)
qed

lemma byKey_mem_iff:
  assumes "wf_state m" and "canonical_targets m"
  shows "gget (byKey m) k = Some (t, ips) \<longleftrightarrow> k = targetKey t \<and> gget m t = Some ips"
  using assms by (intro byKey_inj_iff) (simp_all add: canonical_targets_def)

text \<open>The key-indexed maps of two lists for one Go map hold the same entries.\<close>

lemma same_state_byKey:
  assumes "wf_state m" "canonical_targets m" "wf_state m'" "canonical_targets m'" "same_state m m'"
    and "gget (byKey m) k = Some (t, ips)"
  obtains ips' where "gget (byKey m') k = Some (t, ips')" and "set ips' = set ips"
    and "distinct ips" and "distinct ips'"
proof -
  from assms(6) byKey_mem_iff [OF assms(1,2)] have k: "k = targetKey t" and g: "gget m t = Some ips" by auto
  from assms(5) g obtain ips' where g': "gget m' t = Some ips'" and "set ips' = set ips"
    by (auto simp: same_state_def) (metis map_option_eq_Some)
  moreover have "gget (byKey m') k = Some (t, ips')" using byKey_mem_iff [OF assms(3,4)] k g' by simp
  moreover have "distinct ips" using assms(1) gget_in_set [OF g] by (auto simp: wf_state_def)
  moreover have "distinct ips'" using assms(3) gget_in_set [OF g'] by (auto simp: wf_state_def)
  ultimately show thesis using that by blast
qed

lemma same_state_sym: "same_state m m' \<Longrightarrow> same_state m' m"
  by (simp add: same_state_def)

lemma same_state_byKey_None:
  assumes "wf_state m" "canonical_targets m" "wf_state m'" "canonical_targets m'" "same_state m m'"
    and "gget (byKey m) k = None"
  shows "gget (byKey m') k = None"
proof (rule ccontr)
  assume "gget (byKey m') k \<noteq> None"
  then obtain t ips where "gget (byKey m') k = Some (t, ips)" by auto
  then show False
    using same_state_byKey [OF assms(3,4,1,2) same_state_sym [OF assms(5)], of k t ips] assms(6) by auto
qed

lemma sort_same_set: "distinct xs \<Longrightarrow> distinct ys \<Longrightarrow> set xs = set ys \<Longrightarrow> sort xs = sort (ys :: 'a :: linorder list)"
  by (rule sorted_distinct_set_unique) auto

lemma diffDesired_cong:
  assumes "set ips = set ips'" "distinct ips" "distinct ips'"
    and "case gget A k of None \<Rightarrow> gget A' k = None
         | Some (t, a) \<Rightarrow> (\<exists>a'. gget A' k = Some (t, a') \<and> set a = set a' \<and> distinct a \<and> distinct a')"
  shows "diffDesired th A (k, t, ips) = diffDesired th A' (k, t, ips')"
proof -
  have s: "sort ips = sort ips'" and l: "length ips = length ips'"
    using assms(1-3) by (auto intro: sort_same_set) (metis distinct_card)
  show ?thesis
  proof (cases "gget A k")
    case None
    with assms(4) s show ?thesis by (simp add: diffDesired_def sortedIPs_def)
  next
    case (Some e)
    with assms(4) obtain t' a a' where g: "gget A k = Some (t', a)" "gget A' k = Some (t', a')"
      and a: "set a = set a'" "distinct a" "distinct a'" by (cases e) auto
    have l': "length a = length a'" using a by (metis distinct_card)
    have "ipSetsEqual ips a = ipSetsEqual ips' a'" using assms a by (simp add: ipSetsEqual_iff)
    moreover have "computeIPDelta ips a = computeIPDelta ips' a'"
      unfolding computeIPDelta_def using assms a by (auto intro!: sort_same_set)
    moreover have "sortedIPs ips = sortedIPs ips'" using s by (simp add: sortedIPs_def)
    ultimately show ?thesis using g l l' by (simp add: diffDesired_def split: prod.splits)
  qed
qed

lemma same_state_unsortedDiff:
  assumes "wf_state d" "canonical_targets d" "wf_state d'" "canonical_targets d'" "same_state d d'"
    and "wf_state a" "canonical_targets a" "wf_state a'" "canonical_targets a'" "same_state a a'"
  shows "set (unsortedDiff (byKey d) (byKey a) th) \<subseteq> set (unsortedDiff (byKey d') (byKey a') th)"
proof
  fix x assume "x \<in> set (unsortedDiff (byKey d) (byKey a) th)"
  then consider k t ips where "(k, t, ips) \<in> set (byKey d)" "x \<in> set (diffDesired th (byKey a) (k, t, ips))"
    | k t ips where "(k, t, ips) \<in> set (byKey a)" "x \<in> set (diffActual (byKey d) (k, t, ips))"
    unfolding unsortedDiff_def by auto
  then show "x \<in> set (unsortedDiff (byKey d') (byKey a') th)"
  proof cases
    case 1
    from 1(1) have "gget (byKey d) k = Some (t, ips)" using byKey_wf [OF assms(1)] by (simp add: wfmap_gget_iff)
    then obtain ips' where g: "gget (byKey d') k = Some (t, ips')" and i: "set ips' = set ips" "distinct ips" "distinct ips'"
      by (rule same_state_byKey [OF assms(1-5)])
    have "case gget (byKey a) k of None \<Rightarrow> gget (byKey a') k = None
       | Some (t, x) \<Rightarrow> (\<exists>y. gget (byKey a') k = Some (t, y) \<and> set x = set y \<and> distinct x \<and> distinct y)"
      using same_state_byKey_None [OF assms(6-10)] same_state_byKey [OF assms(6-10)]
      by (cases "gget (byKey a) k") (auto, metis)
    then have "diffDesired th (byKey a) (k, t, ips) = diffDesired th (byKey a') (k, t, ips')"
      using i by (intro diffDesired_cong) auto
    then show ?thesis using 1(2) gget_in_set [OF g] unfolding unsortedDiff_def by auto
  next
    case 2
    from 2(1) have "gget (byKey a) k = Some (t, ips)" using byKey_wf [OF assms(6)] by (simp add: wfmap_gget_iff)
    then obtain ips' where g: "gget (byKey a') k = Some (t, ips')"
      by (rule same_state_byKey [OF assms(6-10)])
    have "gget (byKey d') k = None"
      by (rule same_state_byKey_None [OF assms(1-5) diffActual_cases(3) [OF 2(2)]])
    then have "x \<in> set (diffActual (byKey d') (k, t, ips'))" using 2(2)
      by (auto simp: diffActual_def split: option.splits)
    then show ?thesis using gget_in_set [OF g] unfolding unsortedDiff_def by auto
  qed
qed

lemma ComputeDiff_in_targets:
  assumes "wf_state d" "wf_state a" "canonical_targets d" "canonical_targets a" "x \<in> set (ComputeDiff d a th)"
  shows "act_Target x \<in> set (gkeys d) \<union> set (gkeys a)"
  using assms(5) unfolding ComputeDiff_set unsortedDiff_def set_append
proof
  assume "x \<in> set (concat (map (diffDesired (effectiveThreshold th) (byKey a)) (byKey d)))"
  then obtain k t ips where "(k, t, ips) \<in> set (byKey d)" "act_Target x = t"
    using diffDesired_cases(1) by fastforce
  then show ?thesis using byKey_mem_iff [OF assms(1,3)] byKey_wf [OF assms(1)]
    by (metis UnI1 fst_conv gget_in_set image_eqI list.set_map wfmap_gget_iff)
next
  assume "x \<in> set (concat (map (diffActual (byKey d)) (byKey a)))"
  then obtain k t ips where "(k, t, ips) \<in> set (byKey a)" "act_Target x = t"
    using diffActual_cases(1) by fastforce
  then show ?thesis using byKey_mem_iff [OF assms(2,4)] byKey_wf [OF assms(2)]
    by (metis UnI2 fst_conv gget_in_set image_eqI list.set_map wfmap_gget_iff)
qed

lemma ComputeDiff_target:
  assumes "wf_state d" "wf_state a" "canonical_targets d" "canonical_targets a" "x \<in> set (ComputeDiff d a th)"
  shows "tgt_FullResourceID (act_Target x) = canonicalASGResourceID (tgt_SubscriptionID (act_Target x))
           (tgt_ResourceGroup (act_Target x)) (tgt_ASGName (act_Target x))"
  using ComputeDiff_in_targets [OF assms] assms(3,4) by (auto simp: canonical_targets_def)

lemma actionSortKey_inj:
  assumes "wf_state d" "wf_state a" "canonical_targets d" "canonical_targets a"
  shows "inj_on actionSortKey (set (ComputeDiff d a th))"
proof (rule inj_onI)
  fix x y
  assume xy: "x \<in> set (ComputeDiff d a th)" "y \<in> set (ComputeDiff d a th)" and eq: "actionSortKey x = actionSortKey y"
  have "act_Target x = act_Target y"
    using eq ComputeDiff_target [OF assms xy(1)] ComputeDiff_target [OF assms xy(2)]
    by (simp add: actionSortKey_def)
  then have "actionKey x = actionKey y" by simp
  then show "x = y" using ComputeDiff_distinct [OF assms(1,2), of th] xy by (auto simp: distinct_map inj_on_def)
qed

lemma length_computeIPDelta:
  assumes "distinct d" and "distinct a"
  shows "length (fst (computeIPDelta d a)) = card (set d - set a)"
    and "length (snd (computeIPDelta d a)) = card (set a - set d)"
  using distinct_card [of "filter (\<lambda>ip. ip \<notin> set a) d"] distinct_card [of "filter (\<lambda>ip. ip \<notin> set d) a"] assms
  by (simp_all add: computeIPDelta_def set_diff_eq)

lemma ex_keys_distinct:
  "targetKey (ex_target ''web'') \<noteq> targetKey (ex_target ''new'')"
  "targetKey (ex_target ''web'') \<noteq> targetKey (ex_target ''old'')"
  by code_simp+

lemma ex_targets_distinct: "ex_target n = ex_target n' \<longleftrightarrow> n = n'"
  by (auto simp: ex_target_def)

lemma ex_wf: "wf_state ex_desired" "wf_state ex_actual"
  by (simp_all add: wf_state_def ex_desired_def ex_actual_def ex_targets_distinct)

lemma ex_canonical: "canonical_targets ex_desired" "canonical_targets ex_actual"
  using ex_keys_distinct
  by (auto simp: canonical_targets_def ex_desired_def ex_actual_def ex_target_def inj_on_def)

lemma ex_byKey:
  "byKey ex_desired = [(targetKey (ex_target ''web''), ex_target ''web'', [''a'', ''b'']),
     (targetKey (ex_target ''new''), ex_target ''new'', [])]"
  "byKey ex_actual = [(targetKey (ex_target ''web''), ex_target ''web'', [''a'']),
     (targetKey (ex_target ''old''), ex_target ''old'', [''c''])]"
  using ex_keys_distinct by (simp_all add: byKey_def ex_desired_def ex_actual_def)

lemma ComputeDiff_converges:
  assumes "wf_state desired" and "wf_state actual"
  shows "fold apply_action (ComputeDiff desired actual threshold) (view actual) = view desired"
proof
  fix k
  show "fold apply_action (ComputeDiff desired actual threshold) (view actual) k = view desired k"
  proof (cases "k \<in> actionKey ` set (ComputeDiff desired actual threshold)")
    case True
    then obtain x where "x \<in> set (ComputeDiff desired actual threshold)" "k = actionKey x" by blast
    then show ?thesis
      using fold_apply_mem [OF ComputeDiff_distinct [OF assms]] ComputeDiff_effect [OF assms] by simp
  next
    case False
    then show ?thesis using no_action_same_view [OF assms False] by (simp add: fold_apply_other)
  qed
qed

section \<open>Properties\<close>

text \<open>C16:
  Applying the actions of \<open>ComputeDiff\<close> to the actual state, in their order, gives
  exactly the desired state, for every patch threshold.
\<close>

theorem diff_converges:
  assumes "wf_state desired" and "wf_state actual"
  shows "fold apply_action (ComputeDiff desired actual threshold) (view actual) = view desired"
  using assms by (rule ComputeDiff_converges)

theorem diff_converges_witness:
  "wf_state ex_desired \<and> wf_state ex_actual \<and>
   fold apply_action (ComputeDiff ex_desired ex_actual 50) (view ex_actual) = view ex_desired"
  using diff_converges [of ex_desired ex_actual 50] ex_wf by simp

text \<open>There is one action for each key whose desired and actual prefixes differ, and none for
  any other key.
\<close>

theorem diff_targets_exact:
  assumes "wf_state desired" and "wf_state actual"
  shows "set (map actionKey (ComputeDiff desired actual threshold)) = {k. view actual k \<noteq> view desired k} \<and>
         distinct (map actionKey (ComputeDiff desired actual threshold))"
proof (intro conjI subset_antisym subsetI)
  fix k assume "k \<in> {k. view actual k \<noteq> view desired k}"
  then show "k \<in> set (map actionKey (ComputeDiff desired actual threshold))"
    using no_action_same_view [OF assms, of k threshold] by auto
qed (use ComputeDiff_distinct [OF assms] action_changes_view [OF assms] in auto)

theorem diff_targets_exact_witness:
  "wf_state ex_desired \<and> wf_state ex_actual \<and>
   set (map actionKey (ComputeDiff ex_desired ex_actual 50)) = {k. view ex_actual k \<noteq> view ex_desired k} \<and>
   distinct (map actionKey (ComputeDiff ex_desired ex_actual 50))"
  using diff_targets_exact [of ex_desired ex_actual 50] ex_wf by blast

text \<open>A patch action adds exactly the desired prefixes that are missing and removes exactly the
  actual ones that are not desired, both sorted, and only when these changes are at most the
  effective threshold percentage of the sizes of both sets.
\<close>

theorem diff_patch_exact:
  assumes "wf_state desired" and "wf_state actual"
    and "x \<in> set (ComputeDiff desired actual threshold)" and "act_Kind x = PatchPrefixSet"
  shows "\<exists>D A. view desired (actionKey x) = Some D \<and> view actual (actionKey x) = Some A \<and>
    set (act_AddIPs x) = D - A \<and> set (act_RemoveIPs x) = A - D \<and>
    sorted (act_AddIPs x) \<and> sorted (act_RemoveIPs x) \<and>
    100 * (card (D - A) + card (A - D)) \<le> nat (effectiveThreshold threshold) * (card D + card A)"
  using keyed_byKey [OF assms(1)] keyed_byKey [OF assms(2)] assms(3) [unfolded ComputeDiff_set]
proof (cases rule: unsortedDiff_cases)
  case (desired t ips)
  from desired(2) assms(4) obtain t' aips where g: "gget (byKey actual) (actionKey x) = Some (t', aips)"
    and d: "computeIPDelta ips aips = (act_AddIPs x, act_RemoveIPs x)"
    and p: "shouldUsePatch (int (length (act_AddIPs x))) (int (length (act_RemoveIPs x))) (int (length ips))
              (int (length aips)) (effectiveThreshold threshold)"
    by (auto simp: diffDesired_def computeIPDelta_def split: option.splits if_splits)
  have di: "distinct ips" "distinct aips"
    using byKey_entry(2) [OF assms(1)] byKey_entry(2) [OF assms(2)] gget_in_set [OF desired(1)] gget_in_set [OF g] by blast+
  have "length (act_AddIPs x) = card (set ips - set aips)" "length (act_RemoveIPs x) = card (set aips - set ips)"
    using d di length_computeIPDelta by fastforce+
  moreover have "length ips = card (set ips)" "length aips = card (set aips)" using di by (simp_all add: distinct_card)
  moreover have "effectiveThreshold threshold \<ge> 0" by (simp add: effectiveThreshold_def DefaultPatchThresholdPercent_def)
  ultimately have "int (100 * (card (set ips - set aips) + card (set aips - set ips)))
      \<le> int (nat (effectiveThreshold threshold) * (card (set ips) + card (set aips)))"
    using p by (simp add: shouldUsePatch_def Let_def split: if_splits)
  then have "100 * (card (set ips - set aips) + card (set aips - set ips))
      \<le> nat (effectiveThreshold threshold) * (card (set ips) + card (set aips))"
    by (simp only: of_nat_le_iff)
  moreover have "set (act_AddIPs x) = set ips - set aips" "set (act_RemoveIPs x) = set aips - set ips"
    "sorted (act_AddIPs x)" "sorted (act_RemoveIPs x)" using d [symmetric] by (auto simp: computeIPDelta_def)
  ultimately show ?thesis using desired(1) g by (simp add: view_def)
qed (use assms(4) in simp)

theorem diff_patch_exact_witness:
  "\<exists>x \<in> set (ComputeDiff ex_desired ex_actual 50). act_Kind x = PatchPrefixSet \<and>
     (\<exists>D A. view ex_desired (actionKey x) = Some D \<and> view ex_actual (actionKey x) = Some A \<and>
        set (act_AddIPs x) = D - A \<and> set (act_RemoveIPs x) = A - D)"
proof -
  let ?x = "\<lparr>act_Kind = PatchPrefixSet, act_Target = ex_target ''web'', act_DesiredIPs = [''a'', ''b''],
    act_AddIPs = [''b''], act_RemoveIPs = []\<rparr>"
  have m: "?x \<in> set (ComputeDiff ex_desired ex_actual 50)"
    unfolding ComputeDiff_set ex_byKey
    by (simp add: unsortedDiff_def diffDesired_def ipSetsEqual_def computeIPDelta_def shouldUsePatch_def
        effectiveThreshold_def sortedIPs_def)
  then show ?thesis
    using diff_patch_exact [OF ex_wf m] by (intro bexI [of _ ?x]) auto
qed

text \<open>
  The list of actions does not depend on the iteration order of the two maps or of the sets
  in them, provided targets have canonical identifiers and distinct keys.
\<close>

theorem diff_order_independent:
  assumes "wf_state d" "canonical_targets d" "wf_state d'" "canonical_targets d'" "same_state d d'"
    and "wf_state a" "canonical_targets a" "wf_state a'" "canonical_targets a'" "same_state a a'"
  shows "ComputeDiff d a threshold = ComputeDiff d' a' threshold"
proof -
  let ?th = "effectiveThreshold threshold"
  let ?u = "unsortedDiff (byKey d) (byKey a) ?th" and ?v = "unsortedDiff (byKey d') (byKey a') ?th"
  have "set ?u = set ?v"
    using same_state_unsortedDiff [OF assms]
      same_state_unsortedDiff [OF assms(3,4,1,2) same_state_sym [OF assms(5)] assms(8,9,6,7) same_state_sym [OF assms(10)]]
    by blast
  moreover have "distinct ?u" "distinct ?v"
    using unsortedDiff_distinct keyed_byKey assms(1,3,6,8) distinct_map by metis+
  ultimately have "mset ?u = mset ?v" using set_eq_iff_mset_eq_distinct by blast
  moreover have "inj_on actionSortKey (set ?u)"
    using actionSortKey_inj [OF assms(1,6,2,7)] unfolding ComputeDiff_set .
  ultimately show ?thesis unfolding ComputeDiff_def
    by (intro sort_key_inj_key_eq) auto
qed

theorem diff_order_independent_witness:
  "same_state ex_desired (rev ex_desired) \<and> same_state ex_actual (rev ex_actual) \<and>
   ComputeDiff ex_desired ex_actual 50 = ComputeDiff (rev ex_desired) (rev ex_actual) 50"
proof -
  have w: "wf_state (rev ex_desired)" "wf_state (rev ex_actual)"
    by (simp_all add: wf_state_def ex_desired_def ex_actual_def ex_targets_distinct)
  have c: "canonical_targets (rev ex_desired)" "canonical_targets (rev ex_actual)"
    using ex_canonical by (simp_all add: canonical_targets_def rev_map)
  have e: "same_state ex_desired (rev ex_desired)" "same_state ex_actual (rev ex_actual)"
    by (simp_all add: same_state_def ex_desired_def ex_actual_def ex_targets_distinct)
  show ?thesis
    using e diff_order_independent [OF ex_wf(1) ex_canonical(1) w(1) c(1) e(1) ex_wf(2) ex_canonical(2) w(2) c(2) e(2)]
    by simp
qed

end
