(* ===== verification/Desired_State.thy ===== *)
theory Desired_State
  imports Net_Ip Diff
begin

text \<open>
  Desired state from mappings and pods: \<open>internal/engine/desired_state.go\<close>
  (\<open>ComputeDesiredState\<close>) and \<open>internal/engine/desired_state_snapshot.go\<close> (the
  snapshot-aware variant and the single-pass recompute artifacts). The specification is the
  set of prefixes wanted under a target key; the three computations are compared with it and
  with each other.

  A nil map of the code reads as the empty map. Pointers into the \<open>internal\<close> map are
  modelled by updating the entry in the map.
\<close>

record internalEntry =
  int_target :: ASGTarget
  int_ips :: "string goset"

type_synonym internal = "(string, internalEntry) gomap"

record PodIdentity =
  id_Namespace :: string
  id_Name :: string
  id_UID :: string

record PodMembership =
  mem_PodIP :: string

record PodSnapshot =
  snap_Pods :: "(PodIdentity, PodMembership) gomap"

definition pod_id :: "Pod \<Rightarrow> PodIdentity" where
  "pod_id pod = \<lparr>id_Namespace = p_Namespace pod, id_Name = p_Name pod, id_UID = p_UID pod\<rparr>"

text \<open>\<open>podsByNamespace[pod.Namespace] = append(podsByNamespace[pod.Namespace], pod)\<close> for every pod.\<close>

definition groupByNamespace :: "Pod list \<Rightarrow> (string, Pod list) gomap" where
  "groupByNamespace pods =
     fold (\<lambda>pod acc. gput (p_Namespace pod) (gget_or [] acc (p_Namespace pod) @ [pod]) acc) pods []"

text \<open>The entry of a key, created on first use, with prefixes added to it.\<close>

definition add_to_entry :: "string \<Rightarrow> ASGTarget \<Rightarrow> string list \<Rightarrow> internal \<Rightarrow> internal" where
  "add_to_entry normKey target ips internal =
     (let entry = (case gget internal normKey of
                     Some e \<Rightarrow> e | None \<Rightarrow> \<lparr>int_target = target, int_ips = []\<rparr>)
      in gput normKey (entry\<lparr>int_ips := fold sadd ips (int_ips entry)\<rparr>) internal)"

definition result_of :: "internal \<Rightarrow> desired_state" where
  "result_of internal = fold (\<lambda>(_, entry) acc. gput (int_target entry) (int_ips entry) acc) internal []"

section \<open>\<open>ComputeDesiredState\<close>\<close>

text \<open>The addresses of the matched pods of a rule.\<close>

fun matchedIPs :: "matcher \<Rightarrow> Selector \<Rightarrow> Pod list \<Rightarrow> string list" where
  "matchedIPs M selector [] = []"
| "matchedIPs M selector (pod # pods) =
     (if \<not> M selector (p_Labels pod) then matchedIPs M selector pods
      else if p_PodIP pod \<noteq> [] then toCIDR (p_PodIP pod) # matchedIPs M selector pods
      else matchedIPs M selector pods)"

definition desired_ref :: "string \<Rightarrow> string list \<Rightarrow> ASGReference \<Rightarrow> internal \<Rightarrow> internal" where
  "desired_ref prefixSetName ips asgRef internal =
     (case ParseASGResourceID (ref_ResourceID asgRef) of
        Inl _ \<Rightarrow> internal
      | Inr parsed \<Rightarrow>
          add_to_entry (targetIdentityKey (par_FullResourceID parsed) prefixSetName)
            (target_of parsed prefixSetName) ips internal)"

definition desired_rule :: "matcher \<Rightarrow> string \<Rightarrow> Pod list \<Rightarrow> Mapping \<Rightarrow> internal \<Rightarrow> internal" where
  "desired_rule M prefixSetName namespacePods rule internal =
     (case CompileSelector (rule_PodSelector rule) of
        Inl _ \<Rightarrow> internal
      | Inr selector \<Rightarrow>
          fold (desired_ref prefixSetName (matchedIPs M selector namespacePods)) (rule_ASGs rule) internal)"

definition desired_mapping :: "matcher \<Rightarrow> string \<Rightarrow> (string, Pod list) gomap \<Rightarrow> PodASGMapping \<Rightarrow>
    internal \<Rightarrow> internal" where
  "desired_mapping M clusterName podsByNamespace m internal =
     fold (desired_rule M (OwnershipKey clusterName (m_Namespace m) (m_Name m))
             (gget_or [] podsByNamespace (m_Namespace m)))
       (m_Mappings m) internal"

definition ComputeDesiredState :: "matcher \<Rightarrow> string \<Rightarrow> PodASGMapping list \<Rightarrow> Pod list \<Rightarrow> desired_state" where
  "ComputeDesiredState M clusterName mappings pods =
     result_of (fold (desired_mapping M clusterName (groupByNamespace pods)) mappings [])"

section \<open>Matching and precompiled mappings\<close>

definition matchPodToRuleIndices :: "matcher \<Rightarrow> PodASGMapping \<Rightarrow> labels \<Rightarrow> nat list" where
  "matchPodToRuleIndices M mapping podLabels =
     map fst (filter (\<lambda>(i, rule). case CompileSelector (rule_PodSelector rule) of
                                    Inl _ \<Rightarrow> False | Inr selector \<Rightarrow> M selector podLabels)
                (List.enumerate 0 (m_Mappings mapping)))"

fun resolveTargets :: "ASGReference list \<Rightarrow> string \<Rightarrow> ASGTarget list" where
  "resolveTargets [] prefixSetName = []"
| "resolveTargets (asgRef # refs) prefixSetName =
     (case ParseASGResourceID (ref_ResourceID asgRef) of
        Inl _ \<Rightarrow> resolveTargets refs prefixSetName
      | Inr parsed \<Rightarrow> target_of parsed prefixSetName # resolveTargets refs prefixSetName)"

definition resolveRuleTargets :: "Mapping \<Rightarrow> string \<Rightarrow> ASGTarget list" where
  "resolveRuleTargets rule prefixSetName = resolveTargets (rule_ASGs rule) prefixSetName"

record precompiledMapping =
  pc_selectors :: "Selector option list"
  pc_targets :: "ASGTarget list list"

definition precompileMapping :: "PodASGMapping \<Rightarrow> string \<Rightarrow> precompiledMapping" where
  "precompileMapping mapping prefixSetName =
     \<lparr>pc_selectors = map (\<lambda>rule. case CompileSelector (rule_PodSelector rule) of
                                    Inl _ \<Rightarrow> None | Inr sel \<Rightarrow> Some sel) (m_Mappings mapping),
      pc_targets = map (\<lambda>rule. resolveRuleTargets rule prefixSetName) (m_Mappings mapping)\<rparr>"

definition matchPod :: "matcher \<Rightarrow> precompiledMapping \<Rightarrow> labels \<Rightarrow> nat list" where
  "matchPod M pc podLabels =
     map fst (filter (\<lambda>(i, sel). case sel of None \<Rightarrow> False | Some s \<Rightarrow> M s podLabels)
                (List.enumerate 0 (pc_selectors pc)))"

section \<open>\<open>ComputeDesiredStateWithSnapshot\<close>\<close>

text \<open>Adding one prefix to every target of every matched rule.\<close>

definition add_matched :: "precompiledMapping \<Rightarrow> string \<Rightarrow> string \<Rightarrow> nat list \<Rightarrow> internal \<Rightarrow> internal" where
  "add_matched pc prefixSetName cidr matchedIndices internal =
     fold (\<lambda>ruleIdx. fold (\<lambda>target. add_to_entry (targetIdentityKey (tgt_FullResourceID target) prefixSetName)
                                      target [cidr])
                       (pc_targets pc ! ruleIdx))
       matchedIndices internal"

definition snapshot_pod :: "matcher \<Rightarrow> precompiledMapping \<Rightarrow> string \<Rightarrow> Pod \<Rightarrow>
    internal \<times> PodSnapshot \<Rightarrow> internal \<times> PodSnapshot" where
  "snapshot_pod M pc prefixSetName pod acc =
     (if p_PodIP pod = [] then acc
      else let matchedIndices = matchPod M pc (p_Labels pod) in
        if matchedIndices = [] then acc
        else let cidr = toCIDR (p_PodIP pod) in
          (add_matched pc prefixSetName cidr matchedIndices (fst acc),
           \<lparr>snap_Pods = gput (pod_id pod) \<lparr>mem_PodIP = p_PodIP pod\<rparr> (snap_Pods (snd acc))\<rparr>))"

definition snapshot_mapping :: "matcher \<Rightarrow> string \<Rightarrow> (string, Pod list) gomap \<Rightarrow> PodASGMapping \<Rightarrow>
    internal \<times> PodSnapshot \<Rightarrow> internal \<times> PodSnapshot" where
  "snapshot_mapping M clusterName podsByNamespace m acc =
     (let prefixSetName = OwnershipKey clusterName (m_Namespace m) (m_Name m);
          pc = precompileMapping m prefixSetName
      in fold (snapshot_pod M pc prefixSetName) (gget_or [] podsByNamespace (m_Namespace m)) acc)"

definition ComputeDesiredStateWithSnapshot :: "matcher \<Rightarrow> string \<Rightarrow> PodASGMapping list \<Rightarrow> Pod list \<Rightarrow>
    desired_state \<times> PodSnapshot" where
  "ComputeDesiredStateWithSnapshot M clusterName mappings pods =
     (let (internal, snapshot) =
        fold (snapshot_mapping M clusterName (groupByNamespace pods)) mappings ([], \<lparr>snap_Pods = []\<rparr>)
      in (result_of internal, snapshot))"

section \<open>\<open>ComputeDesiredStateRecomputeArtifacts\<close>\<close>

record DesiredStateRecomputeArtifacts =
  art_Desired :: desired_state
  art_Snapshot :: PodSnapshot
  art_MatchedPodsByIndex :: "int list"
  art_HasPendingIPPods :: bool
  art_PodRules :: "(PodIdentity, nat goset) gomap"
  art_PendingIPCount :: int

definition bump :: "int list \<Rightarrow> nat \<Rightarrow> int list" where
  "bump counts i = counts[i := counts ! i + 1]"

text \<open>Counting a pod for one matched rule and recording the rule in \<open>PodRules\<close>.\<close>

definition track_rule :: "PodIdentity \<Rightarrow> nat \<Rightarrow> DesiredStateRecomputeArtifacts \<Rightarrow>
    DesiredStateRecomputeArtifacts" where
  "track_rule podID i arts =
     arts\<lparr>art_MatchedPodsByIndex := bump (art_MatchedPodsByIndex arts) i,
          art_PodRules := gput podID (sadd i (gget_or [] (art_PodRules arts) podID)) (art_PodRules arts)\<rparr>"

definition artifacts_pod :: "matcher \<Rightarrow> precompiledMapping \<Rightarrow> string \<Rightarrow> PodASGMapping \<Rightarrow> Pod \<Rightarrow>
    internal \<times> DesiredStateRecomputeArtifacts \<Rightarrow> internal \<times> DesiredStateRecomputeArtifacts" where
  "artifacts_pod M pc prefixSetName mapping pod acc =
     (if p_Namespace pod \<noteq> m_Namespace mapping then acc
      else let matchedIndices = matchPod M pc (p_Labels pod) in
        if matchedIndices = [] then acc
        else let podID = pod_id pod; arts = fold (track_rule podID) matchedIndices (snd acc) in
          if p_PodIP pod = []
          then (fst acc, arts\<lparr>art_HasPendingIPPods := True, art_PendingIPCount := art_PendingIPCount arts + 1\<rparr>)
          else let cidr = toCIDR (p_PodIP pod) in
            (add_matched pc prefixSetName cidr matchedIndices (fst acc),
             arts\<lparr>art_Snapshot :=
               \<lparr>snap_Pods = gput podID \<lparr>mem_PodIP = p_PodIP pod\<rparr> (snap_Pods (art_Snapshot arts))\<rparr>\<rparr>))"

definition empty_artifacts :: "nat \<Rightarrow> DesiredStateRecomputeArtifacts" where
  "empty_artifacts n =
     \<lparr>art_Desired = [], art_Snapshot = \<lparr>snap_Pods = []\<rparr>, art_MatchedPodsByIndex = replicate n 0,
      art_HasPendingIPPods = False, art_PodRules = [], art_PendingIPCount = 0\<rparr>"

definition ComputeDesiredStateRecomputeArtifacts :: "matcher \<Rightarrow> string \<Rightarrow> PodASGMapping \<Rightarrow> Pod list \<Rightarrow>
    DesiredStateRecomputeArtifacts" where
  "ComputeDesiredStateRecomputeArtifacts M clusterName mapping pods =
     (let prefixSetName = OwnershipKey clusterName (m_Namespace mapping) (m_Name mapping);
          pc = precompileMapping mapping prefixSetName;
          (internal, arts) = fold (artifacts_pod M pc prefixSetName mapping) pods
                               ([], empty_artifacts (length (m_Mappings mapping)))
      in arts\<lparr>art_Desired := result_of internal\<rparr>)"

section \<open>Specification\<close>

definition rule_selects :: "matcher \<Rightarrow> PodASGMapping \<Rightarrow> Mapping \<Rightarrow> Pod \<Rightarrow> bool" where
  "rule_selects M m rule pod \<longleftrightarrow> p_Namespace pod = m_Namespace m \<and>
     (case CompileSelector (rule_PodSelector rule) of Inl _ \<Rightarrow> False | Inr s \<Rightarrow> M s (p_Labels pod))"

definition prefix_set_name :: "string \<Rightarrow> PodASGMapping \<Rightarrow> string" where
  "prefix_set_name clusterName m = OwnershipKey clusterName (m_Namespace m) (m_Name m)"

definition rule_keys :: "string \<Rightarrow> PodASGMapping \<Rightarrow> Mapping \<Rightarrow> string list" where
  "rule_keys clusterName m rule = map targetKey (resolveRuleTargets rule (prefix_set_name clusterName m))"

text \<open>The prefixes wanted under a key, and whether some rule names the key at all.\<close>

definition wanted :: "matcher \<Rightarrow> string \<Rightarrow> PodASGMapping list \<Rightarrow> Pod list \<Rightarrow> string \<Rightarrow> string set" where
  "wanted M clusterName mappings pods key =
     {toCIDR (p_PodIP p) | m rule p. m \<in> set mappings \<and> rule \<in> set (m_Mappings m) \<and>
        key \<in> set (rule_keys clusterName m rule) \<and> p \<in> set pods \<and> rule_selects M m rule p \<and> p_PodIP p \<noteq> []}"

definition declared :: "string \<Rightarrow> PodASGMapping list \<Rightarrow> string \<Rightarrow> bool" where
  "declared clusterName mappings key \<longleftrightarrow>
     (\<exists>m \<in> set mappings. \<exists>rule \<in> set (m_Mappings m). key \<in> set (rule_keys clusterName m rule))"

definition selected_by :: "matcher \<Rightarrow> PodASGMapping \<Rightarrow> Pod \<Rightarrow> bool" where
  "selected_by M m pod \<longleftrightarrow> (\<exists>rule \<in> set (m_Mappings m). rule_selects M m rule pod)"

text \<open>
  A contribution is a key, its target and prefixes; the three computations fold
  contributions into the \<open>internal\<close> map.
\<close>

type_synonym contrib = "string \<times> ASGTarget \<times> string list"

definition add_contribs :: "contrib list \<Rightarrow> internal \<Rightarrow> internal" where
  "add_contribs cs internal = fold (\<lambda>(k, t, ips). add_to_entry k t ips) cs internal"

definition target_contribs :: "ASGTarget list \<Rightarrow> string list \<Rightarrow> contrib list" where
  "target_contribs ts ips = map (\<lambda>t. (targetKey t, t, ips)) ts"

definition rule_matches :: "matcher \<Rightarrow> Mapping \<Rightarrow> labels \<Rightarrow> bool" where
  "rule_matches M rule ls \<longleftrightarrow>
     (case CompileSelector (rule_PodSelector rule) of Inl _ \<Rightarrow> False | Inr s \<Rightarrow> M s ls)"

definition rule_contribs :: "matcher \<Rightarrow> string \<Rightarrow> Pod list \<Rightarrow> Mapping \<Rightarrow> contrib list" where
  "rule_contribs M psn pods rule =
     (case CompileSelector (rule_PodSelector rule) of
        Inl _ \<Rightarrow> [] | Inr s \<Rightarrow> target_contribs (resolveRuleTargets rule psn) (matchedIPs M s pods))"

definition pod_contribs :: "matcher \<Rightarrow> string \<Rightarrow> PodASGMapping \<Rightarrow> Pod \<Rightarrow> contrib list" where
  "pod_contribs M psn m pod =
     (if p_PodIP pod = [] then []
      else concat (map (\<lambda>i. target_contribs (resolveRuleTargets (m_Mappings m ! i) psn) [toCIDR (p_PodIP pod)])
                     (matchPodToRuleIndices M m (p_Labels pod))))"

definition all_pod_contribs :: "matcher \<Rightarrow> string \<Rightarrow> PodASGMapping list \<Rightarrow> Pod list \<Rightarrow> contrib list" where
  "all_pod_contribs M cl ms pods = concat (map (\<lambda>m. concat (map (pod_contribs M (prefix_set_name cl m) m)
     (filter (\<lambda>p. p_Namespace p = m_Namespace m) pods))) ms)"

definition all_rule_contribs :: "matcher \<Rightarrow> string \<Rightarrow> PodASGMapping list \<Rightarrow> Pod list \<Rightarrow> contrib list" where
  "all_rule_contribs M cl ms pods = concat (map (\<lambda>m. concat (map (rule_contribs M (prefix_set_name cl m)
     (filter (\<lambda>p. p_Namespace p = m_Namespace m) pods)) (m_Mappings m))) ms)"

definition art_fold :: "matcher \<Rightarrow> string \<Rightarrow> PodASGMapping \<Rightarrow> Pod list \<Rightarrow> internal \<times> DesiredStateRecomputeArtifacts" where
  "art_fold M cl m pods = fold (artifacts_pod M (precompileMapping m (prefix_set_name cl m)) (prefix_set_name cl m) m) pods
     ([], empty_artifacts (length (m_Mappings m)))"

text \<open>
  What the per-pod maps must hold for the pods of a cluster: the rules a selected pod matches,
  and the address of every selected pod that has one.
\<close>

definition rules_ok :: "matcher \<Rightarrow> PodASGMapping \<Rightarrow> Pod list \<Rightarrow> (PodIdentity, nat goset) gomap \<Rightarrow> bool" where
  "rules_ok M m pods R \<longleftrightarrow> (\<forall>x.
     case gget R x of
       None \<Rightarrow> \<forall>p \<in> set pods. pod_id p = x \<longrightarrow> \<not> selected_by M m p
     | Some r \<Rightarrow> \<exists>p \<in> set pods. pod_id p = x \<and> selected_by M m p \<and>
         set r = set (matchPodToRuleIndices M m (p_Labels p)))"

definition snap_ok :: "matcher \<Rightarrow> PodASGMapping \<Rightarrow> Pod list \<Rightarrow> (PodIdentity, PodMembership) gomap \<Rightarrow> bool" where
  "snap_ok M m pods S \<longleftrightarrow> (\<forall>x.
     case gget S x of
       None \<Rightarrow> \<forall>p \<in> set pods. pod_id p = x \<longrightarrow> \<not> (selected_by M m p \<and> p_PodIP p \<noteq> [])
     | Some mem \<Rightarrow> \<exists>p \<in> set pods. pod_id p = x \<and> selected_by M m p \<and> p_PodIP p \<noteq> [] \<and>
         mem_PodIP mem = p_PodIP p)"

definition ips_at :: "internal \<Rightarrow> string \<Rightarrow> string set option" where
  "ips_at m k = map_option (\<lambda>e. set (int_ips e)) (gget m k)"

definition wf_internal :: "internal \<Rightarrow> bool" where
  "wf_internal m \<longleftrightarrow> wfmap m \<and>
     (\<forall>e \<in> set m. targetKey (int_target (snd e)) = fst e \<and> distinct (int_ips (snd e)))"

section \<open>Lemmas\<close>

lemma gput_new: "k \<notin> set (gkeys m) \<Longrightarrow> gput k v m = m @ [(k, v)]"
  by (induction m) auto

lemma fold_gput_new:
  "distinct (map f xs) \<Longrightarrow> set (map f xs) \<inter> set (gkeys acc) = {} \<Longrightarrow>
     fold (\<lambda>x. gput (f x) (g x)) xs acc = acc @ map (\<lambda>x. (f x, g x)) xs"
proof (induction xs arbitrary: acc)
  case (Cons x xs)
  then have "gput (f x) (g x) acc = acc @ [(f x, g x)]" by (intro gput_new) auto
  with Cons show ?case by auto
qed simp

lemma groupByNamespace_get: "gget_or [] (groupByNamespace pods) ns = filter (\<lambda>p. p_Namespace p = ns) pods"
proof -
  have "gget_or [] (fold (\<lambda>pod acc. gput (p_Namespace pod) (gget_or [] acc (p_Namespace pod) @ [pod]) acc) pods acc) ns =
    gget_or [] acc ns @ filter (\<lambda>p. p_Namespace p = ns) pods" for acc
    by (induction pods arbitrary: acc) auto
  then show ?thesis by (simp add: groupByNamespace_def)
qed

subsection \<open>Entries\<close>

lemma ips_at_add_to_entry:
  "ips_at (add_to_entry k t ips m) k' =
     (if k' = k then Some (set ips \<union> (case ips_at m k of None \<Rightarrow> {} | Some s \<Rightarrow> s)) else ips_at m k')"
  by (auto simp: ips_at_def add_to_entry_def Let_def split: option.splits)

lemma ips_at_add_contribs:
  "ips_at (add_contribs cs m) k =
     (if ips_at m k = None \<and> k \<notin> fst ` set cs then None
      else Some ((case ips_at m k of None \<Rightarrow> {} | Some s \<Rightarrow> s) \<union> \<Union> {set ips | t ips. (k, t, ips) \<in> set cs}))"
proof (induction cs arbitrary: m)
  case (Cons c cs)
  obtain k0 t0 ips0 where c: "c = (k0, t0, ips0)" by (cases c)
  have "add_contribs (c # cs) m = add_contribs cs (add_to_entry k0 t0 ips0 m)"
    by (simp add: add_contribs_def c)
  then show ?case by (auto simp: Cons.IH ips_at_add_to_entry c split: option.splits)
qed (auto simp: add_contribs_def split: option.splits)

lemma wf_internal_add_to_entry:
  assumes "wf_internal m" and "k = targetKey t"
  shows "wf_internal (add_to_entry k t ips m)"
proof (cases "gget m k")
  case (Some e)
  then have "targetKey (int_target e) = k" "distinct (int_ips e)"
    using assms(1) gget_in_set [OF Some] by (auto simp: wf_internal_def)
  with assms(1) Some show ?thesis
    unfolding wf_internal_def add_to_entry_def Let_def by (intro conjI wfmap_gput gput_Ball) auto
next
  case None
  with assms show ?thesis
    unfolding wf_internal_def add_to_entry_def Let_def by (intro conjI wfmap_gput gput_Ball) auto
qed

lemma wf_internal_add_contribs:
  "wf_internal m \<Longrightarrow> \<forall>(k, t, ips) \<in> set cs. k = targetKey t \<Longrightarrow> wf_internal (add_contribs cs m)"
  unfolding add_contribs_def
  by (induction cs arbitrary: m) (auto simp: wf_internal_add_to_entry)

lemma wf_internal_Nil [simp]: "wf_internal []"
  by (simp add: wf_internal_def)

lemma add_contribs_append: "add_contribs (cs @ ds) m = add_contribs ds (add_contribs cs m)"
  by (simp add: add_contribs_def)

lemma wf_internal_keys: "wf_internal m \<Longrightarrow> map (\<lambda>x. targetKey (int_target (snd x))) m = gkeys m"
  by (intro map_cong) (auto simp: wf_internal_def)

lemma wf_internal_targets:
  assumes "wf_internal m"
  shows "distinct (map (\<lambda>x. int_target (snd x)) m)"
proof -
  have "distinct (map targetKey (map (\<lambda>x. int_target (snd x)) m))"
    unfolding map_map comp_def wf_internal_keys [OF assms] using assms by (simp add: wf_internal_def)
  then show ?thesis by (rule distinct_map [THEN iffD1, THEN conjunct1])
qed

lemma result_of_eq:
  assumes "wf_internal m"
  shows "result_of m = map (\<lambda>x. (int_target (snd x), int_ips (snd x))) m"
  unfolding result_of_def split_beta using wf_internal_targets [OF assms] by (subst fold_gput_new) auto

lemma byKey_result_of:
  assumes "wf_internal m"
  shows "byKey (result_of m) = map (\<lambda>x. (fst x, int_target (snd x), int_ips (snd x))) m"
proof -
  have "distinct (map (\<lambda>x. targetKey (int_target (snd x))) m)"
    unfolding wf_internal_keys [OF assms] using assms by (simp add: wf_internal_def)
  then have "byKey (result_of m) = map (\<lambda>x. (targetKey (int_target (snd x)), int_target (snd x), int_ips (snd x))) m"
    unfolding byKey_def result_of_eq [OF assms] fold_map comp_def split_conv
    by (subst fold_gput_new) auto
  also have "\<dots> = map (\<lambda>x. (fst x, int_target (snd x), int_ips (snd x))) m"
    using assms by (intro map_cong) (auto simp: wf_internal_def)
  finally show ?thesis .
qed

lemma view_result_of: "wf_internal m \<Longrightarrow> view (result_of m) k = ips_at m k"
proof -
  assume "wf_internal m"
  moreover have "gget (map (\<lambda>x. (fst x, int_target (snd x), int_ips (snd x))) m) k =
      map_option (\<lambda>e. (int_target e, int_ips e)) (gget m k)"
    by (induction m) auto
  ultimately show ?thesis
    by (simp add: view_def byKey_result_of ips_at_def option.map_comp comp_def)
qed

lemma wf_state_result_of:
  assumes "wf_internal m"
  shows "wf_state (result_of m)"
proof -
  have "distinct (map (\<lambda>x. int_target (snd x)) m)" by (rule wf_internal_targets [OF assms])
  then show ?thesis using assms
    by (auto simp: wf_state_def result_of_eq comp_def wf_internal_def)
qed

subsection \<open>Targets and matching\<close>

lemma resolveTargets_key:
  "t \<in> set (resolveTargets refs psn) \<Longrightarrow> targetIdentityKey (tgt_FullResourceID t) psn = targetKey t"
proof (induction refs)
  case (Cons r refs)
  show ?case
  proof (cases "ParseASGResourceID (ref_ResourceID r)")
    case (Inr p)
    with Cons show ?thesis using targetKey_target_of [OF Inr] by (auto simp: target_of_def)
  qed (use Cons in simp)
qed simp

lemma rule_target_key:
  "t \<in> set (resolveRuleTargets rule psn) \<Longrightarrow> targetIdentityKey (tgt_FullResourceID t) psn = targetKey t"
  unfolding resolveRuleTargets_def by (rule resolveTargets_key)

lemma matchPod_precompile: "matchPod M (precompileMapping m psn) ls = matchPodToRuleIndices M m ls"
proof -
  have "map fst (filter (\<lambda>(i, sel). case sel of None \<Rightarrow> False | Some s \<Rightarrow> M s ls)
      (List.enumerate n (map (\<lambda>rule. case CompileSelector (rule_PodSelector rule) of Inl _ \<Rightarrow> None | Inr sel \<Rightarrow> Some sel) rs))) =
    map fst (filter (\<lambda>(i, rule). case CompileSelector (rule_PodSelector rule) of Inl _ \<Rightarrow> False | Inr selector \<Rightarrow> M selector ls)
      (List.enumerate n rs))" for n rs
    by (induction rs arbitrary: n) (auto split: sum.splits)
  then show ?thesis by (simp add: matchPod_def precompileMapping_def matchPodToRuleIndices_def)
qed

lemma set_matchPodToRuleIndices:
  "set (matchPodToRuleIndices M m ls) = {i. i < length (m_Mappings m) \<and> rule_matches M (m_Mappings m ! i) ls}"
  unfolding matchPodToRuleIndices_def rule_matches_def
  by (auto simp: in_set_enumerate_eq image_iff split: sum.splits)

lemma distinct_matchPodToRuleIndices: "distinct (matchPodToRuleIndices M m ls)"
  by (simp add: matchPodToRuleIndices_def distinct_map_filter)

lemma rule_selects_iff: "rule_selects M m rule p \<longleftrightarrow> p_Namespace p = m_Namespace m \<and> rule_matches M rule (p_Labels p)"
  by (simp add: rule_selects_def rule_matches_def)

lemma set_matchedIPs:
  "set (matchedIPs M s pods) = {toCIDR (p_PodIP p) | p. p \<in> set pods \<and> M s (p_Labels p) \<and> p_PodIP p \<noteq> []}"
  by (induction pods) auto


subsection \<open>The computations as folds of contributions\<close>

lemma fold_desired_ref:
  "fold (desired_ref psn ips) refs m = add_contribs (target_contribs (resolveTargets refs psn) ips) m"
proof (induction refs arbitrary: m)
  case (Cons r refs)
  then show ?case
    by (cases "ParseASGResourceID (ref_ResourceID r)")
      (auto simp: desired_ref_def add_contribs_def target_contribs_def targetKey_target_of)
qed (simp add: add_contribs_def target_contribs_def)

lemma desired_rule_contribs: "desired_rule M psn pods rule m = add_contribs (rule_contribs M psn pods rule) m"
  by (auto simp: desired_rule_def rule_contribs_def fold_desired_ref resolveRuleTargets_def add_contribs_def
      split: sum.splits)

lemma fold_add_contribs: "fold (\<lambda>x. add_contribs (f x)) xs m = add_contribs (concat (map f xs)) m"
  by (induction xs arbitrary: m) (simp_all add: add_contribs_append, simp add: add_contribs_def)

lemma desired_mapping_contribs:
  "desired_mapping M cl (groupByNamespace pods) m internal =
     add_contribs (concat (map (rule_contribs M (prefix_set_name cl m) (filter (\<lambda>p. p_Namespace p = m_Namespace m) pods))
       (m_Mappings m))) internal"
  unfolding desired_mapping_def groupByNamespace_get prefix_set_name_def [symmetric]
  by (simp add: fold_add_contribs [symmetric] desired_rule_contribs [abs_def])

lemma ComputeDesiredState_contribs:
  "ComputeDesiredState M cl ms pods = result_of (add_contribs (concat (map (\<lambda>m.
     concat (map (rule_contribs M (prefix_set_name cl m) (filter (\<lambda>p. p_Namespace p = m_Namespace m) pods))
       (m_Mappings m))) ms)) [])"
  unfolding ComputeDesiredState_def by (simp add: desired_mapping_contribs [abs_def] fold_add_contribs)

lemma add_matched_contribs:
  assumes "\<forall>i \<in> set idx. i < length (m_Mappings m)"
  shows "add_matched (precompileMapping m psn) psn cidr idx internal =
    add_contribs (concat (map (\<lambda>i. target_contribs (resolveRuleTargets (m_Mappings m ! i) psn) [cidr]) idx)) internal"
proof -
  have t: "fold (\<lambda>target. add_to_entry (targetIdentityKey (tgt_FullResourceID target) psn) target [cidr]) ts x =
      add_contribs (target_contribs ts [cidr]) x" if "ts = resolveRuleTargets rule psn" for ts rule x
  proof -
    have "\<forall>t \<in> set ts. targetIdentityKey (tgt_FullResourceID t) psn = targetKey t"
      using rule_target_key that by blast
    then show ?thesis
      by (induction ts arbitrary: x) (simp_all add: add_contribs_def target_contribs_def)
  qed
  show ?thesis using assms unfolding add_matched_def
    by (induction idx arbitrary: internal)
      (simp_all add: precompileMapping_def t add_contribs_append, simp add: add_contribs_def)
qed

lemma matched_in_range: "\<forall>i \<in> set (matchPodToRuleIndices M m ls). i < length (m_Mappings m)"
  by (simp add: set_matchPodToRuleIndices)

lemma snapshot_pod_internal:
  "fst (snapshot_pod M (precompileMapping m psn) psn pod acc) = add_contribs (pod_contribs M psn m pod) (fst acc)"
  by (auto simp: snapshot_pod_def pod_contribs_def Let_def matchPod_precompile add_matched_contribs [OF matched_in_range])
    (simp_all add: add_contribs_def)

lemma fold_snapshot_pod_internal:
  "fst (fold (snapshot_pod M (precompileMapping m psn) psn) pods acc) =
     add_contribs (concat (map (pod_contribs M psn m) pods)) (fst acc)"
  by (induction pods arbitrary: acc) (simp_all add: snapshot_pod_internal add_contribs_append, simp add: add_contribs_def)

lemma snapshot_mapping_internal:
  "fst (snapshot_mapping M cl (groupByNamespace pods) m acc) =
     add_contribs (concat (map (pod_contribs M (prefix_set_name cl m) m)
       (filter (\<lambda>p. p_Namespace p = m_Namespace m) pods))) (fst acc)"
  unfolding snapshot_mapping_def Let_def groupByNamespace_get prefix_set_name_def [symmetric]
  by (rule fold_snapshot_pod_internal)

lemma WithSnapshot_contribs:
  "fst (ComputeDesiredStateWithSnapshot M cl ms pods) = result_of (add_contribs (all_pod_contribs M cl ms pods) [])"
proof -
  have "fst (fold (snapshot_mapping M cl (groupByNamespace pods)) ms acc) =
      add_contribs (all_pod_contribs M cl ms pods) (fst acc)" for acc
    unfolding all_pod_contribs_def
    by (induction ms arbitrary: acc) (simp_all add: snapshot_mapping_internal add_contribs_append, simp add: add_contribs_def)
  then show ?thesis by (simp add: ComputeDesiredStateWithSnapshot_def split_beta)
qed

subsection \<open>What the contributions hold\<close>

lemma rule_contribs_keys: "\<forall>(k, t, ips) \<in> set (rule_contribs M psn pods rule). k = targetKey t"
  by (auto simp: rule_contribs_def target_contribs_def split: sum.splits)

lemma pod_contribs_keys: "\<forall>(k, t, ips) \<in> set (pod_contribs M psn m pod). k = targetKey t"
  by (auto simp: pod_contribs_def target_contribs_def split: if_splits)

lemma ex_matched_index:
  "(\<exists>i \<in> set (matchPodToRuleIndices M m ls). Q (m_Mappings m ! i)) \<longleftrightarrow>
   (\<exists>rule \<in> set (m_Mappings m). rule_matches M rule ls \<and> Q rule)"
  unfolding set_matchPodToRuleIndices Bex_def in_set_conv_nth mem_Collect_eq by blast

lemma pod_contribs_mem:
  "(k, t, ips) \<in> set (pod_contribs M psn m p) \<longleftrightarrow>
     p_PodIP p \<noteq> [] \<and> ips = [toCIDR (p_PodIP p)] \<and> k = targetKey t \<and>
     (\<exists>rule \<in> set (m_Mappings m). rule_matches M rule (p_Labels p) \<and> t \<in> set (resolveRuleTargets rule psn))"
proof -
  have "(k, t, ips) \<in> set (pod_contribs M psn m p) \<longleftrightarrow> p_PodIP p \<noteq> [] \<and>
    (\<exists>i \<in> set (matchPodToRuleIndices M m (p_Labels p)).
      (k, t, ips) \<in> set (target_contribs (resolveRuleTargets (m_Mappings m ! i) psn) [toCIDR (p_PodIP p)]))"
    by (simp add: pod_contribs_def)
  then show ?thesis
    using ex_matched_index [of M m "p_Labels p" "\<lambda>rule. (k, t, ips) \<in> set (target_contribs (resolveRuleTargets rule psn) [toCIDR (p_PodIP p)])"]
    by (auto simp: target_contribs_def)
qed

lemma wf_internal_pod_contribs: "wf_internal (add_contribs (all_pod_contribs M cl ms pods) [])"
  using pod_contribs_keys by (intro wf_internal_add_contribs wf_internal_Nil) (fastforce simp: all_pod_contribs_def)

lemma all_pod_contribs_mem:
  "(k, t, ips) \<in> set (all_pod_contribs M cl ms pods) \<longleftrightarrow>
     (\<exists>m \<in> set ms. \<exists>p \<in> set pods. \<exists>rule \<in> set (m_Mappings m). p_PodIP p \<noteq> [] \<and> ips = [toCIDR (p_PodIP p)] \<and>
        k = targetKey t \<and> rule_selects M m rule p \<and> t \<in> set (resolveRuleTargets rule (prefix_set_name cl m)))"
  by (fastforce simp: all_pod_contribs_def pod_contribs_mem rule_selects_iff)

lemma wanted_iff:
  "x \<in> wanted M cl ms pods k \<longleftrightarrow>
     (\<exists>t. (k, t, [x]) \<in> set (all_pod_contribs M cl ms pods))"
  unfolding all_pod_contribs_mem wanted_def rule_keys_def by auto

lemma all_pod_contribs_single: "(k, t, ips) \<in> set (all_pod_contribs M cl ms pods) \<Longrightarrow> \<exists>x. ips = [x]"
  by (auto simp: all_pod_contribs_mem)

lemma wanted_contribs: "\<Union> {set ips | t ips. (k, t, ips) \<in> set (all_pod_contribs M cl ms pods)} = wanted M cl ms pods k"
proof (intro set_eqI iffI)
  fix x assume "x \<in> \<Union> {set ips | t ips. (k, t, ips) \<in> set (all_pod_contribs M cl ms pods)}"
  then obtain t ips where c: "(k, t, ips) \<in> set (all_pod_contribs M cl ms pods)" and "x \<in> set ips" by blast
  with all_pod_contribs_single [OF c] have "ips = [x]" by auto
  with c show "x \<in> wanted M cl ms pods k" unfolding wanted_iff by blast
next
  fix x assume "x \<in> wanted M cl ms pods k"
  then obtain t where "(k, t, [x]) \<in> set (all_pod_contribs M cl ms pods)" unfolding wanted_iff by blast
  moreover have "x \<in> set [x]" by simp
  ultimately show "x \<in> \<Union> {set ips | t ips. (k, t, ips) \<in> set (all_pod_contribs M cl ms pods)}" by blast
qed

lemma contribs_empty_iff: "k \<in> fst ` set (all_pod_contribs M cl ms pods) \<longleftrightarrow> wanted M cl ms pods k \<noteq> {}"
proof
  assume "k \<in> fst ` set (all_pod_contribs M cl ms pods)"
  then obtain t ips where c: "(k, t, ips) \<in> set (all_pod_contribs M cl ms pods)" by auto
  with all_pod_contribs_single [OF c] show "wanted M cl ms pods k \<noteq> {}" using wanted_iff by blast
next
  assume "wanted M cl ms pods k \<noteq> {}"
  then show "k \<in> fst ` set (all_pod_contribs M cl ms pods)" using wanted_iff by force
qed

lemma view_WithSnapshot:
  "view (fst (ComputeDesiredStateWithSnapshot M cl ms pods)) k =
     (if wanted M cl ms pods k = {} then None else Some (wanted M cl ms pods k))"
  unfolding WithSnapshot_contribs view_result_of [OF wf_internal_pod_contribs] ips_at_add_contribs
    contribs_empty_iff wanted_contribs
  by (simp add: ips_at_def)

lemma wf_WithSnapshot: "wf_state (fst (ComputeDesiredStateWithSnapshot M cl ms pods))"
  unfolding WithSnapshot_contribs by (rule wf_state_result_of [OF wf_internal_pod_contribs])

subsection \<open>\<open>ComputeDesiredState\<close>\<close>

lemma CompileSelector_ok: "\<exists>s. CompileSelector sel = Inr s"
  by (simp add: CompileSelector_def)

lemma rule_contribs_mem:
  "(k, t, ips) \<in> set (rule_contribs M psn pods rule) \<longleftrightarrow>
     t \<in> set (resolveRuleTargets rule psn) \<and> k = targetKey t \<and>
     ips = (case CompileSelector (rule_PodSelector rule) of Inl _ \<Rightarrow> [] | Inr s \<Rightarrow> matchedIPs M s pods)"
  using CompileSelector_ok [of "rule_PodSelector rule"]
  by (auto simp: rule_contribs_def target_contribs_def split: sum.splits)

lemma rule_contribs_ips:
  assumes "(k, t, ips) \<in> set (rule_contribs M psn pods rule)"
  shows "set ips = {toCIDR (p_PodIP p) | p. p \<in> set pods \<and> rule_matches M rule (p_Labels p) \<and> p_PodIP p \<noteq> []}"
  using assms CompileSelector_ok [of "rule_PodSelector rule"]
  by (auto simp: rule_contribs_mem set_matchedIPs rule_matches_def)

lemma wf_internal_rule_contribs: "wf_internal (add_contribs (all_rule_contribs M cl ms pods) [])"
  using rule_contribs_keys by (intro wf_internal_add_contribs wf_internal_Nil) (fastforce simp: all_rule_contribs_def)

lemma all_rule_contribs_mem:
  "c \<in> set (all_rule_contribs M cl ms pods) \<longleftrightarrow>
     (\<exists>m \<in> set ms. \<exists>rule \<in> set (m_Mappings m).
        c \<in> set (rule_contribs M (prefix_set_name cl m) (filter (\<lambda>p. p_Namespace p = m_Namespace m) pods) rule))"
  by (auto simp: all_rule_contribs_def)

lemma rule_wanted:
  "\<Union> {set ips | t ips. (k, t, ips) \<in> set (all_rule_contribs M cl ms pods)} = wanted M cl ms pods k"
proof (intro set_eqI iffI)
  fix x assume "x \<in> \<Union> {set ips | t ips. (k, t, ips) \<in> set (all_rule_contribs M cl ms pods)}"
  then obtain t ips m rule where m: "m \<in> set ms" "rule \<in> set (m_Mappings m)" and x: "x \<in> set ips"
    and c: "(k, t, ips) \<in> set (rule_contribs M (prefix_set_name cl m) (filter (\<lambda>p. p_Namespace p = m_Namespace m) pods) rule)"
    unfolding all_rule_contribs_mem by blast
  from c have "k \<in> set (rule_keys cl m rule)" by (auto simp: rule_contribs_mem rule_keys_def)
  with m x rule_contribs_ips [OF c] show "x \<in> wanted M cl ms pods k"
    by (auto simp: wanted_def rule_selects_iff)
next
  fix x assume "x \<in> wanted M cl ms pods k"
  then obtain m rule p where m: "m \<in> set ms" "rule \<in> set (m_Mappings m)" and k: "k \<in> set (rule_keys cl m rule)"
    and p: "p \<in> set pods" "rule_selects M m rule p" "p_PodIP p \<noteq> []" and x: "x = toCIDR (p_PodIP p)"
    unfolding wanted_def by blast
  from k obtain t ips where c: "(k, t, ips) \<in> set (rule_contribs M (prefix_set_name cl m)
      (filter (\<lambda>p. p_Namespace p = m_Namespace m) pods) rule)"
    by (auto simp: rule_contribs_mem rule_keys_def)
  with p x have "x \<in> set ips" by (auto simp: rule_contribs_ips [OF c] rule_selects_iff)
  with c m show "x \<in> \<Union> {set ips | t ips. (k, t, ips) \<in> set (all_rule_contribs M cl ms pods)}"
    unfolding all_rule_contribs_mem by blast
qed

lemma rule_declared: "k \<in> fst ` set (all_rule_contribs M cl ms pods) \<longleftrightarrow> declared cl ms k"
proof -
  have "k \<in> fst ` set (all_rule_contribs M cl ms pods) \<longleftrightarrow> (\<exists>t ips. (k, t, ips) \<in> set (all_rule_contribs M cl ms pods))"
    by force
  then show ?thesis
    unfolding all_rule_contribs_mem rule_contribs_mem declared_def rule_keys_def by auto
qed

lemma wf_ComputeDesiredState: "wf_state (ComputeDesiredState M cl ms pods)"
  unfolding ComputeDesiredState_contribs all_rule_contribs_def [symmetric]
  by (rule wf_state_result_of [OF wf_internal_rule_contribs])

lemma view_ComputeDesiredState:
  "view (ComputeDesiredState M cl ms pods) k =
     (if declared cl ms k then Some (wanted M cl ms pods k) else None)"
  unfolding ComputeDesiredState_contribs all_rule_contribs_def [symmetric]
    view_result_of [OF wf_internal_rule_contribs] ips_at_add_contribs rule_declared rule_wanted
  by (simp add: ips_at_def)


subsection \<open>The recompute artifacts\<close>

lemma track_rules_unchanged [simp]:
  "art_Desired (fold (track_rule podID) idx a) = art_Desired a"
  "art_Snapshot (fold (track_rule podID) idx a) = art_Snapshot a"
  "art_HasPendingIPPods (fold (track_rule podID) idx a) = art_HasPendingIPPods a"
  "art_PendingIPCount (fold (track_rule podID) idx a) = art_PendingIPCount a"
  by (induction idx arbitrary: a) (simp_all add: track_rule_def)

lemma track_rules_length [simp]:
  "length (art_MatchedPodsByIndex (fold (track_rule podID) idx a)) = length (art_MatchedPodsByIndex a)"
  by (induction idx arbitrary: a) (simp_all add: track_rule_def bump_def)

lemma track_rules_counts:
  "distinct idx \<Longrightarrow> i < length (art_MatchedPodsByIndex a) \<Longrightarrow>
   art_MatchedPodsByIndex (fold (track_rule podID) idx a) ! i =
     art_MatchedPodsByIndex a ! i + (if i \<in> set idx then 1 else 0)"
proof (induction idx arbitrary: a)
  case (Cons j idx)
  have "art_MatchedPodsByIndex (track_rule podID j a) ! i = art_MatchedPodsByIndex a ! i + (if i = j then 1 else 0)"
    using Cons.prems(2) by (auto simp: track_rule_def bump_def nth_list_update)
  moreover have "length (art_MatchedPodsByIndex (track_rule podID j a)) = length (art_MatchedPodsByIndex a)"
    by (simp add: track_rule_def bump_def)
  ultimately show ?case using Cons.IH [of "track_rule podID j a"] Cons.prems by auto
qed simp

lemma track_rules_rules:
  "gget (art_PodRules (fold (track_rule podID) idx a)) x =
     (if x = podID \<and> idx \<noteq> [] then Some (fold sadd idx (gget_or [] (art_PodRules a) podID)) else gget (art_PodRules a) x)"
  by (induction idx arbitrary: a) (auto simp: track_rule_def)

lemma track_rules_wfmap: "wfmap (art_PodRules a) \<Longrightarrow> wfmap (art_PodRules (fold (track_rule podID) idx a))"
  by (induction idx arbitrary: a) (simp_all add: track_rule_def)

lemma artifacts_pod_snapshot:
  assumes "p_Namespace pod = m_Namespace m"
  shows "(fst (artifacts_pod M pc psn m pod acc), art_Snapshot (snd (artifacts_pod M pc psn m pod acc))) =
    snapshot_pod M pc psn pod (fst acc, art_Snapshot (snd acc))"
  using assms by (auto simp: artifacts_pod_def snapshot_pod_def Let_def)

lemma fold_artifacts_snapshot:
  "(fst (fold (artifacts_pod M pc psn m) pods acc), art_Snapshot (snd (fold (artifacts_pod M pc psn m) pods acc))) =
    fold (snapshot_pod M pc psn) (filter (\<lambda>p. p_Namespace p = m_Namespace m) pods) (fst acc, art_Snapshot (snd acc))"
proof (induction pods arbitrary: acc)
  case (Cons p pods)
  show ?case
  proof (cases "p_Namespace p = m_Namespace m")
    case True
    then show ?thesis using Cons.IH [of "artifacts_pod M pc psn m p acc"] artifacts_pod_snapshot [of p m M pc psn acc]
      by simp
  next
    case False
    then have "artifacts_pod M pc psn m p acc = acc" by (simp add: artifacts_pod_def)
    with False show ?thesis using Cons.IH by simp
  qed
qed simp

lemma artifacts_snapshot_eq:
  "(art_Desired (ComputeDesiredStateRecomputeArtifacts M cl m pods),
    art_Snapshot (ComputeDesiredStateRecomputeArtifacts M cl m pods)) =
   ComputeDesiredStateWithSnapshot M cl [m] pods"
  using fold_artifacts_snapshot [of M "precompileMapping m (OwnershipKey cl (m_Namespace m) (m_Name m))"
      "OwnershipKey cl (m_Namespace m) (m_Name m)" m pods "([], empty_artifacts (length (m_Mappings m)))"]
  by (simp add: ComputeDesiredStateRecomputeArtifacts_def ComputeDesiredStateWithSnapshot_def snapshot_mapping_def
      Let_def split_beta groupByNamespace_get empty_artifacts_def prod_eq_iff)

text \<open>How many of some pods a rule selects, and how many selected pods wait for an address.\<close>

lemma matched_indices_Nil: "matchPodToRuleIndices M m ls = [] \<longleftrightarrow> (\<forall>rule \<in> set (m_Mappings m). \<not> rule_matches M rule ls)"
proof -
  have "matchPodToRuleIndices M m ls = [] \<longleftrightarrow> \<not> (\<exists>i \<in> set (matchPodToRuleIndices M m ls). True)"
    by (cases "matchPodToRuleIndices M m ls") auto
  then show ?thesis unfolding ex_matched_index [of M m ls "\<lambda>_. True"] by simp
qed

lemma selected_by_iff:
  "selected_by M m p \<longleftrightarrow> p_Namespace p = m_Namespace m \<and> matchPodToRuleIndices M m (p_Labels p) \<noteq> []"
  by (auto simp: selected_by_def rule_selects_iff matched_indices_Nil)

lemma artifacts_pod_counts:
  assumes "length (art_MatchedPodsByIndex (snd acc)) = length (m_Mappings m)" and "i < length (m_Mappings m)"
  shows "art_MatchedPodsByIndex (snd (artifacts_pod M (precompileMapping m psn) psn m p acc)) ! i =
      art_MatchedPodsByIndex (snd acc) ! i + (if rule_selects M m (m_Mappings m ! i) p then 1 else 0)"
proof (cases "p_Namespace p = m_Namespace m \<and> matchPodToRuleIndices M m (p_Labels p) \<noteq> []")
  case True
  then show ?thesis using assms track_rules_counts [OF distinct_matchPodToRuleIndices [of M m "p_Labels p"], of i "snd acc" "pod_id p"]
    by (auto simp: artifacts_pod_def Let_def matchPod_precompile set_matchPodToRuleIndices rule_selects_iff)
next
  case False
  then have "\<not> rule_selects M m (m_Mappings m ! i) p"
    using assms(2) by (auto simp: matched_indices_Nil rule_selects_iff)
  with False show ?thesis by (auto simp: artifacts_pod_def Let_def matchPod_precompile)
qed

lemma artifacts_pod_length:
  "length (art_MatchedPodsByIndex (snd (artifacts_pod M pc psn m p acc))) = length (art_MatchedPodsByIndex (snd acc))"
  by (auto simp: artifacts_pod_def Let_def)

lemma fold_artifacts_length:
  "length (art_MatchedPodsByIndex (snd (fold (artifacts_pod M pc psn m) pods acc))) = length (art_MatchedPodsByIndex (snd acc))"
  by (induction pods arbitrary: acc) (simp_all add: artifacts_pod_length)

lemma fold_artifacts_counts:
  assumes "length (art_MatchedPodsByIndex (snd acc)) = length (m_Mappings m)" and "i < length (m_Mappings m)"
  shows "art_MatchedPodsByIndex (snd (fold (artifacts_pod M (precompileMapping m psn) psn m) pods acc)) ! i =
      art_MatchedPodsByIndex (snd acc) ! i + int (length (filter (rule_selects M m (m_Mappings m ! i)) pods))"
  using assms
  by (induction pods arbitrary: acc) (simp_all add: artifacts_pod_length artifacts_pod_counts)

lemma artifacts_pod_pending:
  "art_PendingIPCount (snd (artifacts_pod M (precompileMapping m psn) psn m p acc)) =
     art_PendingIPCount (snd acc) + (if selected_by M m p \<and> p_PodIP p = [] then 1 else 0) \<and>
   art_HasPendingIPPods (snd (artifacts_pod M (precompileMapping m psn) psn m p acc)) =
     (art_HasPendingIPPods (snd acc) \<or> selected_by M m p \<and> p_PodIP p = [])"
  by (auto simp: artifacts_pod_def Let_def matchPod_precompile selected_by_iff)

lemma fold_artifacts_pending:
  "art_PendingIPCount (snd (fold (artifacts_pod M (precompileMapping m psn) psn m) pods acc)) =
     art_PendingIPCount (snd acc) + int (length (filter (\<lambda>p. selected_by M m p \<and> p_PodIP p = []) pods)) \<and>
   art_HasPendingIPPods (snd (fold (artifacts_pod M (precompileMapping m psn) psn m) pods acc)) =
     (art_HasPendingIPPods (snd acc) \<or> (\<exists>p \<in> set pods. selected_by M m p \<and> p_PodIP p = []))"
  by (induction pods arbitrary: acc) (auto simp: artifacts_pod_pending)

lemma artifacts_pod_rules:
  "gget (art_PodRules (snd (artifacts_pod M (precompileMapping m psn) psn m p acc))) x =
     (if selected_by M m p \<and> x = pod_id p
      then Some (fold sadd (matchPodToRuleIndices M m (p_Labels p)) (gget_or [] (art_PodRules (snd acc)) x))
      else gget (art_PodRules (snd acc)) x)"
  by (auto simp: artifacts_pod_def Let_def matchPod_precompile selected_by_iff track_rules_rules)

lemma artifacts_pod_rules_wf:
  "wfmap (art_PodRules (snd acc)) \<Longrightarrow> wfmap (art_PodRules (snd (artifacts_pod M pc psn m p acc)))"
  by (auto simp: artifacts_pod_def Let_def track_rules_wfmap)

lemma fold_artifacts_rules_wf:
  "wfmap (art_PodRules (snd acc)) \<Longrightarrow> wfmap (art_PodRules (snd (fold (artifacts_pod M pc psn m) pods acc)))"
  by (induction pods arbitrary: acc) (simp_all add: artifacts_pod_rules_wf)

lemma artifacts_fields:
  "art_Snapshot (ComputeDesiredStateRecomputeArtifacts M cl m pods) = art_Snapshot (snd (art_fold M cl m pods))"
  "art_MatchedPodsByIndex (ComputeDesiredStateRecomputeArtifacts M cl m pods) = art_MatchedPodsByIndex (snd (art_fold M cl m pods))"
  "art_HasPendingIPPods (ComputeDesiredStateRecomputeArtifacts M cl m pods) = art_HasPendingIPPods (snd (art_fold M cl m pods))"
  "art_PodRules (ComputeDesiredStateRecomputeArtifacts M cl m pods) = art_PodRules (snd (art_fold M cl m pods))"
  "art_PendingIPCount (ComputeDesiredStateRecomputeArtifacts M cl m pods) = art_PendingIPCount (snd (art_fold M cl m pods))"
  by (simp_all add: ComputeDesiredStateRecomputeArtifacts_def art_fold_def prefix_set_name_def Let_def split_beta)

lemma artifacts_counts:
  "art_MatchedPodsByIndex (ComputeDesiredStateRecomputeArtifacts M cl m pods) =
     map (\<lambda>rule. int (length (filter (rule_selects M m rule) pods))) (m_Mappings m)"
  unfolding artifacts_fields art_fold_def
  by (rule nth_equalityI) (auto simp: fold_artifacts_length fold_artifacts_counts empty_artifacts_def)

lemma artifacts_pending:
  "art_PendingIPCount (ComputeDesiredStateRecomputeArtifacts M cl m pods) =
     int (length (filter (\<lambda>p. selected_by M m p \<and> p_PodIP p = []) pods))"
  "art_HasPendingIPPods (ComputeDesiredStateRecomputeArtifacts M cl m pods) \<longleftrightarrow>
     (\<exists>p \<in> set pods. selected_by M m p \<and> p_PodIP p = [])"
  unfolding artifacts_fields art_fold_def by (simp_all add: fold_artifacts_pending empty_artifacts_def)


lemma rules_ok_Some:
  assumes "rules_ok M m pods R" and "gget R x = Some r"
  obtains p where "p \<in> set pods" and "pod_id p = x" and "selected_by M m p"
    and "set r = set (matchPodToRuleIndices M m (p_Labels p))"
  using assms unfolding rules_ok_def by (auto dest!: spec [of _ x])

lemma rules_ok_None:
  "rules_ok M m pods R \<Longrightarrow> gget R x = None \<Longrightarrow> p \<in> set pods \<Longrightarrow> pod_id p = x \<Longrightarrow> \<not> selected_by M m p"
  unfolding rules_ok_def by (auto dest!: spec [of _ x])

lemma rules_okI:
  assumes "\<And>x r. gget R x = Some r \<Longrightarrow> \<exists>p \<in> set pods. pod_id p = x \<and> selected_by M m p \<and>
      set r = set (matchPodToRuleIndices M m (p_Labels p))"
    and "\<And>p. p \<in> set pods \<Longrightarrow> selected_by M m p \<Longrightarrow> gget R (pod_id p) \<noteq> None"
  shows "rules_ok M m pods R"
  unfolding rules_ok_def using assms by (fastforce split: option.splits)

lemma snap_ok_Some:
  assumes "snap_ok M m pods S" and "gget S x = Some mem"
  obtains p where "p \<in> set pods" and "pod_id p = x" and "selected_by M m p" and "p_PodIP p \<noteq> []"
    and "mem_PodIP mem = p_PodIP p"
  using assms unfolding snap_ok_def by (auto dest!: spec [of _ x])

lemma snap_ok_None:
  "snap_ok M m pods S \<Longrightarrow> gget S x = None \<Longrightarrow> p \<in> set pods \<Longrightarrow> pod_id p = x \<Longrightarrow>
     \<not> (selected_by M m p \<and> p_PodIP p \<noteq> [])"
  unfolding snap_ok_def by (auto dest!: spec [of _ x])

lemma snap_okI:
  assumes "\<And>x mem. gget S x = Some mem \<Longrightarrow> \<exists>p \<in> set pods. pod_id p = x \<and> selected_by M m p \<and> p_PodIP p \<noteq> [] \<and>
      mem_PodIP mem = p_PodIP p"
    and "\<And>p. p \<in> set pods \<Longrightarrow> selected_by M m p \<Longrightarrow> p_PodIP p \<noteq> [] \<Longrightarrow> gget S (pod_id p) \<noteq> None"
  shows "snap_ok M m pods S"
  unfolding snap_ok_def using assms by (fastforce split: option.splits)

lemma rules_ok_pod:
  assumes "rules_ok M m ps (art_PodRules (snd acc))" and "pod_id p \<notin> pod_id ` set ps"
  shows "rules_ok M m (ps @ [p]) (art_PodRules (snd (artifacts_pod M (precompileMapping m psn) psn m p acc)))"
proof -
  have "gget (art_PodRules (snd acc)) (pod_id p) = None"
  proof (cases "gget (art_PodRules (snd acc)) (pod_id p)")
    case (Some r)
    with assms(1) have "\<exists>q \<in> set ps. pod_id q = pod_id p" by (metis rules_ok_Some)
    with assms(2) show ?thesis by (metis imageI)
  qed simp
  then have g: "gget (art_PodRules (snd (artifacts_pod M (precompileMapping m psn) psn m p acc))) x =
      (if selected_by M m p \<and> x = pod_id p then Some (fold sadd (matchPodToRuleIndices M m (p_Labels p)) [])
       else gget (art_PodRules (snd acc)) x)" for x
    by (simp add: artifacts_pod_rules gget_or_def)
  show ?thesis
  proof (rule rules_okI)
    fix x r assume "gget (art_PodRules (snd (artifacts_pod M (precompileMapping m psn) psn m p acc))) x = Some r"
    then show "\<exists>q \<in> set (ps @ [p]). pod_id q = x \<and> selected_by M m q \<and> set r = set (matchPodToRuleIndices M m (p_Labels q))"
      using rules_ok_Some [OF assms(1), of x r] by (auto simp: g split: if_splits)
  next
    fix q assume "q \<in> set (ps @ [p])" and "selected_by M m q"
    then show "gget (art_PodRules (snd (artifacts_pod M (precompileMapping m psn) psn m p acc))) (pod_id q) \<noteq> None"
      using rules_ok_None [OF assms(1) _ _ refl, of q] by (auto simp: g)
  qed
qed

lemma artifacts_pod_snap:
  "gget (snap_Pods (art_Snapshot (snd (artifacts_pod M (precompileMapping m psn) psn m p acc)))) x =
     (if selected_by M m p \<and> p_PodIP p \<noteq> [] \<and> x = pod_id p then Some \<lparr>mem_PodIP = p_PodIP p\<rparr>
      else gget (snap_Pods (art_Snapshot (snd acc))) x)"
  by (auto simp: artifacts_pod_def Let_def matchPod_precompile selected_by_iff)

lemma snap_ok_pod:
  assumes "snap_ok M m ps (snap_Pods (art_Snapshot (snd acc)))" and "pod_id p \<notin> pod_id ` set ps"
  shows "snap_ok M m (ps @ [p]) (snap_Pods (art_Snapshot (snd (artifacts_pod M (precompileMapping m psn) psn m p acc))))"
proof (rule snap_okI)
  fix x mem assume "gget (snap_Pods (art_Snapshot (snd (artifacts_pod M (precompileMapping m psn) psn m p acc)))) x = Some mem"
  then show "\<exists>q \<in> set (ps @ [p]). pod_id q = x \<and> selected_by M m q \<and> p_PodIP q \<noteq> [] \<and> mem_PodIP mem = p_PodIP q"
    using snap_ok_Some [OF assms(1), of x mem] by (auto simp: artifacts_pod_snap split: if_splits)
next
  fix q assume "q \<in> set (ps @ [p])" and "selected_by M m q" and "p_PodIP q \<noteq> []"
  then show "gget (snap_Pods (art_Snapshot (snd (artifacts_pod M (precompileMapping m psn) psn m p acc)))) (pod_id q) \<noteq> None"
    using snap_ok_None [OF assms(1) _ _ refl, of q] by (auto simp: artifacts_pod_snap)
qed

lemma artifacts_maps_ok:
  assumes "distinct (map pod_id pods)"
  shows "rules_ok M m pods (art_PodRules (ComputeDesiredStateRecomputeArtifacts M cl m pods))"
    and "snap_ok M m pods (snap_Pods (art_Snapshot (ComputeDesiredStateRecomputeArtifacts M cl m pods)))"
proof -
  have "rules_ok M m pods (art_PodRules (snd (art_fold M cl m pods))) \<and>
        snap_ok M m pods (snap_Pods (art_Snapshot (snd (art_fold M cl m pods))))"
    using assms unfolding art_fold_def
  proof (induction pods rule: rev_induct)
    case (snoc p pods)
    then show ?case by (auto intro!: rules_ok_pod snap_ok_pod)
  qed (simp add: empty_artifacts_def rules_ok_def snap_ok_def)
  then show "rules_ok M m pods (art_PodRules (ComputeDesiredStateRecomputeArtifacts M cl m pods))"
    and "snap_ok M m pods (snap_Pods (art_Snapshot (ComputeDesiredStateRecomputeArtifacts M cl m pods)))"
    unfolding artifacts_fields by auto
qed

section \<open>Properties\<close>

text \<open>C24:
  \<open>ComputeDesiredState\<close> assigns to a target key exactly the prefixes of the pods with an
  address that a rule with this target selects in its own namespace, the empty set included,
  and has no entry for a key that no rule names.
\<close>

theorem desired_state_exact:
  "view (ComputeDesiredState M cl mappings pods) key =
     (if declared cl mappings key then Some (wanted M cl mappings pods key) else None)"
  by (rule view_ComputeDesiredState)

text \<open>\<open>ComputeDesiredStateWithSnapshot\<close> computes the same desired state as
  \<open>ComputeDesiredState\<close>, except that targets without any prefix are left out.
\<close>

theorem snapshot_variant_agrees:
  "view (fst (ComputeDesiredStateWithSnapshot M cl mappings pods)) key =
     (case view (ComputeDesiredState M cl mappings pods) key of
        None \<Rightarrow> None | Some ips \<Rightarrow> if ips = {} then None else Some ips)"
proof -
  have "\<not> declared cl mappings key \<Longrightarrow> wanted M cl mappings pods key = {}"
    by (auto simp: declared_def wanted_def)
  then show ?thesis by (auto simp: view_WithSnapshot view_ComputeDesiredState)
qed

text \<open>C25:
  The single-pass recompute artifacts hold exactly the desired state and the snapshot of
  \<open>ComputeDesiredStateWithSnapshot\<close> for the mapping, for every rule the number of pods it
  selects, and the number of selected pods that wait for an address.
\<close>

theorem artifacts_single_pass:
  "art_Desired (ComputeDesiredStateRecomputeArtifacts M cl m pods) =
     fst (ComputeDesiredStateWithSnapshot M cl [m] pods) \<and>
   art_Snapshot (ComputeDesiredStateRecomputeArtifacts M cl m pods) =
     snd (ComputeDesiredStateWithSnapshot M cl [m] pods) \<and>
   art_MatchedPodsByIndex (ComputeDesiredStateRecomputeArtifacts M cl m pods) =
     map (\<lambda>rule. int (length (filter (rule_selects M m rule) pods))) (m_Mappings m) \<and>
   art_PendingIPCount (ComputeDesiredStateRecomputeArtifacts M cl m pods) =
     int (length (filter (\<lambda>p. selected_by M m p \<and> p_PodIP p = []) pods)) \<and>
   (art_HasPendingIPPods (ComputeDesiredStateRecomputeArtifacts M cl m pods) \<longleftrightarrow>
     art_PendingIPCount (ComputeDesiredStateRecomputeArtifacts M cl m pods) > 0)"
proof -
  have "(\<exists>p \<in> set pods. Q p) \<longleftrightarrow> int (length (filter Q pods)) > 0" for Q
    by (induction pods) auto
  then show ?thesis
    using artifacts_snapshot_eq [of M cl m pods] by (simp add: artifacts_counts artifacts_pending prod_eq_iff)
qed

end
