(* ===== verification/Examples.thy ===== *)
theory Examples
  imports Desired_State
begin

text \<open>
  Concrete mappings and pods on which the witnesses of later theories instantiate their
  theorems: a mapping with two rules, for labels \<open>app=web\<close> and \<open>app=db\<close>, and pods with one
  label each. Label matching is instantiated with \<open>doc_matches\<close>.
\<close>

definition ex_ref :: "string \<Rightarrow> ASGReference" where
  "ex_ref asg = \<lparr>ref_ResourceID = canonicalASGResourceID ''S'' ''rg'' asg, ref_SubscriptionID = [], ref_Description = []\<rparr>"

definition ex_rule :: "string \<Rightarrow> string \<Rightarrow> Mapping" where
  "ex_rule app asg = \<lparr>rule_PodSelector = \<lparr>sel_MatchLabels = Some [(''app'', app)]\<rparr>, rule_ASGs = [ex_ref asg]\<rparr>"

definition ex_mapping_of :: "Mapping list \<Rightarrow> PodASGMapping" where
  "ex_mapping_of rules =
     \<lparr>m_Namespace = ''ns'', m_Name = ''m'', m_UID = ''u1'', m_Generation = 1, m_ResourceVersion = ''1'',
      m_Finalizers = [], m_DeletionTimestamp = None, m_CreationTimestamp = 0, m_Annotations = None,
      m_Spec = \<lparr>spec_Mappings = rules\<rparr>,
      m_Status = \<lparr>st_Conditions = [], st_MappingCount = 0, st_MappingStatuses = []\<rparr>\<rparr>"

definition ex_mapping :: PodASGMapping where
  "ex_mapping = ex_mapping_of [ex_rule ''web'' ''A'', ex_rule ''db'' ''B'']"

definition ex_pod :: "string \<Rightarrow> string \<Rightarrow> string \<Rightarrow> Pod" where
  "ex_pod name app ip =
     \<lparr>p_Namespace = ''ns'', p_Name = name, p_UID = name, p_Labels = Some [(''app'', app)], p_Annotations = None,
      p_PodIP = ip\<rparr>"

definition ex_asg :: "string \<Rightarrow> ASGTarget" where
  "ex_asg asg = target_of (canonical_ref ''S'' ''rg'' asg) ''c-ns-m''"

lemma ex_parse: "name_segment asg \<Longrightarrow> ParseASGResourceID (canonicalASGResourceID ''S'' ''rg'' asg) = Inr (canonical_ref ''S'' ''rg'' asg)"
  unfolding canonicalASGResourceID_asg_id by (rule Parse_asg_id) (simp_all add: name_segment_def)

lemma ex_resolve:
  "name_segment asg \<Longrightarrow> resolveRuleTargets (ex_rule app asg) ''c-ns-m'' = [ex_asg asg]"
  by (simp add: resolveRuleTargets_def ex_rule_def ex_ref_def ex_parse ex_asg_def)

lemma ex_psn: "OwnershipKey ''c'' ''ns'' ''m'' = ''c-ns-m''"
  by (simp add: OwnershipKey_def)

lemma ex_mapping_fields [simp]:
  "m_Namespace (ex_mapping_of rs) = ''ns''" "m_Name (ex_mapping_of rs) = ''m''" "m_Mappings (ex_mapping_of rs) = rs"
  "m_UID (ex_mapping_of rs) = ''u1''" "m_Generation (ex_mapping_of rs) = 1"
  by (simp_all add: ex_mapping_of_def)

lemma ex_pod_fields [simp]:
  "p_Namespace (ex_pod n a ip) = ''ns''" "p_Name (ex_pod n a ip) = n" "p_PodIP (ex_pod n a ip) = ip"
  by (simp_all add: ex_pod_def)

lemma ex_pod_id: "pod_id (ex_pod n a ip) = pod_id (ex_pod n' a' ip') \<longleftrightarrow> n = n'"
  by (auto simp: pod_id_def ex_pod_def)

lemma ex_rule_matches: "rule_matches doc_matches (ex_rule app asg) (p_Labels (ex_pod n a ip)) \<longleftrightarrow> app = a"
  by (auto simp: rule_matches_def ex_rule_def selector_of_def nlen_def doc_matches_def ex_pod_def)

lemma ex_rule_selects: "rule_selects doc_matches (ex_mapping_of rs) (ex_rule app asg) (ex_pod n a ip) \<longleftrightarrow> app = a"
  by (simp add: rule_selects_iff ex_rule_matches)

lemma ex_asg_inject: "ex_asg a = ex_asg b \<longleftrightarrow> a = b"
  by (auto simp: ex_asg_def target_of_def canonical_ref_def)

end
