(* ===== verification/Desired_Cache.thy ===== *)
theory Desired_Cache
  imports Examples "HOL-Library.Word"
begin

text \<open>
  The desired-state cache (\<open>internal/engine/desired_state_cache.go\<close>): cached computations
  per mapping and generation, updated by pod events, and published by a compare-and-swap on
  version and lifecycle fences.

  Every method holds the cache's mutex from its first line to its last, so a method is one
  step on the cache record and concurrent callers are interleavings of such steps. Deep
  copies are the identity of a functional model. The fences are \<open>uint64\<close> counters and wrap.
  The maps of counters return zero for a missing key and are total functions here.
\<close>

record CachedDesiredState =
  cs_Desired :: desired_state
  cs_Snapshot :: PodSnapshot
  cs_MatchedPodsByIndex :: "int list"
  cs_HasPendingIPPods :: bool

record cacheKey =
  ck_key :: NamespacedName
  ck_generation :: int

record cacheEntry =
  ce_state :: CachedDesiredState
  ce_mapping :: "PodASGMapping option"
  ce_podRules :: "(PodIdentity, nat goset) gomap"
  ce_pendingIPCount :: int

record DesiredStateCache =
  dc_clusterName :: string
  dc_entries :: "(cacheKey, cacheEntry) gomap"
  dc_keyVersions :: "NamespacedName \<Rightarrow> 64 word"
  dc_namespaceEpoch :: "string \<Rightarrow> 64 word"
  dc_lifecycleEpoch :: "NamespacedName \<Rightarrow> 64 word"
  dc_knownGenerations :: "NamespacedName \<Rightarrow> int goset"
  dc_latestGeneration :: "NamespacedName \<Rightarrow> int option"

definition NewDesiredStateCache :: "string \<Rightarrow> DesiredStateCache" where
  "NewDesiredStateCache clusterName =
     \<lparr>dc_clusterName = clusterName, dc_entries = [], dc_keyVersions = (\<lambda>_. 0), dc_namespaceEpoch = (\<lambda>_. 0),
      dc_lifecycleEpoch = (\<lambda>_. 0), dc_knownGenerations = (\<lambda>_. []), dc_latestGeneration = (\<lambda>_. None)\<rparr>"

definition cache_key :: "PodASGMapping \<Rightarrow> cacheKey" where
  "cache_key mapping = \<lparr>ck_key = mapping_key mapping, ck_generation = m_Generation mapping\<rparr>"

definition empty_cached_state :: CachedDesiredState where
  "empty_cached_state = \<lparr>cs_Desired = [], cs_Snapshot = \<lparr>snap_Pods = []\<rparr>, cs_MatchedPodsByIndex = [],
     cs_HasPendingIPPods = False\<rparr>"

definition deepCopyCachedState :: "CachedDesiredState \<Rightarrow> CachedDesiredState" where
  "deepCopyCachedState state =
     \<lparr>cs_Desired = cs_Desired state, cs_Snapshot = \<lparr>snap_Pods = snap_Pods (cs_Snapshot state)\<rparr>,
      cs_MatchedPodsByIndex = cs_MatchedPodsByIndex state, cs_HasPendingIPPods = cs_HasPendingIPPods state\<rparr>"

text \<open>\<open>mapping.UID != "" && entry.mapping != nil && entry.mapping.UID != mapping.UID\<close>\<close>

definition uid_differs :: "PodASGMapping \<Rightarrow> cacheEntry \<Rightarrow> bool" where
  "uid_differs mapping entry \<longleftrightarrow> m_UID mapping \<noteq> [] \<and>
     (case ce_mapping entry of None \<Rightarrow> False | Some em \<Rightarrow> m_UID em \<noteq> m_UID mapping)"

definition Get :: "DesiredStateCache \<Rightarrow> PodASGMapping \<Rightarrow> CachedDesiredState \<times> bool" where
  "Get c mapping =
     (case gget (dc_entries c) (cache_key mapping) of
        None \<Rightarrow> (empty_cached_state, False)
      | Some entry \<Rightarrow>
          if uid_differs mapping entry then (empty_cached_state, False)
          else (deepCopyCachedState (ce_state entry), True))"

section \<open>Publishing a recomputation\<close>

text \<open>The loop that builds \<open>podRules\<close> in \<open>setFromRecomputeLocked\<close>; it does not compare namespaces.\<close>

definition rules_of_pods :: "matcher \<Rightarrow> PodASGMapping \<Rightarrow> Pod list \<Rightarrow> (PodIdentity, nat goset) gomap" where
  "rules_of_pods M mapping pods =
     fold (\<lambda>pod. fold (\<lambda>i acc. gput (pod_id pod) (sadd i (gget_or [] acc (pod_id pod))) acc)
                   (matchPodToRuleIndices M mapping (p_Labels pod)))
       pods []"

definition setFromRecomputeLocked :: "matcher \<Rightarrow> DesiredStateCache \<Rightarrow> PodASGMapping \<Rightarrow> Pod list \<Rightarrow>
    desired_state \<Rightarrow> PodSnapshot \<Rightarrow> int list \<Rightarrow> bool \<Rightarrow> DesiredStateCache" where
  "setFromRecomputeLocked M c mapping pods desired snapshot matchedPodsByIndex hasPendingIPPods =
     (let podRules = rules_of_pods M mapping pods;
          counted = int (length (filter (\<lambda>(podID, _). gget (snap_Pods snapshot) podID = None) podRules));
          pendingCount = (if hasPendingIPPods \<and> counted = 0 then 1 else counted)
      in c\<lparr>dc_entries := gput (cache_key mapping)
            \<lparr>ce_state = \<lparr>cs_Desired = desired, cs_Snapshot = snapshot,
                         cs_MatchedPodsByIndex = matchedPodsByIndex, cs_HasPendingIPPods = hasPendingIPPods\<rparr>,
             ce_mapping = Some mapping, ce_podRules = podRules, ce_pendingIPCount = pendingCount\<rparr>
            (dc_entries c)\<rparr>)"

definition SetFromRecompute :: "matcher \<Rightarrow> DesiredStateCache \<Rightarrow> PodASGMapping \<Rightarrow> Pod list \<Rightarrow>
    desired_state \<Rightarrow> PodSnapshot \<Rightarrow> int list \<Rightarrow> bool \<Rightarrow> DesiredStateCache" where
  "SetFromRecompute M c mapping pods desired snapshot matchedPodsByIndex hasPendingIPPods =
     setFromRecomputeLocked M c mapping pods desired snapshot matchedPodsByIndex hasPendingIPPods"

definition currentVersion :: "DesiredStateCache \<Rightarrow> NamespacedName \<Rightarrow> 64 word" where
  "currentVersion c nsName = dc_keyVersions c nsName + dc_namespaceEpoch c (nn_Namespace nsName)"

definition GetWithVersion :: "DesiredStateCache \<Rightarrow> PodASGMapping \<Rightarrow>
    CachedDesiredState \<times> 64 word \<times> 64 word \<times> bool" where
  "GetWithVersion c mapping =
     (let nsName = mapping_key mapping; version = currentVersion c nsName;
          lifecycle = dc_lifecycleEpoch c nsName
      in case gget (dc_entries c) (cache_key mapping) of
           None \<Rightarrow> (empty_cached_state, version, lifecycle, False)
         | Some entry \<Rightarrow>
             if uid_differs mapping entry then (empty_cached_state, version, lifecycle, False)
             else (deepCopyCachedState (ce_state entry), version, lifecycle, True))"

text \<open>The guards of both compare-and-swap methods, in their order.\<close>

definition publish_refused :: "DesiredStateCache \<Rightarrow> PodASGMapping \<Rightarrow> 64 word \<Rightarrow> 64 word \<Rightarrow> bool" where
  "publish_refused c mapping expectedVersion expectedLifecycleEpoch =
     (let nsName = mapping_key mapping in
      if expectedLifecycleEpoch \<noteq> dc_lifecycleEpoch c nsName then True
      else if expectedVersion \<noteq> currentVersion c nsName then True
      else if (case gget (dc_entries c) (cache_key mapping) of
                 None \<Rightarrow> False | Some existing \<Rightarrow> uid_differs mapping existing) then True
      else (case dc_latestGeneration c nsName of
              None \<Rightarrow> False | Some latest \<Rightarrow> m_Generation mapping < latest))"

text \<open>Generation tracking and pruning after a commit.\<close>

definition track_generation :: "PodASGMapping \<Rightarrow> DesiredStateCache \<Rightarrow> DesiredStateCache" where
  "track_generation mapping c =
     (let nsName = mapping_key mapping;
          c = c\<lparr>dc_knownGenerations := (dc_knownGenerations c)
                   (nsName := sadd (m_Generation mapping) (dc_knownGenerations c nsName))\<rparr>;
          latest = (case dc_latestGeneration c nsName of None \<Rightarrow> 0 | Some g \<Rightarrow> g)
      in if m_Generation mapping > latest
         then c\<lparr>dc_latestGeneration := (dc_latestGeneration c)(nsName \<mapsto> m_Generation mapping),
                dc_entries := filter (\<lambda>(k, _). \<not> (ck_key k = nsName \<and> ck_generation k < m_Generation mapping))
                                (dc_entries c)\<rparr>
         else c)"

definition SetFromRecomputeIfVersion :: "matcher \<Rightarrow> DesiredStateCache \<Rightarrow> PodASGMapping \<Rightarrow> Pod list \<Rightarrow>
    desired_state \<Rightarrow> PodSnapshot \<Rightarrow> int list \<Rightarrow> bool \<Rightarrow> 64 word \<Rightarrow> 64 word \<Rightarrow>
    DesiredStateCache \<times> bool \<times> 64 word \<times> 64 word" where
  "SetFromRecomputeIfVersion M c mapping pods desired snapshot matchedPodsByIndex hasPendingIPPods
       expectedVersion expectedLifecycleEpoch =
     (let nsName = mapping_key mapping; version = currentVersion c nsName;
          lifecycle = dc_lifecycleEpoch c nsName
      in if publish_refused c mapping expectedVersion expectedLifecycleEpoch
         then (c, False, version, lifecycle)
         else (track_generation mapping
                 (setFromRecomputeLocked M c mapping pods desired snapshot matchedPodsByIndex hasPendingIPPods),
               True, version, lifecycle))"

definition buildCacheEntryFromArtifacts :: "PodASGMapping \<Rightarrow> DesiredStateRecomputeArtifacts \<Rightarrow> cacheEntry" where
  "buildCacheEntryFromArtifacts mapping artifacts =
     \<lparr>ce_state = \<lparr>cs_Desired = art_Desired artifacts, cs_Snapshot = art_Snapshot artifacts,
                  cs_MatchedPodsByIndex = art_MatchedPodsByIndex artifacts,
                  cs_HasPendingIPPods = art_HasPendingIPPods artifacts\<rparr>,
      ce_mapping = Some mapping, ce_podRules = art_PodRules artifacts,
      ce_pendingIPCount = art_PendingIPCount artifacts\<rparr>"

definition SetFromRecomputeArtifactsIfVersion :: "DesiredStateCache \<Rightarrow> PodASGMapping \<Rightarrow>
    DesiredStateRecomputeArtifacts \<Rightarrow> 64 word \<Rightarrow> 64 word \<Rightarrow>
    DesiredStateCache \<times> bool \<times> 64 word \<times> 64 word" where
  "SetFromRecomputeArtifactsIfVersion c mapping artifacts expectedVersion expectedLifecycleEpoch =
     (let nsName = mapping_key mapping; version = currentVersion c nsName;
          lifecycle = dc_lifecycleEpoch c nsName
      in if publish_refused c mapping expectedVersion expectedLifecycleEpoch
         then (c, False, version, lifecycle)
         else (track_generation mapping
                 (c\<lparr>dc_entries := gput (cache_key mapping) (buildCacheEntryFromArtifacts mapping artifacts)
                     (dc_entries c)\<rparr>),
               True, version, lifecycle))"

section \<open>Pod events\<close>

definition bump_version :: "NamespacedName \<Rightarrow> DesiredStateCache \<Rightarrow> DesiredStateCache" where
  "bump_version nsName c = c\<lparr>dc_keyVersions := (dc_keyVersions c)(nsName := dc_keyVersions c nsName + 1)\<rparr>"

definition set_entry :: "PodASGMapping \<Rightarrow> cacheEntry \<Rightarrow> DesiredStateCache \<Rightarrow> DesiredStateCache" where
  "set_entry mapping entry c = c\<lparr>dc_entries := gput (cache_key mapping) entry (dc_entries c)\<rparr>"

definition add_ip :: "string \<Rightarrow> ASGTarget \<Rightarrow> desired_state \<Rightarrow> desired_state" where
  "add_ip cidr target desired = gput target (sadd cidr (gget_or [] desired target)) desired"

definition track :: "PodIdentity \<Rightarrow> nat \<Rightarrow> (PodIdentity, nat goset) gomap \<Rightarrow> (PodIdentity, nat goset) gomap" where
  "track podID i podRules = gput podID (sadd i (gget_or [] podRules podID)) podRules"

definition inc_matched :: "nat \<Rightarrow> int list \<Rightarrow> int list" where
  "inc_matched i counts = (if i < length counts then bump counts i else counts)"

definition dec_matched :: "nat \<Rightarrow> int list \<Rightarrow> int list" where
  "dec_matched i counts =
     (if i < length counts \<and> counts ! i > 0 then counts[i := counts ! i - 1] else counts)"

text \<open>The body of the loop over the matched rules in \<open>OnPodAdd\<close>.\<close>

definition add_rule :: "PodASGMapping \<Rightarrow> string \<Rightarrow> PodIdentity \<Rightarrow> string option \<Rightarrow> nat \<Rightarrow> cacheEntry \<Rightarrow> cacheEntry" where
  "add_rule mapping prefixSetName podID cidr i entry =
     entry\<lparr>ce_podRules := track podID i (ce_podRules entry),
           ce_state := (ce_state entry)
             \<lparr>cs_Desired :=
                (case cidr of None \<Rightarrow> cs_Desired (ce_state entry)
                 | Some ip \<Rightarrow> fold (add_ip ip) (resolveRuleTargets (m_Mappings mapping ! i) prefixSetName)
                               (cs_Desired (ce_state entry))),
              cs_MatchedPodsByIndex := inc_matched i (cs_MatchedPodsByIndex (ce_state entry))\<rparr>\<rparr>"

definition put_snapshot :: "PodIdentity \<Rightarrow> string \<Rightarrow> cacheEntry \<Rightarrow> cacheEntry" where
  "put_snapshot podID ip entry =
     entry\<lparr>ce_state := (ce_state entry)\<lparr>cs_Snapshot :=
       \<lparr>snap_Pods = gput podID \<lparr>mem_PodIP = ip\<rparr> (snap_Pods (cs_Snapshot (ce_state entry)))\<rparr>\<rparr>\<rparr>"

definition del_snapshot :: "PodIdentity \<Rightarrow> cacheEntry \<Rightarrow> cacheEntry" where
  "del_snapshot podID entry =
     entry\<lparr>ce_state := (ce_state entry)\<lparr>cs_Snapshot :=
       \<lparr>snap_Pods = gdel podID (snap_Pods (cs_Snapshot (ce_state entry)))\<rparr>\<rparr>\<rparr>"

definition pod_cidr :: "Pod \<Rightarrow> string option" where
  "pod_cidr pod = (if p_PodIP pod \<noteq> [] then Some (toCIDR (p_PodIP pod)) else None)"

definition add_pod_entry :: "matcher \<Rightarrow> string \<Rightarrow> PodASGMapping \<Rightarrow> Pod \<Rightarrow> cacheEntry \<Rightarrow> cacheEntry" where
  "add_pod_entry M clusterName mapping pod entry =
     (let prefixSetName = OwnershipKey clusterName (m_Namespace mapping) (m_Name mapping);
          podID = pod_id pod;
          matchedIndices = matchPodToRuleIndices M mapping (p_Labels pod);
          entry = fold (add_rule mapping prefixSetName podID (pod_cidr pod)) matchedIndices entry
      in if matchedIndices = [] then entry
         else if p_PodIP pod \<noteq> [] then put_snapshot podID (p_PodIP pod) entry
         else entry\<lparr>ce_pendingIPCount := ce_pendingIPCount entry + 1,
                    ce_state := (ce_state entry)\<lparr>cs_HasPendingIPPods := True\<rparr>\<rparr>)"

definition OnPodAdd :: "matcher \<Rightarrow> DesiredStateCache \<Rightarrow> PodASGMapping \<Rightarrow> Pod \<Rightarrow> DesiredStateCache" where
  "OnPodAdd M c mapping pod =
     (let c = bump_version (mapping_key mapping) c in
      case gget (dc_entries c) (cache_key mapping) of
        None \<Rightarrow> c
      | Some entry \<Rightarrow> set_entry mapping (add_pod_entry M (dc_clusterName c) mapping pod entry) c)"

text \<open>Does another pod tracked for rule \<open>i\<close> still have the prefix?\<close>

definition hasOtherContributor :: "cacheEntry \<Rightarrow> PodIdentity \<Rightarrow> nat \<Rightarrow> string \<Rightarrow> bool" where
  "hasOtherContributor entry podID i cidr =
     list_ex (\<lambda>(otherPodID, otherRules). otherPodID \<noteq> podID \<and> i \<in> set otherRules \<and>
                (case gget (snap_Pods (cs_Snapshot (ce_state entry))) otherPodID of
                   None \<Rightarrow> False
                 | Some membership \<Rightarrow> mem_PodIP membership \<noteq> [] \<and> toCIDR (mem_PodIP membership) = cidr))
       (ce_podRules entry)"

text \<open>\<open>delete(dps.IPs, cidr)\<close> for a target that has an entry.\<close>

definition del_ip :: "string \<Rightarrow> ASGTarget \<Rightarrow> desired_state \<Rightarrow> desired_state" where
  "del_ip cidr target desired =
     (case gget desired target of None \<Rightarrow> desired | Some ips \<Rightarrow> gput target (sdel cidr ips) desired)"

text \<open>The body of the loop over the rules in \<open>OnPodDelete\<close>.\<close>

definition delete_rule :: "string \<Rightarrow> PodIdentity \<Rightarrow> string option \<Rightarrow> nat goset \<Rightarrow> nat list \<Rightarrow> nat \<times> Mapping \<Rightarrow>
    cacheEntry \<Rightarrow> cacheEntry" where
  "delete_rule prefixSetName podID cidr matchedRules liveMatched ir entry =
     (case ir of (i, rule) \<Rightarrow>
        if i \<notin> set matchedRules \<and> i \<notin> set liveMatched then entry
        else let entry = entry\<lparr>ce_state := (ce_state entry)
                   \<lparr>cs_MatchedPodsByIndex := dec_matched i (cs_MatchedPodsByIndex (ce_state entry))\<rparr>\<rparr> in
          (case cidr of
             None \<Rightarrow> entry
           | Some ip \<Rightarrow>
               if hasOtherContributor entry podID i ip then entry
               else entry\<lparr>ce_state := (ce_state entry)
                      \<lparr>cs_Desired := fold (del_ip ip) (resolveRuleTargets rule prefixSetName)
                                      (cs_Desired (ce_state entry))\<rparr>\<rparr>))"

definition delete_pod_entry :: "matcher \<Rightarrow> string \<Rightarrow> PodASGMapping \<Rightarrow> Pod \<Rightarrow> cacheEntry \<Rightarrow> cacheEntry" where
  "delete_pod_entry M clusterName mapping pod entry =
     (let podID = pod_id pod;
          inPodRules = gget (ce_podRules entry) podID \<noteq> None;
          inSnapshot = gget (snap_Pods (cs_Snapshot (ce_state entry))) podID \<noteq> None;
          wasPending = (inPodRules \<and> \<not> inSnapshot);
          entry = (if inSnapshot then del_snapshot podID entry else entry);
          prefixSetName = OwnershipKey clusterName (m_Namespace mapping) (m_Name mapping);
          matchedRules = gget_or [] (ce_podRules entry) podID;
          liveMatched = matchPodToRuleIndices M mapping (p_Labels pod);
          entry = fold (delete_rule prefixSetName podID (pod_cidr pod) matchedRules liveMatched)
                    (List.enumerate 0 (m_Mappings mapping)) entry;
          entry = entry\<lparr>ce_podRules := gdel podID (ce_podRules entry)\<rparr>;
          entry = (if wasPending \<and> ce_pendingIPCount entry > 0
                   then entry\<lparr>ce_pendingIPCount := ce_pendingIPCount entry - 1\<rparr> else entry)
      in entry\<lparr>ce_state := (ce_state entry)\<lparr>cs_HasPendingIPPods := ce_pendingIPCount entry > 0\<rparr>\<rparr>)"

definition OnPodDelete :: "matcher \<Rightarrow> DesiredStateCache \<Rightarrow> PodASGMapping \<Rightarrow> Pod \<Rightarrow> DesiredStateCache" where
  "OnPodDelete M c mapping pod =
     (let c = bump_version (mapping_key mapping) c in
      case gget (dc_entries c) (cache_key mapping) of
        None \<Rightarrow> c
      | Some entry \<Rightarrow> set_entry mapping (delete_pod_entry M (dc_clusterName c) mapping pod entry) c)"

text \<open>The loop over one rule's targets in \<open>OnPodUpdate\<close>.\<close>

definition update_target :: "cacheEntry \<Rightarrow> PodIdentity \<Rightarrow> nat \<Rightarrow> bool \<Rightarrow> bool \<Rightarrow> string option \<Rightarrow> string option \<Rightarrow>
    ASGTarget \<Rightarrow> desired_state \<Rightarrow> desired_state" where
  "update_target entry podID i oldMatches newMatches oldCIDR newCIDR target desired =
     (let ips = gget_or [] desired target;
          ips = (case oldCIDR of
                   Some old \<Rightarrow> if oldMatches \<and> \<not> hasOtherContributor entry podID i old then sdel old ips else ips
                 | None \<Rightarrow> ips);
          ips = (case newCIDR of Some new \<Rightarrow> if newMatches then sadd new ips else ips | None \<Rightarrow> ips)
      in gput target ips desired)"

text \<open>The body of the loop over the rules: counts, tracking and targets of an affected rule.\<close>

definition update_rule :: "string \<Rightarrow> PodIdentity \<Rightarrow> nat list \<Rightarrow> nat list \<Rightarrow> string option \<Rightarrow> string option \<Rightarrow>
    nat \<times> Mapping \<Rightarrow> cacheEntry \<Rightarrow> cacheEntry" where
  "update_rule prefixSetName podID oldMatched newMatched oldCIDR newCIDR ir entry =
     (case ir of (i, rule) \<Rightarrow>
        if i \<notin> set oldMatched \<and> i \<notin> set newMatched then entry
        else let oldMatches = (i \<in> set oldMatched); newMatches = (i \<in> set newMatched);
                 entry = (if \<not> oldMatches \<and> newMatches then
                            entry\<lparr>ce_podRules := track podID i (ce_podRules entry),
                                  ce_state := (ce_state entry)
                                    \<lparr>cs_MatchedPodsByIndex := inc_matched i (cs_MatchedPodsByIndex (ce_state entry))\<rparr>\<rparr>
                          else if oldMatches \<and> \<not> newMatches then
                            entry\<lparr>ce_podRules :=
                                    (case gget (ce_podRules entry) podID of
                                       None \<Rightarrow> ce_podRules entry
                                     | Some rules \<Rightarrow> gput podID (sdel i rules) (ce_podRules entry)),
                                  ce_state := (ce_state entry)
                                    \<lparr>cs_MatchedPodsByIndex := dec_matched i (cs_MatchedPodsByIndex (ce_state entry))\<rparr>\<rparr>
                          else entry)
             in entry\<lparr>ce_state := (ce_state entry)
                  \<lparr>cs_Desired := fold (update_target entry podID i oldMatches newMatches oldCIDR newCIDR)
                                  (resolveRuleTargets rule prefixSetName) (cs_Desired (ce_state entry))\<rparr>\<rparr>)"

definition update_pod_entry :: "matcher \<Rightarrow> string \<Rightarrow> PodASGMapping \<Rightarrow> Pod \<Rightarrow> Pod \<Rightarrow> cacheEntry \<Rightarrow> cacheEntry" where
  "update_pod_entry M clusterName mapping oldPod newPod entry =
     (let newIP = p_PodIP newPod;
          prefixSetName = OwnershipKey clusterName (m_Namespace mapping) (m_Name mapping);
          podID = pod_id newPod;
          priorInPodRules = gget (ce_podRules entry) podID \<noteq> None;
          priorInSnapshot = gget (snap_Pods (cs_Snapshot (ce_state entry))) podID \<noteq> None;
          wasPending = (priorInPodRules \<and> \<not> priorInSnapshot);
          oldMatched = matchPodToRuleIndices M mapping (p_Labels oldPod);
          newMatched = matchPodToRuleIndices M mapping (p_Labels newPod);
          entry = fold (update_rule prefixSetName podID oldMatched newMatched (pod_cidr oldPod) (pod_cidr newPod))
                    (List.enumerate 0 (m_Mappings mapping)) entry;
          anyNewMatch = (\<exists>i \<in> set newMatched. i < length (m_Mappings mapping));
          nowPending = (anyNewMatch \<and> newIP = []);
          entry = (if anyNewMatch then
                     (if newIP \<noteq> [] then put_snapshot podID newIP entry else del_snapshot podID entry)
                   else (del_snapshot podID entry)\<lparr>ce_podRules := gdel podID (ce_podRules entry)\<rparr>);
          entry = (if wasPending \<and> \<not> nowPending \<and> ce_pendingIPCount entry > 0
                   then entry\<lparr>ce_pendingIPCount := ce_pendingIPCount entry - 1\<rparr>
                   else if \<not> wasPending \<and> nowPending
                   then entry\<lparr>ce_pendingIPCount := ce_pendingIPCount entry + 1\<rparr> else entry)
      in entry\<lparr>ce_state := (ce_state entry)\<lparr>cs_HasPendingIPPods := ce_pendingIPCount entry > 0\<rparr>\<rparr>)"

definition OnPodUpdate :: "matcher \<Rightarrow> DesiredStateCache \<Rightarrow> PodASGMapping \<Rightarrow> Pod \<Rightarrow> Pod \<Rightarrow>
    DesiredStateCache \<times> bool" where
  "OnPodUpdate M c mapping oldPod newPod =
     (let nsName = mapping_key mapping in
      case gget (dc_entries c) (cache_key mapping) of
        None \<Rightarrow>
          if list_ex (\<lambda>(k, _). ck_key k = nsName) (dc_entries c)
          then (bump_version nsName c, False)
          else (bump_version nsName c, True)
      | Some entry \<Rightarrow>
          let c = bump_version nsName c in
          (set_entry mapping (update_pod_entry M (dc_clusterName c) mapping oldPod newPod entry) c, True))"

section \<open>Invalidation\<close>

definition Invalidate :: "DesiredStateCache \<Rightarrow> NamespacedName \<Rightarrow> DesiredStateCache" where
  "Invalidate c key =
     (let c = bump_version key c in c\<lparr>dc_entries := filter (\<lambda>(k, _). ck_key k \<noteq> key) (dc_entries c)\<rparr>)"

text \<open>The loop bumps the version of a key once for each of its entries.\<close>

definition InvalidateNamespace :: "DesiredStateCache \<Rightarrow> string \<Rightarrow> DesiredStateCache" where
  "InvalidateNamespace c namespace =
     (let c = c\<lparr>dc_namespaceEpoch := (dc_namespaceEpoch c)(namespace := dc_namespaceEpoch c namespace + 1)\<rparr>;
          c' = fold (\<lambda>(k, _) c. if nn_Namespace (ck_key k) = namespace then bump_version (ck_key k) c else c)
                 (dc_entries c) c
      in c'\<lparr>dc_entries := filter (\<lambda>(k, _). nn_Namespace (ck_key k) \<noteq> namespace) (dc_entries c')\<rparr>)"

definition Delete :: "DesiredStateCache \<Rightarrow> NamespacedName \<Rightarrow> DesiredStateCache" where
  "Delete c key =
     (let c = c\<lparr>dc_lifecycleEpoch := (dc_lifecycleEpoch c)(key := dc_lifecycleEpoch c key + 1)\<rparr>;
          c = bump_version key c
      in c\<lparr>dc_entries := filter (\<lambda>(k, _). ck_key k \<noteq> key) (dc_entries c),
           dc_knownGenerations := (dc_knownGenerations c)(key := []),
           dc_latestGeneration := (dc_latestGeneration c)(key := None)\<rparr>)"

end
