(* ===== verification/Cache_Fencing.thy ===== *)
theory Cache_Fencing
  imports Desired_Cache
begin

text \<open>
  Interleavings of cache methods. A recomputation reads the fences with \<open>GetWithVersion\<close>,
  computes outside the lock, and publishes with a compare-and-swap; in between any sequence of
  other methods may run. This theory states what the fences promise: nothing computed before a
  pod event, an invalidation or a deletion of its mapping is published after it, and only the
  newest generation of a mapping is cached.
\<close>

datatype cache_op =
    PodAdded PodASGMapping Pod
  | PodUpdated PodASGMapping Pod Pod
  | PodDeleted PodASGMapping Pod
  | InvalidateKey NamespacedName
  | InvalidateNs string
  | DeleteKey NamespacedName
  | PublishArtifacts PodASGMapping DesiredStateRecomputeArtifacts "64 word" "64 word"
  | PublishRecompute PodASGMapping "Pod list" desired_state PodSnapshot "int list" bool "64 word" "64 word"

fun step_op :: "matcher \<Rightarrow> cache_op \<Rightarrow> DesiredStateCache \<Rightarrow> DesiredStateCache" where
  "step_op M (PodAdded m p) c = OnPodAdd M c m p"
| "step_op M (PodUpdated m old new) c = fst (OnPodUpdate M c m old new)"
| "step_op M (PodDeleted m p) c = OnPodDelete M c m p"
| "step_op M (InvalidateKey key) c = Invalidate c key"
| "step_op M (InvalidateNs ns) c = InvalidateNamespace c ns"
| "step_op M (DeleteKey key) c = Delete c key"
| "step_op M (PublishArtifacts m arts v l) c = fst (SetFromRecomputeArtifactsIfVersion c m arts v l)"
| "step_op M (PublishRecompute m pods d s n h v l) c = fst (SetFromRecomputeIfVersion M c m pods d s n h v l)"

definition run_ops :: "matcher \<Rightarrow> cache_op list \<Rightarrow> DesiredStateCache \<Rightarrow> DesiredStateCache" where
  "run_ops M ops c = fold (step_op M) ops c"

text \<open>Does an operation change what may be published for a key?\<close>

fun concerns :: "NamespacedName \<Rightarrow> cache_op \<Rightarrow> bool" where
  "concerns key (PodAdded m p) = (mapping_key m = key)"
| "concerns key (PodUpdated m old new) = (mapping_key m = key)"
| "concerns key (PodDeleted m p) = (mapping_key m = key)"
| "concerns key (InvalidateKey k) = (k = key)"
| "concerns key (InvalidateNs ns) = (ns = nn_Namespace key)"
| "concerns key (DeleteKey k) = (k = key)"
| "concerns key (PublishArtifacts _ _ _ _) = False"
| "concerns key (PublishRecompute _ _ _ _ _ _ _ _) = False"

text \<open>By how much an operation advances the version of a key, and a sequence of them.\<close>

definition bumps :: "NamespacedName \<Rightarrow> cache_op \<Rightarrow> DesiredStateCache \<Rightarrow> nat" where
  "bumps key oper c =
     (if \<not> concerns key oper then 0
      else case oper of
        InvalidateNs ns \<Rightarrow> 1 + length (filter (\<lambda>(k, _). ck_key k = key) (dc_entries c))
      | _ \<Rightarrow> 1)"

fun total_bumps :: "matcher \<Rightarrow> NamespacedName \<Rightarrow> cache_op list \<Rightarrow> DesiredStateCache \<Rightarrow> nat" where
  "total_bumps M key [] c = 0"
| "total_bumps M key (oper # ops) c = bumps key oper c + total_bumps M key ops (step_op M oper c)"

text \<open>Caches reached from a new one by operations that publish generations of at least one.\<close>

fun positive_generation :: "cache_op \<Rightarrow> bool" where
  "positive_generation (PublishArtifacts m _ _ _) = (m_Generation m > 0)"
| "positive_generation (PublishRecompute m _ _ _ _ _ _ _) = (m_Generation m > 0)"
| "positive_generation _ = True"

inductive reachable_cache :: "matcher \<Rightarrow> string \<Rightarrow> DesiredStateCache \<Rightarrow> bool" for M clusterName where
  init: "reachable_cache M clusterName (NewDesiredStateCache clusterName)"
| step: "reachable_cache M clusterName c \<Longrightarrow> positive_generation oper \<Longrightarrow>
    reachable_cache M clusterName (step_op M oper c)"

inductive_simps reachable_cache_unfold: "reachable_cache M clusterName c"

text \<open>The invariant of the entries: keys are distinct, and every entry is of the latest generation.\<close>

definition latest_only :: "DesiredStateCache \<Rightarrow> bool" where
  "latest_only c \<longleftrightarrow> wfmap (dc_entries c) \<and>
     (\<forall>e \<in> set (dc_entries c). dc_latestGeneration c (ck_key (fst e)) = Some (ck_generation (fst e)))"

section \<open>Versions\<close>

lemma currentVersion_simps [simp]:
  "currentVersion (c\<lparr>dc_entries := es\<rparr>) k = currentVersion c k"
  "currentVersion (c\<lparr>dc_knownGenerations := kg\<rparr>) k = currentVersion c k"
  "currentVersion (c\<lparr>dc_latestGeneration := lg\<rparr>) k = currentVersion c k"
  "currentVersion (c\<lparr>dc_lifecycleEpoch := le\<rparr>) k = currentVersion c k"
  "currentVersion (bump_version k' c) k = currentVersion c k + (if k = k' then 1 else 0)"
  "currentVersion (set_entry m e c) k = currentVersion c k"
  by (simp_all add: currentVersion_def bump_version_def set_entry_def)

lemma bump_version_entries [simp]:
  "dc_entries (bump_version k c) = dc_entries c"
  "dc_latestGeneration (bump_version k c) = dc_latestGeneration c"
  "dc_namespaceEpoch (bump_version k c) = dc_namespaceEpoch c"
  "dc_lifecycleEpoch (bump_version k c) = dc_lifecycleEpoch c"
  by (simp_all add: bump_version_def)

lemma publish_version [simp]:
  "currentVersion (fst (SetFromRecomputeArtifactsIfVersion c m arts v l)) k = currentVersion c k"
  "currentVersion (fst (SetFromRecomputeIfVersion M c m pods d s n h v l)) k = currentVersion c k"
  by (simp_all add: SetFromRecomputeArtifactsIfVersion_def SetFromRecomputeIfVersion_def track_generation_def
      setFromRecomputeLocked_def Let_def)

lemma invalidate_ns_fold:
  "currentVersion (fold (\<lambda>(k, _) c. if nn_Namespace (ck_key k) = ns then bump_version (ck_key k) c else c) es c) key =
     currentVersion c key + (if nn_Namespace key = ns then of_nat (length (filter (\<lambda>(k, _). ck_key k = key) es)) else 0)"
  by (induction es arbitrary: c) auto

lemma currentVersion_InvalidateNamespace:
  "currentVersion (InvalidateNamespace c ns) key = currentVersion c key + of_nat (bumps key (InvalidateNs ns) c)"
proof -
  let ?c = "c\<lparr>dc_namespaceEpoch := (dc_namespaceEpoch c)(ns := dc_namespaceEpoch c ns + 1)\<rparr>"
  have "currentVersion ?c key = currentVersion c key + (if nn_Namespace key = ns then 1 else 0)"
    by (simp add: currentVersion_def)
  then show ?thesis by (auto simp: InvalidateNamespace_def Let_def invalidate_ns_fold bumps_def)
qed

lemma currentVersion_step:
  "currentVersion (step_op M oper c) key = currentVersion c key + of_nat (bumps key oper c)"
  by (cases oper)
    (auto simp: currentVersion_InvalidateNamespace bumps_def OnPodAdd_def OnPodDelete_def OnPodUpdate_def
      Invalidate_def Delete_def Let_def split: option.splits)

lemma currentVersion_run:
  "currentVersion (run_ops M ops c) key = currentVersion c key + of_nat (total_bumps M key ops c)"
  unfolding run_ops_def
  by (induction ops arbitrary: c) (simp_all add: currentVersion_step add.assoc)

lemma total_bumps_pos: "\<exists>oper \<in> set ops. concerns key oper \<Longrightarrow> total_bumps M key ops c > 0"
proof (induction ops arbitrary: c)
  case (Cons oper ops)
  then show ?case
  proof (cases "concerns key oper")
    case True
    then have "bumps key oper c > 0" by (auto simp: bumps_def split: cache_op.splits)
    then show ?thesis by simp
  qed auto
qed simp

lemma version_moved:
  assumes "\<exists>oper \<in> set ops. concerns key oper" and "total_bumps M key ops c < 2 ^ 64"
  shows "currentVersion (run_ops M ops c) key \<noteq> currentVersion c key"
proof -
  have "\<not> (2 :: nat) ^ 64 dvd total_bumps M key ops c"
    using assms total_bumps_pos [OF assms(1), of M c] by (auto dest: dvd_imp_le)
  then have "(of_nat (total_bumps M key ops c) :: 64 word) \<noteq> 0"
    by (simp add: word_of_nat_eq_0_iff)
  then show ?thesis by (simp add: currentVersion_run)
qed

section \<open>Generations\<close>

lemma latest_only_filter:
  "latest_only c \<Longrightarrow> latest_only (c\<lparr>dc_entries := filter P (dc_entries c)\<rparr>)"
  by (auto simp: latest_only_def)

lemma latest_only_set_entry:
  assumes "latest_only c" and "gget (dc_entries c) (cache_key m) = Some e"
  shows "latest_only (set_entry m e' c)"
proof -
  have "dc_latestGeneration c (mapping_key m) = Some (m_Generation m)"
    using assms gget_in_set [OF assms(2)] by (force simp: latest_only_def cache_key_def)
  with assms(1) have "\<forall>x \<in> set (gput (cache_key m) e' (dc_entries c)).
      dc_latestGeneration c (ck_key (fst x)) = Some (ck_generation (fst x))"
    by (intro gput_Ball) (auto simp: latest_only_def cache_key_def)
  with assms(1) show ?thesis by (simp add: latest_only_def set_entry_def)
qed

lemma latest_only_bump [simp]: "latest_only (bump_version k c) = latest_only c"
  by (simp add: latest_only_def)

lemma latest_only_bumps:
  "latest_only (fold (\<lambda>(k, _) c. if nn_Namespace (ck_key k) = ns then bump_version (ck_key k) c else c) es c) = latest_only c"
  by (induction es arbitrary: c) (simp_all add: split_beta)

lemma latest_only_publish:
  assumes "latest_only c" and "\<not> publish_refused c m v l" and "m_Generation m > 0"
  shows "latest_only (track_generation m (c\<lparr>dc_entries := gput (cache_key m) e (dc_entries c)\<rparr>))"
proof -
  let ?k = "mapping_key m" and ?g = "m_Generation m"
  let ?es = "gput (cache_key m) e (dc_entries c)"
  have guard: "\<not> ?g < latest" if "dc_latestGeneration c ?k = Some latest" for latest
    using assms(2) that by (auto simp: publish_refused_def Let_def split: if_splits)
  have ent: "\<forall>x \<in> set ?es. fst x = cache_key m \<or> dc_latestGeneration c (ck_key (fst x)) = Some (ck_generation (fst x))"
    using assms(1) unfolding latest_only_def by (intro gput_Ball) auto
  have wf: "wfmap ?es" using assms(1) by (simp add: latest_only_def)
  show ?thesis
  proof (cases "?g > (case dc_latestGeneration c ?k of None \<Rightarrow> 0 | Some g \<Rightarrow> g)")
    case True
    have "(if ck_key (fst x) = ?k then Some ?g else dc_latestGeneration c (ck_key (fst x))) = Some (ck_generation (fst x))"
      if "x \<in> set ?es" "\<not> (ck_key (fst x) = ?k \<and> ck_generation (fst x) < ?g)" for x
      using ent that True by (cases "fst x = cache_key m") (auto simp: cache_key_def split: option.splits)
    with True wf show ?thesis
      by (auto simp: track_generation_def Let_def latest_only_def split_beta)
  next
    case False
    then have "dc_latestGeneration c ?k = Some ?g" using guard assms(3) by (cases "dc_latestGeneration c ?k") auto
    with False ent wf show ?thesis
      by (auto simp: track_generation_def Let_def latest_only_def cache_key_def)
  qed
qed

lemma latest_only_step:
  assumes "latest_only c" and "positive_generation oper"
  shows "latest_only (step_op M oper c)"
proof (cases oper)
  case (PodAdded m p)
  with assms(1) show ?thesis
    by (auto simp: OnPodAdd_def Let_def intro: latest_only_set_entry split: option.splits)
next
  case (PodUpdated m old new)
  with assms(1) show ?thesis
    by (auto simp: OnPodUpdate_def Let_def intro: latest_only_set_entry split: option.splits)
next
  case (PodDeleted m p)
  with assms(1) show ?thesis
    by (auto simp: OnPodDelete_def Let_def intro: latest_only_set_entry split: option.splits)
next
  case (InvalidateKey k)
  with assms(1) show ?thesis by (simp add: Invalidate_def Let_def latest_only_def split_beta)
next
  case (InvalidateNs ns)
  have "latest_only (c\<lparr>dc_namespaceEpoch := ep\<rparr>)" for ep using assms(1) by (simp add: latest_only_def)
  then have "latest_only (fold (\<lambda>(k, _) c. if nn_Namespace (ck_key k) = ns then bump_version (ck_key k) c else c) es
      (c\<lparr>dc_namespaceEpoch := ep\<rparr>))" for es ep by (simp only: latest_only_bumps)
  then show ?thesis unfolding InvalidateNs step_op.simps InvalidateNamespace_def Let_def by (rule latest_only_filter)
next
  case (DeleteKey k)
  with assms(1) show ?thesis by (auto simp: Delete_def Let_def latest_only_def)
next
  case (PublishArtifacts m arts v l)
  with assms show ?thesis
    by (auto simp: SetFromRecomputeArtifactsIfVersion_def Let_def intro: latest_only_publish)
next
  case (PublishRecompute m pods d s n h v l)
  with assms show ?thesis
    by (auto simp: SetFromRecomputeIfVersion_def setFromRecomputeLocked_def Let_def intro: latest_only_publish)
qed

lemma reachable_latest_only: "reachable_cache M cl c \<Longrightarrow> latest_only c"
proof (induction rule: reachable_cache.induct)
  case init
  show ?case by (simp add: latest_only_def NewDesiredStateCache_def)
next
  case (step c oper)
  then show ?case by (blast intro: latest_only_step)
qed

section \<open>Properties\<close>

text \<open>C15:
  A recomputation that reads the fences of its mapping is refused, and leaves the cache as it
  is, when any pod event, invalidation or deletion that concerns the mapping runs before it
  publishes, whatever else is interleaved, as long as the 64-bit version is not advanced a full
  turn in between.
\<close>

theorem cas_fences_stale_recompute:
  assumes "GetWithVersion c m = (state, version, lifecycle, hit)"
    and "\<exists>oper \<in> set ops. concerns (mapping_key m) oper"
    and "total_bumps M (mapping_key m) ops c < 2 ^ 64"
  shows "\<exists>v l. SetFromRecomputeArtifactsIfVersion (run_ops M ops c) m artifacts version lifecycle =
           (run_ops M ops c, False, v, l)"
proof -
  have "version = currentVersion c (mapping_key m)"
    using assms(1) by (auto simp: GetWithVersion_def Let_def split: option.splits if_splits)
  then have "publish_refused (run_ops M ops c) m version lifecycle"
    using version_moved [OF assms(2,3)] by (simp add: publish_refused_def Let_def)
  then show ?thesis by (simp add: SetFromRecomputeArtifactsIfVersion_def Let_def)
qed

theorem cas_fences_stale_recompute_witness:
  "GetWithVersion (NewDesiredStateCache ''c'') ex_mapping = (empty_cached_state, 0, 0, False) \<and>
   (\<exists>v l. SetFromRecomputeArtifactsIfVersion
     (run_ops doc_matches [PodAdded ex_mapping (ex_pod ''p'' ''web'' ''10.0.0.1'')] (NewDesiredStateCache ''c''))
     ex_mapping (empty_artifacts 2) 0 0 =
     (run_ops doc_matches [PodAdded ex_mapping (ex_pod ''p'' ''web'' ''10.0.0.1'')] (NewDesiredStateCache ''c''), False, v, l))"
proof -
  have g: "GetWithVersion (NewDesiredStateCache ''c'') ex_mapping = (empty_cached_state, 0, 0, False)"
    by (simp add: GetWithVersion_def NewDesiredStateCache_def currentVersion_def)
  have "total_bumps doc_matches (mapping_key ex_mapping) [PodAdded ex_mapping (ex_pod ''p'' ''web'' ''10.0.0.1'')]
      (NewDesiredStateCache ''c'') < 2 ^ 64"
    by (simp add: bumps_def)
  with g cas_fences_stale_recompute [OF g, of "[PodAdded ex_mapping (ex_pod ''p'' ''web'' ''10.0.0.1'')]" doc_matches
      "empty_artifacts 2"] show ?thesis by simp
qed

text \<open>With no interleaved operation for its mapping a recomputation is published exactly when the
  cached entry was not made for another object of the same name and the generation is not older
  than the newest published one; reading the mapping then returns what was published.
\<close>

theorem publish_then_get:
  assumes "GetWithVersion c m = (state, version, lifecycle, hit)"
    and "(case gget (dc_entries c) (cache_key m) of None \<Rightarrow> True | Some e \<Rightarrow> \<not> uid_differs m e)"
    and "(case dc_latestGeneration c (mapping_key m) of None \<Rightarrow> True | Some g \<Rightarrow> g \<le> m_Generation m)"
  shows "\<exists>c'. SetFromRecomputeArtifactsIfVersion c m artifacts version lifecycle = (c', True, version, lifecycle) \<and>
    Get c' m = (\<lparr>cs_Desired = art_Desired artifacts, cs_Snapshot = art_Snapshot artifacts,
      cs_MatchedPodsByIndex = art_MatchedPodsByIndex artifacts,
      cs_HasPendingIPPods = art_HasPendingIPPods artifacts\<rparr>, True)"
proof -
  have v: "version = currentVersion c (mapping_key m)" "lifecycle = dc_lifecycleEpoch c (mapping_key m)"
    using assms(1) by (auto simp: GetWithVersion_def Let_def split: option.splits if_splits)
  have ok: "\<not> publish_refused c m version lifecycle"
    using assms(2,3) by (auto simp: publish_refused_def v Let_def split: option.splits)
  have e: "gget (dc_entries (track_generation m (c\<lparr>dc_entries := gput (cache_key m) x (dc_entries c)\<rparr>))) (cache_key m) = Some x"
    for x by (simp add: track_generation_def Let_def cache_key_def gget_filter_key)
  show ?thesis using ok
    by (simp add: SetFromRecomputeArtifactsIfVersion_def Let_def Get_def e v uid_differs_def
        buildCacheEntryFromArtifacts_def deepCopyCachedState_def)
qed

theorem publish_then_get_witness:
  "GetWithVersion (NewDesiredStateCache ''c'') ex_mapping = (empty_cached_state, 0, 0, False) \<and>
   (\<exists>c'. SetFromRecomputeArtifactsIfVersion (NewDesiredStateCache ''c'') ex_mapping (empty_artifacts 2) 0 0 = (c', True, 0, 0) \<and>
    Get c' ex_mapping = (\<lparr>cs_Desired = [], cs_Snapshot = \<lparr>snap_Pods = []\<rparr>, cs_MatchedPodsByIndex = [0, 0],
      cs_HasPendingIPPods = False\<rparr>, True))"
proof -
  have g: "GetWithVersion (NewDesiredStateCache ''c'') ex_mapping = (empty_cached_state, 0, 0, False)"
    by (simp add: GetWithVersion_def NewDesiredStateCache_def currentVersion_def)
  with publish_then_get [OF g, of "empty_artifacts 2"] show ?thesis
    by (simp add: empty_artifacts_def NewDesiredStateCache_def numeral_2_eq_2)
qed

text \<open>C29:
  In every cache the controller can reach, all entries of a mapping are of the newest
  generation published for it, so there is at most one entry for each mapping.
\<close>

theorem reachable_single_generation:
  assumes "reachable_cache M cl c" and "gget (dc_entries c) k = Some e" and "gget (dc_entries c) k' = Some e'"
    and "ck_key k = ck_key k'"
  shows "k = k' \<and> dc_latestGeneration c (ck_key k) = Some (ck_generation k)"
proof -
  have "dc_latestGeneration c (ck_key k) = Some (ck_generation k)"
    "dc_latestGeneration c (ck_key k') = Some (ck_generation k')"
    using reachable_latest_only [OF assms(1)] gget_in_set [OF assms(2)] gget_in_set [OF assms(3)]
    by (force simp: latest_only_def)+
  with assms(4) show ?thesis by simp
qed

theorem reachable_single_generation_witness:
  "\<exists>c e. reachable_cache doc_matches ''c'' c \<and> gget (dc_entries c) (cache_key ex_mapping) = Some e \<and>
     dc_latestGeneration c (mapping_key ex_mapping) = Some 1"
proof -
  let ?c = "step_op doc_matches (PublishArtifacts ex_mapping (empty_artifacts 2) 0 0) (NewDesiredStateCache ''c'')"
  have r: "reachable_cache doc_matches ''c'' ?c"
    by (intro reachable_cache.step reachable_cache.init) (simp add: ex_mapping_def)
  obtain e where e: "gget (dc_entries ?c) (cache_key ex_mapping) = Some e"
    by (simp add: SetFromRecomputeArtifactsIfVersion_def publish_refused_def NewDesiredStateCache_def Let_def
        currentVersion_def track_generation_def cache_key_def)
  have "ck_key (cache_key ex_mapping) = mapping_key ex_mapping" "ck_generation (cache_key ex_mapping) = 1"
    by (simp_all add: cache_key_def ex_mapping_def)
  with reachable_single_generation [OF r e e refl] r e show ?thesis by auto
qed

end
