(* ===== verification/Cache_Parity.thy ===== *)
theory Cache_Parity
  imports Desired_Cache
begin

text \<open>
  The parity contract of \<open>desired_state_snapshot.go\<close>: the incremental paths of the cache
  (\<open>OnPodAdd\<close>, \<open>OnPodUpdate\<close>, \<open>OnPodDelete\<close>) and a full recomputation agree. The
  invariant \<open>entry_ok\<close> relates a cache entry to the pods of the mapping's namespace; a
  recomputation establishes it and every pod event keeps it, for mappings in which no two
  rules share a target and no two targets differ only in case. The last section shows on
  concrete inputs that both conditions, and that a pod is not added twice, are needed.
\<close>

definition ips_of :: "desired_state \<Rightarrow> ASGTarget \<Rightarrow> string set" where
  "ips_of desired t = set (gget_or [] desired t)"

abbreviation rule_targets :: "string \<Rightarrow> PodASGMapping \<Rightarrow> nat \<Rightarrow> ASGTarget set" where
  "rule_targets cl m i \<equiv> set (resolveRuleTargets (m_Mappings m ! i) (prefix_set_name cl m))"

definition rule_ips :: "matcher \<Rightarrow> PodASGMapping \<Rightarrow> Pod list \<Rightarrow> nat \<Rightarrow> string set" where
  "rule_ips M m pods i =
     {toCIDR (p_PodIP p) | p. p \<in> set pods \<and> rule_selects M m (m_Mappings m ! i) p \<and> p_PodIP p \<noteq> []}"

definition mapping_targets :: "string \<Rightarrow> PodASGMapping \<Rightarrow> ASGTarget set" where
  "mapping_targets cl m = (\<Union>i < length (m_Mappings m). rule_targets cl m i)"

definition separate_targets :: "string \<Rightarrow> PodASGMapping \<Rightarrow> bool" where
  "separate_targets cl m \<longleftrightarrow> inj_on targetKey (mapping_targets cl m) \<and>
     (\<forall>i < length (m_Mappings m). \<forall>j < length (m_Mappings m). i \<noteq> j \<longrightarrow> rule_targets cl m i \<inter> rule_targets cl m j = {})"

definition keys_in :: "desired_state \<Rightarrow> ASGTarget set \<Rightarrow> bool" where
  "keys_in desired T \<longleftrightarrow> (\<forall>t. gget desired t \<noteq> None \<longrightarrow> t \<in> T)"

definition desired_ok :: "matcher \<Rightarrow> string \<Rightarrow> PodASGMapping \<Rightarrow> Pod list \<Rightarrow> desired_state \<Rightarrow> bool" where
  "desired_ok M cl m pods desired \<longleftrightarrow>
     (\<forall>i < length (m_Mappings m). \<forall>t \<in> rule_targets cl m i. ips_of desired t = rule_ips M m pods i) \<and>
     keys_in desired (mapping_targets cl m) \<and> wf_state desired"

definition matched_counts :: "matcher \<Rightarrow> PodASGMapping \<Rightarrow> Pod list \<Rightarrow> int list" where
  "matched_counts M m pods = map (\<lambda>rule. int (length (filter (rule_selects M m rule) pods))) (m_Mappings m)"

definition pending_count :: "matcher \<Rightarrow> PodASGMapping \<Rightarrow> Pod list \<Rightarrow> int" where
  "pending_count M m pods = int (length (filter (\<lambda>p. selected_by M m p \<and> p_PodIP p = []) pods))"

text \<open>The pods of a namespace, each with its own identity.\<close>

definition namespace_pods :: "PodASGMapping \<Rightarrow> Pod list \<Rightarrow> bool" where
  "namespace_pods m pods \<longleftrightarrow> distinct (map pod_id pods) \<and> (\<forall>p \<in> set pods. p_Namespace p = m_Namespace m)"

definition entry_ok :: "matcher \<Rightarrow> string \<Rightarrow> PodASGMapping \<Rightarrow> Pod list \<Rightarrow> cacheEntry \<Rightarrow> bool" where
  "entry_ok M cl m pods e \<longleftrightarrow>
     desired_ok M cl m pods (cs_Desired (ce_state e)) \<and>
     snap_ok M m pods (snap_Pods (cs_Snapshot (ce_state e))) \<and>
     cs_MatchedPodsByIndex (ce_state e) = matched_counts M m pods \<and>
     cs_HasPendingIPPods (ce_state e) = (pending_count M m pods > 0) \<and>
     rules_ok M m pods (ce_podRules e) \<and> wfmap (ce_podRules e) \<and>
     ce_pendingIPCount e = pending_count M m pods"

text \<open>Pod events, their effect on the pods of the namespace and on the cache.\<close>

datatype pod_event = Added Pod | Updated Pod Pod | Deleted Pod

fun apply_event :: "pod_event \<Rightarrow> Pod list \<Rightarrow> Pod list" where
  "apply_event (Added p) pods = pods @ [p]"
| "apply_event (Updated old new) pods = map (\<lambda>p. if p = old then new else p) pods"
| "apply_event (Deleted p) pods = filter (\<lambda>q. q \<noteq> p) pods"

text \<open>
  What the pod informer delivers: a new pod of the mapping's namespace, an update whose old
  version is the current one and has the same identity, a deletion of a current pod.
\<close>

fun valid_event :: "PodASGMapping \<Rightarrow> Pod list \<Rightarrow> pod_event \<Rightarrow> bool" where
  "valid_event m pods (Added p) = (p_Namespace p = m_Namespace m \<and> pod_id p \<notin> pod_id ` set pods)"
| "valid_event m pods (Updated old new) = (old \<in> set pods \<and> pod_id new = pod_id old)"
| "valid_event m pods (Deleted p) = (p \<in> set pods)"

fun valid_events :: "PodASGMapping \<Rightarrow> Pod list \<Rightarrow> pod_event list \<Rightarrow> bool" where
  "valid_events m pods [] = True"
| "valid_events m pods (ev # evs) = (valid_event m pods ev \<and> valid_events m (apply_event ev pods) evs)"

fun feed :: "matcher \<Rightarrow> PodASGMapping \<Rightarrow> pod_event \<Rightarrow> DesiredStateCache \<Rightarrow> DesiredStateCache" where
  "feed M m (Added p) c = OnPodAdd M c m p"
| "feed M m (Updated old new) c = fst (OnPodUpdate M c m old new)"
| "feed M m (Deleted p) c = OnPodDelete M c m p"

text \<open>The prefixes under a key, an empty set counting as none.\<close>

definition nonempty_view :: "desired_state \<Rightarrow> azure_view" where
  "nonempty_view D k = (case view D k of None \<Rightarrow> None | Some s \<Rightarrow> if s = {} then None else Some s)"

text \<open>
  The effect of one iteration of the loops of \<open>OnPodDelete\<close> and \<open>OnPodUpdate\<close> on each
  field of an entry, as functions of that field.
\<close>

definition delete_targets :: "cacheEntry \<Rightarrow> string \<Rightarrow> PodASGMapping \<Rightarrow> PodIdentity \<Rightarrow> string option \<Rightarrow> nat set \<Rightarrow> nat \<Rightarrow>
    desired_state \<Rightarrow> desired_state" where
  "delete_targets e psn m podID cidr idx i D =
     (case cidr of None \<Rightarrow> D
      | Some ip \<Rightarrow> if i \<in> idx \<and> \<not> hasOtherContributor e podID i ip
                  then fold (del_ip ip) (resolveRuleTargets (m_Mappings m ! i) psn) D else D)"

definition update_track :: "PodIdentity \<Rightarrow> nat set \<Rightarrow> nat set \<Rightarrow> nat \<Rightarrow> (PodIdentity, nat goset) gomap \<Rightarrow>
    (PodIdentity, nat goset) gomap" where
  "update_track podID old new i R =
     (if i \<notin> old \<and> i \<in> new then track podID i R
      else if i \<in> old \<and> i \<notin> new then
        (case gget R podID of None \<Rightarrow> R | Some rules \<Rightarrow> gput podID (sdel i rules) R)
      else R)"

definition update_targets :: "cacheEntry \<Rightarrow> string \<Rightarrow> PodASGMapping \<Rightarrow> PodIdentity \<Rightarrow> nat set \<Rightarrow> nat set \<Rightarrow>
    string option \<Rightarrow> string option \<Rightarrow> nat \<Rightarrow> desired_state \<Rightarrow> desired_state" where
  "update_targets e psn m podID old new oldCIDR newCIDR i D =
     (if i \<in> old \<or> i \<in> new
      then fold (update_target e podID i (i \<in> old) (i \<in> new) oldCIDR newCIDR)
             (resolveRuleTargets (m_Mappings m ! i) psn) D
      else D)"

definition update_count :: "nat set \<Rightarrow> nat set \<Rightarrow> nat \<Rightarrow> int list \<Rightarrow> int list" where
  "update_count old new i c =
     (if i \<notin> old \<and> i \<in> new then inc_matched i c else if i \<in> old \<and> i \<notin> new then dec_matched i c else c)"

definition update_ips :: "cacheEntry \<Rightarrow> PodIdentity \<Rightarrow> nat set \<Rightarrow> nat set \<Rightarrow> string option \<Rightarrow> string option \<Rightarrow> nat \<Rightarrow>
    string set \<Rightarrow> string set" where
  "update_ips e podID old new oc nc i s =
     (s - {ip. oc = Some ip \<and> i \<in> old \<and> \<not> hasOtherContributor e podID i ip}) \<union> {ip. nc = Some ip \<and> i \<in> new}"

section \<open>Loops that change one index or one target at a time\<close>

text \<open>
  The loops over the rules change, for rule \<open>i\<close>, only the targets of the rule and only entry
  \<open>i\<close> of the counts; with separate targets each target is changed once.
\<close>

lemma fold_targets:
  assumes "distinct is" and "i \<in> set is" and "t \<in> T i"
    and "\<And>j. j \<in> set is \<Longrightarrow> j \<noteq> i \<Longrightarrow> t \<notin> T j"
    and "\<And>j D. j \<in> set is \<Longrightarrow> t \<notin> T j \<Longrightarrow> ips_of (F j D) t = ips_of D t"
    and "\<And>D. ips_of (F i D) t = G (ips_of D t)"
  shows "ips_of (fold F is D) t = G (ips_of D t)"
  using assms
proof (induction "is" arbitrary: D)
  case (Cons j "is")
  show ?case
  proof (cases "j = i")
    case True
    have "ips_of (fold F js D') t = ips_of D' t" if "\<forall>j \<in> set js. \<forall>D. ips_of (F j D) t = ips_of D t" for js D'
      using that by (induction js arbitrary: D') auto
    moreover have "\<forall>k \<in> set is. \<forall>D. ips_of (F k D) t = ips_of D t"
      using Cons.prems(1,4,5) True by (metis distinct.simps(2) list.set_intros(2))
    ultimately show ?thesis using True Cons.prems(6) by simp
  next
    case False
    then have "ips_of (F j D) t = ips_of D t" using Cons.prems(4,5) by auto
    moreover have "ips_of (fold F is (F j D)) t = G (ips_of (F j D) t)"
      using Cons.prems False by (intro Cons.IH) auto
    ultimately show ?thesis by simp
  qed
qed simp

lemma fold_targets_other:
  "(\<And>j D. j \<in> set is \<Longrightarrow> ips_of (F j D) t = ips_of D t) \<Longrightarrow> ips_of (fold F is D) t = ips_of D t"
  by (induction "is" arbitrary: D) auto

lemma fold_counts:
  assumes "distinct is" and "\<And>j xs. length (F j xs) = length xs"
    and "\<And>j k xs. k < length xs \<Longrightarrow> F j xs ! k = (if k = j then G k (xs ! k) else xs ! k)"
    and "k < length xs"
  shows "fold F is xs ! k = (if k \<in> set is then G k (xs ! k) else xs ! k)"
  using assms by (induction "is" arbitrary: xs) auto

lemma fold_counts_length: "(\<And>j xs. length (F j xs) = length xs) \<Longrightarrow> length (fold F is xs) = length xs"
  by (induction "is" arbitrary: xs) auto

lemma enumerate_map: "List.enumerate 0 xs = map (\<lambda>i. (i, xs ! i)) [0..<length xs]"
  by (rule nth_equalityI) (auto simp: nth_enumerate_eq)

section \<open>Prefixes of a target\<close>

lemma ips_of_add_ip [simp]: "ips_of (add_ip ip t' D) t = (if t = t' then insert ip (ips_of D t) else ips_of D t)"
  by (simp add: ips_of_def add_ip_def)

lemma ips_of_del_ip [simp]: "ips_of (del_ip ip t' D) t = (if t = t' then ips_of D t - {ip} else ips_of D t)"
  by (auto simp: ips_of_def del_ip_def gget_or_def split: option.splits)

lemma ips_of_fold_add: "ips_of (fold (add_ip ip) ts D) t = (if t \<in> set ts then insert ip (ips_of D t) else ips_of D t)"
  by (induction ts arbitrary: D) auto

lemma ips_of_fold_del: "ips_of (fold (del_ip ip) ts D) t = (if t \<in> set ts then ips_of D t - {ip} else ips_of D t)"
  by (induction ts arbitrary: D) auto

lemma wf_state_gput: "wf_state D \<Longrightarrow> distinct ips \<Longrightarrow> wf_state (gput t ips D)"
  unfolding wf_state_def by (intro conjI wfmap_gput gput_Ball) auto

lemma wf_state_gget: "wf_state D \<Longrightarrow> distinct (gget_or [] D t)"
  unfolding wf_state_def gget_or_def by (auto split: option.splits dest: gget_in_set)

lemma wf_state_add_ip: "wf_state D \<Longrightarrow> wf_state (add_ip ip t D)"
  by (simp add: add_ip_def wf_state_gput wf_state_gget)

lemma wf_state_del_ip: "wf_state D \<Longrightarrow> wf_state (del_ip ip t D)"
  using wf_state_gget [of D t] by (auto simp: del_ip_def gget_or_def intro: wf_state_gput split: option.splits)

lemma wf_state_fold: "(\<And>x D. wf_state D \<Longrightarrow> wf_state (f x D)) \<Longrightarrow> wf_state D \<Longrightarrow> wf_state (fold f xs D)"
  by (induction xs arbitrary: D) auto

lemma keys_in_fold:
  "keys_in D T \<Longrightarrow> (\<And>x D. x \<in> set xs \<Longrightarrow> keys_in D T \<Longrightarrow> keys_in (f x D) T) \<Longrightarrow> keys_in (fold f xs D) T"
  by (induction xs arbitrary: D) auto

lemma keys_in_add_ip: "keys_in D T \<Longrightarrow> t \<in> T \<Longrightarrow> keys_in (add_ip ip t D) T"
  by (simp add: keys_in_def add_ip_def)

lemma keys_in_del_ip: "keys_in D T \<Longrightarrow> keys_in (del_ip ip t D) T"
  by (auto simp: keys_in_def del_ip_def split: option.splits)

lemma keys_in_update_target: "keys_in D T \<Longrightarrow> t \<in> T \<Longrightarrow> keys_in (update_target e podID i o1 n1 oc nc t D) T"
  by (simp add: keys_in_def update_target_def Let_def)

section \<open>Pods\<close>

lemma rule_selects_in_namespace:
  "namespace_pods m pods \<Longrightarrow> p \<in> set pods \<Longrightarrow> rule_selects M m rule p \<longleftrightarrow> rule_matches M rule (p_Labels p)"
  by (simp add: namespace_pods_def rule_selects_iff)

lemma selects_matched:
  assumes "p_Namespace p = m_Namespace m" and "i < length (m_Mappings m)"
  shows "rule_selects M m (m_Mappings m ! i) p \<longleftrightarrow> i \<in> set (matchPodToRuleIndices M m (p_Labels p))"
  using assms by (simp add: rule_selects_iff set_matchPodToRuleIndices)

lemma hasOther_iff:
  assumes "rules_ok M m pods (ce_podRules e)" and "wfmap (ce_podRules e)"
    and "\<And>x. x \<noteq> podID \<Longrightarrow> gget (snap_Pods (cs_Snapshot (ce_state e))) x = gget S x" and "snap_ok M m pods S"
    and "distinct (map pod_id pods)" and "i < length (m_Mappings m)"
  shows "hasOtherContributor e podID i ip \<longleftrightarrow>
    (\<exists>q \<in> set pods. pod_id q \<noteq> podID \<and> rule_selects M m (m_Mappings m ! i) q \<and> p_PodIP q \<noteq> [] \<and> toCIDR (p_PodIP q) = ip)"
proof
  assume "hasOtherContributor e podID i ip"
  then obtain x r mem where x: "(x, r) \<in> set (ce_podRules e)" "x \<noteq> podID" "i \<in> set r" "gget S x = Some mem" "toCIDR (mem_PodIP mem) = ip"
    using assms(3) by (auto simp: hasOtherContributor_def list_ex_iff split: option.splits)
  from x(1) assms(2) have "gget (ce_podRules e) x = Some r" by (simp add: wfmap_gget_iff)
  then obtain q where q: "q \<in> set pods" "pod_id q = x" "selected_by M m q" "set r = set (matchPodToRuleIndices M m (p_Labels q))"
    using rules_ok_Some [OF assms(1)] by blast
  obtain q' where q': "q' \<in> set pods" "pod_id q' = x" "p_PodIP q' \<noteq> []" "mem_PodIP mem = p_PodIP q'"
    using snap_ok_Some [OF assms(4) x(4)] by blast
  have "q' = q" using assms(5) q q' by (metis distinct_map inj_onD)
  with q q' x assms(6) show "\<exists>q \<in> set pods. pod_id q \<noteq> podID \<and> rule_selects M m (m_Mappings m ! i) q \<and>
      p_PodIP q \<noteq> [] \<and> toCIDR (p_PodIP q) = ip"
    by (auto simp: selects_matched selected_by_iff)
next
  assume "\<exists>q \<in> set pods. pod_id q \<noteq> podID \<and> rule_selects M m (m_Mappings m ! i) q \<and> p_PodIP q \<noteq> [] \<and> toCIDR (p_PodIP q) = ip"
  then obtain q where q: "q \<in> set pods" "pod_id q \<noteq> podID" "rule_selects M m (m_Mappings m ! i) q"
    "p_PodIP q \<noteq> []" "toCIDR (p_PodIP q) = ip" by blast
  have sel: "selected_by M m q" using q(3) assms(6) by (auto simp: selected_by_def)
  then obtain r where r: "gget (ce_podRules e) (pod_id q) = Some r"
    using rules_ok_None [OF assms(1) _ q(1) refl] by (cases "gget (ce_podRules e) (pod_id q)") auto
  then obtain q'' where "q'' \<in> set pods" "pod_id q'' = pod_id q" "set r = set (matchPodToRuleIndices M m (p_Labels q''))"
    using rules_ok_Some [OF assms(1)] by metis
  with q(1) assms(5) have "set r = set (matchPodToRuleIndices M m (p_Labels q))" by (metis distinct_map inj_onD)
  then have i: "i \<in> set r" using q(3) assms(6) by (simp add: selects_matched rule_selects_iff set_matchPodToRuleIndices)
  obtain mem where mem: "gget S (pod_id q) = Some mem"
    using snap_ok_None [OF assms(4) _ q(1) refl] sel q(4) by (cases "gget S (pod_id q)") auto
  then obtain q' where "q' \<in> set pods" "pod_id q' = pod_id q" "mem_PodIP mem = p_PodIP q'"
    using snap_ok_Some [OF assms(4)] by metis
  with q(1) assms(5) have "mem_PodIP mem = p_PodIP q" by (metis distinct_map inj_onD)
  then show "hasOtherContributor e podID i ip"
    using q i mem r assms(3) [of "pod_id q"] gget_in_set [OF r] by (force simp: hasOtherContributor_def list_ex_iff)
qed


section \<open>A recomputation establishes the invariant\<close>

lemma rule_keys_targets: "set (rule_keys cl m (m_Mappings m ! i)) = targetKey ` rule_targets cl m i"
  by (simp add: rule_keys_def)

lemma rule_target_in: "i < length (m_Mappings m) \<Longrightarrow> t \<in> rule_targets cl m i \<Longrightarrow> t \<in> mapping_targets cl m"
  by (auto simp: mapping_targets_def)

lemma separate_key:
  assumes "separate_targets cl m" and "i < length (m_Mappings m)" "j < length (m_Mappings m)"
    and "t \<in> rule_targets cl m i" and "targetKey t \<in> targetKey ` rule_targets cl m j"
  shows "i = j"
proof -
  from assms(5) obtain t' where t': "t' \<in> rule_targets cl m j" "targetKey t' = targetKey t" by auto
  have "inj_on targetKey (mapping_targets cl m)" using assms(1) by (simp add: separate_targets_def)
  then have "t' = t" using t' assms(2-4) rule_target_in by (metis inj_onD)
  with t'(1) assms show ?thesis unfolding separate_targets_def by blast
qed

lemma wanted_separate:
  assumes "separate_targets cl m" and "i < length (m_Mappings m)" and "t \<in> rule_targets cl m i"
  shows "wanted M cl [m] pods (targetKey t) = rule_ips M m pods i"
proof (intro set_eqI iffI)
  fix x assume "x \<in> wanted M cl [m] pods (targetKey t)"
  then obtain rule p where r: "rule \<in> set (m_Mappings m)" "targetKey t \<in> set (rule_keys cl m rule)" and
    p: "p \<in> set pods" "rule_selects M m rule p" "p_PodIP p \<noteq> []" "x = toCIDR (p_PodIP p)"
    by (auto simp: wanted_def)
  from r(1) obtain j where j: "j < length (m_Mappings m)" "rule = m_Mappings m ! j" by (auto simp: in_set_conv_nth)
  then have "i = j" using separate_key [OF assms(1,2) j(1) assms(3)] r(2) by (simp add: rule_keys_targets)
  with j p show "x \<in> rule_ips M m pods i" by (auto simp: rule_ips_def)
next
  fix x assume "x \<in> rule_ips M m pods i"
  moreover have "targetKey t \<in> set (rule_keys cl m (m_Mappings m ! i))" using assms(3) by (simp add: rule_keys_targets)
  ultimately show "x \<in> wanted M cl [m] pods (targetKey t)"
    using nth_mem [OF assms(2)] unfolding wanted_def rule_ips_def by auto
qed

text \<open>The target under which a folded contribution is stored is one of the contributed ones.\<close>

lemma add_contribs_target:
  "gget (add_contribs cs I) k = Some e \<Longrightarrow>
     (\<exists>ips. (k, int_target e, ips) \<in> set cs) \<or> (\<exists>e'. gget I k = Some e' \<and> int_target e' = int_target e)"
proof (induction cs arbitrary: I)
  case (Cons c cs)
  obtain k0 t0 ips0 where c: "c = (k0, t0, ips0)" by (cases c)
  have "gget (add_contribs cs (add_to_entry k0 t0 ips0 I)) k = Some e"
    using Cons.prems by (simp add: add_contribs_def c)
  from Cons.IH [OF this] show ?case
    by (auto simp: c add_to_entry_def Let_def split: if_splits option.splits)
qed (simp add: add_contribs_def)

lemma ips_of_result:
  assumes "wf_internal I"
  shows "ips_of (result_of I) t = (case gget I (targetKey t) of None \<Rightarrow> {} | Some e \<Rightarrow> if int_target e = t then set (int_ips e) else {})"
proof -
  have wf: "wfmap (result_of I)" using wf_state_result_of [OF assms] by (simp add: wf_state_def)
  have keys: "(k, e) \<in> set I \<Longrightarrow> k = targetKey (int_target e)" for k e
    using assms by (auto simp: wf_internal_def)
  have wI: "wfmap I" using assms by (simp add: wf_internal_def)
  show ?thesis
  proof (cases "gget (result_of I) t")
    case (Some ips)
    then obtain k e where e: "(k, e) \<in> set I" "int_target e = t" "int_ips e = ips"
      using gget_in_set [OF Some] by (auto simp: result_of_eq [OF assms])
    then have "gget I (targetKey t) = Some e" using keys [OF e(1)] wI by (simp add: wfmap_gget_iff)
    with e Some show ?thesis by (simp add: ips_of_def gget_or_def)
  next
    case None
    have "int_target e \<noteq> t" if "gget I (targetKey t) = Some e" for e
      using None gget_in_set [OF that] by (force simp: gget_None_iff result_of_eq [OF assms])
    with None show ?thesis by (auto simp: ips_of_def gget_or_def split: option.splits)
  qed
qed

lemma single_contribs_target:
  "(k, t, ips) \<in> set (all_pod_contribs M cl [m] pods) \<Longrightarrow> t \<in> mapping_targets cl m \<and> k = targetKey t"
  unfolding all_pod_contribs_mem mapping_targets_def by (auto simp: in_set_conv_nth) blast

lemma recompute_keys_in:
  "keys_in (art_Desired (ComputeDesiredStateRecomputeArtifacts M cl m pods)) (mapping_targets cl m)"
proof -
  let ?I = "add_contribs (all_pod_contribs M cl [m] pods) []"
  have D: "art_Desired (ComputeDesiredStateRecomputeArtifacts M cl m pods) = result_of ?I"
    using artifacts_snapshot_eq [of M cl m pods] WithSnapshot_contribs [of M cl "[m]" pods] by (simp add: prod_eq_iff)
  note wf = wf_internal_pod_contribs [of M cl "[m]" pods]
  show ?thesis unfolding keys_in_def D
  proof (intro allI impI)
    fix t assume "gget (result_of ?I) t \<noteq> None"
    then obtain ips where "(t, ips) \<in> set (result_of ?I)" by (auto dest: gget_in_set)
    then obtain k e where e: "(k, e) \<in> set ?I" "int_target e = t" by (auto simp: result_of_eq [OF wf])
    from e(1) have "gget ?I k = Some e" using wf by (simp add: wf_internal_def wfmap_gget_iff)
    with e(2) show "t \<in> mapping_targets cl m" using add_contribs_target single_contribs_target by fastforce
  qed
qed

lemma recompute_desired_ok:
  assumes "separate_targets cl m"
  shows "desired_ok M cl m pods (art_Desired (ComputeDesiredStateRecomputeArtifacts M cl m pods))"
proof -
  let ?I = "add_contribs (all_pod_contribs M cl [m] pods) []"
  have D: "art_Desired (ComputeDesiredStateRecomputeArtifacts M cl m pods) = result_of ?I"
    using artifacts_snapshot_eq [of M cl m pods] WithSnapshot_contribs [of M cl "[m]" pods] by (simp add: prod_eq_iff)
  note wf = wf_internal_pod_contribs [of M cl "[m]" pods]
  have tgt: "int_target e \<in> mapping_targets cl m" "targetKey (int_target e) = k" if "gget ?I k = Some e" for k e
    using add_contribs_target [OF that] single_contribs_target by fastforce+
  have inj: "inj_on targetKey (mapping_targets cl m)" using assms by (simp add: separate_targets_def)
  have "ips_of (result_of ?I) t = rule_ips M m pods i" if "i < length (m_Mappings m)" "t \<in> rule_targets cl m i" for i t
  proof -
    have at: "ips_at ?I (targetKey t) = (if rule_ips M m pods i = {} then None else Some (rule_ips M m pods i))"
      unfolding ips_at_add_contribs contribs_empty_iff wanted_contribs wanted_separate [OF assms that]
      by (simp add: ips_at_def)
    have "int_target e = t" if "gget ?I (targetKey t) = Some e" for e
      using tgt [OF that] inj rule_target_in [OF \<open>i < _\<close> \<open>t \<in> _\<close>] by (metis inj_onD)
    with at show ?thesis unfolding ips_of_result [OF wf]
      by (auto simp: ips_at_def split: option.splits if_splits)
  qed
  moreover have "keys_in (result_of ?I) (mapping_targets cl m)" using recompute_keys_in [of M cl m pods] D by simp
  ultimately show ?thesis unfolding D desired_ok_def using wf_state_result_of [OF wf] by auto
qed

lemma recompute_entry_ok:
  assumes "separate_targets cl m" and "distinct (map pod_id pods)"
  shows "entry_ok M cl m pods (buildCacheEntryFromArtifacts m (ComputeDesiredStateRecomputeArtifacts M cl m pods))"
proof -
  have "(\<exists>p \<in> set pods. Q p) \<longleftrightarrow> int (length (filter Q pods)) > 0" for Q
    by (induction pods) auto
  moreover have "wfmap (art_PodRules (ComputeDesiredStateRecomputeArtifacts M cl m pods))"
    unfolding artifacts_fields art_fold_def by (rule fold_artifacts_rules_wf) (simp add: empty_artifacts_def)
  ultimately show ?thesis
    using recompute_desired_ok [OF assms(1)] artifacts_maps_ok [OF assms(2)]
    by (simp add: entry_ok_def buildCacheEntryFromArtifacts_def artifacts_counts artifacts_pending
        matched_counts_def pending_count_def)
qed

section \<open>Adding a pod\<close>

lemma add_rules_fields:
  "ce_podRules (fold (add_rule m psn podID cidr) idx e) = fold (track podID) idx (ce_podRules e)"
  "cs_Desired (ce_state (fold (add_rule m psn podID cidr) idx e)) =
     fold (\<lambda>i D. case cidr of None \<Rightarrow> D | Some ip \<Rightarrow> fold (add_ip ip) (resolveRuleTargets (m_Mappings m ! i) psn) D)
       idx (cs_Desired (ce_state e))"
  "cs_MatchedPodsByIndex (ce_state (fold (add_rule m psn podID cidr) idx e)) =
     fold inc_matched idx (cs_MatchedPodsByIndex (ce_state e))"
  "cs_Snapshot (ce_state (fold (add_rule m psn podID cidr) idx e)) = cs_Snapshot (ce_state e)"
  "cs_HasPendingIPPods (ce_state (fold (add_rule m psn podID cidr) idx e)) = cs_HasPendingIPPods (ce_state e)"
  "ce_pendingIPCount (fold (add_rule m psn podID cidr) idx e) = ce_pendingIPCount e"
  by (induction idx arbitrary: e) (simp_all add: add_rule_def)

lemma gget_fold_track:
  "gget (fold (track podID) idx R) x =
     (if x = podID \<and> idx \<noteq> [] then Some (fold sadd idx (gget_or [] R podID)) else gget R x)"
  by (induction idx arbitrary: R) (auto simp: track_def)

lemma wfmap_fold_track: "wfmap R \<Longrightarrow> wfmap (fold (track podID) idx R)"
  by (induction idx arbitrary: R) (simp_all add: track_def)

lemma inc_matched_nth: "k < length xs \<Longrightarrow> inc_matched j xs ! k = (if k = j then xs ! k + 1 else xs ! k)"
  by (auto simp: inc_matched_def bump_def)

lemma length_inc_matched [simp]: "length (inc_matched j xs) = length xs"
  by (simp add: inc_matched_def bump_def)

lemma rule_ips_snoc:
  "rule_ips M m (pods @ [p]) i = rule_ips M m pods i \<union>
     (if rule_selects M m (m_Mappings m ! i) p \<and> p_PodIP p \<noteq> [] then {toCIDR (p_PodIP p)} else {})"
  by (auto simp: rule_ips_def)

lemma matched_counts_snoc:
  assumes "p_Namespace p = m_Namespace m"
  shows "fold inc_matched (matchPodToRuleIndices M m (p_Labels p)) (matched_counts M m pods) = matched_counts M m (pods @ [p])"
proof (rule nth_equalityI)
  fix k assume "k < length (fold inc_matched (matchPodToRuleIndices M m (p_Labels p)) (matched_counts M m pods))"
  then have k: "k < length (m_Mappings m)" by (simp add: fold_counts_length matched_counts_def)
  then have "fold inc_matched (matchPodToRuleIndices M m (p_Labels p)) (matched_counts M m pods) ! k =
      (if k \<in> set (matchPodToRuleIndices M m (p_Labels p)) then matched_counts M m pods ! k + 1 else matched_counts M m pods ! k)"
    by (intro fold_counts) (auto simp: distinct_matchPodToRuleIndices inc_matched_nth matched_counts_def)
  with k assms show "fold inc_matched (matchPodToRuleIndices M m (p_Labels p)) (matched_counts M m pods) ! k = matched_counts M m (pods @ [p]) ! k"
    by (simp add: matched_counts_def selects_matched)
qed (simp add: fold_counts_length matched_counts_def)

lemma desired_ok_add:
  assumes "separate_targets cl m" and "desired_ok M cl m pods D" and "p_Namespace p = m_Namespace m"
  shows "desired_ok M cl m (pods @ [p])
    (fold (\<lambda>i D. case pod_cidr p of None \<Rightarrow> D
                 | Some ip \<Rightarrow> fold (add_ip ip) (resolveRuleTargets (m_Mappings m ! i) (prefix_set_name cl m)) D)
       (matchPodToRuleIndices M m (p_Labels p)) D)" (is "desired_ok M cl m _ (fold ?F ?idx D)")
proof (cases "pod_cidr p")
  case None
  then have "p_PodIP p = []" by (simp add: pod_cidr_def split: if_splits)
  then have "rule_ips M m (pods @ [p]) i = rule_ips M m pods i" for i by (simp add: rule_ips_snoc)
  moreover have "fold ?F ?idx D = D" using None by (simp add: fold_id [unfolded id_def])
  ultimately show ?thesis using assms(2) by (simp add: desired_ok_def)
next
  case (Some ip)
  then have ip: "p_PodIP p \<noteq> []" "ip = toCIDR (p_PodIP p)" by (simp_all add: pod_cidr_def split: if_splits)
  have F: "ips_of (?F j D) t = (if t \<in> rule_targets cl m j then insert ip (ips_of D t) else ips_of D t)" for j D t
    by (simp add: Some ips_of_fold_add)
  have "ips_of (fold ?F ?idx D) t = rule_ips M m (pods @ [p]) i"
    if i: "i < length (m_Mappings m)" and t: "t \<in> rule_targets cl m i" for i t
  proof (cases "i \<in> set ?idx")
    case True
    have "ips_of (fold ?F ?idx D) t = insert ip (ips_of D t)"
    proof (rule fold_targets [where T = "rule_targets cl m"])
      show "t \<notin> rule_targets cl m j" if "j \<in> set ?idx" "j \<noteq> i" for j
        using that i t assms(1) unfolding separate_targets_def set_matchPodToRuleIndices by blast
    qed (use True t F distinct_matchPodToRuleIndices in auto)
    moreover have "ips_of D t = rule_ips M m pods i" using assms(2) i t by (simp add: desired_ok_def)
    moreover have "rule_selects M m (m_Mappings m ! i) p" using True i assms(3) by (simp add: selects_matched)
    ultimately show ?thesis using ip by (simp add: rule_ips_snoc)
  next
    case False
    have "ips_of (fold ?F ?idx D) t = ips_of D t"
    proof (rule fold_targets_other)
      show "ips_of (?F j D) t = ips_of D t" if "j \<in> set ?idx" for j D
        using that i t assms(1) False F unfolding separate_targets_def set_matchPodToRuleIndices by (metis (no_types, lifting) disjoint_iff mem_Collect_eq)
    qed
    moreover have "ips_of D t = rule_ips M m pods i" using assms(2) i t by (simp add: desired_ok_def)
    moreover have "\<not> rule_selects M m (m_Mappings m ! i) p" using False i assms(3) by (simp add: selects_matched)
    ultimately show ?thesis by (simp add: rule_ips_snoc)
  qed
  moreover have "keys_in (fold ?F ?idx D) (mapping_targets cl m)"
    using assms(2) by (intro keys_in_fold)
      (auto simp: Some desired_ok_def set_matchPodToRuleIndices intro!: keys_in_fold keys_in_add_ip elim: rule_target_in)
  moreover have "wf_state (fold ?F ?idx D)"
    using assms(2) by (intro wf_state_fold) (auto simp: Some desired_ok_def intro: wf_state_fold wf_state_add_ip)
  ultimately show ?thesis by (simp add: desired_ok_def)
qed

lemma rules_ok_snoc:
  assumes "rules_ok M m pods R" and "pod_id p \<notin> pod_id ` set pods" and "p_Namespace p = m_Namespace m"
  shows "rules_ok M m (pods @ [p]) (fold (track (pod_id p)) (matchPodToRuleIndices M m (p_Labels p)) R)"
proof -
  have "gget R (pod_id p) = None"
  proof (cases "gget R (pod_id p)")
    case (Some r)
    then obtain q where "q \<in> set pods" "pod_id q = pod_id p" by (rule rules_ok_Some [OF assms(1)])
    with assms(2) show ?thesis by (metis imageI)
  qed simp
  then have g: "gget (fold (track (pod_id p)) (matchPodToRuleIndices M m (p_Labels p)) R) x =
     (if x = pod_id p \<and> selected_by M m p then Some (fold sadd (matchPodToRuleIndices M m (p_Labels p)) []) else gget R x)" for x
    using assms(3) by (simp add: gget_fold_track gget_or_def selected_by_iff)
  show ?thesis
  proof (rule rules_okI)
    fix x r assume "gget (fold (track (pod_id p)) (matchPodToRuleIndices M m (p_Labels p)) R) x = Some r"
    then show "\<exists>q \<in> set (pods @ [p]). pod_id q = x \<and> selected_by M m q \<and> set r = set (matchPodToRuleIndices M m (p_Labels q))"
      using rules_ok_Some [OF assms(1), of x r] by (auto simp: g split: if_splits)
  next
    fix q assume "q \<in> set (pods @ [p])" and "selected_by M m q"
    then show "gget (fold (track (pod_id p)) (matchPodToRuleIndices M m (p_Labels p)) R) (pod_id q) \<noteq> None"
      using rules_ok_None [OF assms(1) _ _ refl, of q] by (auto simp: g)
  qed
qed

lemma snap_ok_snoc:
  assumes "snap_ok M m pods S" and "pod_id p \<notin> pod_id ` set pods"
  shows "snap_ok M m (pods @ [p])
    (if selected_by M m p \<and> p_PodIP p \<noteq> [] then gput (pod_id p) \<lparr>mem_PodIP = p_PodIP p\<rparr> S else S)" (is "snap_ok M m _ ?S")
proof (rule snap_okI)
  fix x mem assume "gget ?S x = Some mem"
  then show "\<exists>q \<in> set (pods @ [p]). pod_id q = x \<and> selected_by M m q \<and> p_PodIP q \<noteq> [] \<and> mem_PodIP mem = p_PodIP q"
    using snap_ok_Some [OF assms(1), of x mem] by (auto split: if_splits)
next
  fix q assume "q \<in> set (pods @ [p])" and "selected_by M m q" and "p_PodIP q \<noteq> []"
  then show "gget ?S (pod_id q) \<noteq> None"
    using snap_ok_None [OF assms(1) _ _ refl, of q] assms(2) by (cases "gget S (pod_id q)") auto
qed

lemma entry_ok_add:
  assumes "separate_targets cl m" and "entry_ok M cl m pods e" and "namespace_pods m (pods @ [p])"
  shows "entry_ok M cl m (pods @ [p]) (add_pod_entry M cl m p e)"
proof -
  have ns: "p_Namespace p = m_Namespace m" and new: "pod_id p \<notin> pod_id ` set pods"
    using assms(3) by (auto simp: namespace_pods_def)
  note ok = assms(2) [unfolded entry_ok_def]
  have d: "desired_ok M cl m (pods @ [p]) (fold (\<lambda>i D. case pod_cidr p of None \<Rightarrow> D
        | Some ip \<Rightarrow> fold (add_ip ip) (resolveRuleTargets (m_Mappings m ! i) (prefix_set_name cl m)) D)
      (matchPodToRuleIndices M m (p_Labels p)) (cs_Desired (ce_state e)))"
    using ok by (intro desired_ok_add [OF assms(1) _ ns]) blast
  have r: "rules_ok M m (pods @ [p]) (fold (track (pod_id p)) (matchPodToRuleIndices M m (p_Labels p)) (ce_podRules e))"
    using ok by (intro rules_ok_snoc [OF _ new ns]) blast
  have s: "snap_ok M m (pods @ [p]) (if selected_by M m p \<and> p_PodIP p \<noteq> []
      then gput (pod_id p) \<lparr>mem_PodIP = p_PodIP p\<rparr> (snap_Pods (cs_Snapshot (ce_state e)))
      else snap_Pods (cs_Snapshot (ce_state e)))"
    using ok by (intro snap_ok_snoc [OF _ new]) blast
  have pend: "pending_count M m (pods @ [p]) = pending_count M m pods + (if selected_by M m p \<and> p_PodIP p = [] then 1 else 0)"
    "pending_count M m pods \<ge> 0"
    by (simp_all add: pending_count_def)
  have idx: "matchPodToRuleIndices M m (p_Labels p) = [] \<longleftrightarrow> \<not> selected_by M m p" using ns by (simp add: selected_by_iff)
  show ?thesis
    using ok d r s pend
    unfolding entry_ok_def add_pod_entry_def Let_def idx prefix_set_name_def [symmetric]
    by (cases "selected_by M m p"; cases "p_PodIP p = []")
      (simp_all add: put_snapshot_def add_rules_fields wfmap_fold_track matched_counts_snoc [OF ns])
qed


section \<open>Removing and replacing a pod\<close>

lemma rule_ips_split:
  "rule_ips M m (xs @ p # ys) i = rule_ips M m (xs @ ys) i \<union>
     (if rule_selects M m (m_Mappings m ! i) p \<and> p_PodIP p \<noteq> [] then {toCIDR (p_PodIP p)} else {})"
  by (auto simp: rule_ips_def)

lemma matched_counts_split:
  "k < length (m_Mappings m) \<Longrightarrow> matched_counts M m (xs @ p # ys) ! k = matched_counts M m (xs @ ys) ! k +
     (if rule_selects M m (m_Mappings m ! k) p then 1 else 0)"
  by (simp add: matched_counts_def)

lemma matched_counts_nonneg: "k < length (m_Mappings m) \<Longrightarrow> matched_counts M m pods ! k \<ge> 0"
  by (simp add: matched_counts_def)

lemma length_matched_counts [simp]: "length (matched_counts M m pods) = length (m_Mappings m)"
  by (simp add: matched_counts_def)

lemma pending_count_split:
  "pending_count M m (xs @ p # ys) = pending_count M m (xs @ ys) + (if selected_by M m p \<and> p_PodIP p = [] then 1 else 0)"
  "pending_count M m pods \<ge> 0"
  by (simp_all add: pending_count_def)

lemma rules_ok_cong:
  "rules_ok M m pods R \<Longrightarrow> (\<And>x. map_option set (gget R' x) = map_option set (gget R x)) \<Longrightarrow> rules_ok M m pods R'"
proof (rule rules_okI)
  fix x r assume ok: "rules_ok M m pods R" and eq: "\<And>x. map_option set (gget R' x) = map_option set (gget R x)"
    and "gget R' x = Some r"
  then obtain r' where "gget R x = Some r'" "set r' = set r" by (metis (no_types, lifting) map_option_eq_Some)
  then show "\<exists>p \<in> set pods. pod_id p = x \<and> selected_by M m p \<and> set r = set (matchPodToRuleIndices M m (p_Labels p))"
    using rules_ok_Some [OF ok] by metis
next
  fix p assume ok: "rules_ok M m pods R" and eq: "\<And>x. map_option set (gget R' x) = map_option set (gget R x)"
    and "p \<in> set pods" "selected_by M m p"
  then show "gget R' (pod_id p) \<noteq> None" using rules_ok_None [OF ok _ _ refl] by (metis option.map_disc_iff)
qed

lemma snap_ok_cong: "snap_ok M m pods S \<Longrightarrow> (\<And>x. gget S' x = gget S x) \<Longrightarrow> snap_ok M m pods S'"
  by (simp add: snap_ok_def)

lemma split_ids:
  assumes "distinct (map pod_id (xs @ p # ys))" and "q \<in> set (xs @ ys)"
  shows "pod_id q \<noteq> pod_id p"
proof -
  have "pod_id q \<in> pod_id ` set xs \<union> pod_id ` set ys" using assms(2) by (metis Un_iff imageI set_append)
  moreover have "pod_id p \<notin> pod_id ` set xs \<union> pod_id ` set ys" using assms(1) by auto
  ultimately show ?thesis by metis
qed

lemma split_mem:
  assumes "p \<in> set (xs @ q # ys)" and "pod_id q \<notin> pod_id ` set (xs @ ys)" and "pod_id p = pod_id q"
  shows "p = q"
proof -
  have "p = q \<or> p \<in> set (xs @ ys)" using assms(1) by auto
  then show ?thesis using assms(2,3) by (metis imageI)
qed

lemma rules_ok_remove:
  assumes "rules_ok M m (xs @ p # ys) R" and "distinct (map pod_id (xs @ p # ys))"
  shows "rules_ok M m (xs @ ys) (gdel (pod_id p) R)"
proof (rule rules_okI)
  fix x r assume "gget (gdel (pod_id p) R) x = Some r"
  then have x: "x \<noteq> pod_id p" "gget R x = Some r" by (auto split: if_splits)
  from x(2) obtain q where q: "q \<in> set (xs @ p # ys)" "pod_id q = x" "selected_by M m q"
    "set r = set (matchPodToRuleIndices M m (p_Labels q))" by (rule rules_ok_Some [OF assms(1)])
  with x(1) have "q \<in> set (xs @ ys)" by auto
  with q show "\<exists>q \<in> set (xs @ ys). pod_id q = x \<and> selected_by M m q \<and> set r = set (matchPodToRuleIndices M m (p_Labels q))"
    by blast
next
  fix q assume "q \<in> set (xs @ ys)" "selected_by M m q"
  moreover from this have "pod_id q \<noteq> pod_id p" by (intro split_ids [OF assms(2)])
  ultimately show "gget (gdel (pod_id p) R) (pod_id q) \<noteq> None"
    using rules_ok_None [OF assms(1) _ _ refl, of q] by auto
qed

lemma snap_ok_remove:
  assumes "snap_ok M m (xs @ p # ys) S" and "distinct (map pod_id (xs @ p # ys))"
  shows "snap_ok M m (xs @ ys) (gdel (pod_id p) S)"
proof (rule snap_okI)
  fix x mem assume "gget (gdel (pod_id p) S) x = Some mem"
  then have x: "x \<noteq> pod_id p" "gget S x = Some mem" by (auto split: if_splits)
  from x(2) obtain q where q: "q \<in> set (xs @ p # ys)" "pod_id q = x" "selected_by M m q" "p_PodIP q \<noteq> []"
    "mem_PodIP mem = p_PodIP q" by (rule snap_ok_Some [OF assms(1)])
  with x(1) have "q \<in> set (xs @ ys)" by auto
  with q show "\<exists>q \<in> set (xs @ ys). pod_id q = x \<and> selected_by M m q \<and> p_PodIP q \<noteq> [] \<and> mem_PodIP mem = p_PodIP q"
    by blast
next
  fix q assume "q \<in> set (xs @ ys)" "selected_by M m q" "p_PodIP q \<noteq> []"
  moreover from this have "pod_id q \<noteq> pod_id p" by (intro split_ids [OF assms(2)])
  ultimately show "gget (gdel (pod_id p) S) (pod_id q) \<noteq> None"
    using snap_ok_None [OF assms(1) _ _ refl, of q] by auto
qed

lemma rules_ok_insert:
  assumes "rules_ok M m (xs @ ys) R" and "pod_id q \<notin> pod_id ` set (xs @ ys)"
    and "\<And>x. x \<noteq> pod_id q \<Longrightarrow> gget R' x = gget R x"
    and "map_option set (gget R' (pod_id q)) =
      (if selected_by M m q then Some (set (matchPodToRuleIndices M m (p_Labels q))) else None)"
  shows "rules_ok M m (xs @ q # ys) R'"
proof (rule rules_okI)
  fix x r assume g: "gget R' x = Some r"
  show "\<exists>p \<in> set (xs @ q # ys). pod_id p = x \<and> selected_by M m p \<and> set r = set (matchPodToRuleIndices M m (p_Labels p))"
  proof (cases "x = pod_id q")
    case True
    with g assms(4) show ?thesis by (auto split: if_splits)
  next
    case False
    with g assms(3) have "gget R x = Some r" by simp
    then obtain p where p: "p \<in> set (xs @ ys)" "pod_id p = x" "selected_by M m p"
      "set r = set (matchPodToRuleIndices M m (p_Labels p))" by (rule rules_ok_Some [OF assms(1)])
    then have "p \<in> set (xs @ q # ys)" by auto
    with p show ?thesis by blast
  qed
next
  fix p assume "p \<in> set (xs @ q # ys)" "selected_by M m p"
  show "gget R' (pod_id p) \<noteq> None"
  proof (cases "pod_id p = pod_id q")
    case True
    with \<open>p \<in> _\<close> assms(2) have "p = q" by (intro split_mem)
    with \<open>selected_by M m p\<close> assms(4) show ?thesis by (auto split: if_splits)
  next
    case False
    with \<open>p \<in> _\<close> have "p \<in> set (xs @ ys)" by auto
    then show ?thesis using rules_ok_None [OF assms(1) _ _ refl, of p] \<open>selected_by M m p\<close> assms(3) [OF False] by auto
  qed
qed

lemma snap_ok_insert:
  assumes "snap_ok M m (xs @ ys) S" and "pod_id q \<notin> pod_id ` set (xs @ ys)"
    and "\<And>x. x \<noteq> pod_id q \<Longrightarrow> gget S' x = gget S x"
    and "gget S' (pod_id q) = (if selected_by M m q \<and> p_PodIP q \<noteq> [] then Some \<lparr>mem_PodIP = p_PodIP q\<rparr> else None)"
  shows "snap_ok M m (xs @ q # ys) S'"
proof (rule snap_okI)
  fix x mem assume g: "gget S' x = Some mem"
  show "\<exists>p \<in> set (xs @ q # ys). pod_id p = x \<and> selected_by M m p \<and> p_PodIP p \<noteq> [] \<and> mem_PodIP mem = p_PodIP p"
  proof (cases "x = pod_id q")
    case True
    with g assms(4) show ?thesis by (auto split: if_splits)
  next
    case False
    with g assms(3) have "gget S x = Some mem" by simp
    then obtain p where p: "p \<in> set (xs @ ys)" "pod_id p = x" "selected_by M m p" "p_PodIP p \<noteq> []"
      "mem_PodIP mem = p_PodIP p" by (rule snap_ok_Some [OF assms(1)])
    then have "p \<in> set (xs @ q # ys)" by auto
    with p show ?thesis by blast
  qed
next
  fix p assume "p \<in> set (xs @ q # ys)" "selected_by M m p" "p_PodIP p \<noteq> []"
  show "gget S' (pod_id p) \<noteq> None"
  proof (cases "pod_id p = pod_id q")
    case True
    with \<open>p \<in> _\<close> assms(2) have "p = q" by (intro split_mem)
    with \<open>selected_by M m p\<close> \<open>p_PodIP p \<noteq> []\<close> assms(4) show ?thesis by simp
  next
    case False
    with \<open>p \<in> _\<close> have "p \<in> set (xs @ ys)" by auto
    then show ?thesis
      using snap_ok_None [OF assms(1) _ _ refl, of p] \<open>selected_by M m p\<close> \<open>p_PodIP p \<noteq> []\<close> assms(3) [OF False] by auto
  qed
qed

text \<open>A pod is pending exactly when it is tracked and not in the snapshot.\<close>

lemma was_pending_iff:
  assumes "rules_ok M m pods R" and "snap_ok M m pods S" and "p \<in> set pods" and "distinct (map pod_id pods)"
  shows "gget R (pod_id p) \<noteq> None \<and> gget S (pod_id p) = None \<longleftrightarrow> selected_by M m p \<and> p_PodIP p = []"
proof -
  have uniq: "q = p" if "q \<in> set pods" "pod_id q = pod_id p" for q
    using that assms(3,4) by (metis distinct_map inj_onD)
  have "selected_by M m p" if "gget R (pod_id p) = Some r" for r
    using that uniq by (auto elim!: rules_ok_Some [OF assms(1)])
  then have "gget R (pod_id p) \<noteq> None \<longleftrightarrow> selected_by M m p"
    using rules_ok_None [OF assms(1) _ assms(3) refl] by auto
  moreover have "selected_by M m p \<and> p_PodIP p \<noteq> []" if "gget S (pod_id p) = Some r" for r
    using that uniq by (auto elim!: snap_ok_Some [OF assms(2)])
  then have "gget S (pod_id p) \<noteq> None \<longleftrightarrow> selected_by M m p \<and> p_PodIP p \<noteq> []"
    using snap_ok_None [OF assms(2) _ assms(3) refl] by auto
  ultimately show ?thesis by auto
qed

lemma tracked_rules:
  assumes "rules_ok M m pods R" and "p \<in> set pods" and "distinct (map pod_id pods)" and "p_Namespace p = m_Namespace m"
  shows "set (gget_or [] R (pod_id p)) = set (matchPodToRuleIndices M m (p_Labels p))"
proof (cases "gget R (pod_id p)")
  case None
  then have "\<not> selected_by M m p" using rules_ok_None [OF assms(1) _ assms(2) refl] by blast
  with None assms(4) show ?thesis by (simp add: gget_or_def selected_by_iff)
next
  case (Some r)
  then obtain q where "q \<in> set pods" "pod_id q = pod_id p" "set r = set (matchPodToRuleIndices M m (p_Labels q))"
    by (rule rules_ok_Some [OF assms(1)])
  moreover from this assms(2,3) have "q = p" by (metis distinct_map inj_onD)
  ultimately show ?thesis using Some by (simp add: gget_or_def)
qed

text \<open>What the check for another contributor means for a pod of the namespace.\<close>

lemma hasOther_split:
  assumes "rules_ok M m (xs @ p # ys) (ce_podRules e)" and "wfmap (ce_podRules e)"
    and "\<And>x. x \<noteq> pod_id p \<Longrightarrow> gget (snap_Pods (cs_Snapshot (ce_state e))) x = gget S x"
    and "snap_ok M m (xs @ p # ys) S"
    and "distinct (map pod_id (xs @ p # ys))" and "i < length (m_Mappings m)"
  shows "hasOtherContributor e (pod_id p) i ip \<longleftrightarrow> ip \<in> rule_ips M m (xs @ ys) i"
proof -
  have "q \<in> set (xs @ p # ys) \<and> pod_id q \<noteq> pod_id p \<longleftrightarrow> q \<in> set (xs @ ys)" for q
    using split_ids [OF assms(5), of q] by auto
  then have "(\<exists>q \<in> set (xs @ p # ys). pod_id q \<noteq> pod_id p \<and> Q q) \<longleftrightarrow> (\<exists>q \<in> set (xs @ ys). Q q)" for Q by blast
  moreover have "hasOtherContributor e (pod_id p) i ip \<longleftrightarrow> (\<exists>q \<in> set (xs @ p # ys). pod_id q \<noteq> pod_id p \<and>
      rule_selects M m (m_Mappings m ! i) q \<and> p_PodIP q \<noteq> [] \<and> toCIDR (p_PodIP q) = ip)"
    using assms by (rule hasOther_iff)
  ultimately show ?thesis unfolding rule_ips_def by auto
qed

lemma hasOther_cong:
  assumes "wfmap (ce_podRules e)" "wfmap (ce_podRules e')"
    and "\<And>x. x \<noteq> podID \<Longrightarrow> gget (ce_podRules e') x = gget (ce_podRules e) x"
    and "cs_Snapshot (ce_state e') = cs_Snapshot (ce_state e)"
  shows "hasOtherContributor e' podID i ip = hasOtherContributor e podID i ip"
proof -
  have "(x, r) \<in> set (ce_podRules e') \<longleftrightarrow> (x, r) \<in> set (ce_podRules e)" if "x \<noteq> podID" for x r
    using assms(3) [OF that] wfmap_gget_iff [OF assms(1), of x r] wfmap_gget_iff [OF assms(2), of x r] by simp
  then show ?thesis unfolding hasOtherContributor_def list_ex_iff assms(4) by auto
qed

section \<open>Deleting a pod\<close>

lemma dec_matched_nth:
  "k < length xs \<Longrightarrow> dec_matched j xs ! k = (if k = j then (if xs ! k > 0 then xs ! k - 1 else xs ! k) else xs ! k)"
  by (auto simp: dec_matched_def)

lemma length_dec_matched [simp]: "length (dec_matched j xs) = length xs"
  by (simp add: dec_matched_def)

lemma delete_rules_fields:
  fixes e psn podID cidr mr lm m "is"
  defines "e' \<equiv> fold (\<lambda>i. delete_rule psn podID cidr mr lm (i, m_Mappings m ! i)) is e"
  shows "ce_podRules e' = ce_podRules e" and "cs_Snapshot (ce_state e') = cs_Snapshot (ce_state e)"
    and "ce_pendingIPCount e' = ce_pendingIPCount e"
    and "cs_MatchedPodsByIndex (ce_state e') =
      fold (\<lambda>i c. if i \<in> set mr \<union> set lm then dec_matched i c else c) is (cs_MatchedPodsByIndex (ce_state e))"
    and "cs_Desired (ce_state e') =
      fold (delete_targets e psn m podID cidr (set mr \<union> set lm)) is (cs_Desired (ce_state e))"
proof -
  have one: "ce_podRules (delete_rule psn podID cidr mr lm ir a) = ce_podRules a"
    "cs_Snapshot (ce_state (delete_rule psn podID cidr mr lm ir a)) = cs_Snapshot (ce_state a)"
    "ce_pendingIPCount (delete_rule psn podID cidr mr lm ir a) = ce_pendingIPCount a" for ir a
    by (auto simp: delete_rule_def Let_def split: prod.splits option.splits)
  have m: "cs_MatchedPodsByIndex (ce_state (delete_rule psn podID cidr mr lm (i, r) a)) =
      (if i \<in> set mr \<union> set lm then dec_matched i (cs_MatchedPodsByIndex (ce_state a)) else cs_MatchedPodsByIndex (ce_state a))"
    for i r a by (simp add: delete_rule_def Let_def split: option.splits)
  show "ce_podRules e' = ce_podRules e" "cs_Snapshot (ce_state e') = cs_Snapshot (ce_state e)"
    "ce_pendingIPCount e' = ce_pendingIPCount e"
    unfolding e'_def by (induction "is" arbitrary: e) (simp_all add: one)
  show "cs_MatchedPodsByIndex (ce_state e') =
      fold (\<lambda>i c. if i \<in> set mr \<union> set lm then dec_matched i c else c) is (cs_MatchedPodsByIndex (ce_state e))"
    unfolding e'_def by (induction "is" arbitrary: e) (simp_all add: m del: Un_iff)
  have "cs_Desired (ce_state (fold (\<lambda>i. delete_rule psn podID cidr mr lm (i, m_Mappings m ! i)) is a)) =
      fold (delete_targets e psn m podID cidr (set mr \<union> set lm)) is (cs_Desired (ce_state a))"
    if "ce_podRules a = ce_podRules e" "cs_Snapshot (ce_state a) = cs_Snapshot (ce_state e)" for a
    using that
  proof (induction "is" arbitrary: a)
    case (Cons i "is")
    have "hasOtherContributor (a\<lparr>ce_state := (ce_state a)\<lparr>cs_MatchedPodsByIndex := c\<rparr>\<rparr>) podID i ip =
        hasOtherContributor e podID i ip" for c ip
      using Cons.prems by (simp add: hasOtherContributor_def)
    then have "cs_Desired (ce_state (delete_rule psn podID cidr mr lm (i, m_Mappings m ! i) a)) =
        delete_targets e psn m podID cidr (set mr \<union> set lm) i (cs_Desired (ce_state a))"
      by (simp add: delete_rule_def delete_targets_def Let_def split: option.splits)
    with Cons show ?case by (simp add: one)
  qed simp
  then show "cs_Desired (ce_state e') = fold (delete_targets e psn m podID cidr (set mr \<union> set lm)) is (cs_Desired (ce_state e))"
    unfolding e'_def by simp
qed


lemma ips_of_delete_targets:
  "ips_of (delete_targets e psn m podID cidr idx i D) t =
     (if t \<in> set (resolveRuleTargets (m_Mappings m ! i) psn) \<and> i \<in> idx
      then ips_of D t - {ip. cidr = Some ip \<and> \<not> hasOtherContributor e podID i ip} else ips_of D t)"
  by (auto simp: delete_targets_def ips_of_fold_del split: option.splits)

lemma keys_in_delete_targets: "keys_in D T \<Longrightarrow> keys_in (delete_targets e psn m podID cidr idx i D) T"
  by (auto simp: delete_targets_def intro!: keys_in_fold keys_in_del_ip split: option.splits)

lemma wf_delete_targets: "wf_state D \<Longrightarrow> wf_state (delete_targets e psn m podID cidr idx i D)"
  by (auto simp: delete_targets_def intro!: wf_state_fold wf_state_del_ip split: option.splits)

text \<open>A loop over all rules whose step changes only the targets of its rule.\<close>

lemma fold_all_targets:
  assumes "separate_targets cl m"
    and F: "\<And>j D t. ips_of (F j D) t = (if t \<in> rule_targets cl m j then G j (ips_of D t) else ips_of D t)"
    and i: "i < length (m_Mappings m)" and t: "t \<in> rule_targets cl m i"
  shows "ips_of (fold F [0..<length (m_Mappings m)] D) t = G i (ips_of D t)"
proof (rule fold_targets [where T = "rule_targets cl m" and i = i])
    show "t \<notin> rule_targets cl m j" if "j \<in> set [0..<length (m_Mappings m)]" "j \<noteq> i" for j
    proof -
      have "rule_targets cl m i \<inter> rule_targets cl m j = {}"
        using assms(1) i that unfolding separate_targets_def by auto
      with t show ?thesis by blast
    qed
qed (use i t F in auto)

lemma desired_ok_delete:
  assumes sep: "separate_targets cl m" and ok: "entry_ok M cl m (xs @ p # ys) e" and ns: "namespace_pods m (xs @ p # ys)"
    and idx: "idx = set (matchPodToRuleIndices M m (p_Labels p))"
    and e': "ce_podRules e' = ce_podRules e" "\<And>x. x \<noteq> pod_id p \<Longrightarrow>
      gget (snap_Pods (cs_Snapshot (ce_state e'))) x = gget (snap_Pods (cs_Snapshot (ce_state e))) x"
  shows "desired_ok M cl m (xs @ ys) (fold (delete_targets e' (prefix_set_name cl m) m (pod_id p) (pod_cidr p) idx)
     [0..<length (m_Mappings m)] (cs_Desired (ce_state e)))" (is "desired_ok M cl m _ (fold ?F ?is ?D)")
proof -
  have dist: "distinct (map pod_id (xs @ p # ys))" and pns: "p_Namespace p = m_Namespace m"
    using ns by (auto simp: namespace_pods_def)
  note d = ok [unfolded entry_ok_def desired_ok_def]
  let ?G = "\<lambda>i s. if i \<in> idx then s - {ip. pod_cidr p = Some ip \<and> \<not> hasOtherContributor e' (pod_id p) i ip} else s"
  have F: "ips_of (?F j D) t = (if t \<in> rule_targets cl m j then ?G j (ips_of D t) else ips_of D t)" for j D t
    by (simp add: ips_of_delete_targets)
  note all = fold_all_targets [OF sep, of ?F ?G, OF F]
  have "ips_of (fold ?F ?is ?D) t = rule_ips M m (xs @ ys) i"
    if i: "i < length (m_Mappings m)" and t: "t \<in> rule_targets cl m i" for i t
  proof -
    have h: "hasOtherContributor e' (pod_id p) i ip \<longleftrightarrow> ip \<in> rule_ips M m (xs @ ys) i" for ip
      using ok e' by (intro hasOther_split [OF _ _ _ _ dist i, where S = "snap_Pods (cs_Snapshot (ce_state e))"])
        (auto simp: entry_ok_def)
    have sel: "i \<in> idx \<longleftrightarrow> rule_selects M m (m_Mappings m ! i) p" by (simp add: idx selects_matched [OF pns i])
    have "ips_of ?D t = rule_ips M m (xs @ p # ys) i" using d i t by blast
    then show ?thesis unfolding all [OF i t] h sel rule_ips_split [of M m xs p ys i]
      by (auto simp: pod_cidr_def)
  qed
  moreover have "keys_in (fold ?F ?is ?D) (mapping_targets cl m)"
    using d by (intro keys_in_fold) (auto simp: keys_in_delete_targets)
  moreover have "wf_state (fold ?F ?is ?D)" using d by (intro wf_state_fold wf_delete_targets) blast+
  ultimately show ?thesis by (simp add: desired_ok_def)
qed

lemma fold_all_counts:
  assumes "\<And>j xs. length (F j xs) = length xs"
    and "\<And>j k xs. k < length xs \<Longrightarrow> F j xs ! k = (if k = j then G k (xs ! k) else xs ! k)"
    and "length xs = n" and "length ys = n" and "\<And>k. k < n \<Longrightarrow> ys ! k = G k (xs ! k)"
  shows "fold F [0..<n] xs = ys"
proof (rule nth_equalityI)
  show "length (fold F [0..<n] xs) = length ys" using assms by (simp add: fold_counts_length)
  fix k assume "k < length (fold F [0..<n] xs)"
  then have "k < n" using assms by (simp add: fold_counts_length)
  then show "fold F [0..<n] xs ! k = ys ! k"
    using fold_counts [of "[0..<n]" F G k xs] assms by simp
qed

lemma matched_counts_delete:
  assumes "p_Namespace p = m_Namespace m" and "idx = set (matchPodToRuleIndices M m (p_Labels p))"
  shows "fold (\<lambda>i c. if i \<in> idx then dec_matched i c else c) [0..<length (m_Mappings m)] (matched_counts M m (xs @ p # ys)) =
    matched_counts M m (xs @ ys)"
proof (rule fold_all_counts [where G = "\<lambda>k c. if k \<in> idx then (if c > 0 then c - 1 else c) else c"])
  fix k assume "k < length (m_Mappings m)"
  then show "matched_counts M m (xs @ ys) ! k = (if k \<in> idx then if matched_counts M m (xs @ p # ys) ! k > 0
      then matched_counts M m (xs @ p # ys) ! k - 1 else matched_counts M m (xs @ p # ys) ! k else matched_counts M m (xs @ p # ys) ! k)"
    using assms matched_counts_nonneg [of k m M "xs @ ys"] by (auto simp: matched_counts_split selects_matched)
qed (auto simp: dec_matched_nth)

lemma entry_ok_delete:
  assumes sep: "separate_targets cl m" and ok: "entry_ok M cl m (xs @ p # ys) e" and ns: "namespace_pods m (xs @ p # ys)"
  shows "entry_ok M cl m (xs @ ys) (delete_pod_entry M cl m p e)"
proof -
  have dist: "distinct (map pod_id (xs @ p # ys))" and pns: "p_Namespace p = m_Namespace m"
    using ns by (auto simp: namespace_pods_def)
  note o = ok [unfolded entry_ok_def]
  let ?S = "snap_Pods (cs_Snapshot (ce_state e))" and ?lm = "matchPodToRuleIndices M m (p_Labels p)"
  let ?e1 = "if gget ?S (pod_id p) \<noteq> None then del_snapshot (pod_id p) e else e"
  let ?mr = "gget_or [] (ce_podRules e) (pod_id p)"
  let ?e2 = "fold (\<lambda>i. delete_rule (prefix_set_name cl m) (pod_id p) (pod_cidr p) ?mr ?lm (i, m_Mappings m ! i))
    [0..<length (m_Mappings m)] ?e1"
  have e1: "ce_podRules ?e1 = ce_podRules e" "cs_Desired (ce_state ?e1) = cs_Desired (ce_state e)"
    "cs_MatchedPodsByIndex (ce_state ?e1) = cs_MatchedPodsByIndex (ce_state e)" "ce_pendingIPCount ?e1 = ce_pendingIPCount e"
    "\<And>x. gget (snap_Pods (cs_Snapshot (ce_state ?e1))) x = gget (gdel (pod_id p) ?S) x"
    by (auto simp: del_snapshot_def)
  have idx: "set ?mr \<union> set ?lm = set ?lm" using tracked_rules [OF _ _ dist pns, of M "ce_podRules e"] o by simp
  have D: "desired_ok M cl m (xs @ ys) (cs_Desired (ce_state ?e2))"
    unfolding delete_rules_fields(5) idx e1(2)
    by (rule desired_ok_delete [OF sep ok ns refl e1(1)]) (simp only: e1(5) gget_gdel if_False)
  have C: "cs_MatchedPodsByIndex (ce_state ?e2) = matched_counts M m (xs @ ys)"
    using o unfolding delete_rules_fields(4) idx e1(3) by (simp add: matched_counts_delete [OF pns])
  have S: "snap_ok M m (xs @ ys) (snap_Pods (cs_Snapshot (ce_state ?e2)))"
    unfolding delete_rules_fields(2) using o snap_ok_remove [OF _ dist] e1(5) by (blast intro: snap_ok_cong)
  have R: "rules_ok M m (xs @ ys) (gdel (pod_id p) (ce_podRules ?e2))" "wfmap (gdel (pod_id p) (ce_podRules ?e2))"
    unfolding delete_rules_fields(1) e1(1) using o rules_ok_remove [OF _ dist] by auto
  have P: "ce_pendingIPCount ?e2 = pending_count M m (xs @ p # ys)"
    unfolding delete_rules_fields(3) e1(4) using o by blast
  have W: "gget (ce_podRules e) (pod_id p) \<noteq> None \<and> \<not> gget ?S (pod_id p) \<noteq> None \<longleftrightarrow> selected_by M m p \<and> p_PodIP p = []"
    using was_pending_iff [OF _ _ _ dist, of M m "ce_podRules e" ?S p] o by simp
  have eq: "fold (delete_rule (prefix_set_name cl m) (pod_id p) (pod_cidr p) ?mr ?lm) (List.enumerate 0 (m_Mappings m)) ?e1 = ?e2"
    unfolding enumerate_map fold_map comp_def ..
  show ?thesis
    using D C S R P pending_count_split(2) [of M m "xs @ ys"] pending_count_split(1) [of M m xs p ys]
    unfolding entry_ok_def delete_pod_entry_def Let_def prefix_set_name_def [symmetric] e1(1) eq W
    by auto
qed


section \<open>Updating a pod\<close>

lemma update_track_other: "x \<noteq> podID \<Longrightarrow> gget (update_track podID old new i R) x = gget R x"
  by (auto simp: update_track_def track_def split: option.splits)

lemma update_track_wf: "wfmap R \<Longrightarrow> wfmap (update_track podID old new i R)"
  by (auto simp: update_track_def track_def split: option.splits)

lemma update_track_set:
  "set (gget_or [] (update_track podID old new i R) podID) =
     (if i \<in> new \<and> i \<notin> old then insert i (set (gget_or [] R podID))
      else if i \<in> old \<and> i \<notin> new then set (gget_or [] R podID) - {i} else set (gget_or [] R podID))"
  by (auto simp: update_track_def track_def gget_or_def split: option.splits)

lemma update_track_None:
  "gget (update_track podID old new i R) podID = None \<longleftrightarrow> gget R podID = None \<and> \<not> (i \<in> new \<and> i \<notin> old)"
  by (auto simp: update_track_def track_def split: option.splits)

lemma fold_update_track:
  "x \<noteq> podID \<Longrightarrow> gget (fold (update_track podID old new) is R) x = gget R x"
  "wfmap R \<Longrightarrow> wfmap (fold (update_track podID old new) is R)"
  "set (gget_or [] (fold (update_track podID old new) is R) podID) =
     (set (gget_or [] R podID) \<union> {i \<in> set is. i \<in> new \<and> i \<notin> old}) - {i \<in> set is. i \<in> old \<and> i \<notin> new}"
  "gget (fold (update_track podID old new) is R) podID = None \<longleftrightarrow>
     gget R podID = None \<and> (\<forall>i \<in> set is. \<not> (i \<in> new \<and> i \<notin> old))"
  subgoal by (induction "is" arbitrary: R) (simp_all add: update_track_other)
  subgoal by (induction "is" arbitrary: R) (simp_all add: update_track_wf)
  subgoal by (induction "is" arbitrary: R) (auto simp: update_track_set)
  subgoal by (induction "is" arbitrary: R) (auto simp: update_track_None)
  done

lemma update_rule_fields:
  "ce_podRules (update_rule psn podID om nm oc nc (i, r) e) = update_track podID (set om) (set nm) i (ce_podRules e)"
  "cs_Snapshot (ce_state (update_rule psn podID om nm oc nc (i, r) e)) = cs_Snapshot (ce_state e)"
  "ce_pendingIPCount (update_rule psn podID om nm oc nc (i, r) e) = ce_pendingIPCount e"
  "cs_MatchedPodsByIndex (ce_state (update_rule psn podID om nm oc nc (i, r) e)) =
     update_count (set om) (set nm) i (cs_MatchedPodsByIndex (ce_state e))"
  by (auto simp: update_rule_def update_track_def update_count_def Let_def split: option.splits)

lemma update_target_hasOther:
  "(\<And>ip. hasOtherContributor e' podID i ip = hasOtherContributor e podID i ip) \<Longrightarrow>
     update_target e' podID i om nm oc nc t D = update_target e podID i om nm oc nc t D"
  by (cases oc) (simp_all add: update_target_def)

lemma update_rule_Desired:
  assumes "wfmap (ce_podRules e)" "wfmap (ce_podRules a)"
    and "\<And>x. x \<noteq> podID \<Longrightarrow> gget (ce_podRules a) x = gget (ce_podRules e) x"
    and "cs_Snapshot (ce_state a) = cs_Snapshot (ce_state e)"
  shows "cs_Desired (ce_state (update_rule psn podID om nm oc nc (i, m_Mappings m ! i) a)) =
    update_targets e psn m podID (set om) (set nm) oc nc i (cs_Desired (ce_state a))"
proof -
  have h: "hasOtherContributor b podID i ip = hasOtherContributor e podID i ip"
    if "ce_podRules b = update_track podID (set om) (set nm) i (ce_podRules a)"
      "cs_Snapshot (ce_state b) = cs_Snapshot (ce_state a)" for b ip
    using assms that update_track_wf update_track_other by (intro hasOther_cong) simp_all
  define b where "b = (if i \<notin> set om \<and> i \<in> set nm then
        a\<lparr>ce_podRules := track podID i (ce_podRules a), ce_state := (ce_state a)
          \<lparr>cs_MatchedPodsByIndex := inc_matched i (cs_MatchedPodsByIndex (ce_state a))\<rparr>\<rparr>
      else if i \<in> set om \<and> i \<notin> set nm then
        a\<lparr>ce_podRules := (case gget (ce_podRules a) podID of None \<Rightarrow> ce_podRules a
             | Some rules \<Rightarrow> gput podID (sdel i rules) (ce_podRules a)), ce_state := (ce_state a)
          \<lparr>cs_MatchedPodsByIndex := dec_matched i (cs_MatchedPodsByIndex (ce_state a))\<rparr>\<rparr>
      else a)"
  have b: "ce_podRules b = update_track podID (set om) (set nm) i (ce_podRules a)"
    "cs_Snapshot (ce_state b) = cs_Snapshot (ce_state a)" "cs_Desired (ce_state b) = cs_Desired (ce_state a)"
    by (auto simp: b_def update_track_def)
  have "cs_Desired (ce_state (update_rule psn podID om nm oc nc (i, m_Mappings m ! i) a)) =
      (if i \<in> set om \<or> i \<in> set nm then fold (update_target b podID i (i \<in> set om) (i \<in> set nm) oc nc)
         (resolveRuleTargets (m_Mappings m ! i) psn) (cs_Desired (ce_state b)) else cs_Desired (ce_state a))"
    by (simp add: update_rule_def Let_def b_def)
  moreover have "update_target b podID i o1 n1 oc nc = update_target e podID i o1 n1 oc nc" for o1 n1
    by (intro ext update_target_hasOther h b)
  ultimately show ?thesis by (simp add: update_targets_def b(3))
qed

lemma update_rules_fields:
  fixes e psn podID om nm oc nc m "is"
  defines "e' \<equiv> fold (\<lambda>i. update_rule psn podID om nm oc nc (i, m_Mappings m ! i)) is e"
  shows "ce_podRules e' = fold (update_track podID (set om) (set nm)) is (ce_podRules e)"
    and "cs_Snapshot (ce_state e') = cs_Snapshot (ce_state e)"
    and "ce_pendingIPCount e' = ce_pendingIPCount e"
    and "cs_MatchedPodsByIndex (ce_state e') = fold (update_count (set om) (set nm)) is (cs_MatchedPodsByIndex (ce_state e))"
    and "wfmap (ce_podRules e) \<Longrightarrow> cs_Desired (ce_state e') =
      fold (update_targets e psn m podID (set om) (set nm) oc nc) is (cs_Desired (ce_state e))"
proof -
  show "ce_podRules e' = fold (update_track podID (set om) (set nm)) is (ce_podRules e)"
    "cs_Snapshot (ce_state e') = cs_Snapshot (ce_state e)" "ce_pendingIPCount e' = ce_pendingIPCount e"
    "cs_MatchedPodsByIndex (ce_state e') = fold (update_count (set om) (set nm)) is (cs_MatchedPodsByIndex (ce_state e))"
    unfolding e'_def by (induction "is" arbitrary: e) (simp_all add: update_rule_fields)
  have "cs_Desired (ce_state (fold (\<lambda>i. update_rule psn podID om nm oc nc (i, m_Mappings m ! i)) is a)) =
      fold (update_targets e psn m podID (set om) (set nm) oc nc) is (cs_Desired (ce_state a))"
    if "wfmap (ce_podRules e)" "wfmap (ce_podRules a)" "\<And>x. x \<noteq> podID \<Longrightarrow> gget (ce_podRules a) x = gget (ce_podRules e) x"
      "cs_Snapshot (ce_state a) = cs_Snapshot (ce_state e)" for a
    using that
  proof (induction "is" arbitrary: a)
    case (Cons i "is")
    let ?a = "update_rule psn podID om nm oc nc (i, m_Mappings m ! i) a"
    have "cs_Desired (ce_state (fold (\<lambda>i. update_rule psn podID om nm oc nc (i, m_Mappings m ! i)) is ?a)) =
      fold (update_targets e psn m podID (set om) (set nm) oc nc) is (cs_Desired (ce_state ?a))"
      using Cons.prems by (intro Cons.IH) (simp_all add: update_rule_fields update_track_wf update_track_other)
    then show ?case by (simp add: update_rule_Desired [OF Cons.prems])
  qed simp
  then show "wfmap (ce_podRules e) \<Longrightarrow> cs_Desired (ce_state e') =
      fold (update_targets e psn m podID (set om) (set nm) oc nc) is (cs_Desired (ce_state e))"
    unfolding e'_def by simp
qed

lemma ips_of_update_target:
  "ips_of (update_target e podID i (i \<in> old) (i \<in> new) oc nc t' D) t =
     (if t = t' then update_ips e podID old new oc nc i (ips_of D t) else ips_of D t)"
  by (auto simp: update_target_def ips_of_def update_ips_def Let_def split: option.splits)

lemma update_ips_idem: "update_ips e podID old new oc nc i (update_ips e podID old new oc nc i s) = update_ips e podID old new oc nc i s"
  by (auto simp: update_ips_def)

lemma ips_of_fold_update:
  "ips_of (fold (update_target e podID i (i \<in> old) (i \<in> new) oc nc) ts D) t =
     (if t \<in> set ts then update_ips e podID old new oc nc i (ips_of D t) else ips_of D t)"
  by (induction ts arbitrary: D) (auto simp: ips_of_update_target update_ips_idem)

lemma ips_of_update_targets:
  "ips_of (update_targets e psn m podID old new oc nc i D) t =
     (if t \<in> set (resolveRuleTargets (m_Mappings m ! i) psn) then update_ips e podID old new oc nc i (ips_of D t) else ips_of D t)"
  by (auto simp: update_targets_def ips_of_fold_update update_ips_def)

lemma keys_in_update_targets:
  "keys_in D T \<Longrightarrow> (\<And>t. t \<in> set (resolveRuleTargets (m_Mappings m ! i) psn) \<Longrightarrow> t \<in> T) \<Longrightarrow>
     keys_in (update_targets e psn m podID old new oc nc i D) T"
  by (auto simp: update_targets_def intro!: keys_in_fold keys_in_update_target)

lemma wf_update_targets: "wf_state D \<Longrightarrow> wf_state (update_targets e psn m podID old new oc nc i D)"
proof -
  have "wf_state (update_target e podID i o1 n1 oc nc t D)" if "wf_state D" for t D o1 n1
    using that wf_state_gget [OF that, of t]
    by (auto simp: update_target_def Let_def intro!: wf_state_gput split: option.splits)
  then show "wf_state D \<Longrightarrow> ?thesis" by (auto simp: update_targets_def intro: wf_state_fold)
qed

lemma desired_ok_update:
  assumes sep: "separate_targets cl m" and ok: "entry_ok M cl m (xs @ p # ys) e" and ns: "namespace_pods m (xs @ p # ys)"
    and q: "p_Namespace q = m_Namespace m"
  shows "desired_ok M cl m (xs @ q # ys) (fold (update_targets e (prefix_set_name cl m) m (pod_id p)
     (set (matchPodToRuleIndices M m (p_Labels p))) (set (matchPodToRuleIndices M m (p_Labels q))) (pod_cidr p) (pod_cidr q))
     [0..<length (m_Mappings m)] (cs_Desired (ce_state e)))" (is "desired_ok M cl m _ (fold ?F ?is ?D)")
proof -
  have dist: "distinct (map pod_id (xs @ p # ys))" and pns: "p_Namespace p = m_Namespace m"
    using ns by (auto simp: namespace_pods_def)
  note d = ok [unfolded entry_ok_def desired_ok_def]
  let ?G = "update_ips e (pod_id p) (set (matchPodToRuleIndices M m (p_Labels p)))
    (set (matchPodToRuleIndices M m (p_Labels q))) (pod_cidr p) (pod_cidr q)"
  have F: "ips_of (?F j D) t = (if t \<in> rule_targets cl m j then ?G j (ips_of D t) else ips_of D t)" for j D t
    by (simp add: ips_of_update_targets)
  note all = fold_all_targets [OF sep, of ?F ?G, OF F]
  have "ips_of (fold ?F ?is ?D) t = rule_ips M m (xs @ q # ys) i"
    if i: "i < length (m_Mappings m)" and t: "t \<in> rule_targets cl m i" for i t
  proof -
    have h: "hasOtherContributor e (pod_id p) i ip \<longleftrightarrow> ip \<in> rule_ips M m (xs @ ys) i" for ip
      using ok by (intro hasOther_split [OF _ _ _ _ dist i, where S = "snap_Pods (cs_Snapshot (ce_state e))"])
        (auto simp: entry_ok_def)
    have "ips_of ?D t = rule_ips M m (xs @ p # ys) i" using d i t by blast
    then show ?thesis
      unfolding all [OF i t] update_ips_def h selects_matched [OF pns i, symmetric] selects_matched [OF q i, symmetric]
        rule_ips_split [of M m xs p ys i] rule_ips_split [of M m xs q ys i]
      by (auto simp: pod_cidr_def)
  qed
  moreover have "keys_in (fold ?F ?is ?D) (mapping_targets cl m)"
    using d by (intro keys_in_fold) (auto intro!: keys_in_update_targets elim: rule_target_in)
  moreover have "wf_state (fold ?F ?is ?D)" using d by (intro wf_state_fold wf_update_targets) blast+
  ultimately show ?thesis by (simp add: desired_ok_def)
qed

lemma matched_counts_update:
  assumes "p_Namespace p = m_Namespace m" and "p_Namespace q = m_Namespace m"
  shows "fold (update_count (set (matchPodToRuleIndices M m (p_Labels p))) (set (matchPodToRuleIndices M m (p_Labels q))))
    [0..<length (m_Mappings m)] (matched_counts M m (xs @ p # ys)) = matched_counts M m (xs @ q # ys)" (is "fold (update_count ?o ?n) _ _ = _")
proof (rule fold_all_counts [where G = "\<lambda>k c. if k \<notin> ?o \<and> k \<in> ?n then c + 1 else if k \<in> ?o \<and> k \<notin> ?n then (if c > 0 then c - 1 else c) else c"])
  fix k assume k: "k < length (m_Mappings m)"
  then show "matched_counts M m (xs @ q # ys) ! k = (if k \<notin> ?o \<and> k \<in> ?n then matched_counts M m (xs @ p # ys) ! k + 1
      else if k \<in> ?o \<and> k \<notin> ?n then if matched_counts M m (xs @ p # ys) ! k > 0 then matched_counts M m (xs @ p # ys) ! k - 1
      else matched_counts M m (xs @ p # ys) ! k else matched_counts M m (xs @ p # ys) ! k)"
    using matched_counts_nonneg [OF k, of M "xs @ ys"]
    by (auto simp: matched_counts_split selects_matched [OF assms(1) k] selects_matched [OF assms(2) k])
qed (auto simp: update_count_def inc_matched_nth dec_matched_nth)


lemma update_rules_ok:
  assumes ok: "rules_ok M m (xs @ p # ys) R" and dist: "distinct (map pod_id (xs @ p # ys))"
    and pns: "p_Namespace p = m_Namespace m" and q: "pod_id q = pod_id p" "selected_by M m q"
  shows "rules_ok M m (xs @ q # ys) (fold (update_track (pod_id q) (set (matchPodToRuleIndices M m (p_Labels p)))
    (set (matchPodToRuleIndices M m (p_Labels q)))) [0..<length (m_Mappings m)] R)" (is "rules_ok M m _ ?R")
proof -
  let ?o = "set (matchPodToRuleIndices M m (p_Labels p))" and ?n = "set (matchPodToRuleIndices M m (p_Labels q))"
  have range: "?o \<subseteq> {..<length (m_Mappings m)}" "?n \<subseteq> {..<length (m_Mappings m)}"
    by (auto simp: set_matchPodToRuleIndices)
  have old: "set (gget_or [] R (pod_id q)) = ?o"
    unfolding q(1) by (rule tracked_rules [OF ok _ dist pns]) simp
  have set: "set (gget_or [] ?R (pod_id q)) = ?n"
    using range unfolding fold_update_track(3) old by auto
  have "gget ?R (pod_id q) \<noteq> None"
  proof
    assume "gget ?R (pod_id q) = None"
    then have none: "gget R (pod_id q) = None" and sub: "\<forall>i \<in> set [0..<length (m_Mappings m)]. \<not> (i \<in> ?n \<and> i \<notin> ?o)"
      unfolding fold_update_track(4) by blast+
    from none old have o: "?o = {}" by (simp add: gget_or_def)
    have "?n = {}"
    proof (rule equals0I)
      fix i assume i: "i \<in> ?n"
      with range(2) have "i \<in> set [0..<length (m_Mappings m)]" by auto
      from bspec [OF sub this] i o show False by simp
    qed
    with q(2) show False by (simp add: selected_by_iff)
  qed
  then have val: "map_option set (gget ?R (pod_id q)) = Some ?n" using set by (auto simp: gget_or_def)
  have rem: "rules_ok M m (xs @ ys) (gdel (pod_id p) R)" by (rule rules_ok_remove [OF ok dist])
  have new: "pod_id q \<notin> pod_id ` set (xs @ ys)" using split_ids [OF dist] q(1) by (metis imageE)
  show ?thesis
  proof (rule rules_ok_insert [OF rem new])
    show "map_option set (gget ?R (pod_id q)) = (if selected_by M m q then Some ?n else None)" using val q(2) by simp
  qed (simp add: fold_update_track(1) q(1))
qed

lemma entry_ok_update:
  assumes sep: "separate_targets cl m" and ok: "entry_ok M cl m (xs @ p # ys) e" and ns: "namespace_pods m (xs @ p # ys)"
    and q: "pod_id q = pod_id p"
  shows "entry_ok M cl m (xs @ q # ys) (update_pod_entry M cl m p q e)"
proof -
  have dist: "distinct (map pod_id (xs @ p # ys))" and pns: "p_Namespace p = m_Namespace m"
    using ns by (auto simp: namespace_pods_def)
  have qns: "p_Namespace q = m_Namespace m" using q pns by (simp add: pod_id_def)
  have new: "pod_id q \<notin> pod_id ` set (xs @ ys)" using split_ids [OF dist] q by (metis imageE)
  note o = ok [unfolded entry_ok_def]
  let ?S = "snap_Pods (cs_Snapshot (ce_state e))"
  let ?om = "matchPodToRuleIndices M m (p_Labels p)" and ?nm = "matchPodToRuleIndices M m (p_Labels q)"
  let ?e1 = "fold (\<lambda>i. update_rule (prefix_set_name cl m) (pod_id q) ?om ?nm (pod_cidr p) (pod_cidr q) (i, m_Mappings m ! i))
    [0..<length (m_Mappings m)] e"
  have eq: "fold (update_rule (prefix_set_name cl m) (pod_id q) ?om ?nm (pod_cidr p) (pod_cidr q))
      (List.enumerate 0 (m_Mappings m)) e = ?e1"
    unfolding enumerate_map fold_map comp_def ..
  have D: "desired_ok M cl m (xs @ q # ys) (cs_Desired (ce_state ?e1))"
    using o update_rules_fields(5) [of e] unfolding q by (simp add: desired_ok_update [OF sep ok ns qns])
  have C: "cs_MatchedPodsByIndex (ce_state ?e1) = matched_counts M m (xs @ q # ys)"
    unfolding update_rules_fields(4) using o by (simp add: matched_counts_update [OF pns qns])
  have S0: "snap_ok M m (xs @ ys) (gdel (pod_id p) ?S)" using o by (intro snap_ok_remove [OF _ dist]) blast
  have S: "snap_ok M m (xs @ q # ys) S'"
    if "\<And>x. gget S' x = gget (if selected_by M m q \<and> p_PodIP q \<noteq> [] then gput (pod_id q) \<lparr>mem_PodIP = p_PodIP q\<rparr> ?S
        else gdel (pod_id q) ?S) x" for S'
    by (rule snap_ok_insert [OF S0 new]) (auto simp: that q)
  have R: "rules_ok M m (xs @ q # ys) (ce_podRules ?e1)" if "selected_by M m q"
    unfolding update_rules_fields(1) using o update_rules_ok [OF _ dist pns q that] by blast
  have R': "rules_ok M m (xs @ q # ys) (gdel (pod_id q) (ce_podRules ?e1))" if "\<not> selected_by M m q"
    unfolding update_rules_fields(1)
    by (rule rules_ok_insert [OF rules_ok_remove [OF _ dist] new, of M m "ce_podRules e"])
      (use o that in \<open>simp_all add: fold_update_track(1) q\<close>)
  have W: "wfmap (ce_podRules ?e1)" unfolding update_rules_fields(1) using o by (simp add: fold_update_track(2))
  have P: "gget (ce_podRules e) (pod_id q) \<noteq> None \<and> \<not> gget ?S (pod_id q) \<noteq> None \<longleftrightarrow> selected_by M m p \<and> p_PodIP p = []"
    using was_pending_iff [OF _ _ _ dist, of M m "ce_podRules e" ?S p] o q by simp
  have any: "(\<exists>i \<in> set ?nm. i < length (m_Mappings m)) \<longleftrightarrow> selected_by M m q"
  proof -
    have "(\<exists>i \<in> set ?nm. i < length (m_Mappings m)) \<longleftrightarrow> ?nm \<noteq> []"
      using matched_in_range [of M m "p_Labels q"] by (cases ?nm) auto
    then show ?thesis using qns by (simp add: selected_by_iff)
  qed
  have F: "ce_pendingIPCount ?e1 = pending_count M m (xs @ p # ys)" "cs_Snapshot (ce_state ?e1) = cs_Snapshot (ce_state e)"
    using o unfolding update_rules_fields(2,3) by auto
  note cnt = pending_count_split(1) [of M m xs p ys] pending_count_split(1) [of M m xs q ys] pending_count_split(2) [of M m "xs @ ys"]
  show ?thesis
  proof (cases "selected_by M m q")
    case True
    then show ?thesis using D C R [OF True] W F S cnt
      unfolding entry_ok_def update_pod_entry_def Let_def prefix_set_name_def [symmetric] eq P any
      by (cases "p_PodIP q = []") (auto simp: put_snapshot_def del_snapshot_def)
  next
    case False
    then show ?thesis using D C R' [OF False] W F S cnt
      unfolding entry_ok_def update_pod_entry_def Let_def prefix_set_name_def [symmetric] eq P any
      by (auto simp: del_snapshot_def)
  qed
qed


lemma fold_ce_mapping: "(\<And>x e. ce_mapping (F x e) = ce_mapping e) \<Longrightarrow> ce_mapping (fold F zs e) = ce_mapping e"
  by (induction zs arbitrary: e) auto

lemma pod_entry_mapping:
  shows add_pod_mapping: "ce_mapping (add_pod_entry M cl m p e) = ce_mapping e"
    and delete_pod_mapping: "ce_mapping (delete_pod_entry M cl m p e) = ce_mapping e"
    and update_pod_mapping: "ce_mapping (update_pod_entry M cl m p q e) = ce_mapping e"
proof -
  note f = fold_ce_mapping
  have "ce_mapping (add_rule m psn i c x e) = ce_mapping e" for psn i c x e by (simp add: add_rule_def)
  then show "ce_mapping (add_pod_entry M cl m p e) = ce_mapping e"
    by (simp add: add_pod_entry_def Let_def put_snapshot_def f)
  have "ce_mapping (delete_rule psn i c a b x e) = ce_mapping e" for psn i c a b x e
    by (simp add: delete_rule_def Let_def split: prod.splits option.splits)
  then show "ce_mapping (delete_pod_entry M cl m p e) = ce_mapping e"
    by (simp add: delete_pod_entry_def Let_def del_snapshot_def f)
  have "ce_mapping (update_rule psn i a b c d x e) = ce_mapping e" for psn i a b c d x e
    by (simp add: update_rule_def Let_def split: prod.splits)
  then show "ce_mapping (update_pod_entry M cl m p q e) = ce_mapping e"
    by (simp add: update_pod_entry_def Let_def put_snapshot_def del_snapshot_def f)
qed

section \<open>Sequences of pod events\<close>

lemma distinct_ids_split:
  assumes "distinct (map pod_id pods)" and "p \<in> set pods"
  obtains xs ys where "pods = xs @ p # ys" and "filter (\<lambda>q. q \<noteq> p) pods = xs @ ys"
    and "\<forall>new. map (\<lambda>q. if q = p then new else q) pods = xs @ new # ys"
proof -
  obtain xs ys where s: "pods = xs @ p # ys" using assms(2) by (meson split_list)
  have "distinct pods" using assms(1) by (simp add: distinct_map)
  then have n: "p \<notin> set xs" "p \<notin> set ys" by (auto simp: s)
  have "filter (\<lambda>q. q \<noteq> p) pods = xs @ ys"
    using n by (simp add: s) (metis (mono_tags, lifting) filter_True)
  moreover have "map (\<lambda>q. if q = p then new else q) pods = xs @ new # ys" for new
    using n by (auto simp: s intro!: map_idI)
  ultimately show thesis using that s by blast
qed

lemma namespace_pods_event:
  assumes "namespace_pods m pods" and "valid_event m pods ev"
  shows "namespace_pods m (apply_event ev pods)"
proof (cases ev)
  case (Added p)
  with assms show ?thesis by (auto simp: namespace_pods_def)
next
  case (Updated old new)
  with assms have u: "old \<in> set pods" "pod_id new = pod_id old" "distinct (map pod_id pods)"
    by (auto simp: namespace_pods_def)
  obtain xs ys where s: "pods = xs @ old # ys" "filter (\<lambda>q. q \<noteq> old) pods = xs @ ys"
    "\<forall>new. map (\<lambda>q. if q = old then new else q) pods = xs @ new # ys"
    by (rule distinct_ids_split [OF u(3,1)])
  have "p_Namespace new = p_Namespace old" using u(2) by (simp add: pod_id_def)
  then have "namespace_pods m (xs @ new # ys)" using assms(1) u(2) unfolding s(1) namespace_pods_def by auto
  then show ?thesis using Updated s(3) by simp
next
  case (Deleted p)
  with assms show ?thesis by (auto simp: namespace_pods_def distinct_map_filter)
qed

lemma feed_entry:
  assumes sep: "separate_targets (dc_clusterName c) m" and e: "gget (dc_entries c) (cache_key m) = Some e"
    and ok: "entry_ok M (dc_clusterName c) m pods e" and ns: "namespace_pods m pods" and ev: "valid_event m pods ev"
  obtains e' where "gget (dc_entries (feed M m ev c)) (cache_key m) = Some e'"
    and "entry_ok M (dc_clusterName c) m (apply_event ev pods) e'"
    and "ce_mapping e' = ce_mapping e"
    and "dc_clusterName (feed M m ev c) = dc_clusterName c"
proof -
  let ?c = "bump_version (mapping_key m) c"
  have b: "gget (dc_entries ?c) (cache_key m) = Some e" "dc_clusterName ?c = dc_clusterName c"
    using e by (simp_all add: bump_version_def)
  have dist: "distinct (map pod_id pods)" using ns by (simp add: namespace_pods_def)
  note concl = that
  have fin: thesis if "feed M m ev c = set_entry m e' ?c" "entry_ok M (dc_clusterName c) m (apply_event ev pods) e'"
    "ce_mapping e' = ce_mapping e" for e'
    using that b(2) by (intro concl [of e']) (simp_all add: set_entry_def)
  show thesis
  proof (cases ev)
    case (Added p)
    then have "namespace_pods m (pods @ [p])" using namespace_pods_event [OF ns ev] by simp
    then show thesis using Added b entry_ok_add [OF sep ok]
      by (intro fin [of "add_pod_entry M (dc_clusterName c) m p e"])
        (simp_all add: OnPodAdd_def Let_def add_pod_mapping)
  next
    case (Updated old new)
    with ev have u: "old \<in> set pods" "pod_id new = pod_id old" by auto
    obtain xs ys where s: "pods = xs @ old # ys" "filter (\<lambda>q. q \<noteq> old) pods = xs @ ys"
    "\<forall>new. map (\<lambda>q. if q = old then new else q) pods = xs @ new # ys"
      by (rule distinct_ids_split [OF dist u(1)])
    have "entry_ok M (dc_clusterName c) m (apply_event ev pods) (update_pod_entry M (dc_clusterName c) m old new e)"
      using entry_ok_update [OF sep ok [unfolded s(1)] ns [unfolded s(1)] u(2)] Updated s(3) by simp
    then show thesis using Updated b e
      by (intro fin [of "update_pod_entry M (dc_clusterName c) m old new e"])
        (simp_all add: OnPodUpdate_def Let_def update_pod_mapping)
  next
    case (Deleted p)
    with ev have p: "p \<in> set pods" by simp
    obtain xs ys where s: "pods = xs @ p # ys" "filter (\<lambda>q. q \<noteq> p) pods = xs @ ys"
      "\<forall>new. map (\<lambda>q. if q = p then new else q) pods = xs @ new # ys"
      by (rule distinct_ids_split [OF dist p])
    have "entry_ok M (dc_clusterName c) m (apply_event ev pods) (delete_pod_entry M (dc_clusterName c) m p e)"
      using entry_ok_delete [OF sep ok [unfolded s(1)] ns [unfolded s(1)]] Deleted s(2) by simp
    then show thesis using Deleted b
      by (intro fin [of "delete_pod_entry M (dc_clusterName c) m p e"])
        (simp_all add: OnPodDelete_def Let_def delete_pod_mapping)
  qed
qed

lemma feed_events:
  assumes "separate_targets (dc_clusterName c) m" and "gget (dc_entries c) (cache_key m) = Some e"
    and "entry_ok M (dc_clusterName c) m pods e" and "namespace_pods m pods" and "valid_events m pods evs"
  shows "\<exists>e'. gget (dc_entries (fold (feed M m) evs c)) (cache_key m) = Some e' \<and> ce_mapping e' = ce_mapping e \<and>
    entry_ok M (dc_clusterName c) m (fold apply_event evs pods) e' \<and> namespace_pods m (fold apply_event evs pods)"
  using assms
proof (induction evs arbitrary: c e pods)
  case (Cons ev evs)
  have v: "valid_event m pods ev" "valid_events m (apply_event ev pods) evs" using Cons.prems(5) by auto
  obtain e1 where e1: "gget (dc_entries (feed M m ev c)) (cache_key m) = Some e1"
    "entry_ok M (dc_clusterName c) m (apply_event ev pods) e1" "ce_mapping e1 = ce_mapping e"
    "dc_clusterName (feed M m ev c) = dc_clusterName c"
    by (rule feed_entry [OF Cons.prems(1-4) v(1)])
  show ?case
    using Cons.IH [of "feed M m ev c" e1 "apply_event ev pods"] Cons.prems(1) e1 v(2) namespace_pods_event [OF Cons.prems(4) v(1)]
    by simp
qed auto

lemma nonempty_view_iff:
  assumes "wf_state D" and "keys_in D T" and "inj_on targetKey T"
  shows "nonempty_view D k = Some s \<longleftrightarrow> s \<noteq> {} \<and> (\<exists>t \<in> T. targetKey t = k \<and> ips_of D t = s)"
proof -
  have "set (gkeys D) \<subseteq> T" using assms(2) by (auto simp: keys_in_def) (metis option.distinct(1) weak_map_of_SomeI)
  then have inj: "inj_on targetKey (set (gkeys D))" using assms(3) inj_on_subset by blast
  have "nonempty_view D k = Some s \<longleftrightarrow> s \<noteq> {} \<and> (\<exists>t ips. gget (byKey D) k = Some (t, ips) \<and> set ips = s)"
    by (auto simp: nonempty_view_def view_def split: option.splits)
  also have "\<dots> \<longleftrightarrow> s \<noteq> {} \<and> (\<exists>t ips. k = targetKey t \<and> gget D t = Some ips \<and> set ips = s)"
    by (simp only: byKey_inj_iff [OF assms(1) inj] conj_assoc)
  also have "\<dots> \<longleftrightarrow> s \<noteq> {} \<and> (\<exists>t \<in> T. targetKey t = k \<and> ips_of D t = s)"
  proof -
    have "(\<exists>ips. gget D t = Some ips \<and> set ips = s) \<longleftrightarrow> t \<in> T \<and> ips_of D t = s" if "s \<noteq> {}" for t
      using that assms(2) by (cases "gget D t") (auto simp: ips_of_def gget_or_def keys_in_def)
    then show ?thesis by (cases "s = {}") auto
  qed
  finally show ?thesis .
qed

lemma desired_ok_same_view:
  assumes "separate_targets cl m" and "desired_ok M cl m pods D" and "desired_ok M cl m pods D'"
  shows "nonempty_view D k = nonempty_view D' k"
proof -
  have inj: "inj_on targetKey (mapping_targets cl m)" using assms(1) by (simp add: separate_targets_def)
  have ips: "ips_of D t = ips_of D' t" if "t \<in> mapping_targets cl m" for t
    using that assms(2,3) by (auto simp: desired_ok_def mapping_targets_def)
  have "nonempty_view D k = Some s \<longleftrightarrow> nonempty_view D' k = Some s" for s
    using assms(2,3) ips by (auto simp: desired_ok_def nonempty_view_iff [OF _ _ inj])
  then show ?thesis by (metis not_Some_eq)
qed

lemma snap_ok_unique:
  assumes "snap_ok M m pods S" and "snap_ok M m pods S'" and "distinct (map pod_id pods)"
  shows "gget S x = gget S' x"
proof -
  have one: "gget B x = Some mem" if A: "snap_ok M m pods A" and B: "snap_ok M m pods B" and g: "gget A x = Some mem" for A B mem
  proof -
    obtain p where p: "p \<in> set pods" "pod_id p = x" "selected_by M m p" "p_PodIP p \<noteq> []" "mem_PodIP mem = p_PodIP p"
      by (rule snap_ok_Some [OF A g])
    then obtain mem' where m': "gget B x = Some mem'" using snap_ok_None [OF B _ p(1,2)] by auto
    obtain p' where p': "p' \<in> set pods" "pod_id p' = x" "mem_PodIP mem' = p_PodIP p'" by (rule snap_ok_Some [OF B m'])
    have "p' = p" using p(1,2) p'(1,2) assms(3) by (metis distinct_map inj_onD)
    then have "mem' = mem" using p(5) p'(3) by (simp add: PodMembership.equality)
    with m' show ?thesis by simp
  qed
  show ?thesis using one [OF assms(1,2)] one [OF assms(2,1)] by (metis not_Some_eq)
qed


lemma artifacts_rules_wf: "wfmap (art_PodRules (ComputeDesiredStateRecomputeArtifacts M cl m pods))"
  unfolding artifacts_fields art_fold_def by (rule fold_artifacts_rules_wf) (simp add: empty_artifacts_def)

text \<open>What the invariant says of the state a reader gets.\<close>

lemma entry_ok_parity:
  assumes "separate_targets cl m" and "namespace_pods m pods" and "entry_ok M cl m pods e"
    and "gget (dc_entries c) (cache_key m) = Some e" and "ce_mapping e = Some m"
  shows "\<exists>state. Get c m = (state, True) \<and>
    (let arts = ComputeDesiredStateRecomputeArtifacts M cl m pods in
       cs_MatchedPodsByIndex state = art_MatchedPodsByIndex arts \<and>
       cs_HasPendingIPPods state = art_HasPendingIPPods arts \<and>
       (\<forall>x. gget (snap_Pods (cs_Snapshot state)) x = gget (snap_Pods (art_Snapshot arts)) x) \<and>
       (\<forall>k. nonempty_view (cs_Desired state) k = view (art_Desired arts) k))"
proof -
  let ?arts = "ComputeDesiredStateRecomputeArtifacts M cl m pods"
  have dist: "distinct (map pod_id pods)" using assms(2) by (simp add: namespace_pods_def)
  have ok': "entry_ok M cl m pods (buildCacheEntryFromArtifacts m ?arts)" by (rule recompute_entry_ok [OF assms(1) dist])
  have g: "Get c m = (deepCopyCachedState (ce_state e), True)"
    using assms(4,5) by (simp add: Get_def uid_differs_def)
  have "nonempty_view (art_Desired ?arts) k = view (art_Desired ?arts) k" for k
    using artifacts_snapshot_eq [of M cl m pods] view_WithSnapshot [of M cl "[m]" pods k]
    by (simp add: nonempty_view_def prod_eq_iff split: option.splits)
  then have d: "nonempty_view (cs_Desired (ce_state e)) k = view (art_Desired ?arts) k" for k
    using desired_ok_same_view [OF assms(1), of M pods "cs_Desired (ce_state e)" "art_Desired ?arts" k] assms(3) ok'
    by (simp add: entry_ok_def buildCacheEntryFromArtifacts_def)
  have s: "gget (snap_Pods (cs_Snapshot (ce_state e))) x = gget (snap_Pods (art_Snapshot ?arts)) x" for x
    using assms(3) ok' by (intro snap_ok_unique [of M m, OF _ _ dist]) (simp_all add: entry_ok_def buildCacheEntryFromArtifacts_def)
  show ?thesis using g d s assms(3) ok'
    by (simp add: Let_def deepCopyCachedState_def entry_ok_def buildCacheEntryFromArtifacts_def)
qed

section \<open>Properties\<close>

text \<open>C10:
  Parity of the incremental cache with a full recomputation: after any sequence of pod
  additions, updates and deletions, a cache that started from the recomputation for some pods
  returns the counts, the pending flag and the snapshot of a recomputation for the current
  pods, and the same nonempty prefix set under every target key, provided no two rules of the
  mapping share a target and no two targets differ only in case.
\<close>

theorem cache_parity:
  assumes "separate_targets (dc_clusterName c) m" and "namespace_pods m pods" and "valid_events m pods evs"
    and "gget (dc_entries c) (cache_key m) =
      Some (buildCacheEntryFromArtifacts m (ComputeDesiredStateRecomputeArtifacts M (dc_clusterName c) m pods))"
  shows "\<exists>state. Get (fold (feed M m) evs c) m = (state, True) \<and>
    (let arts = ComputeDesiredStateRecomputeArtifacts M (dc_clusterName c) m (fold apply_event evs pods) in
       cs_MatchedPodsByIndex state = art_MatchedPodsByIndex arts \<and>
       cs_HasPendingIPPods state = art_HasPendingIPPods arts \<and>
       (\<forall>x. gget (snap_Pods (cs_Snapshot state)) x = gget (snap_Pods (art_Snapshot arts)) x) \<and>
       (\<forall>k. nonempty_view (cs_Desired state) k = view (art_Desired arts) k))"
proof -
  let ?cl = "dc_clusterName c" and ?pods = "fold apply_event evs pods"
  have "entry_ok M ?cl m pods (buildCacheEntryFromArtifacts m (ComputeDesiredStateRecomputeArtifacts M ?cl m pods))"
    using assms(1,2) by (intro recompute_entry_ok) (simp_all add: namespace_pods_def)
  from feed_events [OF assms(1,4) this assms(2,3)] obtain e' where e': "gget (dc_entries (fold (feed M m) evs c)) (cache_key m) = Some e'"
    "ce_mapping e' = Some m" and ok: "entry_ok M ?cl m ?pods e'" and ns: "namespace_pods m ?pods"
    by (auto simp: buildCacheEntryFromArtifacts_def)
  show ?thesis by (rule entry_ok_parity [OF assms(1) ns ok e'])
qed

lemma ex_separate: "separate_targets ''c'' ex_mapping"
proof -
  have r: "rule_targets ''c'' ex_mapping i = (if i = 0 then {ex_asg ''A''} else {ex_asg ''B''})" if "i < 2" for i
    using that ex_resolve [of "''A''" "''web''"] ex_resolve [of "''B''" "''db''"]
    by (auto simp: ex_mapping_def prefix_set_name_def ex_psn name_segment_def less_2_cases_iff)
  have len: "length (m_Mappings ex_mapping) = 2" by (simp add: ex_mapping_def)
  have "targetKey (ex_asg ''A'') \<noteq> targetKey (ex_asg ''B'')" by code_simp
  moreover have "mapping_targets ''c'' ex_mapping = {ex_asg ''A'', ex_asg ''B''}"
    unfolding mapping_targets_def len using r by (auto simp: lessThan_Suc numeral_2_eq_2)
  moreover have "ex_asg ''A'' \<noteq> ex_asg ''B''" by (simp add: ex_asg_inject)
  ultimately show ?thesis unfolding separate_targets_def len using r by (auto simp: inj_on_def)
qed

definition ex_cache :: "matcher \<Rightarrow> PodASGMapping \<Rightarrow> Pod list \<Rightarrow> DesiredStateCache" where
  "ex_cache M m pods = set_entry m (buildCacheEntryFromArtifacts m (ComputeDesiredStateRecomputeArtifacts M ''c'' m pods))
     (NewDesiredStateCache ''c'')"

theorem cache_parity_witness:
  "\<exists>state. Get (fold (feed doc_matches ex_mapping)
       [Added (ex_pod ''q'' ''db'' ''10.0.0.2''), Updated (ex_pod ''p'' ''web'' ''10.0.0.1'') (ex_pod ''p'' ''db'' ''10.0.0.3''),
        Deleted (ex_pod ''q'' ''db'' ''10.0.0.2'')]
       (ex_cache doc_matches ex_mapping [ex_pod ''p'' ''web'' ''10.0.0.1''])) ex_mapping = (state, True) \<and>
     cs_MatchedPodsByIndex state = [0, 1]"
proof -
  let ?p = "ex_pod ''p'' ''web'' ''10.0.0.1''" and ?q = "ex_pod ''q'' ''db'' ''10.0.0.2''" and ?r = "ex_pod ''p'' ''db'' ''10.0.0.3''"
  have c: "dc_clusterName (ex_cache doc_matches ex_mapping [?p]) = ''c''"
    "gget (dc_entries (ex_cache doc_matches ex_mapping [?p])) (cache_key ex_mapping) =
      Some (buildCacheEntryFromArtifacts ex_mapping (ComputeDesiredStateRecomputeArtifacts doc_matches ''c'' ex_mapping [?p]))"
    by (simp_all add: ex_cache_def set_entry_def NewDesiredStateCache_def)
  have n: "namespace_pods ex_mapping [?p]" by (simp add: namespace_pods_def ex_mapping_def)
  have ne: "?q \<noteq> ?p" "?q \<noteq> ?r" "?p \<noteq> ?r" by (simp_all add: ex_pod_def)
  have v: "valid_events ex_mapping [?p] [Added ?q, Updated ?p ?r, Deleted ?q]"
    using ne by (simp add: ex_pod_id ex_mapping_def)
  have f: "fold apply_event [Added ?q, Updated ?p ?r, Deleted ?q] [?p] = [?r]" using ne by simp
  have "art_MatchedPodsByIndex (ComputeDesiredStateRecomputeArtifacts doc_matches ''c'' ex_mapping [?r]) = [0, 1]"
    by (simp add: artifacts_counts ex_mapping_def ex_rule_selects)
  then show ?thesis
    using cache_parity [of "ex_cache doc_matches ex_mapping [?p]" ex_mapping "[?p]" "[Added ?q, Updated ?p ?r, Deleted ?q]" doc_matches]
      ex_separate c n v f unfolding Let_def by auto
qed


section \<open>The conditions of the parity theorem are needed\<close>

lemma ips_of_recompute_subset:
  "ips_of (art_Desired (ComputeDesiredStateRecomputeArtifacts M cl m pods)) t \<subseteq> wanted M cl [m] pods (targetKey t)"
proof -
  let ?I = "add_contribs (all_pod_contribs M cl [m] pods) []"
  have D: "art_Desired (ComputeDesiredStateRecomputeArtifacts M cl m pods) = result_of ?I"
    using artifacts_snapshot_eq [of M cl m pods] WithSnapshot_contribs [of M cl "[m]" pods] by (simp add: prod_eq_iff)
  have "ips_at ?I (targetKey t) = Some s \<Longrightarrow> s = wanted M cl [m] pods (targetKey t)" for s
    unfolding ips_at_add_contribs wanted_contribs by (auto simp: ips_at_def split: if_splits)
  then show ?thesis unfolding D ips_of_result [OF wf_internal_pod_contribs]
    by (auto simp: ips_at_def split: option.splits if_splits)
qed

definition ex_shared_mapping :: PodASGMapping where
  "ex_shared_mapping = ex_mapping_of
     [\<lparr>rule_PodSelector = \<lparr>sel_MatchLabels = Some [(''app'', ''web'')]\<rparr>, rule_ASGs = [ex_ref ''A'']\<rparr>,
      \<lparr>rule_PodSelector = \<lparr>sel_MatchLabels = Some [(''tier'', ''front'')]\<rparr>, rule_ASGs = [ex_ref ''A'']\<rparr>]"

definition ex_both :: Pod where
  "ex_both = (ex_pod ''p'' ''web'' ''10.0.0.1'')\<lparr>p_Labels := Some [(''app'', ''web''), (''tier'', ''front'')]\<rparr>"

text \<open>Two rules that name the same group break the parity contract: a pod selected by both loses
  the label of the second rule, and \<open>OnPodUpdate\<close> removes its prefix from the group although
  the first rule still selects it and a recomputation keeps it.
\<close>

theorem shared_target_update_drops_prefix:
  "ips_of (cs_Desired (fst (Get (fst (OnPodUpdate doc_matches (ex_cache doc_matches ex_shared_mapping [ex_both])
      ex_shared_mapping ex_both (ex_pod ''p'' ''web'' ''10.0.0.1''))) ex_shared_mapping))) (ex_asg ''A'') = {} \<and>
   wanted doc_matches ''c'' [ex_shared_mapping] [ex_pod ''p'' ''web'' ''10.0.0.1''] (targetKey (ex_asg ''A'')) =
     {''10.0.0.1/32''}"
proof -
  let ?new = "ex_pod ''p'' ''web'' ''10.0.0.1''"
  let ?e = "buildCacheEntryFromArtifacts ex_shared_mapping
    (ComputeDesiredStateRecomputeArtifacts doc_matches ''c'' ex_shared_mapping [ex_both])"
  have m: "matchPodToRuleIndices doc_matches ex_shared_mapping (p_Labels ex_both) = [0, 1]"
    "matchPodToRuleIndices doc_matches ex_shared_mapping (p_Labels ?new) = [0]"
    by (simp_all add: matchPodToRuleIndices_def ex_shared_mapping_def ex_both_def ex_pod_def selector_of_def nlen_def doc_matches_def)
  have r: "resolveRuleTargets (m_Mappings ex_shared_mapping ! i) ''c-ns-m'' = [ex_asg ''A'']" if "i < 2" for i
    using that ex_parse [of "''A''"]
    by (auto simp: ex_shared_mapping_def resolveRuleTargets_def ex_ref_def ex_asg_def name_segment_def less_2_cases_iff)
  have len: "length (m_Mappings ex_shared_mapping) = 2" by (simp add: ex_shared_mapping_def)
  have psn: "OwnershipKey ''c'' (m_Namespace ex_shared_mapping) (m_Name ex_shared_mapping) = ''c-ns-m''"
    by (simp add: ex_shared_mapping_def ex_psn)
  have id: "pod_id ?new = pod_id ex_both" by (simp add: pod_id_def ex_both_def ex_pod_def)
  have cidr: "pod_cidr ?new = Some ''10.0.0.1/32''" "pod_cidr ex_both = Some ''10.0.0.1/32''"
    by (simp_all add: pod_cidr_def ex_both_def toCIDR_v4)
  have keys: "rule_keys ''c'' ex_shared_mapping (m_Mappings ex_shared_mapping ! i) = [targetKey (ex_asg ''A'')]" if "i < 2" for i
    using r [OF that] by (simp add: rule_keys_def prefix_set_name_def psn)
  have want: "wanted doc_matches ''c'' [ex_shared_mapping] [p] (targetKey (ex_asg ''A'')) = {''10.0.0.1/32''}"
    if "p_PodIP p = ''10.0.0.1''" "p_Namespace p = ''ns''" "0 \<in> set (matchPodToRuleIndices doc_matches ex_shared_mapping (p_Labels p))" for p
  proof (rule subset_antisym)
    show "wanted doc_matches ''c'' [ex_shared_mapping] [p] (targetKey (ex_asg ''A'')) \<subseteq> {''10.0.0.1/32''}"
      using that(1) by (auto simp: wanted_def toCIDR_v4)
    have "rule_selects doc_matches ex_shared_mapping (m_Mappings ex_shared_mapping ! 0) p"
      using that by (subst selects_matched) (simp_all add: ex_shared_mapping_def)
    moreover have "m_Mappings ex_shared_mapping ! 0 \<in> set (m_Mappings ex_shared_mapping)" by (intro nth_mem) (simp add: len)
    moreover have "toCIDR ''10.0.0.1'' = ''10.0.0.1/32''" by (simp add: toCIDR_v4)
    ultimately show "{''10.0.0.1/32''} \<subseteq> wanted doc_matches ''c'' [ex_shared_mapping] [p] (targetKey (ex_asg ''A''))"
      using keys [of 0] that(1) unfolding wanted_def by fastforce
  qed
  have D: "ips_of (cs_Desired (ce_state ?e)) (ex_asg ''A'') \<subseteq> {''10.0.0.1/32''}"
    using ips_of_recompute_subset [of doc_matches "''c''" ex_shared_mapping "[ex_both]" "ex_asg ''A''"] want [of ex_both] m(1)
    by (simp add: buildCacheEntryFromArtifacts_def ex_both_def)
  have wf: "wfmap (ce_podRules ?e)"
    by (simp add: buildCacheEntryFromArtifacts_def artifacts_rules_wf del: set_map)
  have "hasOtherContributor ?e (pod_id ex_both) i ip \<longleftrightarrow> ip \<in> rule_ips doc_matches ex_shared_mapping ([] @ []) i" if "i < 2" for i ip
  proof (rule hasOther_split)
    show "rules_ok doc_matches ex_shared_mapping ([] @ ex_both # []) (ce_podRules ?e)"
      "snap_ok doc_matches ex_shared_mapping ([] @ ex_both # []) (snap_Pods (cs_Snapshot (ce_state ?e)))"
      using artifacts_maps_ok [of "[ex_both]" doc_matches ex_shared_mapping "''c''"]
      by (simp_all add: buildCacheEntryFromArtifacts_def)
  qed (use wf that len in simp_all)
  then have other: "\<not> hasOtherContributor ?e (pod_id ex_both) i ip" if "i < 2" for i ip
    using that by (simp add: rule_ips_def)
  have "cs_Desired (fst (Get (fst (OnPodUpdate doc_matches (ex_cache doc_matches ex_shared_mapping [ex_both])
      ex_shared_mapping ex_both ?new)) ex_shared_mapping)) = cs_Desired (ce_state (update_pod_entry doc_matches ''c'' ex_shared_mapping ex_both ?new ?e))"
    by (simp add: OnPodUpdate_def Get_def ex_cache_def set_entry_def bump_version_def NewDesiredStateCache_def
        uid_differs_def update_pod_mapping deepCopyCachedState_def Let_def buildCacheEntryFromArtifacts_def)
  also have "\<dots> = fold (update_targets ?e ''c-ns-m'' ex_shared_mapping (pod_id ex_both) {0, 1} {0} (Some ''10.0.0.1/32'') (Some ''10.0.0.1/32''))
      [0, 1] (cs_Desired (ce_state ?e))"
    using update_rules_fields(5) [OF wf, of "''c-ns-m''" "pod_id ex_both" "[0, 1]" "[0]" "Some ''10.0.0.1/32''" "Some ''10.0.0.1/32''"
        ex_shared_mapping "[0, 1]"]
    by (simp add: update_pod_entry_def Let_def psn m id cidr put_snapshot_def enumerate_map len upt_conv_Cons)
  finally have "ips_of (cs_Desired (fst (Get (fst (OnPodUpdate doc_matches (ex_cache doc_matches ex_shared_mapping [ex_both])
      ex_shared_mapping ex_both ?new)) ex_shared_mapping))) (ex_asg ''A'') = {}"
    using D other [of 0] other [of 1] r [of 0] r [of 1] by (auto simp: ips_of_update_targets update_ips_def)
  then show ?thesis using want [of ?new] m(2) by simp
qed


text \<open>
  Adding a pod that the entry already tracks, as happens when its event is handled after a
  recomputation that saw the pod was published, counts it twice.
\<close>

lemma readded_pod_counted_twice:
  "cs_MatchedPodsByIndex (fst (Get (OnPodAdd doc_matches (ex_cache doc_matches ex_mapping [ex_pod ''p'' ''web'' ''10.0.0.1''])
     ex_mapping (ex_pod ''p'' ''web'' ''10.0.0.1'')) ex_mapping)) = [2, 0] \<and>
   art_MatchedPodsByIndex (ComputeDesiredStateRecomputeArtifacts doc_matches ''c'' ex_mapping [ex_pod ''p'' ''web'' ''10.0.0.1'']) = [1, 0]"
proof -
  let ?p = "ex_pod ''p'' ''web'' ''10.0.0.1''"
  let ?e = "buildCacheEntryFromArtifacts ex_mapping (ComputeDesiredStateRecomputeArtifacts doc_matches ''c'' ex_mapping [?p])"
  have "cs_MatchedPodsByIndex (ce_state (add_pod_entry doc_matches ''c'' ex_mapping ?p ?e)) =
      fold inc_matched (matchPodToRuleIndices doc_matches ex_mapping (p_Labels ?p)) (matched_counts doc_matches ex_mapping [?p])"
    by (simp add: add_pod_entry_def Let_def put_snapshot_def add_rules_fields buildCacheEntryFromArtifacts_def artifacts_counts
        matched_counts_def)
  also have "\<dots> = matched_counts doc_matches ex_mapping ([?p] @ [?p])"
    by (rule matched_counts_snoc) (simp add: ex_mapping_def)
  finally have "cs_MatchedPodsByIndex (ce_state (add_pod_entry doc_matches ''c'' ex_mapping ?p ?e)) =
      matched_counts doc_matches ex_mapping ([?p] @ [?p])" .
  moreover have "matched_counts doc_matches ex_mapping ([?p] @ [?p]) = [2, 0]"
    by (simp add: matched_counts_def ex_mapping_def ex_rule_selects)
  moreover have "art_MatchedPodsByIndex (ComputeDesiredStateRecomputeArtifacts doc_matches ''c'' ex_mapping [?p]) = [1, 0]"
    by (simp add: artifacts_counts ex_mapping_def ex_rule_selects)
  ultimately show ?thesis
    by (simp add: OnPodAdd_def Get_def ex_cache_def set_entry_def bump_version_def NewDesiredStateCache_def uid_differs_def
        add_pod_mapping deepCopyCachedState_def Let_def buildCacheEntryFromArtifacts_def)
qed

end
