(* ===== verification/Arm_Errors.thy ===== *)
theory Arm_Errors
  imports Api_Types Complex_Main
begin

text \<open>
  Errors of the Azure layer (\<open>internal/azure/interfaces.go\<close>) and the retry decisions on
  them (\<open>internal/azure/retry.go\<close>).

  A Go \<open>error\<close> is one of the errors the code distinguishes, with \<open>Wrapped\<close> for
  \<open>pkg/errors.Wrap\<close> and \<open>%w\<close>, and \<open>Aggregated\<close> for an error that has a text of its own and
  unwraps to a primary cause; \<open>ApiNotFound\<close> and \<open>ApiConflict\<close> are the Kubernetes API errors
  with reasons NotFound and Conflict. \<open>errors.Is\<close> and \<open>errors.As\<close> search the chain of
  \<open>Unwrap\<close>. Durations are integers in nanoseconds; the \<open>float64\<close> computation of the backoff
  is exact rational arithmetic, with the random number in \<open>[0, 1)\<close> as an argument.
\<close>

datatype ARMOperation =
    ARMOperationGetPrefixSet | ARMOperationPutPrefixSet | ARMOperationDeletePrefixSet
  | ARMOperationListPrefixSets | ARMOperationPollLRO | ARMOperationOther string

record ARMStatusError =
  arm_StatusCode :: int
  arm_ARMCode :: string
  arm_Message :: string
  arm_Operation :: ARMOperation
  arm_RequestURL :: string
  arm_RetryAfter :: duration

datatype goerror =
    ErrNotFound
  | ErrMissingETag
  | ARMError ARMStatusError
  | NetOpError string
  | NetDNSError string
  | ContextCanceled
  | ContextDeadlineExceeded
  | ErrStatusObjectNotFound
  | ErrStatusStaleGeneration
  | ApiNotFound string
  | ApiConflict string
  | OtherError string
  | Wrapped string goerror
  | Aggregated string goerror

text \<open>The chain of an error: itself and everything \<open>Unwrap\<close> leads to.\<close>

fun err_chain :: "goerror \<Rightarrow> goerror list" where
  "err_chain (ARMError a) = ARMError a # (if arm_StatusCode a = 404 then [ErrNotFound] else [])"
| "err_chain (Wrapped msg e) = Wrapped msg e # err_chain e"
| "err_chain (Aggregated msg e) = Aggregated msg e # err_chain e"
| "err_chain e = [e]"

definition errors_Is :: "goerror \<Rightarrow> goerror \<Rightarrow> bool" where
  "errors_Is err target \<longleftrightarrow> target \<in> set (err_chain err)"

fun first_arm :: "goerror list \<Rightarrow> ARMStatusError option" where
  "first_arm [] = None"
| "first_arm (ARMError a # es) = Some a"
| "first_arm (_ # es) = first_arm es"

text \<open>\<open>errors.As\<close> with a \<open>*ARMStatusError\<close>.\<close>

definition as_arm :: "goerror \<Rightarrow> ARMStatusError option" where
  "as_arm err = first_arm (err_chain err)"

text \<open>\<open>Error()\<close>.\<close>

definition arm_text :: "ARMStatusError \<Rightarrow> string" where
  "arm_text e = ''azure ARM error: status='' @ show_int (arm_StatusCode e) @ '' code='' @ arm_ARMCode e @
     '' message='' @ arm_Message e"

fun err_text :: "goerror \<Rightarrow> string" where
  "err_text ErrNotFound = ''azure resource not found''"
| "err_text ErrMissingETag = ''missing etag for existing resource''"
| "err_text (ARMError a) = arm_text a"
| "err_text (NetOpError s) = s"
| "err_text (NetDNSError s) = s"
| "err_text ContextCanceled = ''context canceled''"
| "err_text ContextDeadlineExceeded = ''context deadline exceeded''"
| "err_text ErrStatusObjectNotFound = ''status object not found''"
| "err_text ErrStatusStaleGeneration = ''status stale generation''"
| "err_text (ApiNotFound s) = s"
| "err_text (ApiConflict s) = s"
| "err_text (OtherError s) = s"
| "err_text (Wrapped msg e) = msg @ '': '' @ err_text e"
| "err_text (Aggregated msg e) = msg"

definition IsNotFound :: "goerror \<Rightarrow> bool" where
  "IsNotFound err \<longleftrightarrow> errors_Is err ErrNotFound"

definition IsPreconditionFailed :: "goerror \<Rightarrow> bool" where
  "IsPreconditionFailed err \<longleftrightarrow> (case as_arm err of Some armErr \<Rightarrow> arm_StatusCode armErr = 412 | None \<Rightarrow> False)"

section \<open>Retry decisions\<close>

record RetryPolicy =
  rp_MaxRetries :: int
  rp_NetworkMaxRetries :: int
  rp_BaseDelay :: duration
  rp_MaxDelay :: duration
  rp_JitterFactor :: rat

record RetryDecision =
  rd_Retry :: bool
  rd_Delay :: duration
  rd_RetryReason :: string

definition DefaultRetryPolicy :: RetryPolicy where
  "DefaultRetryPolicy = \<lparr>rp_MaxRetries = 3, rp_NetworkMaxRetries = 1, rp_BaseDelay = 1 * second,
     rp_MaxDelay = 8 * second, rp_JitterFactor = 1 / 5\<rparr>"

definition isRetriableStatusCode :: "int \<Rightarrow> bool" where
  "isRetriableStatusCode statusCode \<longleftrightarrow> statusCode = 408 \<or> statusCode = 429 \<or> statusCode \<ge> 500"

definition isNetworkError :: "goerror \<Rightarrow> bool" where
  "isNetworkError err \<longleftrightarrow>
     list_ex (\<lambda>e. case e of NetOpError _ \<Rightarrow> True | _ \<Rightarrow> False) (err_chain err) \<or>
     list_ex (\<lambda>e. case e of NetDNSError _ \<Rightarrow> True | _ \<Rightarrow> False) (err_chain err)"

definition computeBackoff :: "rat \<Rightarrow> int \<Rightarrow> RetryPolicy \<Rightarrow> duration" where
  "computeBackoff rnd retriesUsed p =
     (let delay = of_int (rp_BaseDelay p) * 2 ^ nat retriesUsed;
          delay = (if delay > of_int (rp_MaxDelay p) then of_int (rp_MaxDelay p) else delay);
          delay = (if rp_JitterFactor p > 0 then delay + delay * rp_JitterFactor p * (rnd * 2 - 1) else delay);
          delay = (if delay < 0 then 0 else delay)
      in \<lfloor>delay\<rfloor>)"

definition no_retry :: RetryDecision where
  "no_retry = \<lparr>rd_Retry = False, rd_Delay = 0, rd_RetryReason = []\<rparr>"

definition DecideRetry :: "rat \<Rightarrow> goerror option \<Rightarrow> int \<Rightarrow> RetryPolicy \<Rightarrow> RetryDecision" where
  "DecideRetry rnd err attemptNumber p =
     (case err of
        None \<Rightarrow> no_retry
      | Some e \<Rightarrow>
          let retriesUsed = attemptNumber - 1 in
          case as_arm e of
            Some armErr \<Rightarrow>
              if arm_StatusCode armErr = 412 then no_retry
              else if isRetriableStatusCode (arm_StatusCode armErr) then
                (if retriesUsed \<ge> rp_MaxRetries p then no_retry
                 else if arm_StatusCode armErr = 429 \<and> arm_RetryAfter armErr > 0
                 then \<lparr>rd_Retry = True, rd_Delay = arm_RetryAfter armErr, rd_RetryReason = ''429-retry-after''\<rparr>
                 else \<lparr>rd_Retry = True, rd_Delay = computeBackoff rnd retriesUsed p, rd_RetryReason = ''server-error''\<rparr>)
              else no_retry
          | None \<Rightarrow>
              if isNetworkError e then
                (if retriesUsed \<ge> rp_NetworkMaxRetries p then no_retry
                 else \<lparr>rd_Retry = True, rd_Delay = computeBackoff rnd retriesUsed p, rd_RetryReason = ''network''\<rparr>)
              else no_retry)"

definition ExtractRetryAfterHint :: "goerror \<Rightarrow> duration" where
  "ExtractRetryAfterHint err = (case as_arm err of Some armErr \<Rightarrow> arm_RetryAfter armErr | None \<Rightarrow> 0)"

definition IsRetriableARM :: "goerror \<Rightarrow> bool" where
  "IsRetriableARM err \<longleftrightarrow>
     (case as_arm err of Some armErr \<Rightarrow> isRetriableStatusCode (arm_StatusCode armErr) | None \<Rightarrow> isNetworkError err)"

definition IsAuthFailure :: "goerror \<Rightarrow> bool" where
  "IsAuthFailure err \<longleftrightarrow>
     (case as_arm err of None \<Rightarrow> False
      | Some armErr \<Rightarrow> arm_StatusCode armErr = 401 \<or> arm_StatusCode armErr = 403)"

definition IsParentASGNotFound :: "goerror \<Rightarrow> bool" where
  "IsParentASGNotFound err \<longleftrightarrow>
     (case as_arm err of None \<Rightarrow> False
      | Some armErr \<Rightarrow>
          if arm_StatusCode armErr \<noteq> 404 then False
          else arm_ARMCode armErr \<in> {''ApplicationSecurityGroupNotFound'', ''ParentResourceNotFound'',
                 ''ResourceGroupNotFound'', ''SubscriptionNotFound''})"

definition IsChildPrefixSetNotFound :: "goerror \<Rightarrow> bool" where
  "IsChildPrefixSetNotFound err \<longleftrightarrow>
     (case as_arm err of None \<Rightarrow> False
      | Some armErr \<Rightarrow>
          if arm_StatusCode armErr \<noteq> 404 then False else arm_ARMCode armErr = ''AddressPrefixSetNotFound'')"

section \<open>Lemmas\<close>

lemma as_arm_simps [simp]:
  "as_arm (ARMError a) = Some a" "as_arm (Wrapped s e) = as_arm e" "as_arm ErrNotFound = None"
  "as_arm ErrMissingETag = None" "as_arm (NetOpError s) = None" "as_arm (NetDNSError s) = None"
  "as_arm ContextCanceled = None" "as_arm ContextDeadlineExceeded = None" "as_arm (OtherError s) = None"
  "as_arm (Aggregated s e) = as_arm e" "as_arm ErrStatusObjectNotFound = None" "as_arm ErrStatusStaleGeneration = None"
  "as_arm (ApiNotFound s) = None" "as_arm (ApiConflict s) = None"
  by (simp_all add: as_arm_def)

lemma IsNotFound_simps [simp]:
  "IsNotFound ErrNotFound" "IsNotFound (ARMError a) \<longleftrightarrow> arm_StatusCode a = 404" "IsNotFound (Wrapped s e) \<longleftrightarrow> IsNotFound e"
  "\<not> IsNotFound ErrMissingETag" "\<not> IsNotFound (NetOpError s)" "\<not> IsNotFound (NetDNSError s)"
  "\<not> IsNotFound ContextCanceled" "\<not> IsNotFound ContextDeadlineExceeded" "\<not> IsNotFound (OtherError s)"
  "IsNotFound (Aggregated s e) \<longleftrightarrow> IsNotFound e" "\<not> IsNotFound ErrStatusObjectNotFound" "\<not> IsNotFound ErrStatusStaleGeneration"
  "\<not> IsNotFound (ApiNotFound s)" "\<not> IsNotFound (ApiConflict s)"
  by (simp_all add: IsNotFound_def errors_Is_def)

lemma IsNotFound_iff: "IsNotFound e \<longleftrightarrow> (\<exists>a. as_arm e = Some a \<and> arm_StatusCode a = 404) \<or> ErrNotFound = last (err_chain e)"
  by (induction e rule: err_chain.induct) (auto simp: IsNotFound_def errors_Is_def)

lemma precondition_not_notfound: "IsPreconditionFailed e \<Longrightarrow> \<not> IsNotFound e"
  by (induction e rule: err_chain.induct) (auto simp: IsPreconditionFailed_def)

lemma computeBackoff_bounds:
  assumes "0 \<le> rnd" "rnd \<le> 1" "0 \<le> rp_BaseDelay p" "rp_BaseDelay p \<le> rp_MaxDelay p" "0 \<le> rp_JitterFactor p"
  shows "0 \<le> computeBackoff rnd n p"
    and "of_int (computeBackoff rnd n p) \<le> of_int (rp_MaxDelay p) * (1 + rp_JitterFactor p)"
proof -
  let ?b = "of_int (rp_BaseDelay p) * 2 ^ nat n :: rat"
  let ?d = "if ?b > of_int (rp_MaxDelay p) then of_int (rp_MaxDelay p) else ?b"
  let ?j = "if rp_JitterFactor p > 0 then ?d + ?d * rp_JitterFactor p * (rnd * 2 - 1) else ?d"
  have d: "0 \<le> ?d" "?d \<le> of_int (rp_MaxDelay p)" using assms by auto
  have "?d * rp_JitterFactor p * (rnd * 2 - 1) \<le> ?d * rp_JitterFactor p * 1"
    using d assms by (intro mult_left_mono mult_nonneg_nonneg) auto
  then have "?j \<le> ?d * (1 + rp_JitterFactor p)" using assms d by (auto simp: algebra_simps)
  also have "\<dots> \<le> of_int (rp_MaxDelay p) * (1 + rp_JitterFactor p)"
    using d assms by (intro mult_right_mono) auto
  finally have j: "?j \<le> of_int (rp_MaxDelay p) * (1 + rp_JitterFactor p)" .
  have z: "0 \<le> of_int (rp_MaxDelay p) * (1 + rp_JitterFactor p)" using assms by (intro mult_nonneg_nonneg) auto
  have eq: "computeBackoff rnd n p = \<lfloor>if ?j < 0 then 0 else ?j\<rfloor>" by (simp only: computeBackoff_def Let_def)
  show "0 \<le> computeBackoff rnd n p" unfolding eq by simp
  have "of_int \<lfloor>if ?j < 0 then 0 else ?j\<rfloor> \<le> (if ?j < 0 then 0 else ?j)" by (rule of_int_floor_le)
  also have "\<dots> \<le> of_int (rp_MaxDelay p) * (1 + rp_JitterFactor p)" using j z by simp
  finally show "of_int (computeBackoff rnd n p) \<le> of_int (rp_MaxDelay p) * (1 + rp_JitterFactor p)" unfolding eq .
qed

section \<open>Properties\<close>

text \<open>A retry is decided only for an error that is retriable and not an ETag conflict, only while
  fewer retries than the policy allows were used, and the delay is the server's positive
  Retry-After hint or lies between zero and the maximal delay plus jitter.
\<close>

theorem decide_retry_bounded:
  assumes "rd_Retry (DecideRetry rnd (Some e) attempt p)"
    and "0 \<le> rnd" "rnd \<le> 1" "0 \<le> rp_BaseDelay p" "rp_BaseDelay p \<le> rp_MaxDelay p" "0 \<le> rp_JitterFactor p"
  shows "IsRetriableARM e \<and> \<not> IsPreconditionFailed e \<and>
    attempt - 1 < (if as_arm e = None then rp_NetworkMaxRetries p else rp_MaxRetries p) \<and>
    (rd_Delay (DecideRetry rnd (Some e) attempt p) = ExtractRetryAfterHint e \<and> ExtractRetryAfterHint e > 0 \<or>
     0 \<le> rd_Delay (DecideRetry rnd (Some e) attempt p) \<and>
     of_int (rd_Delay (DecideRetry rnd (Some e) attempt p)) \<le> of_int (rp_MaxDelay p) * (1 + rp_JitterFactor p))"
proof (cases "as_arm e")
  case None
  with assms(1) have n: "isNetworkError e" "attempt - 1 < rp_NetworkMaxRetries p"
    "DecideRetry rnd (Some e) attempt p = \<lparr>rd_Retry = True, rd_Delay = computeBackoff rnd (attempt - 1) p, rd_RetryReason = ''network''\<rparr>"
    by (auto simp: DecideRetry_def no_retry_def Let_def split: if_splits)
  with None computeBackoff_bounds [OF assms(2-6)] show ?thesis
    by (simp add: IsRetriableARM_def IsPreconditionFailed_def)
next
  case (Some a)
  with assms(1) have a: "isRetriableStatusCode (arm_StatusCode a)" "arm_StatusCode a \<noteq> 412" "attempt - 1 < rp_MaxRetries p"
    by (auto simp: DecideRetry_def no_retry_def Let_def split: if_splits)
  have "rd_Delay (DecideRetry rnd (Some e) attempt p) =
      (if arm_StatusCode a = 429 \<and> arm_RetryAfter a > 0 then arm_RetryAfter a else computeBackoff rnd (attempt - 1) p)"
    using Some a by (auto simp: DecideRetry_def Let_def)
  with Some a computeBackoff_bounds [OF assms(2-6)] show ?thesis
    by (auto simp: IsRetriableARM_def IsPreconditionFailed_def ExtractRetryAfterHint_def)
qed

theorem decide_retry_bounded_witness:
  "rd_Retry (DecideRetry (1 / 2) (Some (ARMError \<lparr>arm_StatusCode = 503, arm_ARMCode = [], arm_Message = [],
     arm_Operation = ARMOperationPutPrefixSet, arm_RequestURL = [], arm_RetryAfter = 0\<rparr>)) 3
     DefaultRetryPolicy) \<and>
   of_int (rd_Delay (DecideRetry (1 / 2) (Some (ARMError \<lparr>arm_StatusCode = 503, arm_ARMCode = [], arm_Message = [],
     arm_Operation = ARMOperationPutPrefixSet, arm_RequestURL = [], arm_RetryAfter = 0\<rparr>)) 3
     DefaultRetryPolicy)) \<le> of_int (8 * second) * (1 + 1 / 5 :: rat)"
proof -
  let ?e = "ARMError \<lparr>arm_StatusCode = 503, arm_ARMCode = [], arm_Message = [],
     arm_Operation = ARMOperationPutPrefixSet, arm_RequestURL = [], arm_RetryAfter = 0\<rparr>"
  have r: "rd_Retry (DecideRetry (1 / 2) (Some ?e) 3 DefaultRetryPolicy)"
    by (simp add: DecideRetry_def isRetriableStatusCode_def DefaultRetryPolicy_def)
  with decide_retry_bounded [OF r] show ?thesis
    by (simp add: DefaultRetryPolicy_def second_def ExtractRetryAfterHint_def)
qed

end
