(* ===== verification/Prefix_Set_Api.thy ===== *)
theory Prefix_Set_Api
  imports Arm_Errors
begin

text \<open>
  The interface between the executor and Azure (\<open>AddressPrefixSetAPI\<close> in
  \<open>internal/azure/interfaces.go\<close>). A client is a record of operations on a state \<open>'w\<close> that
  holds everything behind it. The locale \<open>prefix_set_store\<close> is the contract of a client with
  no other writer: what each operation makes of the stored prefixes. Its lemmas are used by the
  executor; \<open>prefix_set_service\<close> adds what the reconciler needs of reads, listings and deletions.
  The in-memory client of \<open>internal/azure/fake\<close> is the interpretation of both.
\<close>

record AddressPrefixSetProperties =
  psp_AddressPrefixes :: "string list"
  psp_ProvisioningState :: "string option"

record AddressPrefixSet =
  aps_ID :: "string option"
  aps_Name :: "string option"
  aps_Etag :: "string option"
  aps_Type :: "string option"
  aps_Properties :: "AddressPrefixSetProperties option"

text \<open>\<open>subscriptionID, resourceGroup, asgName, prefixSetName\<close>: the arguments of every operation.\<close>

type_synonym resource = "string \<times> string \<times> string \<times> string"

record 'w AddressPrefixSetAPI =
  api_Get :: "resource \<Rightarrow> 'w \<Rightarrow> (goerror + AddressPrefixSet option) \<times> 'w"
  api_GetWithETag :: "resource \<Rightarrow> 'w \<Rightarrow> (goerror + AddressPrefixSet option \<times> string) \<times> 'w"
  api_Put :: "resource \<Rightarrow> string list \<Rightarrow> 'w \<Rightarrow> goerror option \<times> 'w"
  api_PutWithIfMatch :: "resource \<Rightarrow> string list \<Rightarrow> string \<Rightarrow> 'w \<Rightarrow> goerror option \<times> 'w"
  api_Delete :: "resource \<Rightarrow> 'w \<Rightarrow> goerror option \<times> 'w"
  api_List :: "string \<times> string \<times> string \<Rightarrow> 'w \<Rightarrow> (goerror + AddressPrefixSet list) \<times> 'w"

text \<open>\<open>current.Properties.AddressPrefixes\<close> where the properties may be nil.\<close>

definition prefixes_of :: "AddressPrefixSet \<Rightarrow> string list" where
  "prefixes_of s = (case aps_Properties s of None \<Rightarrow> [] | Some p \<Rightarrow> psp_AddressPrefixes p)"

text \<open>
  \<open>ident\<close> is the identity of a resource behind the client, \<open>stored\<close> its prefixes and
  \<open>invar\<close> what the client's state satisfies. A failed operation changes nothing; a read returns
  what is stored, and answers \<open>ErrNotFound\<close> only when nothing is.
\<close>

locale prefix_set_store =
  fixes api :: "'w AddressPrefixSetAPI"
    and invar :: "'w \<Rightarrow> bool"
    and ident :: "resource \<Rightarrow> 'k"
    and stored :: "'w \<Rightarrow> 'k \<Rightarrow> string set option"
  assumes get_keeps: "invar w \<Longrightarrow> invar (snd (api_Get api r w)) \<and> stored (snd (api_Get api r w)) = stored w"
    and get_value: "invar w \<Longrightarrow> fst (api_Get api r w) = Inr s \<Longrightarrow>
      stored w (ident r) = map_option (\<lambda>s. set (prefixes_of s)) s"
    and get_absent: "invar w \<Longrightarrow> fst (api_Get api r w) = Inl e \<Longrightarrow> IsNotFound e \<Longrightarrow> stored w (ident r) = None"
    and etag_keeps: "invar w \<Longrightarrow>
      invar (snd (api_GetWithETag api r w)) \<and> stored (snd (api_GetWithETag api r w)) = stored w"
    and etag_value: "invar w \<Longrightarrow> fst (api_GetWithETag api r w) = Inr (s, etag) \<Longrightarrow>
      stored w (ident r) = map_option (\<lambda>s. set (prefixes_of s)) s"
    and etag_absent: "invar w \<Longrightarrow> fst (api_GetWithETag api r w) = Inl e \<Longrightarrow> IsNotFound e \<Longrightarrow>
      stored w (ident r) = None"
    and put_invar: "invar w \<Longrightarrow> invar (snd (api_Put api r ips w))"
    and put_stored: "invar w \<Longrightarrow> stored (snd (api_Put api r ips w)) =
      (if fst (api_Put api r ips w) = None then (stored w)(ident r \<mapsto> set ips) else stored w)"
    and match_invar: "invar w \<Longrightarrow> invar (snd (api_PutWithIfMatch api r ips etag w))"
    and match_stored: "invar w \<Longrightarrow> stored (snd (api_PutWithIfMatch api r ips etag w)) =
      (if fst (api_PutWithIfMatch api r ips etag w) = None then (stored w)(ident r \<mapsto> set ips) else stored w)"
    and match_absent: "invar w \<Longrightarrow> fst (api_PutWithIfMatch api r ips etag w) = Some e \<Longrightarrow> IsNotFound e \<Longrightarrow>
      stored w (ident r) = None"
    and delete_invar: "invar w \<Longrightarrow> invar (snd (api_Delete api r w))"
    and delete_stored: "invar w \<Longrightarrow> stored (snd (api_Delete api r w)) =
      (if fst (api_Delete api r w) = None then (stored w)(ident r := None) else stored w)"

text \<open>
  What the reconciler needs on top: reads never return a nil set without an error, a listing
  shows every prefix set of the group under a name that differs at most in case, and a deletion
  answers \<open>ErrNotFound\<close> only when nothing is stored.
\<close>

locale prefix_set_service = prefix_set_store +
  assumes get_not_nil: "invar w \<Longrightarrow> fst (api_Get api r w) \<noteq> Inr None"
    and list_keeps: "invar w \<Longrightarrow> invar (snd (api_List api g w)) \<and> stored (snd (api_List api g w)) = stored w"
    and list_complete: "invar w \<Longrightarrow> fst (api_List api (sub, rg, asg) w) = Inr sets \<Longrightarrow> stored w (ident (sub, rg, asg, name)) \<noteq> None \<Longrightarrow>
      \<exists>s \<in> set sets. \<exists>n. aps_Name s = Some n \<and> EqualFold n name \<and> ident (sub, rg, asg, n) = ident (sub, rg, asg, name)"
    and delete_absent: "invar w \<Longrightarrow> fst (api_Delete api r w) = Some e \<Longrightarrow> IsNotFound e \<Longrightarrow> stored w (ident r) = None"

end
