(* ===== verification/Fake_Client.thy ===== *)
theory Fake_Client
  imports Prefix_Set_Api
begin

text \<open>
  The in-memory client (\<open>internal/azure/fake/fake_client.go\<close>): a store of prefix sets with
  ETags and versions, error injection, and the factory. It satisfies the contract
  \<open>prefix_set_store\<close>, whatever errors are injected. Methods hold the client's mutex and are
  single steps. A resource key joins the four names with slashes.
\<close>

datatype Operation = OperationGet | OperationPut | OperationDelete | OperationList

record InjectKey =
  ik_Operation :: Operation
  ik_SubscriptionID :: string
  ik_ResourceGroup :: string
  ik_ASGName :: string
  ik_PrefixSetName :: string

definition resourceKey :: "resource \<Rightarrow> string" where
  "resourceKey r = (case r of (subscriptionID, resourceGroup, asgName, prefixSetName) \<Rightarrow>
     subscriptionID @ ''/'' @ resourceGroup @ ''/'' @ asgName @ ''/'' @ prefixSetName)"

record PrefixSetEntry =
  pse_IPs :: "string list"
  pse_ETag :: string
  pse_Version :: int

record Client =
  cl_store :: "(string, PrefixSetEntry) gomap"
  cl_Fail412Count :: int
  cl_fail412Calls :: int
  cl_injectedErrors :: "(InjectKey, goerror list) gomap"
  cl_getCallCount :: int

definition NewClient :: Client where
  "NewClient = \<lparr>cl_store = [], cl_Fail412Count = 0, cl_fail412Calls = 0, cl_injectedErrors = [], cl_getCallCount = 0\<rparr>"

definition InjectError :: "Client \<Rightarrow> InjectKey \<Rightarrow> goerror \<Rightarrow> int \<Rightarrow> Client" where
  "InjectError c key err count =
     (if count > 0
      then c\<lparr>cl_injectedErrors := gput key (gget_or [] (cl_injectedErrors c) key @ replicate (nat count) err)
               (cl_injectedErrors c)\<rparr>
      else c)"

definition ClearInjectedErrors :: "Client \<Rightarrow> Client" where
  "ClearInjectedErrors c = c\<lparr>cl_injectedErrors := []\<rparr>"

definition GetCallCount :: "Client \<Rightarrow> int" where
  "GetCallCount c = cl_getCallCount c"

definition ResetGetCallCount :: "Client \<Rightarrow> int \<times> Client" where
  "ResetGetCallCount c = (cl_getCallCount c, c\<lparr>cl_getCallCount := 0\<rparr>)"

definition PeekPrefixes :: "Client \<Rightarrow> resource \<Rightarrow> string list option" where
  "PeekPrefixes c r = map_option pse_IPs (gget (cl_store c) (resourceKey r))"

definition consumeInjectedError :: "InjectKey \<Rightarrow> Client \<Rightarrow> goerror option \<times> Client" where
  "consumeInjectedError key c =
     (case gget_or [] (cl_injectedErrors c) key of
        [] \<Rightarrow> (None, c)
      | e # es \<Rightarrow>
          (Some e, c\<lparr>cl_injectedErrors := (if es = [] then gdel key (cl_injectedErrors c)
                                             else gput key es (cl_injectedErrors c))\<rparr>))"

definition inject_key :: "Operation \<Rightarrow> resource \<Rightarrow> InjectKey" where
  "inject_key oper r = (case r of (sub, rg, asg, psn) \<Rightarrow>
     \<lparr>ik_Operation = oper, ik_SubscriptionID = sub, ik_ResourceGroup = rg, ik_ASGName = asg, ik_PrefixSetName = psn\<rparr>)"

definition Client_Get :: "resource \<Rightarrow> Client \<Rightarrow> (goerror + AddressPrefixSet option) \<times> Client" where
  "Client_Get r c =
     (let c = c\<lparr>cl_getCallCount := cl_getCallCount c + 1\<rparr>;
          (injErr, c) = consumeInjectedError (inject_key OperationGet r) c
      in case injErr of
           Some e \<Rightarrow> (Inl e, c)
         | None \<Rightarrow>
             (case gget (cl_store c) (resourceKey r) of
                None \<Rightarrow> (Inl ErrNotFound, c)
              | Some entry \<Rightarrow>
                  (Inr (Some \<lparr>aps_ID = None, aps_Name = Some (snd (snd (snd r))), aps_Etag = Some (pse_ETag entry), aps_Type = None,
      aps_Properties = Some \<lparr>psp_AddressPrefixes = pse_IPs entry, psp_ProvisioningState = None\<rparr>\<rparr>), c)))"

definition etag_text :: "int \<Rightarrow> string" where
  "etag_text version = [CHR 0x22] @ ''v-'' @ show_int version @ [CHR 0x22]"

definition etag_mismatch :: goerror where
  "etag_mismatch = ARMError \<lparr>arm_StatusCode = 412, arm_ARMCode = ''PreconditionFailed'', arm_Message = ''etag mismatch'',
     arm_Operation = ARMOperationOther [], arm_RequestURL = [], arm_RetryAfter = 0\<rparr>"

definition Client_Put :: "resource \<Rightarrow> string list \<Rightarrow> Client \<Rightarrow> goerror option \<times> Client" where
  "Client_Put r ips c =
     (let (injErr, c) = consumeInjectedError (inject_key OperationPut r) c in
      case injErr of
        Some e \<Rightarrow> (Some e, c)
      | None \<Rightarrow>
          let c = c\<lparr>cl_fail412Calls := cl_fail412Calls c + 1\<rparr> in
          if cl_fail412Calls c \<le> cl_Fail412Count c then (Some etag_mismatch, c)
          else
            let version = (case gget (cl_store c) (resourceKey r) of None \<Rightarrow> 0 | Some entry \<Rightarrow> pse_Version entry) + 1
            in (None, c\<lparr>cl_store := gput (resourceKey r)
                          \<lparr>pse_IPs = ips, pse_ETag = etag_text version, pse_Version = version\<rparr> (cl_store c)\<rparr>))"

definition Client_Delete :: "resource \<Rightarrow> Client \<Rightarrow> goerror option \<times> Client" where
  "Client_Delete r c =
     (let (injErr, c) = consumeInjectedError (inject_key OperationDelete r) c in
      case injErr of
        Some e \<Rightarrow> (Some e, c)
      | None \<Rightarrow> (None, c\<lparr>cl_store := gdel (resourceKey r) (cl_store c)\<rparr>))"

definition Client_List :: "string \<times> string \<times> string \<Rightarrow> Client \<Rightarrow> (goerror + AddressPrefixSet list) \<times> Client" where
  "Client_List asg c =
     (case asg of (sub, rg, name) \<Rightarrow>
        let (injErr, c) = consumeInjectedError (inject_key OperationList (sub, rg, name, [])) c in
        case injErr of
          Some e \<Rightarrow> (Inl e, c)
        | None \<Rightarrow>
            let prefix = sub @ ''/'' @ rg @ ''/'' @ name @ ''/'' in
            (Inr (map (\<lambda>(k, entry). \<lparr>aps_ID = None, aps_Name = Some (drop (length prefix) k), aps_Etag = Some (pse_ETag entry), aps_Type = None,
      aps_Properties = Some \<lparr>psp_AddressPrefixes = pse_IPs entry, psp_ProvisioningState = None\<rparr>\<rparr>)
                    (filter (\<lambda>(k, entry). HasPrefix k prefix) (cl_store c))), c))"

definition Client_GetWithETag :: "resource \<Rightarrow> Client \<Rightarrow> (goerror + AddressPrefixSet option \<times> string) \<times> Client" where
  "Client_GetWithETag r c =
     (case Client_Get r c of
        (Inl e, c) \<Rightarrow> (Inl e, c)
      | (Inr None, c) \<Rightarrow> (Inr (None, []), c)
      | (Inr (Some s), c) \<Rightarrow> (Inr (Some s, (case aps_Etag s of None \<Rightarrow> [] | Some t \<Rightarrow> t)), c))"

definition Client_PutWithIfMatch :: "resource \<Rightarrow> string list \<Rightarrow> string \<Rightarrow> Client \<Rightarrow> goerror option \<times> Client" where
  "Client_PutWithIfMatch r ips etag c =
     (case gget (cl_store c) (resourceKey r) of
        None \<Rightarrow> (Some ErrNotFound, c)
      | Some entry \<Rightarrow>
          if pse_ETag entry \<noteq> etag then (Some etag_mismatch, c)
          else
            let version = pse_Version entry + 1 in
            (None, c\<lparr>cl_store := gput (resourceKey r)
                       \<lparr>pse_IPs = ips, pse_ETag = etag_text version, pse_Version = version\<rparr> (cl_store c)\<rparr>))"

definition fake_api :: "Client AddressPrefixSetAPI" where
  "fake_api = \<lparr>api_Get = Client_Get, api_GetWithETag = Client_GetWithETag, api_Put = Client_Put,
     api_PutWithIfMatch = Client_PutWithIfMatch, api_Delete = Client_Delete, api_List = Client_List\<rparr>"

section \<open>The factory\<close>

text \<open>
  The factory maps subscriptions to clients. Go shares a client by pointer; here the map holds
  its state, and a caller stores the state back after use.
\<close>

type_synonym ClientFactory = "(string, Client) gomap"

definition NewClientFactory :: ClientFactory where
  "NewClientFactory = []"

definition RegisterClient :: "ClientFactory \<Rightarrow> string \<Rightarrow> Client \<Rightarrow> ClientFactory" where
  "RegisterClient f subscriptionID client = gput subscriptionID client f"

definition ForSubscription :: "ClientFactory \<Rightarrow> string \<Rightarrow> goerror + Client" where
  "ForSubscription f subscriptionID =
     (case gget f subscriptionID of
        None \<Rightarrow> Inl (OtherError (''no client for subscription '' @ [CHR 0x22] @ subscriptionID @ [CHR 0x22]))
      | Some client \<Rightarrow> Inr client)"

section \<open>The contract holds\<close>

definition fake_stored :: "Client \<Rightarrow> string \<Rightarrow> string set option" where
  "fake_stored c key = map_option (\<lambda>e. set (pse_IPs e)) (gget (cl_store c) key)"

lemma consume_store [simp]: "cl_store (snd (consumeInjectedError key c)) = cl_store c"
  by (simp add: consumeInjectedError_def split: list.splits)

lemma consume_store_pair: "consumeInjectedError key c = (e, c') \<Longrightarrow> cl_store c' = cl_store c"
  using consume_store [of key c] by simp

text \<open>
  Reads answer \<open>ErrNotFound\<close> truthfully as long as no such error is injected into them.
\<close>

definition honest :: "Client \<Rightarrow> bool" where
  "honest c \<longleftrightarrow> (\<forall>key. \<forall>e \<in> set (gget_or [] (cl_injectedErrors c) key). \<not> IsNotFound e)"

lemma honest_consume:
  assumes "honest c"
  shows "honest (snd (consumeInjectedError key c))"
    and "fst (consumeInjectedError key c) = Some e \<Longrightarrow> \<not> IsNotFound e"
  using assms unfolding honest_def consumeInjectedError_def
  by (auto simp: gget_or_def split: list.splits option.splits if_splits) (metis list.set_intros)+

lemma honest_update [simp]:
  "honest (c\<lparr>cl_store := st\<rparr>) = honest c" "honest (c\<lparr>cl_getCallCount := n\<rparr>) = honest c"
  "honest (c\<lparr>cl_fail412Calls := n\<rparr>) = honest c"
  by (simp_all add: honest_def)

lemma honest_NewClient: "honest NewClient"
  by (simp add: honest_def NewClient_def)

lemma fake_stored_update [simp]:
  "fake_stored (c\<lparr>cl_getCallCount := n\<rparr>) = fake_stored c" "fake_stored (c\<lparr>cl_fail412Calls := n\<rparr>) = fake_stored c"
  "fake_stored (snd (consumeInjectedError key c)) = fake_stored c"
  "fake_stored (c\<lparr>cl_store := gput k e (cl_store c)\<rparr>) = (fake_stored c)(k \<mapsto> set (pse_IPs e))"
  "fake_stored (c\<lparr>cl_store := gdel k (cl_store c)\<rparr>) = (fake_stored c)(k := None)"
  by (auto simp: fake_stored_def fun_eq_iff)

lemma Client_Get_keeps: "honest c \<Longrightarrow> honest (snd (Client_Get r c)) \<and> fake_stored (snd (Client_Get r c)) = fake_stored c"
  using honest_consume(1) [of "c\<lparr>cl_getCallCount := cl_getCallCount c + 1\<rparr>" "inject_key OperationGet r"]
  by (auto simp: Client_Get_def Let_def split_beta split: option.splits)

lemma Client_Get_value:
  "fst (Client_Get r c) = Inr s \<Longrightarrow> fake_stored c (resourceKey r) = map_option (\<lambda>s. set (prefixes_of s)) s"
  by (auto simp: Client_Get_def Let_def split_beta fake_stored_def prefixes_of_def split: option.splits)

lemma Client_Get_absent:
  "honest c \<Longrightarrow> fst (Client_Get r c) = Inl e \<Longrightarrow> IsNotFound e \<Longrightarrow> fake_stored c (resourceKey r) = None"
  using honest_consume(2) [of "c\<lparr>cl_getCallCount := cl_getCallCount c + 1\<rparr>" "inject_key OperationGet r" e]
  by (auto simp: Client_Get_def Let_def split_beta fake_stored_def split: option.splits)

lemma Client_GetWithETag_eq:
  "snd (Client_GetWithETag r c) = snd (Client_Get r c)"
  "fst (Client_GetWithETag r c) = Inl e \<longleftrightarrow> fst (Client_Get r c) = Inl e"
  "fst (Client_GetWithETag r c) = Inr (s, etag) \<Longrightarrow> fst (Client_Get r c) = Inr s"
  by (auto simp: Client_GetWithETag_def split: prod.splits sum.splits option.splits)

lemma Client_Put_laws:
  assumes "honest c"
  shows "honest (snd (Client_Put r ips c))"
    and "fake_stored (snd (Client_Put r ips c)) =
      (if fst (Client_Put r ips c) = None then (fake_stored c)(resourceKey r \<mapsto> set ips) else fake_stored c)"
  using honest_consume(1) [OF assms, of "inject_key OperationPut r"]
  by (auto simp: Client_Put_def Let_def split_beta fake_stored_def fun_eq_iff split: option.splits)

lemma Client_Delete_laws:
  assumes "honest c"
  shows "honest (snd (Client_Delete r c))"
    and "fake_stored (snd (Client_Delete r c)) =
      (if fst (Client_Delete r c) = None then (fake_stored c)(resourceKey r := None) else fake_stored c)"
  using honest_consume(1) [OF assms, of "inject_key OperationDelete r"]
  by (auto simp: Client_Delete_def Let_def split_beta fake_stored_def fun_eq_iff split: option.splits)

lemma etag_mismatch_412 [simp]: "\<not> IsNotFound etag_mismatch" "IsPreconditionFailed etag_mismatch"
  by (simp_all add: etag_mismatch_def IsPreconditionFailed_def)

lemma Client_PutWithIfMatch_laws:
  "honest c \<Longrightarrow> honest (snd (Client_PutWithIfMatch r ips etag c))"
  "fake_stored (snd (Client_PutWithIfMatch r ips etag c)) =
      (if fst (Client_PutWithIfMatch r ips etag c) = None then (fake_stored c)(resourceKey r \<mapsto> set ips) else fake_stored c)"
  "fst (Client_PutWithIfMatch r ips etag c) = Some e \<Longrightarrow> IsNotFound e \<Longrightarrow> fake_stored c (resourceKey r) = None"
  by (auto simp: Client_PutWithIfMatch_def Let_def fake_stored_def fun_eq_iff split: option.splits if_splits)

lemma Client_Get_not_nil: "fst (Client_Get r c) \<noteq> Inr None"
  by (auto simp: Client_Get_def Let_def split_beta split: option.splits)

lemma Client_List_keeps: "honest c \<Longrightarrow> honest (snd (Client_List g c)) \<and> fake_stored (snd (Client_List g c)) = fake_stored c"
  using honest_consume(1) [of c]
  by (auto simp: Client_List_def Let_def split_beta split: option.splits prod.splits)

lemma HasPrefix_append: "HasPrefix (p @ s) p"
  by (simp add: HasPrefix_def)

lemma listed_name:
  assumes "(p @ name, e) \<in> set xs"
    and "sets = map (\<lambda>(k, entry). \<lparr>aps_ID = None, aps_Name = Some (drop (length p) k), aps_Etag = Some (pse_ETag entry), aps_Type = None,
      aps_Properties = Some \<lparr>psp_AddressPrefixes = pse_IPs entry, psp_ProvisioningState = None\<rparr>\<rparr>) xs"
  shows "\<exists>s \<in> set sets. aps_Name s = Some name"
  using assms by (auto intro!: bexI [of _ "(p @ name, e)"])

lemma Client_List_complete:
  assumes "fst (Client_List (sub, rg, asg) c) = Inr sets" and "fake_stored c (resourceKey (sub, rg, asg, name)) \<noteq> None"
  shows "\<exists>s \<in> set sets. aps_Name s = Some name"
proof -
  let ?p = "sub @ ''/'' @ rg @ ''/'' @ asg @ ''/''"
  obtain e where "gget (cl_store c) (?p @ name) = Some e" using assms(2) by (auto simp: fake_stored_def resourceKey_def)
  then have "(?p @ name, e) \<in> set (cl_store c)" by (rule gget_in_set)
  moreover have "HasPrefix (?p @ name) ?p" by (rule HasPrefix_append)
  ultimately have "(?p @ name, e) \<in> set (filter (\<lambda>(k, entry). HasPrefix k ?p) (cl_store c))" by simp
  moreover have "sets = map (\<lambda>(k, entry). \<lparr>aps_ID = None, aps_Name = Some (drop (length ?p) k), aps_Etag = Some (pse_ETag entry), aps_Type = None,
      aps_Properties = Some \<lparr>psp_AddressPrefixes = pse_IPs entry, psp_ProvisioningState = None\<rparr>\<rparr>) (filter (\<lambda>(k, entry). HasPrefix k ?p) (cl_store c))"
    using assms(1) by (auto simp: Client_List_def Let_def split_beta split: option.splits)
  ultimately show ?thesis by (rule listed_name)
qed

lemma Client_Delete_absent: "honest c \<Longrightarrow> fst (Client_Delete r c) = Some e \<Longrightarrow> \<not> IsNotFound e"
  using honest_consume(2) [of c "inject_key OperationDelete r" e]
  by (auto simp: Client_Delete_def Let_def split_beta split: option.splits)

interpretation fake: prefix_set_service fake_api honest resourceKey fake_stored
proof
  fix c sub rg asg sets name
  assume "fst (api_List fake_api (sub, rg, asg) c) = Inr sets" "fake_stored c (resourceKey (sub, rg, asg, name)) \<noteq> None"
  then show "\<exists>s \<in> set sets. \<exists>n. aps_Name s = Some n \<and> EqualFold n name \<and> resourceKey (sub, rg, asg, n) = resourceKey (sub, rg, asg, name)"
    using Client_List_complete [of sub rg asg c sets name] by (auto simp: fake_api_def EqualFold_def)
qed (auto simp: fake_api_def Client_Get_keeps Client_Get_value Client_GetWithETag_eq Client_Put_laws Client_Delete_laws
      Client_PutWithIfMatch_laws Client_Get_not_nil Client_List_keeps dest: Client_Get_absent Client_GetWithETag_eq(3) Client_Get_value
      Client_PutWithIfMatch_laws(3) Client_Delete_absent)

end
