(* ===== verification/Executor.thy ===== *)
theory Executor
  imports Diff Fake_Client
begin

text \<open>
  The executor (\<open>internal/azure/executor.go\<close>): runs actions against a client, retries ETag
  conflicts by recomputing the action, and returns the results in input order.

  \<open>ctx\<close> is \<open>ctx.Err()\<close> in a state, \<open>clock\<close> is \<open>time.Now()\<close>. The goroutines of \<open>Execute\<close> are
  run in the order of a schedule; whether a goroutine that finds the context cancelled and the
  semaphore free takes the semaphore is a choice of Go's \<open>select\<close>, the argument \<open>pick\<close>. A whole
  action is one step of the schedule. Logging is left out; the metrics are in \<open>Arm_Metrics\<close>.
\<close>

record ActionResult =
  ar_Action :: Action
  ar_Success :: bool
  ar_Err :: "goerror option"
  ar_CompletedAt :: gotime
  ar_NoOp :: bool
  ar_FinalActionKind :: ActionKind

record executionOutcome =
  eo_err :: "goerror option"
  eo_noOp :: bool
  eo_finalActionKind :: ActionKind

fun armOperation :: "ActionKind \<Rightarrow> ARMOperation" where
  "armOperation CreatePrefixSet = ARMOperationPutPrefixSet"
| "armOperation UpdatePrefixSet = ARMOperationPutPrefixSet"
| "armOperation PatchPrefixSet = ARMOperationPutPrefixSet"
| "armOperation DeletePrefixSet = ARMOperationDeletePrefixSet"
| "armOperation (OtherActionKind _) = ARMOperationOther ''Unknown''"

fun metricOperationLabel :: "ActionKind \<Rightarrow> string" where
  "metricOperationLabel CreatePrefixSet = ''PUT''"
| "metricOperationLabel UpdatePrefixSet = ''PUT''"
| "metricOperationLabel PatchPrefixSet = ''PUT''"
| "metricOperationLabel DeletePrefixSet = ''DELETE''"
| "metricOperationLabel (OtherActionKind _) = ''UNKNOWN''"

record Executor =
  ex_maxParallel :: int
  ex_maxRetries :: int
  ex_patchThresholdPercent :: int

text \<open>\<open>NewExecutor\<close> before its options are applied.\<close>

definition NewExecutor :: "int \<Rightarrow> Executor" where
  "NewExecutor maxParallel =
     \<lparr>ex_maxParallel = (if maxParallel < 1 then 1 else maxParallel), ex_maxRetries = 3,
      ex_patchThresholdPercent = DefaultPatchThresholdPercent\<rparr>"

definition SetMaxParallel :: "Executor \<Rightarrow> int \<Rightarrow> goerror + Executor" where
  "SetMaxParallel e v =
     (if v < 1 then Inl (OtherError (''SetMaxParallel: value must be >= 1, got '' @ show_int v))
      else Inr (e\<lparr>ex_maxParallel := v\<rparr>))"

definition MaxParallel :: "Executor \<Rightarrow> int" where
  "MaxParallel e = ex_maxParallel e"

definition target_resource :: "ASGTarget \<Rightarrow> resource" where
  "target_resource t = (tgt_SubscriptionID t, tgt_ResourceGroup t, tgt_ASGName t, tgt_PrefixSetName t)"

definition applyPatchDelta :: "string list \<Rightarrow> string list \<Rightarrow> string list \<Rightarrow> string list" where
  "applyPatchDelta current addIPs removeIPs =
     sort (fold sadd addIPs (fold sdel removeIPs (set_of_slice current)))"

definition executePatchAction :: "'w AddressPrefixSetAPI \<Rightarrow> Action \<Rightarrow> 'w \<Rightarrow> goerror option \<times> 'w" where
  "executePatchAction client action w =
     (let r = target_resource (act_Target action) in
      case api_GetWithETag client r w of
        (Inl err, w) \<Rightarrow> (Some err, w)
      | (Inr (None, etag), w) \<Rightarrow> (Some ErrNotFound, w)
      | (Inr (Some current, etag), w) \<Rightarrow>
          api_PutWithIfMatch client r
            (applyPatchDelta (prefixes_of current) (act_AddIPs action) (act_RemoveIPs action)) etag w)"

text \<open>The text of an action kind (\<open>%s\<close>).\<close>

fun kind_text :: "ActionKind \<Rightarrow> string" where
  "kind_text CreatePrefixSet = ''CreatePrefixSet''"
| "kind_text UpdatePrefixSet = ''UpdatePrefixSet''"
| "kind_text PatchPrefixSet = ''PatchPrefixSet''"
| "kind_text DeletePrefixSet = ''DeletePrefixSet''"
| "kind_text (OtherActionKind s) = s"

definition executeAction :: "'w AddressPrefixSetAPI \<Rightarrow> Action \<Rightarrow> 'w \<Rightarrow> goerror option \<times> 'w" where
  "executeAction client action w =
     (let r = target_resource (act_Target action) in
      case act_Kind action of
        CreatePrefixSet \<Rightarrow> api_Put client r (act_DesiredIPs action) w
      | UpdatePrefixSet \<Rightarrow> api_Put client r (act_DesiredIPs action) w
      | PatchPrefixSet \<Rightarrow> executePatchAction client action w
      | DeletePrefixSet \<Rightarrow> api_Delete client r w
      | OtherActionKind s \<Rightarrow> (Some (OtherError (''unknown action kind: '' @ s)), w))"

definition buildSingleTargetDesired :: "Action \<Rightarrow> desired_state" where
  "buildSingleTargetDesired action =
     (if act_Kind action = DeletePrefixSet then []
      else if act_Kind action = PatchPrefixSet \<and> act_DesiredIPs action = [] then []
      else [(act_Target action, set_of_slice (act_DesiredIPs action))])"

definition buildSingleTargetActual :: "Action \<Rightarrow> AddressPrefixSet option \<Rightarrow> goerror option \<Rightarrow> goerror + actual_state" where
  "buildSingleTargetActual action current getErr =
     (case getErr of
        Some err \<Rightarrow> if errors_Is err ErrNotFound then Inr [] else Inl (Wrapped ''Get failed'' err)
      | None \<Rightarrow>
          (case current of
             None \<Rightarrow> Inr []
           | Some s \<Rightarrow> Inr [(act_Target action, set_of_slice (prefixes_of s))]))"

text \<open>The result is the next action, or \<open>None\<close> when the target has converged.\<close>

definition recomputeSingleTargetActionViaDiff :: "Executor \<Rightarrow> Action \<Rightarrow> AddressPrefixSet option \<Rightarrow>
    goerror option \<Rightarrow> goerror + Action option" where
  "recomputeSingleTargetActionViaDiff e action current getErr =
     (case buildSingleTargetActual action current getErr of
        Inl err \<Rightarrow> Inl (Wrapped ''building actual state'' err)
      | Inr actual \<Rightarrow>
          (case ComputeDiff (buildSingleTargetDesired action) actual (ex_patchThresholdPercent e) of
             [] \<Rightarrow> Inr None
           | [next] \<Rightarrow> Inr (Some next)
           | actions \<Rightarrow> Inl (OtherError (''recompute produced '' @ show_nat (length actions) @ '' actions, expected 0 or 1''))))"

text \<open>\<open>current, getErr := client.Get(...)\<close>: the two results of a read.\<close>

definition got_current :: "goerror + AddressPrefixSet option \<Rightarrow> AddressPrefixSet option" where
  "got_current got = (case got of Inl err \<Rightarrow> None | Inr s \<Rightarrow> s)"

definition got_err :: "goerror + AddressPrefixSet option \<Rightarrow> goerror option" where
  "got_err got = (case got of Inl err \<Rightarrow> Some err | Inr s \<Rightarrow> None)"

text \<open>
  The loop of \<open>executeWithETagRetry\<close>: the first argument counts the attempts left, so that the
  last attempt has one left; \<open>err\<close> is the error of the previous attempt.
\<close>

fun etag_retry_loop :: "nat \<Rightarrow> Executor \<Rightarrow> ('w \<Rightarrow> goerror option) \<Rightarrow> 'w AddressPrefixSetAPI \<Rightarrow> Action \<Rightarrow> ActionKind \<Rightarrow>
    goerror option \<Rightarrow> 'w \<Rightarrow> executionOutcome \<times> 'w" where
  "etag_retry_loop 0 e ctx client action finalKind err w =
     (\<lparr>eo_err = err, eo_noOp = False, eo_finalActionKind = finalKind\<rparr>, w)"
| "etag_retry_loop (Suc n) e ctx client action finalKind err0 w =
     (case ctx w of
        Some cerr \<Rightarrow> (\<lparr>eo_err = Some cerr, eo_noOp = False, eo_finalActionKind = finalKind\<rparr>, w)
      | None \<Rightarrow>
          (case executeAction client action w of
             (None, w) \<Rightarrow> (\<lparr>eo_err = None, eo_noOp = False, eo_finalActionKind = finalKind\<rparr>, w)
           | (Some err, w) \<Rightarrow>
               if act_Kind action = PatchPrefixSet \<and> IsNotFound err then
                 (case recomputeSingleTargetActionViaDiff e action None (Some ErrNotFound) of
                    Inl rerr \<Rightarrow> (\<lparr>eo_err = Some (Wrapped ''patch recompute after not-found'' rerr), eo_noOp = False,
                                  eo_finalActionKind = finalKind\<rparr>, w)
                  | Inr None \<Rightarrow> (\<lparr>eo_err = None, eo_noOp = True, eo_finalActionKind = finalKind\<rparr>, w)
                  | Inr (Some next) \<Rightarrow> etag_retry_loop n e ctx client next (act_Kind next) (Some err) w)
               else if \<not> IsPreconditionFailed err then
                 (\<lparr>eo_err = Some err, eo_noOp = False, eo_finalActionKind = finalKind\<rparr>, w)
               else if n = 0 then
                 (\<lparr>eo_err = Some err, eo_noOp = False, eo_finalActionKind = finalKind\<rparr>, w)
               else
                 (case ctx w of
                    Some cerr \<Rightarrow> (\<lparr>eo_err = Some cerr, eo_noOp = False, eo_finalActionKind = finalKind\<rparr>, w)
                  | None \<Rightarrow>
                      let (got, w) = api_Get client (target_resource (act_Target action)) w in
                      case recomputeSingleTargetActionViaDiff e action (got_current got) (got_err got) of
                           Inl rerr \<Rightarrow> (\<lparr>eo_err = Some (Wrapped ''recompute after 412'' rerr), eo_noOp = False,
                                         eo_finalActionKind = finalKind\<rparr>, w)
                         | Inr None \<Rightarrow> (\<lparr>eo_err = None, eo_noOp = True, eo_finalActionKind = finalKind\<rparr>, w)
                         | Inr (Some next) \<Rightarrow> etag_retry_loop n e ctx client next (act_Kind next) (Some err) w)))"

definition executeWithETagRetry :: "Executor \<Rightarrow> ('w \<Rightarrow> goerror option) \<Rightarrow> 'w AddressPrefixSetAPI \<Rightarrow> Action \<Rightarrow> 'w \<Rightarrow>
    executionOutcome \<times> 'w" where
  "executeWithETagRetry e ctx client action w =
     etag_retry_loop (nat (ex_maxRetries e)) e ctx client action (act_Kind action) None w"

section \<open>\<open>Execute\<close>\<close>

record 'w exec_env =
  env_ctx :: "'w \<Rightarrow> goerror option"
  env_clock :: "'w \<Rightarrow> gotime"
  env_factory :: "string \<Rightarrow> goerror + 'w AddressPrefixSetAPI"
  env_pick :: "nat \<Rightarrow> bool"

definition failed_result :: "Action \<Rightarrow> goerror \<Rightarrow> ActionResult" where
  "failed_result act err = \<lparr>ar_Action = act, ar_Success = False, ar_Err = Some err, ar_CompletedAt = 0, ar_NoOp = False,
     ar_FinalActionKind = OtherActionKind []\<rparr>"

definition run_action :: "Executor \<Rightarrow> 'w exec_env \<Rightarrow> Action \<Rightarrow> 'w \<Rightarrow> ActionResult \<times> 'w" where
  "run_action e env act w =
     (case env_factory env (tgt_SubscriptionID (act_Target act)) of
        Inl err \<Rightarrow> (failed_result act (Wrapped ''getting client'' err), w)
      | Inr client \<Rightarrow>
          let (outcome, w) = executeWithETagRetry e (env_ctx env) client act w in
          (\<lparr>ar_Action = act, ar_Success = (eo_err outcome = None), ar_Err = eo_err outcome,
            ar_CompletedAt = env_clock env w, ar_NoOp = eo_noOp outcome,
            ar_FinalActionKind = eo_finalActionKind outcome\<rparr>, w))"

definition execute_one :: "Executor \<Rightarrow> 'w exec_env \<Rightarrow> nat \<Rightarrow> Action \<Rightarrow> 'w \<Rightarrow> ActionResult \<times> 'w" where
  "execute_one e env idx act w =
     (case env_ctx env w of
        Some cerr \<Rightarrow> if env_pick env idx then run_action e env act w else (failed_result act cerr, w)
      | None \<Rightarrow> run_action e env act w)"

text \<open>A result slot that no goroutine has written yet.\<close>

definition zero_result :: ActionResult where
  "zero_result = \<lparr>ar_Action = \<lparr>act_Kind = OtherActionKind [], act_Target = \<lparr>tgt_SubscriptionID = [], tgt_ResourceGroup = [],
     tgt_ASGName = [], tgt_FullResourceID = [], tgt_PrefixSetName = []\<rparr>, act_DesiredIPs = [], act_AddIPs = [],
     act_RemoveIPs = []\<rparr>, ar_Success = False, ar_Err = None, ar_CompletedAt = 0, ar_NoOp = False,
     ar_FinalActionKind = OtherActionKind []\<rparr>"

definition Execute :: "Executor \<Rightarrow> 'w exec_env \<Rightarrow> nat list \<Rightarrow> Action list \<Rightarrow> 'w \<Rightarrow> ActionResult list \<times> 'w" where
  "Execute e env schedule actions w =
     fold (\<lambda>idx (results, w).
             let (r, w) = execute_one e env idx (actions ! idx) w in (results[idx := r], w))
       schedule (replicate (length actions) zero_result, w)"

section \<open>Specification\<close>

text \<open>What an action is to leave under its target.\<close>

definition goal :: "Action \<Rightarrow> string set option" where
  "goal a = (if act_Kind a = DeletePrefixSet then None else Some (set (act_DesiredIPs a)))"

text \<open>
  The actions \<open>ComputeDiff\<close> makes for a target with stored prefixes \<open>s\<close>: a known kind, a
  nonempty desired set unless it deletes, and, for a patch of something stored, a delta that
  leads to the desired set.
\<close>

definition fits :: "Action \<Rightarrow> string set option \<Rightarrow> bool" where
  "fits a s \<longleftrightarrow> act_Kind a \<in> {CreatePrefixSet, UpdatePrefixSet, PatchPrefixSet, DeletePrefixSet} \<and>
     (act_Kind a \<noteq> DeletePrefixSet \<longrightarrow> act_DesiredIPs a \<noteq> []) \<and>
     (act_Kind a = PatchPrefixSet \<and> s \<noteq> None \<longrightarrow> action_effect a s = goal a)"

section \<open>Recomputing one target\<close>

lemma wf_single: "wf_state [(t, set_of_slice ips)]" "wf_state []"
  by (simp_all add: wf_state_def)

lemma view_single: "view [(t, ips)] k = (if k = targetKey t then Some (set ips) else None)" "view [] k = None"
  by (simp_all add: view_def byKey_def)

lemma build_desired_view:
  "fits a s \<Longrightarrow> wf_state (buildSingleTargetDesired a) \<and> view (buildSingleTargetDesired a) (targetKey (act_Target a)) = goal a \<and>
     (k \<noteq> targetKey (act_Target a) \<longrightarrow> view (buildSingleTargetDesired a) k = None)"
  by (auto simp: buildSingleTargetDesired_def fits_def goal_def wf_single view_single)

lemma build_actual_view:
  "buildSingleTargetActual a cur getErr = Inr actual \<Longrightarrow>
     wf_state actual \<and> (k \<noteq> targetKey (act_Target a) \<longrightarrow> view actual k = None) \<and> (\<forall>t \<in> set (gkeys actual). t = act_Target a)"
  by (auto simp: buildSingleTargetActual_def wf_single view_single split: option.splits if_splits)

lemma single_diff_key:
  assumes "fits a s" and "buildSingleTargetActual a cur getErr = Inr actual"
    and "x \<in> set (ComputeDiff (buildSingleTargetDesired a) actual th)"
  shows "actionKey x = targetKey (act_Target a)"
proof (rule ccontr)
  assume "actionKey x \<noteq> targetKey (act_Target a)"
  then have "view actual (actionKey x) = view (buildSingleTargetDesired a) (actionKey x)"
    using build_desired_view [OF assms(1), of "actionKey x"] build_actual_view [OF assms(2), of "actionKey x"] by simp
  then show False
    using action_changes_view [OF _ _ assms(3)] build_desired_view [OF assms(1)] build_actual_view [OF assms(2)] by blast
qed

lemma single_diff_length:
  assumes "fits a s" and "buildSingleTargetActual a cur getErr = Inr actual"
  shows "length (ComputeDiff (buildSingleTargetDesired a) actual th) \<le> 1"
proof -
  let ?d = "ComputeDiff (buildSingleTargetDesired a) actual th"
  have "distinct (map actionKey ?d)"
    using build_desired_view [OF assms(1)] build_actual_view [OF assms(2)] by (intro ComputeDiff_distinct) blast+
  moreover have "set (map actionKey ?d) \<subseteq> {targetKey (act_Target a)}"
    using single_diff_key [OF assms] by auto
  ultimately have "length (map actionKey ?d) \<le> card {targetKey (act_Target a)}"
    by (metis card_mono distinct_card finite.emptyI finite.insertI)
  then show ?thesis by simp
qed

lemma single_diff_action:
  assumes "fits a s" and s: "buildSingleTargetActual a cur getErr = Inr actual" and v: "view actual (targetKey (act_Target a)) = s"
    and x: "x \<in> set (ComputeDiff (buildSingleTargetDesired a) actual th)"
  shows "act_Target x = act_Target a \<and> goal x = goal a \<and> fits x s"
proof -
  let ?D = "byKey (buildSingleTargetDesired a)" and ?A = "byKey actual"
  have wf: "wf_state (buildSingleTargetDesired a)" "wf_state actual"
    using build_desired_view [OF assms(1)] build_actual_view [OF s] by auto
  have eff: "action_effect x s = goal a"
    using ComputeDiff_effect [OF wf x] single_diff_key [OF assms(1) s x] build_desired_view [OF assms(1)] v by simp
  show ?thesis
    using keyed_byKey [OF wf(1)] keyed_byKey [OF wf(2)] x [unfolded ComputeDiff_set]
  proof (cases rule: unsortedDiff_cases)
    case (desired t ips)
    have D: "t = act_Target a" "ips = set_of_slice (act_DesiredIPs a)" "act_Kind a \<noteq> DeletePrefixSet"
      using desired(1) by (auto simp: buildSingleTargetDesired_def byKey_def split: if_splits)
    note c = diffDesired_cases [OF desired(2)]
    have set: "set (act_DesiredIPs x) = set (act_DesiredIPs a)" using c(2) D(2) by simp
    then have g: "goal x = goal a" using c(3) D(3) by (auto simp: goal_def)
    moreover have "fits x s" using c(3) assms(1) D(3) set eff g by (auto simp: fits_def)
    ultimately show ?thesis using c(1) D(1) by simp
  next
    case (actual t ips)
    have "t = act_Target a"
      using actual(1) s by (auto simp: buildSingleTargetActual_def byKey_def split: option.splits if_splits)
    then show ?thesis using actual(3,4) eff by (auto simp: goal_def fits_def action_effect_def)
  qed
qed


lemma recompute_cases:
  assumes "fits a s" and "buildSingleTargetActual a cur getErr = Inr actual" and "view actual (targetKey (act_Target a)) = s"
  shows "recomputeSingleTargetActionViaDiff e a cur getErr = Inr None \<Longrightarrow> s = goal a"
    and "recomputeSingleTargetActionViaDiff e a cur getErr = Inr (Some x) \<Longrightarrow>
      act_Target x = act_Target a \<and> goal x = goal a \<and> fits x s"
    and "recomputeSingleTargetActionViaDiff e a cur getErr \<noteq> Inl rerr"
proof -
  let ?d = "ComputeDiff (buildSingleTargetDesired a) actual (ex_patchThresholdPercent e)"
  have wf: "wf_state (buildSingleTargetDesired a)" "wf_state actual"
    using build_desired_view [OF assms(1)] build_actual_view [OF assms(2)] by auto
  have len: "length ?d \<le> 1" by (rule single_diff_length [OF assms(1,2)])
  show "recomputeSingleTargetActionViaDiff e a cur getErr \<noteq> Inl rerr"
    using len assms(2) by (auto simp: recomputeSingleTargetActionViaDiff_def split: list.splits)
  show "s = goal a" if "recomputeSingleTargetActionViaDiff e a cur getErr = Inr None"
  proof -
    have "?d = []" using that assms(2) by (auto simp: recomputeSingleTargetActionViaDiff_def split: list.splits)
    then have "view actual (targetKey (act_Target a)) = view (buildSingleTargetDesired a) (targetKey (act_Target a))"
      using no_action_same_view [OF wf, of "targetKey (act_Target a)" "ex_patchThresholdPercent e"] by simp
    then show ?thesis using build_desired_view [OF assms(1)] assms(3) by simp
  qed
  show "act_Target x = act_Target a \<and> goal x = goal a \<and> fits x s"
    if "recomputeSingleTargetActionViaDiff e a cur getErr = Inr (Some x)"
  proof -
    have "?d = [x]" using that assms(2) by (auto simp: recomputeSingleTargetActionViaDiff_def split: list.splits)
    then show ?thesis using single_diff_action [OF assms, of x "ex_patchThresholdPercent e"] by simp
  qed
qed

lemma set_applyPatchDelta [simp]: "set (applyPatchDelta cur add rem) = set cur - set rem \<union> set add"
proof -
  have "set (fold sdel rem xs) = set xs - set rem" for xs :: "string list"
    by (induction rem arbitrary: xs) auto
  then show ?thesis by (auto simp: applyPatchDelta_def)
qed

section \<open>The executor over a prefix set store\<close>

context prefix_set_store
begin

abbreviation target_ident :: "Action \<Rightarrow> 'k" where
  "target_ident a \<equiv> ident (target_resource (act_Target a))"

lemma patch_cases:
  assumes "invar w" and "executePatchAction api a w = (res, w')"
  shows "invar w'"
    and "res = None \<Longrightarrow> stored w' = (stored w)(target_ident a := action_effect a (stored w (target_ident a))) \<or> act_Kind a \<noteq> PatchPrefixSet"
    and "res = Some err \<Longrightarrow> stored w' = stored w"
    and "res = Some err \<Longrightarrow> IsNotFound err \<Longrightarrow> stored w (target_ident a) = None"
proof -
  let ?r = "target_resource (act_Target a)"
  obtain got w1 where g: "api_GetWithETag api ?r w = (got, w1)" by (cases "api_GetWithETag api ?r w")
  have k: "invar w1" "stored w1 = stored w" using etag_keeps [OF assms(1), of ?r] g by auto
  consider (err) e where "got = Inl e" | (nil) etag where "got = Inr (None, etag)" | (some) cur etag where "got = Inr (Some cur, etag)"
    by (metis old.sum.exhaust option.exhaust surj_pair)
  then have "invar w' \<and> (res = None \<longrightarrow> stored w' = (stored w)(target_ident a := action_effect a (stored w (target_ident a))) \<or> act_Kind a \<noteq> PatchPrefixSet) \<and>
    (\<forall>err. res = Some err \<longrightarrow> stored w' = stored w \<and> (IsNotFound err \<longrightarrow> stored w (target_ident a) = None))"
  proof cases
    case err
    then have "res = Some e" "w' = w1" using assms(2) g by (auto simp: executePatchAction_def)
    then show ?thesis using k err etag_absent [OF assms(1), of ?r e] g by auto
  next
    case nil
    then have "res = Some ErrNotFound" "w' = w1" using assms(2) g by (auto simp: executePatchAction_def)
    then show ?thesis using k nil etag_value [OF assms(1), of ?r None] g by auto
  next
    case some
    let ?ips = "applyPatchDelta (prefixes_of cur) (act_AddIPs a) (act_RemoveIPs a)"
    have p: "api_PutWithIfMatch api ?r ?ips etag w1 = (res, w')" using assms(2) g some by (auto simp: executePatchAction_def)
    have s: "stored w (target_ident a) = Some (set (prefixes_of cur))" using etag_value [OF assms(1), of ?r "Some cur"] g some by auto
    have "invar w'" using match_invar [OF k(1), of ?r ?ips etag] p by simp
    moreover have "stored w' = (if res = None then (stored w)(target_ident a \<mapsto> set ?ips) else stored w)"
      using match_stored [OF k(1), of ?r ?ips etag] p k(2) by simp
    moreover have "IsNotFound e \<Longrightarrow> res = Some e \<Longrightarrow> stored w (target_ident a) = None" for e
      using match_absent [OF k(1), of ?r ?ips etag e] p k(2) by simp
    ultimately show ?thesis using s by (auto simp: action_effect_def)
  qed
  then show "invar w'" "res = None \<Longrightarrow> stored w' = (stored w)(target_ident a := action_effect a (stored w (target_ident a))) \<or> act_Kind a \<noteq> PatchPrefixSet"
    "res = Some err \<Longrightarrow> stored w' = stored w" "res = Some err \<Longrightarrow> IsNotFound err \<Longrightarrow> stored w (target_ident a) = None" by blast+
qed

text \<open>An action that succeeds has its effect on its target and on nothing else; a failed one has none.\<close>

lemma action_cases:
  assumes "invar w" and "executeAction api a w = (res, w')" and "fits a (stored w (target_ident a))"
  shows "invar w'"
    and "res = None \<Longrightarrow> stored w' = (stored w)(target_ident a := action_effect a (stored w (target_ident a)))"
    and "res = Some err \<Longrightarrow> stored w' = stored w"
    and "act_Kind a = PatchPrefixSet \<Longrightarrow> res = Some err \<Longrightarrow> IsNotFound err \<Longrightarrow> stored w (target_ident a) = None"
proof -
  let ?r = "target_resource (act_Target a)"
  have put: "invar w' \<and> stored w' = (if res = None then (stored w)(target_ident a \<mapsto> set (act_DesiredIPs a)) else stored w)"
    if "act_Kind a \<in> {CreatePrefixSet, UpdatePrefixSet}"
    using that assms(2) put_invar [OF assms(1), of ?r "act_DesiredIPs a"] put_stored [OF assms(1), of ?r "act_DesiredIPs a"]
    by (auto simp: executeAction_def)
  have del: "invar w' \<and> stored w' = (if res = None then (stored w)(target_ident a := None) else stored w)"
    if "act_Kind a = DeletePrefixSet"
    using that assms(2) delete_invar [OF assms(1), of ?r] delete_stored [OF assms(1), of ?r] by (auto simp: executeAction_def)
  have pat: "executePatchAction api a w = (res, w')" if "act_Kind a = PatchPrefixSet"
    using that assms(2) by (simp add: executeAction_def)
  have kinds: "act_Kind a \<in> {CreatePrefixSet, UpdatePrefixSet} \<or> act_Kind a = DeletePrefixSet \<or> act_Kind a = PatchPrefixSet"
    using assms(3) by (auto simp: fits_def)
  show "invar w'" using kinds put del patch_cases(1) [OF assms(1) pat] by blast
  show "res = None \<Longrightarrow> stored w' = (stored w)(target_ident a := action_effect a (stored w (target_ident a)))"
    using kinds put del patch_cases(2) [OF assms(1) pat] by (auto simp: action_effect_def)
  show "res = Some err \<Longrightarrow> stored w' = stored w"
    using kinds put del patch_cases(3) [OF assms(1) pat] by auto
  show "act_Kind a = PatchPrefixSet \<Longrightarrow> res = Some err \<Longrightarrow> IsNotFound err \<Longrightarrow> stored w (target_ident a) = None"
    using patch_cases(4) [OF assms(1) pat] by blast
qed

lemma action_success_goal:
  assumes "invar w" and "executeAction api a w = (None, w')" and "fits a (stored w (target_ident a))"
  shows "stored w' = (stored w)(target_ident a := goal a)"
proof -
  have eff: "action_effect a (stored w (target_ident a)) = goal a \<or> act_Kind a = PatchPrefixSet \<and> stored w (target_ident a) = None"
    using assms(3) by (auto simp: fits_def goal_def action_effect_def)
  moreover have "\<not> (act_Kind a = PatchPrefixSet \<and> stored w (target_ident a) = None)"
  proof
    assume p: "act_Kind a = PatchPrefixSet \<and> stored w (target_ident a) = None"
    then have "executePatchAction api a w = (None, w')" using assms(2) by (simp add: executeAction_def)
    then obtain cur etag w1 where "api_GetWithETag api (target_resource (act_Target a)) w = (Inr (Some cur, etag), w1)"
      by (auto simp: executePatchAction_def Let_def split: prod.splits sum.splits option.splits)
    then show False using etag_value [OF assms(1), of "target_resource (act_Target a)" "Some cur"] p by simp
  qed
  ultimately show ?thesis using action_cases(2) [OF assms(1,2,3) refl] by auto
qed

lemma get_actual_view:
  assumes "invar w" and "api_Get api (target_resource (act_Target a)) w = (got, w')"
    and "buildSingleTargetActual a (got_current got) (got_err got) = Inr actual"
  shows "view actual (targetKey (act_Target a)) = stored w (target_ident a)"
proof (cases got)
  case (Inl err)
  then have "IsNotFound err" "actual = []"
    using assms(3) by (auto simp: buildSingleTargetActual_def got_current_def got_err_def IsNotFound_def split: if_splits)
  then show ?thesis using get_absent [OF assms(1), of "target_resource (act_Target a)" err] assms(2) Inl by (simp add: view_single)
next
  case (Inr s)
  then show ?thesis using get_value [OF assms(1), of "target_resource (act_Target a)" s] assms(2,3)
    by (auto simp: buildSingleTargetActual_def got_current_def got_err_def view_single split: option.splits)
qed

text \<open>What the loop promises for the target of an action and the stored prefixes \<open>S\<close> it started with.\<close>

definition exec_ok :: "('k \<Rightarrow> string set option) \<Rightarrow> Action \<Rightarrow> executionOutcome \<Rightarrow> 'w \<Rightarrow> bool" where
  "exec_ok S a out w' \<longleftrightarrow> invar w' \<and> stored w' = (if eo_err out = None then S(target_ident a := goal a) else S)"

lemma exec_ok_same: "act_Target x = act_Target a \<Longrightarrow> goal x = goal a \<Longrightarrow> exec_ok S x out w' = exec_ok S a out w'"
  by (simp add: exec_ok_def)

lemma exec_ok_stop:
  "invar w' \<Longrightarrow> stored w' = S \<Longrightarrow> (eo_err out = None \<Longrightarrow> S (target_ident a) = goal a) \<Longrightarrow> exec_ok S a out w'"
  by (auto simp: exec_ok_def fun_upd_idem_iff)

text \<open>Both recomputations of the loop: it stops with an error or converged, or goes on with an equivalent action.\<close>

lemma recompute_step:
  assumes "invar w" and "fits a (stored w (target_ident a))"
    and "\<And>actual. buildSingleTargetActual a cur ge = Inr actual \<Longrightarrow>
      view actual (targetKey (act_Target a)) = stored w (target_ident a)"
    and "(case recomputeSingleTargetActionViaDiff e a cur ge of
        Inl rerr \<Rightarrow> (\<lparr>eo_err = Some (Wrapped msg rerr), eo_noOp = False, eo_finalActionKind = fk\<rparr>, w)
      | Inr None \<Rightarrow> (\<lparr>eo_err = None, eo_noOp = True, eo_finalActionKind = fk\<rparr>, w)
      | Inr (Some x) \<Rightarrow> cont x) = (out, w')"
    and "\<And>x. act_Target x = act_Target a \<Longrightarrow> goal x = goal a \<Longrightarrow> fits x (stored w (target_ident a)) \<Longrightarrow>
      cont x = (out, w') \<Longrightarrow> exec_ok (stored w) x out w'"
  shows "exec_ok (stored w) a out w'"
proof (cases "buildSingleTargetActual a cur ge")
  case (Inl berr)
  then show ?thesis using assms(1,4) by (intro exec_ok_stop) (auto simp: recomputeSingleTargetActionViaDiff_def)
next
  case (Inr actual)
  note rc = recompute_cases [OF assms(2) Inr assms(3) [OF Inr], of e]
  show ?thesis
  proof (cases "recomputeSingleTargetActionViaDiff e a cur ge")
    case (Inl rerr)
    then show ?thesis using rc(3) by blast
  next
    case ok: (Inr nxt)
    show ?thesis
    proof (cases nxt)
      case None
      then show ?thesis using assms(1,4) ok rc(1) by (intro exec_ok_stop) auto
    next
      case (Some x)
      then show ?thesis using assms(4,5) ok rc(2) [of x] exec_ok_same [of x a] by auto
    qed
  qed
qed

lemma retry_loop_correct:
  assumes "invar w" and "fits a (stored w (target_ident a))" and "n > 0 \<or> err0 \<noteq> None"
    and "etag_retry_loop n e ctx api a fk err0 w = (out, w')"
  shows "exec_ok (stored w) a out w'"
  using assms
proof (induction n arbitrary: a fk err0 w)
  case 0
  then show ?case by (auto simp: exec_ok_def)
next
  case (Suc n)
  note loop = Suc.prems(4)
  obtain res w1 where ex: "executeAction api a w = (res, w1)" by (cases "executeAction api a w")
  note act = action_cases [OF Suc.prems(1) ex Suc.prems(2)]
  have again: "exec_ok (stored w) x out w'" if "act_Target x = act_Target a" "fits x (stored w (target_ident a))" "invar w2"
    "stored w2 = stored w" "etag_retry_loop n e ctx api x (act_Kind x) (Some err) w2 = (out, w')" for x w2 err
    using Suc.IH [of w2 x "Some err" "act_Kind x"] that by simp
  consider (cancelled) cerr where "ctx w = Some cerr" | (success) "ctx w = None" "res = None"
    | (absent) err where "ctx w = None" "res = Some err" "act_Kind a = PatchPrefixSet \<and> IsNotFound err"
    | (failed) err where "ctx w = None" "res = Some err" "\<not> (act_Kind a = PatchPrefixSet \<and> IsNotFound err)"
        "\<not> IsPreconditionFailed err \<or> n = 0 \<or> ctx w1 \<noteq> None"
    | (conflict) err where "ctx w = None" "res = Some err" "\<not> (act_Kind a = PatchPrefixSet \<and> IsNotFound err)"
        "IsPreconditionFailed err" "n \<noteq> 0" "ctx w1 = None"
    by (cases "ctx w"; cases res) auto
  then show ?case
  proof cases
    case cancelled
    then show ?thesis using loop Suc.prems(1) by (intro exec_ok_stop) auto
  next
    case success
    then show ?thesis using loop ex act(1) action_success_goal [OF Suc.prems(1) _ Suc.prems(2)] by (auto simp: exec_ok_def)
  next
    case absent
    have w1: "stored w1 = stored w" "stored w (target_ident a) = None" using act(3,4) absent by auto
    show ?thesis unfolding w1(1) [symmetric]
    proof (rule recompute_step [where cont = "\<lambda>x. etag_retry_loop n e ctx api x (act_Kind x) (Some err) w1"])
      show "view actual (targetKey (act_Target a)) = stored w1 (target_ident a)"
        if "buildSingleTargetActual a None (Some ErrNotFound) = Inr actual" for actual
        using that w1 by (auto simp: buildSingleTargetActual_def errors_Is_def view_single)
    qed (use loop ex absent act(1) w1 Suc.prems(2) again in auto)
  next
    case failed
    then show ?thesis using loop ex act(1,3) by (intro exec_ok_stop) (auto split: if_splits option.splits)
  next
    case conflict
    obtain got w2 where g: "api_Get api (target_resource (act_Target a)) w1 = (got, w2)"
      by (cases "api_Get api (target_resource (act_Target a)) w1")
    have w1: "stored w1 = stored w" using act(3) conflict(2) by simp
    have w2: "invar w2" "stored w2 = stored w" using get_keeps [OF act(1)] g w1 by (metis snd_conv)+
    show ?thesis unfolding w2(2) [symmetric]
    proof (rule recompute_step [where cont = "\<lambda>x. etag_retry_loop n e ctx api x (act_Kind x) (Some err) w2"])
      show "view actual (targetKey (act_Target a)) = stored w2 (target_ident a)"
        if "buildSingleTargetActual a (got_current got) (got_err got) = Inr actual" for actual
        using get_actual_view [OF act(1) g that] w1 w2 by simp
    qed (use loop ex conflict g w2 Suc.prems(2) again in auto)
  qed
qed

lemma executeWithETagRetry_correct:
  assumes "invar w" and "fits a (stored w (target_ident a))" and "ex_maxRetries e > 0"
    and "executeWithETagRetry e ctx api a w = (out, w')"
  shows "exec_ok (stored w) a out w'"
  using assms unfolding executeWithETagRetry_def by (intro retry_loop_correct) auto

lemma execute_one_correct:
  assumes "invar w" and "fits a (stored w (target_ident a))" and "ex_maxRetries e > 0"
    and "env_factory env (tgt_SubscriptionID (act_Target a)) = Inr api" and "execute_one e env idx a w = (r, w')"
  shows "invar w' \<and> stored w' = (if ar_Success r then (stored w)(target_ident a := goal a) else stored w)"
proof -
  have run: "invar w2 \<and> stored w2 = (if ar_Success r2 then (stored w)(target_ident a := goal a) else stored w)"
    if "run_action e env a w = (r2, w2)" for r2 w2
    using that assms(4) executeWithETagRetry_correct [OF assms(1-3), of "env_ctx env"]
    by (auto simp: run_action_def exec_ok_def split: prod.splits)
  then show ?thesis using assms(1,5) by (auto simp: execute_one_def failed_result_def split: option.splits if_splits)
qed

lemma execute_fold:
  assumes "invar w" and "ex_maxRetries e > 0" and "\<And>sub. env_factory env sub = Inr api"
    and "\<And>i. i < length actions \<Longrightarrow> fits (actions ! i) (stored w (target_ident (actions ! i)))"
    and inj: "inj_on (\<lambda>i. target_ident (actions ! i)) {..<length actions}"
    and "distinct is" and "set is \<subseteq> {..<length actions}"
    and "fold (\<lambda>idx (results, w). let (r, w) = execute_one e env idx (actions ! idx) w in (results[idx := r], w)) is
      (replicate (length actions) zero_result, w) = (results, w')"
  shows "invar w' \<and> length results = length actions \<and>
    (\<forall>i \<in> set is. stored w' (target_ident (actions ! i)) =
       (if ar_Success (results ! i) then goal (actions ! i) else stored w (target_ident (actions ! i)))) \<and>
    (\<forall>k. k \<notin> (\<lambda>i. target_ident (actions ! i)) ` set is \<longrightarrow> stored w' k = stored w k)"
  using assms(6-8)
proof (induction "is" arbitrary: results w' rule: rev_induct)
  case Nil
  then show ?case using assms(1) by auto
next
  case (snoc j js)
  obtain rs w1 where f: "fold (\<lambda>idx (results, w). let (r, w) = execute_one e env idx (actions ! idx) w in (results[idx := r], w)) js
      (replicate (length actions) zero_result, w) = (rs, w1)" by fastforce
  have IH: "invar w1" "length rs = length actions"
    "\<And>i. i \<in> set js \<Longrightarrow> stored w1 (target_ident (actions ! i)) =
       (if ar_Success (rs ! i) then goal (actions ! i) else stored w (target_ident (actions ! i)))"
    "\<And>k. k \<notin> (\<lambda>i. target_ident (actions ! i)) ` set js \<Longrightarrow> stored w1 k = stored w k"
    using snoc.IH [OF _ _ f] snoc.prems(1,2) by auto
  obtain r w2 where x: "execute_one e env j (actions ! j) w1 = (r, w2)" by (cases "execute_one e env j (actions ! j) w1")
  have out: "results = rs[j := r]" "w' = w2" using snoc.prems(3) f x by auto
  have j: "j < length actions" "j \<notin> set js" using snoc.prems(1,2) by auto
  have "target_ident (actions ! j) \<notin> (\<lambda>i. target_ident (actions ! i)) ` set js"
  proof
    assume "target_ident (actions ! j) \<in> (\<lambda>i. target_ident (actions ! i)) ` set js"
    then obtain i where "i \<in> set js" "target_ident (actions ! j) = target_ident (actions ! i)" by blast
    then show False using inj j snoc.prems(2) by (auto dest!: inj_onD)
  qed
  then have same: "stored w1 (target_ident (actions ! j)) = stored w (target_ident (actions ! j))" by (rule IH(4))
  have step: "invar w2" "stored w2 = (if ar_Success r then (stored w1)(target_ident (actions ! j) := goal (actions ! j)) else stored w1)"
    using execute_one_correct [OF IH(1) _ assms(2,3) x] assms(4) [OF j(1)] same by auto
  have ne: "target_ident (actions ! i) \<noteq> target_ident (actions ! j)" if "i \<in> set js" for i
    using that inj j snoc.prems(2) by (auto dest!: inj_onD)
  have keep: "rs[j := r] ! i = rs ! i" if "i \<in> set js" for i
    by (rule nth_list_update_neq) (use that j(2) in blast)
  show ?case using out step IH same j ne by (auto simp: keep)
qed

lemma Execute_correct:
  assumes "invar w" and "ex_maxRetries e > 0" and "\<And>sub. env_factory env sub = Inr api"
    and "\<And>x. x \<in> set actions \<Longrightarrow> fits x (stored w (target_ident x))"
    and "distinct (map target_ident actions)" and "distinct schedule" and "set schedule = {..<length actions}"
    and "Execute e env schedule actions w = (results, w')"
  shows "invar w'" and "length results = length actions"
    and "i < length actions \<Longrightarrow> stored w' (target_ident (actions ! i)) =
       (if ar_Success (results ! i) then goal (actions ! i) else stored w (target_ident (actions ! i)))"
    and "k \<notin> target_ident ` set actions \<Longrightarrow> stored w' k = stored w k"
proof -
  have inj: "inj_on (\<lambda>i. target_ident (actions ! i)) {..<length actions}"
    using assms(5) by (auto simp: inj_on_def distinct_conv_nth)
  have e: "invar w' \<and> length results = length actions \<and>
    (\<forall>i \<in> set schedule. stored w' (target_ident (actions ! i)) =
       (if ar_Success (results ! i) then goal (actions ! i) else stored w (target_ident (actions ! i)))) \<and>
    (\<forall>k. k \<notin> (\<lambda>i. target_ident (actions ! i)) ` set schedule \<longrightarrow> stored w' k = stored w k)"
    using assms by (intro execute_fold [OF assms(1-3) _ inj assms(6)]) (auto simp: Execute_def)
  moreover have "(\<lambda>i. target_ident (actions ! i)) ` set schedule = target_ident ` set actions"
    unfolding assms(7) by (auto simp: set_conv_nth)
  ultimately show "invar w'" "length results = length actions"
    "i < length actions \<Longrightarrow> stored w' (target_ident (actions ! i)) =
       (if ar_Success (results ! i) then goal (actions ! i) else stored w (target_ident (actions ! i)))"
    "k \<notin> target_ident ` set actions \<Longrightarrow> stored w' k = stored w k"
    using assms(7) by auto
qed

end

section \<open>Results\<close>

lemma execute_one_action: "ar_Action (fst (execute_one e env idx a w)) = a"
  by (auto simp: execute_one_def run_action_def failed_result_def split: option.splits sum.splits prod.splits)

lemma Execute_actions_fold:
  assumes "distinct is" and "set is \<subseteq> {..<length actions}"
  shows "let (results, w') = fold (\<lambda>idx (results, w). let (r, w) = execute_one e env idx (actions ! idx) w in (results[idx := r], w)) is
      (replicate (length actions) zero_result, w) in
    length results = length actions \<and> (\<forall>i \<in> set is. ar_Action (results ! i) = actions ! i)"
  using assms
proof (induction "is" rule: rev_induct)
  case (snoc j js)
  obtain rs w1 where f: "fold (\<lambda>idx (results, w). let (r, w) = execute_one e env idx (actions ! idx) w in (results[idx := r], w)) js
      (replicate (length actions) zero_result, w) = (rs, w1)" by fastforce
  have IH: "length rs = length actions" "\<forall>i \<in> set js. ar_Action (rs ! i) = actions ! i" using snoc f by (auto simp: Let_def)
  have keep: "rs[j := r] ! i = rs ! i" if "i \<in> set js" for i r
    by (rule nth_list_update_neq) (use that snoc.prems(1) in auto)
  have "j < length rs" using snoc.prems(2) IH(1) by simp
  moreover obtain r w2 where x: "execute_one e env j (actions ! j) w1 = (r, w2)" by (cases "execute_one e env j (actions ! j) w1")
  then have "ar_Action r = actions ! j" using execute_one_action [of e env j "actions ! j" w1] by simp
  ultimately show ?case using f IH by (simp add: x keep)
qed simp

lemma ComputeDiff_fits:
  assumes "wf_state d" and "wf_state a" and "\<forall>(t, ips) \<in> set d. ips \<noteq> []" and "x \<in> set (ComputeDiff d a th)"
  shows "fits x (view a (actionKey x)) \<and> goal x = view d (actionKey x)"
proof -
  have eff: "action_effect x (view a (actionKey x)) = view d (actionKey x)" by (rule ComputeDiff_effect [OF assms(1,2,4)])
  have ne: "ips \<noteq> []" if "gget (byKey d) k = Some (t, ips)" for k t ips
  proof -
    have "\<forall>e \<in> set (fold (\<lambda>(t, ips) acc. gput (targetKey t) (t, ips) acc) m acc). snd (snd e) \<noteq> []"
      if "\<forall>e \<in> set acc. snd (snd e) \<noteq> []" "\<forall>(t, ips) \<in> set m. ips \<noteq> []" for m acc
      using that
    proof (induction m arbitrary: acc)
      case (Cons e m)
      then show ?case by (cases e) (simp, intro Cons.IH gput_Ball, auto)
    qed simp
    from this [of "[]" d] have "\<forall>e \<in> set (byKey d). snd (snd e) \<noteq> []" using assms(3) by (simp add: byKey_def)
    then show ?thesis using gget_in_set [OF that] by auto
  qed
  show ?thesis
    using keyed_byKey [OF assms(1)] keyed_byKey [OF assms(2)] assms(4) [unfolded ComputeDiff_set]
  proof (cases rule: unsortedDiff_cases)
    case (desired t ips)
    note c = diffDesired_cases [OF desired(2)]
    have v: "view d (actionKey x) = Some (set ips)" using desired(1) by (simp add: view_def)
    then have g: "goal x = view d (actionKey x)" using c by (auto simp: goal_def)
    moreover have "act_DesiredIPs x \<noteq> []" using c(2) ne [OF desired(1)] by (metis length_0_conv length_sort)
    ultimately show ?thesis using c(3) eff by (auto simp: fits_def)
  next
    case (actual t ips)
    then show ?thesis by (simp add: fits_def goal_def view_def)
  qed
qed

text \<open>The actions of a diff are on the targets of the two states.\<close>

lemma byKey_from: "\<forall>e \<in> set (byKey m). snd e \<in> set m"
proof -
  have "\<forall>e \<in> set acc. snd e \<in> S \<Longrightarrow> set m \<subseteq> S \<Longrightarrow> \<forall>e \<in> set (fold (\<lambda>(t, ips) acc. gput (targetKey t) (t, ips) acc) m acc). snd e \<in> S"
    for m acc and S :: "(ASGTarget \<times> string goset) set"
  proof (induction m arbitrary: acc)
    case (Cons e m)
    then show ?case by (cases e) (simp, intro Cons.IH gput_Ball, auto)
  qed simp
  from this [of "[]" "set m" m] show ?thesis by (simp add: byKey_def)
qed

lemma ComputeDiff_targets: "x \<in> set (ComputeDiff d a th) \<Longrightarrow> act_Target x \<in> set (gkeys d) \<union> set (gkeys a)"
proof -
  assume "x \<in> set (ComputeDiff d a th)"
  then consider k t ips where "(k, t, ips) \<in> set (byKey d)" "act_Target x = t" | k t ips where "(k, t, ips) \<in> set (byKey a)" "act_Target x = t"
    using diffDesired_cases(1) diffActual_cases(1) unfolding ComputeDiff_set unsortedDiff_def by fastforce
  then show ?thesis using byKey_from [of d] byKey_from [of a] by cases force+
qed

lemma view_in_targets: "t \<in> set (gkeys m) \<Longrightarrow> view m (targetKey t) \<noteq> None"
proof -
  have "targetKey t \<in> fst ` set acc \<or> t \<in> set (gkeys m) \<Longrightarrow> targetKey t \<in> fst ` set (fold (\<lambda>(t, ips) acc. gput (targetKey t) (t, ips) acc) m acc)" for acc m
  proof (induction m arbitrary: acc)
    case (Cons e m)
    have "targetKey t \<in> fst ` set (gput (targetKey (fst e)) e acc) \<or> t \<in> set (gkeys m)"
      using Cons.prems gkeys_gput_set [of "targetKey (fst e)" e acc] by auto
    from Cons.IH [OF this] show ?case by (cases e) simp
  qed simp
  from this [of "[]" m] show "t \<in> set (gkeys m) \<Longrightarrow> view m (targetKey t) \<noteq> None"
    by (simp add: view_def byKey_def map_of_eq_None_iff del: set_map)
qed

text \<open>Targets that the client identifies as their keys do.\<close>

definition key_identity :: "(resource \<Rightarrow> 'k) \<Rightarrow> ASGTarget set \<Rightarrow> bool" where
  "key_identity ident T \<longleftrightarrow> (\<forall>t \<in> T. \<forall>t' \<in> T. targetKey t = targetKey t' \<longleftrightarrow> ident (target_resource t) = ident (target_resource t'))"

context prefix_set_store
begin

text \<open>
  Executing a diff whose actual state is what is stored, except where nothing is desired: if
  every action succeeds, the desired state is stored under the targets, and nothing else changed.
\<close>

lemma execute_diff:
  assumes "wf_state desired" and "wf_state actual" and "\<forall>(t, ips) \<in> set desired. ips \<noteq> []"
    and "key_identity ident (set (gkeys desired) \<union> set (gkeys actual))"
    and "\<forall>t \<in> set (gkeys desired) \<union> set (gkeys actual). view desired (targetKey t) \<noteq> None \<longrightarrow>
      stored w (ident (target_resource t)) = view actual (targetKey t)"
    and "invar w" and "ex_maxRetries e > 0" and "\<And>sub. env_factory env sub = Inr api"
    and "distinct schedule" and "set schedule = {..<length (ComputeDiff desired actual threshold)}"
    and "Execute e env schedule (ComputeDiff desired actual threshold) w = (results, w')"
    and "\<forall>r \<in> set results. ar_Success r"
  shows "invar w'" and "t \<in> set (gkeys desired) \<union> set (gkeys actual) \<Longrightarrow> stored w' (ident (target_resource t)) = view desired (targetKey t)"
    and "k \<notin> (\<lambda>t. ident (target_resource t)) ` (set (gkeys desired) \<union> set (gkeys actual)) \<Longrightarrow> stored w' k = stored w k"
proof -
  let ?acts = "ComputeDiff desired actual threshold" and ?T = "set (gkeys desired) \<union> set (gkeys actual)"
  have T: "act_Target x \<in> ?T" if "x \<in> set ?acts" for x by (rule ComputeDiff_targets [OF that])
  have key: "target_ident x = ident (target_resource t) \<longleftrightarrow> actionKey x = targetKey t" if "x \<in> set ?acts" "t \<in> ?T" for x t
    using assms(4) T [OF that(1)] that(2) unfolding key_identity_def by blast
  note f = ComputeDiff_fits [OF assms(1-3)]
  have fits: "fits x (stored w (target_ident x))" if x: "x \<in> set ?acts" for x
  proof (cases "act_Kind x = DeletePrefixSet")
    case True
    then show ?thesis by (simp add: fits_def)
  next
    case False
    then have "view desired (actionKey x) \<noteq> None" using f [OF x] by (metis goal_def option.distinct(1))
    then show ?thesis using assms(5) T [OF x] f [OF x] by simp
  qed
  have "inj_on target_ident (set ?acts)"
    using key T ComputeDiff_distinct [OF assms(1,2), of threshold] by (auto simp: distinct_map inj_on_def)
  moreover have "distinct ?acts" using ComputeDiff_distinct [OF assms(1,2), of threshold] by (simp add: distinct_map)
  ultimately have dist: "distinct (map target_ident ?acts)" by (simp add: distinct_map)
  note ex = Execute_correct [OF assms(6-8) fits dist assms(9-11)]
  show "invar w'" by (rule ex(1))
  show "stored w' k = stored w k" if "k \<notin> (\<lambda>t. ident (target_resource t)) ` ?T"
    by (rule ex(4)) (use that T in \<open>auto simp: image_iff\<close>)
  show "stored w' (ident (target_resource t)) = view desired (targetKey t)" if t: "t \<in> ?T"
  proof (cases "targetKey t \<in> actionKey ` set ?acts")
    case True
    then obtain i where i: "i < length ?acts" "targetKey t = actionKey (?acts ! i)" by (auto simp: in_set_conv_nth)
    have m: "?acts ! i \<in> set ?acts" using i(1) by simp
    have "ident (target_resource t) = target_ident (?acts ! i)" using key [OF m t] i(2) by simp
    moreover have "ar_Success (results ! i)" using assms(12) ex(2) i(1) by simp
    ultimately show ?thesis using ex(3) [OF _ i(1)] f [OF m] i(2) by simp
  next
    case False
    then have "ident (target_resource t) \<notin> target_ident ` set ?acts" using key [OF _ t] unfolding image_iff by metis
    then have keep: "stored w' (ident (target_resource t)) = stored w (ident (target_resource t))" using ex(4) by simp
    have same: "view actual (targetKey t) = view desired (targetKey t)" by (rule no_action_same_view [OF assms(1,2) False])
    then have "view desired (targetKey t) \<noteq> None" using t view_in_targets by (metis UnE)
    then show ?thesis using assms(5) t keep same by auto
  qed
qed

end

text \<open>A first deployment: one target is desired and the client is empty.\<close>

definition ex_env :: "Client exec_env" where
  "ex_env = \<lparr>env_ctx = (\<lambda>_. None), env_clock = (\<lambda>_. 0), env_factory = (\<lambda>_. Inr fake_api), env_pick = (\<lambda>_. True)\<rparr>"

definition ex_create :: Action where
  "ex_create = \<lparr>act_Kind = CreatePrefixSet, act_Target = ex_target ''web'', act_DesiredIPs = [''a''], act_AddIPs = [],
     act_RemoveIPs = []\<rparr>"

lemma ex_create_diff: "ComputeDiff [(ex_target ''web'', [''a''])] [] 50 = [ex_create]"
  by (simp add: ComputeDiff_def unsortedDiff_def diffDesired_def byKey_def ex_create_def sortedIPs_def)

lemma ex_create_run:
  "eo_err (fst (executeWithETagRetry (NewExecutor 2) (\<lambda>_. None) fake_api ex_create NewClient)) = None"
  by (simp add: executeWithETagRetry_def NewExecutor_def numeral_3_eq_3 executeAction_def ex_create_def fake_api_def
      Client_Put_def NewClient_def consumeInjectedError_def Let_def)

lemma ex_create_execute: "\<forall>r \<in> set (fst (Execute (NewExecutor 2) ex_env [0] [ex_create] NewClient)). ar_Success r"
  using ex_create_run
  by (simp add: Execute_def execute_one_def run_action_def ex_env_def split_beta Let_def)

section \<open>Properties\<close>

text \<open>\<open>Execute\<close> returns one result per action, in the order of the actions, for every schedule of
  its goroutines, every client and every choice of \<open>select\<close>.
\<close>

theorem execute_results_in_order:
  assumes "distinct schedule" and "set schedule = {..<length actions}"
  shows "length (fst (Execute e env schedule actions w)) = length actions \<and>
    map ar_Action (fst (Execute e env schedule actions w)) = actions"
proof -
  have "length (fst (Execute e env schedule actions w)) = length actions"
    "\<forall>i < length actions. ar_Action (fst (Execute e env schedule actions w) ! i) = actions ! i"
    using Execute_actions_fold [OF assms(1), of actions e env w] assms(2) by (auto simp: Execute_def split_beta Let_def)
  then show ?thesis by (auto intro: nth_equalityI)
qed

theorem execute_results_in_order_witness:
  "map ar_Action (fst (Execute (NewExecutor 2) \<lparr>env_ctx = (\<lambda>_. None), env_clock = (\<lambda>_. 0), env_factory = (\<lambda>_. Inr fake_api),
     env_pick = (\<lambda>_. True)\<rparr> [1, 0] (ComputeDiff ex_desired [] 50) NewClient)) = ComputeDiff ex_desired [] 50"
proof -
  have "length (ComputeDiff ex_desired [] 50) = 2"
    unfolding ComputeDiff_def length_sort ex_byKey by (simp add: unsortedDiff_def diffDesired_def byKey_def)
  then have "distinct [1, 0 :: nat]" "set [1, 0] = {..<length (ComputeDiff ex_desired [] 50)}" by auto
  then show ?thesis by (rule conjunct2 [OF execute_results_in_order])
qed





end
