(* ===== verification/Sha256.thy ===== *)
theory Sha256
  imports Prelude "HOL-Library.Word"
begin

text \<open>
  \<open>crypto/sha256.Sum256\<close> and \<open>%x\<close>, which the selector hashes of the status rest on
  (\<open>internal/controller/status.go\<close>), after FIPS 180-4. Words are 32 bits wide and addition
  wraps around.
\<close>

unbundle bit_operations_syntax

definition sha_rotr :: "nat \<Rightarrow> 32 word \<Rightarrow> 32 word" where
  "sha_rotr n x = (drop_bit n x) OR (push_bit (32 - n) x)"

text \<open>
  The constants are the first 32 bits of the fractional parts of the roots of the first
  primes: cube roots of 64 primes for the rounds, square roots of 8 for the initial state.
  \<open>sha_root k b n\<close> is the largest number below \<open>2 ^ b\<close> whose \<open>k\<close>-th power is at most \<open>n\<close>,
  found bit by bit.
\<close>

fun sha_root_bits :: "nat \<Rightarrow> nat \<Rightarrow> nat \<Rightarrow> nat \<Rightarrow> nat" where
  "sha_root_bits k 0 n acc = acc"
| "sha_root_bits k (Suc b) n acc = sha_root_bits k b n (if (acc + 2 ^ b) ^ k \<le> n then acc + 2 ^ b else acc)"

definition sha_root :: "nat \<Rightarrow> nat \<Rightarrow> nat \<Rightarrow> nat" where
  "sha_root k b n = sha_root_bits k b n 0"

definition sha_constant :: "nat \<Rightarrow> nat \<Rightarrow> 32 word" where
  "sha_constant k p = word_of_nat (sha_root k 37 (p * 2 ^ (32 * k)))"

definition sha_primes :: "nat list" where
  "sha_primes = filter (\<lambda>p. list_all (\<lambda>d. p mod d \<noteq> 0) [2..<p]) [2..<312]"

definition sha_K :: "32 word list" where
  "sha_K = map (sha_constant 3) sha_primes"

definition sha_H0 :: "32 word list" where
  "sha_H0 = map (sha_constant 2) [2, 3, 5, 7, 11, 13, 17, 19]"

text \<open>Big-endian bytes of a number.\<close>

fun sha_bytes :: "nat \<Rightarrow> nat \<Rightarrow> nat list" where
  "sha_bytes 0 n = []"
| "sha_bytes (Suc k) n = (n div 256 ^ k) mod 256 # sha_bytes k n"

definition sha_pad :: "nat list \<Rightarrow> nat list" where
  "sha_pad m = m @ [128] @ replicate ((119 - length m mod 64) mod 64) 0 @ sha_bytes 8 (8 * length m)"

fun sha_words :: "nat list \<Rightarrow> 32 word list" where
  "sha_words (a # b # c # d # bs) = word_of_nat (((a * 256 + b) * 256 + c) * 256 + d) # sha_words bs"
| "sha_words _ = []"

text \<open>The message schedule, newest word first.\<close>

definition sha_extend :: "32 word list \<Rightarrow> 32 word list" where
  "sha_extend ws =
     (let w2 = ws ! 1; w7 = ws ! 6; w15 = ws ! 14; w16 = ws ! 15;
          s0 = sha_rotr 7 w15 XOR sha_rotr 18 w15 XOR drop_bit 3 w15;
          s1 = sha_rotr 17 w2 XOR sha_rotr 19 w2 XOR drop_bit 10 w2
      in (w16 + s0 + w7 + s1) # ws)"

definition sha_schedule :: "32 word list \<Rightarrow> 32 word list" where
  "sha_schedule block = rev ((sha_extend ^^ 48) (rev block))"

fun sha_round :: "32 word \<times> 32 word \<Rightarrow> 32 word list \<Rightarrow> 32 word list" where
  "sha_round (k, w) [a, b, c, d, e, f, g, h] =
     (let S1 = sha_rotr 6 e XOR sha_rotr 11 e XOR sha_rotr 25 e;
          ch = (e AND f) XOR (NOT e AND g);
          t1 = h + S1 + ch + k + w;
          S0 = sha_rotr 2 a XOR sha_rotr 13 a XOR sha_rotr 22 a;
          maj = (a AND b) XOR (a AND c) XOR (b AND c);
          t2 = S0 + maj
      in [t1 + t2, a, b, c, d + t1, e, f, g])"
| "sha_round _ st = st"

definition sha_block :: "32 word list \<Rightarrow> 32 word list \<Rightarrow> 32 word list" where
  "sha_block block st = map2 (+) st (fold sha_round (zip sha_K (sha_schedule block)) st)"

fun sha_blocks :: "nat \<Rightarrow> 32 word list \<Rightarrow> 32 word list \<Rightarrow> 32 word list" where
  "sha_blocks 0 ws st = st"
| "sha_blocks (Suc n) ws st = sha_blocks n (drop 16 ws) (sha_block (take 16 ws) st)"

text \<open>\<open>sha256.Sum256\<close>: 32 bytes.\<close>

definition Sum256 :: "string \<Rightarrow> nat list" where
  "Sum256 s = (let m = sha_pad (map of_char s) in
     concat (map (\<lambda>w. sha_bytes 4 (unat w)) (sha_blocks (length m div 64) (sha_words m) sha_H0)))"

definition hex_digit :: "nat \<Rightarrow> char" where
  "hex_digit n = (if n < 10 then char_of (48 + n) else char_of (87 + n))"

text \<open>\<open>%x\<close> of bytes.\<close>

definition hex_bytes :: "nat list \<Rightarrow> string" where
  "hex_bytes bs = concat (map (\<lambda>b. [hex_digit (b div 16), hex_digit (b mod 16)]) bs)"

section \<open>Lemmas\<close>

lemma sha_root_bits_root:
  "acc ^ k \<le> n \<Longrightarrow> n < (acc + 2 ^ b) ^ k \<Longrightarrow>
     (sha_root_bits k b n acc) ^ k \<le> n \<and> n < (Suc (sha_root_bits k b n acc)) ^ k"
proof (induction b arbitrary: acc)
  case (Suc b)
  then show ?case by (simp add: mult_2 add.assoc)
qed simp

lemma length_sha_bytes [simp]: "length (sha_bytes k n) = k"
  by (induction k) auto

lemma sha_bytes_lt: "b \<in> set (sha_bytes k n) \<Longrightarrow> b < 256"
  by (induction k) auto

lemma length_sha_round [simp]: "length (sha_round p st) = length st"
  by (cases "(p, st)" rule: sha_round.cases) (auto simp: Let_def)

lemma length_sha_rounds [simp]: "length (fold sha_round ps st) = length st"
  by (induction ps arbitrary: st) auto

lemma length_sha_block [simp]: "length (sha_block b st) = length st"
  by (simp add: sha_block_def)

lemma length_sha_blocks [simp]: "length (sha_blocks n ws st) = length st"
  by (induction n arbitrary: ws st) auto

lemma length_Sum256 [simp]: "length (Sum256 s) = 32"
proof -
  have "length (concat (map (\<lambda>w. sha_bytes 4 (unat (w :: 32 word))) ws)) = 4 * length ws" for ws
    by (induction ws) auto
  then show ?thesis by (simp add: Sum256_def Let_def sha_H0_def)
qed

lemma Sum256_lt: "b \<in> set (Sum256 s) \<Longrightarrow> b < 256"
  by (auto simp: Sum256_def Let_def dest: sha_bytes_lt)

lemma length_sha_pad: "length (sha_pad m) mod 64 = 0"
proof -
  obtain q r where m: "length m = 64 * q + r" "r < 64" by (metis mod_less_divisor mult_div_mod_eq zero_less_numeral)
  have "(119 - r) mod 64 = (if r \<le> 55 then 55 - r else 119 - r)"
  proof (cases "r \<le> 55")
    case True
    then have "119 - r = 64 + (55 - r)" by simp
    then show ?thesis using True by (simp only: mod_add_self1) simp
  qed simp
  then have "length (sha_pad m) = 64 * (if r \<le> 55 then q + 1 else q + 2)" using m by (simp add: sha_pad_def)
  then show ?thesis by (simp only: mod_mult_self1_is_0)
qed

lemma length_hex_bytes [simp]: "length (hex_bytes bs) = 2 * length bs"
  by (induction bs) (auto simp: hex_bytes_def)

lemma hex_bytes_digits:
  "\<forall>b \<in> set bs. b < 256 \<Longrightarrow> set (hex_bytes bs) \<subseteq> set ''0123456789abcdef''"
proof (induction bs)
  case (Cons b bs)
  have "hex_digit n \<in> set ''0123456789abcdef''" if "n < 16" for n
  proof -
    have "n \<in> {0, 1, 2, 3, 4, 5, 6, 7, 8, 9, 10, 11, 12, 13, 14, 15}"
      using that unfolding insert_iff empty_iff by presburger
    then show ?thesis by (elim insertE) (simp_all add: hex_digit_def char_of_def bit_0)
  qed
  moreover have "b div 16 < 16" "b mod 16 < 16" using Cons.prems by auto
  ultimately show ?case using Cons by (simp add: hex_bytes_def)
qed (simp add: hex_bytes_def)

end
