(* ===== verification/Status.thy ===== *)
theory Status
  imports Executor Sha256
begin

text \<open>
  The status of a PodASGMapping: conditions (\<open>internal/controller/conditions.go\<close>), and the
  computation of the whole status from the outcome of a reconcile
  (\<open>internal/controller/status.go\<close>).

  \<open>metav1.Now()\<close> is an argument: \<open>SetCondition\<close> takes the time it reads, \<open>ComputeStatus\<close> the
  two times its two calls read. Time 0 is the zero time.
\<close>

section \<open>Texts\<close>

text \<open>\<open>%q\<close>, for ASCII; bytes of 128 and more are left alone.\<close>

definition quote_byte :: "char \<Rightarrow> string" where
  "quote_byte c = (let n = of_char c :: nat in
     if n = 34 then [char_of (92::nat), char_of (34::nat)]
     else if n = 92 then [char_of (92::nat), char_of (92::nat)]
     else if n = 7 then [char_of (92::nat), CHR ''a'']
     else if n = 8 then [char_of (92::nat), CHR ''b'']
     else if n = 12 then [char_of (92::nat), CHR ''f'']
     else if n = 10 then [char_of (92::nat), CHR ''n'']
     else if n = 13 then [char_of (92::nat), CHR ''r'']
     else if n = 9 then [char_of (92::nat), CHR ''t'']
     else if n = 11 then [char_of (92::nat), CHR ''v'']
     else if n < 32 \<or> n = 127 then [char_of (92::nat), CHR ''x''] @ hex_bytes [n]
     else [c])"

definition Quote :: "string \<Rightarrow> string" where
  "Quote s = [char_of (34::nat)] @ concat (map quote_byte s) @ [char_of (34::nat)]"

text \<open>The texts of the errors of \<open>ParseASGResourceID\<close>.\<close>

fun parse_error_text :: "parse_error \<Rightarrow> string" where
  "parse_error_text EmptyResourceID = ''resource ID must not be empty''"
| "parse_error_text (NoLeadingSlash s) = ''resource ID must start with '' @ [char_of (39::nat)] @ ''/'' @ [char_of (39::nat)] @ '': '' @ Quote s"
| "parse_error_text (TrailingSlash s) = ''resource ID must not have trailing slash: '' @ Quote s"
| "parse_error_text (WrongSegmentCount n s) = ''resource ID has '' @ show_nat n @ '' segments, want 9: '' @ Quote s"
| "parse_error_text (BadSegment want s) = ''expected '' @ [char_of (39::nat)] @ want @ [char_of (39::nat)] @ '' segment, got '' @ Quote s"
| "parse_error_text (EmptySubscription s) = ''subscription ID must not be empty: '' @ Quote s"
| "parse_error_text (EmptyResourceGroup s) = ''resource group must not be empty: '' @ Quote s"
| "parse_error_text (BadProvider s) = ''expected provider '' @ [char_of (39::nat)] @ ''Microsoft.Network'' @ [char_of (39::nat)] @ '', got '' @ Quote s"
| "parse_error_text (BadResourceType s) = ''expected resource type '' @ [char_of (39::nat)] @ ''applicationSecurityGroups'' @ [char_of (39::nat)] @ '', got '' @ Quote s"
| "parse_error_text (EmptyASGName s) = ''ASG name must not be empty: '' @ Quote s"

section \<open>Conditions\<close>

definition ConditionAccepted :: string where "ConditionAccepted = ''Accepted''"
definition ConditionReconciled :: string where "ConditionReconciled = ''Reconciled''"
definition ReasonSpecValid :: string where "ReasonSpecValid = ''SpecValid''"
definition ReasonSpecInvalid :: string where "ReasonSpecInvalid = ''SpecInvalid''"
definition ReasonReconciling :: string where "ReasonReconciling = ''Reconciling''"
definition ReasonReconcileSucceeded :: string where "ReasonReconcileSucceeded = ''ReconcileSucceeded''"
definition ReasonReconcileFailed :: string where "ReasonReconcileFailed = ''ReconcileFailed''"
definition ReasonValidationFailed :: string where "ReasonValidationFailed = ''ValidationFailed''"
definition SyncStatePending :: string where "SyncStatePending = ''Pending''"
definition SyncStateSynced :: string where "SyncStateSynced = ''Synced''"
definition SyncStateError :: string where "SyncStateError = ''Error''"

fun upsert_condition :: "gotime \<Rightarrow> int \<Rightarrow> string \<Rightarrow> ConditionStatus \<Rightarrow> string \<Rightarrow> string \<Rightarrow> Condition list \<Rightarrow> Condition list" where
  "upsert_condition now gen condType val reason message [] =
     [\<lparr>cond_Type = condType, cond_Status = val, cond_ObservedGeneration = gen, cond_Reason = reason,
       cond_Message = message, cond_LastTransitionTime = now\<rparr>]"
| "upsert_condition now gen condType val reason message (c # cs) =
     (if cond_Type c = condType then
        (let transitionTime = (if cond_Status c = val \<and> cond_Reason c = reason \<and> cond_Message c = message
                               then cond_LastTransitionTime c else now)
         in \<lparr>cond_Type = condType, cond_Status = val, cond_ObservedGeneration = gen, cond_Reason = reason,
              cond_Message = message, cond_LastTransitionTime = transitionTime\<rparr> # cs)
      else c # upsert_condition now gen condType val reason message cs)"

definition SetCondition :: "gotime \<Rightarrow> int \<Rightarrow> string \<Rightarrow> ConditionStatus \<Rightarrow> string \<Rightarrow> string \<Rightarrow>
    PodASGMappingStatus \<Rightarrow> PodASGMappingStatus" where
  "SetCondition now observedGeneration condType val reason message status =
     status\<lparr>st_Conditions := upsert_condition now observedGeneration condType val reason message (st_Conditions status)\<rparr>"

section \<open>Parts of the status\<close>

datatype StatusPhase = StatusPhasePending | StatusPhaseFinal

record ValidationIssue =
  vi_MappingIndex :: int
  vi_ASGIndex :: int
  vi_ResourceID :: string
  vi_Err :: goerror

record ComputeStatusInput =
  in_Spec :: PodASGMappingSpec
  in_PreviousStatus :: PodASGMappingStatus
  in_PrefixSetName :: string
  in_Results :: "ActionResult list"
  in_MatchedPodsByIndex :: "int list"
  in_ValidationIssues :: "ValidationIssue list"
  in_ReconcileErr :: "goerror option"
  in_ObservedGeneration :: int
  in_Phase :: StatusPhase
  in_Now :: gotime

definition hasFailedResults :: "ActionResult list \<Rightarrow> bool" where
  "hasFailedResults results = list_ex (\<lambda>r. \<not> ar_Success r) results"

definition dedupStrings :: "string list \<Rightarrow> string list" where
  "dedupStrings ss = remdups_adj ss"

definition validationMessagesForMapping :: "ValidationIssue list \<Rightarrow> int \<Rightarrow> string list" where
  "validationMessagesForMapping issues mappingIdx =
     map (\<lambda>vi. ''invalid resource ID '' @ Quote (vi_ResourceID vi) @ '': '' @ err_text (vi_Err vi))
       (filter (\<lambda>vi. vi_MappingIndex vi = mappingIdx) issues)"

definition aggregateValidationMessage :: "ValidationIssue list \<Rightarrow> string" where
  "aggregateValidationMessage issues =
     Join (map (\<lambda>vi. ''mapping['' @ show_int (vi_MappingIndex vi) @ ''].asg['' @ show_int (vi_ASGIndex vi) @ '']: ''
       @ err_text (vi_Err vi)) issues) ''; ''"

text \<open>The canonical text of match labels: the pairs in the order of their keys.\<close>

definition selector_text :: "(string, string) gomap \<Rightarrow> string" where
  "selector_text matchLabels =
     Join (map (\<lambda>k. k @ ''='' @ gget_or [] matchLabels k) (sort (gkeys matchLabels))) '',''"

definition ComputeSelectorHash :: "labels \<Rightarrow> string" where
  "ComputeSelectorHash matchLabels =
     (if nlen matchLabels = 0 then []
      else hex_bytes (take 8 (Sum256 (selector_text (the matchLabels)))))"

definition ComputeMatchedPodsByMapping :: "matcher \<Rightarrow> PodASGMappingSpec \<Rightarrow> Pod list \<Rightarrow> int list" where
  "ComputeMatchedPodsByMapping M spec pods =
     map (\<lambda>m. case CompileSelector (rule_PodSelector m) of
            Inl err \<Rightarrow> 0
          | Inr selector \<Rightarrow> int (length (filter (\<lambda>p. M selector (p_Labels p)) pods)))
       (spec_Mappings spec)"

section \<open>Preserving the time of the last sync\<close>

definition preserveLastSyncTime :: "MappingStatus \<Rightarrow> PodASGMappingStatus \<Rightarrow> nat \<Rightarrow> MappingStatus" where
  "preserveLastSyncTime ms prev idx =
     (if idx < length (st_MappingStatuses prev)
      then ms\<lparr>ms_LastSyncTime := ms_LastSyncTime (st_MappingStatuses prev ! idx)\<rparr> else ms)"

definition buildPreviousLastSyncBySelector :: "MappingStatus list \<Rightarrow> (string, gotime list) gomap" where
  "buildPreviousLastSyncBySelector prev =
     fold (\<lambda>ms result. gput (ms_SelectorHash ms) (gget_or [] result (ms_SelectorHash ms) @ [ms_LastSyncTime ms]) result) prev []"

definition popPreviousLastSync :: "(string, gotime list) gomap \<Rightarrow> string \<Rightarrow> gotime option \<times> (string, gotime list) gomap" where
  "popPreviousLastSync bySelector selectorHash =
     (case gget bySelector selectorHash of
        None \<Rightarrow> (None, bySelector)
      | Some [] \<Rightarrow> (None, bySelector)
      | Some (t # queue) \<Rightarrow> (Some t, gput selectorHash queue bySelector))"

definition preserveLastSyncTimeBySelector :: "MappingStatus \<Rightarrow> string \<Rightarrow> (string, gotime list) gomap \<Rightarrow>
    MappingStatus \<times> (string, gotime list) gomap" where
  "preserveLastSyncTimeBySelector ms selectorHash prevBySelector =
     (case popPreviousLastSync prevBySelector selectorHash of
        (Some t, q) \<Rightarrow> (ms\<lparr>ms_LastSyncTime := t\<rparr>, q)
      | (None, q) \<Rightarrow> (ms, q))"

section \<open>\<open>ComputeStatus\<close>\<close>

definition status_conditions :: "gotime \<times> gotime \<Rightarrow> ComputeStatusInput \<Rightarrow> PodASGMappingStatus \<Rightarrow> PodASGMappingStatus" where
  "status_conditions clk inp status =
     (let gen = in_ObservedGeneration inp; set1 = SetCondition (fst clk) gen; set2 = SetCondition (snd clk) gen in
      if in_ValidationIssues inp \<noteq> [] then
        set2 ConditionReconciled ConditionFalse ReasonValidationFailed ''validation failed''
          (set1 ConditionAccepted ConditionFalse ReasonSpecInvalid (aggregateValidationMessage (in_ValidationIssues inp)) status)
      else if in_Phase inp = StatusPhasePending then
        set2 ConditionReconciled ConditionUnknown ReasonReconciling []
          (set1 ConditionAccepted ConditionTrue ReasonSpecValid [] status)
      else
        (let status = set1 ConditionAccepted ConditionTrue ReasonSpecValid [] status in
         case in_ReconcileErr inp of
           Some err \<Rightarrow> set2 ConditionReconciled ConditionFalse ReasonReconcileFailed (err_text err) status
         | None \<Rightarrow>
             if hasFailedResults (in_Results inp)
             then set2 ConditionReconciled ConditionFalse ReasonReconcileFailed ''one or more actions failed'' status
             else set2 ConditionReconciled ConditionTrue ReasonReconcileSucceeded [] status))"

definition failure_key :: "ActionResult \<Rightarrow> string" where
  "failure_key r = targetIdentityKey (tgt_FullResourceID (act_Target (ar_Action r))) (tgt_PrefixSetName (act_Target (ar_Action r)))"

definition failure_message :: "ActionResult \<Rightarrow> goerror \<Rightarrow> string" where
  "failure_message r err = kind_text (act_Kind (ar_Action r)) @ '' '' @ tgt_ASGName (act_Target (ar_Action r)) @ '': '' @ err_text err"

definition target_failures :: "ActionResult list \<Rightarrow> (string, string list) gomap" where
  "target_failures results =
     fold (\<lambda>r targetFailures.
             case ar_Err r of
               Some err \<Rightarrow>
                 if \<not> ar_Success r
                 then gput (failure_key r) (gget_or [] targetFailures (failure_key r) @ [failure_message r err]) targetFailures
                 else targetFailures
             | None \<Rightarrow> targetFailures) results []"

definition row_errors :: "string \<Rightarrow> (string, string list) gomap \<Rightarrow> ASGReference list \<Rightarrow> string list" where
  "row_errors prefixSetName targetFailures refs =
     concat (map (\<lambda>asgRef.
       case ParseASGResourceID (ref_ResourceID asgRef) of
         Inl err \<Rightarrow> []
       | Inr parsed \<Rightarrow> gget_or [] targetFailures (targetIdentityKey (par_FullResourceID parsed) prefixSetName)) refs)"

definition useSelectorBasedPreservation :: "ComputeStatusInput \<Rightarrow> bool" where
  "useSelectorBasedPreservation inp = list_ex (\<lambda>ps. ms_SelectorHash ps \<noteq> []) (st_MappingStatuses (in_PreviousStatus inp))"

definition isSystemicFailure :: "ComputeStatusInput \<Rightarrow> bool" where
  "isSystemicFailure inp \<longleftrightarrow> in_ReconcileErr inp \<noteq> None \<and> in_Results inp = [] \<and> in_ValidationIssues inp = [] \<and>
     in_Phase inp = StatusPhaseFinal"

definition preserve :: "ComputeStatusInput \<Rightarrow> nat \<Rightarrow> MappingStatus \<Rightarrow> (string, gotime list) gomap \<Rightarrow>
    MappingStatus \<times> (string, gotime list) gomap" where
  "preserve inp i ms q =
     (if useSelectorBasedPreservation inp then preserveLastSyncTimeBySelector ms (ms_SelectorHash ms) q
      else (preserveLastSyncTime ms (in_PreviousStatus inp) i, q))"

definition status_row :: "ComputeStatusInput \<Rightarrow> (string, string list) gomap \<Rightarrow> nat \<Rightarrow> Mapping \<Rightarrow> (string, gotime list) gomap \<Rightarrow>
    MappingStatus \<times> (string, gotime list) gomap" where
  "status_row inp targetFailures i m q =
     (let ms = \<lparr>ms_SelectorHash = ComputeSelectorHash (sel_MatchLabels (rule_PodSelector m)),
                ms_MatchedPods = (if i < length (in_MatchedPodsByIndex inp) then in_MatchedPodsByIndex inp ! i else 0),
                ms_ASGSyncState = [], ms_LastSyncTime = 0, ms_Error = []\<rparr> in
      if in_ValidationIssues inp \<noteq> [] then
        (let msgs = validationMessagesForMapping (in_ValidationIssues inp) (int i) in
         preserve inp i (ms\<lparr>ms_ASGSyncState := SyncStateError,
           ms_Error := (if msgs \<noteq> [] then Join msgs ''; '' else ''spec validation failed'')\<rparr>) q)
      else if in_Phase inp = StatusPhasePending then
        preserve inp i (ms\<lparr>ms_ASGSyncState := SyncStatePending\<rparr>) q
      else if isSystemicFailure inp then
        preserve inp i (ms\<lparr>ms_ASGSyncState := SyncStateError,
          ms_Error := (case in_ReconcileErr inp of Some err \<Rightarrow> err_text err | None \<Rightarrow> [])\<rparr>) q
      else
        (let rowErrors = row_errors (in_PrefixSetName inp) targetFailures (rule_ASGs m) in
         if rowErrors \<noteq> [] then
           preserve inp i (ms\<lparr>ms_ASGSyncState := SyncStateError, ms_Error := Join (dedupStrings (sort rowErrors)) ''; ''\<rparr>) q
         else (ms\<lparr>ms_ASGSyncState := SyncStateSynced, ms_LastSyncTime := in_Now inp\<rparr>, q)))"

fun status_rows :: "ComputeStatusInput \<Rightarrow> (string, string list) gomap \<Rightarrow> nat \<Rightarrow> Mapping list \<Rightarrow> (string, gotime list) gomap \<Rightarrow>
    MappingStatus list" where
  "status_rows inp tf i [] q = []"
| "status_rows inp tf i (m # ms) q = (let (row, q) = status_row inp tf i m q in row # status_rows inp tf (Suc i) ms q)"

definition ComputeStatus :: "gotime \<times> gotime \<Rightarrow> ComputeStatusInput \<Rightarrow> PodASGMappingStatus" where
  "ComputeStatus clk inp =
     (let mappings = spec_Mappings (in_Spec inp);
          status = \<lparr>st_Conditions = [], st_MappingCount = int (length mappings), st_MappingStatuses = []\<rparr>;
          status = status_conditions clk inp status;
          prevBySelector = (if useSelectorBasedPreservation inp
            then buildPreviousLastSyncBySelector (st_MappingStatuses (in_PreviousStatus inp)) else [])
      in status\<lparr>st_MappingStatuses := status_rows inp (target_failures (in_Results inp)) 0 mappings prevBySelector\<rparr>)"

definition condition_equal :: "Condition \<Rightarrow> Condition \<Rightarrow> bool" where
  "condition_equal ca cb \<longleftrightarrow> cond_Type ca = cond_Type cb \<and> cond_Status ca = cond_Status cb \<and> cond_Reason ca = cond_Reason cb \<and>
     cond_Message ca = cond_Message cb \<and> cond_ObservedGeneration ca = cond_ObservedGeneration cb"

definition row_equal :: "MappingStatus \<Rightarrow> MappingStatus \<Rightarrow> bool" where
  "row_equal ma mb \<longleftrightarrow> ms_SelectorHash ma = ms_SelectorHash mb \<and> ms_MatchedPods ma = ms_MatchedPods mb \<and>
     ms_ASGSyncState ma = ms_ASGSyncState mb \<and> ms_Error ma = ms_Error mb \<and> ms_LastSyncTime ma = ms_LastSyncTime mb"

definition statusSemanticEqual :: "PodASGMappingStatus \<Rightarrow> PodASGMappingStatus \<Rightarrow> bool" where
  "statusSemanticEqual a b \<longleftrightarrow>
     st_MappingCount a = st_MappingCount b \<and>
     length (st_Conditions a) = length (st_Conditions b) \<and>
     list_all (\<lambda>(ca, cb). condition_equal ca cb) (zip (st_Conditions a) (st_Conditions b)) \<and>
     length (st_MappingStatuses a) = length (st_MappingStatuses b) \<and>
     list_all (\<lambda>(ma, mb). row_equal ma mb) (zip (st_MappingStatuses a) (st_MappingStatuses b))"


section \<open>Lemmas\<close>

subsection \<open>Conditions\<close>

lemma upsert_types:
  "set (map cond_Type (upsert_condition now gen t v r m cs)) = insert t (set (map cond_Type cs))"
  by (induction cs) (auto simp: Let_def)

lemma upsert_distinct:
  "distinct (map cond_Type cs) \<Longrightarrow> distinct (map cond_Type (upsert_condition now gen t v r m cs))"
proof (induction cs)
  case (Cons c cs)
  have "cond_Type c \<notin> set (map cond_Type (upsert_condition now gen t v r m cs))" if "cond_Type c \<noteq> t"
    using that Cons.prems unfolding upsert_types by simp
  then show ?case using Cons by (auto simp: Let_def)
qed simp

subsection \<open>Failures by target\<close>

lemma target_failures_get:
  "gget_or [] (fold (\<lambda>r targetFailures.
             case ar_Err r of
               Some err \<Rightarrow>
                 if \<not> ar_Success r
                 then gput (failure_key r) (gget_or [] targetFailures (failure_key r) @ [failure_message r err]) targetFailures
                 else targetFailures
             | None \<Rightarrow> targetFailures) results acc) k =
   gget_or [] acc k @ map (\<lambda>r. failure_message r (the (ar_Err r)))
     (filter (\<lambda>r. \<not> ar_Success r \<and> ar_Err r \<noteq> None \<and> failure_key r = k) results)"
proof (induction results arbitrary: acc)
  case (Cons r results)
  show ?case by (simp add: Cons.IH split: option.split)
qed simp

lemma target_failures_nonempty:
  "gget_or [] (target_failures results) k \<noteq> [] \<longleftrightarrow>
     (\<exists>r \<in> set results. \<not> ar_Success r \<and> ar_Err r \<noteq> None \<and> failure_key r = k)"
  by (auto simp: target_failures_def target_failures_get filter_empty_conv)

definition row_failed :: "ComputeStatusInput \<Rightarrow> Mapping \<Rightarrow> bool" where
  "row_failed inp m \<longleftrightarrow> (\<exists>r \<in> set (in_Results inp). \<not> ar_Success r \<and> ar_Err r \<noteq> None \<and>
     (\<exists>ref \<in> set (rule_ASGs m). \<exists>parsed. ParseASGResourceID (ref_ResourceID ref) = Inr parsed \<and>
        failure_key r = targetIdentityKey (par_FullResourceID parsed) (in_PrefixSetName inp)))"

lemma row_errors_nonempty:
  "row_errors (in_PrefixSetName inp) (target_failures (in_Results inp)) (rule_ASGs m) \<noteq> [] \<longleftrightarrow> row_failed inp m"
proof -
  have "row_errors p tf refs \<noteq> [] \<longleftrightarrow>
    (\<exists>ref \<in> set refs. \<exists>parsed. ParseASGResourceID (ref_ResourceID ref) = Inr parsed \<and>
       gget_or [] tf (targetIdentityKey (par_FullResourceID parsed) p) \<noteq> [])" for p tf refs
    by (induction refs) (auto simp: row_errors_def split: sum.splits)
  then show ?thesis unfolding row_failed_def by (simp only: target_failures_nonempty) blast
qed

subsection \<open>Rows\<close>

lemma preserve_keeps [simp]:
  "ms_SelectorHash (fst (preserve inp i ms q)) = ms_SelectorHash ms"
  "ms_MatchedPods (fst (preserve inp i ms q)) = ms_MatchedPods ms"
  "ms_ASGSyncState (fst (preserve inp i ms q)) = ms_ASGSyncState ms"
  "ms_Error (fst (preserve inp i ms q)) = ms_Error ms"
  by (auto simp: preserve_def preserveLastSyncTimeBySelector_def preserveLastSyncTime_def split: option.splits prod.splits)

lemma length_status_rows [simp]: "length (status_rows inp tf i ms q) = length ms"
  by (induction ms arbitrary: i q) (auto simp: Let_def split_beta)

lemma status_rows_nth:
  "j < length ms \<Longrightarrow> \<exists>q'. status_rows inp tf i ms q ! j = fst (status_row inp tf (i + j) (ms ! j) q')"
proof (induction ms arbitrary: i j q)
  case (Cons m ms)
  show ?case
  proof (cases j)
    case 0
    then show ?thesis by (auto simp: Let_def split_beta)
  next
    case (Suc k)
    then show ?thesis using Cons.IH [of k "Suc i"] Cons.prems by (simp add: Let_def split_beta)
  qed
qed simp

definition row_state :: "ComputeStatusInput \<Rightarrow> Mapping \<Rightarrow> string" where
  "row_state inp m =
     (if in_ValidationIssues inp \<noteq> [] then SyncStateError
      else if in_Phase inp = StatusPhasePending then SyncStatePending
      else if in_ReconcileErr inp \<noteq> None \<and> in_Results inp = [] then SyncStateError
      else if row_failed inp m then SyncStateError else SyncStateSynced)"

lemma sync_states_distinct [simp]:
  "SyncStateError \<noteq> SyncStateSynced" "SyncStatePending \<noteq> SyncStateSynced" "SyncStateSynced \<noteq> SyncStateError"
  "SyncStateSynced \<noteq> SyncStatePending"
  by (simp_all add: SyncStateError_def SyncStateSynced_def SyncStatePending_def)

lemma systemic_iff:
  "in_ValidationIssues inp = [] \<Longrightarrow> in_Phase inp \<noteq> StatusPhasePending \<Longrightarrow>
     isSystemicFailure inp \<longleftrightarrow> in_ReconcileErr inp \<noteq> None \<and> in_Results inp = []"
  by (cases "in_Phase inp") (auto simp: isSystemicFailure_def)

lemma status_row_state:
  "ms_ASGSyncState (fst (status_row inp (target_failures (in_Results inp)) i m q)) = row_state inp m"
  by (simp add: status_row_def Let_def row_errors_nonempty row_state_def systemic_iff)

lemma status_row_synced:
  "row_state inp m = SyncStateSynced \<Longrightarrow>
     ms_LastSyncTime (fst (status_row inp (target_failures (in_Results inp)) i m q)) = in_Now inp \<and>
     ms_Error (fst (status_row inp (target_failures (in_Results inp)) i m q)) = []"
  by (auto simp: status_row_def Let_def row_errors_nonempty row_state_def systemic_iff split: if_splits)

lemma status_row_hash:
  "ms_SelectorHash (fst (status_row inp tf i m q)) = ComputeSelectorHash (sel_MatchLabels (rule_PodSelector m))"
  "ms_MatchedPods (fst (status_row inp tf i m q)) =
     (if i < length (in_MatchedPodsByIndex inp) then in_MatchedPodsByIndex inp ! i else 0)"
  by (auto simp: status_row_def Let_def)

abbreviation status_rows_of :: "gotime \<times> gotime \<Rightarrow> ComputeStatusInput \<Rightarrow> MappingStatus list" where
  "status_rows_of clk inp \<equiv> st_MappingStatuses (ComputeStatus clk inp)"

lemma ComputeStatus_row:
  assumes "i < length (spec_Mappings (in_Spec inp))"
  obtains q where "status_rows_of clk inp ! i = fst (status_row inp (target_failures (in_Results inp)) i (spec_Mappings (in_Spec inp) ! i) q)"
  using status_rows_nth [OF assms, of inp "target_failures (in_Results inp)" 0] by (auto simp: ComputeStatus_def Let_def)

lemma length_ComputeStatus_rows [simp]: "length (status_rows_of clk inp) = length (spec_Mappings (in_Spec inp))"
  by (simp add: ComputeStatus_def Let_def)

lemma ComputeStatus_conditions:
  "st_Conditions (ComputeStatus clk inp) =
     st_Conditions (status_conditions clk inp \<lparr>st_Conditions = [], st_MappingCount = int (length (spec_Mappings (in_Spec inp))),
       st_MappingStatuses = []\<rparr>)"
  by (simp add: ComputeStatus_def Let_def)

lemma condition_types_distinct [simp]: "ConditionAccepted \<noteq> ConditionReconciled" "ConditionReconciled \<noteq> ConditionAccepted"
  by (simp_all add: ConditionAccepted_def ConditionReconciled_def)

definition reconciled_status :: "ComputeStatusInput \<Rightarrow> ConditionStatus" where
  "reconciled_status inp =
     (if in_ValidationIssues inp \<noteq> [] then ConditionFalse
      else if in_Phase inp = StatusPhasePending then ConditionUnknown
      else if in_ReconcileErr inp \<noteq> None \<or> (\<exists>r \<in> set (in_Results inp). \<not> ar_Success r) then ConditionFalse
      else ConditionTrue)"

lemma ComputeStatus_two_conditions:
  "map (\<lambda>c. (cond_Type c, cond_Status c, cond_LastTransitionTime c)) (st_Conditions (ComputeStatus clk inp)) =
     [(ConditionAccepted, if in_ValidationIssues inp = [] then ConditionTrue else ConditionFalse, fst clk),
      (ConditionReconciled, reconciled_status inp, snd clk)]"
  unfolding ComputeStatus_conditions
  by (auto simp: status_conditions_def SetCondition_def Let_def reconciled_status_def hasFailedResults_def list_ex_iff
      split: option.splits)

subsection \<open>Preservation by selector\<close>

abbreviation times_of :: "string \<Rightarrow> MappingStatus list \<Rightarrow> gotime list" where
  "times_of h rows \<equiv> map ms_LastSyncTime (filter (\<lambda>r. ms_SelectorHash r = h) rows)"

lemma buildPrevious_get:
  "gget_or [] (fold (\<lambda>ms result. gput (ms_SelectorHash ms) (gget_or [] result (ms_SelectorHash ms) @ [ms_LastSyncTime ms]) result) prev acc) h =
     gget_or [] acc h @ times_of h prev"
proof (induction prev arbitrary: acc)
  case (Cons ms prev)
  show ?case by (simp add: Cons.IH)
qed simp

text \<open>The first \<open>n\<close> of the preserved times, then the zero time.\<close>

definition take_or_zero :: "nat \<Rightarrow> gotime list \<Rightarrow> gotime list" where
  "take_or_zero n ts = take n ts @ replicate (n - length ts) 0"

lemma take_or_zero_Suc:
  "take_or_zero (Suc n) [] = 0 # take_or_zero n []" "take_or_zero (Suc n) (t # ts) = t # take_or_zero n ts"
  by (simp_all add: take_or_zero_def)

definition preserves_all :: "ComputeStatusInput \<Rightarrow> bool" where
  "preserves_all inp \<longleftrightarrow> in_ValidationIssues inp \<noteq> [] \<or> in_Phase inp = StatusPhasePending \<or>
     in_ReconcileErr inp \<noteq> None \<and> in_Results inp = []"

lemma preserves_all_row:
  assumes "preserves_all inp"
  obtains ms where "status_row inp tf i m q = preserve inp i ms q" and
    "ms_SelectorHash ms = ComputeSelectorHash (sel_MatchLabels (rule_PodSelector m))" and "ms_LastSyncTime ms = 0"
proof -
  consider "in_ValidationIssues inp \<noteq> []" | "in_ValidationIssues inp = []" "in_Phase inp = StatusPhasePending"
    | "in_ValidationIssues inp = []" "in_Phase inp \<noteq> StatusPhasePending" "isSystemicFailure inp"
    using assms by (auto simp: preserves_all_def systemic_iff)
  then have "\<exists>ms. status_row inp tf i m q = preserve inp i ms q \<and>
    ms_SelectorHash ms = ComputeSelectorHash (sel_MatchLabels (rule_PodSelector m)) \<and> ms_LastSyncTime ms = 0"
  proof cases
    case 1
    then show ?thesis unfolding status_row_def Let_def by (simp only: if_True simp_thms not_True_eq_False) (rule exI, rule conjI, rule refl, simp)
  next
    case 2
    then show ?thesis unfolding status_row_def Let_def by (simp only: if_True if_False simp_thms) (rule exI, rule conjI, rule refl, simp)
  next
    case 3
    then show ?thesis unfolding status_row_def Let_def by (simp only: if_True if_False simp_thms) (rule exI, rule conjI, rule refl, simp)
  qed
  then show thesis using that by blast
qed

lemma preserve_by_selector:
  assumes "useSelectorBasedPreservation inp" and "ms_LastSyncTime ms = 0" and "preserve inp i ms q = (row, q')"
  shows "ms_LastSyncTime row = (case gget_or [] q (ms_SelectorHash ms) of [] \<Rightarrow> 0 | t # ts \<Rightarrow> t)"
    and "gget_or [] q' h = (if h = ms_SelectorHash ms then tl (gget_or [] q h) else gget_or [] q h)"
  using assms
  by (auto simp: preserve_def preserveLastSyncTimeBySelector_def popPreviousLastSync_def gget_or_def
      split: option.splits list.splits prod.splits if_splits)

lemma status_rows_times:
  assumes "preserves_all inp" and "useSelectorBasedPreservation inp"
  shows "times_of h (status_rows inp tf i ms q) =
    take_or_zero (length (filter (\<lambda>m. ComputeSelectorHash (sel_MatchLabels (rule_PodSelector m)) = h) ms)) (gget_or [] q h)"
proof (induction ms arbitrary: i q)
  case Nil
  then show ?case by (simp add: take_or_zero_def)
next
  case (Cons m ms)
  obtain r0 where r0: "status_row inp tf i m q = preserve inp i r0 q"
    "ms_SelectorHash r0 = ComputeSelectorHash (sel_MatchLabels (rule_PodSelector m))" "ms_LastSyncTime r0 = 0"
    by (rule preserves_all_row [OF assms(1)])
  obtain row q' where rq: "preserve inp i r0 q = (row, q')" by (cases "preserve inp i r0 q")
  note p = preserve_by_selector [OF assms(2) r0(3) rq]
  have hash: "ms_SelectorHash row = ms_SelectorHash r0" using preserve_keeps(1) [of inp i r0 q] rq by simp
  have rows: "status_rows inp tf i (m # ms) q = row # status_rows inp tf (Suc i) ms q'" by (simp add: r0(1) rq)
  show ?case
  proof (cases "ms_SelectorHash r0 = h")
    case True
    then show ?thesis unfolding rows using Cons.IH [of "Suc i" q'] p(1) p(2) [of h] hash r0(2)
      by (cases "gget_or [] q h") (simp_all add: take_or_zero_Suc)
  next
    case False
    then show ?thesis unfolding rows using Cons.IH [of "Suc i" q'] p(2) [of h] hash r0(2) by auto
  qed
qed


subsection \<open>Selector hashes and comparison\<close>

lemma selector_text_order:
  assumes "wfmap ls" and "wfmap ls'" and "map_of ls = map_of ls'"
  shows "selector_text ls = selector_text ls'"
proof -
  have "set (gkeys ls) = set (gkeys ls')" using assms(3) by (metis dom_map_of_conv_image_fst list.set_map)
  then have "sort (gkeys ls) = sort (gkeys ls')" using assms(1,2) by (metis sorted_list_of_set_sort_remdups remdups_id_iff_distinct)
  moreover have "gget_or [] ls = gget_or [] ls'" by (rule ext) (simp add: gget_or_def assms(3))
  ultimately show ?thesis by (simp add: selector_text_def)
qed

lemma set_take_Sum256: "b \<in> set (take n (Sum256 s)) \<Longrightarrow> b < 256"
  by (rule Sum256_lt) (rule in_set_takeD)

definition clear_transitions :: "PodASGMappingStatus \<Rightarrow> PodASGMappingStatus" where
  "clear_transitions s = s\<lparr>st_Conditions := map (\<lambda>c. c\<lparr>cond_LastTransitionTime := 0\<rparr>) (st_Conditions s)\<rparr>"

lemma condition_equal_iff: "condition_equal a b \<longleftrightarrow> a\<lparr>cond_LastTransitionTime := 0\<rparr> = b\<lparr>cond_LastTransitionTime := 0\<rparr>"
  by (cases a; cases b) (auto simp: condition_equal_def)

lemma row_equal_iff: "row_equal a b \<longleftrightarrow> a = b"
  by (cases a; cases b) (auto simp: row_equal_def)

lemma zip_equal_iff:
  "length xs = length ys \<and> list_all (\<lambda>(x, y). f x = f y) (zip xs ys) \<longleftrightarrow> map f xs = map f ys"
proof (induction xs arbitrary: ys)
  case (Cons x xs)
  then show ?case by (cases ys) auto
qed auto

text \<open>A mapping of one rule whose action failed, after a status with another order of rules.\<close>

definition ex_status_input :: "StatusPhase \<Rightarrow> ActionResult list \<Rightarrow> ComputeStatusInput" where
  "ex_status_input phase results =
     \<lparr>in_Spec = \<lparr>spec_Mappings = [\<lparr>rule_PodSelector = \<lparr>sel_MatchLabels = None\<rparr>, rule_ASGs = []\<rparr>,
        \<lparr>rule_PodSelector = \<lparr>sel_MatchLabels = None\<rparr>, rule_ASGs = []\<rparr>]\<rparr>,
      in_PreviousStatus = \<lparr>st_Conditions = [], st_MappingCount = 2, st_MappingStatuses =
        [\<lparr>ms_SelectorHash = ''aa'', ms_MatchedPods = 0, ms_ASGSyncState = SyncStateSynced, ms_LastSyncTime = 5, ms_Error = []\<rparr>,
         \<lparr>ms_SelectorHash = [], ms_MatchedPods = 0, ms_ASGSyncState = SyncStateSynced, ms_LastSyncTime = 7, ms_Error = []\<rparr>]\<rparr>,
      in_PrefixSetName = ''c-ns-m'', in_Results = results, in_MatchedPodsByIndex = [1, 2], in_ValidationIssues = [],
      in_ReconcileErr = None, in_ObservedGeneration = 1, in_Phase = phase, in_Now = 9\<rparr>"

section \<open>Properties\<close>

text \<open>C26:
  The status has one row per rule, in the order of the rules, with the hash of the rule's
  selector; its sync state is \<open>Error\<close> after a validation failure, \<open>Pending\<close> before execution,
  \<open>Error\<close> after a failure before any action ran, and otherwise \<open>Error\<close> exactly when an action
  on one of the rule's ASGs failed with an error, and \<open>Synced\<close> when none did.
\<close>

theorem status_rows_exact:
  shows "st_MappingCount (ComputeStatus clk inp) = int (length (spec_Mappings (in_Spec inp))) \<and>
    map ms_ASGSyncState (st_MappingStatuses (ComputeStatus clk inp)) = map (row_state inp) (spec_Mappings (in_Spec inp)) \<and>
    map ms_SelectorHash (st_MappingStatuses (ComputeStatus clk inp)) =
      map (\<lambda>m. ComputeSelectorHash (sel_MatchLabels (rule_PodSelector m))) (spec_Mappings (in_Spec inp))"
proof -
  let ?ms = "spec_Mappings (in_Spec inp)"
  have row: "ms_ASGSyncState (status_rows_of clk inp ! i) = row_state inp (?ms ! i)"
    "ms_SelectorHash (status_rows_of clk inp ! i) = ComputeSelectorHash (sel_MatchLabels (rule_PodSelector (?ms ! i)))"
    if i: "i < length ?ms" for i
    by (rule ComputeStatus_row [OF i, of clk], simp add: status_row_state status_row_hash)+
  have "st_MappingCount (ComputeStatus clk inp) = int (length ?ms)"
    by (auto simp: ComputeStatus_def status_conditions_def SetCondition_def Let_def split: option.splits)
  then show ?thesis using row by (auto intro: nth_equalityI)
qed

text \<open>C27:
  The \<open>Reconciled\<close> condition never contradicts the rows: if it is \<open>True\<close>, every row is
  \<open>Synced\<close> now and shows no error.
\<close>

theorem reconciled_true_all_synced:
  assumes "c \<in> set (st_Conditions (ComputeStatus clk inp))" and "cond_Type c = ConditionReconciled"
    and "cond_Status c = ConditionTrue" and "row \<in> set (st_MappingStatuses (ComputeStatus clk inp))"
  shows "ms_ASGSyncState row = SyncStateSynced \<and> ms_LastSyncTime row = in_Now inp \<and> ms_Error row = []"
proof -
  have "(ConditionReconciled, ConditionTrue, cond_LastTransitionTime c) \<in>
    set (map (\<lambda>c. (cond_Type c, cond_Status c, cond_LastTransitionTime c)) (st_Conditions (ComputeStatus clk inp)))"
    using assms(1-3) by force
  then have rec: "reconciled_status inp = ConditionTrue" unfolding ComputeStatus_two_conditions by simp
  then have state: "row_state inp m = SyncStateSynced" for m
    by (auto simp: reconciled_status_def row_state_def row_failed_def split: if_splits)
  obtain i where i: "i < length (spec_Mappings (in_Spec inp))" "row = status_rows_of clk inp ! i"
    using assms(4) by (auto simp: in_set_conv_nth)
  show ?thesis
    by (rule ComputeStatus_row [OF i(1), of clk]) (use i(2) state status_row_state status_row_synced in metis)
qed

theorem reconciled_true_all_synced_witness:
  "map ms_ASGSyncState (st_MappingStatuses (ComputeStatus (3, 4) (ex_status_input StatusPhaseFinal []))) = [SyncStateSynced, SyncStateSynced]"
proof -
  let ?s = "ComputeStatus (3, 4) (ex_status_input StatusPhaseFinal [])"
  let ?c = "\<lparr>cond_Type = ConditionReconciled, cond_Status = ConditionTrue, cond_ObservedGeneration = 1,
    cond_Reason = ReasonReconcileSucceeded, cond_Message = [], cond_LastTransitionTime = 4\<rparr>"
  have c: "?c \<in> set (st_Conditions ?s)"
    by (simp add: ComputeStatus_conditions status_conditions_def ex_status_input_def SetCondition_def hasFailedResults_def)
  have two: "length xs = Suc (Suc 0) \<Longrightarrow> \<exists>a b. xs = [a, b]" for xs :: "MappingStatus list" by (auto simp: length_Suc_conv)
  have "length (st_MappingStatuses ?s) = Suc (Suc 0)" by (simp add: ex_status_input_def)
  from two [OF this] obtain a b where ab: "st_MappingStatuses ?s = [a, b]" by blast
  then have "ms_ASGSyncState a = SyncStateSynced" "ms_ASGSyncState b = SyncStateSynced"
    using reconciled_true_all_synced [OF c, of a] reconciled_true_all_synced [OF c, of b] by simp_all
  then show ?thesis using ab by simp
qed

text \<open>A status that syncs nothing keeps the times of the last sync by selector: whatever the order
  of the rules, the rows with a given selector hash take the times that the rows with that hash
  had before, in order, and further rows the zero time.
\<close>

theorem last_sync_preserved_by_selector:
  assumes "in_ValidationIssues inp \<noteq> [] \<or> in_Phase inp = StatusPhasePending \<or> in_ReconcileErr inp \<noteq> None \<and> in_Results inp = []"
    and "\<exists>row \<in> set (st_MappingStatuses (in_PreviousStatus inp)). ms_SelectorHash row \<noteq> []"
  shows "map ms_LastSyncTime (filter (\<lambda>r. ms_SelectorHash r = h) (st_MappingStatuses (ComputeStatus clk inp))) =
    take_or_zero (length (filter (\<lambda>m. ComputeSelectorHash (sel_MatchLabels (rule_PodSelector m)) = h) (spec_Mappings (in_Spec inp))))
      (map ms_LastSyncTime (filter (\<lambda>r. ms_SelectorHash r = h) (st_MappingStatuses (in_PreviousStatus inp))))"
proof -
  have sel: "useSelectorBasedPreservation inp" using assms(2) by (simp add: useSelectorBasedPreservation_def list_ex_iff)
  have q: "gget_or [] (buildPreviousLastSyncBySelector (st_MappingStatuses (in_PreviousStatus inp))) h =
    times_of h (st_MappingStatuses (in_PreviousStatus inp))"
    by (simp add: buildPreviousLastSyncBySelector_def buildPrevious_get)
  have "preserves_all inp" using assms(1) by (simp add: preserves_all_def)
  from status_rows_times [OF this sel] show ?thesis using sel by (simp add: ComputeStatus_def Let_def q)
qed

theorem last_sync_preserved_by_selector_witness:
  "map ms_LastSyncTime (filter (\<lambda>r. ms_SelectorHash r = []) (st_MappingStatuses
     (ComputeStatus (3, 4) (ex_status_input StatusPhasePending [])))) = [7, 0]"
  using last_sync_preserved_by_selector [of "ex_status_input StatusPhasePending []" "[]" "(3, 4)"]
  by (simp add: ex_status_input_def ComputeSelectorHash_def nlen_def take_or_zero_def)

text \<open>Every status \<open>ComputeStatus\<close> returns carries the current time as the transition time of both
  conditions, whatever the previous status was: a condition that did not change does not keep
  its transition time.
\<close>

theorem transition_times_always_reset:
  "map (\<lambda>c. (cond_Type c, cond_LastTransitionTime c)) (st_Conditions (ComputeStatus clk inp)) =
     [(ConditionAccepted, fst clk), (ConditionReconciled, snd clk)]"
proof -
  have "map (\<lambda>c. (cond_Type c, cond_LastTransitionTime c)) (st_Conditions (ComputeStatus clk inp)) =
    map (\<lambda>(t, s, n). (t, n)) (map (\<lambda>c. (cond_Type c, cond_Status c, cond_LastTransitionTime c)) (st_Conditions (ComputeStatus clk inp)))"
    by simp
  then show ?thesis unfolding ComputeStatus_two_conditions by simp
qed

text \<open>\<open>statusSemanticEqual\<close> is equality of statuses up to the transition times of the conditions.
\<close>

theorem status_semantic_equal_iff:
  "statusSemanticEqual a b \<longleftrightarrow> clear_transitions a = clear_transitions b"
proof -
  let ?f = "\<lambda>c. c\<lparr>cond_LastTransitionTime := 0\<rparr>"
  have "statusSemanticEqual a b \<longleftrightarrow> st_MappingCount a = st_MappingCount b \<and>
    map ?f (st_Conditions a) = map ?f (st_Conditions b) \<and>
    map (\<lambda>x. x) (st_MappingStatuses a) = map (\<lambda>x. x) (st_MappingStatuses b)"
    unfolding statusSemanticEqual_def condition_equal_iff row_equal_iff zip_equal_iff [symmetric] by blast
  then show ?thesis by (cases a; cases b) (auto simp: clear_transitions_def)
qed

text \<open>
  The hash of a selector does not depend on the iteration order of its labels, and is empty or
  sixteen lower-case hexadecimal digits.
\<close>

theorem selector_hash_canonical:
  assumes "wfmap ls" and "wfmap ls'" and "map_of ls = map_of ls'"
  shows "ComputeSelectorHash (Some ls) = ComputeSelectorHash (Some ls') \<and>
    (ls \<noteq> [] \<longrightarrow> length (ComputeSelectorHash (Some ls)) = 16 \<and> set (ComputeSelectorHash (Some ls)) \<subseteq> set ''0123456789abcdef'')"
proof -
  have "ls = [] \<longleftrightarrow> ls' = []" using assms(3) by (metis map_of_eq_empty_iff)
  then have "ComputeSelectorHash (Some ls) = ComputeSelectorHash (Some ls')"
    using selector_text_order [OF assms] by (simp add: ComputeSelectorHash_def nlen_def)
  moreover have "set (hex_bytes (take 8 (Sum256 (selector_text ls)))) \<subseteq> set ''0123456789abcdef''"
    by (rule hex_bytes_digits) (auto dest: set_take_Sum256)
  ultimately show ?thesis by (auto simp: ComputeSelectorHash_def nlen_def)
qed

theorem selector_hash_canonical_witness:
  "ComputeSelectorHash (Some [(''app'', ''web''), (''tier'', ''fe'')]) = ComputeSelectorHash (Some [(''tier'', ''fe''), (''app'', ''web'')])"
proof -
  have "map_of [(''app'', ''web''), (''tier'', ''fe'')] = map_of [(''tier'', ''fe''), (''app'', ''web'')]" by auto
  then show ?thesis
    using selector_hash_canonical [of "[(''app'', ''web''), (''tier'', ''fe'')]" "[(''tier'', ''fe''), (''app'', ''web'')]"] by simp
qed

end
