(* ===== verification/Pod_Handler.thy ===== *)
theory Pod_Handler
  imports Status Cache_Parity
begin

text \<open>
  Pod events (\<open>internal/controller/pod_handler.go\<close>): the handler finds the mappings whose
  selectors match a pod, applies the event to the desired state cache and enqueues the
  mappings; and the predicates that filter events before (\<open>internal/controller/predicates.go\<close>).

  The Kubernetes reader is a parameter, the result of its \<open>List\<close> for a namespace; the
  \<open>Update\<close> handler lists twice and has two. The work queue is the list of the calls on it.
  Events carry pods: the type assertions on event objects are left out, and the lists of a
  mapping are never nil.
\<close>

section \<open>Validation\<close>

definition ref_issue :: "nat \<Rightarrow> nat \<times> ASGReference \<Rightarrow> ValidationIssue list" where
  "ref_issue i jr = (case jr of (j, asgRef) \<Rightarrow>
     (case ParseASGResourceID (ref_ResourceID asgRef) of
        Inl err \<Rightarrow> [\<lparr>vi_MappingIndex = int i, vi_ASGIndex = int j, vi_ResourceID = ref_ResourceID asgRef,
                    vi_Err = OtherError (parse_error_text err)\<rparr>]
      | Inr _ \<Rightarrow> []))"

definition validateASGResourceIDs :: "Mapping list \<Rightarrow> ValidationIssue list" where
  "validateASGResourceIDs mappings =
     concat (map (\<lambda>(i, m). concat (map (ref_issue i) (List.enumerate 0 (rule_ASGs m)))) (List.enumerate 0 mappings))"

definition aggregateValidationErrors :: "ValidationIssue list \<Rightarrow> goerror option" where
  "aggregateValidationErrors issues =
     (if issues = [] then None
      else Some (OtherError (''validation failed: '' @ Join (map (\<lambda>vi. ''mapping['' @ show_int (vi_MappingIndex vi) @ ''].asg['' @
        show_int (vi_ASGIndex vi) @ ''] '' @ Quote (vi_ResourceID vi) @ '': '' @ err_text (vi_Err vi)) issues) ''; '')))"

section \<open>Predicates\<close>

text \<open>\<open>reflect.DeepEqual\<close> of label maps: a nil map differs from an empty one.\<close>

definition labels_DeepEqual :: "labels \<Rightarrow> labels \<Rightarrow> bool" where
  "labels_DeepEqual a b =
     (case (a, b) of
        (None, None) \<Rightarrow> True
      | (Some x, Some y) \<Rightarrow> length x = length y \<and> list_all (\<lambda>(k, v). gget y k = Some v) x
      | _ \<Rightarrow> False)"

definition rule_DeepEqual :: "Mapping \<Rightarrow> Mapping \<Rightarrow> bool" where
  "rule_DeepEqual a b \<longleftrightarrow>
     labels_DeepEqual (sel_MatchLabels (rule_PodSelector a)) (sel_MatchLabels (rule_PodSelector b)) \<and> rule_ASGs a = rule_ASGs b"

definition spec_DeepEqual :: "PodASGMappingSpec \<Rightarrow> PodASGMappingSpec \<Rightarrow> bool" where
  "spec_DeepEqual a b \<longleftrightarrow> length (spec_Mappings a) = length (spec_Mappings b) \<and>
     list_all (\<lambda>(x, y). rule_DeepEqual x y) (zip (spec_Mappings a) (spec_Mappings b))"

definition podLabelOrIPChanged :: "Pod \<Rightarrow> Pod \<Rightarrow> bool" where
  "podLabelOrIPChanged oldPod newPod \<longleftrightarrow>
     (if p_PodIP oldPod \<noteq> p_PodIP newPod then True
      else if \<not> labels_DeepEqual (p_Labels oldPod) (p_Labels newPod) then True else False)"

definition mappingSpecOrLifecycleChanged :: "PodASGMapping \<Rightarrow> PodASGMapping \<Rightarrow> bool" where
  "mappingSpecOrLifecycleChanged oldM newM \<longleftrightarrow>
     (if \<not> spec_DeepEqual (m_Spec oldM) (m_Spec newM) then True
      else if m_Finalizers oldM \<noteq> m_Finalizers newM then True
      else if (m_DeletionTimestamp oldM = None) \<noteq> (m_DeletionTimestamp newM = None) then True
      else if m_DeletionTimestamp oldM \<noteq> None \<and> m_DeletionTimestamp newM \<noteq> None \<and>
        m_DeletionTimestamp oldM \<noteq> m_DeletionTimestamp newM then True
      else False)"

datatype 'a obj_event = CreateEvent 'a | DeleteEvent 'a | UpdateEvent 'a 'a | GenericEvent 'a

fun PodPredicate :: "Pod obj_event \<Rightarrow> bool" where
  "PodPredicate (CreateEvent _) = True"
| "PodPredicate (DeleteEvent _) = True"
| "PodPredicate (UpdateEvent old new) = podLabelOrIPChanged old new"
| "PodPredicate (GenericEvent _) = False"

fun MappingPredicate :: "PodASGMapping obj_event \<Rightarrow> bool" where
  "MappingPredicate (CreateEvent _) = True"
| "MappingPredicate (DeleteEvent _) = True"
| "MappingPredicate (UpdateEvent old new) = mappingSpecOrLifecycleChanged old new"
| "MappingPredicate (GenericEvent _) = False"

section \<open>Requests for a pod\<close>

record MappingList =
  ml_ResourceVersion :: string
  ml_Items :: "PodASGMapping list"

type_synonym reader = "string \<Rightarrow> goerror + MappingList"

record matchedMapping =
  mm_Mapping :: PodASGMapping
  mm_Request :: NamespacedName

record compiledPodMappingRequest =
  cr_namespacedName :: NamespacedName
  cr_selectors :: "Selector list"

record compiledPodMappingRequests =
  crs_cacheKey :: string
  crs_entries :: "compiledPodMappingRequest list"

type_synonym podMappingMatcherCache = "(string, compiledPodMappingRequests) gomap"

definition listPodASGMappings :: "reader \<Rightarrow> string \<Rightarrow> goerror + MappingList" where
  "listPodASGMappings reader namespace =
     (case reader namespace of
        Inl err \<Rightarrow> Inl (Wrapped (''listing PodASGMappings in namespace '' @ namespace) err)
      | Inr l \<Rightarrow> Inr l)"

definition mapping_matches :: "matcher \<Rightarrow> PodASGMapping \<Rightarrow> labels \<Rightarrow> bool" where
  "mapping_matches M m podLabels =
     list_ex (\<lambda>rule. case CompileSelector (rule_PodSelector rule) of Inl _ \<Rightarrow> False | Inr selector \<Rightarrow> M selector podLabels) (m_Mappings m)"

definition matchingMappingsForPodDetailed :: "matcher \<Rightarrow> reader \<Rightarrow> Pod \<Rightarrow> goerror + matchedMapping list" where
  "matchingMappingsForPodDetailed M reader pod =
     (case listPodASGMappings reader (p_Namespace pod) of
        Inl err \<Rightarrow> Inl err
      | Inr mappingList \<Rightarrow>
          Inr (map (\<lambda>m. \<lparr>mm_Mapping = m, mm_Request = mapping_key m\<rparr>)
                (filter (\<lambda>m. mapping_matches M m (p_Labels pod)) (ml_Items mappingList))))"

definition matchedMappingsToRequests :: "matchedMapping list \<Rightarrow> NamespacedName list" where
  "matchedMappingsToRequests matched = map mm_Request matched"

definition matchedMappingsByKey :: "matchedMapping list \<Rightarrow> (NamespacedName, PodASGMapping) gomap" where
  "matchedMappingsByKey matched = fold (\<lambda>mm result. gput (mm_Request mm) (mm_Mapping mm) result) matched []"

definition compile_request :: "PodASGMapping \<Rightarrow> compiledPodMappingRequest" where
  "compile_request m =
     \<lparr>cr_namespacedName = mapping_key m,
      cr_selectors = concat (map (\<lambda>rule. case CompileSelector (rule_PodSelector rule) of Inl _ \<Rightarrow> [] | Inr selector \<Rightarrow> [selector])
        (m_Mappings m))\<rparr>"

definition compilePodMappingRequests :: "PodASGMapping list \<Rightarrow> compiledPodMappingRequest list" where
  "compilePodMappingRequests mappings = sort_key (\<lambda>e. nn_String (cr_namespacedName e)) (map compile_request mappings)"

definition podMappingCacheKey :: "MappingList \<Rightarrow> string" where
  "podMappingCacheKey mappingList =
     (if ml_ResourceVersion mappingList \<noteq> [] then ml_ResourceVersion mappingList
      else concat (map (\<lambda>part. part @ '';'') (sort (map (\<lambda>m. m_Namespace m @ ''/'' @ m_Name m @ ''@'' @ m_ResourceVersion m @ ''#'' @
        show_int (m_Generation m)) (ml_Items mappingList)))))"

definition getOrBuild :: "podMappingMatcherCache \<Rightarrow> string \<Rightarrow> string \<Rightarrow> PodASGMapping list \<Rightarrow>
    compiledPodMappingRequests \<times> podMappingMatcherCache" where
  "getOrBuild c namespace cacheKey mappings =
     (let compiled = \<lparr>crs_cacheKey = cacheKey, crs_entries = compilePodMappingRequests mappings\<rparr> in
      case gget c namespace of
        Some cached \<Rightarrow> if crs_cacheKey cached = cacheKey then (cached, c) else (compiled, gput namespace compiled c)
      | None \<Rightarrow> (compiled, gput namespace compiled c))"

definition matchingCompiledPodMappingRequests :: "matcher \<Rightarrow> compiledPodMappingRequest list \<Rightarrow> Pod \<Rightarrow> NamespacedName list" where
  "matchingCompiledPodMappingRequests M entries pod =
     map cr_namespacedName (filter (\<lambda>e. list_ex (\<lambda>selector. M selector (p_Labels pod)) (cr_selectors e)) entries)"

text \<open>With a matcher cache or, for \<open>MatchingMappingsForPod\<close>, without.\<close>

definition matchingMappingsFromList :: "matcher \<Rightarrow> MappingList \<Rightarrow> Pod \<Rightarrow> podMappingMatcherCache option \<Rightarrow>
    NamespacedName list \<times> podMappingMatcherCache option" where
  "matchingMappingsFromList M mappingList pod cache =
     (case cache of
        Some c \<Rightarrow>
          let (compiled, c) = getOrBuild c (p_Namespace pod) (podMappingCacheKey mappingList) (ml_Items mappingList)
          in (matchingCompiledPodMappingRequests M (crs_entries compiled) pod, Some c)
      | None \<Rightarrow> (matchingCompiledPodMappingRequests M (compilePodMappingRequests (ml_Items mappingList)) pod, None))"

definition MatchingMappingsForPod :: "matcher \<Rightarrow> reader \<Rightarrow> Pod \<Rightarrow> goerror + NamespacedName list" where
  "MatchingMappingsForPod M reader pod =
     (case listPodASGMappings reader (p_Namespace pod) of
        Inl err \<Rightarrow> Inl err
      | Inr mappingList \<Rightarrow> Inr (fst (matchingMappingsFromList M mappingList pod None)))"

definition add_request :: "NamespacedName \<Rightarrow> NamespacedName list \<Rightarrow> NamespacedName list" where
  "add_request r result = (if r \<in> set result then result else result @ [r])"

definition UnionRequests :: "NamespacedName list \<Rightarrow> NamespacedName list \<Rightarrow> NamespacedName list" where
  "UnionRequests left right = sort_key nn_String (fold add_request right (fold add_request left []))"

section \<open>The handlers\<close>

datatype queue_call = QueueAdd NamespacedName | QueueAddAfter NamespacedName duration

record PodToMappingEventHandler =
  h_MinReconcileInterval :: duration
  h_DesiredStateCache :: "DesiredStateCache option"
  h_matcherCache :: "podMappingMatcherCache option"

definition NewPodToMappingEventHandler :: "duration \<Rightarrow> PodToMappingEventHandler" where
  "NewPodToMappingEventHandler minReconcileInterval =
     \<lparr>h_MinReconcileInterval = minReconcileInterval, h_DesiredStateCache = None, h_matcherCache = Some []\<rparr>"

definition NewPodToMappingEventHandlerWithCache :: "duration \<Rightarrow> DesiredStateCache \<Rightarrow> PodToMappingEventHandler" where
  "NewPodToMappingEventHandlerWithCache minReconcileInterval desiredStateCache =
     \<lparr>h_MinReconcileInterval = minReconcileInterval, h_DesiredStateCache = Some desiredStateCache, h_matcherCache = Some []\<rparr>"

definition enqueueRequest :: "PodToMappingEventHandler \<Rightarrow> NamespacedName \<Rightarrow> queue_call list \<Rightarrow> queue_call list" where
  "enqueueRequest h req q =
     (if h_MinReconcileInterval h > 0 then q @ [QueueAddAfter req (h_MinReconcileInterval h)] else q @ [QueueAdd req])"

definition matchingMappingsForPod :: "matcher \<Rightarrow> reader \<Rightarrow> Pod \<Rightarrow> PodToMappingEventHandler \<Rightarrow>
    (goerror + NamespacedName list) \<times> PodToMappingEventHandler" where
  "matchingMappingsForPod M reader pod h =
     (case listPodASGMappings reader (p_Namespace pod) of
        Inl err \<Rightarrow> (Inl err, h)
      | Inr mappingList \<Rightarrow>
          let (reqs, c) = matchingMappingsFromList M mappingList pod (h_matcherCache h)
          in (Inr reqs, h\<lparr>h_matcherCache := c\<rparr>))"

text \<open>The cache operation for one matched mapping in \<open>Create\<close> and \<open>Delete\<close>, and the loop with the enqueueing.\<close>

definition cache_on_create :: "matcher \<Rightarrow> Pod \<Rightarrow> matchedMapping \<Rightarrow> DesiredStateCache \<Rightarrow> DesiredStateCache" where
  "cache_on_create M pod m c =
     (if validateASGResourceIDs (m_Mappings (mm_Mapping m)) \<noteq> [] then Invalidate c (mm_Request m)
      else OnPodAdd M c (mm_Mapping m) pod)"

definition cache_on_delete :: "matcher \<Rightarrow> Pod \<Rightarrow> matchedMapping \<Rightarrow> DesiredStateCache \<Rightarrow> DesiredStateCache" where
  "cache_on_delete M pod m c =
     (if validateASGResourceIDs (m_Mappings (mm_Mapping m)) \<noteq> [] then Invalidate c (mm_Request m)
      else OnPodDelete M c (mm_Mapping m) pod)"

definition handle_matched :: "(matchedMapping \<Rightarrow> DesiredStateCache \<Rightarrow> DesiredStateCache) \<Rightarrow> PodToMappingEventHandler \<Rightarrow>
    matchedMapping list \<Rightarrow> DesiredStateCache \<times> queue_call list \<Rightarrow> DesiredStateCache \<times> queue_call list" where
  "handle_matched f h matched cq =
     fold (\<lambda>m (c, q). (f m c, enqueueRequest h (mm_Request m) q)) matched cq"

definition handle_one :: "(matchedMapping \<Rightarrow> DesiredStateCache \<Rightarrow> DesiredStateCache) \<Rightarrow> matcher \<Rightarrow> reader \<Rightarrow> Pod \<Rightarrow>
    PodToMappingEventHandler \<Rightarrow> queue_call list \<Rightarrow> PodToMappingEventHandler \<times> queue_call list" where
  "handle_one f M reader pod h q =
     (case h_DesiredStateCache h of
        None \<Rightarrow>
          (case matchingMappingsForPod M reader pod h of
             (Inl err, h) \<Rightarrow> (h, q)
           | (Inr reqs, h) \<Rightarrow> (h, fold (enqueueRequest h) reqs q))
      | Some c \<Rightarrow>
          (case matchingMappingsForPodDetailed M reader pod of
             Inl err \<Rightarrow> (h\<lparr>h_DesiredStateCache := Some (InvalidateNamespace c (p_Namespace pod))\<rparr>, q)
           | Inr matched \<Rightarrow>
               let (c, q) = handle_matched f h matched (c, q) in (h\<lparr>h_DesiredStateCache := Some c\<rparr>, q)))"

definition Handler_Create :: "matcher \<Rightarrow> reader \<Rightarrow> Pod \<Rightarrow> PodToMappingEventHandler \<Rightarrow> queue_call list \<Rightarrow>
    PodToMappingEventHandler \<times> queue_call list" where
  "Handler_Create M reader pod h q = handle_one (cache_on_create M pod) M reader pod h q"

definition Handler_Delete :: "matcher \<Rightarrow> reader \<Rightarrow> Pod \<Rightarrow> PodToMappingEventHandler \<Rightarrow> queue_call list \<Rightarrow>
    PodToMappingEventHandler \<times> queue_call list" where
  "Handler_Delete M reader pod h q = handle_one (cache_on_delete M pod) M reader pod h q"

definition Handler_Generic :: "Pod \<Rightarrow> PodToMappingEventHandler \<Rightarrow> queue_call list \<Rightarrow> PodToMappingEventHandler \<times> queue_call list" where
  "Handler_Generic pod h q = (h, q)"

text \<open>The cache operations of \<open>Update\<close> for one mapping key.\<close>

definition cache_on_update :: "matcher \<Rightarrow> Pod \<Rightarrow> Pod \<Rightarrow> (NamespacedName, PodASGMapping) gomap \<Rightarrow> (NamespacedName, PodASGMapping) gomap \<Rightarrow>
    NamespacedName \<Rightarrow> DesiredStateCache \<Rightarrow> DesiredStateCache" where
  "cache_on_update M oldPod newPod oldSet newSet key c =
     (case (gget oldSet key, gget newSet key) of
        (Some oldM, Some newM) \<Rightarrow>
          if validateASGResourceIDs (m_Mappings newM) \<noteq> [] then Invalidate c key
          else (case OnPodUpdate M c newM oldPod newPod of (c, ok) \<Rightarrow> if \<not> ok then Invalidate c key else c)
      | (Some oldM, None) \<Rightarrow>
          if validateASGResourceIDs (m_Mappings oldM) \<noteq> [] then Invalidate c key else OnPodDelete M c oldM oldPod
      | (None, Some newM) \<Rightarrow>
          if validateASGResourceIDs (m_Mappings newM) \<noteq> [] then Invalidate c key else OnPodAdd M c newM newPod
      | (None, None) \<Rightarrow> c)"

definition update_cache :: "matcher \<Rightarrow> Pod \<Rightarrow> Pod \<Rightarrow> goerror + matchedMapping list \<Rightarrow> goerror + matchedMapping list \<Rightarrow>
    DesiredStateCache \<Rightarrow> DesiredStateCache" where
  "update_cache M oldPod newPod oldRes newRes c =
     (case (oldRes, newRes) of
        (Inr oldMatched, Inr newMatched) \<Rightarrow>
          (let oldSet = matchedMappingsByKey oldMatched; newSet = matchedMappingsByKey newMatched;
               allKeys = fold sadd (gkeys newSet) (fold sadd (gkeys oldSet) [])
           in fold (cache_on_update M oldPod newPod oldSet newSet) allKeys c)
      | _ \<Rightarrow> InvalidateNamespace c (if p_Namespace oldPod = [] then p_Namespace newPod else p_Namespace oldPod))"

text \<open>A failed lookup leaves a nil slice.\<close>

definition ok_list :: "goerror + 'a list \<Rightarrow> 'a list" where
  "ok_list r = (case r of Inl _ \<Rightarrow> [] | Inr xs \<Rightarrow> xs)"

definition Handler_Update :: "matcher \<Rightarrow> reader \<Rightarrow> reader \<Rightarrow> Pod \<Rightarrow> Pod \<Rightarrow> PodToMappingEventHandler \<Rightarrow> queue_call list \<Rightarrow>
    PodToMappingEventHandler \<times> queue_call list" where
  "Handler_Update M reader1 reader2 oldPod newPod h q =
     (case h_DesiredStateCache h of
        None \<Rightarrow>
          (let (oldReqs, h) = matchingMappingsForPod M reader1 oldPod h;
               (newReqs, h) = matchingMappingsForPod M reader2 newPod h
           in (h, fold (enqueueRequest h) (UnionRequests (ok_list oldReqs) (ok_list newReqs)) q))
      | Some c \<Rightarrow>
          (let oldRes = matchingMappingsForPodDetailed M reader1 oldPod;
               newRes = matchingMappingsForPodDetailed M reader2 newPod;
               union = UnionRequests (matchedMappingsToRequests (ok_list oldRes)) (matchedMappingsToRequests (ok_list newRes))
           in (h\<lparr>h_DesiredStateCache := Some (update_cache M oldPod newPod oldRes newRes c)\<rparr>, fold (enqueueRequest h) union q)))"


section \<open>Lemmas\<close>

lemma mapping_matches_iff: "mapping_matches M m ls \<longleftrightarrow> (\<exists>rule \<in> set (m_Mappings m). rule_matches M rule ls)"
  by (simp add: mapping_matches_def rule_matches_def list_ex_iff)

lemma mapping_matches_selected: "p_Namespace p = m_Namespace m \<Longrightarrow> mapping_matches M m (p_Labels p) \<longleftrightarrow> selected_by M m p"
  by (auto simp: mapping_matches_iff selected_by_def rule_selects_iff)

lemma compile_request_matches:
  "list_ex (\<lambda>sel. M sel ls) (cr_selectors (compile_request m)) \<longleftrightarrow> mapping_matches M m ls"
  by (auto simp: compile_request_def mapping_matches_def list_ex_iff split: sum.splits)

subsection \<open>The invariant depends only on the selected pods\<close>

lemma length_filter_mset: "mset xs = mset ys \<Longrightarrow> length (filter P xs) = length (filter P ys)"
  by (metis mset_filter size_mset)

lemma entry_ok_selected:
  assumes "mset (filter (selected_by M m) pods) = mset (filter (selected_by M m) pods')"
  shows "entry_ok M cl m pods e \<longleftrightarrow> entry_ok M cl m pods' e"
proof -
  let ?sel = "selected_by M m"
  have set: "p \<in> set pods \<and> ?sel p \<longleftrightarrow> p \<in> set pods' \<and> ?sel p" for p
    using arg_cong [OF assms, of set_mset] by (simp add: set_eq_iff)
  have sel: "rule_selects M m rule p \<Longrightarrow> rule \<in> set (m_Mappings m) \<Longrightarrow> ?sel p" for rule p by (auto simp: selected_by_def)
  have "rule_ips M m pods i = rule_ips M m pods' i" if "i < length (m_Mappings m)" for i
    unfolding rule_ips_def using set sel [OF _ nth_mem [OF that]] by blast
  then have "desired_ok M cl m pods D \<longleftrightarrow> desired_ok M cl m pods' D" for D by (simp add: desired_ok_def)
  moreover have "snap_ok M m pods S \<longleftrightarrow> snap_ok M m pods' S" for S
  proof -
    have "(\<forall>p \<in> set pods. pod_id p = x \<longrightarrow> \<not> (?sel p \<and> p_PodIP p \<noteq> [])) \<longleftrightarrow> (\<forall>p \<in> set pods'. pod_id p = x \<longrightarrow> \<not> (?sel p \<and> p_PodIP p \<noteq> []))"
      "(\<exists>p \<in> set pods. pod_id p = x \<and> ?sel p \<and> Q p) \<longleftrightarrow> (\<exists>p \<in> set pods'. pod_id p = x \<and> ?sel p \<and> Q p)" for x Q using set by blast+
    then show ?thesis unfolding snap_ok_def by presburger
  qed
  moreover have "rules_ok M m pods R \<longleftrightarrow> rules_ok M m pods' R" for R
  proof -
    have "(\<forall>p \<in> set pods. pod_id p = x \<longrightarrow> \<not> ?sel p) \<longleftrightarrow> (\<forall>p \<in> set pods'. pod_id p = x \<longrightarrow> \<not> ?sel p)"
      "(\<exists>p \<in> set pods. pod_id p = x \<and> ?sel p \<and> Q p) \<longleftrightarrow> (\<exists>p \<in> set pods'. pod_id p = x \<and> ?sel p \<and> Q p)" for x Q using set by blast+
    then show ?thesis unfolding rules_ok_def by presburger
  qed
  moreover have "matched_counts M m pods = matched_counts M m pods'"
  proof -
    have "length (filter (rule_selects M m rule) xs) = length (filter (rule_selects M m rule) (filter ?sel xs))"
      if "rule \<in> set (m_Mappings m)" for rule xs
      using sel [OF _ that] by (intro arg_cong [of _ _ length]) (auto simp: conj_commute intro!: filter_cong)
    then show ?thesis unfolding matched_counts_def using length_filter_mset [OF assms] by simp
  qed
  moreover have "pending_count M m pods = pending_count M m pods'"
  proof -
    have "filter (\<lambda>p. ?sel p \<and> p_PodIP p = []) xs = filter (\<lambda>p. p_PodIP p = []) (filter ?sel xs)" for xs by (simp add: conj_commute)
    then show ?thesis unfolding pending_count_def using length_filter_mset [OF assms] by simp
  qed
  ultimately show ?thesis by (simp add: entry_ok_def)
qed

subsection \<open>Operations on one mapping leave the entries of others alone\<close>

text \<open>What an operation on the entry of \<open>m\<close> reads and writes.\<close>

definition entry_view :: "PodASGMapping \<Rightarrow> DesiredStateCache \<Rightarrow> string \<times> cacheEntry option" where
  "entry_view m c = (dc_clusterName c, gget (dc_entries c) (cache_key m))"

lemma cache_key_neq: "mapping_key mm \<noteq> mapping_key m \<Longrightarrow> cache_key m \<noteq> cache_key mm"
  by (auto simp: cache_key_def)

lemma entry_view_bump [simp]: "entry_view m (bump_version k c) = entry_view m c"
  by (simp add: entry_view_def bump_version_def)

lemma entry_view_set_entry:
  "entry_view m (set_entry mm e c) = (if cache_key m = cache_key mm then (dc_clusterName c, Some e) else entry_view m c)"
  by (auto simp: entry_view_def set_entry_def)

lemma entry_view_others:
  assumes "mapping_key mm \<noteq> mapping_key m"
  shows "entry_view m (OnPodAdd M c mm p) = entry_view m c" "entry_view m (OnPodDelete M c mm p) = entry_view m c"
    "entry_view m (fst (OnPodUpdate M c mm p p')) = entry_view m c"
  using cache_key_neq [OF assms]
  by (auto simp: OnPodAdd_def OnPodDelete_def OnPodUpdate_def Let_def entry_view_set_entry split: option.splits)

lemma entry_view_Invalidate: "k \<noteq> mapping_key m \<Longrightarrow> entry_view m (Invalidate c k) = entry_view m c"
proof -
  assume "k \<noteq> mapping_key m"
  then have "gget (filter (\<lambda>(k', _). ck_key k' \<noteq> k) es) (cache_key m) = gget es (cache_key m)" for es :: "(cacheKey, cacheEntry) gomap"
    by (simp add: gget_filter_key cache_key_def)
  then show ?thesis by (simp add: entry_view_def Invalidate_def Let_def bump_version_def)
qed

lemma entry_view_own:
  "entry_view m c = (cl, Some e) \<Longrightarrow> entry_view m (OnPodAdd M c m p) = (cl, Some (add_pod_entry M cl m p e))"
  "entry_view m c = (cl, Some e) \<Longrightarrow> entry_view m (OnPodDelete M c m p) = (cl, Some (delete_pod_entry M cl m p e))"
  "entry_view m c = (cl, Some e) \<Longrightarrow> entry_view m (fst (OnPodUpdate M c m p p')) = (cl, Some (update_pod_entry M cl m p p' e)) \<and>
     snd (OnPodUpdate M c m p p')"
  by (auto simp: OnPodAdd_def OnPodDelete_def OnPodUpdate_def Let_def entry_view_set_entry entry_view_def bump_version_def set_entry_def)

lemma entry_view_fold_once:
  assumes "distinct keys" and "\<And>k c. k \<in> set keys \<Longrightarrow> k \<noteq> k0 \<Longrightarrow> entry_view m (g k c) = entry_view m c"
    and "\<And>c. entry_view m c = v \<Longrightarrow> entry_view m (g k0 c) = v'" and "entry_view m c = v"
  shows "entry_view m (fold g keys c) = (if k0 \<in> set keys then v' else v)"
proof -
  have skip: "k0 \<notin> set ks \<Longrightarrow> set ks \<subseteq> set keys \<Longrightarrow> entry_view m (fold g ks c) = entry_view m c" for ks c
    using assms(2) by (induction ks arbitrary: c) auto
  show ?thesis
  proof (cases "k0 \<in> set keys")
    case True
    then obtain as bs where ks: "keys = as @ k0 # bs" by (meson split_list)
    then have "k0 \<notin> set as" "k0 \<notin> set bs" using assms(1) by auto
    have as: "entry_view m (fold g as c) = v" using skip [of as c] \<open>k0 \<notin> set as\<close> ks assms(4) by auto
    have "entry_view m (fold g bs (g k0 (fold g as c))) = v'"
      using skip [of bs "g k0 (fold g as c)"] \<open>k0 \<notin> set bs\<close> ks assms(3) [OF as] by auto
    then show ?thesis using True by (simp add: ks)
  next
    case False
    then show ?thesis using skip assms(4) by simp
  qed
qed

subsection \<open>The handlers and one mapping\<close>

text \<open>
  The lists the reader returns contain the mapping, under its own key, and its resource
  identifiers are valid.
\<close>

definition lists_mapping :: "reader \<Rightarrow> PodASGMapping \<Rightarrow> bool" where
  "lists_mapping reader m \<longleftrightarrow> (\<exists>l. reader (m_Namespace m) = Inr l \<and> m \<in> set (ml_Items l) \<and> distinct (map mapping_key (ml_Items l))) \<and>
     validateASGResourceIDs (m_Mappings m) = []"

abbreviation matched_of :: "PodASGMapping \<Rightarrow> matchedMapping" where
  "matched_of m \<equiv> \<lparr>mm_Mapping = m, mm_Request = mapping_key m\<rparr>"

lemma detailed_matches:
  assumes "lists_mapping reader m" and "p_Namespace p = m_Namespace m"
  obtains ms where "matchingMappingsForPodDetailed M reader p = Inr ms" and "distinct (map mm_Request ms)"
    and "\<forall>mm \<in> set ms. mm = matched_of (mm_Mapping mm)"
    and "matched_of m \<in> set ms \<longleftrightarrow> mapping_matches M m (p_Labels p)"
    and "\<forall>mm \<in> set ms. mm_Request mm = mapping_key m \<longrightarrow> mm = matched_of m"
proof -
  obtain l where l: "reader (m_Namespace m) = Inr l" "m \<in> set (ml_Items l)" "distinct (map mapping_key (ml_Items l))"
    using assms(1) by (auto simp: lists_mapping_def)
  let ?ms = "map matched_of (filter (\<lambda>m. mapping_matches M m (p_Labels p)) (ml_Items l))"
  have "matchingMappingsForPodDetailed M reader p = Inr ?ms"
    using assms(2) l(1) by (simp add: matchingMappingsForPodDetailed_def listPodASGMappings_def)
  moreover have "distinct (map mm_Request ?ms)" using l(3) by (simp add: comp_def distinct_map_filter)
  moreover have "\<forall>mm \<in> set ?ms. mm = matched_of (mm_Mapping mm)" by auto
  moreover have "matched_of m \<in> set ?ms \<longleftrightarrow> mapping_matches M m (p_Labels p)" using l(2) by auto
  moreover have "\<forall>mm \<in> set ?ms. mm_Request mm = mapping_key m \<longrightarrow> mm = matched_of m"
    using l(2,3) by (auto simp: distinct_map inj_on_def)
  ultimately show thesis by (rule that)
qed

lemma handle_matched_fold:
  "handle_matched f h ms (c, q) = (fold f ms c, fold (\<lambda>m q. enqueueRequest h (mm_Request m) q) ms q)"
  unfolding handle_matched_def by (induction ms arbitrary: c q) auto

lemma handle_one_entry:
  assumes "lists_mapping reader m" and "p_Namespace p = m_Namespace m" and "h_DesiredStateCache h = Some c"
    and "entry_view m c = (cl, Some e)"
    and "\<And>c. entry_view m c = (cl, Some e) \<Longrightarrow> entry_view m (f (matched_of m) c) = (cl, Some e')"
    and "\<And>mm c. mapping_key mm \<noteq> mapping_key m \<Longrightarrow> entry_view m (f (matched_of mm) c) = entry_view m c"
  shows "\<exists>c'. h_DesiredStateCache (fst (handle_one f M reader p h q)) = Some c' \<and>
    entry_view m c' = (cl, Some (if mapping_matches M m (p_Labels p) then e' else e))"
proof -
  obtain ms where ms: "matchingMappingsForPodDetailed M reader p = Inr ms" "distinct (map mm_Request ms)"
    "\<forall>mm \<in> set ms. mm = matched_of (mm_Mapping mm)" "matched_of m \<in> set ms \<longleftrightarrow> mapping_matches M m (p_Labels p)"
    "\<forall>mm \<in> set ms. mm_Request mm = mapping_key m \<longrightarrow> mm = matched_of m"
    by (rule detailed_matches [OF assms(1,2)])
  have other: "entry_view m (f k c) = entry_view m c" if "k \<in> set ms" "k \<noteq> matched_of m" for k c
  proof -
    have k: "k = matched_of (mm_Mapping k)" using ms(3) that(1) by blast
    then have "mm_Request k = mapping_key (mm_Mapping k)" by (metis matchedMapping.select_convs(2))
    then have "mapping_key (mm_Mapping k) \<noteq> mapping_key m" using ms(5) that by metis
    then show ?thesis using assms(6) k by metis
  qed
  have "distinct ms" using ms(2) by (simp add: distinct_map)
  from entry_view_fold_once [of ms "matched_of m" m f "(cl, Some e)" "(cl, Some e')", OF this other assms(5) assms(4)]
  have "entry_view m (fold f ms c) = (if matched_of m \<in> set ms then (cl, Some e') else (cl, Some e))" by blast
  then show ?thesis using assms(3) ms(1,4) by (simp add: handle_one_def handle_matched_fold)
qed


lemma byKey_set: "set (gkeys (matchedMappingsByKey ms)) = mm_Request ` set ms"
proof -
  have "set (gkeys (fold (\<lambda>mm result. gput (mm_Request mm) (mm_Mapping mm) result) ms acc)) = mm_Request ` set ms \<union> set (gkeys acc)" for acc
  proof (induction ms arbitrary: acc)
    case (Cons mm ms)
    show ?case using Cons.IH [of "gput (mm_Request mm) (mm_Mapping mm) acc"] by (simp add: gkeys_gput_set del: set_map)
  qed simp
  then show ?thesis by (simp add: matchedMappingsByKey_def)
qed

lemma byKey_get:
  assumes "\<forall>mm \<in> set ms. mm = matched_of (mm_Mapping mm)" and "\<forall>mm \<in> set ms. mm_Request mm = mapping_key m \<longrightarrow> mm = matched_of m"
  shows "gget (matchedMappingsByKey ms) (mapping_key m) = (if matched_of m \<in> set ms then Some m else None)"
proof -
  have "gget (fold (\<lambda>mm result. gput (mm_Request mm) (mm_Mapping mm) result) ms acc) (mapping_key m) =
    (if matched_of m \<in> set ms then Some m else gget acc (mapping_key m))" for acc
    using assms(2)
  proof (induction ms arbitrary: acc)
    case (Cons mm ms)
    have "\<forall>mm \<in> set ms. mm_Request mm = mapping_key m \<longrightarrow> mm = matched_of m" using Cons.prems by (meson list.set_intros(2))
    note IH = Cons.IH [OF this]
    have mm: "mm_Request mm = mapping_key m \<Longrightarrow> mm = matched_of m" using Cons.prems by (meson list.set_intros(1))
    show ?case
    proof (cases "mm_Request mm = mapping_key m")
      case True
      from mm [OF this] show ?thesis by (simp add: IH)
    next
      case False
      then have "mm \<noteq> matched_of m" by auto
      then show ?thesis using False by (simp add: IH)
    qed
  qed simp
  then show ?thesis by (simp add: matchedMappingsByKey_def)
qed

lemma byKey_get_own:
  assumes "\<forall>mm \<in> set ms. mm = matched_of (mm_Mapping mm)" and "gget (matchedMappingsByKey ms) k = Some mm"
  shows "mapping_key mm = k"
proof -
  have "\<forall>(k, mm) \<in> set (fold (\<lambda>mm result. gput (mm_Request mm) (mm_Mapping mm) result) ms acc). mapping_key mm = k"
    if "\<forall>(k, mm) \<in> set acc. mapping_key mm = k" for acc
    using that assms(1)
  proof (induction ms arbitrary: acc)
    case (Cons x ms)
    have "mapping_key (mm_Mapping x) = mm_Request x" using Cons.prems(2) by (metis list.set_intros(1) matchedMapping.select_convs(2))
    then have "\<forall>(k, mm) \<in> set (gput (mm_Request x) (mm_Mapping x) acc). mapping_key mm = k"
      using Cons.prems(1) by (intro gput_Ball) auto
    then show ?case using Cons by simp
  qed simp
  from this [of "[]"] show ?thesis using gget_in_set [OF assms(2)] by (auto simp: matchedMappingsByKey_def)
qed

text \<open>What the update of a pod does to the entry of one mapping.\<close>

definition update_entry :: "matcher \<Rightarrow> string \<Rightarrow> PodASGMapping \<Rightarrow> Pod \<Rightarrow> Pod \<Rightarrow> cacheEntry \<Rightarrow> cacheEntry" where
  "update_entry M cl m old new e =
     (if mapping_matches M m (p_Labels old)
      then if mapping_matches M m (p_Labels new) then update_pod_entry M cl m old new e else delete_pod_entry M cl m old e
      else if mapping_matches M m (p_Labels new) then add_pod_entry M cl m new e else e)"

lemma update_cache_entry:
  assumes "lists_mapping reader1 m" and "lists_mapping reader2 m" and "p_Namespace old = m_Namespace m" and "p_Namespace new = m_Namespace m"
    and "entry_view m c = (cl, Some e)"
  shows "entry_view m (update_cache M old new (matchingMappingsForPodDetailed M reader1 old) (matchingMappingsForPodDetailed M reader2 new) c) =
    (cl, Some (update_entry M cl m old new e))"
proof -
  obtain ms where ms: "matchingMappingsForPodDetailed M reader1 old = Inr ms" "distinct (map mm_Request ms)"
    "\<forall>mm \<in> set ms. mm = matched_of (mm_Mapping mm)" "matched_of m \<in> set ms \<longleftrightarrow> mapping_matches M m (p_Labels old)"
    "\<forall>mm \<in> set ms. mm_Request mm = mapping_key m \<longrightarrow> mm = matched_of m"
    by (rule detailed_matches [OF assms(1,3)])
  obtain ns where ns: "matchingMappingsForPodDetailed M reader2 new = Inr ns" "distinct (map mm_Request ns)"
    "\<forall>mm \<in> set ns. mm = matched_of (mm_Mapping mm)" "matched_of m \<in> set ns \<longleftrightarrow> mapping_matches M m (p_Labels new)"
    "\<forall>mm \<in> set ns. mm_Request mm = mapping_key m \<longrightarrow> mm = matched_of m"
    by (rule detailed_matches [OF assms(2,4)])
  let ?o = "matchedMappingsByKey ms" and ?n = "matchedMappingsByKey ns"
  let ?keys = "fold sadd (gkeys ?n) (fold sadd (gkeys ?o) [])"
  have own: "gget ?o k = Some mm \<Longrightarrow> mapping_key mm = k" "gget ?n k = Some mm \<Longrightarrow> mapping_key mm = k" for k mm
    using byKey_get_own [OF ms(3)] byKey_get_own [OF ns(3)] by blast+
  have valid: "validateASGResourceIDs (m_Mappings m) = []" using assms(1) by (simp add: lists_mapping_def)
  have "distinct ?keys" by simp
  moreover have "entry_view m (cache_on_update M old new ?o ?n k c) = entry_view m c" if "k \<noteq> mapping_key m" for k c
  proof -
    have v: "entry_view m (Invalidate c' k) = entry_view m c'" for c' using that by (rule entry_view_Invalidate)
    have o: "gget ?o k = Some mm \<Longrightarrow> mapping_key mm \<noteq> mapping_key m" "gget ?n k = Some mm \<Longrightarrow> mapping_key mm \<noteq> mapping_key m" for mm
      using own that by auto
    show ?thesis using o entry_view_others [of _ m M c]
      by (auto simp: cache_on_update_def v split: option.split prod.split) (metis fst_conv)+
  qed
  moreover have "entry_view m (cache_on_update M old new ?o ?n (mapping_key m) c) = (cl, Some (update_entry M cl m old new e))"
    if "entry_view m c = (cl, Some e)" for c
  proof -
    have u: "OnPodUpdate M c m old new = (fst (OnPodUpdate M c m old new), True)"
      using entry_view_own(3) [OF that, of M old new] by (metis prod.collapse)
    show ?thesis using entry_view_own [OF that] valid u
      unfolding cache_on_update_def byKey_get [OF ms(3,5)] byKey_get [OF ns(3,5)] ms(4) ns(4)
      by (auto simp: update_entry_def that split: prod.split) (metis fst_conv)+
  qed
  ultimately have "entry_view m (fold (cache_on_update M old new ?o ?n) ?keys c) =
    (if mapping_key m \<in> set ?keys then (cl, Some (update_entry M cl m old new e)) else (cl, Some e))"
    using entry_view_fold_once [of ?keys "mapping_key m" m "cache_on_update M old new ?o ?n" "(cl, Some e)"] assms(5) by blast
  moreover have "mapping_key m \<in> set ?keys \<longleftrightarrow> mapping_matches M m (p_Labels old) \<or> mapping_matches M m (p_Labels new)"
  proof -
    have "mapping_key m \<in> mm_Request ` set xs \<longleftrightarrow> matched_of m \<in> set xs"
      if "\<forall>mm \<in> set xs. mm_Request mm = mapping_key m \<longrightarrow> mm = matched_of m" for xs
      using that by (metis image_iff matchedMapping.select_convs(2))
    then show ?thesis using ms(4,5) ns(4,5) by (simp add: byKey_set del: set_map) blast
  qed
  ultimately show ?thesis unfolding ms(1) ns(1) update_cache_def by (simp add: Let_def update_entry_def)
qed


subsection \<open>Events\<close>

fun handle_event :: "matcher \<Rightarrow> reader \<Rightarrow> pod_event \<Rightarrow> PodToMappingEventHandler \<times> queue_call list \<Rightarrow>
    PodToMappingEventHandler \<times> queue_call list" where
  "handle_event M reader (Added p) (h, q) = Handler_Create M reader p h q"
| "handle_event M reader (Updated old new) (h, q) = Handler_Update M reader reader old new h q"
| "handle_event M reader (Deleted p) (h, q) = Handler_Delete M reader p h q"

lemma feed_entry_view:
  assumes "separate_targets cl m" and "entry_view m c = (cl, Some e)" and "entry_ok M cl m pods e" and "namespace_pods m pods" and "valid_event m pods ev"
  obtains e' where "entry_view m (feed M m ev c) = (cl, Some e')" and "entry_ok M cl m (apply_event ev pods) e'" and "ce_mapping e' = ce_mapping e"
proof -
  have c: "dc_clusterName c = cl" "gget (dc_entries c) (cache_key m) = Some e" using assms(2) by (simp_all add: entry_view_def)
  obtain e' where "gget (dc_entries (feed M m ev c)) (cache_key m) = Some e'" "entry_ok M (dc_clusterName c) m (apply_event ev pods) e'"
    "ce_mapping e' = ce_mapping e" "dc_clusterName (feed M m ev c) = dc_clusterName c"
    by (rule feed_entry [of c m e M pods ev]) (use assms c in auto)
  then show thesis using that c(1) by (simp add: entry_view_def)
qed

lemma cache_on_create_view:
  assumes "validateASGResourceIDs (m_Mappings m) = []" and "entry_view m c = (cl, Some e)"
  shows "entry_view m (cache_on_create M p (matched_of m) c) = (cl, Some (add_pod_entry M cl m p e))"
    and "entry_view m (cache_on_delete M p (matched_of m) c) = (cl, Some (delete_pod_entry M cl m p e))"
  using assms entry_view_own [OF assms(2)] by (simp_all add: cache_on_create_def cache_on_delete_def)

lemma cache_on_create_others:
  assumes "mapping_key mm \<noteq> mapping_key m"
  shows "entry_view m (cache_on_create M p (matched_of mm) c) = entry_view m c"
    and "entry_view m (cache_on_delete M p (matched_of mm) c) = entry_view m c"
  using entry_view_others [OF assms] entry_view_Invalidate [OF assms] by (simp_all add: cache_on_create_def cache_on_delete_def)

lemma mset_replace:
  assumes "distinct pods" and "old \<in> set pods"
  shows "mset (map (\<lambda>p. if p = old then new else p) pods) = mset (filter (\<lambda>p. p \<noteq> old) pods) + {#new#}"
  using assms
proof (induction pods)
  case (Cons p pods)
  show ?case
  proof (cases "p = old")
    case True
    then have n: "old \<notin> set pods" using Cons.prems(1) by simp
    then have "map (\<lambda>p. if p = old then new else p) pods = pods" by (intro map_idI) auto
    moreover have "filter (\<lambda>p. p \<noteq> old) pods = pods" using n by (intro filter_True) auto
    ultimately show ?thesis using True by simp
  next
    case False
    then show ?thesis using Cons by simp
  qed
qed simp

lemma filter_mset_replace:
  assumes "distinct (map pod_id pods)" and "old \<in> set pods"
  shows "mset (filter P (map (\<lambda>p. if p = old then new else p) pods)) =
    mset (filter P (filter (\<lambda>p. p \<noteq> old) pods)) + (if P new then {#new#} else {#})"
proof -
  have "distinct pods" using assms(1) by (simp add: distinct_map)
  from arg_cong [OF mset_replace [OF this assms(2), of new], of "filter_mset P"] show ?thesis
    by (simp only: mset_filter filter_union_mset) auto
qed

lemma update_entry_ok:
  assumes "separate_targets cl m" and "entry_view m c = (cl, Some e)" and "entry_ok M cl m pods e" and "namespace_pods m pods"
    and "valid_event m pods (Updated old new)"
  shows "entry_ok M cl m (apply_event (Updated old new) pods) (update_entry M cl m old new e) \<and> ce_mapping (update_entry M cl m old new e) = ce_mapping e"
proof -
  have old: "old \<in> set pods" "p_Namespace old = m_Namespace m" and new: "p_Namespace new = m_Namespace m" "pod_id new = pod_id old"
    using assms(4,5) by (auto simp: namespace_pods_def pod_id_def)
  have dist: "distinct (map pod_id pods)" using assms(4) by (simp add: namespace_pods_def)
  let ?s = "selected_by M m" and ?less = "filter (\<lambda>p. p \<noteq> old) pods"
  note sel = mapping_matches_selected [OF old(2), of M] mapping_matches_selected [OF new(1), of M]
  note r = filter_mset_replace [OF dist old(1), of ?s new]
  have less: "namespace_pods m ?less" using assms(4) by (auto simp: namespace_pods_def distinct_map_filter)
  have fresh: "pod_id new \<notin> pod_id ` set ?less" using new(2) dist old(1) by (auto simp: distinct_map inj_on_def)
  have drop: "\<not> ?s old \<Longrightarrow> filter ?s ?less = filter ?s pods" by (auto simp: filter_filter intro: filter_cong)
  consider "?s old" "?s new" | "?s old" "\<not> ?s new" | "\<not> ?s old" "?s new" | "\<not> ?s old" "\<not> ?s new" by blast
  then show ?thesis
  proof cases
    case 1
    obtain e' where e': "entry_view m (feed M m (Updated old new) c) = (cl, Some e')"
      "entry_ok M cl m (apply_event (Updated old new) pods) e'" "ce_mapping e' = ce_mapping e" by (rule feed_entry_view [OF assms])
    then show ?thesis using entry_view_own(3) [OF assms(2), of M old new] 1 sel by (simp add: update_entry_def)
  next
    case 2
    have "valid_event m pods (Deleted old)" using old(1) by simp
    then obtain e' where e': "entry_view m (feed M m (Deleted old) c) = (cl, Some e')"
      "entry_ok M cl m (apply_event (Deleted old) pods) e'" "ce_mapping e' = ce_mapping e" by (rule feed_entry_view [OF assms(1-4)])
    have "entry_ok M cl m (apply_event (Updated old new) pods) e'"
      using e'(2) r 2 entry_ok_selected [of M m ?less "apply_event (Updated old new) pods" cl e'] by simp
    then show ?thesis using e' entry_view_own(2) [OF assms(2), of M old] 2 sel by (simp add: update_entry_def)
  next
    case 3
    have ok: "entry_ok M cl m ?less e" using entry_ok_selected [of M m ?less pods cl e] arg_cong [OF drop [OF 3(1)], of mset] assms(3) by blast
    have "valid_event m ?less (Added new)" using fresh new(1) by simp
    then obtain e' where e': "entry_view m (feed M m (Added new) c) = (cl, Some e')"
      "entry_ok M cl m (apply_event (Added new) ?less) e'" "ce_mapping e' = ce_mapping e" by (rule feed_entry_view [OF assms(1,2) ok less])
    have "entry_ok M cl m (apply_event (Updated old new) pods) e'"
      using e'(2) r 3 entry_ok_selected [of M m "?less @ [new]" "apply_event (Updated old new) pods" cl e'] by simp
    then show ?thesis using e' entry_view_own(1) [OF assms(2), of M new] 3 sel by (simp add: update_entry_def)
  next
    case 4
    then show ?thesis using r arg_cong [OF drop [OF 4(1)], of mset] assms(3) sel
        entry_ok_selected [of M m pods "apply_event (Updated old new) pods" cl e]
      by (simp add: update_entry_def)
  qed
qed

lemma handle_event_entry:
  assumes "separate_targets cl m" and "lists_mapping reader m" and "h_DesiredStateCache h = Some c" and "entry_view m c = (cl, Some e)"
    and "entry_ok M cl m pods e" and "namespace_pods m pods" and "valid_event m pods ev"
  shows "\<exists>c' e'. h_DesiredStateCache (fst (handle_event M reader ev (h, q))) = Some c' \<and> entry_view m c' = (cl, Some e') \<and>
    entry_ok M cl m (apply_event ev pods) e' \<and> ce_mapping e' = ce_mapping e"
proof -
  have valid: "validateASGResourceIDs (m_Mappings m) = []" using assms(2) by (simp add: lists_mapping_def)
  show ?thesis
  proof (cases ev)
    case (Added p)
    have ns: "p_Namespace p = m_Namespace m" using assms(7) Added by simp
    obtain e' where e': "entry_view m (feed M m ev c) = (cl, Some e')" "entry_ok M cl m (apply_event ev pods) e'" "ce_mapping e' = ce_mapping e"
      by (rule feed_entry_view [OF assms(1,4,5,6,7)])
    then have e'_eq: "e' = add_pod_entry M cl m p e" using entry_view_own(1) [OF assms(4), of M p] Added by simp
    have "entry_ok M cl m (apply_event ev pods) e" if "\<not> mapping_matches M m (p_Labels p)"
      using that assms(5) mapping_matches_selected [OF ns, of M] entry_ok_selected [of M m pods "pods @ [p]" cl e] Added by simp
    then show ?thesis
      using handle_one_entry [of reader m p h c cl e "cache_on_create M p" "add_pod_entry M cl m p e" M q, OF assms(2) ns assms(3,4)
        cache_on_create_view(1) [OF valid] cache_on_create_others(1)] e' e'_eq Added
      by (auto simp: Handler_Create_def split: if_splits)
  next
    case (Deleted p)
    have p: "p \<in> set pods" "p_Namespace p = m_Namespace m" using assms(6,7) Deleted by (auto simp: namespace_pods_def)
    obtain e' where e': "entry_view m (feed M m ev c) = (cl, Some e')" "entry_ok M cl m (apply_event ev pods) e'" "ce_mapping e' = ce_mapping e"
      by (rule feed_entry_view [OF assms(1,4,5,6,7)])
    then have e'_eq: "e' = delete_pod_entry M cl m p e" using entry_view_own(2) [OF assms(4), of M p] Deleted by simp
    have "entry_ok M cl m (apply_event ev pods) e" if "\<not> mapping_matches M m (p_Labels p)"
    proof -
      have "filter (selected_by M m) (filter (\<lambda>q. q \<noteq> p) pods) = filter (selected_by M m) pods"
        using that mapping_matches_selected [OF p(2), of M] by (auto simp: filter_filter intro: filter_cong)
      then show ?thesis using assms(5) entry_ok_selected [of M m pods "filter (\<lambda>q. q \<noteq> p) pods" cl e] Deleted by simp
    qed
    then show ?thesis
      using handle_one_entry [of reader m p h c cl e "cache_on_delete M p" "delete_pod_entry M cl m p e" M q, OF assms(2) p(2) assms(3,4)
        cache_on_create_view(2) [OF valid] cache_on_create_others(2)] e' e'_eq Deleted
      by (auto simp: Handler_Delete_def split: if_splits)
  next
    case (Updated old new)
    have ns: "p_Namespace old = m_Namespace m" "p_Namespace new = m_Namespace m"
      using assms(6,7) Updated by (auto simp: namespace_pods_def pod_id_def)
    have v: "valid_event m pods (Updated old new)" using assms(7) Updated by simp
    show ?thesis
      using update_cache_entry [OF assms(2,2) ns assms(4), of M] update_entry_ok [OF assms(1,4,5,6) v] assms(3) Updated
      by (simp add: Handler_Update_def Let_def)
  qed
qed

lemma handle_events_entry:
  assumes "separate_targets cl m" and "lists_mapping reader m" and "h_DesiredStateCache (fst hq) = Some c" and "entry_view m c = (cl, Some e)"
    and "entry_ok M cl m pods e" and "namespace_pods m pods" and "valid_events m pods evs"
  shows "\<exists>c' e'. h_DesiredStateCache (fst (fold (handle_event M reader) evs hq)) = Some c' \<and> entry_view m c' = (cl, Some e') \<and>
    entry_ok M cl m (fold apply_event evs pods) e' \<and> ce_mapping e' = ce_mapping e \<and> namespace_pods m (fold apply_event evs pods)"
  using assms(3-7)
proof (induction evs arbitrary: hq c e pods)
  case (Cons ev evs)
  have v: "valid_event m pods ev" "valid_events m (apply_event ev pods) evs" using Cons.prems(5) by auto
  obtain h q where hq: "hq = (h, q)" by (cases hq)
  obtain c1 e1 where 1: "h_DesiredStateCache (fst (handle_event M reader ev hq)) = Some c1" "entry_view m c1 = (cl, Some e1)"
    "entry_ok M cl m (apply_event ev pods) e1" "ce_mapping e1 = ce_mapping e"
    using handle_event_entry [OF assms(1,2) _ Cons.prems(2,3,4) v(1), of h q] Cons.prems(1) hq by auto
  show ?case using Cons.IH [OF 1(1-3) namespace_pods_event [OF Cons.prems(4) v(1)] v(2)] 1(4) by simp
qed auto


subsection \<open>Requests\<close>

lemma fold_add_request: "distinct acc \<Longrightarrow> distinct (fold add_request rs acc) \<and> set (fold add_request rs acc) = set acc \<union> set rs"
  by (induction rs arbitrary: acc) (auto simp: add_request_def)

lemma UnionRequests_props:
  "set (UnionRequests l r) = set l \<union> set r" "distinct (UnionRequests l r)" "sorted (map nn_String (UnionRequests l r))"
  using fold_add_request [of "[]" l] fold_add_request [of "fold add_request l []" r] by (simp_all add: UnionRequests_def)

text \<open>The queue call for a request: immediately, or after the minimum interval.\<close>

definition queue_call_for :: "PodToMappingEventHandler \<Rightarrow> NamespacedName \<Rightarrow> queue_call" where
  "queue_call_for h req =
     (if h_MinReconcileInterval h > 0 then QueueAddAfter req (h_MinReconcileInterval h) else QueueAdd req)"

lemma fold_enqueueRequest: "fold (enqueueRequest h) reqs q = q @ map (queue_call_for h) reqs"
  by (induction reqs arbitrary: q) (auto simp: enqueueRequest_def queue_call_for_def)

text \<open>The keys of the mappings a pod event concerns; none where the list call fails.\<close>

definition matched_keys :: "matcher \<Rightarrow> reader \<Rightarrow> Pod \<Rightarrow> NamespacedName set" where
  "matched_keys M reader pod =
     (case reader (p_Namespace pod) of
        Inl _ \<Rightarrow> {}
      | Inr l \<Rightarrow> {mapping_key m | m. m \<in> set (ml_Items l) \<and> (\<exists>rule \<in> set (m_Mappings m). rule_matches M rule (p_Labels pod))})"

lemma detailed_keys:
  "set (matchedMappingsToRequests (ok_list (matchingMappingsForPodDetailed M reader pod))) = matched_keys M reader pod"
  by (cases "reader (p_Namespace pod)")
    (auto simp: matchedMappingsToRequests_def ok_list_def matchingMappingsForPodDetailed_def listPodASGMappings_def matched_keys_def
      mapping_matches_iff)

subsection \<open>The matcher cache\<close>

text \<open>A sequence of lookups through one handler.\<close>

fun lookups :: "matcher \<Rightarrow> (reader \<times> Pod) list \<Rightarrow> PodToMappingEventHandler \<Rightarrow> (goerror + NamespacedName list) list" where
  "lookups M [] h = []"
| "lookups M ((reader, pod) # rest) h = (case matchingMappingsForPod M reader pod h of (r, h') \<Rightarrow> r # lookups M rest h')"

text \<open>The lists two lookups of a namespace get agree when their cache keys do.\<close>

definition versioned :: "(reader \<times> Pod) list \<Rightarrow> bool" where
  "versioned xs \<longleftrightarrow> (\<forall>(r, p) \<in> set xs. \<forall>(r', p') \<in> set xs. \<forall>l l'.
     p_Namespace p = p_Namespace p' \<longrightarrow> r (p_Namespace p) = Inr l \<longrightarrow> r' (p_Namespace p) = Inr l' \<longrightarrow>
     podMappingCacheKey l = podMappingCacheKey l' \<longrightarrow> ml_Items l = ml_Items l')"

text \<open>Every entry of the cache was compiled from the list of one of the lookups.\<close>

definition matcher_ok :: "(reader \<times> Pod) list \<Rightarrow> podMappingMatcherCache \<Rightarrow> bool" where
  "matcher_ok xs c \<longleftrightarrow> (\<forall>ns e. gget c ns = Some e \<longrightarrow> (\<exists>(r, p) \<in> set xs. \<exists>l. p_Namespace p = ns \<and> r ns = Inr l \<and>
     e = \<lparr>crs_cacheKey = podMappingCacheKey l, crs_entries = compilePodMappingRequests (ml_Items l)\<rparr>))"

lemma versionedD:
  assumes "versioned xs" and "(r, p) \<in> set xs" and "(r', p') \<in> set xs" and "p_Namespace p = p_Namespace p'"
    and "r (p_Namespace p) = Inr l" and "r' (p_Namespace p) = Inr l'" and "podMappingCacheKey l = podMappingCacheKey l'"
  shows "ml_Items l = ml_Items l'"
  using bspec [OF bspec [OF assms(1) [unfolded versioned_def] assms(2), unfolded prod.case] assms(3), unfolded prod.case] assms(4-)
  by blast

lemma lookup_transparent:
  assumes "versioned xs" and "(reader, pod) \<in> set xs" and "h_matcherCache h = Some c" and "matcher_ok xs c"
  shows "\<exists>c'. matchingMappingsForPod M reader pod h = (MatchingMappingsForPod M reader pod, h\<lparr>h_matcherCache := Some c'\<rparr>) \<and> matcher_ok xs c'"
proof (cases "reader (p_Namespace pod)")
  case (Inl e)
  then show ?thesis using assms(3,4)
    by (intro exI [of _ c]) (simp add: matchingMappingsForPod_def listPodASGMappings_def MatchingMappingsForPod_def)
next
  case (Inr l)
  let ?ns = "p_Namespace pod"
  let ?e = "\<lparr>crs_cacheKey = podMappingCacheKey l, crs_entries = compilePodMappingRequests (ml_Items l)\<rparr>"
  have new: "matcher_ok xs (gput ?ns ?e c)"
    using assms(2,4) Inr unfolding matcher_ok_def by (auto simp: gget_gput)
  have old: "e = ?e" if e: "gget c ?ns = Some e" "crs_cacheKey e = podMappingCacheKey l" for e
  proof -
    obtain r p l' where rp: "(r, p) \<in> set xs" "p_Namespace p = ?ns" "r ?ns = Inr l'"
      and el: "e = \<lparr>crs_cacheKey = podMappingCacheKey l', crs_entries = compilePodMappingRequests (ml_Items l')\<rparr>"
      using assms(4) e(1) unfolding matcher_ok_def by fast
    have "podMappingCacheKey l = podMappingCacheKey l'" using e(2) el by simp
    with versionedD [OF assms(1,2) rp(1) rp(2) [symmetric] Inr rp(3)] have "ml_Items l = ml_Items l'" .
    then show ?thesis using el e(2) by simp
  qed
  have "\<exists>c'. getOrBuild c ?ns (podMappingCacheKey l) (ml_Items l) = (?e, c') \<and> matcher_ok xs c'"
    using new old assms(4) unfolding getOrBuild_def Let_def by (cases "gget c ?ns") auto
  then show ?thesis using Inr assms(3)
    by (auto simp: matchingMappingsForPod_def listPodASGMappings_def MatchingMappingsForPod_def matchingMappingsFromList_def)
qed

lemma lookups_transparent:
  assumes "versioned xs" and "set ys \<subseteq> set xs" and "h_matcherCache h = Some c" and "matcher_ok xs c"
  shows "lookups M ys h = map (\<lambda>(reader, pod). MatchingMappingsForPod M reader pod) ys"
  using assms(2-)
proof (induction ys arbitrary: h c)
  case (Cons y ys)
  obtain reader pod where y: "y = (reader, pod)" by (cases y)
  then obtain c' where "matchingMappingsForPod M reader pod h = (MatchingMappingsForPod M reader pod, h\<lparr>h_matcherCache := Some c'\<rparr>)"
    "matcher_ok xs c'" using lookup_transparent [OF assms(1) _ Cons.prems(2,3), of reader pod M] Cons.prems(1) by auto
  then show ?case using Cons y by simp
qed simp

subsection \<open>Pod updates the predicate drops\<close>

text \<open>Labels as a Go map, with one value per key. Equal maps match the same selectors.\<close>

definition wf_labels :: "labels \<Rightarrow> bool" where
  "wf_labels ls \<longleftrightarrow> (case ls of None \<Rightarrow> True | Some l \<Rightarrow> wfmap l)"

definition extensional :: "matcher \<Rightarrow> bool" where
  "extensional M \<longleftrightarrow> (\<forall>sel l l'. wfmap l \<longrightarrow> wfmap l' \<longrightarrow> (\<forall>k. gget l k = gget l' k) \<longrightarrow> M sel (Some l) = M sel (Some l'))"

lemma labels_DeepEqual_gget:
  assumes "wfmap a" and "wfmap b" and "labels_DeepEqual (Some a) (Some b)"
  shows "gget a k = gget b k"
proof -
  have "set a \<subseteq> set b" "length a = length b"
    using assms wfmap_gget_iff [OF assms(2)] by (auto simp: labels_DeepEqual_def list_all_iff)
  moreover have "distinct a" "distinct b" using assms(1,2) by (simp_all add: distinct_map)
  ultimately have "set a = set b" by (metis card_subset_eq distinct_card List.finite_set)
  then have "gget a k = Some v \<longleftrightarrow> gget b k = Some v" for v using wfmap_gget_iff [OF assms(1)] wfmap_gget_iff [OF assms(2)] by simp
  then show ?thesis by (metis not_None_eq)
qed

lemma dropped_update:
  assumes "extensional M" and "wf_labels (p_Labels old)" and "wf_labels (p_Labels new)" and "p_Namespace old = p_Namespace new"
    and "\<not> PodPredicate (UpdateEvent old new)"
  shows "p_PodIP new = p_PodIP old" and "rule_selects M m rule new \<longleftrightarrow> rule_selects M m rule old"
proof -
  show "p_PodIP new = p_PodIP old" using assms(5) by (simp add: podLabelOrIPChanged_def split: if_splits)
  have eq: "labels_DeepEqual (p_Labels old) (p_Labels new)" using assms(5) by (simp add: podLabelOrIPChanged_def split: if_splits)
  have "M sel (p_Labels new) = M sel (p_Labels old)" for sel
  proof (cases "p_Labels old")
    case None
    then show ?thesis using eq by (cases "p_Labels new") (auto simp: labels_DeepEqual_def)
  next
    case (Some a)
    then obtain b where "p_Labels new = Some b" using eq by (cases "p_Labels new") (auto simp: labels_DeepEqual_def)
    then have l: "p_Labels old = Some a" "p_Labels new = Some b" "wfmap a" "wfmap b" using Some assms(2,3) by (simp_all add: wf_labels_def)
    then have "\<forall>k. gget a k = gget b k" using labels_DeepEqual_gget [of a b] eq by simp
    then show ?thesis using l assms(1) unfolding extensional_def by metis
  qed
  then show "rule_selects M m rule new \<longleftrightarrow> rule_selects M m rule old"
    using assms(4) by (simp add: rule_selects_iff rule_matches_def split: sum.split)
qed

section \<open>Properties\<close>

text \<open>Events that arrive through the handlers keep the cache at parity: a handler built over a
  cache that holds the recomputed state of a mapping, and that is given any sequence of pod
  additions, updates and deletions in its namespace, has a cache whose state for the mapping
  agrees with a recomputation for the current pods, whatever other mappings the reader lists.
\<close>

theorem handler_parity:
  assumes "separate_targets (dc_clusterName c) m" and "lists_mapping reader m" and "namespace_pods m pods" and "valid_events m pods evs"
    and "gget (dc_entries c) (cache_key m) =
      Some (buildCacheEntryFromArtifacts m (ComputeDesiredStateRecomputeArtifacts M (dc_clusterName c) m pods))"
  shows "\<exists>c' state. h_DesiredStateCache (fst (fold (handle_event M reader) evs (NewPodToMappingEventHandlerWithCache d c, []))) = Some c' \<and>
    Get c' m = (state, True) \<and>
    (let arts = ComputeDesiredStateRecomputeArtifacts M (dc_clusterName c) m (fold apply_event evs pods) in
       cs_MatchedPodsByIndex state = art_MatchedPodsByIndex arts \<and>
       cs_HasPendingIPPods state = art_HasPendingIPPods arts \<and>
       (\<forall>x. gget (snap_Pods (cs_Snapshot state)) x = gget (snap_Pods (art_Snapshot arts)) x) \<and>
       (\<forall>k. nonempty_view (cs_Desired state) k = view (art_Desired arts) k))"
proof -
  let ?cl = "dc_clusterName c" and ?pods = "fold apply_event evs pods"
  let ?e = "buildCacheEntryFromArtifacts m (ComputeDesiredStateRecomputeArtifacts M ?cl m pods)"
  have ok: "entry_ok M ?cl m pods ?e" using assms(1,3) by (intro recompute_entry_ok) (simp_all add: namespace_pods_def)
  have h: "h_DesiredStateCache (fst (NewPodToMappingEventHandlerWithCache d c, [])) = Some c"
    by (simp add: NewPodToMappingEventHandlerWithCache_def)
  have v: "entry_view m c = (?cl, Some ?e)" using assms(5) by (simp add: entry_view_def)
  obtain c' e' where c': "h_DesiredStateCache (fst (fold (handle_event M reader) evs (NewPodToMappingEventHandlerWithCache d c, []))) = Some c'"
    "entry_view m c' = (?cl, Some e')" "entry_ok M ?cl m ?pods e'" "ce_mapping e' = ce_mapping ?e" "namespace_pods m ?pods"
    using handle_events_entry [OF assms(1,2) h v ok assms(3,4)] by blast
  then have e': "gget (dc_entries c') (cache_key m) = Some e'" "ce_mapping e' = Some m"
    by (simp_all add: entry_view_def buildCacheEntryFromArtifacts_def)
  show ?thesis using entry_ok_parity [OF assms(1) c'(5,3) e'] c'(1) by blast
qed

lemma ex_lists_mapping: "lists_mapping (\<lambda>_. Inr \<lparr>ml_ResourceVersion = ''7'', ml_Items = [ex_mapping]\<rparr>) ex_mapping"
  by (simp add: lists_mapping_def validateASGResourceIDs_def ex_mapping_def ex_rule_def ref_issue_def ex_ref_def ex_parse name_segment_def)

theorem handler_parity_witness:
  "\<exists>c' state. h_DesiredStateCache (fst (fold (handle_event doc_matches (\<lambda>_. Inr \<lparr>ml_ResourceVersion = ''7'', ml_Items = [ex_mapping]\<rparr>))
       [Added (ex_pod ''q'' ''db'' ''10.0.0.2''), Updated (ex_pod ''p'' ''web'' ''10.0.0.1'') (ex_pod ''p'' ''db'' ''10.0.0.3'')]
       (NewPodToMappingEventHandlerWithCache 0 (ex_cache doc_matches ex_mapping [ex_pod ''p'' ''web'' ''10.0.0.1'']), []))) = Some c' \<and>
     Get c' ex_mapping = (state, True) \<and> cs_MatchedPodsByIndex state = [0, 2]"
proof -
  let ?p = "ex_pod ''p'' ''web'' ''10.0.0.1''" and ?q = "ex_pod ''q'' ''db'' ''10.0.0.2''" and ?r = "ex_pod ''p'' ''db'' ''10.0.0.3''"
  have c: "dc_clusterName (ex_cache doc_matches ex_mapping [?p]) = ''c''"
    "gget (dc_entries (ex_cache doc_matches ex_mapping [?p])) (cache_key ex_mapping) =
      Some (buildCacheEntryFromArtifacts ex_mapping (ComputeDesiredStateRecomputeArtifacts doc_matches ''c'' ex_mapping [?p]))"
    by (simp_all add: ex_cache_def set_entry_def NewDesiredStateCache_def)
  have n: "namespace_pods ex_mapping [?p]" by (simp add: namespace_pods_def ex_mapping_def)
  have ne: "?q \<noteq> ?p" by (simp add: ex_pod_def)
  have v: "valid_events ex_mapping [?p] [Added ?q, Updated ?p ?r]" using ne by (simp add: ex_pod_id ex_mapping_def)
  have f: "fold apply_event [Added ?q, Updated ?p ?r] [?p] = [?r, ?q]" using ne by simp
  have "art_MatchedPodsByIndex (ComputeDesiredStateRecomputeArtifacts doc_matches ''c'' ex_mapping [?r, ?q]) = [0, 2]"
    by (simp add: artifacts_counts ex_mapping_def ex_rule_selects)
  then show ?thesis
    using handler_parity [of "ex_cache doc_matches ex_mapping [?p]" ex_mapping _ "[?p]" "[Added ?q, Updated ?p ?r]" doc_matches 0,
        OF _ ex_lists_mapping] ex_separate c n v f unfolding Let_def by auto
qed

text \<open>An update of a pod enqueues each mapping that matches the old or the new pod exactly once, in
  the order of their names, and nothing else; where a list call fails, the mappings the other
  one found.
\<close>

theorem update_enqueues_union:
  assumes "h_DesiredStateCache h = Some c"
  shows "\<exists>reqs. snd (Handler_Update M reader1 reader2 old new h q) = q @ map (queue_call_for h) reqs \<and> distinct reqs \<and>
    sorted (map nn_String reqs) \<and> set reqs = matched_keys M reader1 old \<union> matched_keys M reader2 new"
  using assms UnionRequests_props [of "matchedMappingsToRequests (ok_list (matchingMappingsForPodDetailed M reader1 old))"
      "matchedMappingsToRequests (ok_list (matchingMappingsForPodDetailed M reader2 new))"]
  unfolding Handler_Update_def Let_def detailed_keys by (auto simp: fold_enqueueRequest)

theorem update_enqueues_union_witness:
  "\<exists>reqs. snd (Handler_Update doc_matches (\<lambda>_. Inl ErrNotFound) (\<lambda>_. Inr \<lparr>ml_ResourceVersion = ''7'', ml_Items = [ex_mapping]\<rparr>)
      (ex_pod ''p'' ''web'' ''10.0.0.1'') (ex_pod ''p'' ''db'' ''10.0.0.1'')
      (NewPodToMappingEventHandlerWithCache 5 (NewDesiredStateCache ''c'')) []) =
      map (queue_call_for (NewPodToMappingEventHandlerWithCache 5 (NewDesiredStateCache ''c''))) reqs \<and> set reqs = {mapping_key ex_mapping}"
proof -
  have "matched_keys doc_matches (\<lambda>_. Inr \<lparr>ml_ResourceVersion = ''7'', ml_Items = [ex_mapping]\<rparr>) (ex_pod ''p'' ''db'' ''10.0.0.1'') =
      {mapping_key ex_mapping}" by (auto simp: matched_keys_def ex_mapping_def ex_rule_matches)
  moreover have "matched_keys doc_matches (\<lambda>_. Inl ErrNotFound) (ex_pod ''p'' ''web'' ''10.0.0.1'') = {}" by (simp add: matched_keys_def)
  moreover have "h_DesiredStateCache (NewPodToMappingEventHandlerWithCache 5 (NewDesiredStateCache ''c'')) = Some (NewDesiredStateCache ''c'')"
    by (simp add: NewPodToMappingEventHandlerWithCache_def)
  ultimately show ?thesis
    using update_enqueues_union [of "NewPodToMappingEventHandlerWithCache 5 (NewDesiredStateCache ''c'')" "NewDesiredStateCache ''c''" doc_matches
        "\<lambda>_. Inl ErrNotFound" "\<lambda>_. Inr \<lparr>ml_ResourceVersion = ''7'', ml_Items = [ex_mapping]\<rparr>" "ex_pod ''p'' ''web'' ''10.0.0.1''"
        "ex_pod ''p'' ''db'' ''10.0.0.1''" "[]"] by auto
qed

text \<open>C30:
  The matcher cache is transparent: any sequence of lookups through a new handler returns what
  the lookups without the cache return, errors included, as long as the lists of a namespace
  with one cache key have the same mappings.
\<close>

theorem matcher_cache_transparent:
  assumes "versioned xs"
  shows "lookups M xs (NewPodToMappingEventHandler d) = map (\<lambda>(reader, pod). MatchingMappingsForPod M reader pod) xs"
  by (rule lookups_transparent [OF assms subset_refl, of _ "[]"]) (simp_all add: NewPodToMappingEventHandler_def matcher_ok_def)

theorem matcher_cache_transparent_witness:
  "lookups doc_matches [(\<lambda>_. Inr \<lparr>ml_ResourceVersion = ''7'', ml_Items = [ex_mapping]\<rparr>, ex_pod ''p'' ''web'' ''10.0.0.1''),
       (\<lambda>_. Inr \<lparr>ml_ResourceVersion = ''8'', ml_Items = []\<rparr>, ex_pod ''p'' ''web'' ''10.0.0.1'')] (NewPodToMappingEventHandler 0) =
     [Inr [mapping_key ex_mapping], Inr []]"
proof -
  let ?r = "\<lambda>_. Inr \<lparr>ml_ResourceVersion = ''7'', ml_Items = [ex_mapping]\<rparr>" and ?r' = "\<lambda>_. Inr \<lparr>ml_ResourceVersion = ''8'', ml_Items = []\<rparr>"
    and ?p = "ex_pod ''p'' ''web'' ''10.0.0.1''"
  have "versioned [(?r, ?p), (?r', ?p)]" by (simp add: versioned_def podMappingCacheKey_def)
  moreover have "MatchingMappingsForPod doc_matches ?r ?p = Inr [mapping_key ex_mapping]"
    using compile_request_matches [of "\<lambda>s l. doc_matches s l" "p_Labels ?p" ex_mapping]
    by (simp add: MatchingMappingsForPod_def listPodASGMappings_def matchingMappingsFromList_def matchingCompiledPodMappingRequests_def
        compilePodMappingRequests_def mapping_matches_iff ex_mapping_def ex_rule_matches compile_request_def)
  moreover have "MatchingMappingsForPod doc_matches ?r' ?p = Inr []"
    by (simp add: MatchingMappingsForPod_def listPodASGMappings_def matchingMappingsFromList_def matchingCompiledPodMappingRequests_def
        compilePodMappingRequests_def)
  ultimately show ?thesis using matcher_cache_transparent [of "[(?r, ?p), (?r', ?p)]" doc_matches 0] by simp
qed

text \<open>The pod predicate is sound: an update that it drops changes no target's prefixes, for any
  mappings and any other pods.
\<close>

theorem pod_predicate_sound:
  assumes "extensional M" and "wf_labels (p_Labels old)" and "wf_labels (p_Labels new)" and "p_Namespace old = p_Namespace new"
    and "\<not> PodPredicate (UpdateEvent old new)"
  shows "wanted M cl ms (apply_event (Updated old new) pods) key = wanted M cl ms pods key"
proof -
  note d = dropped_update [OF assms]
  have "q \<in> set (apply_event (Updated old new) pods) \<Longrightarrow> \<exists>p \<in> set pods. p_PodIP p = p_PodIP q \<and> (\<forall>m rule. rule_selects M m rule p = rule_selects M m rule q)"
    "q \<in> set pods \<Longrightarrow> \<exists>p \<in> set (apply_event (Updated old new) pods). p_PodIP p = p_PodIP q \<and> (\<forall>m rule. rule_selects M m rule p = rule_selects M m rule q)" for q
    using d by (auto split: if_splits)
  then show ?thesis unfolding wanted_def by (intro Collect_cong) metis
qed

lemma doc_matches_extensional: "extensional doc_matches"
  by (auto simp: extensional_def doc_matches_def split: Selector.split option.split)

theorem pod_predicate_sound_witness:
  "wanted doc_matches ''c'' [ex_mapping] (apply_event (Updated (ex_pod ''p'' ''web'' ''10.0.0.1'')
       ((ex_pod ''p'' ''web'' ''10.0.0.1'')\<lparr>p_Annotations := Some []\<rparr>)) [ex_pod ''p'' ''web'' ''10.0.0.1'']) ''k'' =
     wanted doc_matches ''c'' [ex_mapping] [ex_pod ''p'' ''web'' ''10.0.0.1''] ''k''"
  by (rule pod_predicate_sound [OF doc_matches_extensional])
    (simp_all add: ex_pod_def wf_labels_def podLabelOrIPChanged_def labels_DeepEqual_def)

end
