(* ===== verification/Event_Delivery.thy ===== *)
theory Event_Delivery
  imports Pod_Handler Cache_Fencing
begin

text \<open>
  What the pod informer does to the cache: each event passes the predicate and is handled by
  \<open>PodToMappingEventHandler\<close>, which lists the mappings of the namespace; the list may fail, and
  it may name other mappings too. Beside the parity of the entry (\<open>Pod_Handler\<close>) this theory
  counts the versions: an event either leaves the mapping's selected pods alone or advances the
  version of its key, by at most four, so that a recomputation in progress is refused.
\<close>

section \<open>Events and objects\<close>

fun obj_event :: "pod_event \<Rightarrow> Pod obj_event" where
  "obj_event (Added p) = CreateEvent p"
| "obj_event (Updated old new) = UpdateEvent old new"
| "obj_event (Deleted p) = DeleteEvent p"

text \<open>An arrival is an event with what the list of mappings answers at that time.\<close>

type_synonym arrival = "reader \<times> pod_event"

definition on_arrival :: "matcher \<Rightarrow> arrival \<Rightarrow> DesiredStateCache \<Rightarrow> DesiredStateCache" where
  "on_arrival M a c =
     (if PodPredicate (obj_event (snd a)) then
        (case h_DesiredStateCache (fst (handle_event M (fst a) (snd a) (NewPodToMappingEventHandlerWithCache 0 c, []))) of
           None \<Rightarrow> c
         | Some c' \<Rightarrow> c')
      else c)"

definition deliver :: "matcher \<Rightarrow> arrival list \<Rightarrow> DesiredStateCache \<Rightarrow> DesiredStateCache" where
  "deliver M as c = fold (on_arrival M) as c"

definition pods_after :: "arrival list \<Rightarrow> Pod list \<Rightarrow> Pod list" where
  "pods_after as pods = fold (\<lambda>a. apply_event (snd a)) as pods"

text \<open>
  Versions of one mapping object that differ at most in annotations, finalizers, status and
  time stamps.
\<close>

definition same_spec :: "PodASGMapping \<Rightarrow> PodASGMapping \<Rightarrow> bool" where
  "same_spec m m' \<longleftrightarrow> m_Namespace m' = m_Namespace m \<and> m_Name m' = m_Name m \<and> m_UID m' = m_UID m \<and>
     m_Generation m' = m_Generation m \<and> m_Mappings m' = m_Mappings m"

text \<open>The list of mappings fails or has a version of the mapping.\<close>

definition reader_ok :: "PodASGMapping \<Rightarrow> reader \<Rightarrow> bool" where
  "reader_ok m reader \<longleftrightarrow> (\<exists>err. reader (m_Namespace m) = Inl err) \<or> (\<exists>m'. same_spec m m' \<and> lists_mapping reader m')"

fun event_labels :: "pod_event \<Rightarrow> bool" where
  "event_labels (Added p) = wf_labels (p_Labels p)"
| "event_labels (Updated old new) = wf_labels (p_Labels new)"
| "event_labels (Deleted p) = True"

fun valid_arrivals :: "PodASGMapping \<Rightarrow> Pod list \<Rightarrow> arrival list \<Rightarrow> bool" where
  "valid_arrivals m pods [] = True"
| "valid_arrivals m pods (a # as) = (reader_ok m (fst a) \<and> valid_event m pods (snd a) \<and> event_labels (snd a) \<and>
     valid_arrivals m (apply_event (snd a) pods) as)"

definition cluster_pods :: "PodASGMapping \<Rightarrow> Pod list \<Rightarrow> bool" where
  "cluster_pods m pods \<longleftrightarrow> namespace_pods m pods \<and> (\<forall>p \<in> set pods. wf_labels (p_Labels p))"

text \<open>No entry can tell the pods apart.\<close>

definition alike :: "matcher \<Rightarrow> PodASGMapping \<Rightarrow> Pod list \<Rightarrow> Pod list \<Rightarrow> bool" where
  "alike M m pods pods' \<longleftrightarrow> (\<forall>cl e. entry_ok M cl m pods e = entry_ok M cl m pods' e)"

lemma alike_refl [simp]: "alike M m pods pods"
  by (simp add: alike_def)

lemma alike_trans: "alike M m a b \<Longrightarrow> alike M m b c \<Longrightarrow> alike M m a c"
  by (simp add: alike_def)

lemma alike_selected:
  "mset (filter (selected_by M m) pods) = mset (filter (selected_by M m) pods') \<Longrightarrow> alike M m pods pods'"
  unfolding alike_def using entry_ok_selected by blast

section \<open>Versions of a mapping\<close>

lemma same_spec_keys:
  assumes "same_spec m m'"
  shows "mapping_key m' = mapping_key m" "cache_key m' = cache_key m" "entry_view m' c = entry_view m c"
  using assms by (simp_all add: same_spec_def mapping_key_def cache_key_def entry_view_def)

lemma same_spec_pods:
  assumes "same_spec m m'"
  shows "rule_selects M m' rule p = rule_selects M m rule p" "selected_by M m' p = selected_by M m p"
    "namespace_pods m' pods = namespace_pods m pods" "valid_event m' pods ev = valid_event m pods ev"
  using assms by (simp_all add: same_spec_def rule_selects_def selected_by_def namespace_pods_def) (cases ev; simp)

lemma same_spec_targets:
  assumes "same_spec m m'"
  shows "prefix_set_name cl m' = prefix_set_name cl m" "mapping_targets cl m' = mapping_targets cl m"
    "separate_targets cl m' = separate_targets cl m" "wanted M cl [m'] pods k = wanted M cl [m] pods k"
proof -
  show p: "prefix_set_name cl m' = prefix_set_name cl m" using assms by (simp add: same_spec_def prefix_set_name_def)
  then show "mapping_targets cl m' = mapping_targets cl m" using assms by (simp add: same_spec_def mapping_targets_def)
  then show "separate_targets cl m' = separate_targets cl m" using assms p by (simp add: same_spec_def separate_targets_def)
  have "rule_keys cl m' rule = rule_keys cl m rule" for rule using p assms by (simp add: rule_keys_def same_spec_def)
  then show "wanted M cl [m'] pods k = wanted M cl [m] pods k"
    using assms same_spec_pods(1) [OF assms] by (simp add: wanted_def same_spec_def)
qed

lemma same_spec_entry:
  assumes "same_spec m m'"
  shows "entry_ok M cl m' pods e = entry_ok M cl m pods e"
proof -
  have m: "m_Mappings m' = m_Mappings m" using assms by (simp add: same_spec_def)
  have i: "matchPodToRuleIndices M m' l = matchPodToRuleIndices M m l" for l using m by (simp add: matchPodToRuleIndices_def)
  note s = same_spec_pods [OF assms] same_spec_targets [OF assms]
  have r: "rule_ips M m' pods = rule_ips M m pods" unfolding rule_ips_def m s by simp
  have d: "desired_ok M cl m' pods D = desired_ok M cl m pods D" for D unfolding desired_ok_def m s r by simp
  show ?thesis unfolding entry_ok_def d snap_ok_def rules_ok_def matched_counts_def pending_count_def m s i by simp
qed

lemma validity_same: "same_spec m m' \<Longrightarrow> validateASGResourceIDs (m_Mappings m') = validateASGResourceIDs (m_Mappings m)"
  by (simp add: same_spec_def)


section \<open>Events as cache operations\<close>

fun quiet :: "cache_op \<Rightarrow> bool" where
  "quiet (PublishArtifacts _ _ _ _) = False"
| "quiet (PublishRecompute _ _ _ _ _ _ _ _) = False"
| "quiet _ = True"

lemma quiet_positive: "quiet oper \<Longrightarrow> positive_generation oper"
  by (cases oper) auto

lemma run_ops_simps [simp]:
  "run_ops M [] c = c" "run_ops M (oper # ops) c = run_ops M ops (step_op M oper c)"
  "run_ops M (ops @ ops') c = run_ops M ops' (run_ops M ops c)"
  by (simp_all add: run_ops_def)

lemma quiet_latest: "latest_only c \<Longrightarrow> \<forall>oper \<in> set ops. quiet oper \<Longrightarrow> latest_only (run_ops M ops c)"
  by (induction ops arbitrary: c) (auto intro: latest_only_step quiet_positive)

lemma entry_view_ns_bumps:
  "entry_view m (fold (\<lambda>(k, _) c. if nn_Namespace (ck_key k) = ns then bump_version (ck_key k) c else c) es c) = entry_view m c"
  by (induction es arbitrary: c) (simp_all add: split_beta)

lemma entry_view_filter:
  "entry_view m c = (cl, None) \<Longrightarrow> entry_view m (c\<lparr>dc_entries := filter P (dc_entries c)\<rparr>) = (cl, None)"
  by (force simp: entry_view_def map_of_eq_None_iff)

lemma quiet_absent:
  assumes "quiet oper" and "entry_view m c = (cl, None)"
  shows "entry_view m (step_op M oper c) = (cl, None)"
proof -
  have set: "entry_view m (set_entry mm e' (bump_version k c)) = (cl, None)" if "gget (dc_entries c) (cache_key mm) = Some e" for mm e e' k
    using that assms(2) by (auto simp: entry_view_set_entry) (auto simp: entry_view_def)
  show ?thesis
  proof (cases oper)
    case (PodAdded mm p)
    then show ?thesis using set assms(2) by (simp add: OnPodAdd_def Let_def split: option.split)
  next
    case (PodUpdated mm p q)
    then show ?thesis using set assms(2) by (simp add: OnPodUpdate_def Let_def split: option.split)
  next
    case (PodDeleted mm p)
    then show ?thesis using set assms(2) by (simp add: OnPodDelete_def Let_def split: option.split)
  next
    case (InvalidateKey k)
    then show ?thesis using entry_view_filter [of m "bump_version k c" cl] assms(2) by (simp add: Invalidate_def Let_def)
  next
    case (InvalidateNs ns)
    let ?c = "c\<lparr>dc_namespaceEpoch := (dc_namespaceEpoch c)(ns := dc_namespaceEpoch c ns + 1)\<rparr>"
    have "entry_view m ?c = (cl, None)" using assms(2) by (simp add: entry_view_def)
    then show ?thesis unfolding InvalidateNs step_op.simps InvalidateNamespace_def Let_def
      by (intro entry_view_filter) (simp only: entry_view_ns_bumps)
  next
    case (DeleteKey k)
    let ?c = "bump_version k (c\<lparr>dc_lifecycleEpoch := (dc_lifecycleEpoch c)(k := dc_lifecycleEpoch c k + 1)\<rparr>)"
    have "entry_view m ?c = (cl, None)" using assms(2) by (simp add: entry_view_def bump_version_def)
    from entry_view_filter [OF this, of "\<lambda>(k', _). ck_key k' \<noteq> k"] show ?thesis
      unfolding DeleteKey step_op.simps Delete_def Let_def entry_view_def by simp
  qed (use assms(1) in simp_all)
qed

lemma quiet_run_absent: "\<forall>oper \<in> set ops. quiet oper \<Longrightarrow> entry_view m c = (cl, None) \<Longrightarrow> entry_view m (run_ops M ops c) = (cl, None)"
  by (induction ops arbitrary: c) (auto intro: quiet_absent)

text \<open>With one entry for each key an operation advances the version of a key by at most two.\<close>

lemma bumps_two:
  assumes "latest_only c"
  shows "bumps key oper c \<le> (if concerns key oper then 2 else 0)"
proof -
  let ?own = "filter (\<lambda>(k, _). ck_key k = key) (dc_entries c)"
  have "fst x = fst y" if "x \<in> set ?own" "y \<in> set ?own" for x y
  proof -
    have "dc_latestGeneration c (ck_key (fst z)) = Some (ck_generation (fst z))" if "z \<in> set ?own" for z
      using assms that unfolding latest_only_def by auto
    from this [OF that(1)] this [OF that(2)] show ?thesis using that by (auto intro: cacheKey.equality)
  qed
  then have "card (set (map fst ?own)) \<le> Suc 0" unfolding card_le_Suc0_iff_eq [OF List.finite_set] by (metis (no_types, lifting) imageE set_map)
  moreover have "distinct (map fst ?own)" using assms by (simp add: latest_only_def distinct_map_filter)
  ultimately have "length ?own \<le> 1" using distinct_card [of "map fst ?own"] by (simp only: length_map)
  then show ?thesis by (auto simp: bumps_def split: cache_op.split)
qed

lemma total_bumps_le:
  assumes "latest_only c" and "\<forall>oper \<in> set ops. quiet oper"
  shows "total_bumps M key ops c \<le> 2 * length (filter (concerns key) ops)"
  using assms
proof (induction ops arbitrary: c)
  case (Cons oper ops)
  have "latest_only (step_op M oper c)" using Cons.prems quiet_positive by (auto intro: latest_only_step)
  from Cons.IH [OF this] Cons.prems(2) have "total_bumps M key ops (step_op M oper c) \<le> 2 * length (filter (concerns key) ops)" by simp
  then show ?case using bumps_two [OF Cons.prems(1), of key oper] by (auto split: if_splits)
qed simp

text \<open>Operations that each concern one of some distinct keys.\<close>

lemma fold_as_ops:
  assumes "distinct (map kf xs)"
    and "\<And>x c. x \<in> set xs \<Longrightarrow> \<exists>ops. g x c = run_ops M ops c \<and> (\<forall>oper \<in> set ops. quiet oper \<and> (\<forall>k. concerns k oper \<longleftrightarrow> k = kf x)) \<and>
      ops \<noteq> [] \<and> length ops \<le> 2"
  shows "\<exists>ops. fold g xs c = run_ops M ops c \<and> (\<forall>oper \<in> set ops. quiet oper) \<and> length (filter (concerns k0) ops) \<le> 2 \<and>
    ((\<exists>oper \<in> set ops. concerns k0 oper) \<longleftrightarrow> k0 \<in> kf ` set xs)"
  using assms
proof (induction xs arbitrary: c)
  case Nil
  then show ?case by (intro exI [of _ "[]"]) simp
next
  case (Cons x xs)
  obtain ops where ops: "g x c = run_ops M ops c" "\<forall>oper \<in> set ops. quiet oper \<and> (\<forall>k. concerns k oper \<longleftrightarrow> k = kf x)" "ops \<noteq> []" "length ops \<le> 2"
    using Cons.prems(2) [of x c] by auto
  obtain ops' where ops': "fold g xs (g x c) = run_ops M ops' (g x c)" "\<forall>oper \<in> set ops'. quiet oper" "length (filter (concerns k0) ops') \<le> 2"
    "(\<exists>oper \<in> set ops'. concerns k0 oper) \<longleftrightarrow> k0 \<in> kf ` set xs"
    using Cons.IH [of "g x c"] Cons.prems by auto
  have len: "length (filter (concerns k0) ops) \<le> (if k0 = kf x then 2 else 0)"
    using ops(2,4) length_filter_le [of "concerns k0" ops] by (auto simp: filter_empty_conv)
  have none: "filter (concerns k0) ops' = []" if "k0 = kf x"
    using that Cons.prems(1) ops'(4) by (auto simp: filter_empty_conv)
  have ex: "(\<exists>oper \<in> set ops. concerns k0 oper) \<longleftrightarrow> k0 = kf x" using ops(2,3) by (auto simp: neq_Nil_conv)
  show ?case
    by (intro exI [of _ "ops @ ops'"]) (use ops ops' len none ex in \<open>auto split: if_splits\<close>)
qed


definition single_op :: "matcher \<Rightarrow> NamespacedName \<Rightarrow> (DesiredStateCache \<Rightarrow> DesiredStateCache) \<Rightarrow> bool" where
  "single_op M k f \<longleftrightarrow> (\<forall>c. \<exists>ops. f c = run_ops M ops c \<and> (\<forall>oper \<in> set ops. quiet oper \<and> (\<forall>k'. concerns k' oper \<longleftrightarrow> k' = k)) \<and>
     ops \<noteq> [] \<and> length ops \<le> 2)"

lemma single_op_step:
  assumes "\<And>c. f c = step_op M oper c" and "quiet oper" and "\<And>k'. concerns k' oper \<longleftrightarrow> k' = k"
  shows "single_op M k f"
  unfolding single_op_def using assms by (intro allI exI [of _ "[oper]"]) simp

lemma cache_on_ops:
  shows "single_op M (mapping_key mm) (cache_on_create M p (matched_of mm))"
    and "single_op M (mapping_key mm) (cache_on_delete M p (matched_of mm))"
proof -
  let ?o = "\<lambda>x. if validateASGResourceIDs (m_Mappings mm) \<noteq> [] then InvalidateKey (mapping_key mm) else x"
  show "single_op M (mapping_key mm) (cache_on_create M p (matched_of mm))"
    by (rule single_op_step [of _ _ "?o (PodAdded mm p)"]) (auto simp: cache_on_create_def)
  show "single_op M (mapping_key mm) (cache_on_delete M p (matched_of mm))"
    by (rule single_op_step [of _ _ "?o (PodDeleted mm p)"]) (auto simp: cache_on_delete_def)
qed

lemma cache_on_update_ops:
  assumes "\<And>mm. gget oldSet k = Some mm \<Longrightarrow> mapping_key mm = k" and "\<And>mm. gget newSet k = Some mm \<Longrightarrow> mapping_key mm = k"
    and "gget oldSet k \<noteq> None \<or> gget newSet k \<noteq> None"
  shows "single_op M k (cache_on_update M p q oldSet newSet k)"
  unfolding single_op_def
proof
  fix c
  let ?f = "cache_on_update M p q oldSet newSet k"
  let ?P = "\<exists>ops. ?f c = run_ops M ops c \<and> (\<forall>oper \<in> set ops. quiet oper \<and> (\<forall>k'. concerns k' oper \<longleftrightarrow> k' = k)) \<and> ops \<noteq> [] \<and> length ops \<le> 2"
  have inv: ?P if "?f c = Invalidate c k" using that by (intro exI [of _ "[InvalidateKey k]"]) auto
  consider a b where "gget oldSet k = Some a" "gget newSet k = Some b" | a where "gget oldSet k = Some a" "gget newSet k = None"
    | b where "gget oldSet k = None" "gget newSet k = Some b"
    using assms(3) by (cases "gget oldSet k"; cases "gget newSet k") auto
  then show ?P
  proof cases
    case (1 a b)
    have b: "mapping_key b = k" using assms(2) 1(2) .
    show ?thesis
    proof (cases "validateASGResourceIDs (m_Mappings b) = []")
      case True
      obtain c' ok where u: "OnPodUpdate M c b p q = (c', ok)" by (cases "OnPodUpdate M c b p q")
      show ?thesis
      proof (cases ok)
        case True
        then show ?thesis using 1 u b \<open>validateASGResourceIDs (m_Mappings b) = []\<close>
          by (intro exI [of _ "[PodUpdated b p q]"]) (auto simp: cache_on_update_def)
      next
        case False
        then have "?f c = run_ops M [PodUpdated b p q, InvalidateKey k] c"
          using 1 u \<open>validateASGResourceIDs (m_Mappings b) = []\<close> by (simp add: cache_on_update_def)
        then show ?thesis using b by (intro exI [of _ "[PodUpdated b p q, InvalidateKey k]"]) auto
      qed
    qed (use 1 inv in \<open>simp add: cache_on_update_def\<close>)
  next
    case (2 a)
    have a: "mapping_key a = k" using assms(1) 2(1) .
    show ?thesis using 2 a
      by (intro exI [of _ "[if validateASGResourceIDs (m_Mappings a) \<noteq> [] then InvalidateKey k else PodDeleted a p]"])
        (auto simp: cache_on_update_def)
  next
    case (3 b)
    have b: "mapping_key b = k" using assms(2) 3(2) .
    show ?thesis using 3 b
      by (intro exI [of _ "[if validateASGResourceIDs (m_Mappings b) \<noteq> [] then InvalidateKey k else PodAdded b q]"])
        (auto simp: cache_on_update_def)
  qed
qed

lemma fold_single_ops:
  assumes "distinct (map kf xs)" and "\<And>x. x \<in> set xs \<Longrightarrow> single_op M (kf x) (g x)"
  shows "\<exists>ops. fold g xs c = run_ops M ops c \<and> (\<forall>oper \<in> set ops. quiet oper) \<and> length (filter (concerns k0) ops) \<le> 2 \<and>
    ((\<exists>oper \<in> set ops. concerns k0 oper) \<longleftrightarrow> k0 \<in> kf ` set xs)"
  by (rule fold_as_ops [OF assms(1)]) (use assms(2) in \<open>simp add: single_op_def\<close>)


text \<open>A handled event, when the list of mappings succeeds and when it fails.\<close>

definition as_ops :: "matcher \<Rightarrow> NamespacedName \<Rightarrow> bool \<Rightarrow> DesiredStateCache \<Rightarrow> DesiredStateCache option \<Rightarrow> bool" where
  "as_ops M k touched c c' \<longleftrightarrow> (\<exists>ops. c' = Some (run_ops M ops c) \<and> (\<forall>oper \<in> set ops. quiet oper) \<and>
     length (filter (concerns k) ops) \<le> 2 \<and> ((\<exists>oper \<in> set ops. concerns k oper) \<longleftrightarrow> touched))"

lemma handle_one_ops:
  assumes "lists_mapping reader m" and "p_Namespace p = m_Namespace m" and "h_DesiredStateCache h = Some c"
    and "\<And>mm. single_op M (mapping_key mm) (f (matched_of mm))"
  shows "as_ops M (mapping_key m) (mapping_matches M m (p_Labels p)) c (h_DesiredStateCache (fst (handle_one f M reader p h q)))"
proof -
  obtain ms where ms: "matchingMappingsForPodDetailed M reader p = Inr ms" "distinct (map mm_Request ms)"
    "\<forall>mm \<in> set ms. mm = matched_of (mm_Mapping mm)" "matched_of m \<in> set ms \<longleftrightarrow> mapping_matches M m (p_Labels p)"
    "\<forall>mm \<in> set ms. mm_Request mm = mapping_key m \<longrightarrow> mm = matched_of m"
    by (rule detailed_matches [OF assms(1,2)])
  have "single_op M (mm_Request x) (f x)" if "x \<in> set ms" for x :: matchedMapping
    using assms(4) [of "mm_Mapping x"] ms(3) that by (metis matchedMapping.select_convs(2))
  from fold_single_ops [OF ms(2) this, of c "mapping_key m"]
  obtain ops where ops: "fold f ms c = run_ops M ops c" "\<forall>oper \<in> set ops. quiet oper" "length (filter (concerns (mapping_key m)) ops) \<le> 2"
    "(\<exists>oper \<in> set ops. concerns (mapping_key m) oper) \<longleftrightarrow> mapping_key m \<in> mm_Request ` set ms" by auto
  have "mapping_key m \<in> mm_Request ` set ms \<longleftrightarrow> matched_of m \<in> set ms"
    using ms(5) by (metis image_iff matchedMapping.select_convs(2))
  then show ?thesis unfolding as_ops_def using ops ms(1,4) assms(3)
    by (intro exI [of _ ops]) (simp add: handle_one_def handle_matched_fold)
qed

lemma as_ops_ns: "as_ops M k True c (Some (InvalidateNamespace c (nn_Namespace k)))"
  unfolding as_ops_def by (intro exI [of _ "[InvalidateNs (nn_Namespace k)]"]) simp

lemma handle_event_ops:
  assumes "lists_mapping reader m" and "namespace_pods m pods" and "valid_event m pods ev" and "h_DesiredStateCache h = Some c"
  shows "as_ops M (mapping_key m)
    (case ev of Added p \<Rightarrow> mapping_matches M m (p_Labels p) | Deleted p \<Rightarrow> mapping_matches M m (p_Labels p)
      | Updated old new \<Rightarrow> mapping_matches M m (p_Labels old) \<or> mapping_matches M m (p_Labels new))
    c (h_DesiredStateCache (fst (handle_event M reader ev (h, q))))"
proof (cases ev)
  case (Added p)
  with assms(3) have "p_Namespace p = m_Namespace m" by simp
  from handle_one_ops [OF assms(1) this assms(4) cache_on_ops(1) [of M _ p], of q] show ?thesis using Added by (simp add: Handler_Create_def)
next
  case (Deleted p)
  with assms(2,3) have "p_Namespace p = m_Namespace m" by (simp add: namespace_pods_def)
  from handle_one_ops [OF assms(1) this assms(4) cache_on_ops(2) [of M _ p], of q] show ?thesis using Deleted by (simp add: Handler_Delete_def)
next
  case (Updated old new)
  have ns: "p_Namespace old = m_Namespace m" "p_Namespace new = m_Namespace m" using assms(2,3) Updated by (auto simp: namespace_pods_def pod_id_def)
  obtain ms where ms: "matchingMappingsForPodDetailed M reader old = Inr ms" "distinct (map mm_Request ms)"
    "\<forall>mm \<in> set ms. mm = matched_of (mm_Mapping mm)" "matched_of m \<in> set ms \<longleftrightarrow> mapping_matches M m (p_Labels old)"
    "\<forall>mm \<in> set ms. mm_Request mm = mapping_key m \<longrightarrow> mm = matched_of m" by (rule detailed_matches [OF assms(1) ns(1)])
  obtain ns' where ns': "matchingMappingsForPodDetailed M reader new = Inr ns'" "distinct (map mm_Request ns')"
    "\<forall>mm \<in> set ns'. mm = matched_of (mm_Mapping mm)" "matched_of m \<in> set ns' \<longleftrightarrow> mapping_matches M m (p_Labels new)"
    "\<forall>mm \<in> set ns'. mm_Request mm = mapping_key m \<longrightarrow> mm = matched_of m" by (rule detailed_matches [OF assms(1) ns(2)])
  let ?o = "matchedMappingsByKey ms" and ?n = "matchedMappingsByKey ns'"
  let ?keys = "fold sadd (gkeys ?n) (fold sadd (gkeys ?o) [])"
  have keys: "distinct ?keys" "set ?keys = mm_Request ` set ms \<union> mm_Request ` set ns'" by (auto simp: byKey_set simp del: set_map)
  have some: "gget (matchedMappingsByKey xs) k \<noteq> None" if "k \<in> mm_Request ` set xs" for k xs
    using that unfolding byKey_set [symmetric] by (simp add: map_of_eq_None_iff)
  have "single_op M (id k) (cache_on_update M old new ?o ?n k)" if "k \<in> set ?keys" for k
    unfolding id_apply by (rule cache_on_update_ops) (use that keys(2) some byKey_get_own [OF ms(3)] byKey_get_own [OF ns'(3)] in \<open>blast+\<close>)
  from fold_single_ops [of id ?keys, OF _ this] keys(1)
  obtain ops where ops: "fold (cache_on_update M old new ?o ?n) ?keys c = run_ops M ops c" "\<forall>oper \<in> set ops. quiet oper"
    "length (filter (concerns (mapping_key m)) ops) \<le> 2" "(\<exists>oper \<in> set ops. concerns (mapping_key m) oper) \<longleftrightarrow> mapping_key m \<in> set ?keys"
    by (metis image_id map_idI id_apply)
  have "mapping_key m \<in> mm_Request ` set xs \<longleftrightarrow> matched_of m \<in> set xs"
    if "\<forall>mm \<in> set xs. mm_Request mm = mapping_key m \<longrightarrow> mm = matched_of m" for xs
    using that by (metis image_iff matchedMapping.select_convs(2))
  then have "mapping_key m \<in> set ?keys \<longleftrightarrow> mapping_matches M m (p_Labels old) \<or> mapping_matches M m (p_Labels new)"
    using keys(2) ms(4,5) ns'(4,5) by auto
  then show ?thesis unfolding as_ops_def using ops ms(1) ns'(1) assms(4) Updated
    by (intro exI [of _ ops]) (simp add: Handler_Update_def update_cache_def Let_def)
qed

lemma handle_event_fails:
  assumes "reader (m_Namespace m) = Inl err" and "namespace_pods m pods" and "valid_event m pods ev" and "h_DesiredStateCache h = Some c"
  shows "h_DesiredStateCache (fst (handle_event M reader ev (h, q))) = Some (InvalidateNamespace c (m_Namespace m))"
proof -
  have d: "\<exists>e. matchingMappingsForPodDetailed M reader p = Inl e" if "p_Namespace p = m_Namespace m" for p
    using assms(1) that by (simp add: matchingMappingsForPodDetailed_def listPodASGMappings_def)
  show ?thesis
  proof (cases ev)
    case (Added p)
    with assms(3) have "p_Namespace p = m_Namespace m" by simp
    with d [OF this] Added assms(4) show ?thesis by (auto simp: Handler_Create_def handle_one_def)
  next
    case (Deleted p)
    with assms(2,3) have "p_Namespace p = m_Namespace m" by (simp add: namespace_pods_def)
    with d [OF this] Deleted assms(4) show ?thesis by (auto simp: Handler_Delete_def handle_one_def)
  next
    case (Updated old new)
    have "p_Namespace old = m_Namespace m" "p_Namespace new = m_Namespace m" using assms(2,3) Updated by (auto simp: namespace_pods_def pod_id_def)
    with d [OF this(1)] d [OF this(2)] Updated assms(4) show ?thesis by (auto simp: Handler_Update_def update_cache_def Let_def)
  qed
qed

section \<open>Pods an entry cannot tell apart\<close>

text \<open>An update that the predicate drops replaces a pod by one that every entry treats the same.\<close>

lemma alike_map:
  assumes "\<And>p. p \<in> set pods \<Longrightarrow> pod_id (f p) = pod_id p \<and> p_PodIP (f p) = p_PodIP p \<and> (\<forall>rule. rule_selects M m rule (f p) = rule_selects M m rule p)"
    and "\<forall>p \<in> set pods. p_Namespace p = m_Namespace m"
  shows "alike M m pods (map f pods)"
proof -
  have f: "pod_id (f p) = pod_id p" "p_PodIP (f p) = p_PodIP p" "rule_selects M m rule (f p) = rule_selects M m rule p"
    "selected_by M m (f p) = selected_by M m p" if "p \<in> set pods" for p rule
    using assms(1) [OF that] by (simp_all add: selected_by_def)
  have idx: "set (matchPodToRuleIndices M m (p_Labels (f p))) = set (matchPodToRuleIndices M m (p_Labels p))" if p: "p \<in> set pods" for p
  proof -
    have ns: "p_Namespace p = m_Namespace m" "p_Namespace (f p) = m_Namespace m" using assms(2) f(1) [OF p] p by (auto simp: pod_id_def)
    have "set (matchPodToRuleIndices M m l) = {i \<in> set (matchPodToRuleIndices M m l). i < length (m_Mappings m)}" for l
      by (auto simp: set_matchPodToRuleIndices)
    moreover have "i \<in> set (matchPodToRuleIndices M m (p_Labels (f p))) \<longleftrightarrow> i \<in> set (matchPodToRuleIndices M m (p_Labels p))"
      if "i < length (m_Mappings m)" for i using selects_matched [OF ns(1) that] selects_matched [OF ns(2) that] f(3) [OF p] by blast
    ultimately show ?thesis by blast
  qed
  have "rule_ips M m (map f pods) i = rule_ips M m pods i" for i
  proof -
    have "x \<in> rule_ips M m (map f pods) i \<longleftrightarrow>
      (\<exists>p \<in> set pods. x = toCIDR (p_PodIP (f p)) \<and> rule_selects M m (m_Mappings m ! i) (f p) \<and> p_PodIP (f p) \<noteq> [])" for x
      unfolding rule_ips_def by auto
    also have "\<dots> x \<longleftrightarrow> (\<exists>p \<in> set pods. x = toCIDR (p_PodIP p) \<and> rule_selects M m (m_Mappings m ! i) p \<and> p_PodIP p \<noteq> [])" for x
      by (intro bex_cong refl) (simp add: f)
    also have "\<dots> x \<longleftrightarrow> x \<in> rule_ips M m pods i" for x unfolding rule_ips_def by auto
    finally show ?thesis by blast
  qed
  then have d: "desired_ok M cl m (map f pods) D = desired_ok M cl m pods D" for cl D by (simp add: desired_ok_def)
  have "matched_counts M m (map f pods) = matched_counts M m pods"
    unfolding matched_counts_def by (rule map_cong [OF refl]) (simp add: filter_map comp_def f cong: filter_cong)
  moreover have "pending_count M m (map f pods) = pending_count M m pods"
    unfolding pending_count_def by (simp add: filter_map comp_def f cong: filter_cong)
  moreover have "snap_ok M m (map f pods) S = snap_ok M m pods S" for S
    unfolding snap_ok_def by (simp add: f cong: option.case_cong) 
  moreover have "rules_ok M m (map f pods) R = rules_ok M m pods R" for R
    unfolding rules_ok_def by (simp add: f idx cong: option.case_cong)
  ultimately show ?thesis by (simp add: alike_def entry_ok_def d)
qed

lemma dropped_alike:
  assumes "extensional M" and "cluster_pods m pods" and "valid_event m pods ev" and "event_labels ev" and "\<not> PodPredicate (obj_event ev)"
  shows "alike M m pods (apply_event ev pods)"
proof -
  obtain old new where ev: "ev = Updated old new" using assms(5) by (cases ev) auto
  then have u: "old \<in> set pods" "pod_id new = pod_id old" "wf_labels (p_Labels old)" "wf_labels (p_Labels new)"
    using assms(2-4) by (auto simp: cluster_pods_def)
  have "p_Namespace old = p_Namespace new" using u(2) by (simp add: pod_id_def)
  note d = dropped_update [OF assms(1) u(3,4) this assms(5) [unfolded ev obj_event.simps]]
  show ?thesis unfolding ev apply_event.simps
    by (rule alike_map) (use u d assms(2) in \<open>auto simp: cluster_pods_def namespace_pods_def\<close>)
qed

lemma unmatched_alike:
  assumes "namespace_pods m pods" and "valid_event m pods ev"
    and "\<not> (case ev of Added p \<Rightarrow> mapping_matches M m (p_Labels p) | Deleted p \<Rightarrow> mapping_matches M m (p_Labels p)
      | Updated old new \<Rightarrow> mapping_matches M m (p_Labels old) \<or> mapping_matches M m (p_Labels new))"
  shows "alike M m pods (apply_event ev pods)"
proof (rule alike_selected, cases ev)
  case (Added p)
  then show "mset (filter (selected_by M m) pods) = mset (filter (selected_by M m) (apply_event ev pods))"
    using assms(2,3) mapping_matches_selected [of p m M] by simp
next
  case (Deleted p)
  then have "p_Namespace p = m_Namespace m" using assms(1,2) by (simp add: namespace_pods_def)
  then have "\<not> selected_by M m p" using assms(3) Deleted mapping_matches_selected [of p m M] by simp
  then have "filter (selected_by M m) (filter (\<lambda>q. q \<noteq> p) pods) = filter (selected_by M m) pods"
    by (auto simp: filter_filter intro: filter_cong)
  then show "mset (filter (selected_by M m) pods) = mset (filter (selected_by M m) (apply_event ev pods))" using Deleted by simp
next
  case (Updated old new)
  then have o: "old \<in> set pods" and ns: "p_Namespace old = m_Namespace m" "p_Namespace new = m_Namespace m"
    using assms(1,2) by (auto simp: namespace_pods_def pod_id_def)
  then have n: "\<not> selected_by M m old" "\<not> selected_by M m new"
    using assms(3) Updated mapping_matches_selected [of old m M] mapping_matches_selected [of new m M] by auto
  have dist: "distinct (map pod_id pods)" using assms(1) by (simp add: namespace_pods_def)
  have "filter (selected_by M m) (filter (\<lambda>q. q \<noteq> old) pods) = filter (selected_by M m) pods"
    using n(1) by (auto simp: filter_filter intro: filter_cong)
  then show "mset (filter (selected_by M m) pods) = mset (filter (selected_by M m) (apply_event ev pods))"
    using filter_mset_replace [OF dist o, of "selected_by M m" new] n(2) Updated by simp
qed

lemma cluster_pods_event:
  assumes "cluster_pods m pods" and "valid_event m pods ev" and "event_labels ev"
  shows "cluster_pods m (apply_event ev pods)"
  using assms namespace_pods_event [OF _ assms(2)] unfolding cluster_pods_def by (cases ev) auto

section \<open>Delivery\<close>

text \<open>What a cache promises for a mapping whose namespace has these pods.\<close>

definition cache_inv :: "matcher \<Rightarrow> string \<Rightarrow> PodASGMapping \<Rightarrow> Pod list \<Rightarrow> DesiredStateCache \<Rightarrow> bool" where
  "cache_inv M cl m pods c \<longleftrightarrow> dc_clusterName c = cl \<and> latest_only c \<and>
     (\<forall>e. gget (dc_entries c) (cache_key m) = Some e \<longrightarrow> entry_ok M cl m pods e)"

text \<open>How far the version of the mapping's key has moved, and that it has if the pods matter.\<close>

definition fenced :: "matcher \<Rightarrow> PodASGMapping \<Rightarrow> nat \<Rightarrow> Pod list \<times> DesiredStateCache \<Rightarrow> Pod list \<times> DesiredStateCache \<Rightarrow> bool" where
  "fenced M m n a b \<longleftrightarrow> currentVersion (snd b) (mapping_key m) = currentVersion (snd a) (mapping_key m) + of_nat n \<and>
     (n = 0 \<longrightarrow> alike M m (fst a) (fst b))"

lemma fenced_trans: "fenced M m i a b \<Longrightarrow> fenced M m j b c \<Longrightarrow> fenced M m (i + j) a c"
  by (auto simp: fenced_def add.assoc intro: alike_trans)

lemma as_ops_result:
  assumes "as_ops M (mapping_key m) touched c (Some c')" and "latest_only c" and "\<not> touched \<Longrightarrow> alike M m pods pods'"
  shows "dc_clusterName c' = dc_clusterName c" "latest_only c'" "\<exists>n \<le> 4. fenced M m n (pods, c) (pods', c')"
    "gget (dc_entries c) (cache_key m) = None \<Longrightarrow> gget (dc_entries c') (cache_key m) = None"
proof -
  obtain ops where ops: "c' = run_ops M ops c" "\<forall>oper \<in> set ops. quiet oper" "length (filter (concerns (mapping_key m)) ops) \<le> 2"
    "(\<exists>oper \<in> set ops. concerns (mapping_key m) oper) \<longleftrightarrow> touched"
    using assms(1) by (auto simp: as_ops_def)
  have "dc_clusterName (fold (\<lambda>(k, _) c. if nn_Namespace (ck_key k) = ns then bump_version (ck_key k) c else c) es d) = dc_clusterName d"
    for ns d and es :: "(cacheKey, cacheEntry) gomap" by (induction es arbitrary: d) (simp_all add: split_beta bump_version_def)
  then have "dc_clusterName (step_op M oper d) = dc_clusterName d" for oper d
    by (cases oper) (simp_all add: OnPodAdd_def OnPodDelete_def OnPodUpdate_def Invalidate_def Delete_def InvalidateNamespace_def Let_def bump_version_def
        set_entry_def SetFromRecomputeArtifactsIfVersion_def SetFromRecomputeIfVersion_def setFromRecomputeLocked_def track_generation_def
        split: option.split)
  then have "dc_clusterName (run_ops M ops d) = dc_clusterName d" for ops d by (induction ops arbitrary: d) simp_all
  then show cl: "dc_clusterName c' = dc_clusterName c" using ops(1) by simp
  show "latest_only c'" unfolding ops(1) by (rule quiet_latest [OF assms(2) ops(2)])
  let ?n = "total_bumps M (mapping_key m) ops c"
  have "?n \<le> 4" using total_bumps_le [OF assms(2) ops(2), of M "mapping_key m"] ops(3) by linarith
  moreover have "alike M m pods pods'" if "?n = 0"
  proof -
    have "\<not> (\<exists>oper \<in> set ops. concerns (mapping_key m) oper)" using total_bumps_pos [of ops "mapping_key m" M c] that by auto
    then show ?thesis using assms(3) ops(4) by blast
  qed
  ultimately show "\<exists>n \<le> 4. fenced M m n (pods, c) (pods', c')" unfolding fenced_def ops(1) by (auto simp: currentVersion_run)
  show "gget (dc_entries c') (cache_key m) = None" if "gget (dc_entries c) (cache_key m) = None"
    using quiet_run_absent [OF ops(2), of m c "dc_clusterName c" M] that cl ops(1) by (simp add: entry_view_def)
qed

lemma arrival_step:
  assumes "separate_targets cl m" and "extensional M" and "cluster_pods m pods" and "cache_inv M cl m pods c"
    and "reader_ok m reader" and "valid_event m pods ev" and "event_labels ev"
  shows "cache_inv M cl m (apply_event ev pods) (on_arrival M (reader, ev) c) \<and>
    (\<exists>n \<le> 4. fenced M m n (pods, c) (apply_event ev pods, on_arrival M (reader, ev) c))"
proof (cases "PodPredicate (obj_event ev)")
  case False
  have a: "alike M m pods (apply_event ev pods)" by (rule dropped_alike [OF assms(2,3,6,7) False])
  have "on_arrival M (reader, ev) c = c" using False by (simp add: on_arrival_def)
  then show ?thesis using a assms(4) by (auto simp: cache_inv_def alike_def fenced_def intro: exI [of _ 0])
next
  case True
  let ?h = "NewPodToMappingEventHandlerWithCache 0 c" and ?pods = "apply_event ev pods"
  have h: "h_DesiredStateCache ?h = Some c" by (simp add: NewPodToMappingEventHandlerWithCache_def)
  have ns: "namespace_pods m pods" using assms(3) by (simp add: cluster_pods_def)
  have inv: "dc_clusterName c = cl" "latest_only c" "\<And>e. gget (dc_entries c) (cache_key m) = Some e \<Longrightarrow> entry_ok M cl m pods e"
    using assms(4) by (simp_all add: cache_inv_def)
  consider (1) err where "reader (m_Namespace m) = Inl err" | (2) m' where "same_spec m m'" "lists_mapping reader m'" using assms(5) by (auto simp: reader_ok_def)
  then show ?thesis
  proof cases
    case 1
    let ?c = "InvalidateNamespace c (m_Namespace m)"
    have c': "on_arrival M (reader, ev) c = ?c" using handle_event_fails [of reader m err pods ev ?h c, OF 1 ns assms(6) h] True by (simp add: on_arrival_def)
    have "as_ops M (mapping_key m) True c (Some ?c)" using as_ops_ns [of M "mapping_key m" c] by (simp add: mapping_key_def)
    note r = as_ops_result [OF this inv(2)]
    have "gget (filter (\<lambda>(k, _). nn_Namespace (ck_key k) \<noteq> m_Namespace m) es) (cache_key m) = None" for es :: "(cacheKey, cacheEntry) gomap"
      by (auto simp: map_of_eq_None_iff cache_key_def mapping_key_def)
    then have "gget (dc_entries ?c) (cache_key m) = None" by (simp add: InvalidateNamespace_def Let_def)
    then show ?thesis using r(1,2,3) inv(1) by (simp add: cache_inv_def c')
  next
    case (2 m')
    note k = same_spec_keys [OF 2(1)] and p = same_spec_pods [OF 2(1)]
    have ns': "namespace_pods m' pods" "valid_event m' pods ev" using ns assms(6) p by simp_all
    let ?t = "case ev of Added p \<Rightarrow> mapping_matches M m' (p_Labels p) | Deleted p \<Rightarrow> mapping_matches M m' (p_Labels p)
      | Updated old new \<Rightarrow> mapping_matches M m' (p_Labels old) \<or> mapping_matches M m' (p_Labels new)"
    have ops: "as_ops M (mapping_key m) ?t c (h_DesiredStateCache (fst (handle_event M reader ev (?h, []))))"
      using handle_event_ops [OF 2(2) ns' h] k(1) by simp
    then obtain c' where hc: "h_DesiredStateCache (fst (handle_event M reader ev (?h, []))) = Some c'" by (auto simp: as_ops_def)
    have c': "on_arrival M (reader, ev) c = c'" using hc True by (simp add: on_arrival_def)
    have "alike M m pods ?pods" if "\<not> ?t" using unmatched_alike [OF ns' that] same_spec_entry [OF 2(1)] by (simp add: alike_def)
    note r = as_ops_result [OF ops [unfolded hc] inv(2) this]
    have "entry_ok M cl m ?pods e" if e: "gget (dc_entries c') (cache_key m) = Some e" for e
    proof -
      obtain e0 where e0: "gget (dc_entries c) (cache_key m) = Some e0" using r(4) e by (cases "gget (dc_entries c) (cache_key m)") simp_all
      then have v: "entry_view m' c = (cl, Some e0)" using inv(1) k by (simp add: entry_view_def)
      have "separate_targets cl m'" using assms(1) same_spec_targets(3) [OF 2(1)] by simp
      moreover have "entry_ok M cl m' pods e0" using inv(3) [OF e0] same_spec_entry [OF 2(1)] by simp
      ultimately obtain c1 e1 where "h_DesiredStateCache (fst (handle_event M reader ev (?h, []))) = Some c1" "entry_view m' c1 = (cl, Some e1)"
        "entry_ok M cl m' ?pods e1" using handle_event_entry [OF _ 2(2) h v _ ns', of M "[]"] by blast
      then have "entry_view m c' = (cl, Some e1)" "entry_ok M cl m ?pods e1" using hc k(3) same_spec_entry [OF 2(1)] by auto
      then show ?thesis using e by (simp add: entry_view_def)
    qed
    then show ?thesis using r(1,2) r(3) inv(1) by (simp add: cache_inv_def c')
  qed
qed

lemma deliver_simps [simp]:
  "deliver M [] c = c" "deliver M (a # as) c = deliver M as (on_arrival M a c)"
  "pods_after [] pods = pods" "pods_after (a # as) pods = pods_after as (apply_event (snd a) pods)"
  by (simp_all add: deliver_def pods_after_def)

lemma deliver_inv:
  assumes "separate_targets cl m" and "extensional M"
  shows "cluster_pods m pods \<Longrightarrow> cache_inv M cl m pods c \<Longrightarrow> valid_arrivals m pods as \<Longrightarrow>
    cluster_pods m (pods_after as pods) \<and> cache_inv M cl m (pods_after as pods) (deliver M as c) \<and>
    (\<exists>n \<le> 4 * length as. fenced M m n (pods, c) (pods_after as pods, deliver M as c))"
proof (induction as arbitrary: pods c)
  case Nil
  then show ?case by (simp add: fenced_def)
next
  case (Cons a as)
  obtain reader ev where a: "a = (reader, ev)" by (cases a)
  have v: "reader_ok m reader" "valid_event m pods ev" "event_labels ev" "valid_arrivals m (apply_event ev pods) as" using Cons.prems(3) a by auto
  note s = arrival_step [OF assms Cons.prems(1,2) v(1-3)]
  obtain i where i: "i \<le> 4" "fenced M m i (pods, c) (apply_event ev pods, on_arrival M (reader, ev) c)" using s by blast
  note IH = Cons.IH [OF cluster_pods_event [OF Cons.prems(1) v(2,3)] conjunct1 [OF s] v(4)]
  then obtain j where j: "j \<le> 4 * length as"
    "fenced M m j (apply_event ev pods, on_arrival M (reader, ev) c) (pods_after as (apply_event ev pods), deliver M as (on_arrival M (reader, ev) c))"
    by blast
  have "fenced M m (i + j) (pods, c) (pods_after (a # as) pods, deliver M (a # as) c)" using fenced_trans [OF i(2) j(2)] by (simp add: a)
  moreover have "i + j \<le> 4 * length (a # as)" using i(1) j(1) by simp
  ultimately show ?case using IH by (auto simp: a)
qed

text \<open>A publication keeps the invariant if what it publishes fits the pods.\<close>

lemma publish_inv:
  assumes "cache_inv M cl m pods c" and "m_Generation m' > 0"
    and "\<not> publish_refused c m' v e \<Longrightarrow> cache_key m' = cache_key m \<Longrightarrow> entry_ok M cl m pods (buildCacheEntryFromArtifacts m' arts)"
    and "SetFromRecomputeArtifactsIfVersion c m' arts v e = (c', committed, v', e')"
  shows "cache_inv M cl m pods c'"
proof (cases "publish_refused c m' v e")
  case True
  then show ?thesis using assms(1,4) by (simp add: SetFromRecomputeArtifactsIfVersion_def Let_def)
next
  case False
  let ?e = "buildCacheEntryFromArtifacts m' arts"
  let ?c = "c\<lparr>dc_entries := gput (cache_key m') ?e (dc_entries c)\<rparr>"
  have c': "c' = track_generation m' ?c" using assms(4) False by (simp add: SetFromRecomputeArtifactsIfVersion_def Let_def)
  have "latest_only c'" unfolding c' by (rule latest_only_publish [OF _ False assms(2)]) (use assms(1) in \<open>simp add: cache_inv_def\<close>)
  moreover have "dc_clusterName c' = cl" using assms(1) by (simp add: c' track_generation_def Let_def cache_inv_def)
  moreover have "entry_ok M cl m pods x" if "gget (dc_entries c') (cache_key m) = Some x" for x
  proof -
    have "gget (dc_entries ?c) (cache_key m) = Some x"
    proof -
      have "wfmap (dc_entries ?c)" using assms(1) by (simp add: cache_inv_def latest_only_def)
      moreover have "(cache_key m, x) \<in> set (dc_entries ?c)"
        using gget_in_set [OF that] by (auto simp: c' track_generation_def Let_def split: if_splits)
      ultimately show ?thesis by (simp only: wfmap_gget_iff)
    qed
    then show ?thesis using assms(1) assms(3) [OF False] by (auto simp: cache_inv_def split: if_splits)
  qed
  ultimately show ?thesis by (simp add: cache_inv_def)
qed

lemma delete_inv:
  assumes "cache_inv M cl m pods c"
  shows "cache_inv M cl m pods (Delete c key)"
proof -
  have "latest_only (Delete c key)" using latest_only_step [of c "DeleteKey key"] assms by (simp add: cache_inv_def)
  moreover have "dc_clusterName (Delete c key) = cl" using assms by (simp add: Delete_def Let_def bump_version_def cache_inv_def)
  moreover have "gget (dc_entries c) k = Some x" if g: "gget (dc_entries (Delete c key)) k = Some x" for k x
  proof -
    have "wfmap (dc_entries c)" using assms by (simp add: cache_inv_def latest_only_def)
    moreover have "(k, x) \<in> set (dc_entries c)" using gget_in_set [OF g] by (auto simp: Delete_def Let_def)
    ultimately show ?thesis by (simp add: wfmap_gget_iff)
  qed
  ultimately show ?thesis using assms by (simp add: cache_inv_def)
qed

lemma new_cache_inv: "cache_inv M cl m pods (NewDesiredStateCache cl)"
  by (simp add: cache_inv_def latest_only_def NewDesiredStateCache_def)

text \<open>
  A recomputation whose version still holds when it publishes fits the pods at that time: its
  version was read first, then in two steps it listed the pods and checked the object.
\<close>

lemma fenced_publish:
  assumes "fenced M m i (pods, c) (pods1, c1)" and "fenced M m j (pods1, c1) (pods2, c2)" and "i + j < 2 ^ 64"
    and "same_spec m m'" and "\<not> publish_refused c2 m' (currentVersion c (mapping_key m')) e" and "ps \<in> {pods, pods1, pods2}"
  shows "alike M m ps pods2"
proof -
  have k: "mapping_key m' = mapping_key m" using assms(4) by (rule same_spec_keys(1))
  have "currentVersion c (mapping_key m) = currentVersion c2 (mapping_key m)"
    using assms(5) by (auto simp: publish_refused_def Let_def k split: if_splits)
  moreover have "currentVersion c2 (mapping_key m) = currentVersion c (mapping_key m) + of_nat (i + j)"
    using fenced_trans [OF assms(1,2)] by (simp add: fenced_def)
  ultimately have "(of_nat (i + j) :: 64 word) = 0" by simp
  then have "2 ^ 64 dvd i + j" unfolding word_of_nat_eq_0_iff by simp
  then have "i = 0 \<and> j = 0" using assms(3) by (cases "i + j = 0") (auto dest: dvd_imp_le)
  then have "alike M m pods pods1" "alike M m pods1 pods2" using assms(1,2) by (simp_all add: fenced_def)
  then show ?thesis using assms(6) by (auto intro: alike_trans)
qed

end
