(* ===== verification/Requeue_Policy.thy ===== *)
theory Requeue_Policy
  imports Status
begin

text \<open>
  When to reconcile again (\<open>internal/controller/errors.go\<close>): failures are classified as
  retriable or not, and the classification and the hints of the server decide the delay. The
  classification of exits for metrics (\<open>internal/controller/reconcile_metrics.go\<close>) is here too.
\<close>

record ctrl_Result =
  res_Requeue :: bool
  res_RequeueAfter :: duration

abbreviation requeue_after :: "duration \<Rightarrow> ctrl_Result" where
  "requeue_after d \<equiv> \<lparr>res_Requeue = False, res_RequeueAfter = d\<rparr>"

datatype ErrorClass = ErrorClassRetriable | ErrorClassNonRetriable

record ClassifiedActionFailure =
  caf_Result :: ActionResult
  caf_Class :: ErrorClass
  caf_Reason :: string
  caf_RetryAfterHint :: duration

record ActionFailureSummary =
  afs_Failures :: "ClassifiedActionFailure list"
  afs_RetriableCount :: int
  afs_NonRetriableCount :: int
  afs_MaxRetryAfterHint :: duration

record RequeuePolicy =
  rq_ResyncInterval :: duration
  rq_ExhaustedRetryBackoff :: duration
  rq_MaxRetryAfterRequeueDelay :: duration

definition DefaultRequeuePolicy :: "duration \<Rightarrow> RequeuePolicy" where
  "DefaultRequeuePolicy resyncInterval =
     \<lparr>rq_ResyncInterval = resyncInterval, rq_ExhaustedRetryBackoff = 8 * second, rq_MaxRetryAfterRequeueDelay = 5 * 60 * second\<rparr>"

text \<open>Status codes of retriable errors are positive, so that Go's division is \<open>div\<close>.\<close>

definition classifySingleFailure :: "ActionResult \<Rightarrow> ClassifiedActionFailure" where
  "classifySingleFailure r =
     (let failure = (\<lambda>cls reason hint. \<lparr>caf_Result = r, caf_Class = cls, caf_Reason = reason, caf_RetryAfterHint = hint\<rparr>) in
      case ar_Err r of
        None \<Rightarrow> failure ErrorClassNonRetriable ''unknown'' 0
      | Some err \<Rightarrow>
          if IsParentASGNotFound err then failure ErrorClassNonRetriable ''404-ASG-not-found'' 0
          else if IsRetriableARM err then
            failure ErrorClassRetriable
              (case as_arm err of
                 Some armErr \<Rightarrow> if arm_StatusCode armErr = 429 then ''429'' else show_int (arm_StatusCode armErr div 100) @ ''xx''
               | None \<Rightarrow> ''network'')
              (ExtractRetryAfterHint err)
          else if IsAuthFailure err then
            failure ErrorClassNonRetriable
              (case as_arm err of Some armErr \<Rightarrow> show_int (arm_StatusCode armErr) | None \<Rightarrow> ''auth'') 0
          else failure ErrorClassNonRetriable ''unknown'' 0)"

definition classify_step :: "ActionResult \<Rightarrow> ActionFailureSummary \<Rightarrow> ActionFailureSummary" where
  "classify_step r summary =
     (if ar_Success r then summary
      else let failure = classifySingleFailure r;
               summary = summary\<lparr>afs_Failures := afs_Failures summary @ [failure]\<rparr>;
               summary = (case caf_Class failure of
                            ErrorClassRetriable \<Rightarrow> summary\<lparr>afs_RetriableCount := afs_RetriableCount summary + 1\<rparr>
                          | ErrorClassNonRetriable \<Rightarrow> summary\<lparr>afs_NonRetriableCount := afs_NonRetriableCount summary + 1\<rparr>)
           in if caf_RetryAfterHint failure > afs_MaxRetryAfterHint summary
              then summary\<lparr>afs_MaxRetryAfterHint := caf_RetryAfterHint failure\<rparr> else summary)"

definition empty_summary :: ActionFailureSummary where
  "empty_summary = \<lparr>afs_Failures = [], afs_RetriableCount = 0, afs_NonRetriableCount = 0, afs_MaxRetryAfterHint = 0\<rparr>"

definition ClassifyActionResults :: "ActionResult list \<Rightarrow> ActionFailureSummary" where
  "ClassifyActionResults results = fold classify_step results empty_summary"

definition DecideRequeueFromActionSummary :: "ActionFailureSummary \<Rightarrow> RequeuePolicy \<Rightarrow> ctrl_Result" where
  "DecideRequeueFromActionSummary summary p =
     (if afs_RetriableCount summary = 0 \<and> afs_NonRetriableCount summary = 0 then requeue_after (rq_ResyncInterval p)
      else if afs_RetriableCount summary > 0 then
        (let delay = rq_ExhaustedRetryBackoff p;
             delay = (if afs_MaxRetryAfterHint summary > delay then afs_MaxRetryAfterHint summary else delay);
             delay = (if rq_MaxRetryAfterRequeueDelay p > 0 \<and> delay > rq_MaxRetryAfterRequeueDelay p
                      then rq_MaxRetryAfterRequeueDelay p else delay)
         in requeue_after delay)
      else requeue_after (rq_ResyncInterval p))"

definition DecideRequeueFromSystemError :: "goerror option \<Rightarrow> RequeuePolicy \<Rightarrow> ctrl_Result" where
  "DecideRequeueFromSystemError err p =
     (case err of
        None \<Rightarrow> requeue_after (rq_ResyncInterval p)
      | Some e \<Rightarrow>
          if IsAuthFailure e \<or> IsParentASGNotFound e then requeue_after (rq_ResyncInterval p)
          else if IsRetriableARM e then
            (let delay = rq_ExhaustedRetryBackoff p;
                 hint = ExtractRetryAfterHint e;
                 delay = (if hint > delay then hint else delay);
                 delay = (if rq_MaxRetryAfterRequeueDelay p > 0 \<and> delay > rq_MaxRetryAfterRequeueDelay p
                          then rq_MaxRetryAfterRequeueDelay p else delay)
             in requeue_after delay)
          else requeue_after (rq_ExhaustedRetryBackoff p))"

section \<open>Metric classification of exits\<close>

datatype ReconcileMetricStage =
    ReconcileStageFinalizerAddEarlyReturn | ReconcileStageDebounced | ReconcileStageValidationTerminal
  | ReconcileStageSteadyStateSuccess | ReconcileStageActionMixedFailure | ReconcileStageActionAllFailure
  | ReconcileStageSystemError | ReconcileStageStatusWriteError | ReconcileStageDeleteComplete
  | ReconcileStageMappingNotFound | ReconcileStageStatusSentinelTerminal

datatype ReconcileResult =
  ReconcileResultSuccess | ReconcileResultError | ReconcileResultRequeue | ReconcileResultPartialFailure

fun ClassifyReconcileMetricResult :: "ReconcileMetricStage \<Rightarrow> ReconcileResult" where
  "ClassifyReconcileMetricResult ReconcileStageFinalizerAddEarlyReturn = ReconcileResultRequeue"
| "ClassifyReconcileMetricResult ReconcileStageDebounced = ReconcileResultRequeue"
| "ClassifyReconcileMetricResult ReconcileStageValidationTerminal = ReconcileResultSuccess"
| "ClassifyReconcileMetricResult ReconcileStageSteadyStateSuccess = ReconcileResultSuccess"
| "ClassifyReconcileMetricResult ReconcileStageDeleteComplete = ReconcileResultSuccess"
| "ClassifyReconcileMetricResult ReconcileStageMappingNotFound = ReconcileResultSuccess"
| "ClassifyReconcileMetricResult ReconcileStageStatusSentinelTerminal = ReconcileResultSuccess"
| "ClassifyReconcileMetricResult ReconcileStageActionMixedFailure = ReconcileResultPartialFailure"
| "ClassifyReconcileMetricResult ReconcileStageActionAllFailure = ReconcileResultError"
| "ClassifyReconcileMetricResult ReconcileStageSystemError = ReconcileResultError"
| "ClassifyReconcileMetricResult ReconcileStageStatusWriteError = ReconcileResultError"

definition ClassifyCRDResolutionOperation :: "Action list \<Rightarrow> string" where
  "ClassifyCRDResolutionOperation actions =
     (if actions = [] then ''update''
      else let hasCreate = list_ex (\<lambda>a. act_Kind a = CreatePrefixSet) actions;
               hasUpdate = list_ex (\<lambda>a. act_Kind a = UpdatePrefixSet \<or> act_Kind a = PatchPrefixSet) actions;
               hasDelete = list_ex (\<lambda>a. act_Kind a = DeletePrefixSet) actions
           in if hasUpdate then ''update''
              else if hasCreate \<and> hasDelete then ''update''
              else if hasCreate then ''add''
              else if hasDelete then ''delete''
              else ''update'')"

section \<open>Lemmas\<close>

abbreviation failures :: "ActionResult list \<Rightarrow> ActionResult list" where
  "failures results \<equiv> filter (\<lambda>r. \<not> ar_Success r) results"

text \<open>The failures worth another attempt soon.\<close>

definition retriable_failure :: "ActionResult \<Rightarrow> bool" where
  "retriable_failure r \<longleftrightarrow> \<not> ar_Success r \<and>
     (\<exists>err. ar_Err r = Some err \<and> \<not> IsParentASGNotFound err \<and> IsRetriableARM err)"

definition failure_hint :: "ActionResult \<Rightarrow> duration" where
  "failure_hint r = (if retriable_failure r then ExtractRetryAfterHint (the (ar_Err r)) else 0)"

lemma classify_class: "\<not> ar_Success r \<Longrightarrow> caf_Class (classifySingleFailure r) = ErrorClassRetriable \<longleftrightarrow> retriable_failure r"
  by (auto simp: classifySingleFailure_def retriable_failure_def split: option.splits)

lemma classify_hint: "\<not> ar_Success r \<Longrightarrow> caf_RetryAfterHint (classifySingleFailure r) = failure_hint r"
  by (auto simp: classifySingleFailure_def retriable_failure_def failure_hint_def split: option.splits)

lemma failure_hint_success [simp]: "ar_Success r \<Longrightarrow> failure_hint r = 0"
  by (simp add: failure_hint_def retriable_failure_def)

lemma classify_step_success [simp]: "ar_Success r \<Longrightarrow> classify_step r s = s"
  by (simp add: classify_step_def)

lemma not_retriable_success [simp]: "ar_Success r \<Longrightarrow> \<not> retriable_failure r"
  by (simp add: retriable_failure_def)

lemma classify_step_failure:
  assumes "\<not> ar_Success r"
  shows "afs_Failures (classify_step r s) = afs_Failures s @ [classifySingleFailure r]"
    and "afs_RetriableCount (classify_step r s) = afs_RetriableCount s + (if retriable_failure r then 1 else 0)"
    and "afs_NonRetriableCount (classify_step r s) = afs_NonRetriableCount s + (if retriable_failure r then 0 else 1)"
    and "afs_MaxRetryAfterHint (classify_step r s) = max (afs_MaxRetryAfterHint s) (failure_hint r)"
  using classify_class [OF assms] classify_hint [OF assms] assms
  by (cases "caf_Class (classifySingleFailure r)"; simp add: classify_step_def Let_def)+

lemma classify_step_hint: "0 \<le> afs_MaxRetryAfterHint s \<Longrightarrow> afs_MaxRetryAfterHint (classify_step r s) = max (afs_MaxRetryAfterHint s) (failure_hint r)"
  by (cases "ar_Success r") (simp_all add: classify_step_failure)

lemma classify_fold_all:
  "afs_Failures (fold classify_step results s) = afs_Failures s @ map classifySingleFailure (failures results) \<and>
   afs_RetriableCount (fold classify_step results s) = afs_RetriableCount s + int (length (filter retriable_failure results)) \<and>
   afs_NonRetriableCount (fold classify_step results s) =
     afs_NonRetriableCount s + int (length (filter (\<lambda>r. \<not> ar_Success r \<and> \<not> retriable_failure r) results))"
proof (induction results arbitrary: s)
  case (Cons r results)
  show ?case using Cons.IH [of "classify_step r s"] by (cases "ar_Success r") (simp_all add: classify_step_failure)
qed simp

lemma classify_fold_hint:
  "0 \<le> afs_MaxRetryAfterHint s \<Longrightarrow>
     afs_MaxRetryAfterHint (fold classify_step results s) = fold (\<lambda>r h. max h (failure_hint r)) results (afs_MaxRetryAfterHint s)"
  by (induction results arbitrary: s) (simp_all add: classify_step_hint)

lemmas ClassifyActionResults_fields = classify_fold_all [of _ empty_summary, folded ClassifyActionResults_def]
  classify_fold_hint [of empty_summary, folded ClassifyActionResults_def]

text \<open>The longest hint of the retriable failures, at least zero.\<close>

definition longest_hint :: "ActionResult list \<Rightarrow> duration" where
  "longest_hint results = fold (\<lambda>r h. max h (failure_hint r)) results 0"

lemma fold_max_ge: "(h::int) \<le> fold (\<lambda>r h. max h (f r)) rs h"
proof (induction rs arbitrary: h)
  case (Cons r rs)
  from Cons [of "max h (f r)"] show ?case by simp
qed simp

lemma fold_max_upper: "r \<in> set rs \<Longrightarrow> (f r :: int) \<le> fold (\<lambda>r h. max h (f r)) rs h"
proof (induction rs arbitrary: h)
  case (Cons r' rs)
  then show ?case using fold_max_ge [of "max h (f r')" f rs] by auto
qed simp

lemma longest_hint_bounds: "0 \<le> longest_hint results" "r \<in> set results \<Longrightarrow> failure_hint r \<le> longest_hint results"
  using fold_max_ge [of 0 failure_hint results] fold_max_upper [of r results failure_hint 0] by (simp_all add: longest_hint_def)

lemma filter_Nil_iff: "filter P xs = [] \<longleftrightarrow> (\<forall>x \<in> set xs. \<not> P x)"
  by (simp add: filter_empty_conv)

section \<open>Properties\<close>

text \<open>After failed actions the next reconcile comes at the resync interval when no failure is
  retriable, and otherwise after the longest Retry-After hint of the retriable failures, but
  at least eight seconds and at most five minutes.
\<close>

theorem requeue_after_actions_exact:
  "DecideRequeueFromActionSummary (ClassifyActionResults results) (DefaultRequeuePolicy resync) =
     requeue_after (if \<exists>r \<in> set results. retriable_failure r
       then min (300 * second) (max (8 * second) (longest_hint results)) else resync)"
proof -
  let ?s = "ClassifyActionResults results"
  have h: "afs_MaxRetryAfterHint ?s = longest_hint results"
    by (simp add: ClassifyActionResults_fields empty_summary_def longest_hint_def)
  have c: "afs_RetriableCount ?s = int (length (filter retriable_failure results))"
    by (simp add: ClassifyActionResults_fields empty_summary_def)
  show ?thesis
  proof (cases "\<exists>r \<in> set results. retriable_failure r")
    case True
    then have "filter retriable_failure results \<noteq> []" by (simp add: filter_empty_conv)
    then have "afs_RetriableCount ?s > 0" unfolding c by simp
    then show ?thesis using True h
      by (simp add: DecideRequeueFromActionSummary_def DefaultRequeuePolicy_def Let_def second_def)
  next
    case False
    then have "filter retriable_failure results = []" by (simp add: filter_empty_conv)
    then have "afs_RetriableCount ?s = 0" unfolding c by simp
    then show ?thesis using False by (auto simp: DecideRequeueFromActionSummary_def DefaultRequeuePolicy_def)
  qed
qed

text \<open>
  Every failed action is classified exactly once: the counts of retriable and of other
  failures add up to the number of failed results.
\<close>

theorem classification_counts_failures:
  "afs_RetriableCount (ClassifyActionResults results) + afs_NonRetriableCount (ClassifyActionResults results) =
     int (length (filter (\<lambda>r. \<not> ar_Success r) results)) \<and>
   map caf_Result (afs_Failures (ClassifyActionResults results)) = filter (\<lambda>r. \<not> ar_Success r) results"
proof -
  have "length (filter retriable_failure results) + length (filter (\<lambda>r. \<not> ar_Success r \<and> \<not> retriable_failure r) results) =
    length (failures results)"
    by (induction results) (auto simp: retriable_failure_def)
  moreover have "caf_Result (classifySingleFailure r) = r" for r
    by (auto simp: classifySingleFailure_def split: option.splits)
  ultimately show ?thesis by (simp add: ClassifyActionResults_fields empty_summary_def comp_def del: of_nat_add flip: of_nat_add)
qed

text \<open>
  A system error is never retried faster than in eight seconds or slower than in five minutes,
  unless it is an authorisation failure or a missing parent, which wait for the resync.
\<close>

theorem requeue_after_system_error_bounds:
  assumes "\<not> IsAuthFailure err" and "\<not> IsParentASGNotFound err"
  shows "8 * second \<le> res_RequeueAfter (DecideRequeueFromSystemError (Some err) (DefaultRequeuePolicy resync)) \<and>
    res_RequeueAfter (DecideRequeueFromSystemError (Some err) (DefaultRequeuePolicy resync)) \<le> 300 * second"
  using assms by (auto simp: DecideRequeueFromSystemError_def DefaultRequeuePolicy_def Let_def second_def)

theorem requeue_after_system_error_bounds_witness:
  "\<not> IsAuthFailure (ApiConflict ''c'') \<and> \<not> IsParentASGNotFound (ApiConflict ''c'') \<and>
   8 * second \<le> res_RequeueAfter (DecideRequeueFromSystemError (Some (ApiConflict ''c'')) (DefaultRequeuePolicy 0))"
proof -
  have "\<not> IsAuthFailure (ApiConflict ''c'')" "\<not> IsParentASGNotFound (ApiConflict ''c'')"
    by (simp_all add: IsAuthFailure_def IsParentASGNotFound_def)
  then show ?thesis using requeue_after_system_error_bounds [of "ApiConflict ''c''" 0] by simp
qed

end
