(* ===== verification/Json.thy ===== *)
theory Json
  imports Sha256
begin

text \<open>
  \<open>encoding/json\<close>, as far as the ownership annotation and the prefix set client use it
  (\<open>internal/controller/ownership_store.go\<close>): a parser of JSON texts, and the encoding of
  strings by \<open>Marshal\<close>. Bytes of 128 and more are copied as they are. The parser has fuel;
  \<open>json_parse\<close> gives it more than the length of the text, and \<open>json_fuel\<close> shows that no fuel
  beyond that changes a result.
\<close>

datatype json = JNull | JBool bool | JNum string | JStr string | JArr "json list" | JObj "(string \<times> json) list"

abbreviation byte :: "nat \<Rightarrow> char" where
  "byte n \<equiv> char_of n"

abbreviation code :: "char \<Rightarrow> nat" where
  "code c \<equiv> of_char c"

section \<open>Reading strings\<close>

definition hex_val :: "char \<Rightarrow> nat option" where
  "hex_val c = (let n = code c in
     if 48 \<le> n \<and> n \<le> 57 then Some (n - 48)
     else if 97 \<le> n \<and> n \<le> 102 then Some (n - 87)
     else if 65 \<le> n \<and> n \<le> 70 then Some (n - 55)
     else None)"

fun hex4 :: "string \<Rightarrow> (nat \<times> string) option" where
  "hex4 (a # b # c # d # r) =
     (case (hex_val a, hex_val b, hex_val c, hex_val d) of
        (Some w, Some x, Some y, Some z) \<Rightarrow> Some (((w * 16 + x) * 16 + y) * 16 + z, r)
      | _ \<Rightarrow> None)"
| "hex4 _ = None"

definition utf8 :: "nat \<Rightarrow> string" where
  "utf8 n =
     (if n < 128 then [byte n]
      else if n < 2048 then [byte (192 + n div 64), byte (128 + n mod 64)]
      else if n < 65536 then [byte (224 + n div 4096), byte (128 + n div 64 mod 64), byte (128 + n mod 64)]
      else [byte (240 + n div 262144), byte (128 + n div 4096 mod 64), byte (128 + n div 64 mod 64), byte (128 + n mod 64)])"

text \<open>The rest of an escape \<open>\u\<close> whose first unit is a surrogate.\<close>

definition surrogate_pair :: "nat \<Rightarrow> string \<Rightarrow> string \<times> string" where
  "surrogate_pair hi s =
     (case s of
        b # u # r \<Rightarrow>
          if code b = 92 \<and> u = CHR ''u'' then
            (case hex4 r of
               Some (lo, r') \<Rightarrow>
                 if 55296 \<le> hi \<and> hi < 56320 \<and> 56320 \<le> lo \<and> lo < 57344
                 then (utf8 (65536 + (hi - 55296) * 1024 + (lo - 56320)), r') else (utf8 65533, s)
             | None \<Rightarrow> (utf8 65533, s))
          else (utf8 65533, s)
      | _ \<Rightarrow> (utf8 65533, s))"

text \<open>What follows a backslash: the decoded bytes and the rest.\<close>

definition unescape :: "string \<Rightarrow> (string \<times> string) option" where
  "unescape s =
     (case s of
        [] \<Rightarrow> None
      | c # r \<Rightarrow>
          let n = code c in
          if n = 34 \<or> n = 92 \<or> n = 47 then Some ([c], r)
          else if c = CHR ''b'' then Some ([byte 8], r)
          else if c = CHR ''f'' then Some ([byte 12], r)
          else if c = CHR ''n'' then Some ([byte 10], r)
          else if c = CHR ''r'' then Some ([byte 13], r)
          else if c = CHR ''t'' then Some ([byte 9], r)
          else if c = CHR ''u'' then
            (case hex4 r of
               None \<Rightarrow> None
             | Some (u, r') \<Rightarrow> if 55296 \<le> u \<and> u < 57344 then Some (surrogate_pair u r') else Some (utf8 u, r'))
          else None)"

lemma hex4_shorter: "hex4 s = Some (n, r) \<Longrightarrow> length r < length s"
  by (cases s rule: hex4.cases) (auto split: option.splits)

lemma unescape_shorter: "unescape s = Some (b, r) \<Longrightarrow> length r < length s"
  by (auto simp: unescape_def surrogate_pair_def Let_def dest!: hex4_shorter split: list.splits if_splits option.splits)

text \<open>A string after its opening quote.\<close>

function json_str :: "string \<Rightarrow> (string \<times> string) option" where
  "json_str s =
     (case s of
        [] \<Rightarrow> None
      | c # r \<Rightarrow>
          if code c = 34 then Some ([], r)
          else if code c = 92 then
            (case unescape r of
               None \<Rightarrow> None
             | Some (b, r') \<Rightarrow> map_option (\<lambda>(t, r). (b @ t, r)) (json_str r'))
          else if code c < 32 then None
          else map_option (\<lambda>(t, r). (c # t, r)) (json_str r))"
  by auto
termination
  by (relation "measure length") (auto dest: unescape_shorter)

declare json_str.simps [simp del]

section \<open>Reading numbers and values\<close>

definition json_ws :: "char \<Rightarrow> bool" where
  "json_ws c \<longleftrightarrow> code c \<in> {32, 9, 10, 13}"

abbreviation skip_ws :: "string \<Rightarrow> string" where
  "skip_ws s \<equiv> dropWhile json_ws s"

definition json_digit :: "char \<Rightarrow> bool" where
  "json_digit c \<longleftrightarrow> 48 \<le> code c \<and> code c \<le> 57"

definition json_digits :: "string \<Rightarrow> (string \<times> string) option" where
  "json_digits s = (let d = takeWhile json_digit s in if d = [] then None else Some (d, dropWhile json_digit s))"

definition json_int :: "string \<Rightarrow> (string \<times> string) option" where
  "json_int s = (case s of c # r \<Rightarrow> if c = CHR ''0'' then Some ([c], r) else json_digits s | [] \<Rightarrow> None)"

definition json_frac :: "string \<Rightarrow> (string \<times> string) option" where
  "json_frac s = (case s of
     c # r \<Rightarrow> if c = CHR ''.'' then map_option (\<lambda>(d, r). (c # d, r)) (json_digits r) else Some ([], s)
   | [] \<Rightarrow> Some ([], s))"

definition json_exp :: "string \<Rightarrow> (string \<times> string) option" where
  "json_exp s = (case s of
     c # r \<Rightarrow>
       if c = CHR ''e'' \<or> c = CHR ''E'' then
         (case r of
            g # r' \<Rightarrow> if g = CHR ''+'' \<or> g = CHR ''-'' then map_option (\<lambda>(d, r). (c # g # d, r)) (json_digits r')
                     else map_option (\<lambda>(d, r). (c # d, r)) (json_digits r)
          | [] \<Rightarrow> None)
       else Some ([], s)
   | [] \<Rightarrow> Some ([], s))"

definition json_num :: "string \<Rightarrow> (json \<times> string) option" where
  "json_num s =
     (let (sign, s) = (case s of c # r \<Rightarrow> if c = CHR ''-'' then ([c], r) else ([], s) | [] \<Rightarrow> ([], s)) in
      case json_int s of
        None \<Rightarrow> None
      | Some (i, s) \<Rightarrow>
          (case json_frac s of
             None \<Rightarrow> None
           | Some (f, s) \<Rightarrow>
               (case json_exp s of None \<Rightarrow> None | Some (x, s) \<Rightarrow> Some (JNum (sign @ i @ f @ x), s))))"

text \<open>
  Values; the members of an array after \<open>[\<close> and a value, and of an object after \<open>{\<close> or a
  comma. Leading white space of a value is skipped.
\<close>

fun json_val :: "nat \<Rightarrow> string \<Rightarrow> (json \<times> string) option"
  and json_more :: "nat \<Rightarrow> string \<Rightarrow> (json list \<times> string) option"
  and json_members :: "nat \<Rightarrow> string \<Rightarrow> ((string \<times> json) list \<times> string) option" where
  "json_val 0 s = None"
| "json_val (Suc n) s =
     (case skip_ws s of
        [] \<Rightarrow> None
      | c # r \<Rightarrow>
          if code c = 34 then map_option (\<lambda>(t, r). (JStr t, r)) (json_str r)
          else if c = CHR ''['' then
            (case skip_ws r of
               [] \<Rightarrow> None
             | d # r' \<Rightarrow>
                 if d = CHR '']'' then Some (JArr [], r')
                 else (case json_val n r of
                         None \<Rightarrow> None
                       | Some (v, r) \<Rightarrow> map_option (\<lambda>(vs, r). (JArr (v # vs), r)) (json_more n r)))
          else if c = CHR ''{'' then
            (case skip_ws r of
               [] \<Rightarrow> None
             | d # r' \<Rightarrow>
                 if d = CHR ''}'' then Some (JObj [], r')
                 else map_option (\<lambda>(ms, r). (JObj ms, r)) (json_members n r))
          else if take 4 (c # r) = ''null'' then Some (JNull, drop 4 (c # r))
          else if take 4 (c # r) = ''true'' then Some (JBool True, drop 4 (c # r))
          else if take 5 (c # r) = ''false'' then Some (JBool False, drop 5 (c # r))
          else json_num (c # r))"
| "json_more 0 s = None"
| "json_more (Suc n) s =
     (case skip_ws s of
        [] \<Rightarrow> None
      | c # r \<Rightarrow>
          if c = CHR '']'' then Some ([], r)
          else if c = CHR '','' then
            (case json_val n r of
               None \<Rightarrow> None
             | Some (v, r) \<Rightarrow> map_option (\<lambda>(vs, r). (v # vs, r)) (json_more n r))
          else None)"
| "json_members 0 s = None"
| "json_members (Suc n) s =
     (case skip_ws s of
        [] \<Rightarrow> None
      | q # r \<Rightarrow>
          if code q \<noteq> 34 then None
          else (case json_str r of
                  None \<Rightarrow> None
                | Some (k, r) \<Rightarrow>
                    (case skip_ws r of
                       [] \<Rightarrow> None
                     | col # r \<Rightarrow>
                         if col \<noteq> CHR '':'' then None
                         else (case json_val n r of
                                 None \<Rightarrow> None
                               | Some (v, r) \<Rightarrow>
                                   (case skip_ws r of
                                      [] \<Rightarrow> None
                                    | c # r \<Rightarrow>
                                        if c = CHR ''}'' then Some ([(k, v)], r)
                                        else if c = CHR '','' then
                                          map_option (\<lambda>(ms, r). ((k, v) # ms, r)) (json_members n r)
                                        else None)))))"

definition json_parse :: "string \<Rightarrow> json option" where
  "json_parse s =
     (case json_val (Suc (length s)) s of
        Some (v, r) \<Rightarrow> if skip_ws r = [] then Some v else None
      | None \<Rightarrow> None)"

section \<open>Writing strings\<close>

text \<open>The string encoder of \<open>Marshal\<close>, with its escaping of HTML characters.\<close>

definition json_escape :: "char \<Rightarrow> string" where
  "json_escape c = (let n = code c in
     if n = 34 \<or> n = 92 then [byte 92, c]
     else if n = 8 then [byte 92, CHR ''b'']
     else if n = 12 then [byte 92, CHR ''f'']
     else if n = 10 then [byte 92, CHR ''n'']
     else if n = 13 then [byte 92, CHR ''r'']
     else if n = 9 then [byte 92, CHR ''t'']
     else if n < 32 \<or> n = 60 \<or> n = 62 \<or> n = 38 then [byte 92, CHR ''u'', CHR ''0'', CHR ''0''] @ hex_bytes [n]
     else [c])"

definition json_string :: "string \<Rightarrow> string" where
  "json_string s = [byte 34] @ concat (map json_escape s) @ [byte 34]"

section \<open>Lemmas\<close>

subsection \<open>Strings round trip\<close>

lemma hex_val_digit: "n < 16 \<Longrightarrow> hex_val (hex_digit n) = Some n"
  by (auto simp: hex_val_def hex_digit_def Let_def)

lemma json_str_escape_byte:
  assumes "n < 256"
  shows "json_str (json_escape (byte n) @ s) = map_option (\<lambda>(t, r). (byte n # t, r)) (json_str s)"
proof -
  have "hex4 ([CHR ''0'', CHR ''0''] @ hex_bytes [n] @ s) = Some (n, s)" if "n < 128"
    using that hex_val_digit [of "n div 16"] hex_val_digit [of "n mod 16"] hex_val_digit [of 0]
    by (simp add: hex_bytes_def hex_digit_def [of 0] hex_val_def [of "CHR ''0''"])
  then show ?thesis using assms
    by (auto simp: json_escape_def Let_def json_str.simps [of "_ # _"] unescape_def utf8_def)
qed

lemma json_str_escape: "json_str (json_escape c @ s) = map_option (\<lambda>(t, r). (c # t, r)) (json_str s)"
  using json_str_escape_byte [of "code c" s] by simp

lemma json_str_string: "json_str (concat (map json_escape s) @ byte 34 # r) = Some (s, r)"
proof (induction s)
  case Nil
  show ?case by (simp add: json_str.simps)
next
  case (Cons c s)
  then show ?case by (simp add: json_str_escape)
qed

subsection \<open>Fuel\<close>

lemma dropWhile_shorter: "dropWhile P s = c # r \<Longrightarrow> length r < length s"
  using length_dropWhile_le [of P s] by simp

lemma json_str_shorter: "json_str s = Some (t, r) \<Longrightarrow> length r < length s"
proof (induction s arbitrary: t r rule: json_str.induct)
  case (1 s)
  note p = 1(3) [unfolded json_str.simps [of s]]
  show ?case
  proof (cases s)
    case Nil
    then show ?thesis using p by simp
  next
    case (Cons c u)
    consider "code c = 34" | "code c = 92" | "code c \<noteq> 34" "code c \<noteq> 92" "\<not> code c < 32" | "code c \<noteq> 34" "code c \<noteq> 92" "code c < 32"
      by blast
    then show ?thesis
    proof cases
      case 2
      then obtain b u' t' where u: "unescape u = Some (b, u')" "json_str u' = Some (t', r)"
        using p Cons by (auto split: option.splits)
      have "length r < length u'" using 1(1) [OF Cons] 2 u by auto
      then show ?thesis using unescape_shorter [OF u(1)] Cons by simp
    next
      case 3
      then obtain t' where "json_str u = Some (t', r)" using p Cons by auto
      then show ?thesis using 1(2) [OF Cons] 3 Cons by fastforce
    qed (use p Cons in auto)
  qed
qed

lemma json_digits_shorter: "json_digits s = Some (d, r) \<Longrightarrow> length r < length s"
  by (cases s) (auto simp: json_digits_def Let_def length_dropWhile_le less_Suc_eq_le split: if_splits)

lemma json_num_shorter: "json_num s = Some (v, r) \<Longrightarrow> length r < length s"
  by (auto simp: json_num_def json_int_def json_frac_def json_exp_def Let_def
      dest!: json_digits_shorter split: list.splits if_splits option.splits prod.splits)


lemma json_shorter:
  "json_val n s = Some (v, r) \<Longrightarrow> length r < length s"
  "json_more n s = Some (vs, r) \<Longrightarrow> length r < length s"
  "json_members n s = Some (ms, r) \<Longrightarrow> length r < length s"
proof (induction n arbitrary: s v vs ms r)
  case (Suc n)
  note sh = dropWhile_shorter json_str_shorter json_num_shorter
  {
    case 1
    then show ?case
      using Suc.IH
      by (auto split: list.splits if_splits option.splits dest!: sh)
        (use dropWhile_shorter less_trans in \<open>fastforce+\<close>)
  next
    case 2
    then show ?case using Suc.IH
      by (auto split: list.splits if_splits option.splits dest!: sh) (use less_trans in fastforce)
  next
    case 3
    then show ?case using Suc.IH
      by (auto split: list.splits if_splits option.splits dest!: sh) (use less_trans in \<open>fastforce+\<close>)
  }
qed simp_all

lemma json_fuel:
  "length s < n \<Longrightarrow> length s < m \<Longrightarrow> json_val n s = json_val m s"
  "length s < n \<Longrightarrow> length s < m \<Longrightarrow> json_more n s = json_more m s"
  "length s < n \<Longrightarrow> length s < m \<Longrightarrow> json_members n s = json_members m s"
proof (induction n arbitrary: s m)
  case (Suc n)
  {
    case 1
    then obtain k where m: "m = Suc k" by (cases m) auto
    have ih: "json_val n r = json_val k r" "json_more n r = json_more k r" "json_members n r = json_members k r"
      if "length r < length s" for r using Suc.IH [of r k] that 1 m by auto
    show ?case
    proof (cases "skip_ws s")
      case (Cons c r)
      note l = dropWhile_shorter [OF Cons]
      show ?thesis
      proof (cases "json_val k r")
        case None
        then show ?thesis using Cons by (cases "skip_ws r") (simp_all add: m ih [OF l] del: dropWhile_eq_Nil_conv)
      next
        case (Some vr)
        obtain v r2 where vr: "vr = (v, r2)" by (cases vr)
        then have "length r2 < length s" using json_shorter(1) [of k r v r2] Some l by simp
        then show ?thesis using Cons Some vr by (cases "skip_ws r") (simp_all add: m ih [OF l] ih(2) del: dropWhile_eq_Nil_conv)
      qed
    qed (simp add: m del: dropWhile_eq_Nil_conv)
  next
    case 2
    then obtain k where m: "m = Suc k" by (cases m) auto
    have ih: "json_val n r = json_val k r" "json_more n r = json_more k r" if "length r < length s" for r
      using Suc.IH [of r k] that 2 m by auto
    show ?case
    proof (cases "skip_ws s")
      case (Cons c r)
      note l = dropWhile_shorter [OF Cons]
      show ?thesis
      proof (cases "json_val k r")
        case None
        then show ?thesis using Cons by (cases "skip_ws r") (simp_all add: m ih [OF l] del: dropWhile_eq_Nil_conv)
      next
        case (Some vr)
        obtain v r2 where vr: "vr = (v, r2)" by (cases vr)
        then have "length r2 < length s" using json_shorter(1) [of k r v r2] Some l by simp
        then show ?thesis using Cons Some vr by (cases "skip_ws r") (simp_all add: m ih [OF l] ih(2) del: dropWhile_eq_Nil_conv)
      qed
    qed (simp add: m del: dropWhile_eq_Nil_conv)
  next
    case 3
    then obtain k where m: "m = Suc k" by (cases m) auto
    have ih: "json_val n r = json_val k r" "json_members n r = json_members k r" if "length r < length s" for r
      using Suc.IH [of r k] that 3 m by auto
    show ?case
    proof (cases "skip_ws s")
      case (Cons q r)
      show ?thesis
      proof (cases "json_str r")
        case (Some tr)
        obtain t r2 where tr: "json_str r = Some (t, r2)" using Some by (cases tr) simp
        show ?thesis
        proof (cases "skip_ws r2")
          case col: (Cons x r3)
          have l: "length r3 < length s"
            using dropWhile_shorter [OF Cons] json_str_shorter [OF tr] dropWhile_shorter [OF col] by simp
          show ?thesis
          proof (cases "json_val k r3")
            case val: (Some vr)
            obtain v r4 where vr: "json_val k r3 = Some (v, r4)" using val by (cases vr) simp
            show ?thesis
            proof (cases "skip_ws r4")
              case sep: (Cons y r5)
              have "length r5 < length s" using l json_shorter(1) [OF vr] dropWhile_shorter [OF sep] by simp
              then show ?thesis using Cons tr col vr sep by (simp add: m ih [OF l] ih(2) del: dropWhile_eq_Nil_conv)
            qed (use Cons tr col vr in \<open>simp add: m ih [OF l] del: dropWhile_eq_Nil_conv\<close>)
          qed (use Cons tr col in \<open>simp add: m ih [OF l] del: dropWhile_eq_Nil_conv\<close>)
        qed (use Cons tr in \<open>simp add: m del: dropWhile_eq_Nil_conv\<close>)
      qed (use Cons in \<open>simp add: m del: dropWhile_eq_Nil_conv\<close>)
    qed (simp add: m del: dropWhile_eq_Nil_conv)
  }
qed simp_all


section \<open>Printing and reading back\<close>

text \<open>What \<open>Marshal\<close> writes for a value without numbers; every such text is read back.\<close>

fun json_print :: "json \<Rightarrow> string" where
  "json_print JNull = ''null''"
| "json_print (JBool b) = (if b then ''true'' else ''false'')"
| "json_print (JNum s) = s"
| "json_print (JStr s) = json_string s"
| "json_print (JArr js) = ''['' @ Join (map json_print js) '','' @ '']''"
| "json_print (JObj kvs) = ''{'' @ Join (map (\<lambda>(k, v). json_string k @ '':'' @ json_print v) kvs) '','' @ ''}''"

fun no_num :: "json \<Rightarrow> bool" where
  "no_num (JNum s) = False"
| "no_num (JArr js) = list_all no_num js"
| "no_num (JObj kvs) = list_all (\<lambda>(k, v). no_num v) kvs"
| "no_num _ = True"

lemma Join_comma: "Join (w # ws) '','' = w @ concat (map (\<lambda>v. CHR '','' # v) ws)"
  by (induction ws arbitrary: w) auto

lemma json_ws_simps [simp]: "\<not> json_ws (byte 34)" "\<not> json_ws CHR ''[''" "\<not> json_ws CHR ''{''" "\<not> json_ws CHR '']''" "\<not> json_ws CHR '',''"
  "\<not> json_ws CHR ''}''" "\<not> json_ws CHR '':''" "\<not> json_ws CHR ''n''" "\<not> json_ws CHR ''t''" "\<not> json_ws CHR ''f''"
  by (simp_all add: json_ws_def)

lemma quote_neq: "code c \<noteq> 34 \<Longrightarrow> byte 34 \<noteq> c"
  by auto

lemma print_start: "no_num j \<Longrightarrow> \<exists>c u. json_print j = c # u \<and> \<not> json_ws c \<and> c \<noteq> CHR '']'' \<and> c \<noteq> CHR ''}''"
  by (cases j) (auto simp: json_string_def quote_neq split: if_splits)

lemma read_more:
  assumes "\<And>j s n. j \<in> set js \<Longrightarrow> length (json_print j @ s) < n \<Longrightarrow> json_val n (json_print j @ s) = Some (j, s)"
    and "length (concat (map (\<lambda>j. CHR '','' # json_print j) js) @ CHR '']'' # s) < n"
  shows "json_more n (concat (map (\<lambda>j. CHR '','' # json_print j) js) @ CHR '']'' # s) = Some (js, s)"
  using assms
proof (induction js arbitrary: n)
  case Nil
  then show ?case by (cases n) simp_all
next
  case (Cons j js)
  let ?r = "concat (map (\<lambda>j. CHR '','' # json_print j) js) @ CHR '']'' # s"
  obtain m where n: "n = Suc m" using Cons.prems(2) by (cases n) auto
  have l: "length (json_print j @ ?r) < m" "length ?r < m" using Cons.prems(2) by (simp_all add: n)
  have "json_val m (json_print j @ ?r) = Some (j, ?r)" by (rule Cons.prems(1) [OF _ l(1)]) simp
  moreover have "json_more m ?r = Some (js, s)" by (rule Cons.IH [OF _ l(2)]) (rule Cons.prems(1), simp_all)
  ultimately show ?case by (simp add: n)
qed

lemma read_members:
  assumes "\<And>j s n. j \<in> snd ` set kvs \<Longrightarrow> length (json_print j @ s) < n \<Longrightarrow> json_val n (json_print j @ s) = Some (j, s)" and "kvs \<noteq> []"
    and "length (Join (map (\<lambda>(k, v). json_string k @ '':'' @ json_print v) kvs) '','' @ CHR ''}'' # s) < n"
  shows "json_members n (Join (map (\<lambda>(k, v). json_string k @ '':'' @ json_print v) kvs) '','' @ CHR ''}'' # s) = Some (kvs, s)"
  using assms
proof (induction kvs arbitrary: n)
  case (Cons kv kvs)
  obtain k v where kv: "kv = (k, v)" by (cases kv)
  obtain m where n: "n = Suc m" using Cons.prems(3) by (cases n) auto
  let ?f = "\<lambda>kvs. Join (map (\<lambda>(k, v). json_string k @ '':'' @ json_print v) kvs) '','' @ CHR ''}'' # s"
  let ?r = "if kvs = [] then CHR ''}'' # s else CHR '','' # ?f kvs"
  have t: "?f (kv # kvs) = json_string k @ CHR '':'' # json_print v @ ?r"
    by (cases kvs) (simp_all add: kv)
  have l: "length (json_print v @ ?r) < m" "kvs \<noteq> [] \<Longrightarrow> length (?f kvs) < m"
    using Cons.prems(3) unfolding t n by (auto simp: json_string_def)
  have "json_val m (json_print v @ ?r) = Some (v, ?r)" by (rule Cons.prems(1) [OF _ l(1)]) (simp add: kv)
  moreover have "kvs \<noteq> [] \<Longrightarrow> json_members m (?f kvs) = Some (kvs, s)"
    using Cons.IH [OF _ _ l(2)] Cons.prems(1) by auto
  ultimately show ?case unfolding t n
    by (cases "kvs = []") (simp_all add: json_string_def json_str_string kv)
qed simp

lemma read_print: "no_num j \<Longrightarrow> length (json_print j @ s) < n \<Longrightarrow> json_val n (json_print j @ s) = Some (j, s)"
proof (induction j arbitrary: s n)
  case (JStr x)
  then obtain m where "n = Suc m" by (cases n) auto
  then show ?case by (simp add: json_string_def json_str_string)
next
  case (JArr js)
  obtain m where n: "n = Suc m" using JArr.prems by (cases n) auto
  have ih: "\<And>j s n. j \<in> set js \<Longrightarrow> length (json_print j @ s) < n \<Longrightarrow> json_val n (json_print j @ s) = Some (j, s)"
    using JArr by (auto simp: list_all_iff)
  show ?case
  proof (cases js)
    case Nil
    then show ?thesis by (simp add: n)
  next
    case (Cons j js')
    let ?r = "concat (map (\<lambda>j. CHR '','' # json_print j) js') @ CHR '']'' # s"
    have t: "json_print (JArr js) @ s = CHR ''['' # json_print j @ ?r" by (simp add: Cons Join_comma comp_def del: Join.simps)
    have l: "length (json_print j @ ?r) < m" "length ?r < m" using JArr.prems(2) unfolding t n by simp_all
    obtain c u where c: "json_print j = c # u" "\<not> json_ws c" "c \<noteq> CHR '']''" using print_start [of j] JArr.prems(1) Cons by auto
    have "json_val m (json_print j @ ?r) = Some (j, ?r)" by (rule ih [OF _ l(1)]) (simp add: Cons)
    moreover have "json_more m ?r = Some (js', s)" by (rule read_more [OF ih l(2)]) (simp_all add: Cons)
    ultimately show ?thesis unfolding t n using c by (simp add: Cons)
  qed
next
  case (JObj kvs)
  obtain m where n: "n = Suc m" using JObj.prems by (cases n) auto
  have ih: "\<And>j s n. j \<in> snd ` set kvs \<Longrightarrow> length (json_print j @ s) < n \<Longrightarrow> json_val n (json_print j @ s) = Some (j, s)"
    using JObj by (fastforce simp: list_all_iff)
  show ?case
  proof (cases "kvs = []")
    case True
    then show ?thesis by (simp add: n)
  next
    case False
    let ?f = "Join (map (\<lambda>(k, v). json_string k @ '':'' @ json_print v) kvs) '','' @ CHR ''}'' # s"
    have t: "json_print (JObj kvs) @ s = CHR ''{'' # ?f" by simp
    have "length ?f < m" using JObj.prems(2) unfolding t n by simp
    from read_members [OF ih False this] have r: "json_members m ?f = Some (kvs, s)" by blast
    obtain k v kvs' where "kvs = (k, v) # kvs'" using False by (cases kvs) auto
    then obtain u where u: "?f = byte 34 # u" by (cases kvs') (auto simp: json_string_def)
    show ?thesis unfolding t n using r unfolding u by (simp add: quote_neq)
  qed
qed (use less_imp_Suc_add in \<open>fastforce split: if_splits\<close>)+

lemma json_parse_print: "no_num j \<Longrightarrow> json_parse (json_print j) = Some j"
  using read_print [of j "[]" "Suc (length (json_print j))"] by (simp add: json_parse_def)

end
