(* ===== verification/Ownership_Store.thy ===== *)
theory Ownership_Store
  imports Status Json
begin

text \<open>
  The ownership annotation of a mapping (\<open>internal/controller/ownership_store.go\<close>): the ASGs a
  mapping has written to, as JSON in an annotation, so that prefix sets can be removed when a
  rule or the mapping goes away.

  A nil slice of references is \<open>None\<close>: \<open>Marshal\<close> writes it as \<open>null\<close> and the deletion of a
  mapping tells it from an empty slice. The text of a decoding error is left open.
\<close>

definition OwnedASGsAnnotationKey :: string where
  "OwnedASGsAnnotationKey = ''networking.azure.com/owned-asgs.v1''"

record OwnedASGRef =
  own_SubscriptionID :: string
  own_ResourceGroup :: string
  own_ASGName :: string
  own_FullResourceID :: string

type_synonym owned_refs = "OwnedASGRef list option"

text \<open>Ranging over a slice that may be nil.\<close>

definition slice :: "'a list option \<Rightarrow> 'a list" where
  "slice s = (case s of None \<Rightarrow> [] | Some xs \<Rightarrow> xs)"

section \<open>The annotation\<close>

definition json_field :: "string \<Rightarrow> string \<Rightarrow> string" where
  "json_field k v = json_string k @ '':'' @ json_string v"

definition marshal_ref :: "OwnedASGRef \<Rightarrow> string" where
  "marshal_ref r = ''{'' @ Join
     ([json_field ''subscriptionId'' (own_SubscriptionID r), json_field ''resourceGroup'' (own_ResourceGroup r),
       json_field ''asgName'' (own_ASGName r)] @
      (if own_FullResourceID r = [] then [] else [json_field ''fullResourceId'' (own_FullResourceID r)])) '','' @ ''}''"

definition marshal_refs :: "owned_refs \<Rightarrow> string" where
  "marshal_refs refs = (case refs of None \<Rightarrow> ''null'' | Some rs \<Rightarrow> ''['' @ Join (map marshal_ref rs) '','' @ '']'')"

text \<open>Storing one member of an object into the field it names; \<open>None\<close> is a type error.\<close>

definition set_field :: "string \<times> json \<Rightarrow> OwnedASGRef \<Rightarrow> OwnedASGRef option" where
  "set_field kv r = (case kv of (k, v) \<Rightarrow>
     if EqualFold k ''subscriptionId'' then
       (case v of JStr s \<Rightarrow> Some (r\<lparr>own_SubscriptionID := s\<rparr>) | JNull \<Rightarrow> Some r | _ \<Rightarrow> None)
     else if EqualFold k ''resourceGroup'' then
       (case v of JStr s \<Rightarrow> Some (r\<lparr>own_ResourceGroup := s\<rparr>) | JNull \<Rightarrow> Some r | _ \<Rightarrow> None)
     else if EqualFold k ''asgName'' then
       (case v of JStr s \<Rightarrow> Some (r\<lparr>own_ASGName := s\<rparr>) | JNull \<Rightarrow> Some r | _ \<Rightarrow> None)
     else if EqualFold k ''fullResourceId'' then
       (case v of JStr s \<Rightarrow> Some (r\<lparr>own_FullResourceID := s\<rparr>) | JNull \<Rightarrow> Some r | _ \<Rightarrow> None)
     else Some r)"

fun set_fields :: "(string \<times> json) list \<Rightarrow> OwnedASGRef \<Rightarrow> OwnedASGRef option" where
  "set_fields [] r = Some r"
| "set_fields (kv # kvs) r = (case set_field kv r of None \<Rightarrow> None | Some r \<Rightarrow> set_fields kvs r)"

definition empty_ref :: OwnedASGRef where
  "empty_ref = \<lparr>own_SubscriptionID = [], own_ResourceGroup = [], own_ASGName = [], own_FullResourceID = []\<rparr>"

definition unmarshal_ref :: "json \<Rightarrow> OwnedASGRef option" where
  "unmarshal_ref j = (case j of JNull \<Rightarrow> Some empty_ref | JObj kvs \<Rightarrow> set_fields kvs empty_ref | _ \<Rightarrow> None)"

definition unmarshal_refs :: "string \<Rightarrow> goerror + owned_refs" where
  "unmarshal_refs raw =
     (case json_parse raw of
        Some JNull \<Rightarrow> Inr None
      | Some (JArr js) \<Rightarrow>
          (let rs = map unmarshal_ref js in
           if None \<in> set rs then Inl (OtherError ''json'') else Inr (Some (map the rs)))
      | _ \<Rightarrow> Inl (OtherError ''json''))"

definition LoadOwnedASGs :: "PodASGMapping \<Rightarrow> goerror + owned_refs" where
  "LoadOwnedASGs mapping =
     (case m_Annotations mapping of
        None \<Rightarrow> Inr None
      | Some annotations \<Rightarrow>
          (case gget annotations OwnedASGsAnnotationKey of
             None \<Rightarrow> Inr None
           | Some raw \<Rightarrow>
               if raw = [] then Inr None
               else (case unmarshal_refs raw of
                       Inl err \<Rightarrow> Inl (Wrapped ''parsing owned-asgs annotation'' err)
                     | Inr refs \<Rightarrow> Inr refs)))"

text \<open>Marshalling strings does not fail.\<close>

definition StoreOwnedASGs :: "PodASGMapping \<Rightarrow> owned_refs \<Rightarrow> PodASGMapping" where
  "StoreOwnedASGs mapping refs =
     mapping\<lparr>m_Annotations := Some (gput OwnedASGsAnnotationKey (marshal_refs refs) (slice (m_Annotations mapping)))\<rparr>"

section \<open>Owned targets\<close>

definition owned_target :: "string \<Rightarrow> OwnedASGRef \<Rightarrow> ASGTarget" where
  "owned_target ownershipKey r =
     \<lparr>tgt_SubscriptionID = own_SubscriptionID r, tgt_ResourceGroup = own_ResourceGroup r, tgt_ASGName = own_ASGName r,
      tgt_FullResourceID = own_FullResourceID r, tgt_PrefixSetName = ownershipKey\<rparr>"

definition TargetsFromOwnedASGs :: "owned_refs \<Rightarrow> string \<Rightarrow> ASGTarget goset" where
  "TargetsFromOwnedASGs refs ownershipKey = set_of_slice (map (owned_target ownershipKey) (slice refs))"

definition target_ref :: "ASGTarget \<Rightarrow> OwnedASGRef" where
  "target_ref t = \<lparr>own_SubscriptionID = tgt_SubscriptionID t, own_ResourceGroup = tgt_ResourceGroup t,
     own_ASGName = tgt_ASGName t, own_FullResourceID = tgt_FullResourceID t\<rparr>"

definition ownedASGRefKey :: "OwnedASGRef \<Rightarrow> string" where
  "ownedASGRefKey ref =
     (if own_FullResourceID ref \<noteq> [] then ToLower (own_FullResourceID ref)
      else ToLower (own_SubscriptionID ref @ ''/'' @ own_ResourceGroup ref @ ''/'' @ own_ASGName ref))"

definition ownedASGRefSortKey :: "OwnedASGRef \<Rightarrow> string" where
  "ownedASGRefSortKey ref = ownedASGRefKey ref"

definition ownedASGTargetKey :: "ASGTarget \<Rightarrow> string" where
  "ownedASGTargetKey t =
     (if tgt_FullResourceID t \<noteq> [] then ToLower (tgt_FullResourceID t)
      else ToLower (tgt_SubscriptionID t @ ''/'' @ tgt_ResourceGroup t @ ''/'' @ tgt_ASGName t))"

definition BuildOwnedASGsFromDesired :: "desired_state \<Rightarrow> owned_refs" where
  "BuildOwnedASGsFromDesired desired = Some (sort_key ownedASGRefSortKey (map target_ref (gkeys desired)))"

definition successful_deletes :: "ActionResult list \<Rightarrow> string goset" where
  "successful_deletes results =
     fold (\<lambda>r keys. if ar_Success r \<and> act_Kind (ar_Action r) = DeletePrefixSet
                    then sadd (ownedASGTargetKey (act_Target (ar_Action r))) keys else keys) results []"

definition merge_desired :: "ASGTarget \<Rightarrow> string goset \<times> OwnedASGRef list \<Rightarrow> string goset \<times> OwnedASGRef list" where
  "merge_desired t acc = (case acc of (seen, merged) \<Rightarrow>
     if ownedASGTargetKey t \<in> set seen then acc
     else (sadd (ownedASGTargetKey t) seen, merged @ [target_ref t]))"

definition merge_existing :: "string goset \<Rightarrow> OwnedASGRef \<Rightarrow> string goset \<times> OwnedASGRef list \<Rightarrow>
    string goset \<times> OwnedASGRef list" where
  "merge_existing deleted ref acc = (case acc of (seen, merged) \<Rightarrow>
     if ownedASGRefKey ref \<in> set seen then acc
     else if ownedASGRefKey ref \<in> set deleted then acc
     else (sadd (ownedASGRefKey ref) seen, merged @ [ref]))"

text \<open>Nothing appended leaves the nil slice.\<close>

definition UpdateOwnedASGsAfterResults :: "owned_refs \<Rightarrow> desired_state \<Rightarrow> ActionResult list \<Rightarrow> owned_refs" where
  "UpdateOwnedASGsAfterResults existing desired results =
     (let deleted = successful_deletes results;
          acc = fold merge_desired (gkeys desired) ([], []);
          (seen, merged) = fold (merge_existing deleted) (slice existing) acc
      in if merged = [] then None else Some (sort_key ownedASGRefSortKey merged))"

definition ownershipAnnotationChanged :: "owned_refs \<Rightarrow> owned_refs \<Rightarrow> bool" where
  "ownershipAnnotationChanged existing updated \<longleftrightarrow>
     length (slice existing) \<noteq> length (slice updated) \<or>
     list_ex (\<lambda>(a, b). a \<noteq> b) (zip (slice existing) (slice updated))"

definition PrefixSetNameEqualsOwnership :: "AddressPrefixSet \<Rightarrow> string \<Rightarrow> bool" where
  "PrefixSetNameEqualsOwnership ps ownershipKey =
     (case aps_Name ps of None \<Rightarrow> False | Some name \<Rightarrow> EqualFold name ownershipKey)"


section \<open>Lemmas\<close>

subsection \<open>The annotation round trips\<close>

definition ref_json :: "OwnedASGRef \<Rightarrow> json" where
  "ref_json r = JObj ([(''subscriptionId'', JStr (own_SubscriptionID r)), (''resourceGroup'', JStr (own_ResourceGroup r)),
     (''asgName'', JStr (own_ASGName r))] @
     (if own_FullResourceID r = [] then [] else [(''fullResourceId'', JStr (own_FullResourceID r))]))"

lemma unmarshal_ref_json: "unmarshal_ref (ref_json r) = Some r"
  by (cases r) (simp add: unmarshal_ref_def ref_json_def set_field_def empty_ref_def EqualFold_def ToLower_def lower_byte_def)

lemma marshal_ref_print: "marshal_ref r = json_print (ref_json r)"
  by (simp add: marshal_ref_def ref_json_def json_field_def)

lemma json_parse_refs: "json_parse (marshal_refs (Some rs)) = Some (JArr (map ref_json rs))"
proof -
  have "marshal_ref = json_print \<circ> ref_json" by (rule ext) (simp add: marshal_ref_print)
  then have "marshal_refs (Some rs) = json_print (JArr (map ref_json rs))" by (simp add: marshal_refs_def)
  moreover have "no_num (ref_json r)" for r by (simp add: ref_json_def)
  ultimately show ?thesis using json_parse_print [of "JArr (map ref_json rs)"] by (simp add: list_all_iff)
qed

lemma unmarshal_marshal: "unmarshal_refs (marshal_refs refs) = Inr refs"
proof (cases refs)
  case None
  then show ?thesis by (simp add: unmarshal_refs_def marshal_refs_def json_parse_def json_ws_def)
next
  case (Some rs)
  then show ?thesis by (simp add: unmarshal_refs_def json_parse_refs unmarshal_ref_json Let_def image_iff comp_def)
qed


subsection \<open>Updating the owned references\<close>

lemma slice_simps [simp]: "slice None = []" "slice (Some xs) = xs"
  by (simp_all add: slice_def)

lemma ownedASGRefKey_target_ref [simp]: "ownedASGRefKey (target_ref t) = ownedASGTargetKey t"
  by (simp add: ownedASGRefKey_def ownedASGTargetKey_def target_ref_def)

lemma ownedASGTargetKey_owned [simp]: "ownedASGTargetKey (owned_target ok r) = ownedASGRefKey r"
  by (simp add: ownedASGRefKey_def ownedASGTargetKey_def owned_target_def)

lemma set_successful_deletes:
  "set (successful_deletes results) =
     {ownedASGTargetKey (act_Target (ar_Action r)) | r. r \<in> set results \<and> ar_Success r \<and> act_Kind (ar_Action r) = DeletePrefixSet}"
proof -
  have "set (fold (\<lambda>r keys. if ar_Success r \<and> act_Kind (ar_Action r) = DeletePrefixSet
       then sadd (ownedASGTargetKey (act_Target (ar_Action r))) keys else keys) results acc) =
     set acc \<union> {ownedASGTargetKey (act_Target (ar_Action r)) | r. r \<in> set results \<and> ar_Success r \<and> act_Kind (ar_Action r) = DeletePrefixSet}" for acc
    by (induction results arbitrary: acc) auto
  then show ?thesis by (simp add: successful_deletes_def)
qed

text \<open>What both merging loops maintain: the keys seen are the distinct keys of the merged references.\<close>

definition merge_ok :: "string goset \<times> OwnedASGRef list \<Rightarrow> bool" where
  "merge_ok acc \<longleftrightarrow> set (fst acc) = ownedASGRefKey ` set (snd acc) \<and> distinct (map ownedASGRefKey (snd acc))"

lemma merge_desired_ok:
  "merge_ok acc \<Longrightarrow> merge_ok (merge_desired t acc) \<and> set (fst (merge_desired t acc)) = insert (ownedASGTargetKey t) (set (fst acc))"
  by (auto simp: merge_ok_def merge_desired_def split_beta)

lemma merge_existing_ok:
  "merge_ok acc \<Longrightarrow> merge_ok (merge_existing del r acc) \<and>
     set (fst (merge_existing del r acc)) = set (fst acc) \<union> ({ownedASGRefKey r} - set del)"
  by (auto simp: merge_ok_def merge_existing_def split_beta)

lemma fold_merge_desired:
  "merge_ok acc \<Longrightarrow> merge_ok (fold merge_desired ts acc) \<and> set (fst (fold merge_desired ts acc)) = ownedASGTargetKey ` set ts \<union> set (fst acc)"
proof (induction ts arbitrary: acc)
  case (Cons t ts)
  show ?case using Cons.IH [of "merge_desired t acc"] merge_desired_ok [OF Cons.prems, of t] by auto
qed simp

lemma fold_merge_existing:
  "merge_ok acc \<Longrightarrow> merge_ok (fold (merge_existing del) rs acc) \<and>
     set (fst (fold (merge_existing del) rs acc)) = set (fst acc) \<union> (ownedASGRefKey ` set rs - set del)"
proof (induction rs arbitrary: acc)
  case (Cons r rs)
  show ?case using Cons.IH [of "merge_existing del r acc"] merge_existing_ok [OF Cons.prems, of del r] by auto
qed simp

abbreviation owned_keys :: "owned_refs \<Rightarrow> string set" where
  "owned_keys refs \<equiv> ownedASGRefKey ` set (slice refs)"

lemma UpdateOwned_slice:
  fixes existing desired results
  defines "acc \<equiv> fold (merge_existing (successful_deletes results)) (slice existing) (fold merge_desired (gkeys desired) ([], []))"
  shows "slice (UpdateOwnedASGsAfterResults existing desired results) = sort_key ownedASGRefKey (snd acc)"
    and "merge_ok acc" and "set (fst acc) = ownedASGTargetKey ` set (gkeys desired) \<union> (owned_keys existing - set (successful_deletes results))"
proof -
  have k: "ownedASGRefSortKey = ownedASGRefKey" by (rule ext) (simp add: ownedASGRefSortKey_def)
  show "slice (UpdateOwnedASGsAfterResults existing desired results) = sort_key ownedASGRefKey (snd acc)"
    unfolding acc_def by (simp add: UpdateOwnedASGsAfterResults_def Let_def split_beta k)
  have "merge_ok ([], [])" by (simp add: merge_ok_def)
  from fold_merge_desired [OF this, of "gkeys desired"]
  show "merge_ok acc" "set (fst acc) = ownedASGTargetKey ` set (gkeys desired) \<union> (owned_keys existing - set (successful_deletes results))"
    using fold_merge_existing [of "fold merge_desired (gkeys desired) ([], [])" "successful_deletes results" "slice existing"]
    unfolding acc_def by auto
qed

lemma owned_keys_Update:
  "owned_keys (UpdateOwnedASGsAfterResults existing desired results) =
     ownedASGTargetKey ` set (gkeys desired) \<union> (owned_keys existing - set (successful_deletes results))"
  using UpdateOwned_slice [where existing = existing and desired = desired and results = results] by (simp add: merge_ok_def)

lemma ownershipAnnotationChanged_iff: "ownershipAnnotationChanged a b \<longleftrightarrow> slice a \<noteq> slice b"
proof -
  have "length xs = length ys \<and> \<not> list_ex (\<lambda>(a, b). a \<noteq> b) (zip xs ys) \<longleftrightarrow> xs = ys" for xs ys :: "OwnedASGRef list"
  proof (induction xs arbitrary: ys)
    case (Cons x xs)
    then show ?case by (cases ys) auto
  qed auto
  from this [of "slice a" "slice b"] show ?thesis by (auto simp: ownershipAnnotationChanged_def)
qed

lemma Load_Store: "LoadOwnedASGs (StoreOwnedASGs mapping refs) = Inr refs"
proof -
  have "marshal_refs refs \<noteq> []" by (simp add: marshal_refs_def split: option.split)
  then show ?thesis by (simp add: LoadOwnedASGs_def StoreOwnedASGs_def unmarshal_marshal)
qed

section \<open>Properties\<close>


text \<open>C33:
  After execution exactly the desired ASGs and the formerly owned ones whose deletion did not
  succeed are owned, each once, in the order of their keys.
\<close>

theorem owned_refs_exact:
  "ownedASGRefKey ` set (slice (UpdateOwnedASGsAfterResults existing desired results)) =
     ownedASGTargetKey ` set (gkeys desired) \<union> (ownedASGRefKey ` set (slice existing) -
       {ownedASGTargetKey (act_Target (ar_Action r)) | r. r \<in> set results \<and> ar_Success r \<and> act_Kind (ar_Action r) = DeletePrefixSet}) \<and>
   distinct (map ownedASGRefKey (slice (UpdateOwnedASGsAfterResults existing desired results))) \<and>
   sorted (map ownedASGRefKey (slice (UpdateOwnedASGsAfterResults existing desired results)))"
proof -
  have "distinct (map ownedASGRefKey (slice (UpdateOwnedASGsAfterResults existing desired results)))"
    using UpdateOwned_slice(1,2) [where existing = existing and desired = desired and results = results]
    by (simp add: merge_ok_def distinct_map)
  moreover have "sorted (map ownedASGRefKey (slice (UpdateOwnedASGsAfterResults existing desired results)))"
    using UpdateOwned_slice(1) [where existing = existing and desired = desired and results = results] by simp
  ultimately show ?thesis using owned_keys_Update [of existing desired results] unfolding set_successful_deletes by blast
qed

end
