(* ===== verification/Status_Updater.thy ===== *)
theory Status_Updater
  imports Status
begin

text \<open>
  Writing the status of a mapping (\<open>internal/controller/status_updater.go\<close> and the committer
  callback of \<open>status_updater_convergence_stub.go\<close>) with retries on conflicts.

  The Kubernetes API client is not part of the repository: it is the parameter \<open>kube_client\<close>,
  whose operations take and return the state of the outside world; the wall clock is
  \<open>kc_Now\<close>. What the theorems need of it is a hypothesis, \<open>kube_ok\<close>: a read returns the
  stored object, a write that reports success has stored the status.
\<close>

record 'w kube_client =
  kc_Get :: "NamespacedName \<Rightarrow> 'w \<Rightarrow> (goerror + PodASGMapping) \<times> 'w"
  kc_UpdateStatus :: "PodASGMapping \<Rightarrow> 'w \<Rightarrow> goerror option \<times> 'w"
  kc_Patch :: "PodASGMapping \<Rightarrow> PodASGMapping \<Rightarrow> 'w \<Rightarrow> (goerror + PodASGMapping) \<times> 'w"
  kc_ListPods :: "string \<Rightarrow> 'w \<Rightarrow> (goerror + Pod list) \<times> 'w"
  kc_ListMappings :: "'w \<Rightarrow> (goerror + PodASGMapping list) \<times> 'w"
  kc_Now :: "'w \<Rightarrow> gotime"

text \<open>\<open>apierrors.IsNotFound\<close> and \<open>apierrors.IsConflict\<close>.\<close>

definition api_IsNotFound :: "goerror \<Rightarrow> bool" where
  "api_IsNotFound err = list_ex (\<lambda>e. case e of ApiNotFound _ \<Rightarrow> True | _ \<Rightarrow> False) (err_chain err)"

definition api_IsConflict :: "goerror \<Rightarrow> bool" where
  "api_IsConflict err = list_ex (\<lambda>e. case e of ApiConflict _ \<Rightarrow> True | _ \<Rightarrow> False) (err_chain err)"

text \<open>\<open>pkgerrors.Wrap\<close> of an error that may be nil.\<close>

definition wrap_opt :: "string \<Rightarrow> goerror option \<Rightarrow> goerror option" where
  "wrap_opt msg err = map_option (Wrapped msg) err"

datatype StatusWriteOutcome = StatusWriteOutcomeWritten | StatusWriteOutcomeNoop | StatusWriteOutcomeError

type_synonym 'w committer = "NamespacedName \<Rightarrow> int \<Rightarrow> ActionResult list \<Rightarrow> StatusWriteOutcome \<Rightarrow> goerror option \<Rightarrow> 'w \<Rightarrow> 'w"

record 'w MappingStatusUpdater =
  su_Client :: "'w kube_client"
  su_MaxAttempts :: int
  su_convergenceCommitter :: "'w committer option"

definition NewMappingStatusUpdater :: "'w kube_client \<Rightarrow> 'w MappingStatusUpdater" where
  "NewMappingStatusUpdater c = \<lparr>su_Client = c, su_MaxAttempts = 3, su_convergenceCommitter = None\<rparr>"

definition SetConvergenceCommitter :: "'w MappingStatusUpdater \<Rightarrow> 'w committer \<Rightarrow> 'w MappingStatusUpdater" where
  "SetConvergenceCommitter u committer = u\<lparr>su_convergenceCommitter := Some committer\<rparr>"

definition notifyConvergence :: "'w MappingStatusUpdater \<Rightarrow> NamespacedName \<Rightarrow> int \<Rightarrow> ActionResult list \<Rightarrow>
    StatusWriteOutcome \<Rightarrow> goerror option \<Rightarrow> 'w \<Rightarrow> 'w" where
  "notifyConvergence u key observedGeneration results outcome statusErr w =
     (case su_convergenceCommitter u of
        None \<Rightarrow> w
      | Some committer \<Rightarrow> committer key observedGeneration results outcome statusErr w)"

section \<open>Pending status\<close>

definition pending_input :: "PodASGMapping \<Rightarrow> int \<Rightarrow> string \<Rightarrow> int list \<Rightarrow> gotime \<Rightarrow> ComputeStatusInput" where
  "pending_input mapping observedGeneration prefixSetName matchedPodsByIndex now =
     \<lparr>in_Spec = m_Spec mapping, in_PreviousStatus = m_Status mapping, in_PrefixSetName = prefixSetName, in_Results = [],
      in_MatchedPodsByIndex = matchedPodsByIndex, in_ValidationIssues = [], in_ReconcileErr = None,
      in_ObservedGeneration = observedGeneration, in_Phase = StatusPhasePending, in_Now = now\<rparr>"

text \<open>The loop, with the attempts left; \<open>lastErr\<close> is the error of the previous attempt.\<close>

fun pending_loop :: "nat \<Rightarrow> 'w MappingStatusUpdater \<Rightarrow> NamespacedName \<Rightarrow> int \<Rightarrow> string \<Rightarrow> int list \<Rightarrow> goerror option \<Rightarrow> 'w \<Rightarrow>
    goerror option \<times> 'w" where
  "pending_loop 0 u key gen psn matched lastErr w = (wrap_opt ''updating pending status: max attempts exceeded'' lastErr, w)"
| "pending_loop (Suc n) u key gen psn matched lastErr w =
     (case kc_Get (su_Client u) key w of
        (Inl err, w) \<Rightarrow>
          if api_IsNotFound err then (Some ErrStatusObjectNotFound, w)
          else (Some (Wrapped ''fetching mapping for pending status'' err), w)
      | (Inr mapping, w) \<Rightarrow>
          if m_Generation mapping > gen then (Some ErrStatusStaleGeneration, w)
          else let now = kc_Now (su_Client u) w;
                   newStatus = ComputeStatus (now, now) (pending_input mapping gen psn matched now)
               in if statusSemanticEqual (m_Status mapping) newStatus then (None, w)
                  else (case kc_UpdateStatus (su_Client u) (mapping\<lparr>m_Status := newStatus\<rparr>) w of
                          (None, w) \<Rightarrow> (None, w)
                        | (Some err, w) \<Rightarrow>
                            if api_IsNotFound err then (Some ErrStatusObjectNotFound, w)
                            else if api_IsConflict err \<and> n > 0
                            then pending_loop n u key gen psn matched (Some err) w
                            else (Some (Wrapped ''updating pending status'' err), w)))"

definition UpdatePending :: "'w MappingStatusUpdater \<Rightarrow> NamespacedName \<Rightarrow> int \<Rightarrow> string \<Rightarrow> int list \<Rightarrow> 'w \<Rightarrow> goerror option \<times> 'w" where
  "UpdatePending u key observedGeneration prefixSetName matchedPodsByIndex w =
     pending_loop (nat (su_MaxAttempts u)) u key observedGeneration prefixSetName matchedPodsByIndex None w"

section \<open>Final status\<close>

record final_args =
  fa_key :: NamespacedName
  fa_generation :: int
  fa_prefixSetName :: string
  fa_results :: "ActionResult list"
  fa_reconcileErr :: "goerror option"
  fa_issues :: "ValidationIssue list"
  fa_matched :: "int list"

definition final_input :: "final_args \<Rightarrow> PodASGMapping \<Rightarrow> gotime \<Rightarrow> ComputeStatusInput" where
  "final_input a mapping now =
     \<lparr>in_Spec = m_Spec mapping, in_PreviousStatus = m_Status mapping, in_PrefixSetName = fa_prefixSetName a,
      in_Results = fa_results a, in_MatchedPodsByIndex = fa_matched a, in_ValidationIssues = fa_issues a,
      in_ReconcileErr = fa_reconcileErr a, in_ObservedGeneration = fa_generation a, in_Phase = StatusPhaseFinal, in_Now = now\<rparr>"

definition final_status :: "'w MappingStatusUpdater \<Rightarrow> final_args \<Rightarrow> PodASGMapping \<Rightarrow> 'w \<Rightarrow> PodASGMappingStatus" where
  "final_status u a mapping w = (let now = kc_Now (su_Client u) w in ComputeStatus (now, now) (final_input a mapping now))"

definition notify :: "'w MappingStatusUpdater \<Rightarrow> final_args \<Rightarrow> StatusWriteOutcome \<Rightarrow> goerror option \<Rightarrow> 'w \<Rightarrow> 'w" where
  "notify u a outcome err w = notifyConvergence u (fa_key a) (fa_generation a) (fa_results a) outcome err w"

text \<open>After the loop: a last look for a newer generation or a status that is already right.\<close>

definition final_after_loop :: "'w MappingStatusUpdater \<Rightarrow> final_args \<Rightarrow> goerror option \<Rightarrow> 'w \<Rightarrow> goerror option \<times> 'w" where
  "final_after_loop u a lastErr w =
     (let give_up = (\<lambda>w. (wrap_opt ''updating final status: max attempts exceeded'' lastErr, notify u a StatusWriteOutcomeError lastErr w)) in
      if (case lastErr of Some err \<Rightarrow> api_IsConflict err | None \<Rightarrow> False) then
        (case kc_Get (su_Client u) (fa_key a) w of
           (Inl getErr, w) \<Rightarrow> if api_IsNotFound getErr then (Some ErrStatusObjectNotFound, w) else give_up w
         | (Inr check, w) \<Rightarrow>
             if m_Generation check > fa_generation a then (Some ErrStatusStaleGeneration, w)
             else if statusSemanticEqual (m_Status check) (final_status u a check w)
             then (None, notify u a StatusWriteOutcomeNoop None w)
             else give_up w)
      else give_up w)"

fun final_loop :: "nat \<Rightarrow> 'w MappingStatusUpdater \<Rightarrow> final_args \<Rightarrow> goerror option \<Rightarrow> 'w \<Rightarrow> goerror option \<times> 'w" where
  "final_loop 0 u a lastErr w = final_after_loop u a lastErr w"
| "final_loop (Suc n) u a lastErr w =
     (case kc_Get (su_Client u) (fa_key a) w of
        (Inl err, w) \<Rightarrow>
          if api_IsNotFound err then (Some ErrStatusObjectNotFound, w)
          else (Some (Wrapped ''fetching mapping for final status'' err), w)
      | (Inr mapping, w) \<Rightarrow>
          if m_Generation mapping > fa_generation a then (Some ErrStatusStaleGeneration, w)
          else let newStatus = final_status u a mapping w in
               if statusSemanticEqual (m_Status mapping) newStatus then (None, notify u a StatusWriteOutcomeNoop None w)
               else (case kc_UpdateStatus (su_Client u) (mapping\<lparr>m_Status := newStatus\<rparr>) w of
                       (None, w) \<Rightarrow> (None, notify u a StatusWriteOutcomeWritten None w)
                     | (Some err, w) \<Rightarrow>
                         if api_IsNotFound err then (Some ErrStatusObjectNotFound, w)
                         else if api_IsConflict err then
                           (if n > 0 then final_loop n u a (Some err) w else final_after_loop u a (Some err) w)
                         else (Some (Wrapped ''updating final status'' err), notify u a StatusWriteOutcomeError (Some err) w)))"

definition UpdateAfterReconcile :: "'w MappingStatusUpdater \<Rightarrow> final_args \<Rightarrow> 'w \<Rightarrow> goerror option \<times> 'w" where
  "UpdateAfterReconcile u a w = final_loop (nat (su_MaxAttempts u)) u a None w"

section \<open>Lemmas\<close>

text \<open>
  What is documented of the API server, for the mapping objects \<open>obj\<close> it stores: reads change
  nothing and return the stored object, a successful status write stores the status and
  keeps the rest, a failed one keeps everything.
\<close>

definition kube_ok :: "'w kube_client \<Rightarrow> ('w \<Rightarrow> NamespacedName \<Rightarrow> PodASGMapping option) \<Rightarrow> bool" where
  "kube_ok c obj \<longleftrightarrow>
     (\<forall>key w res w'. kc_Get c key w = (res, w') \<longrightarrow> obj w' = obj w \<and>
        (\<forall>m. res = Inr m \<longrightarrow> obj w key = Some m \<and> mapping_key m = key)) \<and>
     (\<forall>m w res w'. kc_UpdateStatus c m w = (res, w') \<longrightarrow>
        (res = None \<longrightarrow> (\<exists>m'. obj w' = (obj w)(mapping_key m \<mapsto> m') \<and> m_Status m' = m_Status m \<and> m_Spec m' = m_Spec m \<and>
           m_Generation m' = m_Generation m)) \<and>
        (\<forall>err. res = Some err \<longrightarrow> obj w' = obj w))"

definition committer_ok :: "'w committer option \<Rightarrow> ('w \<Rightarrow> NamespacedName \<Rightarrow> PodASGMapping option) \<Rightarrow> bool" where
  "committer_ok committer obj \<longleftrightarrow>
     (case committer of None \<Rightarrow> True | Some f \<Rightarrow> \<forall>k g rs out err w. obj (f k g rs out err w) = obj w)"

text \<open>The status is the one computed for the arguments from some previous status.\<close>

definition status_written :: "final_args \<Rightarrow> PodASGMapping \<Rightarrow> bool" where
  "status_written a m \<longleftrightarrow> m_Generation m \<le> fa_generation a \<and>
     (\<exists>prev now. m_Spec prev = m_Spec m \<and> statusSemanticEqual (m_Status m) (ComputeStatus (now, now) (final_input a prev now)))"

lemma kube_Get: "kube_ok c obj \<Longrightarrow> kc_Get c key w = (res, w') \<Longrightarrow> obj w' = obj w"
  "kube_ok c obj \<Longrightarrow> kc_Get c key w = (Inr m, w') \<Longrightarrow> obj w key = Some m \<and> mapping_key m = key"
  unfolding kube_ok_def by blast+

lemma kube_Update:
  "kube_ok c obj \<Longrightarrow> kc_UpdateStatus c m w = (None, w') \<Longrightarrow>
     \<exists>m'. obj w' = (obj w)(mapping_key m \<mapsto> m') \<and> m_Status m' = m_Status m \<and> m_Spec m' = m_Spec m \<and> m_Generation m' = m_Generation m"
  "kube_ok c obj \<Longrightarrow> kc_UpdateStatus c m w = (Some err, w') \<Longrightarrow> obj w' = obj w"
  unfolding kube_ok_def by blast+

lemma notify_obj: "committer_ok (su_convergenceCommitter u) obj \<Longrightarrow> obj (notify u a out err w) = obj w"
  by (auto simp: notify_def notifyConvergence_def committer_ok_def split: option.splits)

lemma semantic_refl: "statusSemanticEqual s s"
  by (simp add: statusSemanticEqual_def condition_equal_def row_equal_def zip_same_conv_map list_all_iff)

lemma semantic_written:
  "m_Generation m \<le> fa_generation a \<Longrightarrow> statusSemanticEqual (m_Status m) (final_status u a m w) \<Longrightarrow> status_written a m"
  unfolding status_written_def final_status_def Let_def by blast

lemma computed_written:
  "m_Generation m \<le> fa_generation a \<Longrightarrow> m_Spec m = m_Spec prev \<Longrightarrow> m_Status m = final_status u a prev w \<Longrightarrow> status_written a m"
  unfolding status_written_def final_status_def Let_def using semantic_refl by metis

lemma final_after_loop_ok:
  assumes "kube_ok (su_Client u) obj" and "committer_ok (su_convergenceCommitter u) obj" and "lastErr \<noteq> None"
    and "final_after_loop u a lastErr w = (None, w')"
  shows "\<exists>m. obj w' (fa_key a) = Some m \<and> status_written a m"
proof -
  obtain res w1 where g: "kc_Get (su_Client u) (fa_key a) w = (res, w1)" by fastforce
  from assms(3,4) g obtain m where m: "res = Inr m" "\<not> m_Generation m > fa_generation a"
    "statusSemanticEqual (m_Status m) (final_status u a m w1)" "w' = notify u a StatusWriteOutcomeNoop None w1"
    by (auto simp: final_after_loop_def Let_def wrap_opt_def split: sum.splits if_splits)
  have "obj w' (fa_key a) = Some m"
    using kube_Get [OF assms(1) g [unfolded m(1)]] notify_obj [OF assms(2)] m(4) by simp
  then show ?thesis using semantic_written m(2,3) by (metis linorder_not_le)
qed

lemma final_loop_ok:
  assumes "kube_ok (su_Client u) obj" and "committer_ok (su_convergenceCommitter u) obj" and "n > 0 \<or> lastErr \<noteq> None"
    and "final_loop n u a lastErr w = (None, w')"
  shows "\<exists>m. obj w' (fa_key a) = Some m \<and> status_written a m"
  using assms(3,4)
proof (induction n arbitrary: lastErr w)
  case 0
  then show ?case using final_after_loop_ok [OF assms(1,2), of lastErr a w w'] by simp
next
  case (Suc n)
  obtain res w1 where g: "kc_Get (su_Client u) (fa_key a) w = (res, w1)" by fastforce
  with Suc.prems(2) obtain m where m: "res = Inr m" by (cases res) (auto split: if_splits)
  note stored = kube_Get [OF assms(1) g [unfolded m]]
  have gen: "m_Generation m \<le> fa_generation a" using Suc.prems(2) g m by (auto split: if_splits)
  show ?case
  proof (cases "statusSemanticEqual (m_Status m) (final_status u a m w1)")
    case True
    then have "w' = notify u a StatusWriteOutcomeNoop None w1" using Suc.prems(2) g m gen by simp
    then have "obj w' (fa_key a) = Some m" using stored notify_obj [OF assms(2)] by simp
    then show ?thesis using semantic_written [OF gen True] by blast
  next
    case False
    obtain r w2 where up: "kc_UpdateStatus (su_Client u) (m\<lparr>m_Status := final_status u a m w1\<rparr>) w1 = (r, w2)" by fastforce
    show ?thesis
    proof (cases r)
      case None
      from kube_Update(1) [OF assms(1) up [unfolded None]] stored obtain m' where
        m': "obj w2 (fa_key a) = Some m'" "m_Status m' = final_status u a m w1" "m_Spec m' = m_Spec m" "m_Generation m' = m_Generation m"
        by (auto simp: mapping_key_def)
      have "w' = notify u a StatusWriteOutcomeWritten None w2" using Suc.prems(2) g m gen False up None by simp
      then show ?thesis using m' computed_written [of m' a m u w1] gen notify_obj [OF assms(2)] by auto
    next
      case (Some err)
      then consider "n > 0" "final_loop n u a (Some err) w2 = (None, w')" | "final_after_loop u a (Some err) w2 = (None, w')"
        using Suc.prems(2) g m gen False up by (auto split: if_splits)
      then show ?thesis
        by cases (use Suc.IH [of "Some err" w2] final_after_loop_ok [OF assms(1,2), of "Some err" a w2 w'] in auto)
    qed
  qed
qed

lemma pending_loop_stale:
  assumes "kube_ok (su_Client u) obj" and "pending_loop n u key gen psn matched lastErr w = (err, w')" and "obj w key = Some m" and "m_Generation m > gen"
  shows "obj w' = obj w"
proof (cases n)
  case (Suc k)
  obtain res w1 where g: "kc_Get (su_Client u) key w = (res, w1)" by fastforce
  then show ?thesis using assms Suc kube_Get(1) [OF assms(1) g] kube_Get(2) [OF assms(1), of key w _ w1]
    by (cases res) (auto split: if_splits)
qed (use assms in simp)

lemma final_loop_stale:
  assumes "kube_ok (su_Client u) obj" and "final_loop (Suc k) u a lastErr w = (err, w')" and "obj w (fa_key a) = Some m" and "m_Generation m > fa_generation a"
  shows "obj w' = obj w \<and> err \<noteq> None"
proof -
  obtain res w1 where g: "kc_Get (su_Client u) (fa_key a) w = (res, w1)" by fastforce
  then show ?thesis using assms kube_Get(1) [OF assms(1) g] kube_Get(2) [OF assms(1), of "fa_key a" w _ w1]
    by (cases res) (auto split: if_splits)
qed

text \<open>An API server that stores one mapping and refuses the first status write with a conflict.\<close>

type_synonym ex_world = "(NamespacedName \<Rightarrow> PodASGMapping option) \<times> bool"

definition ex_kube :: "ex_world kube_client" where
  "ex_kube = \<lparr>
     kc_Get = (\<lambda>key (objs, busy). (case objs key of
        Some m \<Rightarrow> if mapping_key m = key then Inr m else Inl (ApiNotFound ''x'') | None \<Rightarrow> Inl (ApiNotFound ''x''), (objs, busy))),
     kc_UpdateStatus = (\<lambda>m (objs, busy). if busy then (Some (ApiConflict ''x''), (objs, False))
        else (None, (objs(mapping_key m \<mapsto> m), False))),
     kc_Patch = (\<lambda>base m w. (Inr m, w)), kc_ListPods = (\<lambda>ns w. (Inr [], w)), kc_ListMappings = (\<lambda>w. (Inr [], w)), kc_Now = (\<lambda>w. 9)\<rparr>"

lemma ex_kube_ok: "kube_ok ex_kube fst"
  by (auto simp: kube_ok_def ex_kube_def split: option.splits if_splits)

definition ex_final_args :: final_args where
  "ex_final_args = \<lparr>fa_key = \<lparr>nn_Namespace = ''ns'', nn_Name = ''m''\<rparr>, fa_generation = 1, fa_prefixSetName = ''c-ns-m'', fa_results = [],
     fa_reconcileErr = None, fa_issues = [], fa_matched = []\<rparr>"

definition ex_plain_mapping :: "int \<Rightarrow> PodASGMapping" where
  "ex_plain_mapping gen = \<lparr>m_Namespace = ''ns'', m_Name = ''m'', m_UID = ''u1'', m_Generation = gen, m_ResourceVersion = ''1'',
      m_Finalizers = [], m_DeletionTimestamp = None, m_CreationTimestamp = 0, m_Annotations = None, m_Spec = \<lparr>spec_Mappings = []\<rparr>,
      m_Status = \<lparr>st_Conditions = [], st_MappingCount = 0, st_MappingStatuses = []\<rparr>\<rparr>"

lemma ex_plain_key: "mapping_key (ex_plain_mapping gen) = fa_key ex_final_args"
  by (simp add: ex_plain_mapping_def ex_final_args_def mapping_key_def)

lemma no_conditions_differ: "st_Conditions s = [] \<Longrightarrow> \<not> statusSemanticEqual s (ComputeStatus clk inp)"
  using arg_cong [OF ComputeStatus_two_conditions [of clk inp], of length] by (simp add: statusSemanticEqual_def)

lemma ex_update: "fst (UpdateAfterReconcile (NewMappingStatusUpdater ex_kube) ex_final_args ([fa_key ex_final_args \<mapsto> ex_plain_mapping 1], True)) = None"
proof -
  have s: "st_Conditions (m_Status (ex_plain_mapping 1)) = []" "m_Generation (ex_plain_mapping 1) = fa_generation ex_final_args"
    by (simp_all add: ex_plain_mapping_def ex_final_args_def)
  have c: "api_IsConflict (ApiConflict x)" "\<not> api_IsNotFound (ApiConflict x)" for x
    by (simp_all add: api_IsConflict_def api_IsNotFound_def)
  show ?thesis
    by (simp add: UpdateAfterReconcile_def NewMappingStatusUpdater_def numeral_3_eq_3 ex_kube_def ex_plain_key Let_def
        final_status_def no_conditions_differ s c)
qed

section \<open>Properties\<close>



text \<open>A status computed for an older generation never overwrites a newer object: both updates
  leave the API server unchanged, and the final one reports an error.
\<close>

theorem stale_status_never_written:
  assumes "kube_ok (su_Client u) obj" and "su_MaxAttempts u > 0" and "obj w (fa_key a) = Some m" and "m_Generation m > fa_generation a"
  shows "obj (snd (UpdatePending u (fa_key a) (fa_generation a) psn matched w)) = obj w \<and>
    obj (snd (UpdateAfterReconcile u a w)) = obj w \<and> fst (UpdateAfterReconcile u a w) \<noteq> None"
proof -
  obtain k where k: "nat (su_MaxAttempts u) = Suc k" using assms(2) by (metis Suc_nat_eq_nat_zadd1 gr0_implies_Suc zero_less_nat_eq)
  have "obj (snd (UpdatePending u (fa_key a) (fa_generation a) psn matched w)) = obj w"
    using pending_loop_stale [OF assms(1) _ assms(3,4), of "nat (su_MaxAttempts u)" psn matched None] unfolding UpdatePending_def
    by (metis prod.collapse)
  moreover have "obj (snd (UpdateAfterReconcile u a w)) = obj w \<and> fst (UpdateAfterReconcile u a w) \<noteq> None"
    using final_loop_stale [OF assms(1) _ assms(3,4), of k None] unfolding UpdateAfterReconcile_def k
    by (metis prod.collapse)
  ultimately show ?thesis by blast
qed

theorem stale_status_never_written_witness:
  "fst (snd (UpdateAfterReconcile (NewMappingStatusUpdater ex_kube) ex_final_args ([fa_key ex_final_args \<mapsto> ex_plain_mapping 2], False)))
     = [fa_key ex_final_args \<mapsto> ex_plain_mapping 2]"
proof -
  let ?u = "NewMappingStatusUpdater ex_kube" and ?w = "([fa_key ex_final_args \<mapsto> ex_plain_mapping 2], False)"
  have "kube_ok (su_Client ?u) fst" "su_MaxAttempts ?u > 0" using ex_kube_ok by (simp_all add: NewMappingStatusUpdater_def)
  moreover have "fst ?w (fa_key ex_final_args) = Some (ex_plain_mapping 2)" by simp
  moreover have "m_Generation (ex_plain_mapping 2) > fa_generation ex_final_args" by (simp add: ex_plain_mapping_def ex_final_args_def)
  ultimately show ?thesis using stale_status_never_written [of ?u fst ?w ex_final_args "ex_plain_mapping 2"] by simp
qed

end
