(* ===== verification/Reconciler.thy ===== *)
theory Reconciler
  imports Requeue_Policy Ownership_Store Status_Updater Pod_Handler
begin

text \<open>
  The reconcile loop of a mapping (\<open>internal/controller/mapping_reconciler.go\<close>) with the exits
  on errors (\<open>internal/controller/error_policy.go\<close>), from the read of the object to the requeue
  decision.

  The fields of \<open>MappingReconciler\<close> that are configuration or interfaces are the record
  \<open>MappingReconciler\<close>; what a reconcile changes is \<open>reconciler_state\<close>: the outside world (the
  Kubernetes API server, Azure, the clock) behind the parameters, the desired state cache and
  the two \<open>sync.Map\<close>s. The fields after \<open>r_hasCache\<close> stand for the schedule: the order
  in which goroutines run and maps are iterated, whether waiting for the read semaphore ends with a
  cancelled context, and what pod event handlers do to the cache while a call takes the outside
  from one world to another. The optional metrics trackers are nil here, and \<open>Reconcile_Metrics\<close>
  adds them; the stage that \<open>observeReconcile\<close> gets is a result. A result \<open>None\<close> is a panic: a client that returns neither a prefix set nor an error.
\<close>

definition CleanupFinalizer :: string where
  "CleanupFinalizer = ''networking.azure.com/pod-asg-cleanup''"

record debounceState =
  db_lastSuccessfulAt :: gotime
  db_generation :: int

record resyncState =
  ry_generation :: int
  ry_lastFullRecomputeAt :: gotime

record 'w MappingReconciler =
  r_Client :: "'w kube_client"
  r_ClusterName :: string
  r_ResyncInterval :: duration
  r_MinReconcileInterval :: duration
  r_PatchThresholdPercent :: int
  r_PrefixSetFactory :: "string \<Rightarrow> goerror + 'w AddressPrefixSetAPI"
  r_Executor :: "Action list \<Rightarrow> 'w \<Rightarrow> ActionResult list \<times> 'w"
  r_StatusUpdater :: "'w MappingStatusUpdater option"
  r_hasCache :: bool
  r_order :: "ASGTarget list \<Rightarrow> ASGTarget list"
  r_semaphore :: "ASGTarget \<Rightarrow> 'w \<Rightarrow> goerror option"
  r_interleaved :: "'w \<Rightarrow> 'w \<Rightarrow> DesiredStateCache \<Rightarrow> DesiredStateCache"

record 'w reconciler_state =
  s_world :: 'w
  s_DesiredStateCache :: DesiredStateCache
  s_lastReconcileState :: "(NamespacedName, debounceState) gomap"
  s_desiredStateResyncState :: "(NamespacedName, resyncState) gomap"

text \<open>A call to the outside world, during which other goroutines may use the cache.\<close>

definition external :: "'w MappingReconciler \<Rightarrow> ('w \<Rightarrow> 'a \<times> 'w) \<Rightarrow> 'w reconciler_state \<Rightarrow> 'a \<times> 'w reconciler_state" where
  "external r f s =
     (case f (s_world s) of
        (x, w) \<Rightarrow> (x, s\<lparr>s_world := w, s_DesiredStateCache := r_interleaved r (s_world s) w (s_DesiredStateCache s)\<rparr>))"

definition now :: "'w MappingReconciler \<Rightarrow> 'w reconciler_state \<Rightarrow> gotime" where
  "now r s = kc_Now (r_Client r) (s_world s)"

text \<open>\<open>if r.DesiredStateCache != nil { r.DesiredStateCache.Delete(key) }\<close>\<close>

definition drop_cached :: "'w MappingReconciler \<Rightarrow> NamespacedName \<Rightarrow> 'w reconciler_state \<Rightarrow> 'w reconciler_state" where
  "drop_cached r key s = (if r_hasCache r then s\<lparr>s_DesiredStateCache := Delete (s_DesiredStateCache s) key\<rparr> else s)"

section \<open>Debouncing and resync state\<close>

definition debounceRemaining :: "'w MappingReconciler \<Rightarrow> NamespacedName \<Rightarrow> int \<Rightarrow> gotime \<Rightarrow> 'w reconciler_state \<Rightarrow> duration \<times> bool" where
  "debounceRemaining r key generation t s =
     (if r_MinReconcileInterval r \<le> 0 then (0, False)
      else case gget (s_lastReconcileState s) key of
             None \<Rightarrow> (0, False)
           | Some state \<Rightarrow>
               if db_generation state \<noteq> generation then (0, False)
               else let elapsed = t - db_lastSuccessfulAt state; remaining = r_MinReconcileInterval r - elapsed
                    in if remaining \<le> 0 then (0, False) else (remaining, True))"

definition markReconcileSuccess :: "'w MappingReconciler \<Rightarrow> NamespacedName \<Rightarrow> int \<Rightarrow> gotime \<Rightarrow> 'w reconciler_state \<Rightarrow> 'w reconciler_state" where
  "markReconcileSuccess r key generation t s =
     (if r_MinReconcileInterval r \<le> 0 then s
      else s\<lparr>s_lastReconcileState := gput key \<lparr>db_lastSuccessfulAt = t, db_generation = generation\<rparr> (s_lastReconcileState s)\<rparr>)"

definition clearDebounceState :: "NamespacedName \<Rightarrow> 'w reconciler_state \<Rightarrow> 'w reconciler_state" where
  "clearDebounceState key s = s\<lparr>s_lastReconcileState := gdel key (s_lastReconcileState s)\<rparr>"

definition shouldForceDesiredStateRecompute :: "'w MappingReconciler \<Rightarrow> NamespacedName \<Rightarrow> int \<Rightarrow> gotime \<Rightarrow> 'w reconciler_state \<Rightarrow> bool" where
  "shouldForceDesiredStateRecompute r key generation t s \<longleftrightarrow>
     (if r_ResyncInterval r \<le> 0 then True
      else case gget (s_desiredStateResyncState s) key of
             None \<Rightarrow> True
           | Some state \<Rightarrow>
               if ry_generation state \<noteq> generation then True
               else t - ry_lastFullRecomputeAt state \<ge> r_ResyncInterval r)"

definition markDesiredStateFullRecompute :: "NamespacedName \<Rightarrow> int \<Rightarrow> gotime \<Rightarrow> 'w reconciler_state \<Rightarrow> 'w reconciler_state" where
  "markDesiredStateFullRecompute key generation t s =
     s\<lparr>s_desiredStateResyncState := gput key \<lparr>ry_generation = generation, ry_lastFullRecomputeAt = t\<rparr> (s_desiredStateResyncState s)\<rparr>"

definition clearDesiredStateResyncState :: "NamespacedName \<Rightarrow> 'w reconciler_state \<Rightarrow> 'w reconciler_state" where
  "clearDesiredStateResyncState key s = s\<lparr>s_desiredStateResyncState := gdel key (s_desiredStateResyncState s)\<rparr>"

definition cleanupPerMappingMetricState :: "NamespacedName \<Rightarrow> 'w reconciler_state \<Rightarrow> 'w reconciler_state" where
  "cleanupPerMappingMetricState key s = clearDesiredStateResyncState key (clearDebounceState key s)"

definition cacheConflictRequeueAfter :: "'w MappingReconciler \<Rightarrow> duration" where
  "cacheConflictRequeueAfter r =
     (if r_MinReconcileInterval r > 0 then r_MinReconcileInterval r
      else if r_ResyncInterval r > 0 then
        (let quarter = r_ResyncInterval r div 4; result = quarter;
             result = (if result < 200 * millisecond then 200 * millisecond else result);
             result = (if result > 2 * second then 2 * second else result)
         in result)
      else 500 * millisecond)"

definition promptRequeueAfter :: "duration \<Rightarrow> duration" where
  "promptRequeueAfter resyncInterval =
     (let defaultDelay = second in
      if resyncInterval \<le> 0 then defaultDelay
      else if resyncInterval \<le> 2 * defaultDelay then resyncInterval
      else defaultDelay)"

definition promptFollowUpWindow :: "duration \<Rightarrow> duration" where
  "promptFollowUpWindow resyncInterval =
     (let maxWindow = 15 * second in
      if resyncInterval \<le> 0 then 0
      else if resyncInterval < maxWindow then resyncInterval
      else maxWindow)"

definition withinPromptFollowUpWindow :: "gotime \<Rightarrow> duration \<Rightarrow> gotime \<Rightarrow> bool" where
  "withinPromptFollowUpWindow createdAt promptWindow t \<longleftrightarrow>
     (if promptWindow \<le> 0 \<or> createdAt = 0 then False else t - createdAt < promptWindow)"

section \<open>Calls to the API server\<close>

definition mappingStillCurrent :: "'w MappingReconciler \<Rightarrow> NamespacedName \<Rightarrow> string \<Rightarrow> int \<Rightarrow> 'w reconciler_state \<Rightarrow>
    (goerror + bool) \<times> 'w reconciler_state" where
  "mappingStillCurrent r key observedUID observedGeneration s =
     (case external r (kc_Get (r_Client r) key) s of
        (Inl err, s) \<Rightarrow> if api_IsNotFound err then (Inr False, s) else (Inl err, s)
      | (Inr current, s) \<Rightarrow>
          if m_UID current \<noteq> observedUID then (Inr False, s)
          else if m_Generation current \<noteq> observedGeneration then (Inr False, s)
          else if m_DeletionTimestamp current \<noteq> None then (Inr False, s)
          else (Inr True, s))"

text \<open>The patch is the difference of the object to its copy; the object becomes the server's answer.\<close>

definition ensureFinalizer :: "'w MappingReconciler \<Rightarrow> PodASGMapping \<Rightarrow> 'w reconciler_state \<Rightarrow>
    (goerror + bool) \<times> PodASGMapping \<times> 'w reconciler_state" where
  "ensureFinalizer r m s =
     (if CleanupFinalizer \<in> set (m_Finalizers m) then (Inr False, m, s)
      else let m' = m\<lparr>m_Finalizers := m_Finalizers m @ [CleanupFinalizer]\<rparr> in
           case external r (kc_Patch (r_Client r) m m') s of
             (Inl err, s) \<Rightarrow> (Inl (Wrapped ''adding finalizer'' err), m', s)
           | (Inr m'', s) \<Rightarrow> (Inr True, m'', s))"

section \<open>Exits on errors\<close>

type_synonym reconcile_exit = "ctrl_Result \<times> goerror option \<times> ReconcileMetricStage option"

abbreviation result_zero :: ctrl_Result where
  "result_zero \<equiv> \<lparr>res_Requeue = False, res_RequeueAfter = 0\<rparr>"

abbreviation exit_at :: "ctrl_Result \<Rightarrow> ReconcileMetricStage \<Rightarrow> reconcile_exit" where
  "exit_at res stage \<equiv> (res, None, Some stage)"

text \<open>The exit after a cache conflict observes no metric.\<close>

abbreviation conflict_exit :: "'w MappingReconciler \<Rightarrow> reconcile_exit" where
  "conflict_exit r \<equiv> (requeue_after (cacheConflictRequeueAfter r), None, None)"

definition finalizeStatusWriteError :: "'w MappingReconciler \<Rightarrow> goerror \<Rightarrow> ctrl_Result \<times> goerror option" where
  "finalizeStatusWriteError r statusErr =
     (if errors_Is statusErr ErrStatusObjectNotFound \<or> errors_Is statusErr ErrStatusStaleGeneration then (result_zero, None)
      else (DecideRequeueFromSystemError (Some statusErr) (DefaultRequeuePolicy (r_ResyncInterval r)), None))"

definition status_args :: "NamespacedName \<Rightarrow> PodASGMapping \<Rightarrow> string \<Rightarrow> ActionResult list \<Rightarrow> goerror option \<Rightarrow> ValidationIssue list \<Rightarrow> int list \<Rightarrow>
    final_args" where
  "status_args key mapping ownershipKey results reconcileErr issues matched =
     \<lparr>fa_key = key, fa_generation = m_Generation mapping, fa_prefixSetName = ownershipKey, fa_results = results,
      fa_reconcileErr = reconcileErr, fa_issues = issues, fa_matched = matched\<rparr>"

text \<open>\<open>mapping\<close> is \<open>None\<close> for a nil pointer.\<close>

definition finalizeSystemError :: "'w MappingReconciler \<Rightarrow> NamespacedName \<Rightarrow> PodASGMapping option \<Rightarrow> string \<Rightarrow> int list \<Rightarrow> goerror \<Rightarrow> bool \<Rightarrow>
    ActionResult list \<Rightarrow> 'w reconciler_state \<Rightarrow> reconcile_exit \<times> 'w reconciler_state" where
  "finalizeSystemError r key mapping ownershipKey matchedPodsByIndex systemErr allowStatusWrite results s =
     (let result = DecideRequeueFromSystemError (Some systemErr) (DefaultRequeuePolicy (r_ResyncInterval r)) in
      case (allowStatusWrite, r_StatusUpdater r, mapping) of
        (True, Some u, Some m) \<Rightarrow>
          (case external r (UpdateAfterReconcile u (status_args key m ownershipKey results (Some systemErr) [] matchedPodsByIndex)) s of
             (None, s) \<Rightarrow> (exit_at result ReconcileStageSystemError, s)
           | (Some statusErr, s) \<Rightarrow>
               if errors_Is statusErr ErrStatusObjectNotFound
               then (exit_at result_zero ReconcileStageStatusSentinelTerminal, cleanupPerMappingMetricState key s)
               else if errors_Is statusErr ErrStatusStaleGeneration
               then (exit_at result_zero ReconcileStageStatusSentinelTerminal, s)
               else (case finalizeStatusWriteError r statusErr of (res, err) \<Rightarrow> ((res, err, Some ReconcileStageStatusWriteError), s)))
      | _ \<Rightarrow> (exit_at result ReconcileStageSystemError, s))"

section \<open>Reading the actual state\<close>

type_synonym listActualTargetError = "ASGTarget \<times> goerror"

definition selectListActualPrimaryCause :: "listActualTargetError list \<Rightarrow> goerror" where
  "selectListActualPrimaryCause items =
     (case fold (\<lambda>(target, err) best.
              if IsRetriableARM err then
                (let hint = ExtractRetryAfterHint err in
                 case best of
                   None \<Rightarrow> Some (target, err, hint)
                 | Some (bestTarget, bestErr, bestRetryAfter) \<Rightarrow>
                     if hint > bestRetryAfter \<or> hint = bestRetryAfter \<and> targetKey target < targetKey bestTarget
                     then Some (target, err, hint) else best)
              else best) items None of
        Some (target, err, hint) \<Rightarrow> err
      | None \<Rightarrow> snd (hd items))"

definition aggregateListActualTargetErrors :: "listActualTargetError list \<Rightarrow> goerror option" where
  "aggregateListActualTargetErrors items =
     (if items = [] then None
      else let items = sort_key (\<lambda>(target, err). targetKey target) items;
               primary = selectListActualPrimaryCause items;
               parts = map (\<lambda>(target, err). targetKey target @ '': '' @ err_text err) items
           in Some (Aggregated (''list-actual-state failures: '' @ Join parts ''; '') primary))"

text \<open>The clients of the subscriptions; a subscription without one is an error for all its targets.\<close>

definition resolve_client :: "(string \<Rightarrow> goerror + 'w AddressPrefixSetAPI) \<Rightarrow> ASGTarget list \<Rightarrow> ASGTarget \<Rightarrow>
    (string, 'w AddressPrefixSetAPI) gomap \<times> (string, goerror) gomap \<times> listActualTargetError list \<Rightarrow>
    (string, 'w AddressPrefixSetAPI) gomap \<times> (string, goerror) gomap \<times> listActualTargetError list" where
  "resolve_client factory targetList t acc =
     (case acc of (clients, failed, subErrors) \<Rightarrow>
        let sub = tgt_SubscriptionID t in
        if gget clients sub \<noteq> None then acc
        else if gget failed sub \<noteq> None then acc
        else (case factory sub of
                Inl err \<Rightarrow> (clients, gput sub err failed,
                  subErrors @ map (\<lambda>tt. (tt, Wrapped (''getting client for subscription '' @ sub) err))
                    (filter (\<lambda>tt. tgt_SubscriptionID tt = sub) targetList))
              | Inr c \<Rightarrow> (gput sub c clients, failed, subErrors)))"

text \<open>One goroutine.\<close>

definition read_target :: "'w MappingReconciler \<Rightarrow> (string, 'w AddressPrefixSetAPI) gomap \<Rightarrow> ASGTarget \<Rightarrow>
    (actual_state \<times> listActualTargetError list \<times> 'w) option \<Rightarrow> (actual_state \<times> listActualTargetError list \<times> 'w) option" where
  "read_target r clients t acc =
     (case acc of
        None \<Rightarrow> None
      | Some (actual, errs, w) \<Rightarrow>
          (case gget clients (tgt_SubscriptionID t) of
             None \<Rightarrow> acc
           | Some c \<Rightarrow>
               (case r_semaphore r t w of
                  Some cerr \<Rightarrow> Some (actual, errs @ [(t, Wrapped ''context canceled waiting for semaphore'' cerr)], w)
                | None \<Rightarrow>
                    (case api_Get c (target_resource t) w of
                       (Inl err, w) \<Rightarrow> if IsNotFound err then Some (actual, errs, w) else Some (actual, errs @ [(t, err)], w)
                     | (Inr None, w) \<Rightarrow> None
                     | (Inr (Some ps), w) \<Rightarrow> Some (gput t (set_of_slice (prefixes_of ps)) actual, errs, w)))))"

definition listActualForTargets :: "'w MappingReconciler \<Rightarrow> ASGTarget goset \<Rightarrow> 'w \<Rightarrow> ((goerror + actual_state) \<times> 'w) option" where
  "listActualForTargets r targets w =
     (if targets = [] then Some (Inr [], w)
      else let targetList = sort_key targetKey targets;
               (clients, failed, subErrors) = fold (resolve_client (r_PrefixSetFactory r) targetList) targetList ([], [], [])
           in case fold (read_target r clients) (r_order r targetList) (Some ([], subErrors, w)) of
                None \<Rightarrow> None
              | Some (actual, errs, w) \<Rightarrow>
                  (case aggregateListActualTargetErrors errs of
                     None \<Rightarrow> Some (Inr actual, w)
                   | Some err \<Rightarrow> Some (Inl err, w)))"

section \<open>Deletion\<close>

record deleteCleanupError =
  dce_Target :: ASGTarget
  dce_Op :: string
  dce_PrefixSetName :: string
  dce_Err :: goerror

definition cleanup_part :: "deleteCleanupError \<Rightarrow> string" where
  "cleanup_part e =
     (let t = dce_Target e; base = dce_Op e @ '' '' @ tgt_SubscriptionID t @ ''/'' @ tgt_ResourceGroup t @ ''/'' @ tgt_ASGName t in
      if dce_PrefixSetName e \<noteq> [] then base @ ''/'' @ dce_PrefixSetName e @ '': '' @ err_text (dce_Err e)
      else base @ '': '' @ err_text (dce_Err e))"

definition aggregateDeleteCleanupErrors :: "deleteCleanupError list \<Rightarrow> goerror option" where
  "aggregateDeleteCleanupErrors items =
     (if items = [] then None else Some (OtherError (''cleanup errors: '' @ Join (map cleanup_part items) ''; '')))"

definition delete_candidates :: "PodASGMapping \<Rightarrow> string \<Rightarrow> owned_refs \<Rightarrow> ASGTarget goset" where
  "delete_candidates m ownershipKey ownedRefs =
     (case ownedRefs of
        Some refs \<Rightarrow> TargetsFromOwnedASGs ownedRefs ownershipKey
      | None \<Rightarrow> set_of_slice (concat (map (\<lambda>rule. resolveRuleTargets rule ownershipKey) (m_Mappings m))))"

definition delete_prefix_set :: "'w AddressPrefixSetAPI \<Rightarrow> ASGTarget \<Rightarrow> string \<Rightarrow> AddressPrefixSet \<Rightarrow> deleteCleanupError list \<times> 'w \<Rightarrow>
    deleteCleanupError list \<times> 'w" where
  "delete_prefix_set client t ownershipKey ps acc =
     (case acc of (errs, w) \<Rightarrow>
        (case aps_Name ps of
           None \<Rightarrow> acc
         | Some name \<Rightarrow>
             if PrefixSetNameEqualsOwnership ps ownershipKey then
               (case api_Delete client (tgt_SubscriptionID t, tgt_ResourceGroup t, tgt_ASGName t, name) w of
                  (None, w) \<Rightarrow> (errs, w)
                | (Some delErr, w) \<Rightarrow>
                    if IsNotFound delErr then (errs, w)
                    else (errs @ [\<lparr>dce_Target = t, dce_Op = ''delete'', dce_PrefixSetName = name, dce_Err = delErr\<rparr>], w))
             else acc))"

definition delete_target :: "'w MappingReconciler \<Rightarrow> string \<Rightarrow> ASGTarget \<Rightarrow> deleteCleanupError list \<times> 'w \<Rightarrow> deleteCleanupError list \<times> 'w" where
  "delete_target r ownershipKey t acc =
     (case acc of (errs, w) \<Rightarrow>
        (case r_PrefixSetFactory r (tgt_SubscriptionID t) of
           Inl clientErr \<Rightarrow> (errs @ [\<lparr>dce_Target = t, dce_Op = ''forSubscription'', dce_PrefixSetName = [], dce_Err = clientErr\<rparr>], w)
         | Inr client \<Rightarrow>
             (case api_List client (tgt_SubscriptionID t, tgt_ResourceGroup t, tgt_ASGName t) w of
                (Inl listErr, w) \<Rightarrow> (errs @ [\<lparr>dce_Target = t, dce_Op = ''list'', dce_PrefixSetName = [], dce_Err = listErr\<rparr>], w)
              | (Inr prefixSets, w) \<Rightarrow> fold (delete_prefix_set client t ownershipKey) prefixSets (errs, w))))"

definition reconcileDelete :: "'w MappingReconciler \<Rightarrow> PodASGMapping \<Rightarrow> string \<Rightarrow> 'w \<Rightarrow> goerror option \<times> 'w" where
  "reconcileDelete r m ownershipKey w =
     (case LoadOwnedASGs m of
        Inl err \<Rightarrow> (Some (Wrapped ''parsing owned annotation during delete'' err), w)
      | Inr ownedRefs \<Rightarrow>
          (case fold (delete_target r ownershipKey) (r_order r (delete_candidates m ownershipKey ownedRefs)) ([], w) of
             (cleanupErrors, w) \<Rightarrow> (aggregateDeleteCleanupErrors cleanupErrors, w)))"

definition aggregateActionFailures :: "ActionResult list \<Rightarrow> goerror option" where
  "aggregateActionFailures results =
     (let errs = concat (map (\<lambda>r. case ar_Err r of
                          Some err \<Rightarrow> if \<not> ar_Success r then [failure_message r err] else []
                        | None \<Rightarrow> []) results)
      in if errs = [] then None else Some (OtherError (''action failures: '' @ Join errs ''; '')))"


section \<open>Desired state, from the cache or recomputed\<close>

record resolved =
  rv_desired :: desired_state
  rv_podSnapshot :: PodSnapshot
  rv_matchedPodsByIndex :: "int list"
  rv_hasPendingIPPods :: bool

definition resolved_cached :: "CachedDesiredState \<Rightarrow> resolved" where
  "resolved_cached cached = \<lparr>rv_desired = cs_Desired cached, rv_podSnapshot = cs_Snapshot cached,
     rv_matchedPodsByIndex = cs_MatchedPodsByIndex cached, rv_hasPendingIPPods = cs_HasPendingIPPods cached\<rparr>"

definition resolved_arts :: "DesiredStateRecomputeArtifacts \<Rightarrow> resolved" where
  "resolved_arts arts = \<lparr>rv_desired = art_Desired arts, rv_podSnapshot = art_Snapshot arts,
     rv_matchedPodsByIndex = art_MatchedPodsByIndex arts, rv_hasPendingIPPods = art_HasPendingIPPods arts\<rparr>"

text \<open>Listing the pods and recomputing, with the exit for a failed list.\<close>

definition list_and_recompute :: "matcher \<Rightarrow> 'w MappingReconciler \<Rightarrow> NamespacedName \<Rightarrow> PodASGMapping \<Rightarrow> string \<Rightarrow> 'w reconciler_state \<Rightarrow>
    (reconcile_exit + DesiredStateRecomputeArtifacts) \<times> 'w reconciler_state" where
  "list_and_recompute M r key mapping ownershipKey s =
     (case external r (kc_ListPods (r_Client r) (m_Namespace mapping)) s of
        (Inl err, s) \<Rightarrow> (case finalizeSystemError r key (Some mapping) ownershipKey [] err True [] s of (x, s) \<Rightarrow> (Inl x, s))
      | (Inr pods, s) \<Rightarrow> (Inr (ComputeDesiredStateRecomputeArtifacts M (r_ClusterName r) mapping pods), s))"

definition publish :: "PodASGMapping \<Rightarrow> DesiredStateRecomputeArtifacts \<Rightarrow> 64 word \<Rightarrow> 64 word \<Rightarrow> 'w reconciler_state \<Rightarrow> bool \<times> 'w reconciler_state" where
  "publish mapping arts ver epoch s =
     (case SetFromRecomputeArtifactsIfVersion (s_DesiredStateCache s) mapping arts ver epoch of
        (c, committed, _, _) \<Rightarrow> (committed, s\<lparr>s_DesiredStateCache := c\<rparr>))"

text \<open>After a refused publication: one more recomputation with new fences.\<close>

definition retry_publish :: "matcher \<Rightarrow> 'w MappingReconciler \<Rightarrow> NamespacedName \<Rightarrow> PodASGMapping \<Rightarrow> string \<Rightarrow> gotime \<Rightarrow> 'w reconciler_state \<Rightarrow>
    (reconcile_exit + resolved) \<times> 'w reconciler_state" where
  "retry_publish M r key mapping ownershipKey reconcileStart s =
     (case GetWithVersion (s_DesiredStateCache s) mapping of
        (_, retryVer, retryEpoch, _) \<Rightarrow>
          (case mappingStillCurrent r key (m_UID mapping) (m_Generation mapping) s of
             (Inr True, s) \<Rightarrow>
               (case list_and_recompute M r key mapping ownershipKey s of
                  (Inl x, s) \<Rightarrow> (Inl x, s)
                | (Inr retryArts, s) \<Rightarrow>
                    (case publish mapping retryArts retryVer retryEpoch s of
                       (True, s) \<Rightarrow> (Inr (resolved_arts retryArts), markDesiredStateFullRecompute key (m_Generation mapping) reconcileStart s)
                     | (False, s) \<Rightarrow> (Inl (conflict_exit r), s)))
           | (_, s) \<Rightarrow> (Inl (conflict_exit r), s)))"

definition recompute_desired :: "matcher \<Rightarrow> 'w MappingReconciler \<Rightarrow> NamespacedName \<Rightarrow> PodASGMapping \<Rightarrow> string \<Rightarrow> gotime \<Rightarrow> bool \<Rightarrow>
    64 word \<Rightarrow> 64 word \<Rightarrow> 'w reconciler_state \<Rightarrow> (reconcile_exit + resolved) \<times> 'w reconciler_state" where
  "recompute_desired M r key mapping ownershipKey reconcileStart forcedResync ver epoch s =
     (case list_and_recompute M r key mapping ownershipKey s of
        (Inl x, s) \<Rightarrow> (Inl x, s)
      | (Inr arts, s) \<Rightarrow>
          if r_hasCache r then
            (case mappingStillCurrent r key (m_UID mapping) (m_Generation mapping) s of
               (Inr True, s) \<Rightarrow>
                 (case publish mapping arts ver epoch s of
                    (True, s) \<Rightarrow> (Inr (resolved_arts arts), markDesiredStateFullRecompute key (m_Generation mapping) reconcileStart s)
                  | (False, s) \<Rightarrow>
                      (case (forcedResync, Get (s_DesiredStateCache s) mapping) of
                         (False, (cached, True)) \<Rightarrow> (Inr (resolved_cached cached), s)
                       | _ \<Rightarrow> retry_publish M r key mapping ownershipKey reconcileStart s))
             | (_, s) \<Rightarrow> (Inl (conflict_exit r), s))
          else (Inr (resolved_arts arts), markDesiredStateFullRecompute key (m_Generation mapping) reconcileStart s))"

definition resolve_desired :: "matcher \<Rightarrow> 'w MappingReconciler \<Rightarrow> NamespacedName \<Rightarrow> PodASGMapping \<Rightarrow> string \<Rightarrow> gotime \<Rightarrow> 'w reconciler_state \<Rightarrow>
    (reconcile_exit + resolved) \<times> 'w reconciler_state" where
  "resolve_desired M r key mapping ownershipKey reconcileStart s =
     (if r_hasCache r then
        (let forcedResync = shouldForceDesiredStateRecompute r key (m_Generation mapping) reconcileStart s in
         case GetWithVersion (s_DesiredStateCache s) mapping of
           (cached, ver, epoch, ok) \<Rightarrow>
             if \<not> forcedResync \<and> ok then (Inr (resolved_cached cached), s)
             else recompute_desired M r key mapping ownershipKey reconcileStart forcedResync ver epoch s)
      else recompute_desired M r key mapping ownershipKey reconcileStart False 0 0 s)"

section \<open>Applying the desired state\<close>

text \<open>Filtering, adding the owned targets, and the actions.\<close>

definition nonempty_desired :: "desired_state \<Rightarrow> desired_state" where
  "nonempty_desired desired = filter (\<lambda>(target, ips). ips \<noteq> []) desired"

definition all_targets :: "desired_state \<Rightarrow> ASGTarget goset \<Rightarrow> ASGTarget goset" where
  "all_targets desired ownedTargets = fold sadd ownedTargets (set_of_slice (gkeys desired))"

definition add_owned_actual :: "desired_state \<Rightarrow> ASGTarget goset \<Rightarrow> actual_state \<Rightarrow> actual_state" where
  "add_owned_actual desired ownedTargets actual =
     fold (\<lambda>t actual. if gget desired t = None \<and> gget actual t = None then gput t [] actual else actual) ownedTargets actual"

text \<open>Storing the owned references when they changed; the mapping becomes the server's answer.\<close>

definition patch_owned :: "'w MappingReconciler \<Rightarrow> PodASGMapping \<Rightarrow> owned_refs \<Rightarrow> owned_refs \<Rightarrow> 'w reconciler_state \<Rightarrow>
    goerror option \<times> PodASGMapping \<times> 'w reconciler_state" where
  "patch_owned r mapping existing updated s =
     (if ownershipAnnotationChanged existing updated then
        (case external r (kc_Patch (r_Client r) mapping (StoreOwnedASGs mapping updated)) s of
           (Inl err, s) \<Rightarrow> (Some err, StoreOwnedASGs mapping updated, s)
         | (Inr mapping, s) \<Rightarrow> (None, mapping, s))
      else (None, mapping, s))"

record planned =
  pl_mapping :: PodASGMapping
  pl_desired :: desired_state
  pl_allTargets :: "ASGTarget goset"
  pl_actions :: "Action list"
  pl_preRefs :: owned_refs

text \<open>Everything before the execution of the actions.\<close>

definition prepare :: "'w MappingReconciler \<Rightarrow> NamespacedName \<Rightarrow> PodASGMapping \<Rightarrow> string \<Rightarrow> resolved \<Rightarrow> 'w reconciler_state \<Rightarrow>
    ((reconcile_exit + planned) \<times> 'w reconciler_state) option" where
  "prepare r key mapping ownershipKey rv s =
     (let desired = nonempty_desired (rv_desired rv);
          fail = (\<lambda>mapping err s. case finalizeSystemError r key (Some mapping) ownershipKey (rv_matchedPodsByIndex rv) err True [] s of
            (x, s) \<Rightarrow> Some (Inl x, s)) in
      case LoadOwnedASGs mapping of
        Inl err \<Rightarrow> fail mapping err s
      | Inr ownedRefs \<Rightarrow>
          (let ownedTargets = TargetsFromOwnedASGs ownedRefs ownershipKey;
               allTargets = all_targets desired ownedTargets
           in case listActualForTargets r allTargets (s_world s) of
                None \<Rightarrow> None
              | Some (read, w) \<Rightarrow>
                  (case external r (\<lambda>_. (read, w)) s of
                     (Inl err, s) \<Rightarrow> fail mapping err s
                   | (Inr actual, s) \<Rightarrow>
                       (let actual = add_owned_actual desired ownedTargets actual;
                            actions = ComputeDiff desired actual (r_PatchThresholdPercent r);
                            preRefs = UpdateOwnedASGsAfterResults ownedRefs desired []
                        in case patch_owned r mapping ownedRefs preRefs s of
                             (Some err, mapping, s) \<Rightarrow> fail mapping err s
                           | (None, mapping, s) \<Rightarrow>
                               Some (Inr \<lparr>pl_mapping = mapping, pl_desired = desired, pl_allTargets = allTargets, pl_actions = actions,
                                 pl_preRefs = preRefs\<rparr>, s)))))"

text \<open>The requeue decision after a status that was written.\<close>

definition decide_exit :: "'w MappingReconciler \<Rightarrow> NamespacedName \<Rightarrow> PodASGMapping \<Rightarrow> resolved \<Rightarrow> planned \<Rightarrow> ActionResult list \<Rightarrow> 'w reconciler_state \<Rightarrow>
    reconcile_exit \<times> 'w reconciler_state" where
  "decide_exit r key mapping rv p results s =
     (if aggregateActionFailures results \<noteq> None then
        (let summary = ClassifyActionResults results;
             stage = (if afs_NonRetriableCount summary + afs_RetriableCount summary = int (length results)
                      then ReconcileStageActionAllFailure else ReconcileStageActionMixedFailure)
         in (exit_at (DecideRequeueFromActionSummary summary (DefaultRequeuePolicy (r_ResyncInterval r))) stage, s))
      else
        let promptWindow = promptFollowUpWindow (r_ResyncInterval r);
            inWindow = withinPromptFollowUpWindow (m_CreationTimestamp mapping) promptWindow (now r s)
        in if pl_allTargets p = [] \<and> (rv_hasPendingIPPods rv \<and> inWindow \<or> inWindow)
           then (exit_at (requeue_after (promptRequeueAfter (r_ResyncInterval r))) ReconcileStageSteadyStateSuccess, s)
           else (exit_at (requeue_after (r_ResyncInterval r)) ReconcileStageSteadyStateSuccess,
                 markReconcileSuccess r key (m_Generation mapping) (now r s) s))"

text \<open>A status call in the loop: \<open>Inl\<close> is the exit for an object that is gone or newer.\<close>

definition status_call :: "'w MappingReconciler \<Rightarrow> NamespacedName \<Rightarrow> ('w MappingStatusUpdater \<Rightarrow> 'w \<Rightarrow> goerror option \<times> 'w) \<Rightarrow> 'w reconciler_state \<Rightarrow>
    (reconcile_exit + goerror option) \<times> 'w reconciler_state" where
  "status_call r key f s =
     (case r_StatusUpdater r of
        None \<Rightarrow> (Inr None, s)
      | Some u \<Rightarrow>
          (case external r (f u) s of
             (None, s) \<Rightarrow> (Inr None, s)
           | (Some err, s) \<Rightarrow>
               if errors_Is err ErrStatusObjectNotFound
               then (Inl (exit_at result_zero ReconcileStageStatusSentinelTerminal), cleanupPerMappingMetricState key (drop_cached r key s))
               else if errors_Is err ErrStatusStaleGeneration
               then (Inl (exit_at result_zero ReconcileStageStatusSentinelTerminal), s)
               else (Inr (Some err), s)))"

definition finish :: "'w MappingReconciler \<Rightarrow> NamespacedName \<Rightarrow> string \<Rightarrow> resolved \<Rightarrow> planned \<Rightarrow> ActionResult list \<Rightarrow> 'w reconciler_state \<Rightarrow>
    reconcile_exit \<times> 'w reconciler_state" where
  "finish r key ownershipKey rv p results s =
     (let postRefs = UpdateOwnedASGsAfterResults (pl_preRefs p) (pl_desired p) results in
      case (if results = [] then (None, pl_mapping p, s) else patch_owned r (pl_mapping p) (pl_preRefs p) postRefs s) of
        (Some err, mapping, s) \<Rightarrow> finalizeSystemError r key (Some mapping) ownershipKey (rv_matchedPodsByIndex rv) err True results s
      | (None, mapping, s) \<Rightarrow>
          (case status_call r key (\<lambda>u. UpdateAfterReconcile u (status_args key mapping ownershipKey results (aggregateActionFailures results) []
                  (rv_matchedPodsByIndex rv))) s of
             (Inl x, s) \<Rightarrow> (x, s)
           | (Inr (Some statusErr), s) \<Rightarrow>
               (case finalizeStatusWriteError r statusErr of (res, err) \<Rightarrow> ((res, err, Some ReconcileStageStatusWriteError), s))
           | (Inr None, s) \<Rightarrow> decide_exit r key mapping rv p results s))"

definition apply_desired :: "'w MappingReconciler \<Rightarrow> NamespacedName \<Rightarrow> PodASGMapping \<Rightarrow> string \<Rightarrow> resolved \<Rightarrow> 'w reconciler_state \<Rightarrow>
    (reconcile_exit \<times> 'w reconciler_state) option" where
  "apply_desired r key mapping ownershipKey rv s =
     (case prepare r key mapping ownershipKey rv s of
        None \<Rightarrow> None
      | Some (Inl x, s) \<Rightarrow> Some (x, s)
      | Some (Inr p, s) \<Rightarrow>
          (case (if pl_actions p = [] then ([], s) else external r (r_Executor r (pl_actions p)) s) of
             (results, s) \<Rightarrow> Some (finish r key ownershipKey rv p results s)))"

section \<open>\<open>Reconcile\<close>\<close>

definition reconcile_deleted :: "'w MappingReconciler \<Rightarrow> NamespacedName \<Rightarrow> PodASGMapping \<Rightarrow> string \<Rightarrow> 'w reconciler_state \<Rightarrow>
    reconcile_exit \<times> 'w reconciler_state" where
  "reconcile_deleted r key mapping ownershipKey s =
     (if CleanupFinalizer \<in> set (m_Finalizers mapping) then
        (case external r (reconcileDelete r mapping ownershipKey) (drop_cached r key s) of
           (Some err, s) \<Rightarrow> finalizeSystemError r key (Some mapping) ownershipKey [] err False [] s
         | (None, s) \<Rightarrow>
             (let mapping' = mapping\<lparr>m_Finalizers := removeAll CleanupFinalizer (m_Finalizers mapping)\<rparr> in
              case external r (kc_Patch (r_Client r) mapping mapping') s of
                (Inl err, s) \<Rightarrow> finalizeSystemError r key (Some mapping') ownershipKey [] err False [] s
              | (Inr _, s) \<Rightarrow> (exit_at result_zero ReconcileStageDeleteComplete, cleanupPerMappingMetricState key s)))
      else (exit_at result_zero ReconcileStageDeleteComplete, drop_cached r key (cleanupPerMappingMetricState key s)))"

definition reconcile_invalid :: "matcher \<Rightarrow> 'w MappingReconciler \<Rightarrow> NamespacedName \<Rightarrow> PodASGMapping \<Rightarrow> string \<Rightarrow> ValidationIssue list \<Rightarrow>
    'w reconciler_state \<Rightarrow> reconcile_exit \<times> 'w reconciler_state" where
  "reconcile_invalid M r key mapping ownershipKey issues s =
     (case external r (kc_ListPods (r_Client r) (m_Namespace mapping)) s of
        (Inl err, s) \<Rightarrow> finalizeSystemError r key (Some mapping) ownershipKey [] err True [] s
      | (Inr pods, s) \<Rightarrow>
          (case status_call r key (\<lambda>u. UpdateAfterReconcile u (status_args key mapping ownershipKey [] (aggregateValidationErrors issues) issues
                  (ComputeMatchedPodsByMapping M (m_Spec mapping) pods))) s of
             (Inl x, s) \<Rightarrow> (x, s)
           | (Inr _, s) \<Rightarrow> (exit_at result_zero ReconcileStageValidationTerminal, clearDesiredStateResyncState key (drop_cached r key s))))"

text \<open>From the resolved state on: the freshness gate, the pending status, and the rest.\<close>

definition reconcile_resolved :: "'w MappingReconciler \<Rightarrow> NamespacedName \<Rightarrow> PodASGMapping \<Rightarrow> string \<Rightarrow> resolved \<Rightarrow> 'w reconciler_state \<Rightarrow>
    (reconcile_exit \<times> 'w reconciler_state) option" where
  "reconcile_resolved r key mapping ownershipKey rv s =
     (case (if r_hasCache r then mappingStillCurrent r key (m_UID mapping) (m_Generation mapping) s else (Inr True, s)) of
        (Inr True, s) \<Rightarrow>
          (case status_call r key (\<lambda>u. UpdatePending u key (m_Generation mapping) ownershipKey (rv_matchedPodsByIndex rv)) s of
             (Inl x, s) \<Rightarrow> Some (x, s)
           | (Inr _, s) \<Rightarrow> apply_desired r key mapping ownershipKey rv s)
      | (_, s) \<Rightarrow> Some (conflict_exit r, s))"

definition reconcile_live :: "matcher \<Rightarrow> 'w MappingReconciler \<Rightarrow> NamespacedName \<Rightarrow> PodASGMapping \<Rightarrow> string \<Rightarrow> gotime \<Rightarrow> 'w reconciler_state \<Rightarrow>
    (reconcile_exit \<times> 'w reconciler_state) option" where
  "reconcile_live M r key mapping ownershipKey reconcileStart s =
     (case ensureFinalizer r mapping s of
        (Inl err, mapping, s) \<Rightarrow> Some (finalizeSystemError r key (Some mapping) ownershipKey [] err False [] s)
      | (Inr True, mapping, s) \<Rightarrow> Some (exit_at \<lparr>res_Requeue = True, res_RequeueAfter = 0\<rparr> ReconcileStageFinalizerAddEarlyReturn, s)
      | (Inr False, mapping, s) \<Rightarrow>
          (case debounceRemaining r key (m_Generation mapping) reconcileStart s of
             (remaining, True) \<Rightarrow> Some (exit_at (requeue_after remaining) ReconcileStageDebounced, s)
           | (_, False) \<Rightarrow>
               (let issues = validateASGResourceIDs (m_Mappings mapping) in
                if issues \<noteq> [] then Some (reconcile_invalid M r key mapping ownershipKey issues s)
                else (case resolve_desired M r key mapping ownershipKey reconcileStart s of
                        (Inl x, s) \<Rightarrow> Some (x, s)
                      | (Inr rv, s) \<Rightarrow> reconcile_resolved r key mapping ownershipKey rv s))))"

definition Reconcile :: "matcher \<Rightarrow> 'w MappingReconciler \<Rightarrow> NamespacedName \<Rightarrow> 'w reconciler_state \<Rightarrow>
    (reconcile_exit \<times> 'w reconciler_state) option" where
  "Reconcile M r key s =
     (let reconcileStart = now r s in
      case external r (kc_Get (r_Client r) key) s of
        (Inl err, s) \<Rightarrow>
          if api_IsNotFound err then
            Some (exit_at result_zero ReconcileStageMappingNotFound,
              clearDesiredStateResyncState key (drop_cached r key (cleanupPerMappingMetricState key s)))
          else Some (finalizeSystemError r key None [] [] err False [] s)
      | (Inr mapping, s) \<Rightarrow>
          (let ownershipKey = OwnershipKey (r_ClusterName r) (m_Namespace mapping) (m_Name mapping) in
           if m_DeletionTimestamp mapping \<noteq> None then Some (reconcile_deleted r key mapping ownershipKey s)
           else reconcile_live M r key mapping ownershipKey reconcileStart s))"

end
