(* ===== verification/Reconcile_Azure.thy ===== *)
theory Reconcile_Azure
  imports Reconciler
begin

text \<open>
  What the reconciler does to Azure: the cleanup of a deleted mapping, the reading of the actual
  state, and the convergence of a whole reconcile, over any client with the contract
  \<open>prefix_set_service\<close>.
\<close>

section \<open>Cleanup of a deleted mapping\<close>

text \<open>The resources of a target whose prefix set has the ownership key for a name, up to case.\<close>

definition owned_resources :: "string \<Rightarrow> ASGTarget \<Rightarrow> resource set" where
  "owned_resources ownershipKey t =
     {(tgt_SubscriptionID t, tgt_ResourceGroup t, tgt_ASGName t, name) | name. EqualFold name ownershipKey}"

context prefix_set_service
begin

text \<open>Going from \<open>w\<close> to \<open>w'\<close>, prefix sets are only deleted, and only those of \<open>R\<close>.\<close>

definition only_deletes :: "resource set \<Rightarrow> 'a \<Rightarrow> 'a \<Rightarrow> bool" where
  "only_deletes R w w' \<longleftrightarrow> invar w' \<and> (\<forall>k. stored w' k = stored w k \<or> stored w' k = None \<and> k \<in> ident ` R)"

lemma only_deletes_refl: "invar w \<Longrightarrow> only_deletes R w w"
  by (simp add: only_deletes_def)

lemma only_deletes_trans: "only_deletes R w w1 \<Longrightarrow> only_deletes R w1 w2 \<Longrightarrow> only_deletes R w w2"
  unfolding only_deletes_def by metis

lemma only_deletes_mono: "only_deletes R w w' \<Longrightarrow> R \<subseteq> R' \<Longrightarrow> only_deletes R' w w'"
  unfolding only_deletes_def by blast

lemma only_deletes_None: "only_deletes R w w' \<Longrightarrow> stored w k = None \<Longrightarrow> stored w' k = None"
  unfolding only_deletes_def by metis

lemma delete_prefix_set_step:
  assumes "invar w" and "delete_prefix_set api t ok ps (errs, w) = (errs', w')"
  shows "only_deletes (owned_resources ok t) w w'" and "\<exists>es. errs' = errs @ es"
    and "errs' = [] \<Longrightarrow> aps_Name ps = Some n \<Longrightarrow> EqualFold n ok \<Longrightarrow>
      stored w' (ident (tgt_SubscriptionID t, tgt_ResourceGroup t, tgt_ASGName t, n)) = None"
proof -
  have "only_deletes (owned_resources ok t) w w' \<and> (\<exists>es. errs' = errs @ es) \<and>
    (errs' = [] \<longrightarrow> (\<forall>n. aps_Name ps = Some n \<longrightarrow> EqualFold n ok \<longrightarrow>
      stored w' (ident (tgt_SubscriptionID t, tgt_ResourceGroup t, tgt_ASGName t, n)) = None))"
  proof (cases "PrefixSetNameEqualsOwnership ps ok")
    case False
    then have "errs' = errs" "w' = w" using assms(2) by (auto simp: delete_prefix_set_def split: option.splits)
    then show ?thesis using assms(1) False by (auto simp: only_deletes_refl PrefixSetNameEqualsOwnership_def)
  next
    case True
    then obtain name where n: "aps_Name ps = Some name" "EqualFold name ok" by (auto simp: PrefixSetNameEqualsOwnership_def split: option.splits)
    let ?r = "(tgt_SubscriptionID t, tgt_ResourceGroup t, tgt_ASGName t, name)"
    obtain res w1 where d: "api_Delete api ?r w = (res, w1)" by (cases "api_Delete api ?r w")
    have w1: "w' = w1" "errs' = errs @ (case res of Some e \<Rightarrow> if IsNotFound e then [] else
        [\<lparr>dce_Target = t, dce_Op = ''delete'', dce_PrefixSetName = name, dce_Err = e\<rparr>] | None \<Rightarrow> [])"
      using assms(2) True n(1) d by (auto simp: delete_prefix_set_def split: option.splits if_splits)
    have r: "?r \<in> owned_resources ok t" using n(2) by (simp add: owned_resources_def)
    have st: "invar w1" "stored w1 = (if res = None then (stored w)(ident ?r := None) else stored w)"
      using delete_invar [OF assms(1), of ?r] delete_stored [OF assms(1), of ?r] d by auto
    have gone: "stored w1 (ident ?r) = None" if "errs' = []"
      using st(2) w1(2) that delete_absent [OF assms(1), of ?r] d by (cases res) (auto split: if_splits)
    have "only_deletes (owned_resources ok t) w w'" using st r w1(1) by (auto simp: only_deletes_def)
    then show ?thesis using w1 gone n(1) by auto
  qed
  then show "only_deletes (owned_resources ok t) w w'" "\<exists>es. errs' = errs @ es" "errs' = [] \<Longrightarrow> aps_Name ps = Some n \<Longrightarrow> EqualFold n ok \<Longrightarrow>
      stored w' (ident (tgt_SubscriptionID t, tgt_ResourceGroup t, tgt_ASGName t, n)) = None" by blast+
qed

lemma delete_prefix_sets_fold:
  assumes "invar w" and "fold (delete_prefix_set api t ok) sets (errs, w) = (errs', w')"
  shows "only_deletes (owned_resources ok t) w w' \<and> (\<exists>es. errs' = errs @ es) \<and>
    (errs' = [] \<longrightarrow> (\<forall>ps \<in> set sets. \<forall>n. aps_Name ps = Some n \<longrightarrow> EqualFold n ok \<longrightarrow>
      stored w' (ident (tgt_SubscriptionID t, tgt_ResourceGroup t, tgt_ASGName t, n)) = None))"
  using assms
proof (induction sets arbitrary: errs w)
  case (Cons ps sets)
  obtain errs1 w1 where s: "delete_prefix_set api t ok ps (errs, w) = (errs1, w1)" by (cases "delete_prefix_set api t ok ps (errs, w)")
  note step = delete_prefix_set_step [OF Cons.prems(1) s]
  have "invar w1" using step(1) by (simp add: only_deletes_def)
  from Cons.IH [OF this, of errs1] have IH: "only_deletes (owned_resources ok t) w1 w'" "\<exists>es. errs' = errs1 @ es"
    "errs' = [] \<Longrightarrow> \<forall>ps \<in> set sets. \<forall>n. aps_Name ps = Some n \<longrightarrow> EqualFold n ok \<longrightarrow>
      stored w' (ident (tgt_SubscriptionID t, tgt_ResourceGroup t, tgt_ASGName t, n)) = None"
    using Cons.prems(2) s by auto
  have "stored w' (ident (tgt_SubscriptionID t, tgt_ResourceGroup t, tgt_ASGName t, n)) = None"
    if "errs' = []" "aps_Name ps = Some n" "EqualFold n ok" for n
    using step(3) [of n] that IH(2) only_deletes_None [OF IH(1)] by auto
  then show ?case using IH step(2) only_deletes_trans [OF step(1) IH(1)] by auto
qed (simp add: only_deletes_refl)

lemma delete_target_step:
  assumes "invar w" and "\<And>sub. r_PrefixSetFactory r sub = Inr api" and "delete_target r ok t (errs, w) = (errs', w')"
  shows "only_deletes (owned_resources ok t) w w'" and "\<exists>es. errs' = errs @ es"
    and "errs' = [] \<Longrightarrow> stored w' (ident (tgt_SubscriptionID t, tgt_ResourceGroup t, tgt_ASGName t, ok)) = None"
proof -
  let ?g = "(tgt_SubscriptionID t, tgt_ResourceGroup t, tgt_ASGName t)"
  let ?r = "(tgt_SubscriptionID t, tgt_ResourceGroup t, tgt_ASGName t, ok)"
  obtain res w1 where l: "api_List api ?g w = (res, w1)" by (cases "api_List api ?g w")
  have k: "invar w1" "stored w1 = stored w" using list_keeps [OF assms(1), of ?g] l by auto
  have w1: "only_deletes R w w1" for R using k by (simp add: only_deletes_def)
  have "only_deletes (owned_resources ok t) w w' \<and> (\<exists>es. errs' = errs @ es) \<and> (errs' = [] \<longrightarrow> stored w' (ident ?r) = None)"
  proof (cases res)
    case (Inl e)
    then show ?thesis using assms(2,3) l w1 by (auto simp: delete_target_def)
  next
    case (Inr sets)
    then have f: "fold (delete_prefix_set api t ok) sets (errs, w1) = (errs', w')" using assms(2,3) l by (auto simp: delete_target_def)
    note d = delete_prefix_sets_fold [OF k(1) f]
    have "stored w' (ident ?r) = None" if "errs' = []"
    proof (cases "stored w1 (ident ?r)")
      case None
      then show ?thesis using d only_deletes_None by blast
    next
      case (Some v)
      then have "stored w (ident ?r) \<noteq> None" using k(2) by simp
      then obtain s n where "s \<in> set sets" "aps_Name s = Some n" "EqualFold n ok"
        "ident (tgt_SubscriptionID t, tgt_ResourceGroup t, tgt_ASGName t, n) = ident ?r"
        using list_complete [OF assms(1), of "tgt_SubscriptionID t" "tgt_ResourceGroup t" "tgt_ASGName t" sets ok] l Inr by auto
      then show ?thesis using d that by metis
    qed
    then show ?thesis using d only_deletes_trans [OF w1] by blast
  qed
  then show "only_deletes (owned_resources ok t) w w'" "\<exists>es. errs' = errs @ es" "errs' = [] \<Longrightarrow> stored w' (ident ?r) = None" by blast+
qed

lemma delete_targets_fold:
  assumes "invar w" and "\<And>sub. r_PrefixSetFactory r sub = Inr api" and "fold (delete_target r ok) ts (errs, w) = (errs', w')"
  shows "only_deletes (\<Union> (owned_resources ok ` set ts)) w w' \<and> (\<exists>es. errs' = errs @ es) \<and> (errs' = [] \<longrightarrow>
    (\<forall>t \<in> set ts. stored w' (ident (tgt_SubscriptionID t, tgt_ResourceGroup t, tgt_ASGName t, ok)) = None))"
  using assms(1,3)
proof (induction ts arbitrary: errs w)
  case (Cons t ts)
  let ?R = "\<Union> (owned_resources ok ` set (t # ts))"
  obtain errs1 w1 where s: "delete_target r ok t (errs, w) = (errs1, w1)" by (cases "delete_target r ok t (errs, w)")
  note step = delete_target_step [OF Cons.prems(1) assms(2) s]
  have "invar w1" using step(1) by (simp add: only_deletes_def)
  from Cons.IH [OF this, of errs1] have IH: "only_deletes (\<Union> (owned_resources ok ` set ts)) w1 w'" "\<exists>es. errs' = errs1 @ es"
    "errs' = [] \<Longrightarrow> \<forall>t \<in> set ts. stored w' (ident (tgt_SubscriptionID t, tgt_ResourceGroup t, tgt_ASGName t, ok)) = None"
    using Cons.prems(2) s by auto
  have "only_deletes ?R w w1" by (rule only_deletes_mono [OF step(1)]) auto
  moreover have "only_deletes ?R w1 w'" by (rule only_deletes_mono [OF IH(1)]) auto
  ultimately have "only_deletes ?R w w'" by (rule only_deletes_trans)
  moreover have "stored w' (ident (tgt_SubscriptionID t, tgt_ResourceGroup t, tgt_ASGName t, ok)) = None" if "errs' = []"
    using step(3) that IH(2) only_deletes_None [OF IH(1)] by auto
  ultimately show ?case using IH step(2) by auto
qed (simp add: only_deletes_refl)

lemma reconcileDelete_clean:
  assumes "invar w" and "\<And>sub. r_PrefixSetFactory r sub = Inr api" and "\<And>ts. set (r_order r ts) = set ts"
    and "LoadOwnedASGs m = Inr owned" and "reconcileDelete r m ok w = (res, w')"
  shows "invar w'" and "stored w' k = stored w k \<or> stored w' k = None \<and> k \<in> ident ` (\<Union> (owned_resources ok ` set (delete_candidates m ok owned)))"
    and "res = None \<Longrightarrow> t \<in> set (delete_candidates m ok owned) \<Longrightarrow>
      stored w' (ident (tgt_SubscriptionID t, tgt_ResourceGroup t, tgt_ASGName t, ok)) = None"
proof -
  obtain errs w1 where f: "fold (delete_target r ok) (r_order r (delete_candidates m ok owned)) ([], w) = (errs, w1)"
    by (cases "fold (delete_target r ok) (r_order r (delete_candidates m ok owned)) ([], w)")
  have res: "w' = w1" "res = aggregateDeleteCleanupErrors errs" using assms(4,5) f by (auto simp: reconcileDelete_def)
  note d = delete_targets_fold [OF assms(1,2) f, unfolded assms(3)]
  show "invar w'" "stored w' k = stored w k \<or> stored w' k = None \<and> k \<in> ident ` (\<Union> (owned_resources ok ` set (delete_candidates m ok owned)))"
    using d res(1) by (auto simp: only_deletes_def)
  show "stored w' (ident (tgt_SubscriptionID t, tgt_ResourceGroup t, tgt_ASGName t, ok)) = None"
    if "res = None" "t \<in> set (delete_candidates m ok owned)"
    using that d res by (auto simp: aggregateDeleteCleanupErrors_def split: if_splits)
qed

subsection \<open>Reading the actual state\<close>

lemma resolve_clients:
  assumes "\<And>sub. factory sub = Inr api" and "\<forall>sub. gget clients sub = None \<or> gget clients sub = Some api"
  shows "\<exists>clients'. fold (resolve_client factory all) ts (clients, [], []) = (clients', [], []) \<and>
    (\<forall>t \<in> set ts. gget clients' (tgt_SubscriptionID t) = Some api) \<and> (\<forall>sub. gget clients sub = Some api \<longrightarrow> gget clients' sub = Some api)"
  using assms(2)
proof (induction ts arbitrary: clients)
  case (Cons t ts)
  let ?c = "if gget clients (tgt_SubscriptionID t) = None then gput (tgt_SubscriptionID t) api clients else clients"
  have step: "resolve_client factory all t (clients, [], []) = (?c, [], [])" by (simp add: resolve_client_def assms(1) Let_def)
  have "\<forall>sub. gget ?c sub = None \<or> gget ?c sub = Some api" "gget ?c (tgt_SubscriptionID t) = Some api"
    "\<forall>sub. gget clients sub = Some api \<longrightarrow> gget ?c sub = Some api"
    using Cons.prems by (simp_all split: if_splits) (metis option.distinct(1) option.exhaust)+
  then show ?case using Cons.IH [of ?c] step by auto
qed simp

text \<open>What the goroutines have read so far.\<close>

definition reads_ok :: "'a \<Rightarrow> ASGTarget set \<Rightarrow> actual_state \<Rightarrow> listActualTargetError list \<Rightarrow> 'a \<Rightarrow> bool" where
  "reads_ok w0 T actual errs w \<longleftrightarrow> invar w \<and> stored w = stored w0 \<and> wf_state actual \<and> set (gkeys actual) \<subseteq> T \<and>
     (errs = [] \<longrightarrow> (\<forall>t \<in> T. map_option set (gget actual t) = stored w0 (ident (target_resource t))))"

lemma read_target_step:
  assumes "reads_ok w0 T actual errs w" and "gget clients (tgt_SubscriptionID t) = Some api" and "t \<notin> T"
  obtains actual' errs' w' where "read_target r clients t (Some (actual, errs, w)) = Some (actual', errs', w')" and "\<exists>es. errs' = errs @ es"
    and "reads_ok w0 (insert t T) actual' errs' w'"
proof -
  have ok: "invar w" "stored w = stored w0" "wf_state actual" "set (gkeys actual) \<subseteq> T"
    "errs = [] \<Longrightarrow> \<forall>t \<in> T. map_option set (gget actual t) = stored w0 (ident (target_resource t))"
    using assms(1) by (auto simp: reads_ok_def)
  have t: "gget actual t = None" using ok(4) assms(3) by (auto simp: gget_None_iff)
  show thesis
  proof (cases "r_semaphore r t w")
    case (Some cerr)
    show thesis by (rule that [of actual "errs @ [(t, Wrapped ''context canceled waiting for semaphore'' cerr)]" w])
      (use Some assms ok in \<open>auto simp: read_target_def reads_ok_def\<close>)
  next
    case None
    obtain got w1 where g: "api_Get api (target_resource t) w = (got, w1)" by (cases "api_Get api (target_resource t) w")
    have k: "invar w1" "stored w1 = stored w0" using get_keeps [OF ok(1), of "target_resource t"] g ok(2) by auto
    consider (err) e where "got = Inl e" "\<not> IsNotFound e" | (absent) e where "got = Inl e" "IsNotFound e" | (some) ps where "got = Inr (Some ps)"
      using get_not_nil [OF ok(1), of "target_resource t"] g by (metis fst_conv obj_sumE option.exhaust)
    then show thesis
    proof cases
      case err
      show thesis by (rule that [of actual "errs @ [(t, e)]" w1]) (use None assms ok k g err in \<open>auto simp: read_target_def reads_ok_def\<close>)
    next
      case absent
      have "stored w0 (ident (target_resource t)) = None" using get_absent [OF ok(1), of "target_resource t" e] g absent ok(2) by simp
      then show thesis by (intro that [of actual errs w1]) (use None assms ok k g absent t in \<open>auto simp: read_target_def reads_ok_def\<close>)
    next
      case some
      let ?a = "gput t (set_of_slice (prefixes_of ps)) actual"
      have v: "stored w0 (ident (target_resource t)) = Some (set (prefixes_of ps))"
        using get_value [OF ok(1), of "target_resource t" "Some ps"] g some ok(2) by simp
      have "wf_state ?a" using ok(3) gput_Ball [of actual "\<lambda>(t, ips). distinct ips" t "set_of_slice (prefixes_of ps)"]
        by (simp add: wf_state_def)
      moreover have "set (gkeys ?a) \<subseteq> insert t T" using ok(4) gkeys_gput_set [of t "set_of_slice (prefixes_of ps)" actual] by auto
      ultimately show thesis
        by (intro that [of ?a errs w1]) (use None assms ok(5) k g some v in \<open>auto simp: read_target_def reads_ok_def\<close>)
    qed
  qed
qed

lemma read_targets_fold:
  assumes "reads_ok w0 T actual errs w" and "\<forall>t \<in> set ts. gget clients (tgt_SubscriptionID t) = Some api" and "distinct ts" and "set ts \<inter> T = {}"
  shows "\<exists>actual' errs' w'. fold (read_target r clients) ts (Some (actual, errs, w)) = Some (actual', errs', w') \<and> (\<exists>es. errs' = errs @ es) \<and>
    reads_ok w0 (set ts \<union> T) actual' errs' w'"
  using assms
proof (induction ts arbitrary: T actual errs w)
  case (Cons t ts)
  obtain a1 e1 w1 where s: "read_target r clients t (Some (actual, errs, w)) = Some (a1, e1, w1)" "\<exists>es. e1 = errs @ es"
    "reads_ok w0 (insert t T) a1 e1 w1"
    by (rule read_target_step [OF Cons.prems(1), of clients t r]) (use Cons.prems in auto)
  then show ?case using Cons.IH [OF s(3)] Cons.prems by auto
qed auto

lemma listActual_correct:
  assumes "invar w" and "\<And>sub. r_PrefixSetFactory r sub = Inr api" and "\<And>ts. set (r_order r ts) = set ts \<and> distinct (r_order r ts) = distinct ts"
    and "distinct targets"
  shows "\<exists>res w'. listActualForTargets r targets w = Some (res, w') \<and> invar w' \<and> stored w' = stored w \<and>
    (\<forall>actual. res = Inr actual \<longrightarrow> wf_state actual \<and> set (gkeys actual) \<subseteq> set targets \<and>
      (\<forall>t \<in> set targets. map_option set (gget actual t) = stored w (ident (target_resource t))))"
proof (cases "targets = []")
  case True
  then show ?thesis using assms(1) by (simp add: listActualForTargets_def wf_state_def)
next
  case False
  let ?tl = "sort_key targetKey targets"
  obtain clients where c: "fold (resolve_client (r_PrefixSetFactory r) ?tl) ?tl ([], [], []) = (clients, [], [])"
    "\<forall>t \<in> set ?tl. gget clients (tgt_SubscriptionID t) = Some api" using resolve_clients [of "r_PrefixSetFactory r" "[]" ?tl ?tl] assms(2) by auto
  have "reads_ok w {} [] [] w" using assms(1) by (simp add: reads_ok_def wf_state_def)
  from read_targets_fold [OF this, of "r_order r ?tl" clients r] obtain actual errs w' where
    f: "fold (read_target r clients) (r_order r ?tl) (Some ([], [], w)) = Some (actual, errs, w')"
    and ok: "reads_ok w (set targets) actual errs w'" using c(2) assms(3,4) by auto
  have l: "listActualForTargets r targets w = Some (case aggregateListActualTargetErrors errs of None \<Rightarrow> (Inr actual, w') | Some err \<Rightarrow> (Inl err, w'))"
    using False c(1) f by (simp add: listActualForTargets_def split: option.split)
  show ?thesis
  proof (cases errs)
    case Nil
    then show ?thesis using l ok by (simp add: aggregateListActualTargetErrors_def reads_ok_def)
  next
    case (Cons e es)
    then show ?thesis using l ok by (auto simp: aggregateListActualTargetErrors_def reads_ok_def Let_def)
  qed
qed

end


section \<open>What calls to the API server keep\<close>

text \<open>\<open>Q\<close> is a fact of the outside world that the calls of a client do not change.\<close>

definition kube_keeps :: "'w kube_client \<Rightarrow> ('w \<Rightarrow> bool) \<Rightarrow> bool" where
  "kube_keeps c Q \<longleftrightarrow> (\<forall>w. Q w \<longrightarrow> (\<forall>key. Q (snd (kc_Get c key w))) \<and> (\<forall>m. Q (snd (kc_UpdateStatus c m w))) \<and>
     (\<forall>base m. Q (snd (kc_Patch c base m w))) \<and> (\<forall>ns. Q (snd (kc_ListPods c ns w))))"

definition updater_keeps :: "'w MappingStatusUpdater \<Rightarrow> ('w \<Rightarrow> bool) \<Rightarrow> bool" where
  "updater_keeps u Q \<longleftrightarrow> kube_keeps (su_Client u) Q \<and>
     (\<forall>f. su_convergenceCommitter u = Some f \<longrightarrow> (\<forall>k g rs out e w. Q w \<longrightarrow> Q (f k g rs out e w)))"

definition reconciler_keeps :: "'w MappingReconciler \<Rightarrow> ('w \<Rightarrow> bool) \<Rightarrow> bool" where
  "reconciler_keeps r Q \<longleftrightarrow> kube_keeps (r_Client r) Q \<and> (\<forall>u. r_StatusUpdater r = Some u \<longrightarrow> updater_keeps u Q)"

lemma kube_keeps_calls:
  assumes "kube_keeps c Q" and "Q w"
  shows "kc_Get c key w = (x, w') \<Longrightarrow> Q w'" "kc_UpdateStatus c m w = (e, w') \<Longrightarrow> Q w'"
    "kc_Patch c base m w = (x, w') \<Longrightarrow> Q w'" "kc_ListPods c ns w = (ps, w') \<Longrightarrow> Q w'"
  using assms unfolding kube_keeps_def by (metis snd_conv)+

lemma notify_keeps: "updater_keeps u Q \<Longrightarrow> Q w \<Longrightarrow> Q (notify u a out e w)"
  by (simp add: updater_keeps_def notify_def notifyConvergence_def split: option.split)

lemma pending_loop_keeps:
  assumes "updater_keeps u Q" and "Q w"
  shows "Q (snd (pending_loop n u key gen psn matched e w))"
  using assms(2)
proof (induction n arbitrary: e w)
  case (Suc n)
  have k: "kube_keeps (su_Client u) Q" using assms(1) by (simp add: updater_keeps_def)
  obtain res w1 where g: "kc_Get (su_Client u) key w = (res, w1)" by (cases "kc_Get (su_Client u) key w")
  have w1: "Q w1" using kube_keeps_calls(1) [OF k Suc.prems g] .
  have "Q w2" if "kc_UpdateStatus (su_Client u) m w1 = (x, w2)" for m x w2 using kube_keeps_calls(2) [OF k w1 that] .
  then show ?case using w1 g Suc.IH by (auto simp: Let_def split: sum.splits prod.splits option.splits)
qed simp

lemma final_after_keeps:
  assumes "updater_keeps u Q" and "Q w"
  shows "Q (snd (final_after_loop u a e w))"
proof -
  have k: "kube_keeps (su_Client u) Q" using assms(1) by (simp add: updater_keeps_def)
  obtain res w1 where g: "kc_Get (su_Client u) (fa_key a) w = (res, w1)" by (cases "kc_Get (su_Client u) (fa_key a) w")
  have "Q w1" using kube_keeps_calls(1) [OF k assms(2) g] .
  then show ?thesis using assms g notify_keeps [OF assms(1)] by (auto simp: final_after_loop_def Let_def split: sum.splits option.splits)
qed

lemma final_loop_keeps:
  assumes "updater_keeps u Q" and "Q w"
  shows "Q (snd (final_loop n u a e w))"
  using assms(2)
proof (induction n arbitrary: e w)
  case (Suc n)
  have k: "kube_keeps (su_Client u) Q" using assms(1) by (simp add: updater_keeps_def)
  obtain res w1 where g: "kc_Get (su_Client u) (fa_key a) w = (res, w1)" by (cases "kc_Get (su_Client u) (fa_key a) w")
  have w1: "Q w1" using kube_keeps_calls(1) [OF k Suc.prems g] .
  have "Q w2" if "kc_UpdateStatus (su_Client u) m w1 = (x, w2)" for m x w2 using kube_keeps_calls(2) [OF k w1 that] .
  then show ?case using w1 g Suc.IH final_after_keeps [OF assms(1)] notify_keeps [OF assms(1)]
    by (auto simp: Let_def split: sum.splits prod.splits option.splits)
qed (simp add: final_after_keeps [OF assms(1)])

lemma updates_keep:
  assumes "updater_keeps u Q" and "Q w"
  shows "UpdatePending u key gen psn matched w = (x, w') \<Longrightarrow> Q w'" "UpdateAfterReconcile u a w = (x, w') \<Longrightarrow> Q w'"
  using pending_loop_keeps [OF assms] final_loop_keeps [OF assms] unfolding UpdatePending_def UpdateAfterReconcile_def by (metis snd_conv)+

text \<open>The same for the steps of the reconciler, whose state contains the world.\<close>

lemma external_keeps: "(\<And>x w'. f (s_world s) = (x, w') \<Longrightarrow> Q w') \<Longrightarrow> external r f s = (y, s') \<Longrightarrow> Q (s_world s')"
  by (auto simp: external_def split: prod.splits)

lemma state_updates_world [simp]:
  "s_world (drop_cached r key s) = s_world s" "s_world (cleanupPerMappingMetricState key s) = s_world s"
  "s_world (markReconcileSuccess r key g t s) = s_world s" "s_world (markDesiredStateFullRecompute key g t s) = s_world s"
  "s_world (clearDesiredStateResyncState key s) = s_world s"
  by (simp_all add: drop_cached_def cleanupPerMappingMetricState_def clearDesiredStateResyncState_def clearDebounceState_def
      markReconcileSuccess_def markDesiredStateFullRecompute_def)

lemma finalizeSystemError_keeps:
  assumes "reconciler_keeps r Q" and "Q (s_world s)" and "finalizeSystemError r key m ok matched e allow results s = (x, s')"
  shows "Q (s_world s')"
proof (cases "allow \<and> (\<exists>u m'. r_StatusUpdater r = Some u \<and> m = Some m')")
  case True
  then obtain u m' where u: "r_StatusUpdater r = Some u" "m = Some m'" "allow" by auto
  let ?f = "UpdateAfterReconcile u (status_args key m' ok results (Some e) [] matched)"
  obtain res s1 where c: "external r ?f s = (res, s1)" by (cases "external r ?f s")
  have "updater_keeps u Q" using assms(1) u(1) by (simp add: reconciler_keeps_def)
  from external_keeps [OF updates_keep(2) [OF this assms(2)] c] have "Q (s_world s1)" .
  then show ?thesis using assms(3) u c by (auto simp: finalizeSystemError_def Let_def split: option.splits if_splits prod.splits)
next
  case False
  then show ?thesis using assms(2,3) by (auto simp: finalizeSystemError_def Let_def split: option.splits bool.splits)
qed

lemma status_call_keeps:
  assumes "reconciler_keeps r Q" and "Q (s_world s)" and "\<And>u x w'. updater_keeps u Q \<Longrightarrow> f u (s_world s) = (x, w') \<Longrightarrow> Q w'"
    and "status_call r key f s = (y, s')"
  shows "Q (s_world s')"
proof (cases "r_StatusUpdater r")
  case None
  then show ?thesis using assms(2,4) by (simp add: status_call_def)
next
  case (Some u)
  obtain res s1 where c: "external r (f u) s = (res, s1)" by (cases "external r (f u) s")
  have "updater_keeps u Q" using assms(1) Some by (simp add: reconciler_keeps_def)
  from external_keeps [OF assms(3) [OF this] c] have "Q (s_world s1)" .
  then show ?thesis using assms(4) Some c by (auto simp: status_call_def split: option.splits if_splits)
qed

lemma mappingStillCurrent_keeps:
  assumes "reconciler_keeps r Q" and "Q (s_world s)" and "mappingStillCurrent r key uid g s = (y, s')"
  shows "Q (s_world s')"
proof -
  obtain res s1 where c: "external r (kc_Get (r_Client r) key) s = (res, s1)" by (cases "external r (kc_Get (r_Client r) key) s")
  have "kube_keeps (r_Client r) Q" using assms(1) by (simp add: reconciler_keeps_def)
  from external_keeps [OF kube_keeps_calls(1) [OF this assms(2)] c] have "Q (s_world s1)" .
  then show ?thesis using assms(3) c by (auto simp: mappingStillCurrent_def split: sum.splits if_splits)
qed

lemma patch_owned_keeps:
  assumes "reconciler_keeps r Q" and "Q (s_world s)" and "patch_owned r m old upd s = (e, m', s')"
  shows "Q (s_world s')"
proof -
  let ?f = "kc_Patch (r_Client r) m (StoreOwnedASGs m upd)"
  obtain res s1 where c: "external r ?f s = (res, s1)" by (cases "external r ?f s")
  have "kube_keeps (r_Client r) Q" using assms(1) by (simp add: reconciler_keeps_def)
  from external_keeps [OF kube_keeps_calls(3) [OF this assms(2)] c] have "Q (s_world s1)" .
  then show ?thesis using assms(2,3) c by (auto simp: patch_owned_def split: sum.splits if_splits)
qed

lemma decide_exit_world: "s_world (snd (decide_exit r key m rv p results s)) = s_world s"
  by (simp add: decide_exit_def Let_def)

lemma finish_keeps:
  assumes "reconciler_keeps r Q" and "Q (s_world s)" and "finish r key ok rv p results s = (x, s')"
  shows "Q (s_world s')"
proof -
  let ?post = "UpdateOwnedASGsAfterResults (pl_preRefs p) (pl_desired p) results"
  let ?po = "if results = [] then (None, pl_mapping p, s) else patch_owned r (pl_mapping p) (pl_preRefs p) ?post s"
  obtain e m s1 where po: "?po = (e, m, s1)" by (cases ?po)
  have s1: "Q (s_world s1)" using po assms(2) patch_owned_keeps [OF assms(1,2)] by (metis prod.inject)
  show ?thesis
  proof (cases e)
    case (Some err)
    then show ?thesis using assms(3) po finalizeSystemError_keeps [OF assms(1) s1] by (simp add: finish_def Let_def)
  next
    case None
    let ?f = "\<lambda>u. UpdateAfterReconcile u (status_args key m ok results (aggregateActionFailures results) [] (rv_matchedPodsByIndex rv))"
    obtain y s2 where sc: "status_call r key ?f s1 = (y, s2)" by (cases "status_call r key ?f s1")
    have s2: "Q (s_world s2)" by (rule status_call_keeps [OF assms(1) s1 _ sc]) (use updates_keep(2) [of _ Q "s_world s1"] s1 in blast)
    show ?thesis using assms(3) po None sc s2 decide_exit_world [of r key m rv p results s2]
      by (auto simp: finish_def Let_def split: sum.splits option.splits prod.splits)
  qed
qed


section \<open>Convergence of the apply phase\<close>

text \<open>
  The wiring of \<open>cmd/main.go\<close>: one client behind the factory, the executor of \<open>executor.go\<close>;
  goroutines run in any order, but all of them.
\<close>

definition azure_wiring :: "'w MappingReconciler \<Rightarrow> 'w AddressPrefixSetAPI \<Rightarrow> bool" where
  "azure_wiring r api \<longleftrightarrow> (\<forall>sub. r_PrefixSetFactory r sub = Inr api) \<and>
     (\<forall>ts. set (r_order r ts) = set ts \<and> distinct (r_order r ts) = distinct ts) \<and>
     (\<exists>e env sched. ex_maxRetries e > 0 \<and> (\<forall>sub. env_factory env sub = Inr api) \<and>
        (\<forall>acts. distinct (sched acts) \<and> set (sched acts) = {..<length acts}) \<and> r_Executor r = (\<lambda>acts. Execute e env (sched acts) acts))"

lemma execute_one_err: "ar_Err (fst (execute_one e env idx a w)) = None \<longleftrightarrow> ar_Success (fst (execute_one e env idx a w))"
  by (auto simp: execute_one_def run_action_def failed_result_def split: option.splits sum.splits prod.splits)

lemma Execute_err:
  assumes "distinct is" and "set is \<subseteq> {..<length actions}"
  shows "let (results, w') = fold (\<lambda>idx (results, w). let (r, w) = execute_one e env idx (actions ! idx) w in (results[idx := r], w)) is
      (replicate (length actions) zero_result, w) in
    length results = length actions \<and> (\<forall>i \<in> set is. ar_Err (results ! i) = None \<longleftrightarrow> ar_Success (results ! i))"
  using assms
proof (induction "is" rule: rev_induct)
  case (snoc j js)
  obtain rs w1 where f: "fold (\<lambda>idx (results, w). let (r, w) = execute_one e env idx (actions ! idx) w in (results[idx := r], w)) js
      (replicate (length actions) zero_result, w) = (rs, w1)" by fastforce
  have IH: "length rs = length actions" "\<forall>i \<in> set js. ar_Err (rs ! i) = None \<longleftrightarrow> ar_Success (rs ! i)" using snoc f by (auto simp: Let_def)
  have keep: "rs[j := r] ! i = rs ! i" if "i \<in> set js" for i r
    by (rule nth_list_update_neq) (use that snoc.prems(1) in auto)
  have "j < length rs" using snoc.prems(2) IH(1) by simp
  moreover obtain r w2 where x: "execute_one e env j (actions ! j) w1 = (r, w2)" by (cases "execute_one e env j (actions ! j) w1")
  then have "ar_Err r = None \<longleftrightarrow> ar_Success r" using execute_one_err [of e env j "actions ! j" w1] by simp
  ultimately show ?case using f IH by (simp add: x keep)
qed simp

lemma no_failures_all_succeed:
  assumes "Execute e env schedule actions w = (results, w')" and "distinct schedule" and "set schedule = {..<length actions}"
    and "aggregateActionFailures results = None"
  shows "\<forall>r \<in> set results. ar_Success r"
proof
  fix r assume r: "r \<in> set results"
  have "length results = length actions" "\<forall>i < length actions. ar_Err (results ! i) = None \<longleftrightarrow> ar_Success (results ! i)"
    using Execute_err [OF assms(2), of actions e env w] assms(1,3) by (auto simp: Execute_def)
  then have "ar_Err r = None \<longleftrightarrow> ar_Success r" using r by (metis in_set_conv_nth)
  moreover have "ar_Err r = None \<or> ar_Success r"
    using assms(4) r by (auto simp: aggregateActionFailures_def Let_def failure_message_def split: if_splits option.splits)
  ultimately show "ar_Success r" by simp
qed

lemma add_owned_get:
  "gget (add_owned_actual D owned A) t = (if gget A t = None \<and> gget D t = None \<and> t \<in> set owned then Some [] else gget A t)"
proof -
  have "gget (fold (\<lambda>t A. if gget D t = None \<and> gget A t = None then gput t [] A else A) ts A) t =
      (if gget A t = None \<and> gget D t = None \<and> t \<in> set ts then Some [] else gget A t)" for ts A
    by (induction ts arbitrary: A) auto
  from this [of owned A] show ?thesis unfolding add_owned_actual_def .
qed

lemma wf_add_owned: "wf_state A \<Longrightarrow> wf_state (add_owned_actual D owned A)"
proof -
  have "wf_state A \<Longrightarrow> wf_state (fold (\<lambda>t A. if gget D t = None \<and> gget A t = None then gput t [] A else A) ts A)" for ts A
  proof (induction ts arbitrary: A)
    case (Cons t ts)
    have "wf_state (gput t [] A)"
      using Cons.prems gput_Ball [of A "\<lambda>(t, ips). distinct ips" t "[]"] by (simp add: wf_state_def)
    then show ?case using Cons by simp
  qed simp
  then show "wf_state A \<Longrightarrow> wf_state (add_owned_actual D owned A)" by (simp add: add_owned_actual_def)
qed

lemma gkeys_iff: "t \<in> set (gkeys m) \<longleftrightarrow> gget m t \<noteq> None"
  by (simp add: gget_None_iff)

lemma gkeys_add_owned: "set (gkeys (add_owned_actual D owned A)) = set (gkeys A) \<union> {t \<in> set owned. gget D t = None}"
  by (auto simp: gkeys_iff add_owned_get simp del: set_map split: if_splits)

lemma wf_nonempty: "wf_state D \<Longrightarrow> wf_state (nonempty_desired D) \<and> (\<forall>(t, ips) \<in> set (nonempty_desired D). ips \<noteq> [])"
  by (auto simp: wf_state_def nonempty_desired_def distinct_map_filter)

lemma view_inj:
  assumes "wf_state m" and "inj_on targetKey T" and "set (gkeys m) \<subseteq> T" and "t \<in> T"
  shows "view m (targetKey t) = map_option set (gget m t)"
proof -
  have inj: "inj_on targetKey (set (gkeys m))" using assms(2,3) by (rule inj_on_subset)
  show ?thesis
  proof (cases "gget (byKey m) (targetKey t)")
    case None
    have "gget m t = None"
    proof (rule ccontr)
      assume "gget m t \<noteq> None"
      then obtain ips where "gget m t = Some ips" by blast
      then have "gget (byKey m) (targetKey t) = Some (t, ips)" using byKey_inj_iff [OF assms(1) inj] by simp
      then show False using None by simp
    qed
    then show ?thesis using None by (simp add: view_def)
  next
    case (Some e)
    obtain t' ips where e: "e = (t', ips)" by (cases e)
    then have "targetKey t = targetKey t'" "gget m t' = Some ips" using byKey_inj_iff [OF assms(1) inj] Some by auto
    moreover have "t' \<in> T" using assms(3) calculation(2) by (auto simp: gkeys_iff simp del: set_map)
    ultimately have "t' = t" using assms(2,4) by (auto dest: inj_onD)
    then show ?thesis using Some e \<open>gget m t' = Some ips\<close> by (simp add: view_def)
  qed
qed

lemma set_all_targets: "set (all_targets D owned) = set (gkeys D) \<union> set owned" and distinct_all_targets: "distinct (all_targets D owned)"
  by (auto simp: all_targets_def)

context prefix_set_service
begin

lemma execute_plan:
  fixes owned :: "ASGTarget goset" and D :: desired_state
  defines "T \<equiv> set (gkeys D) \<union> set owned"
  assumes "wf_state D" and "\<forall>(t, ips) \<in> set D. ips \<noteq> []" and "wf_state A" and "set (gkeys A) \<subseteq> T"
    and "\<forall>t \<in> T. map_option set (gget A t) = stored w (ident (target_resource t))"
    and "key_identity ident T" and "inj_on targetKey T" and "invar w" and "azure_wiring r api"
    and "(if actions = [] then ([], s) else external r (r_Executor r actions) s) = (results, s')" and "s_world s = w"
    and "actions = ComputeDiff D (add_owned_actual D owned A) th" and "aggregateActionFailures results = None"
  shows "invar (s_world s')" and "t \<in> T \<Longrightarrow> stored (s_world s') (ident (target_resource t)) = view D (targetKey t)"
    and "k \<notin> (\<lambda>t. ident (target_resource t)) ` T \<Longrightarrow> stored (s_world s') k = stored w k"
proof -
  let ?A = "add_owned_actual D owned A"
  obtain e env sched where x: "ex_maxRetries e > 0" "\<And>sub. env_factory env sub = Inr api"
    "\<And>acts. distinct (sched acts) \<and> set (sched acts) = {..<length acts}" "r_Executor r = (\<lambda>acts. Execute e env (sched acts) acts)"
    using assms(10) unfolding azure_wiring_def by blast
  have run: "Execute e env (sched actions) actions w = (results, s_world s')"
    using assms(11,12) x(3) [of "[]"] by (auto simp: external_def x(4) Execute_def split: if_splits prod.splits)
  note succ = no_failures_all_succeed [OF run conjunct1 [OF x(3)] conjunct2 [OF x(3)] assms(14)]
  have wfA: "wf_state ?A" by (rule wf_add_owned [OF assms(4)])
  have T: "set (gkeys D) \<union> set (gkeys ?A) = T"
    using assms(5) unfolding gkeys_add_owned T_def by (auto simp: gkeys_iff simp del: set_map)
  have "stored w (ident (target_resource t)) = view ?A (targetKey t)" if t: "t \<in> T" and d: "view D (targetKey t) \<noteq> None" for t
  proof -
    have "gget D t \<noteq> None" using d view_inj [OF assms(2,8) _ t] T by fastforce
    then have "gget ?A t = gget A t" by (simp add: add_owned_get)
    moreover have "view ?A (targetKey t) = map_option set (gget ?A t)" using view_inj [OF wfA assms(8) _ t] T by auto
    ultimately show ?thesis using assms(6) t by simp
  qed
  then have st: "\<forall>t \<in> set (gkeys D) \<union> set (gkeys ?A). view D (targetKey t) \<noteq> None \<longrightarrow> stored w (ident (target_resource t)) = view ?A (targetKey t)"
    unfolding T by blast
  note ex = execute_diff [OF assms(2) wfA assms(3) assms(7) [folded T] st assms(9) x(1,2) conjunct1 [OF x(3)] conjunct2 [OF x(3)]
      run [unfolded assms(13)] succ]
  show "invar (s_world s')" by (rule ex(1))
  show "t \<in> T \<Longrightarrow> stored (s_world s') (ident (target_resource t)) = view D (targetKey t)" using ex(2) unfolding T by blast
  show "k \<notin> (\<lambda>t. ident (target_resource t)) ` T \<Longrightarrow> stored (s_world s') k = stored w k" using ex(3) unfolding T by blast
qed

end


section \<open>Exits\<close>

lemma finalizeSystemError_stage:
  assumes "finalizeSystemError r key m ok matched e allow results s = ((res, err, stage), s')"
  shows "err = None \<and> stage \<in> Some ` {ReconcileStageSystemError, ReconcileStageStatusSentinelTerminal, ReconcileStageStatusWriteError}"
  using assms
  by (auto simp: finalizeSystemError_def Let_def finalizeStatusWriteError_def split: bool.splits option.splits prod.splits if_splits)

lemma status_call_stage:
  "status_call r key f s = (Inl x, s') \<Longrightarrow> x = exit_at result_zero ReconcileStageStatusSentinelTerminal"
  by (auto simp: status_call_def split: option.splits prod.splits if_splits)

lemma finish_success:
  assumes "finish r key ok rv p results s = ((res, err, Some ReconcileStageSteadyStateSuccess), s')"
  shows "aggregateActionFailures results = None"
proof -
  let ?po = "if results = [] then (None, pl_mapping p, s)
    else patch_owned r (pl_mapping p) (pl_preRefs p) (UpdateOwnedASGsAfterResults (pl_preRefs p) (pl_desired p) results) s"
  obtain e m s1 where po: "?po = (e, m, s1)" by (cases ?po)
  have e: "e = None" using assms po by (cases e) (auto simp: finish_def Let_def dest!: finalizeSystemError_stage)
  let ?f = "\<lambda>u. UpdateAfterReconcile u (status_args key m ok results (aggregateActionFailures results) [] (rv_matchedPodsByIndex rv))"
  obtain y s2 where sc: "status_call r key ?f s1 = (y, s2)" by (cases "status_call r key ?f s1")
  have "y = Inr None"
    using assms po e sc status_call_stage [of r key ?f s1]
    by (auto simp: finish_def Let_def finalizeStatusWriteError_def split: sum.splits option.splits prod.splits if_splits)
  then show ?thesis using assms po e sc by (auto simp: finish_def Let_def decide_exit_def split: if_splits)
qed

section \<open>The apply phase converges\<close>

context prefix_set_service
begin

definition azure_apart :: "'a MappingReconciler \<Rightarrow> bool" where
  "azure_apart r \<longleftrightarrow> (\<forall>S. reconciler_keeps r (\<lambda>w. invar w \<and> stored w = S))"

lemma azure_apartD: "azure_apart r \<Longrightarrow> reconciler_keeps r (\<lambda>w. invar w \<and> stored w = S)"
  by (simp add: azure_apart_def)

lemma prepare_correct:
  fixes rv :: resolved and owned :: owned_refs and ok :: string
  defines "D \<equiv> nonempty_desired (rv_desired rv)" and "OT \<equiv> TargetsFromOwnedASGs owned ok"
  assumes "invar (s_world s)" and "azure_wiring r api" and "azure_apart r" and "LoadOwnedASGs mapping = Inr owned"
  shows "\<exists>y s1. prepare r key mapping ok rv s = Some (y, s1) \<and> invar (s_world s1) \<and> stored (s_world s1) = stored (s_world s) \<and>
    (\<forall>x. y = Inl x \<longrightarrow> snd (snd x) \<noteq> Some ReconcileStageSteadyStateSuccess) \<and>
    (\<forall>p. y = Inr p \<longrightarrow> pl_desired p = D \<and> pl_allTargets p = all_targets D OT \<and> (\<exists>A. wf_state A \<and> set (gkeys A) \<subseteq> set (gkeys D) \<union> set OT \<and>
       (\<forall>t \<in> set (gkeys D) \<union> set OT. map_option set (gget A t) = stored (s_world s) (ident (target_resource t))) \<and>
       pl_actions p = ComputeDiff D (add_owned_actual D OT A) (r_PatchThresholdPercent r)))"
proof -
  let ?Q = "\<lambda>w. invar w \<and> stored w = stored (s_world s)"
  note q = azure_apartD [OF assms(5), of "stored (s_world s)"]
  have fac: "\<And>sub. r_PrefixSetFactory r sub = Inr api" "\<And>ts. set (r_order r ts) = set ts \<and> distinct (r_order r ts) = distinct ts"
    using assms(4) by (auto simp: azure_wiring_def)
  obtain got w1 where l: "listActualForTargets r (all_targets D OT) (s_world s) = Some (got, w1)" "?Q w1"
    "\<forall>A. got = Inr A \<longrightarrow> wf_state A \<and> set (gkeys A) \<subseteq> set (gkeys D) \<union> set OT \<and>
      (\<forall>t \<in> set (gkeys D) \<union> set OT. map_option set (gget A t) = stored (s_world s) (ident (target_resource t)))"
    using listActual_correct [OF assms(3) fac distinct_all_targets, of D OT] unfolding set_all_targets by blast
  obtain s1 where s1: "?Q (s_world s1)" "external r (\<lambda>_. (got, w1)) s = (got, s1)"
    by (rule that [of "s\<lparr>s_world := w1, s_DesiredStateCache := r_interleaved r (s_world s) w1 (s_DesiredStateCache s)\<rparr>"])
      (use l(2) in \<open>simp_all add: external_def\<close>)
  have fail: "\<exists>x s2. finalizeSystemError r key (Some m) ok (rv_matchedPodsByIndex rv) e True [] s' = (x, s2) \<and> ?Q (s_world s2) \<and>
      snd (snd x) \<noteq> Some ReconcileStageSteadyStateSuccess" if "?Q (s_world s')" for m e s'
  proof -
    obtain res err stage s2 where f: "finalizeSystemError r key (Some m) ok (rv_matchedPodsByIndex rv) e True [] s' = ((res, err, stage), s2)"
      by (metis surj_pair)
    show ?thesis using finalizeSystemError_keeps [OF q that f] finalizeSystemError_stage [OF f] f by auto
  qed
  show ?thesis
  proof (cases got)
    case (Inl e)
    obtain x s2 where f: "finalizeSystemError r key (Some mapping) ok (rv_matchedPodsByIndex rv) e True [] s1 = (x, s2)" "?Q (s_world s2)"
      "snd (snd x) \<noteq> Some ReconcileStageSteadyStateSuccess" using fail [OF s1(1), of mapping e] by blast
    have "prepare r key mapping ok rv s = Some (Inl x, s2)" using l(1) s1(2) Inl f(1) assms(6) by (simp add: prepare_def Let_def D_def OT_def)
    then show ?thesis using f(2,3) by auto
  next
    case (Inr A)
    let ?pre = "UpdateOwnedASGsAfterResults owned D []"
    obtain pe m2 s2 where po: "patch_owned r mapping owned ?pre s1 = (pe, m2, s2)" by (cases "patch_owned r mapping owned ?pre s1")
    have s2: "?Q (s_world s2)" using patch_owned_keeps [OF q s1(1) po] .
    show ?thesis
    proof (cases pe)
      case None
      then have "prepare r key mapping ok rv s = Some (Inr \<lparr>pl_mapping = m2, pl_desired = D, pl_allTargets = all_targets D OT,
          pl_actions = ComputeDiff D (add_owned_actual D OT A) (r_PatchThresholdPercent r), pl_preRefs = ?pre\<rparr>, s2)"
        using l(1) s1(2) Inr po assms(6) by (simp add: prepare_def Let_def D_def OT_def)
      then show ?thesis using l(3) Inr s2 by auto
    next
      case (Some e)
      obtain x s3 where f: "finalizeSystemError r key (Some m2) ok (rv_matchedPodsByIndex rv) e True [] s2 = (x, s3)" "?Q (s_world s3)"
        "snd (snd x) \<noteq> Some ReconcileStageSteadyStateSuccess" using fail [OF s2, of m2 e] by blast
      have "prepare r key mapping ok rv s = Some (Inl x, s3)"
        using l(1) s1(2) Inr po Some f(1) assms(6) by (simp add: prepare_def Let_def D_def OT_def)
      then show ?thesis using f(2,3) by auto
    qed
  qed
qed

lemma apply_converges:
  fixes rv :: resolved and owned :: owned_refs and ok :: string
  defines "D \<equiv> nonempty_desired (rv_desired rv)" and "T \<equiv> set (gkeys (nonempty_desired (rv_desired rv))) \<union> set (TargetsFromOwnedASGs owned ok)"
  assumes "invar (s_world s)" and "azure_wiring r api" and "azure_apart r" and "LoadOwnedASGs mapping = Inr owned"
    and "wf_state (rv_desired rv)" and "key_identity ident T" and "inj_on targetKey T"
  shows "\<exists>x s'. apply_desired r key mapping ok rv s = Some (x, s') \<and> (snd (snd x) = Some ReconcileStageSteadyStateSuccess \<longrightarrow> invar (s_world s') \<and>
    (\<forall>t \<in> T. stored (s_world s') (ident (target_resource t)) = view D (targetKey t)) \<and>
    (\<forall>k. k \<notin> (\<lambda>t. ident (target_resource t)) ` T \<longrightarrow> stored (s_world s') k = stored (s_world s) k))"
proof -
  obtain y s1 where p: "prepare r key mapping ok rv s = Some (y, s1)" "invar (s_world s1)" "stored (s_world s1) = stored (s_world s)"
    "\<forall>x. y = Inl x \<longrightarrow> snd (snd x) \<noteq> Some ReconcileStageSteadyStateSuccess"
    "\<forall>p. y = Inr p \<longrightarrow> pl_desired p = D \<and> (\<exists>A. wf_state A \<and> set (gkeys A) \<subseteq> T \<and>
       (\<forall>t \<in> T. map_option set (gget A t) = stored (s_world s) (ident (target_resource t))) \<and>
       pl_actions p = ComputeDiff D (add_owned_actual D (TargetsFromOwnedASGs owned ok) A) (r_PatchThresholdPercent r))"
    using prepare_correct [OF assms(3-6), where key = key and rv = rv and ok = ok] unfolding D_def T_def by blast
  show ?thesis
  proof (cases y)
    case (Inl x)
    then show ?thesis using p(1,4) by (auto simp: apply_desired_def)
  next
    case (Inr pl)
    then obtain A where A: "wf_state A" "set (gkeys A) \<subseteq> T" "\<forall>t \<in> T. map_option set (gget A t) = stored (s_world s1) (ident (target_resource t))"
      "pl_actions pl = ComputeDiff D (add_owned_actual D (TargetsFromOwnedASGs owned ok) A) (r_PatchThresholdPercent r)" using p(3,5) by metis
    let ?ex = "if pl_actions pl = [] then ([], s1) else external r (r_Executor r (pl_actions pl)) s1"
    obtain results s2 where x: "?ex = (results, s2)" by (cases ?ex)
    obtain res err stage s3 where f: "finish r key ok rv pl results s2 = ((res, err, stage), s3)" by (metis surj_pair)
    have wf: "wf_state D" "\<forall>(t, ips) \<in> set D. ips \<noteq> []" using wf_nonempty [OF assms(7)] unfolding D_def by blast+
    have "invar (s_world s3) \<and> (\<forall>t \<in> T. stored (s_world s3) (ident (target_resource t)) = view D (targetKey t)) \<and>
      (\<forall>k. k \<notin> (\<lambda>t. ident (target_resource t)) ` T \<longrightarrow> stored (s_world s3) k = stored (s_world s) k)"
      if "stage = Some ReconcileStageSteadyStateSuccess"
    proof -
      have agg: "aggregateActionFailures results = None" using finish_success f that by blast
      note e = execute_plan [OF wf A(1) A(2) [unfolded T_def, folded D_def] A(3) [unfolded T_def, folded D_def] assms(8) [unfolded T_def, folded D_def]
          assms(9) [unfolded T_def, folded D_def] p(2) assms(4) x refl A(4) agg]
      have "invar (s_world s3) \<and> stored (s_world s3) = stored (s_world s2)"
        using finish_keeps [OF azure_apartD [OF assms(5), of "stored (s_world s2)"] _ f] e(1) by simp
      then show ?thesis using e p(3) unfolding T_def D_def [symmetric] by auto
    qed
    then show ?thesis using p(1) Inr x f by (auto simp: apply_desired_def)
  qed
qed

end


section \<open>Resolving the desired state\<close>

text \<open>
  A desired state is right for a mapping and pods if its targets are targets of the mapping and
  it has under each key exactly the prefixes of the selected pods, where there are any.
\<close>

definition right_desired :: "matcher \<Rightarrow> string \<Rightarrow> PodASGMapping \<Rightarrow> Pod list \<Rightarrow> desired_state \<Rightarrow> bool" where
  "right_desired M cl m pods D \<longleftrightarrow> wf_state D \<and> keys_in D (mapping_targets cl m) \<and>
     (\<forall>k. nonempty_view D k = (if wanted M cl [m] pods k = {} then None else Some (wanted M cl [m] pods k)))"

text \<open>What the cache returns for the mapping, if anything, is right; pod events keep this.\<close>

definition right_cache :: "matcher \<Rightarrow> string \<Rightarrow> PodASGMapping \<Rightarrow> Pod list \<Rightarrow> DesiredStateCache \<Rightarrow> bool" where
  "right_cache M cl m pods c \<longleftrightarrow> (\<forall>st. Get c m = (st, True) \<longrightarrow> right_desired M cl m pods (cs_Desired st))"

lemma right_recompute: "right_desired M cl m pods (art_Desired (ComputeDesiredStateRecomputeArtifacts M cl m pods))"
proof -
  have D: "art_Desired (ComputeDesiredStateRecomputeArtifacts M cl m pods) = fst (ComputeDesiredStateWithSnapshot M cl [m] pods)"
    using artifacts_snapshot_eq [of M cl m pods] by (simp add: prod_eq_iff)
  show ?thesis using recompute_keys_in [of M cl m pods] unfolding right_desired_def D
    by (simp add: wf_WithSnapshot nonempty_view_def view_WithSnapshot)
qed

lemma GetWithVersion_Get: "GetWithVersion c m = (st, v, e, True) \<Longrightarrow> Get c m = (st, True)"
  by (auto simp: GetWithVersion_def Get_def Let_def split: option.splits if_splits)

text \<open>A parity-keeping cache entry is right.\<close>

lemma external_cache: "external r f s = (y, s') \<Longrightarrow> s_DesiredStateCache s' = r_interleaved r (s_world s) (s_world s') (s_DesiredStateCache s)"
  by (auto simp: external_def split: prod.splits)

definition cache_kept :: "matcher \<Rightarrow> 'w MappingReconciler \<Rightarrow> PodASGMapping \<Rightarrow> Pod list \<Rightarrow> bool" where
  "cache_kept M r m pods \<longleftrightarrow> (\<forall>w w' c. right_cache M (r_ClusterName r) m pods c \<longrightarrow> right_cache M (r_ClusterName r) m pods (r_interleaved r w w' c))"

lemma external_right:
  "cache_kept M r m pods \<Longrightarrow> right_cache M (r_ClusterName r) m pods (s_DesiredStateCache s) \<Longrightarrow> external r f s = (y, s') \<Longrightarrow>
     right_cache M (r_ClusterName r) m pods (s_DesiredStateCache s')"
  by (simp add: cache_kept_def external_cache)

lemma mappingStillCurrent_right:
  assumes "cache_kept M r m pods" and "right_cache M (r_ClusterName r) m pods (s_DesiredStateCache s)" and "mappingStillCurrent r key uid g s = (y, s')"
  shows "right_cache M (r_ClusterName r) m pods (s_DesiredStateCache s')"
proof -
  obtain res s1 where c: "external r (kc_Get (r_Client r) key) s = (res, s1)" by (cases "external r (kc_Get (r_Client r) key) s")
  show ?thesis using assms(3) c external_right [OF assms(1,2) c] by (auto simp: mappingStillCurrent_def split: sum.splits if_splits)
qed

text \<open>The API server lists these pods.\<close>

definition lists_pods :: "'w MappingReconciler \<Rightarrow> string \<Rightarrow> Pod list \<Rightarrow> bool" where
  "lists_pods r ns pods \<longleftrightarrow> (\<forall>w ps w'. kc_ListPods (r_Client r) ns w = (Inr ps, w') \<longrightarrow> ps = pods)"

lemma list_and_recompute_right:
  assumes "lists_pods r (m_Namespace m) pods" and "list_and_recompute M r key m ok s = (Inr arts, s')"
  shows "right_desired M (r_ClusterName r) m pods (art_Desired arts)"
    and "cache_kept M r m pods \<Longrightarrow> right_cache M (r_ClusterName r) m pods (s_DesiredStateCache s) \<Longrightarrow>
      right_cache M (r_ClusterName r) m pods (s_DesiredStateCache s')"
proof -
  let ?f = "kc_ListPods (r_Client r) (m_Namespace m)"
  obtain res s1 where c: "external r ?f s = (res, s1)" by (cases "external r ?f s")
  obtain ps where ps: "res = Inr ps" "s' = s1" "arts = ComputeDesiredStateRecomputeArtifacts M (r_ClusterName r) m ps"
    using assms(2) c by (auto simp: list_and_recompute_def split: sum.splits prod.splits)
  then have "ps = pods" using c assms(1) by (auto simp: external_def lists_pods_def split: prod.splits)
  then show "right_desired M (r_ClusterName r) m pods (art_Desired arts)" using ps right_recompute by simp
  show "cache_kept M r m pods \<Longrightarrow> right_cache M (r_ClusterName r) m pods (s_DesiredStateCache s) \<Longrightarrow>
      right_cache M (r_ClusterName r) m pods (s_DesiredStateCache s')" using external_right [OF _ _ c] ps(2) by blast
qed

lemma publish_refused_same: "publish m arts v e s = (False, s') \<Longrightarrow> s' = s"
  by (auto simp: publish_def SetFromRecomputeArtifactsIfVersion_def Let_def split: if_splits)

lemma retry_publish_right:
  assumes "lists_pods r (m_Namespace m) pods" and "retry_publish M r key m ok t s = (Inr rv, s')"
  shows "right_desired M (r_ClusterName r) m pods (rv_desired rv)"
  using assms(2) list_and_recompute_right(1) [OF assms(1)]
  by (fastforce simp: retry_publish_def resolved_arts_def split: prod.splits sum.splits bool.splits)

lemma recompute_right:
  assumes "lists_pods r (m_Namespace m) pods" and "cache_kept M r m pods"
    and "right_cache M (r_ClusterName r) m pods (s_DesiredStateCache s)"
    and "recompute_desired M r key m ok t forced v e s = (Inr rv, s')"
  shows "right_desired M (r_ClusterName r) m pods (rv_desired rv)"
proof -
  obtain arts s1 where l: "list_and_recompute M r key m ok s = (Inr arts, s1)"
    using assms(4) by (auto simp: recompute_desired_def split: prod.splits sum.splits)
  note a = list_and_recompute_right [OF assms(1) l]
  show ?thesis
  proof (cases "r_hasCache r")
    case False
    then show ?thesis using assms(4) l a(1) by (auto simp: recompute_desired_def resolved_arts_def)
  next
    case True
    obtain s2 where cur: "mappingStillCurrent r key (m_UID m) (m_Generation m) s1 = (Inr True, s2)"
      using assms(4) l True by (auto simp: recompute_desired_def split: prod.splits sum.splits bool.splits)
    have c2: "right_cache M (r_ClusterName r) m pods (s_DesiredStateCache s2)"
      by (rule mappingStillCurrent_right [OF assms(2) a(2) [OF assms(2,3)] cur])
    obtain dn s3 where p: "publish m arts v e s2 = (dn, s3)" by (cases "publish m arts v e s2")
    show ?thesis
    proof (cases dn)
      case True
      then show ?thesis using assms(4) l cur p a(1) \<open>r_hasCache r\<close> by (auto simp: recompute_desired_def resolved_arts_def)
    next
      case False
      then have s3: "s3 = s2" using p publish_refused_same [of m arts v e s2 s3] by simp
      show ?thesis
      proof (cases "\<not> forced \<and> snd (Get (s_DesiredStateCache s3) m)")
        case True
        then obtain st where "Get (s_DesiredStateCache s3) m = (st, True)" "rv = resolved_cached st"
          using assms(4) l cur p False \<open>r_hasCache r\<close> by (auto simp: recompute_desired_def split: prod.splits bool.splits)
        then show ?thesis using c2 s3 by (auto simp: right_cache_def resolved_cached_def)
      next
        case no: False
        then have "retry_publish M r key m ok t s3 = (Inr rv, s')"
          using assms(4) l cur p False \<open>r_hasCache r\<close> by (auto simp: recompute_desired_def split: prod.splits bool.splits)
        then show ?thesis by (rule retry_publish_right [OF assms(1)])
      qed
    qed
  qed
qed

lemma resolve_right:
  assumes "lists_pods r (m_Namespace m) pods" and "cache_kept M r m pods"
    and "right_cache M (r_ClusterName r) m pods (s_DesiredStateCache s)"
    and "resolve_desired M r key m ok t s = (Inr rv, s')"
  shows "right_desired M (r_ClusterName r) m pods (rv_desired rv)"
proof (cases "r_hasCache r \<and> \<not> shouldForceDesiredStateRecompute r key (m_Generation m) t s \<and> (\<exists>st v e. GetWithVersion (s_DesiredStateCache s) m = (st, v, e, True))")
  case True
  then obtain st v e where g: "GetWithVersion (s_DesiredStateCache s) m = (st, v, e, True)" "rv = resolved_cached st"
    using assms(4) by (auto simp: resolve_desired_def)
  then show ?thesis using GetWithVersion_Get [OF g(1)] assms(3) by (auto simp: right_cache_def resolved_cached_def)
next
  case False
  then obtain forced v e where "recompute_desired M r key m ok t forced v e s = (Inr rv, s')"
    using assms(4) by (auto simp: resolve_desired_def Let_def split: prod.splits if_splits)
  then show ?thesis by (rule recompute_right [OF assms(1-3)])
qed

section \<open>A whole reconcile\<close>

lemma resolve_keeps:
  assumes "reconciler_keeps r Q" and "Q (s_world s)" and "resolve_desired M r key m ok t s = (y, s')"
  shows "Q (s_world s')"
proof -
  have l: "Q (s_world s2)" if "Q (s_world s1)" "list_and_recompute M r key m ok s1 = (y, s2)" for s1 y s2
  proof -
    let ?f = "kc_ListPods (r_Client r) (m_Namespace m)"
    obtain res s3 where c: "external r ?f s1 = (res, s3)" by (cases "external r ?f s1")
    have "kube_keeps (r_Client r) Q" using assms(1) by (simp add: reconciler_keeps_def)
    from external_keeps [OF kube_keeps_calls(4) [OF this that(1)] c] have "Q (s_world s3)" .
    then show ?thesis using that(2) c finalizeSystemError_keeps [OF assms(1) \<open>Q (s_world s3)\<close>]
      by (auto simp: list_and_recompute_def split: sum.splits prod.splits)
  qed
  have p: "s_world s2 = s_world s1" if "publish m arts v e s1 = (b, s2)" for arts v e s1 b s2
    using that by (auto simp: publish_def split: prod.splits)
  have c: "Q (s_world s2)" if "Q (s_world s1)" "mappingStillCurrent r key uid g s1 = (y, s2)" for uid g s1 y s2
    using mappingStillCurrent_keeps [OF assms(1)] that by blast
  have rp: "Q (s_world s2)" if q: "Q (s_world s1)" and r: "retry_publish M r key m ok t s1 = (y, s2)" for s1 y s2
  proof -
    obtain st v e b where g: "GetWithVersion (s_DesiredStateCache s1) m = (st, v, e, b)" by (cases "GetWithVersion (s_DesiredStateCache s1) m")
    obtain cur s3 where cur: "mappingStillCurrent r key (m_UID m) (m_Generation m) s1 = (cur, s3)" by fastforce
    obtain la s4 where la: "list_and_recompute M r key m ok s3 = (la, s4)" by fastforce
    have q3: "Q (s_world s3)" "Q (s_world s4)" using c [OF q cur] l [OF _ la] by auto
    have pb: "Q (s_world s5)" if "publish m arts v e s4 = (b, s5)" for arts b s5 using p [OF that] q3 by simp
    show ?thesis using r g cur la q3 pb by (auto simp: retry_publish_def split: prod.splits sum.splits bool.splits)
  qed
  have "Q (s_world s2)" if q: "Q (s_world s1)" and r: "recompute_desired M r key m ok t forced v e s1 = (y, s2)" for forced v e s1 y s2
  proof -
    obtain la s3 where la: "list_and_recompute M r key m ok s1 = (la, s3)" by fastforce
    obtain cur s4 where cur: "mappingStillCurrent r key (m_UID m) (m_Generation m) s3 = (cur, s4)" by fastforce
    have q3: "Q (s_world s3)" "Q (s_world s4)" using l [OF q la] c [OF _ cur] by auto
    show ?thesis
    proof (cases la)
      case (Inl x)
      then show ?thesis using r la q3 by (auto simp: recompute_desired_def)
    next
      case (Inr arts)
      obtain b s5 where pb: "publish m arts v e s4 = (b, s5)" by fastforce
      have q5: "Q (s_world s5)" using p [OF pb] q3 by simp
      show ?thesis using r la Inr cur pb q3 q5 rp [OF q5]
        by (auto simp: recompute_desired_def split: prod.splits sum.splits bool.splits if_splits)
    qed
  qed
  then show ?thesis using assms(2,3) by (auto simp: resolve_desired_def Let_def split: prod.splits if_splits)
qed

lemma gget_nonempty: "wfmap D \<Longrightarrow> gget (nonempty_desired D) t = (case gget D t of Some ips \<Rightarrow> if ips = [] then None else Some ips | None \<Rightarrow> None)"
  unfolding nonempty_desired_def by (induction D) (auto simp: gget_None_iff split: option.split)

lemma view_nonempty:
  assumes "wf_state D" and "inj_on targetKey T" and "set (gkeys D) \<subseteq> T" and "t \<in> T"
  shows "view (nonempty_desired D) (targetKey t) = nonempty_view D (targetKey t)"
proof -
  have "wfmap D" using assms(1) by (simp add: wf_state_def)
  moreover have "view (nonempty_desired D) (targetKey t) = map_option set (gget (nonempty_desired D) t)"
    by (rule view_inj [OF _ assms(2) _ assms(4)]) (use assms(1,3) wf_nonempty in \<open>auto simp: nonempty_desired_def\<close>)
  ultimately show ?thesis
    unfolding nonempty_view_def view_inj [OF assms] by (auto simp: gget_nonempty split: option.split)
qed

lemma resolve_exit:
  assumes "resolve_desired M r key m ok t s = (Inl (res, err, stage), s')"
  shows "stage \<noteq> Some ReconcileStageSteadyStateSuccess"
proof -
  have l: "stage \<noteq> Some ReconcileStageSteadyStateSuccess" if "list_and_recompute M r key m ok s1 = (Inl (res, err, stage), s2)" for s1 s2
    using that by (auto simp: list_and_recompute_def split: prod.splits sum.splits dest!: finalizeSystemError_stage)
  have "stage \<noteq> Some ReconcileStageSteadyStateSuccess" if "retry_publish M r key m ok t s1 = (Inl (res, err, stage), s2)" for s1 s2
    using that l by (auto simp: retry_publish_def split: prod.splits sum.splits bool.splits)
  then have "stage \<noteq> Some ReconcileStageSteadyStateSuccess"
    if "recompute_desired M r key m ok t forced v e s1 = (Inl (res, err, stage), s2)" for forced v e s1 s2
    using that l by (auto simp: recompute_desired_def split: prod.splits sum.splits bool.splits if_splits)
  then show ?thesis using assms by (auto simp: resolve_desired_def Let_def split: prod.splits if_splits)
qed

lemma Reconcile_success_steps:
  assumes "Reconcile M r key s = Some ((res, err, Some ReconcileStageSteadyStateSuccess), s')" and "kc_Get (r_Client r) key (s_world s) = (Inr m, w1)"
  obtains rv s1 s2 s3 where "resolve_desired M r key m (OwnershipKey (r_ClusterName r) (m_Namespace m) (m_Name m)) (now r s) s1 = (Inr rv, s2)"
    and "external r (kc_Get (r_Client r) key) s = (Inr m, s1)"
    and "apply_desired r key m (OwnershipKey (r_ClusterName r) (m_Namespace m) (m_Name m)) rv s3 = Some ((res, err, Some ReconcileStageSteadyStateSuccess), s')"
    and "\<forall>Q. reconciler_keeps r Q \<longrightarrow> Q (s_world s2) \<longrightarrow> Q (s_world s3)"
    and "reconcile_resolved r key m (OwnershipKey (r_ClusterName r) (m_Namespace m) (m_Name m)) rv s2 =
      Some ((res, err, Some ReconcileStageSteadyStateSuccess), s')"
proof -
  let ?ok = "OwnershipKey (r_ClusterName r) (m_Namespace m) (m_Name m)"
  obtain s1 where g: "external r (kc_Get (r_Client r) key) s = (Inr m, s1)" using assms(2) by (simp add: external_def)
  have live: "m_DeletionTimestamp m = None"
  proof (rule ccontr)
    assume "m_DeletionTimestamp m \<noteq> None"
    then have "reconcile_deleted r key m ?ok s1 = ((res, err, Some ReconcileStageSteadyStateSuccess), s')"
      using assms(1) g by (auto simp: Reconcile_def Let_def)
    then show False
      by (auto simp: reconcile_deleted_def Let_def dest!: finalizeSystemError_stage split: if_splits prod.splits option.splits sum.splits)
  qed
  then have l: "reconcile_live M r key m ?ok (now r s) s1 = Some ((res, err, Some ReconcileStageSteadyStateSuccess), s')"
    using assms(1) g by (auto simp: Reconcile_def Let_def)
  have fin: "ensureFinalizer r m s1 = (Inr False, m, s1)"
    using l by (auto simp: reconcile_live_def ensureFinalizer_def Let_def dest!: finalizeSystemError_stage split: if_splits prod.splits sum.splits bool.splits)
  obtain rem b where d: "debounceRemaining r key (m_Generation m) (now r s) s1 = (rem, b)" by fastforce
  have b: "\<not> b" using l fin d by (cases b) (auto simp: reconcile_live_def)
  have valid: "validateASGResourceIDs (m_Mappings m) = []"
  proof (rule ccontr)
    assume "validateASGResourceIDs (m_Mappings m) \<noteq> []"
    then have "reconcile_invalid M r key m ?ok (validateASGResourceIDs (m_Mappings m)) s1 = ((res, err, Some ReconcileStageSteadyStateSuccess), s')"
      using l fin d b by (auto simp: reconcile_live_def Let_def)
    then show False
      by (auto simp: reconcile_invalid_def dest!: finalizeSystemError_stage status_call_stage split: prod.splits sum.splits option.splits)
  qed
  obtain y s2 where rs: "resolve_desired M r key m ?ok (now r s) s1 = (y, s2)" by fastforce
  have "reconcile_live M r key m ?ok (now r s) s1 = (case y of Inl x \<Rightarrow> Some (x, s2) | Inr rv \<Rightarrow> reconcile_resolved r key m ?ok rv s2)"
    using fin d b valid rs by (auto simp: reconcile_live_def Let_def split: sum.splits)
  moreover have "y \<noteq> Inl (res, err, Some ReconcileStageSteadyStateSuccess)" using resolve_exit rs by blast
  ultimately obtain rv where rv: "y = Inr rv" "reconcile_resolved r key m ?ok rv s2 = Some ((res, err, Some ReconcileStageSteadyStateSuccess), s')"
    using l by (auto split: sum.splits)
  let ?gate = "if r_hasCache r then mappingStillCurrent r key (m_UID m) (m_Generation m) s2 else (Inr True, s2)"
  let ?f = "\<lambda>u. UpdatePending u key (m_Generation m) ?ok (rv_matchedPodsByIndex rv)"
  obtain c s4 where gate: "?gate = (c, s4)" by fastforce
  have c: "c = Inr True" using rv(2) gate by (auto simp: reconcile_resolved_def split: sum.splits bool.splits)
  obtain z s3 where st: "status_call r key ?f s4 = (z, s3)" by fastforce
  have ap: "apply_desired r key m ?ok rv s3 = Some ((res, err, Some ReconcileStageSteadyStateSuccess), s')"
    using rv(2) gate c st status_call_stage [of r key ?f s4] by (cases z) (auto simp: reconcile_resolved_def)
  have keep: "Q (s_world s3)" if q: "reconciler_keeps r Q" "Q (s_world s2)" for Q
  proof -
    have "Q (s_world s4)" using gate q mappingStillCurrent_keeps [OF q] by (auto split: if_splits)
    then show ?thesis using status_call_keeps [OF q(1) _ _ st] updates_keep(1) [of _ Q "s_world s4"] by blast
  qed
  show thesis by (rule that [OF rs [unfolded rv(1)] g ap _ rv(2)]) (use keep in blast)
qed

text \<open>What a successful reconcile leaves in Azure, when the state it resolved is right for some pods.\<close>

abbreviation azure_right :: "('w \<Rightarrow> 'k \<Rightarrow> string set option) \<Rightarrow> (resource \<Rightarrow> 'k) \<Rightarrow> (ASGTarget \<Rightarrow> string set) \<Rightarrow> ASGTarget set \<Rightarrow> ASGTarget set \<Rightarrow>
    'w \<Rightarrow> 'w \<Rightarrow> bool" where
  "azure_right stored ident W T owned w w' \<equiv>
     (\<forall>t \<in> T. W t \<noteq> {} \<longrightarrow> stored w' (ident (target_resource t)) = Some (W t)) \<and>
     (\<forall>t \<in> owned. W t = {} \<longrightarrow> stored w' (ident (target_resource t)) = None) \<and>
     (\<forall>k. k \<notin> (\<lambda>t. ident (target_resource t)) ` T \<longrightarrow> stored w' k = stored w k)"

lemma Reconcile_success_converges:
  fixes stored :: "'w \<Rightarrow> 'k \<Rightarrow> string set option"
  assumes "prefix_set_service api invar ident stored" and "azure_wiring r api"
    and "\<forall>S. reconciler_keeps r (\<lambda>w. invar w \<and> stored w = S)" and "invar (s_world s)" and "LoadOwnedASGs m = Inr owned"
    and "ownedTargets = set (TargetsFromOwnedASGs owned (OwnershipKey (r_ClusterName r) (m_Namespace m) (m_Name m)))"
    and "T = mapping_targets (r_ClusterName r) m \<union> ownedTargets" and "key_identity ident T" and "inj_on targetKey T"
    and "external r (kc_Get (r_Client r) key) s = (Inr m, s1)"
    and "resolve_desired M r key m (OwnershipKey (r_ClusterName r) (m_Namespace m) (m_Name m)) t0 s1 = (Inr rv, s2)"
    and "\<forall>Q. reconciler_keeps r Q \<longrightarrow> Q (s_world s2) \<longrightarrow> Q (s_world s3)"
    and "apply_desired r key m (OwnershipKey (r_ClusterName r) (m_Namespace m) (m_Name m)) rv s3 = Some ((res, err, Some ReconcileStageSteadyStateSuccess), s')"
    and "right_desired M (r_ClusterName r) m pods (rv_desired rv)"
  shows "azure_right stored ident (\<lambda>t. wanted M (r_ClusterName r) [m] pods (targetKey t)) T ownedTargets (s_world s) (s_world s')"
proof -
  let ?ok = "OwnershipKey (r_ClusterName r) (m_Namespace m) (m_Name m)" and ?S = "stored (s_world s)"
  let ?Q = "\<lambda>w. invar w \<and> stored w = ?S"
  have q: "reconciler_keeps r ?Q" using assms(3) by blast
  have "kube_keeps (r_Client r) ?Q" using q by (simp add: reconciler_keeps_def)
  then have "?Q (s_world s1)" using external_keeps [of _ s ?Q, OF _ assms(10)] kube_keeps_calls(1) [of _ ?Q "s_world s"] assms(4) by blast
  from resolve_keeps [OF q this assms(11)] have "?Q (s_world s2)" .
  from assms(12) [rule_format, OF q this] have s3: "invar (s_world s3)" "stored (s_world s3) = ?S" by blast+
  let ?D = "nonempty_desired (rv_desired rv)" and ?W = "\<lambda>t. wanted M (r_ClusterName r) [m] pods (targetKey t)"
  have wf: "wf_state (rv_desired rv)" and sub: "set (gkeys (rv_desired rv)) \<subseteq> T"
    using assms(7,14) by (auto simp: right_desired_def keys_in_def gkeys_iff simp del: set_map)
  have D: "set (gkeys ?D) \<subseteq> T" using sub by (auto simp: nonempty_desired_def)
  have v: "view ?D (targetKey t) = (if ?W t = {} then None else Some (?W t))" if "t \<in> T" for t
    using view_nonempty [OF wf assms(9) sub that] assms(14) by (simp add: right_desired_def)
  let ?T = "set (gkeys ?D) \<union> ownedTargets"
  have T: "?T \<subseteq> T" using D assms(7) by blast
  have k: "key_identity ident ?T" "inj_on targetKey ?T"
    using assms(8) subsetD [OF T] inj_on_subset [OF assms(9) T] unfolding key_identity_def by blast+
  have apart: "prefix_set_service.azure_apart invar stored r"
    using assms(3) unfolding prefix_set_service.azure_apart_def [OF assms(1)] .
  from prefix_set_service.apply_converges [OF assms(1) s3(1) assms(2) apart assms(5) wf k [unfolded assms(6)], of key] assms(13)
  have conv: "\<forall>t \<in> ?T. stored (s_world s') (ident (target_resource t)) = view ?D (targetKey t)"
    "\<forall>k. k \<notin> (\<lambda>t. ident (target_resource t)) ` ?T \<longrightarrow> stored (s_world s') k = ?S k"
    unfolding assms(6) s3(2) by auto
  have "t \<in> set (gkeys ?D)" if "t \<in> T" "?W t \<noteq> {}" for t
  proof -
    have "gget ?D t \<noteq> None" using v [OF that(1)] that(2) view_inj [OF _ assms(9) D that(1)] wf_nonempty [OF wf] by auto
    then show ?thesis by (simp add: gkeys_iff del: set_map)
  qed
  moreover have "stored (s_world s') k = ?S k" if "k \<notin> (\<lambda>t. ident (target_resource t)) ` T" for k
    using conv(2) that image_mono [OF T, of "\<lambda>t. ident (target_resource t)"] by blast
  ultimately show ?thesis using conv(1) v T by auto
qed


section \<open>Properties\<close>



section \<open>A concrete cluster\<close>

text \<open>The in-memory client next to other state.\<close>

definition beside :: "'b AddressPrefixSetAPI \<Rightarrow> ('a \<times> 'b) AddressPrefixSetAPI" where
  "beside api = \<lparr>
     api_Get = (\<lambda>r (k, c). case api_Get api r c of (x, c') \<Rightarrow> (x, (k, c'))),
     api_GetWithETag = (\<lambda>r (k, c). case api_GetWithETag api r c of (x, c') \<Rightarrow> (x, (k, c'))),
     api_Put = (\<lambda>r ips (k, c). case api_Put api r ips c of (x, c') \<Rightarrow> (x, (k, c'))),
     api_PutWithIfMatch = (\<lambda>r ips etag (k, c). case api_PutWithIfMatch api r ips etag c of (x, c') \<Rightarrow> (x, (k, c'))),
     api_Delete = (\<lambda>r (k, c). case api_Delete api r c of (x, c') \<Rightarrow> (x, (k, c'))),
     api_List = (\<lambda>g (k, c). case api_List api g c of (x, c') \<Rightarrow> (x, (k, c')))\<rparr>"

interpretation cluster: prefix_set_service "beside fake_api" "\<lambda>w. honest (snd w)" resourceKey "\<lambda>w. fake_stored (snd w)"
  using fake.prefix_set_service_axioms unfolding prefix_set_service_def prefix_set_store_def prefix_set_service_axioms_def
  by (auto simp: beside_def split_beta)

type_synonym ex_cluster = "(NamespacedName \<Rightarrow> PodASGMapping option) \<times> Client"

definition ex_cluster_kube :: "Pod list \<Rightarrow> ex_cluster kube_client" where
  "ex_cluster_kube pods = \<lparr>
     kc_Get = (\<lambda>key (objs, c). (case objs key of Some m \<Rightarrow> Inr m | None \<Rightarrow> Inl (ApiNotFound ''x''), (objs, c))),
     kc_UpdateStatus = (\<lambda>m (objs, c). (None, (objs(mapping_key m \<mapsto> m), c))),
     kc_Patch = (\<lambda>base m (objs, c). (Inr m, (objs(mapping_key m \<mapsto> m), c))),
     kc_ListPods = (\<lambda>ns w. (Inr pods, w)), kc_ListMappings = (\<lambda>w. (Inr [], w)), kc_Now = (\<lambda>w. 9)\<rparr>"

definition ex_cluster_env :: "ex_cluster exec_env" where
  "ex_cluster_env = \<lparr>env_ctx = (\<lambda>_. None), env_clock = (\<lambda>_. 0), env_factory = (\<lambda>_. Inr (beside fake_api)), env_pick = (\<lambda>_. True)\<rparr>"

definition ex_reconciler :: "Pod list \<Rightarrow> ex_cluster MappingReconciler" where
  "ex_reconciler pods = \<lparr>r_Client = ex_cluster_kube pods, r_ClusterName = ''c'', r_ResyncInterval = 60 * second, r_MinReconcileInterval = 0,
     r_PatchThresholdPercent = 50, r_PrefixSetFactory = (\<lambda>_. Inr (beside fake_api)),
     r_Executor = (\<lambda>acts. Execute (NewExecutor 2) ex_cluster_env [0..<length acts] acts),
     r_StatusUpdater = None, r_hasCache = False, r_order = (\<lambda>ts. ts), r_semaphore = (\<lambda>_ _. None),
     r_interleaved = (\<lambda>_ _ c. c)\<rparr>"

definition ex_live_mapping :: PodASGMapping where
  "ex_live_mapping = ex_mapping\<lparr>m_Finalizers := [CleanupFinalizer]\<rparr>"

definition ex_start :: "ex_cluster reconciler_state" where
  "ex_start = \<lparr>s_world = ([mapping_key ex_mapping \<mapsto> ex_live_mapping], NewClient), s_DesiredStateCache = NewDesiredStateCache ''c'',
     s_lastReconcileState = [], s_desiredStateResyncState = []\<rparr>"

text \<open>One pod of the first rule; nothing is stored yet.\<close>

abbreviation ex_web :: Pod where
  "ex_web \<equiv> ex_pod ''p'' ''web'' ''10.0.0.1''"

lemma ex_wanted: "wanted doc_matches ''c'' [ex_live_mapping] [ex_web] k = (if k = targetKey (ex_asg ''A'') then {''10.0.0.1/32''} else {})"
proof -
  have m: "m_Mappings ex_live_mapping = [ex_rule ''web'' ''A'', ex_rule ''db'' ''B'']" by (simp add: ex_live_mapping_def ex_mapping_def)
  have k: "rule_keys ''c'' ex_live_mapping (ex_rule app asg) = [targetKey (ex_asg asg)]" if "name_segment asg" for app asg
    using ex_resolve [OF that, of app] by (simp add: rule_keys_def prefix_set_name_def ex_live_mapping_def ex_mapping_def ex_psn)
  have s: "rule_selects doc_matches ex_live_mapping (ex_rule app asg) ex_web \<longleftrightarrow> app = ''web''" for app asg
    using ex_rule_matches by (simp add: rule_selects_iff ex_live_mapping_def ex_mapping_def)
  have t: "toCIDR ''10.0.0.1'' = ''10.0.0.1/32''" by (simp add: toCIDR_v4)
  have n: "name_segment ''A''" "name_segment ''B''" by (simp_all add: name_segment_def)
  show ?thesis using m k [OF n(1)] k [OF n(2)] s t by (auto simp: wanted_def)
qed

lemma ex_mapping_targets: "mapping_targets ''c'' ex_live_mapping = {ex_asg ''A'', ex_asg ''B''}"
  using ex_resolve [of "''A''" "''web''"] ex_resolve [of "''B''" "''db''"]
  by (auto simp: mapping_targets_def ex_live_mapping_def ex_mapping_def prefix_set_name_def ex_psn name_segment_def lessThan_Suc numeral_2_eq_2)

lemma ex_key_neq: "targetKey (ex_asg ''A'') \<noteq> targetKey (ex_asg ''B'')"
  by code_simp

lemma distinct_singleton: "distinct xs \<Longrightarrow> set xs = {x} \<Longrightarrow> xs = [x]"
  by (cases xs; cases "tl xs") auto

lemma ex_nonempty:
  assumes "right_desired doc_matches ''c'' ex_live_mapping [ex_web] D"
  shows "nonempty_desired D = [(ex_asg ''A'', [''10.0.0.1/32''])]"
proof -
  let ?N = "nonempty_desired D" and ?T = "{ex_asg ''A'', ex_asg ''B''}"
  have wf: "wf_state D" and keys: "keys_in D ?T" and v: "nonempty_view D k = (if k = targetKey (ex_asg ''A'') then Some {''10.0.0.1/32''} else None)" for k
    using assms by (simp_all add: right_desired_def ex_mapping_targets ex_wanted)
  have sub: "set (gkeys D) \<subseteq> ?T" using keys unfolding keys_in_def gkeys_iff [symmetric] by blast
  have inj: "inj_on targetKey ?T" using ex_key_neq by (auto simp: inj_on_def)
  have wfN: "wf_state ?N" "set (gkeys ?N) \<subseteq> ?T" using wf_nonempty [OF wf] sub by (auto simp: nonempty_desired_def)
  have g: "map_option set (gget ?N t) = (if t = ex_asg ''A'' then Some {''10.0.0.1/32''} else None)" if "t \<in> ?T" for t
    using view_nonempty [OF wf inj sub that] view_inj [OF wfN(1) inj wfN(2) that] v [of "targetKey t"] that ex_key_neq by auto
  obtain ips where ips: "gget ?N (ex_asg ''A'') = Some ips" "set ips = {''10.0.0.1/32''}" using g [of "ex_asg ''A''"] by auto
  have "distinct ips" using gget_in_set [OF ips(1)] wfN(1) by (auto simp: wf_state_def)
  then have "ips = [''10.0.0.1/32'']" using ips(2) by (rule distinct_singleton)
  moreover have "set (gkeys ?N) = {ex_asg ''A''}"
  proof -
    have "gget ?N (ex_asg ''B'') = None" using g [of "ex_asg ''B''"] by (simp add: ex_asg_inject)
    then have "ex_asg ''B'' \<notin> set (gkeys ?N)" "ex_asg ''A'' \<in> set (gkeys ?N)" using ips(1) unfolding gkeys_iff by simp_all
    then show ?thesis using wfN(2) by blast
  qed
  then have "gkeys ?N = [ex_asg ''A'']" using wfN(1) by (intro distinct_singleton) (simp_all add: wf_state_def)
  ultimately show ?thesis using ips(1) by (cases ?N) auto
qed

definition ex_action :: Action where
  "ex_action = \<lparr>act_Kind = CreatePrefixSet, act_Target = ex_asg ''A'', act_DesiredIPs = [''10.0.0.1/32''], act_AddIPs = [], act_RemoveIPs = []\<rparr>"

lemma ex_plan: "ComputeDiff [(ex_asg ''A'', [''10.0.0.1/32''])] [] 50 = [ex_action]"
  by (simp add: ComputeDiff_def unsortedDiff_def diffDesired_def byKey_def ex_action_def sortedIPs_def)

lemma ex_execute:
  "\<exists>c' r'. r_Executor (ex_reconciler pods) [ex_action] (objs, NewClient\<lparr>cl_getCallCount := n\<rparr>) = ([r'], (objs, c')) \<and> ar_Success r' \<and> ar_Action r' = ex_action"
  by (simp add: ex_reconciler_def ex_cluster_env_def Execute_def execute_one_def run_action_def executeWithETagRetry_def NewExecutor_def numeral_3_eq_3
      executeAction_def ex_action_def beside_def fake_api_def Client_Put_def NewClient_def consumeInjectedError_def Let_def)

lemma ex_read: "listActualForTargets (ex_reconciler pods) [ex_asg ''A''] (objs, NewClient) = Some (Inr [], (objs, NewClient\<lparr>cl_getCallCount := 1\<rparr>))"
  by (simp add: listActualForTargets_def ex_reconciler_def resolve_client_def read_target_def beside_def fake_api_def Client_Get_def NewClient_def
      consumeInjectedError_def IsNotFound_def errors_Is_def aggregateListActualTargetErrors_def Let_def)

abbreviation ex_refs :: owned_refs where
  "ex_refs \<equiv> UpdateOwnedASGsAfterResults None [(ex_asg ''A'', [''10.0.0.1/32''])] []"

lemma ex_prepare:
  assumes "nonempty_desired (rv_desired rv) = [(ex_asg ''A'', [''10.0.0.1/32''])]" and "s_world s = s_world ex_start"
  obtains objs s1 where "prepare (ex_reconciler pods) key ex_live_mapping ok rv s = Some (Inr \<lparr>pl_mapping = StoreOwnedASGs ex_live_mapping ex_refs,
      pl_desired = [(ex_asg ''A'', [''10.0.0.1/32''])], pl_allTargets = [ex_asg ''A''], pl_actions = [ex_action], pl_preRefs = ex_refs\<rparr>, s1)"
    and "s_world s1 = (objs, NewClient\<lparr>cl_getCallCount := 1\<rparr>)"
proof -
  have o: "LoadOwnedASGs ex_live_mapping = Inr None" by (simp add: LoadOwnedASGs_def ex_live_mapping_def ex_mapping_def ex_mapping_of_def)
  have a: "all_targets [(ex_asg ''A'', [''10.0.0.1/32''])] (TargetsFromOwnedASGs None ok) = [ex_asg ''A'']"
    by (simp add: all_targets_def TargetsFromOwnedASGs_def set_of_slice_def)
  have o': "add_owned_actual D (TargetsFromOwnedASGs None ok) [] = []" for D by (simp add: add_owned_actual_def TargetsFromOwnedASGs_def set_of_slice_def)
  have ch: "ownershipAnnotationChanged None ex_refs"
    by (simp add: ownershipAnnotationChanged_iff UpdateOwnedASGsAfterResults_def merge_desired_def successful_deletes_def Let_def)
  have "prepare (ex_reconciler pods) key ex_live_mapping ok rv s = Some (Inr \<lparr>pl_mapping = StoreOwnedASGs ex_live_mapping ex_refs,
      pl_desired = [(ex_asg ''A'', [''10.0.0.1/32''])], pl_allTargets = [ex_asg ''A''], pl_actions = [ex_action], pl_preRefs = ex_refs\<rparr>,
      snd (external (ex_reconciler pods) (kc_Patch (r_Client (ex_reconciler pods)) ex_live_mapping (StoreOwnedASGs ex_live_mapping ex_refs))
        (snd (external (ex_reconciler pods) (\<lambda>_. ((), fst (s_world s), NewClient\<lparr>cl_getCallCount := 1\<rparr>)) s))))"
    using ex_read [of pods] assms o a o' ch ex_plan
    by (auto simp: prepare_def Let_def ex_start_def external_def patch_owned_def) (simp add: ex_reconciler_def ex_cluster_kube_def split_beta)
  moreover have "snd (s_world (snd (external (ex_reconciler pods) (kc_Patch (r_Client (ex_reconciler pods)) b x)
      (snd (external (ex_reconciler pods) (\<lambda>_. ((), w, c)) s))))) = c" for b x w c
    by (simp add: external_def ex_reconciler_def ex_cluster_kube_def split_beta)
  ultimately show thesis by (metis that prod.collapse)
qed

lemma ex_apply:
  assumes "nonempty_desired (rv_desired rv) = [(ex_asg ''A'', [''10.0.0.1/32''])]" and "s_world s = s_world ex_start"
  shows "\<exists>res s'. apply_desired (ex_reconciler pods) key ex_live_mapping ok rv s = Some ((res, None, Some ReconcileStageSteadyStateSuccess), s')"
proof -
  let ?r = "ex_reconciler pods"
  let ?pre = ex_refs
  obtain objs s1 where s1: "prepare ?r key ex_live_mapping ok rv s = Some (Inr \<lparr>pl_mapping = StoreOwnedASGs ex_live_mapping ?pre,
      pl_desired = [(ex_asg ''A'', [''10.0.0.1/32''])], pl_allTargets = [ex_asg ''A''], pl_actions = [ex_action], pl_preRefs = ?pre\<rparr>, s1)"
    "s_world s1 = (objs, NewClient\<lparr>cl_getCallCount := 1\<rparr>)"
    by (rule ex_prepare [OF assms])
  obtain c' r' where x: "r_Executor ?r [ex_action] (objs, NewClient\<lparr>cl_getCallCount := 1\<rparr>) = ([r'], (objs, c'))" "ar_Success r'" "ar_Action r' = ex_action"
    using ex_execute [of pods objs 1] by blast
  have same: "\<not> ownershipAnnotationChanged ?pre (UpdateOwnedASGsAfterResults ?pre [(ex_asg ''A'', [''10.0.0.1/32''])] [r'])"
    using x(2,3) by (simp add: ownershipAnnotationChanged_iff UpdateOwnedASGsAfterResults_def merge_desired_def merge_existing_def successful_deletes_def
        ex_action_def Let_def ownedASGRefKey_def ownedASGTargetKey_def target_ref_def)
  have "aggregateActionFailures [r'] = None" using x(2) by (simp add: aggregateActionFailures_def split: option.split)
  moreover have "r_StatusUpdater ?r = None" by (simp add: ex_reconciler_def)
  ultimately show ?thesis using s1 x(1) same
    by (simp add: apply_desired_def external_def finish_def Let_def patch_owned_def status_call_def decide_exit_def)
qed

lemma ex_reconcile:
  "\<exists>res s'. Reconcile doc_matches (ex_reconciler [ex_web]) (mapping_key ex_mapping) ex_start =
     Some ((res, None, Some ReconcileStageSteadyStateSuccess), s')"
proof -
  let ?r = "ex_reconciler [ex_web]" and ?ok = "OwnershipKey ''c'' (m_Namespace ex_live_mapping) (m_Name ex_live_mapping)"
  let ?arts = "ComputeDesiredStateRecomputeArtifacts doc_matches ''c'' ex_live_mapping [ex_web]"
  let ?s = "markDesiredStateFullRecompute (mapping_key ex_mapping) (m_Generation ex_live_mapping) 9 ex_start"
  have r: "r_ClusterName ?r = ''c''" "r_hasCache ?r = False" "r_StatusUpdater ?r = None" "r_MinReconcileInterval ?r = 0" "now ?r s = 9"
    "external ?r (kc_Get (r_Client ?r) (mapping_key ex_mapping)) ex_start = (Inr ex_live_mapping, ex_start)"
    "external ?r (kc_ListPods (r_Client ?r) ns) ex_start = (Inr [ex_web], ex_start)" for s ns
    by (simp_all add: ex_reconciler_def ex_cluster_kube_def external_def ex_start_def now_def)
  have m: "m_DeletionTimestamp ex_live_mapping = None" "CleanupFinalizer \<in> set (m_Finalizers ex_live_mapping)"
    "validateASGResourceIDs (m_Mappings ex_live_mapping) = []"
    using ex_lists_mapping by (simp_all add: ex_live_mapping_def ex_mapping_def ex_mapping_of_def lists_mapping_def)
  have "nonempty_desired (rv_desired (resolved_arts ?arts)) = [(ex_asg ''A'', [''10.0.0.1/32''])]"
    using ex_nonempty [OF right_recompute] by (simp add: resolved_arts_def)
  from ex_apply [OF this, of ?s "[ex_web]" "mapping_key ex_mapping" ?ok] obtain res s' where "apply_desired ?r (mapping_key ex_mapping) ex_live_mapping ?ok (resolved_arts ?arts) ?s =
      Some ((res, None, Some ReconcileStageSteadyStateSuccess), s')"
    by auto
  then show ?thesis using r m
    by (simp add: Reconcile_def reconcile_live_def ensureFinalizer_def debounceRemaining_def resolve_desired_def recompute_desired_def
        list_and_recompute_def reconcile_resolved_def status_call_def Let_def)
qed

lemma ex_wiring: "azure_wiring (ex_reconciler pods) (beside fake_api)"
  unfolding azure_wiring_def
  by (intro conjI exI [of _ "NewExecutor 2"] exI [of _ ex_cluster_env] exI [of _ "\<lambda>acts. [0..<length acts]"])
    (auto simp: ex_reconciler_def NewExecutor_def ex_cluster_env_def)


end
