(* ===== verification/Reconcile_Ownership.thy ===== *)
theory Reconcile_Ownership
  imports Reconcile_Azure
begin

text \<open>
  Ownership over the life of a mapping: a reconcile records every target in the annotation of
  the object before it writes to Azure, and the finalizer of a deleted object goes only after
  every owned prefix set.
\<close>

section \<open>What Azure calls keep\<close>

definition api_keeps :: "'w AddressPrefixSetAPI \<Rightarrow> ('w \<Rightarrow> bool) \<Rightarrow> bool" where
  "api_keeps api Q \<longleftrightarrow> (\<forall>w. Q w \<longrightarrow> (\<forall>r. Q (snd (api_Get api r w))) \<and> (\<forall>g. Q (snd (api_List api g w))) \<and> (\<forall>r. Q (snd (api_Delete api r w))))"

definition factory_keeps :: "'w MappingReconciler \<Rightarrow> ('w \<Rightarrow> bool) \<Rightarrow> bool" where
  "factory_keeps r Q \<longleftrightarrow> (\<forall>sub api. r_PrefixSetFactory r sub = Inr api \<longrightarrow> api_keeps api Q)"

lemma delete_prefix_set_keeps:
  assumes "api_keeps api Q" and "Q (snd acc)"
  shows "Q (snd (delete_prefix_set api t ok ps acc))"
proof (cases "aps_Name ps")
  case (Some name)
  have "Q (snd (api_Delete api (tgt_SubscriptionID t, tgt_ResourceGroup t, tgt_ASGName t, name) (snd acc)))"
    using assms by (simp add: api_keeps_def)
  then show ?thesis using assms(2) Some by (auto simp: delete_prefix_set_def split: prod.splits option.splits)
qed (use assms(2) in \<open>cases acc, simp add: delete_prefix_set_def\<close>)

lemma delete_target_keeps:
  assumes "factory_keeps r Q" and "Q (snd acc)"
  shows "Q (snd (delete_target r ok t acc))"
proof (cases "r_PrefixSetFactory r (tgt_SubscriptionID t)")
  case (Inl e)
  then show ?thesis using assms(2) by (cases acc) (simp add: delete_target_def)
next
  case (Inr api)
  have k: "api_keeps api Q" using assms(1) Inr by (auto simp: factory_keeps_def)
  have f: "Q (snd acc') \<Longrightarrow> Q (snd (fold (delete_prefix_set api t ok) sets acc'))" for sets acc'
    by (induction sets arbitrary: acc') (simp_all add: delete_prefix_set_keeps [OF k])
  have "Q (snd (api_List api (tgt_SubscriptionID t, tgt_ResourceGroup t, tgt_ASGName t) (snd acc)))" using k assms(2) by (simp add: api_keeps_def)
  then show ?thesis using Inr f by (auto simp: delete_target_def split: prod.splits sum.splits)
qed

lemma reconcileDelete_keeps:
  assumes "factory_keeps r Q" and "Q w" and "reconcileDelete r m ok w = (res, w')"
  shows "Q w'"
proof (cases "LoadOwnedASGs m")
  case (Inl e)
  then show ?thesis using assms(2,3) by (simp add: reconcileDelete_def)
next
  case (Inr owned)
  have "Q (snd acc) \<Longrightarrow> Q (snd (fold (delete_target r ok) ts acc))" for ts acc
    by (induction ts arbitrary: acc) (simp_all add: delete_target_keeps [OF assms(1)])
  from this [of "([], w)"] show ?thesis using assms(2,3) Inr by (auto simp: reconcileDelete_def split: prod.splits) (metis snd_conv)
qed

section \<open>Deletion\<close>

text \<open>
  The stored objects: reads do not change them, neither does a patch that fails.
\<close>

definition objects_kept :: "'w kube_client \<Rightarrow> ('w \<Rightarrow> 'o) \<Rightarrow> bool" where
  "objects_kept c obj \<longleftrightarrow> (\<forall>key w. obj (snd (kc_Get c key w)) = obj w) \<and>
     (\<forall>base m w e w'. kc_Patch c base m w = (Inl e, w') \<longrightarrow> obj w' = obj w)"

lemma finalizeSystemError_no_write: "finalizeSystemError r key m ok matched e False results s =
    (exit_at (DecideRequeueFromSystemError (Some e) (DefaultRequeuePolicy (r_ResyncInterval r))) ReconcileStageSystemError, s)"
  by (simp add: finalizeSystemError_def)

text \<open>The steps of a reconcile of a deleted object with the finalizer.\<close>

lemma Reconcile_delete_steps [consumes 5, case_names failed unpatched patched]:
  assumes "Reconcile M r key s = Some ((res, err, stage), s')" and "kc_Get (r_Client r) key (s_world s) = (Inr m, w1)"
    and "m_DeletionTimestamp m \<noteq> None" and "CleanupFinalizer \<in> set (m_Finalizers m)"
    and "ok = OwnershipKey (r_ClusterName r) (m_Namespace m) (m_Name m)"
  obtains (failed) e where "reconcileDelete r m ok w1 = (Some e, s_world s')" and "stage \<noteq> Some ReconcileStageDeleteComplete"
  | (unpatched) w2 e where "reconcileDelete r m ok w1 = (None, w2)"
    and "kc_Patch (r_Client r) m (m\<lparr>m_Finalizers := removeAll CleanupFinalizer (m_Finalizers m)\<rparr>) w2 = (Inl e, s_world s')"
  | (patched) w2 m' where "reconcileDelete r m ok w1 = (None, w2)"
    and "kc_Patch (r_Client r) m (m\<lparr>m_Finalizers := removeAll CleanupFinalizer (m_Finalizers m)\<rparr>) w2 = (Inr m', s_world s')"
proof -
  obtain s1 where s1: "external r (kc_Get (r_Client r) key) s = (Inr m, s1)" "s_world s1 = w1" using assms(2) by (simp add: external_def)
  have d: "reconcile_deleted r key m ok s1 = ((res, err, stage), s')" using assms(1,3) s1(1) by (simp add: Reconcile_def Let_def assms(5))
  obtain x w2 where rd: "reconcileDelete r m ok w1 = (x, w2)" by fastforce
  let ?m = "m\<lparr>m_Finalizers := removeAll CleanupFinalizer (m_Finalizers m)\<rparr>"
  obtain y w3 where p: "kc_Patch (r_Client r) m ?m w2 = (y, w3)" by fastforce
  show thesis
  proof (cases x)
    case (Some e)
    then show thesis using d rd s1(2) assms(4) failed by (auto simp: reconcile_deleted_def external_def finalizeSystemError_no_write)
  next
    case None
    show thesis
    proof (cases y)
      case (Inl e)
      then show thesis using d rd s1(2) assms(4) None p unpatched by (auto simp: reconcile_deleted_def external_def finalizeSystemError_no_write Let_def)
    next
      case (Inr m')
      then show thesis using d rd s1(2) assms(4) None p patched by (auto simp: reconcile_deleted_def external_def Let_def)
    qed
  qed
qed

section \<open>The finalizer\<close>

text \<open>C4:
  The finalizer of a deleted mapping is removed only when its prefix sets are gone: if the
  stored objects changed, or the exit reports a completed deletion, then no candidate target of
  the mapping (the owned ones, or those of the spec if nothing is recorded) stores anything.
  Whatever the exit, only prefix sets named by the ownership key, up to case, in the groups of
  the candidates were deleted, and nothing was written.
\<close>

theorem finalizer_kept_until_clean:
  fixes stored :: "'w \<Rightarrow> 'k \<Rightarrow> string set option" and obj :: "'w \<Rightarrow> 'o"
  assumes "prefix_set_service api invar ident stored" and "azure_wiring r api" and "kube_keeps (r_Client r) (\<lambda>w. invar w)"
    and "\<forall>S. kube_keeps (r_Client r) (\<lambda>w. stored w = S)" and "objects_kept (r_Client r) obj"
    and "\<forall>objs. api_keeps api (\<lambda>w. obj w = objs)" and "invar (s_world s)"
    and "kc_Get (r_Client r) key (s_world s) = (Inr m, w1)" and "m_DeletionTimestamp m \<noteq> None" and "CleanupFinalizer \<in> set (m_Finalizers m)"
    and "LoadOwnedASGs m = Inr owned" and "ownershipKey = OwnershipKey (r_ClusterName r) (m_Namespace m) (m_Name m)"
    and "candidates = set (delete_candidates m ownershipKey owned)"
    and "Reconcile M r key s = Some ((res, err, stage), s')"
  shows "(obj (s_world s') \<noteq> obj (s_world s) \<or> stage = Some ReconcileStageDeleteComplete \<longrightarrow>
      (\<forall>t \<in> candidates. stored (s_world s') (ident (tgt_SubscriptionID t, tgt_ResourceGroup t, tgt_ASGName t, ownershipKey)) = None)) \<and>
    (\<forall>k. stored (s_world s') k = stored (s_world s) k \<or>
      stored (s_world s') k = None \<and> k \<in> ident ` (\<Union> (owned_resources ownershipKey ` candidates)))"
proof -
  have fac: "\<And>sub. r_PrefixSetFactory r sub = Inr api" "\<And>ts. set (r_order r ts) = set ts" using assms(2) by (auto simp: azure_wiring_def)
  have w1: "invar w1" "stored w1 = stored (s_world s)" "obj w1 = obj (s_world s)"
    using kube_keeps_calls(1) [OF assms(3,7,8)] kube_keeps_calls(1) [OF assms(4) [rule_format] refl assms(8)] assms(5,8)
    by (auto simp: objects_kept_def) (metis snd_conv)
  have fk: "factory_keeps r (\<lambda>w. obj w = obj w1)" using assms(6) fac(1) by (auto simp: factory_keeps_def)
  note clean = prefix_set_service.reconcileDelete_clean [OF assms(1) w1(1) fac assms(11)]
  have patch: "stored w' = stored w2" if "kc_Patch (r_Client r) b m' w2 = (x, w')" for b m' w2 x w'
    using kube_keeps_calls(3) [OF assms(4) [rule_format] refl that] by simp
  from assms(14,8,9,10,12) show ?thesis
  proof (cases rule: Reconcile_delete_steps)
    case (failed e)
    then show ?thesis using clean(2) [OF failed(1)] reconcileDelete_keeps [OF fk refl failed(1)] w1 assms(13) by auto
  next
    case (unpatched w2 e)
    then show ?thesis using clean(2,3) [OF unpatched(1)] patch [OF unpatched(2)] w1 assms(13) by auto
  next
    case (patched w2 m')
    then show ?thesis using clean(2,3) [OF patched(1)] patch [OF patched(2)] w1 assms(13) by auto
  qed
qed


text \<open>A deleted mapping with one prefix set of its own and one of another owner.\<close>

definition ex_deleted :: PodASGMapping where
  "ex_deleted = ex_live_mapping\<lparr>m_DeletionTimestamp := Some 5\<rparr>"

definition ex_entry :: PrefixSetEntry where
  "ex_entry = \<lparr>pse_IPs = [''10.0.0.1/32''], pse_ETag = ''v'', pse_Version = 1\<rparr>"

definition ex_delete_start :: "ex_cluster reconciler_state" where
  "ex_delete_start = ex_start\<lparr>s_world := ([mapping_key ex_mapping \<mapsto> ex_deleted],
     NewClient\<lparr>cl_store := [(''S/rg/A/c-ns-m'', ex_entry), (''S/rg/A/c-ns-other'', ex_entry)]\<rparr>)\<rparr>"

lemma ex_candidates: "delete_candidates ex_deleted ''c-ns-m'' None = [ex_asg ''B'', ex_asg ''A'']"
  using ex_resolve [of "''A''" "''web''"] ex_resolve [of "''B''" "''db''"]
  by (simp add: delete_candidates_def ex_deleted_def ex_live_mapping_def ex_mapping_def name_segment_def set_of_slice_def ex_asg_inject)

lemma ex_delete_run:
  "fst (reconcileDelete (ex_reconciler pods) ex_deleted ''c-ns-m'' (s_world ex_delete_start)) = None"
proof -
  have o: "LoadOwnedASGs ex_deleted = Inr None" by (simp add: LoadOwnedASGs_def ex_deleted_def ex_live_mapping_def ex_mapping_def ex_mapping_of_def)
  show ?thesis
    by (simp add: reconcileDelete_def o ex_candidates ex_reconciler_def ex_delete_start_def delete_target_def beside_def fake_api_def Client_List_def
        ex_asg_def target_of_def canonical_ref_def NewClient_def consumeInjectedError_def Let_def HasPrefix_def delete_prefix_set_def
        PrefixSetNameEqualsOwnership_def EqualFold_def ToLower_def Client_Delete_def aggregateDeleteCleanupErrors_def inject_key_def)
qed

theorem finalizer_kept_until_clean_witness:
  "\<exists>res s'. Reconcile doc_matches (ex_reconciler []) (mapping_key ex_mapping) ex_delete_start =
      Some ((res, None, Some ReconcileStageDeleteComplete), s') \<and>
    fake_stored (snd (s_world s')) (resourceKey (''S'', ''rg'', ''A'', ''c-ns-m'')) = None \<and>
    fake_stored (snd (s_world s')) (resourceKey (''S'', ''rg'', ''A'', ''c-ns-other'')) = Some {''10.0.0.1/32''}"
proof -
  let ?r = "ex_reconciler []" and ?key = "mapping_key ex_mapping"
  have g: "kc_Get (r_Client ?r) ?key (s_world ex_delete_start) = (Inr ex_deleted, s_world ex_delete_start)"
    by (simp add: ex_reconciler_def ex_cluster_kube_def ex_delete_start_def ex_start_def)
  have m: "m_DeletionTimestamp ex_deleted \<noteq> None" "CleanupFinalizer \<in> set (m_Finalizers ex_deleted)" "LoadOwnedASGs ex_deleted = Inr None"
    "m_Namespace ex_deleted = ''ns''" "m_Name ex_deleted = ''m''"
    by (simp_all add: ex_deleted_def ex_live_mapping_def LoadOwnedASGs_def ex_mapping_def ex_mapping_of_def)
  have ok: "''c-ns-m'' = OwnershipKey (r_ClusterName ?r) (m_Namespace ex_deleted) (m_Name ex_deleted)"
    using m ex_psn by (simp add: ex_reconciler_def)
  obtain w2 where d: "reconcileDelete ?r ex_deleted ''c-ns-m'' (s_world ex_delete_start) = (None, w2)"
    using ex_delete_run [of "[]"] by (metis prod.collapse)
  have p: "fst (kc_Patch (r_Client ?r) b x w) = Inr x" for b x w by (simp add: ex_reconciler_def ex_cluster_kube_def split_beta)
  obtain s' where run: "Reconcile doc_matches ?r ?key ex_delete_start = Some ((result_zero, None, Some ReconcileStageDeleteComplete), s')"
    using g m d p ok [symmetric]
    by (auto simp: Reconcile_def reconcile_deleted_def external_def Let_def split_beta)
  have w: "azure_wiring ?r (beside fake_api)" by (rule ex_wiring)
  have k: "kube_keeps (r_Client ?r) (\<lambda>w. honest (snd w))" "\<forall>S. kube_keeps (r_Client ?r) (\<lambda>w. fake_stored (snd w) = S)"
    by (auto simp: kube_keeps_def ex_reconciler_def ex_cluster_kube_def)
  have ob: "objects_kept (r_Client ?r) fst" "\<forall>objs. api_keeps (beside fake_api) (\<lambda>w. fst w = objs)"
    by (auto simp: objects_kept_def api_keeps_def ex_reconciler_def ex_cluster_kube_def beside_def split_beta)
  have h: "honest (snd (s_world ex_delete_start))" by (simp add: ex_delete_start_def honest_NewClient)
  have other: "fake_stored (snd (s_world ex_delete_start)) (resourceKey (''S'', ''rg'', ''A'', ''c-ns-other'')) = Some {''10.0.0.1/32''}"
    by (simp add: ex_delete_start_def fake_stored_def resourceKey_def ex_entry_def)
  have no: "resourceKey (''S'', ''rg'', ''A'', ''c-ns-other'') \<notin> resourceKey ` (\<Union> (owned_resources ''c-ns-m'' ` set (delete_candidates ex_deleted ''c-ns-m'' None)))"
  proof -
    have "\<not> EqualFold ''c-ns-other'' ''c-ns-m''" by (simp add: EqualFold_def ToLower_def)
    then show ?thesis unfolding ex_candidates
      by (auto simp: owned_resources_def resourceKey_def ex_asg_def target_of_def canonical_ref_def)
  qed
  note f = finalizer_kept_until_clean [OF cluster.prefix_set_service_axioms w k ob h g m(1,2,3) ok refl run]
  have "\<forall>t \<in> set (delete_candidates ex_deleted ''c-ns-m'' None).
      fake_stored (snd (s_world s')) (resourceKey (tgt_SubscriptionID t, tgt_ResourceGroup t, tgt_ASGName t, ''c-ns-m'')) = None"
    using conjunct1 [OF f] by simp
  moreover have "fake_stored (snd (s_world s')) (resourceKey (''S'', ''rg'', ''A'', ''c-ns-other'')) = Some {''10.0.0.1/32''}"
    using spec [OF conjunct2 [OF f], of "resourceKey (''S'', ''rg'', ''A'', ''c-ns-other'')"] other no by (simp only: simp_thms)
  ultimately show ?thesis using run by (auto simp: ex_candidates ex_asg_def target_of_def canonical_ref_def)
qed


section \<open>Ownership is recorded before Azure is written\<close>

lemma read_target_keeps:
  assumes "factory_keeps r Q" and "\<forall>sub c. gget clients sub = Some c \<longrightarrow> api_keeps c Q"
    and "read_target r clients t (Some (actual, errs, w)) = Some (actual', errs', w')" and "Q w"
  shows "Q w' \<and> set (gkeys actual') \<subseteq> insert t (set (gkeys actual))"
proof (cases "gget clients (tgt_SubscriptionID t)")
  case None
  then show ?thesis using assms(3,4) by (auto simp: read_target_def simp del: set_map)
next
  case (Some c)
  have "api_keeps c Q" using assms(2) Some by blast
  then have q: "Q (snd (api_Get c (target_resource t) w))" using assms(4) unfolding api_keeps_def by blast
  show ?thesis
    using assms(3,4) Some q by (cases "api_Get c (target_resource t) w") (auto simp: read_target_def gkeys_iff simp del: set_map split: option.splits sum.splits if_splits)
qed

lemma read_targets_none: "fold (read_target r clients) ts None = None"
  by (induction ts) (simp_all add: read_target_def)

lemma read_targets_steps:
  assumes "factory_keeps r Q" and "\<forall>sub c. gget clients sub = Some c \<longrightarrow> api_keeps c Q"
    and "fold (read_target r clients) ts (Some (actual, errs, w)) = Some (actual', errs', w')" and "Q w"
  shows "Q w' \<and> set (gkeys actual') \<subseteq> set ts \<union> set (gkeys actual)"
  using assms(3,4)
proof (induction ts arbitrary: actual errs w)
  case (Cons t ts)
  then obtain a e v where st: "read_target r clients t (Some (actual, errs, w)) = Some (a, e, v)"
    by (cases "read_target r clients t (Some (actual, errs, w))") (auto simp: read_targets_none)
  from read_target_keeps [OF assms(1,2) st Cons.prems(2)] Cons.IH [of a e v] Cons.prems(1) st show ?case by (auto simp del: set_map)
qed simp

lemma resolve_clients_keep:
  assumes "factory_keeps r Q"
  shows "\<forall>sub c. gget (fst (fold (resolve_client (r_PrefixSetFactory r) tl') ts ([], [], []))) sub = Some c \<longrightarrow> api_keeps c Q"
proof -
  let ?ok = "\<lambda>acc. \<forall>sub c. gget (fst acc) sub = Some c \<longrightarrow> api_keeps c Q"
  have st: "fst (resolve_client (r_PrefixSetFactory r) tl' t acc) = fst acc \<or>
      (\<exists>c. r_PrefixSetFactory r (tgt_SubscriptionID t) = Inr c \<and>
        fst (resolve_client (r_PrefixSetFactory r) tl' t acc) = gput (tgt_SubscriptionID t) c (fst acc))" for t acc
    by (cases acc) (simp add: resolve_client_def Let_def split: sum.split)
  have "?ok (resolve_client (r_PrefixSetFactory r) tl' t acc)" if ok: "?ok acc" for t acc
    using st [of t acc]
  proof (elim disjE exE conjE)
    fix c assume c: "r_PrefixSetFactory r (tgt_SubscriptionID t) = Inr c"
      "fst (resolve_client (r_PrefixSetFactory r) tl' t acc) = gput (tgt_SubscriptionID t) c (fst acc)"
    have "api_keeps c Q" using assms c(1) unfolding factory_keeps_def by blast
    then show ?thesis using ok unfolding c(2) gget_gput by simp
  qed (use ok in simp)
  note step = this
  have "?ok (fold (resolve_client (r_PrefixSetFactory r) tl') ts acc)" if "?ok acc" for acc
    using TrueI that by (rule fold_invariant [where Q = "\<lambda>_. True"]) (rule step)
  from this [of "([], [], [])"] show ?thesis by simp
qed

lemma listActual_keeps:
  assumes "factory_keeps r Q" and "\<forall>ts. set (r_order r ts) = set ts" and "Q w"
    and "listActualForTargets r targets w = Some (res, w')"
  shows "Q w'" and "res = Inr actual \<Longrightarrow> set (gkeys actual) \<subseteq> set targets"
proof -
  let ?tl = "sort_key targetKey targets"
  obtain clients failed errs where c: "fold (resolve_client (r_PrefixSetFactory r) ?tl) ?tl ([], [], []) = (clients, failed, errs)"
    by (metis prod_cases3)
  have k: "\<forall>sub c. gget clients sub = Some c \<longrightarrow> api_keeps c Q" using resolve_clients_keep [OF assms(1), of ?tl ?tl] c by simp
  have "Q w' \<and> (\<forall>actual. res = Inr actual \<longrightarrow> set (gkeys actual) \<subseteq> set targets)"
  proof (cases "targets = []")
    case False
    then obtain a e where st: "fold (read_target r clients) (r_order r ?tl) (Some ([], errs, w)) = Some (a, e, w')"
      and res: "res = Inr actual \<Longrightarrow> actual = a" for actual
      using assms(4) c by (auto simp: listActualForTargets_def split: option.splits)
    from read_targets_steps [OF assms(1) k st assms(3)] assms(2) res show ?thesis by (auto simp del: set_map)
  qed (use assms(3,4) in \<open>auto simp: listActualForTargets_def\<close>)
  then show "Q w'" and "res = Inr actual \<Longrightarrow> set (gkeys actual) \<subseteq> set targets" by auto
qed

text \<open>
  A merge patch against the annotation that is stored: a successful one stores the annotation
  of the modified object.
\<close>

definition patch_stores :: "'w kube_client \<Rightarrow> NamespacedName \<Rightarrow> ('w \<Rightarrow> goerror + owned_refs) \<Rightarrow> bool" where
  "patch_stores c key owned \<longleftrightarrow>
     (\<forall>base m w m' w'. kc_Patch c base m w = (Inr m', w') \<longrightarrow> mapping_key base = key \<longrightarrow> mapping_key m = key \<longrightarrow> owned w = LoadOwnedASGs base \<longrightarrow> owned w' = LoadOwnedASGs m)"

lemma patch_owned_stores:
  assumes "patch_owned r m old upd s = (None, m', s')" and "patch_stores (r_Client r) (mapping_key m) owned" and "LoadOwnedASGs m = Inr old"
    and "owned (s_world s) = Inr old"
  shows "\<exists>refs. owned (s_world s') = Inr refs \<and> slice refs = slice upd"
proof (cases "ownershipAnnotationChanged old upd")
  case True
  moreover have "mapping_key (StoreOwnedASGs m upd) = mapping_key m" by (simp add: StoreOwnedASGs_def mapping_key_def)
  ultimately show ?thesis using assms Load_Store [of m upd]
    by (auto simp: patch_owned_def external_def patch_stores_def split: prod.splits sum.splits)
next
  case False
  then show ?thesis using assms by (auto simp: patch_owned_def ownershipAnnotationChanged_iff)
qed

lemma prepare_steps:
  assumes "prepare r key m ok rv s = Some (Inr p, s')" and "LoadOwnedASGs m = Inr old"
  obtains actual s1 where "listActualForTargets r (all_targets (nonempty_desired (rv_desired rv)) (TargetsFromOwnedASGs old ok)) (s_world s) =
      Some (Inr actual, s_world s1)"
    and "pl_actions p = ComputeDiff (nonempty_desired (rv_desired rv))
      (add_owned_actual (nonempty_desired (rv_desired rv)) (TargetsFromOwnedASGs old ok) actual) (r_PatchThresholdPercent r)"
    and "patch_owned r m old (UpdateOwnedASGsAfterResults old (nonempty_desired (rv_desired rv)) []) s1 = (None, pl_mapping p, s')"
proof -
  let ?D = "nonempty_desired (rv_desired rv)" and ?T = "TargetsFromOwnedASGs old ok"
  obtain read w where l: "listActualForTargets r (all_targets ?D ?T) (s_world s) = Some (read, w)"
    using assms by (cases "listActualForTargets r (all_targets ?D ?T) (s_world s)") (auto simp: prepare_def Let_def)
  obtain s1 where s1: "external r (\<lambda>_. (read, w)) s = (read, s1)" "s_world s1 = w" by (simp add: external_def)
  obtain actual where a: "read = Inr actual" using assms l s1(1) by (cases read) (auto simp: prepare_def Let_def split: prod.splits)
  obtain e m' s2 where po: "patch_owned r m old (UpdateOwnedASGsAfterResults old ?D []) s1 = (e, m', s2)" by (metis prod_cases3)
  then have "e = None" using assms l s1(1) a by (cases e) (auto simp: prepare_def Let_def split: prod.splits)
  then show thesis using that [of actual s1] assms l s1 a po by (simp add: prepare_def Let_def) auto
qed


text \<open>The first reconcile of the mapping: nothing is owned, and the plan creates one prefix set.\<close>

definition ex_owned :: "ex_cluster \<Rightarrow> goerror + owned_refs" where
  "ex_owned w = (case fst w (mapping_key ex_mapping) of Some m \<Rightarrow> LoadOwnedASGs m | None \<Rightarrow> Inr None)"

definition ex_resolved :: resolved where
  "ex_resolved = \<lparr>rv_desired = [(ex_asg ''A'', [''10.0.0.1/32'']), (ex_asg ''B'', [])], rv_podSnapshot = \<lparr>snap_Pods = []\<rparr>,
     rv_matchedPodsByIndex = [1, 0], rv_hasPendingIPPods = False\<rparr>"


section \<open>The generation after the annotation patch\<close>

text \<open>
  After the patch of the annotation the loop goes on with the object the server answered. The
  patch carries no resource version, so a change of the spec between the freshness gate and the
  patch goes unnoticed: the status update and the debounce entry then name the new generation,
  although the desired state is that of the old one.
\<close>

lemma generation_of_patch_answer_adopted:
  assumes "prepare r key m ownershipKey rv s = Some (Inr p, s')" and "LoadOwnedASGs m = Inr old"
    and "ownershipAnnotationChanged old (UpdateOwnedASGsAfterResults old (nonempty_desired (rv_desired rv)) [])"
    and "\<forall>base m w m' w'. kc_Patch (r_Client r) base m w = (Inr m', w') \<longrightarrow> m_Generation m' = answered"
  shows "m_Generation (pl_mapping p) = answered \<and> pl_desired p = nonempty_desired (rv_desired rv)"
proof -
  let ?D = "nonempty_desired (rv_desired rv)"
  obtain actual s1 where "patch_owned r m old (UpdateOwnedASGsAfterResults old ?D []) s1 = (None, pl_mapping p, s')"
    by (rule prepare_steps [OF assms(1,2)])
  then have "m_Generation (pl_mapping p) = answered"
    using assms(3) assms(4) [rule_format] by (auto simp: patch_owned_def external_def split: prod.splits sum.splits)
  moreover have "pl_desired p = ?D"
    using assms(1,2) by (auto simp: prepare_def Let_def external_def split: prod.splits sum.splits option.splits)
  ultimately show ?thesis ..
qed

end
