(* ===== verification/Controller_System.thy ===== *)
theory Controller_System
  imports Event_Delivery Reconcile_Ownership
begin

text \<open>
  The controller as a whole: pod event handlers and reconciles share the desired state cache
  while the pods of the cluster change, also in the middle of a reconcile. The states a
  controller can reach are an inductive predicate; in all of them the cache is at parity with a
  recomputation, and a reconcile that succeeds leaves in Azure what the pods at one moment
  during the reconcile called for.
\<close>

section \<open>What changes during a call\<close>

text \<open>
  The worlds a reconcile moves through: a call to the API server or to Azure that starts in one
  ends in the other.
\<close>

inductive call_moves :: "'w MappingReconciler \<Rightarrow> 'w \<Rightarrow> 'w \<Rightarrow> bool" for r where
  get: "kc_Get (r_Client r) key w = (x, w') \<Longrightarrow> call_moves r w w'"
| patch: "kc_Patch (r_Client r) base m w = (y, w') \<Longrightarrow> call_moves r w w'"
| list: "kc_ListPods (r_Client r) ns w = (ps, w') \<Longrightarrow> call_moves r w w'"
| pending: "r_StatusUpdater r = Some u \<Longrightarrow> UpdatePending u key gen psn matched w = (e, w') \<Longrightarrow> call_moves r w w'"
| final: "r_StatusUpdater r = Some u \<Longrightarrow> UpdateAfterReconcile u a w = (e, w') \<Longrightarrow> call_moves r w w'"
| execute: "r_Executor r actions w = (results, w') \<Longrightarrow> call_moves r w w'"
| read: "listActualForTargets r ts w = Some (z, w') \<Longrightarrow> call_moves r w w'"
| delete: "reconcileDelete r m ok w = (e, w') \<Longrightarrow> call_moves r w w'"

text \<open>
  The parts of the world the theorems speak of: the pods of the mapping's namespace, as far as
  their events are delivered, and the events delivered so far.
\<close>

record 'w surroundings =
  en_pods :: "'w \<Rightarrow> Pod list"
  en_log :: "'w \<Rightarrow> arrival list"

definition arrivals :: "'w surroundings \<Rightarrow> 'w \<Rightarrow> 'w \<Rightarrow> arrival list" where
  "arrivals env w w' = drop (length (en_log env w)) (en_log env w')"

definition pods_move :: "PodASGMapping \<Rightarrow> 'w surroundings \<Rightarrow> 'w \<Rightarrow> 'w \<Rightarrow> bool" where
  "pods_move m env w w' \<longleftrightarrow> en_log env w' = en_log env w @ arrivals env w w' \<and>
     valid_arrivals m (en_pods env w) (arrivals env w w') \<and> length (arrivals env w w') < 2 ^ 60 \<and>
     en_pods env w' = pods_after (arrivals env w w') (en_pods env w)"

text \<open>
  The reconciler in its surroundings: pods change by events, which the handlers deliver to the
  cache before the call returns; a list shows the pods before or after the call; an object read
  has the key it was read by, and the mapping's spec does not change.
\<close>

definition surrounded :: "matcher \<Rightarrow> 'w MappingReconciler \<Rightarrow> PodASGMapping \<Rightarrow> 'w surroundings \<Rightarrow> bool" where
  "surrounded M r m env \<longleftrightarrow>
     (\<forall>w w'. call_moves r w w' \<longrightarrow> pods_move m env w w') \<and>
     (\<forall>w w'. r_interleaved r w w' = deliver M (arrivals env w w')) \<and>
     (\<forall>w ps w'. kc_ListPods (r_Client r) (m_Namespace m) w = (Inr ps, w') \<longrightarrow> ps = en_pods env w \<or> ps = en_pods env w') \<and>
     (\<forall>key w x w'. kc_Get (r_Client r) key w = (Inr x, w') \<longrightarrow> mapping_key x = key \<and> m_Generation x > 0 \<and>
        (key = mapping_key m \<longrightarrow> same_spec m x))"

abbreviation between :: "'w MappingReconciler \<Rightarrow> 'w \<Rightarrow> 'w \<Rightarrow> 'w \<Rightarrow> bool" where
  "between r w w1 w2 \<equiv> (call_moves r)\<^sup>*\<^sup>* w1 w \<and> (call_moves r)\<^sup>*\<^sup>* w w2"

section \<open>Predicates that calls and deletions keep\<close>

text \<open>
  Most of a reconcile changes the cache only by calls, during which events are delivered, and by
  deleting the entries of its key.
\<close>

definition closed :: "'w MappingReconciler \<Rightarrow> ('w \<Rightarrow> DesiredStateCache \<Rightarrow> bool) \<Rightarrow> bool" where
  "closed r P \<longleftrightarrow> (\<forall>w w' c. call_moves r w w' \<longrightarrow> P w c \<longrightarrow> P w' (r_interleaved r w w' c)) \<and> (\<forall>w c key. P w c \<longrightarrow> P w (Delete c key))"

abbreviation holds :: "('w \<Rightarrow> DesiredStateCache \<Rightarrow> bool) \<Rightarrow> 'w reconciler_state \<Rightarrow> bool" where
  "holds P s \<equiv> P (s_world s) (s_DesiredStateCache s)"

lemma closed_external:
  assumes "closed r P" and "holds P s" and "external r f s = (y, s')" and "\<And>x w'. f (s_world s) = (x, w') \<Longrightarrow> call_moves r (s_world s) w'"
  shows "holds P s'"
  using assms unfolding closed_def external_def by (auto split: prod.splits)

lemma state_updates_cache [simp]:
  "s_DesiredStateCache (cleanupPerMappingMetricState key s) = s_DesiredStateCache s"
  "s_DesiredStateCache (markReconcileSuccess r key g t s) = s_DesiredStateCache s"
  "s_DesiredStateCache (markDesiredStateFullRecompute key g t s) = s_DesiredStateCache s"
  "s_DesiredStateCache (clearDesiredStateResyncState key s) = s_DesiredStateCache s"
  by (simp_all add: cleanupPerMappingMetricState_def clearDesiredStateResyncState_def clearDebounceState_def
      markReconcileSuccess_def markDesiredStateFullRecompute_def)

lemma closed_drop: "closed r P \<Longrightarrow> holds P s \<Longrightarrow> holds P (drop_cached r key s)"
  by (simp add: closed_def drop_cached_def)

lemma closed_finalize:
  assumes "closed r P" and "holds P s" and "finalizeSystemError r key m ok matched e allow results s = (x, s')"
  shows "holds P s'"
proof (cases "allow \<and> (\<exists>u m'. r_StatusUpdater r = Some u \<and> m = Some m')")
  case True
  then obtain u m' where u: "r_StatusUpdater r = Some u" "m = Some m'" "allow" by auto
  let ?f = "UpdateAfterReconcile u (status_args key m' ok results (Some e) [] matched)"
  obtain res s1 where c: "external r ?f s = (res, s1)" by (cases "external r ?f s")
  have "holds P s1" by (rule closed_external [OF assms(1,2) c]) (rule call_moves.final [OF u(1)])
  then show ?thesis using assms(3) u c by (auto simp: finalizeSystemError_def Let_def split: option.splits if_splits prod.splits)
next
  case False
  then show ?thesis using assms(2,3) by (auto simp: finalizeSystemError_def Let_def split: option.splits bool.splits)
qed

lemma closed_status:
  assumes "closed r P" and "holds P s" and "status_call r key f s = (y, s')"
    and "\<And>u x w'. r_StatusUpdater r = Some u \<Longrightarrow> f u (s_world s) = (x, w') \<Longrightarrow> call_moves r (s_world s) w'"
  shows "holds P s'"
proof (cases "r_StatusUpdater r")
  case None
  then show ?thesis using assms(2,3) by (simp add: status_call_def)
next
  case (Some u)
  obtain res s1 where c: "external r (f u) s = (res, s1)" by (cases "external r (f u) s")
  have "holds P s1" by (rule closed_external [OF assms(1,2) c]) (rule assms(4) [OF Some])
  then show ?thesis using assms(3) Some c closed_drop [OF assms(1)] by (auto simp: status_call_def split: option.splits if_splits)
qed

lemma closed_get:
  assumes "closed r P" and "holds P s" and "external r (kc_Get (r_Client r) key) s = (y, s')"
  shows "holds P s'"
  by (rule closed_external [OF assms]) (rule call_moves.get)

lemma closed_current:
  assumes "closed r P" and "holds P s" and "mappingStillCurrent r key uid g s = (y, s')"
  shows "holds P s'"
proof -
  obtain res s1 where c: "external r (kc_Get (r_Client r) key) s = (res, s1)" by (cases "external r (kc_Get (r_Client r) key) s")
  show ?thesis using assms(3) c closed_get [OF assms(1,2) c] by (auto simp: mappingStillCurrent_def split: sum.splits if_splits)
qed

lemma closed_patch:
  assumes "closed r P" and "holds P s" and "external r (kc_Patch (r_Client r) base m) s = (y, s')"
  shows "holds P s'"
  by (rule closed_external [OF assms]) (rule call_moves.patch)

lemma closed_patch_owned:
  assumes "closed r P" and "holds P s" and "patch_owned r m old upd s = (e, m', s')"
  shows "holds P s'"
proof -
  let ?f = "kc_Patch (r_Client r) m (StoreOwnedASGs m upd)"
  obtain res s1 where c: "external r ?f s = (res, s1)" by (cases "external r ?f s")
  show ?thesis using assms(2,3) c closed_patch [OF assms(1,2) c] by (auto simp: patch_owned_def split: sum.splits if_splits)
qed

lemma closed_finish:
  assumes "closed r P" and "holds P s" and "finish r key ok rv p results s = (x, s')"
  shows "holds P s'"
proof -
  let ?post = "UpdateOwnedASGsAfterResults (pl_preRefs p) (pl_desired p) results"
  let ?po = "if results = [] then (None, pl_mapping p, s) else patch_owned r (pl_mapping p) (pl_preRefs p) ?post s"
  obtain e m s1 where po: "?po = (e, m, s1)" by (cases ?po)
  have s1: "holds P s1" using po assms(2) closed_patch_owned [OF assms(1,2)] by (metis prod.inject)
  show ?thesis
  proof (cases e)
    case (Some err)
    then show ?thesis using assms(3) po closed_finalize [OF assms(1) s1] by (simp add: finish_def Let_def)
  next
    case None
    let ?f = "\<lambda>u. UpdateAfterReconcile u (status_args key m ok results (aggregateActionFailures results) [] (rv_matchedPodsByIndex rv))"
    obtain y s2 where sc: "status_call r key ?f s1 = (y, s2)" by (cases "status_call r key ?f s1")
    have s2: "holds P s2" by (rule closed_status [OF assms(1) s1 sc]) (rule call_moves.final)
    have "s_world (snd (decide_exit r key m rv p results s2)) = s_world s2 \<and>
      s_DesiredStateCache (snd (decide_exit r key m rv p results s2)) = s_DesiredStateCache s2" by (simp add: decide_exit_def Let_def)
    then show ?thesis using assms(3) po None sc s2 by (auto simp: finish_def Let_def split: sum.splits option.splits prod.splits)
  qed
qed

lemma closed_prepare:
  assumes "closed r P" and "holds P s" and "prepare r key m ok rv s = Some (y, s')"
  shows "holds P s'"
proof (cases "LoadOwnedASGs m")
  case (Inl err)
  then show ?thesis using assms(3) closed_finalize [OF assms(1,2)] by (auto simp: prepare_def Let_def split: prod.splits)
next
  case (Inr owned)
  let ?D = "nonempty_desired (rv_desired rv)" and ?OT = "TargetsFromOwnedASGs owned ok"
  let ?pre = "UpdateOwnedASGsAfterResults owned ?D []"
  obtain got w where l: "listActualForTargets r (all_targets ?D ?OT) (s_world s) = Some (got, w)"
    using assms(3) Inr by (auto simp: prepare_def Let_def split: option.splits)
  obtain s1 where x: "external r (\<lambda>_. (got, w)) s = (got, s1)" by (simp add: external_def)
  have s1: "holds P s1" by (rule closed_external [OF assms(1,2) x]) (use call_moves.read [OF l] in simp)
  show ?thesis
  proof (cases got)
    case (Inl e)
    then show ?thesis using assms(3) Inr l x closed_finalize [OF assms(1) s1] by (auto simp: prepare_def Let_def split: prod.splits)
  next
    case (Inr A)
    obtain pe m2 s2 where po: "patch_owned r m owned ?pre s1 = (pe, m2, s2)" by (cases "patch_owned r m owned ?pre s1")
    have s2: "holds P s2" by (rule closed_patch_owned [OF assms(1) s1 po])
    show ?thesis using assms(3) \<open>LoadOwnedASGs m = Inr owned\<close> l x Inr po s2 closed_finalize [OF assms(1) s2]
      by (cases pe) (auto simp: prepare_def Let_def split: prod.splits)
  qed
qed

lemma closed_apply:
  assumes "closed r P" and "holds P s" and "apply_desired r key m ok rv s = Some (x, s')"
  shows "holds P s'"
proof -
  obtain y s1 where p: "prepare r key m ok rv s = Some (y, s1)" using assms(3) by (auto simp: apply_desired_def split: option.splits)
  have s1: "holds P s1" by (rule closed_prepare [OF assms(1,2) p])
  show ?thesis
  proof (cases y)
    case (Inl z)
    then show ?thesis using assms(3) p s1 by (auto simp: apply_desired_def)
  next
    case (Inr pl)
    let ?ex = "if pl_actions pl = [] then ([], s1) else external r (r_Executor r (pl_actions pl)) s1"
    obtain results s2 where e: "?ex = (results, s2)" by (cases ?ex)
    have "holds P s2"
    proof (cases "pl_actions pl = []")
      case False
      then have "external r (r_Executor r (pl_actions pl)) s1 = (results, s2)" using e by simp
      then show ?thesis by (rule closed_external [OF assms(1) s1]) (rule call_moves.execute)
    qed (use e s1 in simp)
    moreover have "finish r key ok rv pl results s2 = (x, s')" using assms(3) p Inr e by (auto simp: apply_desired_def)
    ultimately show ?thesis by (rule closed_finish [OF assms(1)])
  qed
qed

lemma closed_resolved:
  assumes "closed r P" and "holds P s" and "reconcile_resolved r key m ok rv s = Some (x, s')"
  shows "holds P s'"
proof -
  let ?gate = "if r_hasCache r then mappingStillCurrent r key (m_UID m) (m_Generation m) s else (Inr True, s)"
  let ?f = "\<lambda>u. UpdatePending u key (m_Generation m) ok (rv_matchedPodsByIndex rv)"
  obtain c s1 where gate: "?gate = (c, s1)" by (cases ?gate)
  have s1: "holds P s1" using gate assms(2) closed_current [OF assms(1,2)] by (auto split: if_splits)
  obtain z s2 where st: "status_call r key ?f s1 = (z, s2)" by (cases "status_call r key ?f s1")
  have "holds P s2" by (rule closed_status [OF assms(1) s1 st]) (rule call_moves.pending)
  then show ?thesis using assms(3) gate s1 st closed_apply [OF assms(1) \<open>holds P s2\<close>]
    by (auto simp: reconcile_resolved_def split: sum.splits bool.splits)
qed

lemma closed_deleted:
  assumes "closed r P" and "holds P s" and "reconcile_deleted r key m ok s = (x, s')"
  shows "holds P s'"
proof (cases "CleanupFinalizer \<in> set (m_Finalizers m)")
  case True
  obtain e s1 where c: "external r (reconcileDelete r m ok) (drop_cached r key s) = (e, s1)" by (cases "external r (reconcileDelete r m ok) (drop_cached r key s)")
  have s1: "holds P s1" by (rule closed_external [OF assms(1) closed_drop [OF assms(1,2)] c]) (rule call_moves.delete)
  let ?m = "m\<lparr>m_Finalizers := removeAll CleanupFinalizer (m_Finalizers m)\<rparr>"
  obtain pr s2 where p: "external r (kc_Patch (r_Client r) m ?m) s1 = (pr, s2)" by (cases "external r (kc_Patch (r_Client r) m ?m) s1")
  have s2: "holds P s2" by (rule closed_patch [OF assms(1) s1 p])
  show ?thesis using assms(3) True c p s2 closed_finalize [OF assms(1) s1] closed_finalize [OF assms(1) s2]
    by (auto simp: reconcile_deleted_def Let_def split: option.splits sum.splits)
next
  case False
  have "holds P (drop_cached r key (cleanupPerMappingMetricState key s))"
    using closed_drop [OF assms(1), of "cleanupPerMappingMetricState key s"] assms(2) by simp
  then show ?thesis using assms(3) False by (auto simp: reconcile_deleted_def)
qed

lemma closed_invalid:
  assumes "closed r P" and "holds P s" and "reconcile_invalid M r key m ok issues s = (x, s')"
  shows "holds P s'"
proof -
  let ?f = "kc_ListPods (r_Client r) (m_Namespace m)"
  obtain ps s1 where c: "external r ?f s = (ps, s1)" by (cases "external r ?f s")
  have s1: "holds P s1" by (rule closed_external [OF assms(1,2) c]) (rule call_moves.list)
  show ?thesis
  proof (cases ps)
    case (Inl e)
    then show ?thesis using assms(3) c closed_finalize [OF assms(1) s1] by (simp add: reconcile_invalid_def)
  next
    case (Inr pods)
    let ?g = "\<lambda>u. UpdateAfterReconcile u (status_args key m ok [] (aggregateValidationErrors issues) issues (ComputeMatchedPodsByMapping M (m_Spec m) pods))"
    obtain y s2 where st: "status_call r key ?g s1 = (y, s2)" by (cases "status_call r key ?g s1")
    have "holds P s2" by (rule closed_status [OF assms(1) s1 st]) (rule call_moves.final)
    then show ?thesis using assms(3) c Inr st closed_drop [OF assms(1) \<open>holds P s2\<close>, of key]
      by (auto simp: reconcile_invalid_def split: sum.splits)
  qed
qed

text \<open>The rest of a reconcile, given the same for the resolution of the desired state.\<close>

lemma closed_Reconcile:
  assumes "closed r P" and "holds P s" and "Reconcile M r key s = Some (x, s')"
    and "\<And>m ok t s1 y s2. kc_Get (r_Client r) key (s_world s) = (Inr m, s_world s1) \<Longrightarrow> holds P s1 \<Longrightarrow>
      resolve_desired M r key m ok t s1 = (y, s2) \<Longrightarrow> holds P s2"
  shows "holds P s'"
proof -
  obtain res s1 where g: "external r (kc_Get (r_Client r) key) s = (res, s1)" by (cases "external r (kc_Get (r_Client r) key) s")
  have s1: "holds P s1" by (rule closed_get [OF assms(1,2) g])
  show ?thesis
  proof (cases res)
    case (Inl err)
    have "holds P (clearDesiredStateResyncState key (drop_cached r key (cleanupPerMappingMetricState key s1)))"
      using closed_drop [OF assms(1), of "cleanupPerMappingMetricState key s1"] s1 by simp
    then show ?thesis using assms(3) g Inl closed_finalize [OF assms(1) s1] by (auto simp: Reconcile_def Let_def split: if_splits)
  next
    case (Inr m)
    let ?ok = "OwnershipKey (r_ClusterName r) (m_Namespace m) (m_Name m)"
    have get: "kc_Get (r_Client r) key (s_world s) = (Inr m, s_world s1)" using g Inr by (auto simp: external_def split: prod.splits)
    have live: "holds P s'" if l: "reconcile_live M r key m ?ok t s1 = Some (x, s')" for t
    proof (cases "CleanupFinalizer \<in> set (m_Finalizers m)")
      case False
      let ?m = "m\<lparr>m_Finalizers := m_Finalizers m @ [CleanupFinalizer]\<rparr>"
      obtain pr s2 where p: "external r (kc_Patch (r_Client r) m ?m) s1 = (pr, s2)" by (cases "external r (kc_Patch (r_Client r) m ?m) s1")
      have s2: "holds P s2" by (rule closed_patch [OF assms(1) s1 p])
      show ?thesis using l False p s2 closed_finalize [OF assms(1) s2]
        by (auto simp: reconcile_live_def ensureFinalizer_def Let_def split: sum.splits)
    next
      case True
      obtain y s2 where rs: "resolve_desired M r key m ?ok t s1 = (y, s2)" by (cases "resolve_desired M r key m ?ok t s1")
      have s2: "holds P s2" by (rule assms(4) [OF get s1 rs])
      show ?thesis using l True rs s1 s2 closed_invalid [OF assms(1) s1] closed_resolved [OF assms(1) s2]
        by (auto simp: reconcile_live_def ensureFinalizer_def Let_def split: sum.splits prod.splits bool.splits if_splits)
    qed
    show ?thesis using assms(3) g Inr live closed_deleted [OF assms(1) s1]
      by (auto simp: Reconcile_def Let_def split: if_splits)
  qed
qed

section \<open>The invariant and the resolution of the desired state\<close>

definition system_inv :: "matcher \<Rightarrow> string \<Rightarrow> PodASGMapping \<Rightarrow> 'w surroundings \<Rightarrow> 'w \<Rightarrow> DesiredStateCache \<Rightarrow> bool" where
  "system_inv M cl m env w c \<longleftrightarrow> cluster_pods m (en_pods env w) \<and> cache_inv M cl m (en_pods env w) c"

lemma moved_inv:
  assumes "separate_targets cl m" and "extensional M" and "pods_move m env w w'" and "system_inv M cl m env w c"
  shows "system_inv M cl m env w' (deliver M (arrivals env w w') c) \<and>
    (\<exists>n < 2 ^ 63. fenced M m n (en_pods env w, c) (en_pods env w', deliver M (arrivals env w w') c))"
proof -
  let ?as = "arrivals env w w'"
  have p: "valid_arrivals m (en_pods env w) ?as" "length ?as < 2 ^ 60" "en_pods env w' = pods_after ?as (en_pods env w)"
    using assms(3) by (simp_all add: pods_move_def)
  have i: "cluster_pods m (en_pods env w)" "cache_inv M cl m (en_pods env w) c" using assms(4) by (simp_all add: system_inv_def)
  note d = deliver_inv [OF assms(1,2) i p(1)]
  then obtain n where "n \<le> 4 * length ?as" "fenced M m n (en_pods env w, c) (en_pods env w', deliver M ?as c)" unfolding p(3) by blast
  then have "n < 2 ^ 63" using p(2) by simp
  then show ?thesis using d p(3) \<open>fenced M m n _ _\<close> by (auto simp: system_inv_def)
qed

lemma system_step:
  assumes "surrounded M r m env" and "separate_targets cl m" and "extensional M" and "holds (system_inv M cl m env) s"
    and "external r f s = (y, s')" and "call_moves r (s_world s) (snd (f (s_world s)))"
  shows "holds (system_inv M cl m env) s'" and "call_moves r (s_world s) (s_world s')"
    and "\<exists>n < 2 ^ 63. fenced M m n (en_pods env (s_world s), s_DesiredStateCache s) (en_pods env (s_world s'), s_DesiredStateCache s')"
proof -
  obtain x w where f: "f (s_world s) = (x, w)" by (cases "f (s_world s)")
  have e: "s_world s' = w" "s_DesiredStateCache s' = deliver M (arrivals env (s_world s) w) (s_DesiredStateCache s)"
    using assms(1,5) f by (auto simp: external_def surrounded_def)
  have c: "call_moves r (s_world s) w" using assms(6) f by simp
  then have "pods_move m env (s_world s) w" using assms(1) unfolding surrounded_def by blast
  from moved_inv [OF assms(2,3) this assms(4)] show "holds (system_inv M cl m env) s'"
    "\<exists>n < 2 ^ 63. fenced M m n (en_pods env (s_world s), s_DesiredStateCache s) (en_pods env (s_world s'), s_DesiredStateCache s')"
    unfolding e by blast+
  show "call_moves r (s_world s) (s_world s')" using c e(1) by simp
qed

lemma closed_system:
  assumes "surrounded M r m env" and "separate_targets cl m" and "extensional M"
  shows "closed r (system_inv M cl m env)"
  unfolding closed_def
proof (intro conjI allI impI)
  fix w w' c assume c: "call_moves r w w'" and i: "system_inv M cl m env w c"
  have "pods_move m env w w'" "r_interleaved r w w' = deliver M (arrivals env w w')" using assms(1) c unfolding surrounded_def by blast+
  then show "system_inv M cl m env w' (r_interleaved r w w' c)" using moved_inv [OF assms(2,3) _ i] by simp
next
  fix w c key assume "system_inv M cl m env w c"
  then show "system_inv M cl m env w (Delete c key)" by (simp add: system_inv_def delete_inv)
qed

lemma closed_reach: "closed r (\<lambda>w c. (call_moves r)\<^sup>*\<^sup>* w0 w)"
  by (auto simp: closed_def)

lemma current_step:
  assumes "mappingStillCurrent r key uid g s = (y, s')"
  shows "\<exists>res. external r (kc_Get (r_Client r) key) s = (res, s')"
  using assms by (auto simp: mappingStillCurrent_def split: prod.splits sum.splits if_splits)

lemma list_step:
  assumes "list_and_recompute M r key m ok s = (Inr arts, s')"
  shows "\<exists>ps. external r (kc_ListPods (r_Client r) (m_Namespace m)) s = (Inr ps, s') \<and>
    arts = ComputeDesiredStateRecomputeArtifacts M (r_ClusterName r) m ps"
  using assms by (auto simp: list_and_recompute_def split: prod.splits sum.splits)

lemma same_spec_right: "same_spec m m' \<Longrightarrow> right_desired M cl m' pods D = right_desired M cl m pods D"
  by (simp add: right_desired_def same_spec_targets(2,4))

text \<open>What an entry at parity holds is right.\<close>

lemma entry_right:
  assumes "separate_targets cl m" and "entry_ok M cl m pods e"
  shows "right_desired M cl m pods (cs_Desired (ce_state e))"
proof -
  have d: "desired_ok M cl m pods (cs_Desired (ce_state e))" using assms(2) by (simp add: entry_ok_def)
  note r = recompute_desired_ok [OF assms(1), of M pods] right_recompute [of M cl m pods]
  show ?thesis using d r(2) desired_ok_same_view [OF assms(1) d r(1)] by (simp add: right_desired_def desired_ok_def)
qed

lemma cached_right:
  assumes "separate_targets cl m" and "same_spec m m'" and "system_inv M cl m env w c" and "Get c m' = (st, True)"
  shows "right_desired M cl m (en_pods env w) (cs_Desired st)"
proof -
  obtain e where "gget (dc_entries c) (cache_key m) = Some e" "st = deepCopyCachedState (ce_state e)"
    using assms(4) same_spec_keys(2) [OF assms(2)] by (auto simp: Get_def split: option.splits if_splits)
  then show ?thesis using entry_right [OF assms(1)] assms(3) by (auto simp: system_inv_def cache_inv_def deepCopyCachedState_def)
qed

lemma publish_step:
  assumes "separate_targets cl m" and "holds (system_inv M cl m env) s" and "m_Generation m' > 0" and "publish m' arts v e s = (dn, s')"
    and "mapping_key m' = mapping_key m \<Longrightarrow> same_spec m m' \<and> (\<exists>ps. arts = ComputeDesiredStateRecomputeArtifacts M cl m' ps \<and> cluster_pods m ps \<and>
      (\<not> publish_refused (s_DesiredStateCache s) m' v e \<longrightarrow> alike M m ps (en_pods env (s_world s))))"
  shows "holds (system_inv M cl m env) s'" and "s_world s' = s_world s"
proof -
  let ?c = "s_DesiredStateCache s" and ?pods = "en_pods env (s_world s)"
  obtain c' v' e' where set: "SetFromRecomputeArtifactsIfVersion ?c m' arts v e = (c', dn, v', e')" and s': "s' = s\<lparr>s_DesiredStateCache := c'\<rparr>"
    using assms(4) by (auto simp: publish_def split: prod.splits)
  have fits: "entry_ok M cl m ?pods (buildCacheEntryFromArtifacts m' arts)" if "\<not> publish_refused ?c m' v e" "cache_key m' = cache_key m"
  proof -
    note nr = that(1)
    have k: "mapping_key m' = mapping_key m" using that(2) by (simp add: cache_key_def)
    obtain ps where ps: "same_spec m m'" "arts = ComputeDesiredStateRecomputeArtifacts M cl m' ps" "cluster_pods m ps" "alike M m ps ?pods"
      using assms(5) [OF k] nr by auto
    have "entry_ok M cl m' ps (buildCacheEntryFromArtifacts m' arts)" unfolding ps(2)
      by (rule recompute_entry_ok) (use assms(1) ps(3) same_spec_targets(3) [OF ps(1)] in \<open>simp_all add: cluster_pods_def namespace_pods_def\<close>)
    then show ?thesis using ps(4) same_spec_entry [OF ps(1)] by (simp add: alike_def)
  qed
  have i: "cluster_pods m ?pods" "cache_inv M cl m ?pods ?c" using assms(2) by (simp_all add: system_inv_def)
  have "cache_inv M cl m ?pods c'" by (rule publish_inv [OF i(2) assms(3) fits set])
  then show "holds (system_inv M cl m env) s'" using i(1) unfolding s' system_inv_def by simp
  show "s_world s' = s_world s" by (simp add: s')
qed

lemma recompute_right_same: "same_spec m m' \<Longrightarrow> right_desired M cl m ps (rv_desired (resolved_arts (ComputeDesiredStateRecomputeArtifacts M cl m' ps)))"
  using right_recompute [of M cl m' ps] by (simp add: resolved_arts_def same_spec_right)

lemma closed_list:
  assumes "closed r P" and "holds P s" and "list_and_recompute M r key m ok s = (y, s')"
  shows "holds P s'"
proof -
  let ?f = "kc_ListPods (r_Client r) (m_Namespace m)"
  obtain ps s1 where c: "external r ?f s = (ps, s1)" by (cases "external r ?f s")
  have "holds P s1" by (rule closed_external [OF assms(1,2) c]) (rule call_moves.list)
  then show ?thesis using assms(3) c closed_finalize [OF assms(1)] by (auto simp: list_and_recompute_def split: sum.splits prod.splits)
qed

text \<open>What holds after a step that may resolve the desired state of \<open>m'\<close>.\<close>

definition resolves :: "matcher \<Rightarrow> 'w MappingReconciler \<Rightarrow> PodASGMapping \<Rightarrow> 'w surroundings \<Rightarrow> PodASGMapping \<Rightarrow> 'w reconciler_state \<Rightarrow>
    (reconcile_exit + resolved) \<Rightarrow> 'w reconciler_state \<Rightarrow> bool" where
  "resolves M r m env m' s y s' \<longleftrightarrow> holds (system_inv M (r_ClusterName r) m env) s' \<and> (call_moves r)\<^sup>*\<^sup>* (s_world s) (s_world s') \<and>
     (\<forall>rv. y = Inr rv \<longrightarrow> same_spec m m' \<longrightarrow>
       (\<exists>w. between r w (s_world s) (s_world s') \<and> right_desired M (r_ClusterName r) m (en_pods env w) (rv_desired rv)))"

lemma resolves_from:
  assumes "(call_moves r)\<^sup>*\<^sup>* (s_world s) (s_world s1)" and "resolves M r m env m' s1 y s'"
  shows "resolves M r m env m' s y s'"
proof -
  have "(call_moves r)\<^sup>*\<^sup>* (s_world s) w" if "(call_moves r)\<^sup>*\<^sup>* (s_world s1) w" for w using assms(1) that by (rule rtranclp_trans)
  then show ?thesis using assms(2) unfolding resolves_def by blast
qed

lemma resolves_exit:
  "holds (system_inv M (r_ClusterName r) m env) s' \<Longrightarrow> (call_moves r)\<^sup>*\<^sup>* (s_world s) (s_world s') \<Longrightarrow> resolves M r m env m' s (Inl x) s'"
  by (simp add: resolves_def)

text \<open>Listing the pods: the recomputation is right for the pods before or after the call.\<close>

lemma list_resolves:
  assumes "surrounded M r m env" and "separate_targets (r_ClusterName r) m" and "extensional M"
    and "holds (system_inv M (r_ClusterName r) m env) s" and "list_and_recompute M r key m' ok s = (Inr arts, s')"
  shows "holds (system_inv M (r_ClusterName r) m env) s'" and "call_moves r (s_world s) (s_world s')"
    and "\<exists>n < 2 ^ 63. fenced M m n (en_pods env (s_world s), s_DesiredStateCache s) (en_pods env (s_world s'), s_DesiredStateCache s')"
    and "same_spec m m' \<Longrightarrow> \<exists>w \<in> {s_world s, s_world s'}. arts = ComputeDesiredStateRecomputeArtifacts M (r_ClusterName r) m' (en_pods env w)"
proof -
  obtain ps where ps: "external r (kc_ListPods (r_Client r) (m_Namespace m')) s = (Inr ps, s')"
    "arts = ComputeDesiredStateRecomputeArtifacts M (r_ClusterName r) m' ps" using list_step [OF assms(5)] by blast
  have mv: "call_moves r (s_world s) (snd (kc_ListPods (r_Client r) (m_Namespace m') (s_world s)))" by (rule call_moves.list) (rule prod.collapse [symmetric])
  note st = system_step [OF assms(1-4) ps(1) mv]
  show "holds (system_inv M (r_ClusterName r) m env) s'" "call_moves r (s_world s) (s_world s')"
    "\<exists>n < 2 ^ 63. fenced M m n (en_pods env (s_world s), s_DesiredStateCache s) (en_pods env (s_world s'), s_DesiredStateCache s')"
    using st by blast+
  assume "same_spec m m'"
  then have "m_Namespace m' = m_Namespace m" by (simp add: same_spec_def)
  then have "kc_ListPods (r_Client r) (m_Namespace m) (s_world s) = (Inr ps, s_world s')"
    using ps(1) by (auto simp: external_def split: prod.splits)
  then have "ps = en_pods env (s_world s) \<or> ps = en_pods env (s_world s')" using assms(1) unfolding surrounded_def by blast
  then show "\<exists>w \<in> {s_world s, s_world s'}. arts = ComputeDesiredStateRecomputeArtifacts M (r_ClusterName r) m' (en_pods env w)" using ps(2) by blast
qed

lemma current_resolves:
  assumes "surrounded M r m env" and "separate_targets (r_ClusterName r) m" and "extensional M"
    and "holds (system_inv M (r_ClusterName r) m env) s" and "mappingStillCurrent r key uid g s = (y, s')"
  shows "holds (system_inv M (r_ClusterName r) m env) s'" and "call_moves r (s_world s) (s_world s')"
    and "\<exists>n < 2 ^ 63. fenced M m n (en_pods env (s_world s), s_DesiredStateCache s) (en_pods env (s_world s'), s_DesiredStateCache s')"
proof -
  obtain res where res: "external r (kc_Get (r_Client r) key) s = (res, s')" using current_step [OF assms(5)] by blast
  have mv: "call_moves r (s_world s) (snd (kc_Get (r_Client r) key (s_world s)))" by (rule call_moves.get) (rule prod.collapse [symmetric])
  note st = system_step [OF assms(1-4) res mv]
  show "holds (system_inv M (r_ClusterName r) m env) s'" "call_moves r (s_world s) (s_world s')"
    "\<exists>n < 2 ^ 63. fenced M m n (en_pods env (s_world s), s_DesiredStateCache s) (en_pods env (s_world s'), s_DesiredStateCache s')"
    using st by blast+
qed

lemma publish_parts:
  assumes "publish m' arts v e s = (dn, s')"
  shows "s_world s' = s_world s" and "\<not> dn \<Longrightarrow> s' = s"
  using assms publish_refused_same [of m' arts v e s s'] by (auto simp: publish_def split: prod.splits)

text \<open>
  Two calls, in any order one list of the pods and one check of the object, and a publication
  with the version from before them.
\<close>

lemma fenced_publication:
  assumes "separate_targets (r_ClusterName r) m" and "holds (system_inv M (r_ClusterName r) m env) s0" and "holds (system_inv M (r_ClusterName r) m env) s1"
    and "holds (system_inv M (r_ClusterName r) m env) s2" and "m_Generation m' > 0" and "mapping_key m' = mapping_key m \<Longrightarrow> same_spec m m'"
    and "\<exists>n < 2 ^ 63. fenced M m n (en_pods env (s_world s0), s_DesiredStateCache s0) (en_pods env (s_world s1), s_DesiredStateCache s1)"
    and "\<exists>n < 2 ^ 63. fenced M m n (en_pods env (s_world s1), s_DesiredStateCache s1) (en_pods env (s_world s2), s_DesiredStateCache s2)"
    and "same_spec m m' \<Longrightarrow> \<exists>w \<in> {s_world s0, s_world s1, s_world s2}. arts = ComputeDesiredStateRecomputeArtifacts M (r_ClusterName r) m' (en_pods env w)"
    and "publish m' arts (currentVersion (s_DesiredStateCache s0) (mapping_key m')) e s2 = (dn, s3)"
  shows "holds (system_inv M (r_ClusterName r) m env) s3"
proof -
  obtain i j where f: "fenced M m i (en_pods env (s_world s0), s_DesiredStateCache s0) (en_pods env (s_world s1), s_DesiredStateCache s1)"
    "fenced M m j (en_pods env (s_world s1), s_DesiredStateCache s1) (en_pods env (s_world s2), s_DesiredStateCache s2)" "i + j < 2 ^ 64"
  proof -
    obtain i j :: nat where "i < 2 ^ 63" "j < 2 ^ 63"
      "fenced M m i (en_pods env (s_world s0), s_DesiredStateCache s0) (en_pods env (s_world s1), s_DesiredStateCache s1)"
      "fenced M m j (en_pods env (s_world s1), s_DesiredStateCache s1) (en_pods env (s_world s2), s_DesiredStateCache s2)"
      using assms(7,8) by blast
    then show thesis by (intro that [of i j]) simp_all
  qed
  show ?thesis
  proof (rule publish_step(1) [OF assms(1,4,5,10)])
    assume "mapping_key m' = mapping_key m"
    then have sp: "same_spec m m'" by (rule assms(6))
    obtain w where w: "w \<in> {s_world s0, s_world s1, s_world s2}" "arts = ComputeDesiredStateRecomputeArtifacts M (r_ClusterName r) m' (en_pods env w)"
      using assms(9) [OF sp] by blast
    have "cluster_pods m (en_pods env w)" using w(1) assms(2-4) unfolding system_inv_def by blast
    moreover have "alike M m (en_pods env w) (en_pods env (s_world s2))"
      if "\<not> publish_refused (s_DesiredStateCache s2) m' (currentVersion (s_DesiredStateCache s0) (mapping_key m')) e"
      by (rule fenced_publish [OF f(1,2,3) sp that]) (use w(1) in blast)
    ultimately show "same_spec m m' \<and> (\<exists>ps. arts = ComputeDesiredStateRecomputeArtifacts M (r_ClusterName r) m' ps \<and> cluster_pods m ps \<and>
      (\<not> publish_refused (s_DesiredStateCache s2) m' (currentVersion (s_DesiredStateCache s0) (mapping_key m')) e \<longrightarrow>
        alike M m ps (en_pods env (s_world s2))))" using sp w(2) by blast
  qed
qed

lemma GetWithVersion_version: "GetWithVersion c m = (st, v, e, b) \<Longrightarrow> v = currentVersion c (mapping_key m)"
  by (auto simp: GetWithVersion_def Let_def split: option.splits if_splits)

lemma arts_resolves:
  assumes "holds (system_inv M (r_ClusterName r) m env) s'" and "(call_moves r)\<^sup>*\<^sup>* (s_world s) (s_world s')"
    and "same_spec m m' \<Longrightarrow> \<exists>w. between r w (s_world s) (s_world s') \<and> arts = ComputeDesiredStateRecomputeArtifacts M (r_ClusterName r) m' (en_pods env w)"
  shows "resolves M r m env m' s (Inr (resolved_arts arts)) s'"
proof -
  have "\<exists>w. between r w (s_world s) (s_world s') \<and> right_desired M (r_ClusterName r) m (en_pods env w) (rv_desired (resolved_arts arts))"
    if sp: "same_spec m m'"
  proof -
    obtain w where "between r w (s_world s) (s_world s')" "arts = ComputeDesiredStateRecomputeArtifacts M (r_ClusterName r) m' (en_pods env w)"
      using assms(3) [OF sp] by blast
    then show ?thesis using recompute_right_same [OF sp, of M "r_ClusterName r" "en_pods env w"] by blast
  qed
  then show ?thesis using assms(1,2) unfolding resolves_def by auto
qed

lemma retry_resolves:
  assumes "surrounded M r m env" and "separate_targets (r_ClusterName r) m" and "extensional M"
    and "holds (system_inv M (r_ClusterName r) m env) s" and "m_Generation m' > 0" and "mapping_key m' = mapping_key m \<Longrightarrow> same_spec m m'"
    and "retry_publish M r key m' ok t s = (y, s')"
  shows "resolves M r m env m' s y s'"
proof -
  let ?inv = "system_inv M (r_ClusterName r) m env"
  note cl = closed_system [OF assms(1-3)]
  obtain st v e b where g: "GetWithVersion (s_DesiredStateCache s) m' = (st, v, e, b)" by (cases "GetWithVersion (s_DesiredStateCache s) m'")
  have v: "v = currentVersion (s_DesiredStateCache s) (mapping_key m')" by (rule GetWithVersion_version [OF g])
  obtain cur s1 where cur: "mappingStillCurrent r key (m_UID m') (m_Generation m') s = (cur, s1)"
    by (cases "mappingStillCurrent r key (m_UID m') (m_Generation m') s")
  note c = current_resolves [OF assms(1-4) cur]
  show ?thesis
  proof (cases "cur = Inr True")
    case False
    then have "y = Inl (conflict_exit r)" "s' = s1" using assms(7) g cur by (auto simp: retry_publish_def split: sum.splits bool.splits)
    then show ?thesis using c(1,2) by (auto intro: resolves_exit)
  next
    case True
    obtain la s2 where la: "list_and_recompute M r key m' ok s1 = (la, s2)" by (cases "list_and_recompute M r key m' ok s1")
    have r2: "(call_moves r)\<^sup>*\<^sup>* (s_world s) (s_world s2)"
      using closed_list [OF closed_reach [of r "s_world s"] _ la] c(2) by blast
    show ?thesis
    proof (cases la)
      case (Inl x)
      then have "y = Inl x" "s' = s2" using assms(7) g cur True la by (auto simp: retry_publish_def)
      then show ?thesis using closed_list [OF cl c(1) la] r2 by (auto intro: resolves_exit)
    next
      case (Inr arts)
      note l = list_resolves [OF assms(1-3) c(1) la [unfolded Inr]]
      obtain dn s3 where p: "publish m' arts v e s2 = (dn, s3)" by (cases "publish m' arts v e s2")
      have mom: "\<exists>w \<in> {s_world s, s_world s1, s_world s2}. arts = ComputeDesiredStateRecomputeArtifacts M (r_ClusterName r) m' (en_pods env w)"
        if "same_spec m m'" using l(4) [OF that] by blast
      have s3: "holds ?inv s3" by (rule fenced_publication [OF assms(2,4) c(1) l(1) assms(5,6) c(3) l(3) mom p [unfolded v]])
      have w3: "s_world s3 = s_world s2" by (rule publish_parts(1) [OF p])
      show ?thesis
      proof (cases dn)
        case False
        then have "y = Inl (conflict_exit r)" "s' = s3" using assms(7) g cur True la Inr p by (auto simp: retry_publish_def)
        then show ?thesis using s3 r2 w3 by (auto intro: resolves_exit)
      next
        case True
        then have y: "y = Inr (resolved_arts arts)" "s' = markDesiredStateFullRecompute key (m_Generation m') t s3"
          using assms(7) g cur \<open>cur = Inr True\<close> la Inr p by (auto simp: retry_publish_def)
        have "\<exists>w. between r w (s_world s) (s_world s2) \<and> arts = ComputeDesiredStateRecomputeArtifacts M (r_ClusterName r) m' (en_pods env w)"
          if "same_spec m m'" using l(4) [OF that] c(2) l(2) r2 by auto
        then show ?thesis unfolding y(1) by (intro arts_resolves) (simp_all add: y(2) s3 [unfolded w3] w3 r2)
      qed
    qed
  qed
qed


lemma cached_resolves:
  assumes "separate_targets (r_ClusterName r) m" and "holds (system_inv M (r_ClusterName r) m env) s'"
    and "(call_moves r)\<^sup>*\<^sup>* (s_world s) (s_world s')" and "Get (s_DesiredStateCache s') m' = (st, True)"
  shows "resolves M r m env m' s (Inr (resolved_cached st)) s'"
proof -
  have "right_desired M (r_ClusterName r) m (en_pods env (s_world s')) (rv_desired (resolved_cached st))" if "same_spec m m'"
    using cached_right [OF assms(1) that assms(2,4)] by (simp add: resolved_cached_def)
  then show ?thesis using assms(2,3) unfolding resolves_def by auto
qed

lemma recompute_resolves:
  assumes "surrounded M r m env" and "separate_targets (r_ClusterName r) m" and "extensional M"
    and "holds (system_inv M (r_ClusterName r) m env) s" and "m_Generation m' > 0" and "mapping_key m' = mapping_key m \<Longrightarrow> same_spec m m'"
    and "r_hasCache r \<Longrightarrow> v = currentVersion (s_DesiredStateCache s) (mapping_key m')"
    and "recompute_desired M r key m' ok t forced v e s = (y, s')"
  shows "resolves M r m env m' s y s'"
proof -
  let ?inv = "system_inv M (r_ClusterName r) m env"
  note cl = closed_system [OF assms(1-3)]
  obtain la s1 where la: "list_and_recompute M r key m' ok s = (la, s1)" by (cases "list_and_recompute M r key m' ok s")
  have r1: "(call_moves r)\<^sup>*\<^sup>* (s_world s) (s_world s1)" using closed_list [OF closed_reach [of r "s_world s"] _ la] by blast
  show ?thesis
  proof (cases la)
    case (Inl x)
    then have "y = Inl x" "s' = s1" using assms(8) la by (auto simp: recompute_desired_def)
    then show ?thesis using closed_list [OF cl assms(4) la] r1 by (auto intro: resolves_exit)
  next
    case (Inr arts)
    note l = list_resolves [OF assms(1-4) la [unfolded Inr]]
    show ?thesis
    proof (cases "r_hasCache r")
      case False
      then have y: "y = Inr (resolved_arts arts)" "s' = markDesiredStateFullRecompute key (m_Generation m') t s1"
        using assms(8) la Inr by (auto simp: recompute_desired_def)
      have "\<exists>w. between r w (s_world s) (s_world s1) \<and> arts = ComputeDesiredStateRecomputeArtifacts M (r_ClusterName r) m' (en_pods env w)"
        if "same_spec m m'" using l(4) [OF that] r1 by auto
      then show ?thesis unfolding y(1) by (intro arts_resolves) (simp_all add: y(2) l(1) r1)
    next
      case True
      note hc = True
      obtain cur s2 where cur: "mappingStillCurrent r key (m_UID m') (m_Generation m') s1 = (cur, s2)"
        by (cases "mappingStillCurrent r key (m_UID m') (m_Generation m') s1")
      note c = current_resolves [OF assms(1-3) l(1) cur]
      have r2: "(call_moves r)\<^sup>*\<^sup>* (s_world s) (s_world s2)" using r1 c(2) by (rule rtranclp.rtrancl_into_rtrancl)
      show ?thesis
      proof (cases "cur = Inr True")
        case False
        then have "y = Inl (conflict_exit r)" "s' = s2" using assms(8) la Inr hc cur by (auto simp: recompute_desired_def split: sum.splits bool.splits)
        then show ?thesis using c(1) r2 by (auto intro: resolves_exit)
      next
        case True
        obtain dn s3 where p: "publish m' arts v e s2 = (dn, s3)" by (cases "publish m' arts v e s2")
        have mom: "\<exists>w \<in> {s_world s, s_world s1, s_world s2}. arts = ComputeDesiredStateRecomputeArtifacts M (r_ClusterName r) m' (en_pods env w)"
          if "same_spec m m'" using l(4) [OF that] by blast
        have s3: "holds ?inv s3" by (rule fenced_publication [OF assms(2,4) l(1) c(1) assms(5,6) l(3) c(3) mom p [unfolded assms(7) [OF hc]]])
        have w3: "s_world s3 = s_world s2" by (rule publish_parts(1) [OF p])
        have r3: "(call_moves r)\<^sup>*\<^sup>* (s_world s) (s_world s3)" using r2 w3 by simp
        consider (published) dn | (cached) st where "\<not> dn" "\<not> forced" "Get (s_DesiredStateCache s3) m' = (st, True)"
          | (retry) "\<not> dn" "forced \<or> \<not> snd (Get (s_DesiredStateCache s3) m')" by (cases "Get (s_DesiredStateCache s3) m'") auto
        then show ?thesis
        proof cases
          case published
          then have y: "y = Inr (resolved_arts arts)" "s' = markDesiredStateFullRecompute key (m_Generation m') t s3"
            using assms(8) la Inr hc cur True p by (auto simp: recompute_desired_def)
          have "\<exists>w. between r w (s_world s) (s_world s2) \<and> arts = ComputeDesiredStateRecomputeArtifacts M (r_ClusterName r) m' (en_pods env w)"
            if "same_spec m m'" using l(4) [OF that] r1 r2 c(2) by auto
          then show ?thesis unfolding y(1) by (intro arts_resolves) (simp_all add: y(2) s3 [unfolded w3] w3 r2)
        next
          case (cached st)
          then have "y = Inr (resolved_cached st)" "s' = s3" using assms(8) la Inr hc cur True p by (auto simp: recompute_desired_def)
          then show ?thesis using cached_resolves [OF assms(2) s3 r3 cached(3)] by simp
        next
          case retry
          then have "retry_publish M r key m' ok t s3 = (y, s')" using assms(8) la Inr hc cur True p
            by (auto simp: recompute_desired_def split: prod.splits bool.splits)
          then show ?thesis using retry_resolves [OF assms(1-3) s3 assms(5,6)] resolves_from [OF r3] by blast
        qed
      qed
    qed
  qed
qed

lemma resolve_resolves:
  assumes "surrounded M r m env" and "separate_targets (r_ClusterName r) m" and "extensional M"
    and "holds (system_inv M (r_ClusterName r) m env) s" and "m_Generation m' > 0" and "mapping_key m' = mapping_key m \<Longrightarrow> same_spec m m'"
    and "resolve_desired M r key m' ok t s = (y, s')"
  shows "resolves M r m env m' s y s'"
proof (cases "r_hasCache r")
  case False
  then have "recompute_desired M r key m' ok t False 0 0 s = (y, s')" using assms(7) by (simp add: resolve_desired_def)
  from recompute_resolves [OF assms(1-5) _ _ this] assms(6) False show ?thesis by blast
next
  case True
  obtain st v e b where g: "GetWithVersion (s_DesiredStateCache s) m' = (st, v, e, b)" by (cases "GetWithVersion (s_DesiredStateCache s) m'")
  let ?forced = "shouldForceDesiredStateRecompute r key (m_Generation m') t s"
  show ?thesis
  proof (cases "\<not> ?forced \<and> b")
    case True
    then have y: "y = Inr (resolved_cached st)" "s' = s" using assms(7) \<open>r_hasCache r\<close> g by (auto simp: resolve_desired_def)
    have "Get (s_DesiredStateCache s) m' = (st, True)" using GetWithVersion_Get [of "s_DesiredStateCache s" m' st v e] g True by simp
    then show ?thesis unfolding y by (intro cached_resolves [OF assms(2,4)]) simp_all
  next
    case False
    then have "recompute_desired M r key m' ok t ?forced v e s = (y, s')" using assms(7) \<open>r_hasCache r\<close> g by (auto simp: resolve_desired_def Let_def)
    from recompute_resolves [OF assms(1-5) _ _ this] assms(6) GetWithVersion_version [OF g] show ?thesis by blast
  qed
qed

section \<open>Reachable states\<close>

text \<open>
  A controller starts, or is restarted, with an empty cache and no memory of earlier reconciles;
  then events are delivered and keys are reconciled, in any order.
\<close>

inductive controller_reach :: "matcher \<Rightarrow> 'w MappingReconciler \<Rightarrow> PodASGMapping \<Rightarrow> 'w surroundings \<Rightarrow> 'w reconciler_state \<Rightarrow> bool"
  for M r m env where
  start: "cluster_pods m (en_pods env w) \<Longrightarrow> controller_reach M r m env \<lparr>s_world = w,
      s_DesiredStateCache = NewDesiredStateCache (r_ClusterName r), s_lastReconcileState = [], s_desiredStateResyncState = []\<rparr>"
| events: "controller_reach M r m env s \<Longrightarrow> pods_move m env (s_world s) w \<Longrightarrow>
    controller_reach M r m env (s\<lparr>s_world := w, s_DesiredStateCache := deliver M (arrivals env (s_world s) w) (s_DesiredStateCache s)\<rparr>)"
| reconcile: "controller_reach M r m env s \<Longrightarrow> Reconcile M r key s = Some (x, s') \<Longrightarrow> controller_reach M r m env s'"

lemma surrounded_get:
  assumes "surrounded M r m env" and "kc_Get (r_Client r) key w = (Inr x, w')"
  shows "mapping_key x = key" and "m_Generation x > 0" and "mapping_key x = mapping_key m \<Longrightarrow> same_spec m x"
  using assms unfolding surrounded_def by blast+

lemma reach_inv:
  assumes "surrounded M r m env" and "separate_targets (r_ClusterName r) m" and "extensional M" and "controller_reach M r m env s"
  shows "holds (system_inv M (r_ClusterName r) m env) s"
  using assms(4)
proof (induction rule: controller_reach.induct)
  case (start w)
  then show ?case by (simp add: system_inv_def new_cache_inv)
next
  case (events s w)
  then show ?case using moved_inv [OF assms(2,3) events.hyps(2)] by simp
next
  case (reconcile s key x s')
  show ?case
  proof (rule closed_Reconcile [OF closed_system [OF assms(1-3)] reconcile.IH reconcile.hyps(2)])
    fix m' ok t s1 y s2
    assume g: "kc_Get (r_Client r) key (s_world s) = (Inr m', s_world s1)" and i: "holds (system_inv M (r_ClusterName r) m env) s1"
      and "resolve_desired M r key m' ok t s1 = (y, s2)"
    then show "holds (system_inv M (r_ClusterName r) m env) s2"
      using resolve_resolves [OF assms(1-3) i surrounded_get(2,3) [OF assms(1) g]] unfolding resolves_def by blast
  qed
qed

lemma entry_state_parity:
  assumes "separate_targets cl m" and "namespace_pods m pods" and "entry_ok M cl m pods e"
  shows "let state = ce_state e; arts = ComputeDesiredStateRecomputeArtifacts M cl m pods in
       cs_MatchedPodsByIndex state = art_MatchedPodsByIndex arts \<and>
       cs_HasPendingIPPods state = art_HasPendingIPPods arts \<and>
       (\<forall>x. gget (snap_Pods (cs_Snapshot state)) x = gget (snap_Pods (art_Snapshot arts)) x) \<and>
       (\<forall>k. nonempty_view (cs_Desired state) k = view (art_Desired arts) k)"
proof -
  let ?e = "e\<lparr>ce_mapping := Some m\<rparr>" and ?c = "set_entry m (e\<lparr>ce_mapping := Some m\<rparr>) (NewDesiredStateCache cl)"
  have ok: "entry_ok M cl m pods ?e" using assms(3) by (simp add: entry_ok_def)
  have g: "gget (dc_entries ?c) (cache_key m) = Some ?e" by (simp add: set_entry_def)
  have "Get ?c m = (deepCopyCachedState (ce_state e), True)" by (simp add: Get_def set_entry_def uid_differs_def)
  then show ?thesis using entry_ok_parity [OF assms(1,2) ok g] by (simp add: Let_def deepCopyCachedState_def)
qed

section \<open>Properties\<close>

text \<open>From one world to a later one the pods change by the events that are delivered in between.\<close>

lemma moves_log:
  assumes "surrounded M r m env" and "(call_moves r)\<^sup>*\<^sup>* w w'"
  shows "\<exists>as. en_log env w' = en_log env w @ as \<and> en_pods env w' = pods_after as (en_pods env w)"
  using assms(2)
proof (induction rule: rtranclp_induct)
  case base
  show ?case by (intro exI [of _ "[]"]) simp
next
  case (step v v')
  have "pods_move m env v v'" using assms(1) step.hyps(2) unfolding surrounded_def by blast
  moreover obtain as where "en_log env v = en_log env w @ as" "en_pods env v = pods_after as (en_pods env w)" using step.IH by blast
  ultimately show ?case by (intro exI [of _ "as @ arrivals env v v'"]) (simp add: pods_move_def pods_after_def)
qed



section \<open>A concrete controller\<close>

text \<open>The executor changes the world only by operations of the client.\<close>

definition all_keep :: "'w AddressPrefixSetAPI \<Rightarrow> ('w \<Rightarrow> bool) \<Rightarrow> bool" where
  "all_keep api Q \<longleftrightarrow> api_keeps api Q \<and> (\<forall>w. Q w \<longrightarrow> (\<forall>t. Q (snd (api_GetWithETag api t w))) \<and> (\<forall>t ips. Q (snd (api_Put api t ips w))) \<and>
     (\<forall>t ips etag. Q (snd (api_PutWithIfMatch api t ips etag w))))"

lemma executeAction_keeps:
  assumes "all_keep api Q" and "Q w" and "executeAction api a w = (e, w')"
  shows "Q w'"
proof -
  let ?t = "target_resource (act_Target a)"
  have k: "Q (snd (api_Delete api ?t w))" "Q (snd (api_Put api ?t ips w))" "Q (snd (api_GetWithETag api ?t w))" for ips
    using assms(1,2) unfolding all_keep_def api_keeps_def by blast+
  have p: "Q (snd (api_PutWithIfMatch api ?t ips etag v))" if "Q v" for ips etag v
    using assms(1) that unfolding all_keep_def by blast
  obtain got v where g: "api_GetWithETag api ?t w = (got, v)" by (cases "api_GetWithETag api ?t w")
  then have v: "Q v" using k(3) by simp
  have "Q (snd (executePatchAction api a w))" using p [OF v] v by (simp add: executePatchAction_def Let_def g split: sum.split option.split prod.split)
  then have "Q (snd (executeAction api a w))" using k assms(2) by (simp add: executeAction_def Let_def split: ActionKind.split)
  then show ?thesis using assms(3) by simp
qed

lemma etag_loop_keeps:
  assumes "all_keep api Q"
  shows "Q w \<Longrightarrow> Q (snd (etag_retry_loop n e ctx api a k err w))"
proof (induction n arbitrary: a k err w)
  case (Suc n)
  obtain x v where a: "executeAction api a w = (x, v)" by (cases "executeAction api a w")
  have v: "Q v" by (rule executeAction_keeps [OF assms Suc.prems a])
  obtain got u where g: "api_Get api (target_resource (act_Target a)) v = (got, u)" by (cases "api_Get api (target_resource (act_Target a)) v")
  have "Q (snd (api_Get api (target_resource (act_Target a)) v))" using assms v unfolding all_keep_def api_keeps_def by blast
  then have u: "Q u" using g by simp
  show ?case using Suc.prems v u Suc.IH by (simp add: a g split: option.split sum.split)
qed simp

lemma Execute_keeps:
  assumes "\<And>sub api. env_factory env sub = Inr api \<Longrightarrow> all_keep api Q" and "Q w" and "Execute e env sched acts w = (results, w')"
  shows "Q w'"
proof -
  have run: "Q (snd (run_action e env a v))" if "Q v" for a v
    using etag_loop_keeps [OF assms(1) that] that by (simp add: run_action_def executeWithETagRetry_def Let_def split_beta split: sum.split)
  have one: "Q (snd (execute_one e env i a v))" if "Q v" for i a v
    using run [OF that] that by (simp add: execute_one_def split: option.split)
  have "Q (snd acc) \<Longrightarrow> Q (snd (fold (\<lambda>idx (results, w). let (r, w) = execute_one e env idx (acts ! idx) w in (results[idx := r], w)) sched acc))" for acc
    by (induction sched arbitrary: acc) (simp_all add: Let_def split_beta one)
  from this [of "(replicate (length acts) zero_result, w)"] show ?thesis using assms(2,3) by (simp add: Execute_def)
qed

lemma listActual_all_keeps:
  assumes "factory_keeps r Q" and "Q w" and "listActualForTargets r ts w = Some (z, w')"
  shows "Q w'"
proof (cases "ts = []")
  case True
  then show ?thesis using assms(2,3) by (simp add: listActualForTargets_def)
next
  case False
  let ?tl = "sort_key targetKey ts"
  obtain clients failed errs where c: "fold (resolve_client (r_PrefixSetFactory r) ?tl) ?tl ([], [], []) = (clients, failed, errs)"
    by (cases "fold (resolve_client (r_PrefixSetFactory r) ?tl) ?tl ([], [], [])")
  have k: "\<forall>sub c. gget clients sub = Some c \<longrightarrow> api_keeps c Q" using resolve_clients_keep [OF assms(1), of ?tl ?tl] c by simp
  obtain actual errs' where f: "fold (read_target r clients) (r_order r ?tl) (Some ([], errs, w)) = Some (actual, errs', w')"
    using assms(3) False c by (auto simp: listActualForTargets_def Let_def split: option.splits)
  show ?thesis using read_targets_steps [OF assms(1) k f assms(2)] by blast
qed


text \<open>
  A cluster with one mapping, whose annotations change, and with batches of pod events still to
  come: each call to the API server lets one batch arrive, if its events are valid. Azure is the
  in-memory client.
\<close>

type_synonym ex_feed = "Pod list \<times> arrival list list \<times> arrival list"
type_synonym ex_live = "((string, string) gomap option \<times> ex_feed) \<times> Client"

definition ex_tick :: "ex_feed \<Rightarrow> ex_feed" where
  "ex_tick fd = (case fd of (pods, [], seen) \<Rightarrow> (pods, [], seen)
     | (pods, b # bs, seen) \<Rightarrow> if valid_arrivals ex_live_mapping pods b \<and> length b < 2 ^ 60 then (pods_after b pods, bs, seen @ b) else (pods, bs, seen))"

definition ex_live_kube :: "ex_live kube_client" where
  "ex_live_kube = \<lparr>
     kc_Get = (\<lambda>key ((ann, fd), c). (if key = mapping_key ex_live_mapping then Inr (ex_live_mapping\<lparr>m_Annotations := ann\<rparr>)
       else Inl (ApiNotFound ''x''), ((ann, ex_tick fd), c))),
     kc_UpdateStatus = (\<lambda>m w. (None, w)),
     kc_Patch = (\<lambda>base m ((ann, fd), c). (Inr m, ((m_Annotations m, ex_tick fd), c))),
     kc_ListPods = (\<lambda>ns ((ann, fd), c). (Inr (fst fd), ((ann, ex_tick fd), c))),
     kc_ListMappings = (\<lambda>w. (Inr [], w)), kc_Now = (\<lambda>w. 9)\<rparr>"

definition ex_surroundings :: "ex_live surroundings" where
  "ex_surroundings = \<lparr>en_pods = (\<lambda>((ann, (pods, future, seen)), c). pods), en_log = (\<lambda>((ann, (pods, future, seen)), c). seen)\<rparr>"

definition ex_live_env :: "ex_live exec_env" where
  "ex_live_env = \<lparr>env_ctx = (\<lambda>_. None), env_clock = (\<lambda>_. 0), env_factory = (\<lambda>_. Inr (beside fake_api)), env_pick = (\<lambda>_. True)\<rparr>"

definition ex_live_reconciler :: "ex_live MappingReconciler" where
  "ex_live_reconciler = \<lparr>r_Client = ex_live_kube, r_ClusterName = ''c'', r_ResyncInterval = 60 * second, r_MinReconcileInterval = 0,
     r_PatchThresholdPercent = 50, r_PrefixSetFactory = (\<lambda>_. Inr (beside fake_api)),
     r_Executor = (\<lambda>acts. Execute (NewExecutor 2) ex_live_env [0..<length acts] acts),
     r_StatusUpdater = None, r_hasCache = True, r_order = (\<lambda>ts. ts), r_semaphore = (\<lambda>_ _. None),
     r_interleaved = (\<lambda>w w'. deliver doc_matches (arrivals ex_surroundings w w'))\<rparr>"

lemma ex_live_fields [simp]:
  "r_Client ex_live_reconciler = ex_live_kube" "r_ClusterName ex_live_reconciler = ''c''" "r_StatusUpdater ex_live_reconciler = None"
  "r_hasCache ex_live_reconciler = True" "r_MinReconcileInterval ex_live_reconciler = 0" "r_ResyncInterval ex_live_reconciler = 60 * second"
  "r_interleaved ex_live_reconciler = (\<lambda>w w'. deliver doc_matches (arrivals ex_surroundings w w'))"
  "r_PatchThresholdPercent ex_live_reconciler = 50" "r_PrefixSetFactory ex_live_reconciler = (\<lambda>_. Inr (beside fake_api))"
  "r_order ex_live_reconciler = (\<lambda>ts. ts)" "r_semaphore ex_live_reconciler = (\<lambda>_ _. None)"
  "r_Executor ex_live_reconciler = (\<lambda>acts. Execute (NewExecutor 2) ex_live_env [0..<length acts] acts)"
  by (simp_all add: ex_live_reconciler_def)

lemma ex_tick_moves:
  assumes "snd (fst w') = snd (fst w) \<or> snd (fst w') = ex_tick (snd (fst w))"
  shows "pods_move ex_live_mapping ex_surroundings w w'"
proof -
  obtain ann pods future seen c where w: "w = ((ann, (pods, future, seen)), c)" by (metis prod.collapse)
  obtain ann' fd c' where w': "w' = ((ann', fd), c')" by (metis prod.collapse)
  have same: "pods_move ex_live_mapping ex_surroundings w ((ann', (pods, fut, seen)), c')" for fut
    by (simp add: pods_move_def arrivals_def ex_surroundings_def w)
  have stepped: "pods_move ex_live_mapping ex_surroundings w ((ann', (pods_after b pods, bs, seen @ b)), c')"
    if "valid_arrivals ex_live_mapping pods b" "length b < 2 ^ 60" for b bs
    using that by (simp add: pods_move_def arrivals_def ex_surroundings_def w)
  have "fd = (pods, future, seen) \<or> fd = ex_tick (pods, future, seen)" using assms by (simp add: w w')
  then show ?thesis unfolding w' using same stepped by (auto simp: ex_tick_def split: list.splits if_splits)
qed

lemma ex_api_keeps: "all_keep (beside fake_api) (\<lambda>w. fst w = k)"
  by (auto simp: all_keep_def api_keeps_def beside_def split_beta)

lemma ex_surrounded: "surrounded doc_matches ex_live_reconciler ex_live_mapping ex_surroundings"
proof -
  have "snd (fst w') = snd (fst w) \<or> snd (fst w') = ex_tick (snd (fst w))" if "call_moves ex_live_reconciler w w'" for w w'
    using that
  proof (cases rule: call_moves.cases)
    case (execute actions results)
    have "fst w' = fst w" by (rule Execute_keeps [of ex_live_env "\<lambda>v. fst v = fst w" w, OF _ refl execute [unfolded ex_live_fields]])
      (simp add: ex_live_env_def, metis ex_api_keeps)
    then show ?thesis by simp
  next
    case (read ts z)
    have "factory_keeps ex_live_reconciler (\<lambda>v. fst v = fst w)" using ex_api_keeps [of "fst w"] by (simp add: factory_keeps_def all_keep_def)
    then have "fst w' = fst w" by (rule listActual_all_keeps [OF _ refl read])
    then show ?thesis by simp
  next
    case (delete m ok e)
    have "factory_keeps ex_live_reconciler (\<lambda>v. fst v = fst w)" using ex_api_keeps [of "fst w"] by (simp add: factory_keeps_def all_keep_def)
    then have "fst w' = fst w" by (rule reconcileDelete_keeps [OF _ refl delete])
    then show ?thesis by simp
  qed (auto simp: ex_live_kube_def split_beta)
  then have "pods_move ex_live_mapping ex_surroundings w w'" if "call_moves ex_live_reconciler w w'" for w w'
    using that by (intro ex_tick_moves) simp
  moreover have "ps = en_pods ex_surroundings w" if "kc_ListPods ex_live_kube ns w = (Inr ps, w')" for ns w ps w'
    using that by (auto simp: ex_live_kube_def ex_surroundings_def split_beta)
  moreover have "mapping_key x = key \<and> m_Generation x > 0 \<and> (key = mapping_key ex_live_mapping \<longrightarrow> same_spec ex_live_mapping x)"
    if "kc_Get ex_live_kube key w = (Inr x, w')" for key w x w'
    using that by (auto simp: ex_live_kube_def split_beta same_spec_def mapping_key_def ex_live_mapping_def ex_mapping_def split: if_splits)
  ultimately show ?thesis by (simp add: surrounded_def)
qed

text \<open>
  The race of a pod event with a recomputation: the pod arrives after the pods were listed and
  before the recomputation is published, so the publication is refused and done again.
\<close>

definition ex_arrival :: arrival where
  "ex_arrival = ((\<lambda>_. Inr \<lparr>ml_ResourceVersion = ''7'', ml_Items = [ex_live_mapping]\<rparr>), Added ex_web)"

definition ex_race :: "ex_live reconciler_state" where
  "ex_race = \<lparr>s_world = ((None, ([], [[], [ex_arrival]], [])), NewClient), s_DesiredStateCache = NewDesiredStateCache ''c'',
     s_lastReconcileState = [], s_desiredStateResyncState = []\<rparr>"

lemma ex_live_simps [simp]:
  "m_Namespace ex_live_mapping = ''ns''" "m_Name ex_live_mapping = ''m''" "m_UID ex_live_mapping = ''u1''" "m_Generation ex_live_mapping = 1"
  "m_DeletionTimestamp ex_live_mapping = None" "m_Finalizers ex_live_mapping = [CleanupFinalizer]" "m_Annotations ex_live_mapping = None"
  "m_Mappings ex_live_mapping = [ex_rule ''web'' ''A'', ex_rule ''db'' ''B'']" "ex_live_mapping\<lparr>m_Annotations := None\<rparr> = ex_live_mapping"
  by (simp_all add: ex_live_mapping_def ex_mapping_def ex_mapping_of_def)

lemma ex_live_valid: "validateASGResourceIDs [ex_rule ''web'' ''A'', ex_rule ''db'' ''B''] = []"
  using ex_lists_mapping by (simp add: lists_mapping_def ex_mapping_def)

lemma ex_live_lists: "lists_mapping (fst ex_arrival) ex_live_mapping"
  by (simp add: ex_arrival_def lists_mapping_def ex_live_valid)

lemma ex_arrival_valid: "valid_arrivals ex_live_mapping [] [ex_arrival]"
proof -
  have "reader_ok ex_live_mapping (fst ex_arrival)" unfolding reader_ok_def using ex_live_lists by (auto simp: same_spec_def)
  moreover have "event_labels (Added ex_web)" by (simp add: wf_labels_def ex_pod_def)
  ultimately show ?thesis by (simp add: ex_arrival_def)
qed

lemma ex_arrival_bumps: "on_arrival doc_matches ex_arrival (NewDesiredStateCache ''c'') = bump_version (mapping_key ex_live_mapping) (NewDesiredStateCache ''c'')"
proof -
  have "mapping_matches doc_matches ex_live_mapping (p_Labels ex_web)" by (simp add: mapping_matches_iff ex_rule_matches)
  then show ?thesis
    by (simp add: on_arrival_def ex_arrival_def NewPodToMappingEventHandlerWithCache_def Handler_Create_def handle_one_def
        matchingMappingsForPodDetailed_def listPodASGMappings_def handle_matched_def cache_on_create_def ex_live_valid OnPodAdd_def
        NewDesiredStateCache_def bump_version_def Let_def)
qed

lemma ex_still:
  assumes "f (s_world s) = (x, w)" and "en_log ex_surroundings w = en_log ex_surroundings (s_world s)"
  shows "external ex_live_reconciler f s = (x, s\<lparr>s_world := w\<rparr>)"
  using assms by (cases s) (simp add: external_def arrivals_def)

abbreviation ex_state :: "(string, string) gomap option \<Rightarrow> Pod list \<Rightarrow> arrival list list \<Rightarrow> arrival list \<Rightarrow> Client \<Rightarrow> DesiredStateCache \<Rightarrow>
    (NamespacedName, resyncState) gomap \<Rightarrow> ex_live reconciler_state" where
  "ex_state ann pods future seen cl c ry \<equiv> \<lparr>s_world = ((ann, (pods, future, seen)), cl), s_DesiredStateCache = c,
     s_lastReconcileState = [], s_desiredStateResyncState = ry\<rparr>"

abbreviation ex_key :: NamespacedName where
  "ex_key \<equiv> mapping_key ex_live_mapping"

lemma ex_calls:
  shows "external ex_live_reconciler (kc_Get ex_live_kube ex_key) (ex_state ann pods [] seen cl c ry) =
      (Inr (ex_live_mapping\<lparr>m_Annotations := ann\<rparr>), ex_state ann pods [] seen cl c ry)"
    and "external ex_live_reconciler (kc_Get ex_live_kube ex_key) (ex_state ann pods ([] # bs) seen cl c ry) =
      (Inr (ex_live_mapping\<lparr>m_Annotations := ann\<rparr>), ex_state ann pods bs seen cl c ry)"
    and "external ex_live_reconciler (kc_ListPods ex_live_kube ns) (ex_state ann pods [] seen cl c ry) = (Inr pods, ex_state ann pods [] seen cl c ry)"
    and "external ex_live_reconciler (kc_ListPods ex_live_kube ns) (ex_state None [] [[ex_arrival]] [] cl (NewDesiredStateCache ''c'') ry) =
      (Inr [], ex_state None [ex_web] [] [ex_arrival] cl (bump_version ex_key (NewDesiredStateCache ''c'')) ry)"
    and "external ex_live_reconciler (kc_Patch ex_live_kube base m) (ex_state ann pods [] seen cl c ry) = (Inr m, ex_state (m_Annotations m) pods [] seen cl c ry)"
proof -
  have snd: "snd ex_arrival = Added ex_web" by (simp add: ex_arrival_def)
  show "external ex_live_reconciler (kc_Get ex_live_kube ex_key) (ex_state ann pods [] seen cl c ry) =
      (Inr (ex_live_mapping\<lparr>m_Annotations := ann\<rparr>), ex_state ann pods [] seen cl c ry)"
    "external ex_live_reconciler (kc_Get ex_live_kube ex_key) (ex_state ann pods ([] # bs) seen cl c ry) =
      (Inr (ex_live_mapping\<lparr>m_Annotations := ann\<rparr>), ex_state ann pods bs seen cl c ry)"
    "external ex_live_reconciler (kc_ListPods ex_live_kube ns) (ex_state ann pods [] seen cl c ry) = (Inr pods, ex_state ann pods [] seen cl c ry)"
    "external ex_live_reconciler (kc_Patch ex_live_kube base m) (ex_state ann pods [] seen cl c ry) = (Inr m, ex_state (m_Annotations m) pods [] seen cl c ry)"
    by (simp_all add: external_def ex_live_kube_def ex_tick_def arrivals_def ex_surroundings_def)
  show "external ex_live_reconciler (kc_ListPods ex_live_kube ns) (ex_state None [] [[ex_arrival]] [] cl (NewDesiredStateCache ''c'') ry) =
      (Inr [], ex_state None [ex_web] [] [ex_arrival] cl (bump_version ex_key (NewDesiredStateCache ''c'')) ry)"
    using ex_arrival_valid by (simp add: external_def ex_live_kube_def ex_tick_def arrivals_def ex_surroundings_def ex_arrival_bumps snd
        del: valid_arrivals.simps)
qed

definition ex_published :: DesiredStateCache where
  "ex_published = (let c = bump_version ex_key (NewDesiredStateCache ''c'') in
     track_generation ex_live_mapping (c\<lparr>dc_entries := gput (cache_key ex_live_mapping)
       (buildCacheEntryFromArtifacts ex_live_mapping (ComputeDesiredStateRecomputeArtifacts doc_matches ''c'' ex_live_mapping [ex_web])) (dc_entries c)\<rparr>))"

lemma ex_refused:
  "publish ex_live_mapping arts 0 0 (ex_state ann pods future seen cl (bump_version ex_key (NewDesiredStateCache ''c'')) ry) =
     (False, ex_state ann pods future seen cl (bump_version ex_key (NewDesiredStateCache ''c'')) ry)"
  by (simp add: publish_def SetFromRecomputeArtifactsIfVersion_def publish_refused_def Let_def) (simp add: currentVersion_def NewDesiredStateCache_def)

lemma ex_committed:
  "publish ex_live_mapping (ComputeDesiredStateRecomputeArtifacts doc_matches ''c'' ex_live_mapping [ex_web]) 1 0
      (ex_state ann pods future seen cl (bump_version ex_key (NewDesiredStateCache ''c'')) ry) =
     (True, ex_state ann pods future seen cl ex_published ry)"
  by (simp add: publish_def SetFromRecomputeArtifactsIfVersion_def publish_refused_def Let_def ex_published_def)
    (simp add: currentVersion_def NewDesiredStateCache_def)

lemma ex_versions:
  "GetWithVersion (NewDesiredStateCache ''c'') ex_live_mapping = (empty_cached_state, 0, 0, False)"
  "GetWithVersion (bump_version ex_key (NewDesiredStateCache ''c'')) ex_live_mapping = (empty_cached_state, 1, 0, False)"
  by (simp_all add: GetWithVersion_def Let_def) (simp_all add: currentVersion_def NewDesiredStateCache_def)

lemma ex_current:
  "mappingStillCurrent ex_live_reconciler ex_key (m_UID ex_live_mapping) (m_Generation ex_live_mapping) (ex_state None pods [] seen cl c ry) =
     (Inr True, ex_state None pods [] seen cl c ry)"
  by (simp add: mappingStillCurrent_def ex_calls)

lemma ex_race_resolves:
  "resolve_desired doc_matches ex_live_reconciler ex_key ex_live_mapping ok 9 (ex_state None [] [[ex_arrival]] [] cl (NewDesiredStateCache ''c'') []) =
     (Inr (resolved_arts (ComputeDesiredStateRecomputeArtifacts doc_matches ''c'' ex_live_mapping [ex_web])),
      ex_state None [ex_web] [] [ex_arrival] cl ex_published [(ex_key, \<lparr>ry_generation = 1, ry_lastFullRecomputeAt = 9\<rparr>)])"
proof -
  let ?c = "bump_version ex_key (NewDesiredStateCache ''c'')" and ?arts = "ComputeDesiredStateRecomputeArtifacts doc_matches ''c'' ex_live_mapping"
  have force: "shouldForceDesiredStateRecompute ex_live_reconciler ex_key g t (ex_state ann pods fut seen cl c [])" for g t ann pods fut seen cl c
    by (simp add: shouldForceDesiredStateRecompute_def)
  have l1: "list_and_recompute doc_matches ex_live_reconciler ex_key ex_live_mapping ok (ex_state None [] [[ex_arrival]] [] cl (NewDesiredStateCache ''c'') []) =
      (Inr (?arts []), ex_state None [ex_web] [] [ex_arrival] cl ?c [])" by (simp add: list_and_recompute_def ex_calls)
  have l2: "list_and_recompute doc_matches ex_live_reconciler ex_key ex_live_mapping ok (ex_state None [ex_web] [] [ex_arrival] cl ?c []) =
      (Inr (?arts [ex_web]), ex_state None [ex_web] [] [ex_arrival] cl ?c [])" by (simp add: list_and_recompute_def ex_calls)
  have retry: "retry_publish doc_matches ex_live_reconciler ex_key ex_live_mapping ok 9 (ex_state None [ex_web] [] [ex_arrival] cl ?c []) =
      (Inr (resolved_arts (?arts [ex_web])), markDesiredStateFullRecompute ex_key (m_Generation ex_live_mapping) 9 (ex_state None [ex_web] [] [ex_arrival] cl ex_published []))"
    unfolding retry_publish_def reconciler_state.select_convs ex_versions ex_current prod.case sum.case bool.case l2 ex_committed ..
  show ?thesis
    unfolding resolve_desired_def recompute_desired_def ex_live_fields if_True reconciler_state.select_convs ex_versions Let_def prod.case l1 sum.case ex_current bool.case ex_refused
    using force retry by (simp add: markDesiredStateFullRecompute_def)
qed

lemma ex_live_read: "external ex_live_reconciler (\<lambda>_. (got, ((ann, (pods, [], seen)), cl'))) (ex_state ann pods [] seen cl c ry) = (got, ex_state ann pods [] seen cl' c ry)"
  by (simp add: external_def arrivals_def ex_surroundings_def)

lemma ex_live_list: "listActualForTargets ex_live_reconciler [ex_asg ''A''] (k, NewClient) = Some (Inr [], (k, NewClient\<lparr>cl_getCallCount := 1\<rparr>))"
  by (simp add: listActualForTargets_def resolve_client_def read_target_def beside_def fake_api_def Client_Get_def NewClient_def
      consumeInjectedError_def IsNotFound_def errors_Is_def aggregateListActualTargetErrors_def Let_def)

lemma ex_live_execute:
  "\<exists>c' r'. Execute (NewExecutor 2) ex_live_env [0..<length [ex_action]] [ex_action] (k, NewClient\<lparr>cl_getCallCount := n\<rparr>) = ([r'], (k, c')) \<and>
     ar_Success r' \<and> ar_Action r' = ex_action \<and>
     fake_stored c' (resourceKey (target_resource (ex_asg ''A''))) = Some {''10.0.0.1/32''}"
  by (simp add: fake_stored_def ex_live_env_def Execute_def execute_one_def run_action_def executeWithETagRetry_def NewExecutor_def numeral_3_eq_3
      executeAction_def ex_action_def beside_def fake_api_def Client_Put_def NewClient_def consumeInjectedError_def Let_def)

lemma ex_live_apply:
  assumes "nonempty_desired (rv_desired rv) = [(ex_asg ''A'', [''10.0.0.1/32''])]"
  shows "\<exists>res ann cl. apply_desired ex_live_reconciler ex_key ex_live_mapping ok rv (ex_state None pods [] seen NewClient c ry) =
      Some ((res, None, Some ReconcileStageSteadyStateSuccess), ex_state ann pods [] seen cl c ry) \<and>
    fake_stored cl (resourceKey (target_resource (ex_asg ''A''))) = Some {''10.0.0.1/32''}"
proof -
  let ?r = ex_live_reconciler and ?D = "[(ex_asg ''A'', [''10.0.0.1/32''])]" and ?cl = "NewClient\<lparr>cl_getCallCount := 1\<rparr>"
  let ?m = "StoreOwnedASGs ex_live_mapping ex_refs"
  have o: "LoadOwnedASGs ex_live_mapping = Inr None" by (simp add: LoadOwnedASGs_def)
  have a: "all_targets ?D (TargetsFromOwnedASGs None ok) = [ex_asg ''A'']"
    by (simp add: all_targets_def TargetsFromOwnedASGs_def set_of_slice_def)
  have o': "add_owned_actual D (TargetsFromOwnedASGs None ok) [] = []" for D by (simp add: add_owned_actual_def TargetsFromOwnedASGs_def set_of_slice_def)
  have ch: "ownershipAnnotationChanged None ex_refs"
    by (simp add: ownershipAnnotationChanged_iff UpdateOwnedASGsAfterResults_def merge_desired_def successful_deletes_def Let_def)
  have prep: "prepare ?r ex_key ex_live_mapping ok rv (ex_state None pods [] seen NewClient c ry) =
      Some (Inr \<lparr>pl_mapping = ?m, pl_desired = ?D, pl_allTargets = [ex_asg ''A''], pl_actions = [ex_action], pl_preRefs = ex_refs\<rparr>,
        ex_state (m_Annotations ?m) pods [] seen ?cl c ry)"
    using o a o' ch assms
    by (simp add: prepare_def Let_def ex_live_list ex_live_read patch_owned_def ex_calls ex_plan)
  obtain c' r' where x: "Execute (NewExecutor 2) ex_live_env [0..<length [ex_action]] [ex_action] ((m_Annotations ?m, (pods, [], seen)), ?cl) =
      ([r'], ((m_Annotations ?m, (pods, [], seen)), c'))" "ar_Success r'" "ar_Action r' = ex_action"
    "fake_stored c' (resourceKey (target_resource (ex_asg ''A''))) = Some {''10.0.0.1/32''}"
    using ex_live_execute [of "(m_Annotations ?m, (pods, [], seen))" 1] by blast
  have run: "external ?r (r_Executor ?r [ex_action]) (ex_state (m_Annotations ?m) pods [] seen ?cl c ry) = ([r'], ex_state (m_Annotations ?m) pods [] seen c' c ry)"
    using x(1) by (simp add: external_def arrivals_def ex_surroundings_def)
  have same: "\<not> ownershipAnnotationChanged ex_refs (UpdateOwnedASGsAfterResults ex_refs ?D [r'])"
    using x(2,3) by (simp add: ownershipAnnotationChanged_iff UpdateOwnedASGsAfterResults_def merge_desired_def merge_existing_def successful_deletes_def
        ex_action_def Let_def ownedASGRefKey_def ownedASGTargetKey_def target_ref_def)
  have "aggregateActionFailures [r'] = None" using x(2) by (simp add: aggregateActionFailures_def split: option.split)
  then show ?thesis using prep run same x(4)
    by (simp add: apply_desired_def finish_def Let_def patch_owned_def status_call_def decide_exit_def markReconcileSuccess_def)
qed

lemma ex_race_reconcile:
  obtains res ann cl where "Reconcile doc_matches ex_live_reconciler ex_key ex_race = Some ((res, None, Some ReconcileStageSteadyStateSuccess),
      ex_state ann [ex_web] [] [ex_arrival] cl ex_published [(ex_key, \<lparr>ry_generation = 1, ry_lastFullRecomputeAt = 9\<rparr>)])"
    and "fake_stored cl (resourceKey (target_resource (ex_asg ''A''))) = Some {''10.0.0.1/32''}"
proof -
  let ?r = ex_live_reconciler and ?ok = "OwnershipKey ''c'' ''ns'' ''m''"
  let ?s = "ex_state None [] [[ex_arrival]] [] NewClient (NewDesiredStateCache ''c'') []"
  let ?arts = "ComputeDesiredStateRecomputeArtifacts doc_matches ''c'' ex_live_mapping [ex_web]"
  have D: "nonempty_desired (rv_desired (resolved_arts ?arts)) = [(ex_asg ''A'', [''10.0.0.1/32''])]"
    using ex_nonempty [OF right_recompute] by (simp add: resolved_arts_def)
  have n: "now ?r s = 9" for s by (simp add: now_def ex_live_kube_def)
  have g: "external ?r (kc_Get ex_live_kube ex_key) ex_race = (Inr ex_live_mapping, ?s)" unfolding ex_race_def ex_calls by simp
  obtain res ann cl where ap: "apply_desired ?r ex_key ex_live_mapping ?ok (resolved_arts ?arts)
      (ex_state None [ex_web] [] [ex_arrival] NewClient ex_published [(ex_key, \<lparr>ry_generation = 1, ry_lastFullRecomputeAt = 9\<rparr>)]) =
      Some ((res, None, Some ReconcileStageSteadyStateSuccess),
        ex_state ann [ex_web] [] [ex_arrival] cl ex_published [(ex_key, \<lparr>ry_generation = 1, ry_lastFullRecomputeAt = 9\<rparr>)])"
    "fake_stored cl (resourceKey (target_resource (ex_asg ''A''))) = Some {''10.0.0.1/32''}"
    using ex_live_apply [OF D] by blast
  have res: "reconcile_resolved ?r ex_key ex_live_mapping ?ok (resolved_arts ?arts)
      (ex_state None [ex_web] [] [ex_arrival] NewClient ex_published [(ex_key, \<lparr>ry_generation = 1, ry_lastFullRecomputeAt = 9\<rparr>)]) =
      Some ((res, None, Some ReconcileStageSteadyStateSuccess),
        ex_state ann [ex_web] [] [ex_arrival] cl ex_published [(ex_key, \<lparr>ry_generation = 1, ry_lastFullRecomputeAt = 9\<rparr>)])"
    unfolding reconcile_resolved_def ex_live_fields if_True ex_current using ap(1) by (simp add: status_call_def)
  have f: "ensureFinalizer ?r ex_live_mapping ?s = (Inr False, ex_live_mapping, ?s)" by (simp add: ensureFinalizer_def)
  have "Reconcile doc_matches ?r ex_key ex_race = reconcile_live doc_matches ?r ex_key ex_live_mapping ?ok 9 ?s"
    using g by (simp add: Reconcile_def n Let_def)
  also have "\<dots> = Some ((res, None, Some ReconcileStageSteadyStateSuccess),
        ex_state ann [ex_web] [] [ex_arrival] cl ex_published [(ex_key, \<lparr>ry_generation = 1, ry_lastFullRecomputeAt = 9\<rparr>)])"
    unfolding reconcile_live_def f prod.case sum.case bool.case using res
    by (simp add: debounceRemaining_def ex_live_valid ex_race_resolves Let_def)
  finally show thesis using ap(2) by (rule that)
qed

lemma ex_live_assumptions:
  shows "separate_targets ''c'' ex_live_mapping" and "controller_reach doc_matches ex_live_reconciler ex_live_mapping ex_surroundings ex_race"
proof -
  have "separate_targets ''c'' ex_mapping" by (rule ex_separate)
  moreover have "same_spec ex_mapping ex_live_mapping" by (simp add: same_spec_def ex_mapping_def)
  ultimately show "separate_targets ''c'' ex_live_mapping" using same_spec_targets(3) by blast
  have "cluster_pods ex_live_mapping []" by (simp add: cluster_pods_def namespace_pods_def)
  then show "controller_reach doc_matches ex_live_reconciler ex_live_mapping ex_surroundings ex_race"
    using controller_reach.start [of ex_live_mapping ex_surroundings "((None, ([], [[], [ex_arrival]], [])), NewClient)" doc_matches ex_live_reconciler]
    by (simp add: ex_race_def ex_surroundings_def)
qed




end
