(* ===== verification/Arm_Http.thy ===== *)
theory Arm_Http
  imports Prefix_Set_Api Json
begin

text \<open>
  HTTP requests to Azure Resource Manager: the retry loop, the token cache and the parsing of
  error answers (\<open>doRequest\<close>, \<open>acquireToken\<close> and \<open>parseARMError\<close> of
  \<open>internal/azure/address_prefix_set_client.go\<close>, \<open>internal/azure/client_options.go\<close>,
  \<open>ParseRetryAfterValue\<close> of \<open>internal/azure/retry.go\<close>).

  The transport, the clock, the context and the credential are parameters, functions on a world
  \<open>'w\<close>; \<open>he_After\<close> is the \<open>select\<close> that waits for a delay or for the end of the context,
  \<open>he_NewRequest\<close> tells whether \<open>http.NewRequest\<close> rejects a URL. The state of a client is its
  world with the cached token. Logging is left out; the metric observers are in \<open>Arm_Metrics\<close>.
\<close>

section \<open>Decimal numbers\<close>

text \<open>\<open>strconv.Atoi\<close> on 64 bit: an optional sign, digits, and the range of \<open>int\<close>.\<close>

definition digits_value :: "string \<Rightarrow> int" where
  "digits_value ds = foldl (\<lambda>n c. 10 * n + (of_char c - 48)) 0 ds"

definition parse_decimal :: "string \<Rightarrow> int option" where
  "parse_decimal ds = (if ds \<noteq> [] \<and> list_all json_digit ds then Some (digits_value ds) else None)"

definition Atoi :: "string \<Rightarrow> int option" where
  "Atoi s =
     (case (case s of
              [] \<Rightarrow> None
            | c # r \<Rightarrow>
                if c = CHR ''-'' then map_option uminus (parse_decimal r)
                else if c = CHR ''+'' then parse_decimal r
                else parse_decimal s) of
        None \<Rightarrow> None
      | Some n \<Rightarrow> if - (2 ^ 63) \<le> n \<and> n < 2 ^ 63 then Some n else None)"

section \<open>Requests and answers\<close>

record http_request =
  rq_Method :: string
  rq_URL :: string
  rq_Body :: "string option"
  rq_Headers :: "(string, string) gomap"

text \<open>\<open>rs_Body\<close> is what \<open>io.ReadAll\<close> returns: the bytes read, and an error.\<close>

record http_response =
  rs_StatusCode :: int
  rs_Header :: "string \<Rightarrow> string"
  rs_Body :: "string \<times> goerror option"

record 'w http_env =
  he_Err :: "'w \<Rightarrow> goerror option"
  he_NewRequest :: "string \<Rightarrow> string \<Rightarrow> goerror option"
  he_Do :: "http_request \<Rightarrow> 'w \<Rightarrow> (goerror + http_response) \<times> 'w"
  he_After :: "duration \<Rightarrow> 'w \<Rightarrow> goerror option \<times> 'w"
  he_Now :: "'w \<Rightarrow> gotime"
  he_Float64 :: "'w \<Rightarrow> rat"
  he_ParseTime :: "string \<Rightarrow> gotime option"

record 'w AddressPrefixSetClient =
  pc_credential :: "('w \<Rightarrow> (goerror + string \<times> gotime) \<times> 'w) option"
  pc_baseURL :: string
  pc_retryPolicy :: RetryPolicy
  pc_rateLimiter :: "(string \<Rightarrow> 'w \<Rightarrow> goerror option \<times> 'w) option"

record 'w arm_state =
  as_world :: 'w
  as_cachedToken :: string
  as_tokenExpiresOn :: gotime

record RetryContext =
  rc_Operation :: ARMOperation
  rc_Method :: string
  rc_URL :: string
  rc_SubscriptionID :: string
  rc_ResourceGroup :: string
  rc_ASGName :: string
  rc_PrefixSetName :: string

section \<open>Tokens\<close>

definition tokenRefreshMargin :: duration where
  "tokenRefreshMargin = 5 * 60 * second"

definition acquireToken :: "'w http_env \<Rightarrow> 'w AddressPrefixSetClient \<Rightarrow> 'w arm_state \<Rightarrow> (goerror + string) \<times> 'w arm_state" where
  "acquireToken env c s =
     (case pc_credential c of
        None \<Rightarrow> (Inr [], s)
      | Some getToken \<Rightarrow>
          if as_cachedToken s \<noteq> [] \<and> he_Now env (as_world s) < as_tokenExpiresOn s - tokenRefreshMargin
          then (Inr (as_cachedToken s), s)
          else (case getToken (as_world s) of
                  (Inl err, w) \<Rightarrow> (Inl (Wrapped ''acquiring token'' err), s\<lparr>as_world := w\<rparr>)
                | (Inr (token, expiresOn), w) \<Rightarrow>
                    (Inr token, s\<lparr>as_world := w, as_cachedToken := token, as_tokenExpiresOn := expiresOn\<rparr>)))"

section \<open>Error answers\<close>

text \<open>
  Decoding an object into a value: the members in turn; a member of a wrong type is an error.
  \<open>null\<close> changes nothing.
\<close>

fun decode_members :: "(string \<Rightarrow> json \<Rightarrow> 'a \<Rightarrow> 'a option) \<Rightarrow> (string \<times> json) list \<Rightarrow> 'a \<Rightarrow> 'a option" where
  "decode_members f [] x = Some x"
| "decode_members f ((k, v) # kvs) x = (case f k v x of None \<Rightarrow> None | Some y \<Rightarrow> decode_members f kvs y)"

definition decode_object :: "(string \<Rightarrow> json \<Rightarrow> 'a \<Rightarrow> 'a option) \<Rightarrow> json \<Rightarrow> 'a \<Rightarrow> 'a option" where
  "decode_object f j x = (case j of JNull \<Rightarrow> Some x | JObj kvs \<Rightarrow> decode_members f kvs x | _ \<Rightarrow> None)"

definition decode_string :: "json \<Rightarrow> string \<Rightarrow> string option" where
  "decode_string j old = (case j of JStr s \<Rightarrow> Some s | JNull \<Rightarrow> Some old | _ \<Rightarrow> None)"

record armErrorBody =
  aeb_Code :: string
  aeb_Message :: string

definition decode_error_field :: "string \<Rightarrow> json \<Rightarrow> armErrorBody \<Rightarrow> armErrorBody option" where
  "decode_error_field k v e =
     (if EqualFold k ''code'' then map_option (\<lambda>s. e\<lparr>aeb_Code := s\<rparr>) (decode_string v (aeb_Code e))
      else if EqualFold k ''message'' then map_option (\<lambda>s. e\<lparr>aeb_Message := s\<rparr>) (decode_string v (aeb_Message e))
      else Some e)"

definition decode_error_body :: "string \<Rightarrow> armErrorBody option" where
  "decode_error_body body =
     (case json_parse body of
        None \<Rightarrow> None
      | Some j \<Rightarrow>
          decode_object (\<lambda>k v e. if EqualFold k ''error'' then decode_object decode_error_field v e else Some e) j
            \<lparr>aeb_Code = [], aeb_Message = []\<rparr>)"

definition parseARMError :: "int \<Rightarrow> string \<Rightarrow> ARMStatusError" where
  "parseARMError statusCode body =
     (case decode_error_body body of
        Some e \<Rightarrow>
          if aeb_Code e \<noteq> [] then
            \<lparr>arm_StatusCode = statusCode, arm_ARMCode = aeb_Code e, arm_Message = aeb_Message e,
             arm_Operation = ARMOperationOther [], arm_RequestURL = [], arm_RetryAfter = 0\<rparr>
          else \<lparr>arm_StatusCode = statusCode, arm_ARMCode = ''HTTP'' @ show_int statusCode, arm_Message = body,
             arm_Operation = ARMOperationOther [], arm_RequestURL = [], arm_RetryAfter = 0\<rparr>
      | None \<Rightarrow>
          \<lparr>arm_StatusCode = statusCode, arm_ARMCode = ''HTTP'' @ show_int statusCode, arm_Message = body,
           arm_Operation = ARMOperationOther [], arm_RequestURL = [], arm_RetryAfter = 0\<rparr>)"

text \<open>Seconds, or a date; \<open>http.ParseTime\<close> is a parameter. The product is computed in 64 bits.\<close>

definition wrap_duration :: "int \<Rightarrow> duration" where
  "wrap_duration d = (d + 2 ^ 63) mod 2 ^ 64 - 2 ^ 63"

definition ParseRetryAfterValue :: "(string \<Rightarrow> gotime option) \<Rightarrow> string \<Rightarrow> gotime \<Rightarrow> duration \<times> bool" where
  "ParseRetryAfterValue parseTime value now =
     (case Atoi value of
        Some seconds \<Rightarrow>
          if seconds \<ge> 0 then (wrap_duration (seconds * second), True)
          else (case parseTime value of Some t \<Rightarrow> (if t - now < 0 then 0 else t - now, True) | None \<Rightarrow> (0, False))
      | None \<Rightarrow> (case parseTime value of Some t \<Rightarrow> (if t - now < 0 then 0 else t - now, True) | None \<Rightarrow> (0, False)))"

definition ParseARMErrorWithContext :: "'w http_env \<Rightarrow> http_response \<Rightarrow> RetryContext \<Rightarrow> gotime \<Rightarrow> ARMStatusError" where
  "ParseARMErrorWithContext env resp ctx t =
     (let armErr = (parseARMError (rs_StatusCode resp) (fst (rs_Body resp)))
            \<lparr>arm_Operation := rc_Operation ctx, arm_RequestURL := rc_URL ctx\<rparr>;
          raValue = rs_Header resp ''Retry-After''
      in if raValue \<noteq> [] then
           (case ParseRetryAfterValue (he_ParseTime env) raValue t of
              (d, True) \<Rightarrow> armErr\<lparr>arm_RetryAfter := d\<rparr>
            | (_, False) \<Rightarrow> armErr)
         else armErr)"

section \<open>The retry loop\<close>

definition rate_limit :: "'w AddressPrefixSetClient \<Rightarrow> string \<Rightarrow> 'w arm_state \<Rightarrow> goerror option \<times> 'w arm_state" where
  "rate_limit c sub s =
     (case pc_rateLimiter c of
        Some wait \<Rightarrow> if sub \<noteq> [] then (case wait sub (as_world s) of (e, w) \<Rightarrow> (e, s\<lparr>as_world := w\<rparr>)) else (None, s)
      | None \<Rightarrow> (None, s))"

definition request :: "string \<Rightarrow> string \<Rightarrow> string option \<Rightarrow> string \<Rightarrow> (string, string) gomap \<Rightarrow> http_request" where
  "request verb url body token extra =
     \<lparr>rq_Method = verb, rq_URL = url, rq_Body = body,
      rq_Headers = fold (\<lambda>(k, v). gput k v) extra
        ((if token \<noteq> [] then gput ''Authorization'' (''Bearer '' @ token) else (\<lambda>h. h)) [(''Content-Type'', ''application/json'')])\<rparr>"

text \<open>One round of the loop: the result of the request, or the delay before the next round.\<close>

definition attempt_request :: "'w http_env \<Rightarrow> 'w AddressPrefixSetClient \<Rightarrow> RetryContext \<Rightarrow> string \<Rightarrow> string \<Rightarrow> string option \<Rightarrow>
    (string, string) gomap \<Rightarrow> int \<Rightarrow> 'w arm_state \<Rightarrow> ((goerror + http_response) + duration) \<times> 'w arm_state" where
  "attempt_request env c ctx verb url body extra attempt s =
     (case he_Err env (as_world s) of
        Some e \<Rightarrow> (Inl (Inl e), s)
      | None \<Rightarrow>
          (case rate_limit c (rc_SubscriptionID ctx) s of
             (Some e, s) \<Rightarrow> (Inl (Inl e), s)
           | (None, s) \<Rightarrow>
               (case he_NewRequest env verb url of
                  Some e \<Rightarrow> (Inl (Inl (Wrapped ''creating request'' e)), s)
                | None \<Rightarrow>
                    (case acquireToken env c s of
                       (Inl e, s) \<Rightarrow> (Inl (Inl e), s)
                     | (Inr token, s) \<Rightarrow>
                         (case he_Do env (request verb url body token extra) (as_world s) of
                            (Inl httpErr, w) \<Rightarrow>
                              (let decision = DecideRetry (he_Float64 env w) (Some httpErr) attempt (pc_retryPolicy c) in
                               if rd_Retry decision then (Inr (rd_Delay decision), s\<lparr>as_world := w\<rparr>)
                               else (Inl (Inl (Wrapped ''executing request'' httpErr)), s\<lparr>as_world := w\<rparr>))
                          | (Inr resp, w) \<Rightarrow>
                              if 200 \<le> rs_StatusCode resp \<and> rs_StatusCode resp < 300 then (Inl (Inr resp), s\<lparr>as_world := w\<rparr>)
                              else
                                (let armErr = ARMError (ParseARMErrorWithContext env resp ctx (he_Now env w));
                                     decision = DecideRetry (he_Float64 env w) (Some armErr) attempt (pc_retryPolicy c)
                                 in if rd_Retry decision then (Inr (rd_Delay decision), s\<lparr>as_world := w\<rparr>)
                                    else (Inl (Inl armErr), s\<lparr>as_world := w\<rparr>)))))))"

text \<open>The last attempt after which the policy may allow another one.\<close>

definition last_retry :: "RetryPolicy \<Rightarrow> int" where
  "last_retry p = max (rp_MaxRetries p) (rp_NetworkMaxRetries p)"

lemma DecideRetry_attempt: "rd_Retry (DecideRetry rnd e attempt p) \<Longrightarrow> attempt \<le> last_retry p"
  by (auto simp: DecideRetry_def no_retry_def last_retry_def Let_def split: option.splits if_splits)

lemma attempt_again: "attempt_request env c ctx verb url body extra attempt s = (Inr d, s') \<Longrightarrow> attempt \<le> last_retry (pc_retryPolicy c)"
  by (auto simp: attempt_request_def Let_def split: option.splits prod.splits sum.splits if_splits dest: DecideRetry_attempt)

function request_loop :: "'w http_env \<Rightarrow> 'w AddressPrefixSetClient \<Rightarrow> RetryContext \<Rightarrow> string \<Rightarrow> string \<Rightarrow> string option \<Rightarrow>
    (string, string) gomap \<Rightarrow> int \<Rightarrow> 'w arm_state \<Rightarrow> (goerror + http_response) \<times> 'w arm_state" where
  "request_loop env c ctx verb url body extra attempt s =
     (case attempt_request env c ctx verb url body extra attempt s of
        (Inl res, s) \<Rightarrow> (res, s)
      | (Inr delay, s) \<Rightarrow>
          (case he_After env delay (as_world s) of
             (Some e, w) \<Rightarrow> (Inl e, s\<lparr>as_world := w\<rparr>)
           | (None, w) \<Rightarrow> request_loop env c ctx verb url body extra (attempt + 1) (s\<lparr>as_world := w\<rparr>)))"
  by auto
termination
  by (relation "measure (\<lambda>(env, c, ctx, verb, url, body, extra, attempt, s). nat (last_retry (pc_retryPolicy c) + 1 - attempt))")
    (auto dest!: attempt_again [OF sym])

declare request_loop.simps [simp del]

definition doRequest :: "'w http_env \<Rightarrow> 'w AddressPrefixSetClient \<Rightarrow> RetryContext \<Rightarrow> string \<Rightarrow> string \<Rightarrow> string option \<Rightarrow>
    (string, string) gomap \<Rightarrow> 'w arm_state \<Rightarrow> (goerror + http_response) \<times> 'w arm_state" where
  "doRequest env c ctx verb url body extra s = request_loop env c ctx verb url body extra 1 s"


section \<open>Lemmas\<close>

text \<open>What every call of a client keeps, when only requests of \<open>G\<close> are sent.\<close>

definition env_keeps :: "'w http_env \<Rightarrow> 'w AddressPrefixSetClient \<Rightarrow> (http_request \<Rightarrow> bool) \<Rightarrow> ('w \<Rightarrow> bool) \<Rightarrow> bool" where
  "env_keeps env c G Q \<longleftrightarrow>
     (\<forall>rq w. G rq \<longrightarrow> Q w \<longrightarrow> Q (snd (he_Do env rq w))) \<and> (\<forall>d w. Q w \<longrightarrow> Q (snd (he_After env d w))) \<and>
     (\<forall>f w. pc_credential c = Some f \<longrightarrow> Q w \<longrightarrow> Q (snd (f w))) \<and>
     (\<forall>f sub w. pc_rateLimiter c = Some f \<longrightarrow> Q w \<longrightarrow> Q (snd (f sub w)))"

lemma env_keeps_send:
  assumes "env_keeps env c G Q" and "Q w" and "G rq" and "he_Do env rq w = (x, w')"
  shows "Q w'"
proof -
  have "Q (snd (he_Do env rq w))"
    using assms(1-3) unfolding env_keeps_def by blast
  then show ?thesis
    by (simp add: assms(4))
qed

lemma env_keeps_wait:
  assumes "env_keeps env c G Q" and "Q w" and "he_After env d w = (x, w')"
  shows "Q w'"
proof -
  have "Q (snd (he_After env d w))"
    using assms(1-2) unfolding env_keeps_def by blast
  then show ?thesis
    by (simp add: assms(3))
qed

lemma env_keeps_token:
  assumes "env_keeps env c G Q" and "Q w" and "pc_credential c = Some f" and "f w = (x, w')"
  shows "Q w'"
proof -
  have "Q (snd (f w))"
    using assms(1-3) unfolding env_keeps_def by blast
  then show ?thesis
    by (simp add: assms(4))
qed

lemma env_keeps_limit:
  assumes "env_keeps env c G Q" and "Q w" and "pc_rateLimiter c = Some f" and "f sub w = (x, w')"
  shows "Q w'"
proof -
  have "Q (snd (f sub w))"
    using assms(1-3) unfolding env_keeps_def by blast
  then show ?thesis
    by (simp add: assms(4))
qed

lemma rate_limit_keeps:
  assumes k: "env_keeps env c G Q" and q: "Q (as_world s)" and r: "rate_limit c sub s = (e, s')"
  shows "Q (as_world s')"
proof (cases "pc_rateLimiter c")
  case None
  then show ?thesis using q r by (simp add: rate_limit_def)
next
  case (Some f)
  obtain y w where "f sub (as_world s) = (y, w)" by fastforce
  with env_keeps_limit [OF k q Some this] Some q r show ?thesis by (auto simp: rate_limit_def split: if_splits)
qed

lemma acquireToken_keeps:
  assumes k: "env_keeps env c G Q" and q: "Q (as_world s)" and r: "acquireToken env c s = (e, s')"
  shows "Q (as_world s')"
proof (cases "pc_credential c")
  case None
  then show ?thesis using q r by (simp add: acquireToken_def)
next
  case (Some f)
  obtain y w where "f (as_world s) = (y, w)" by fastforce
  with env_keeps_token [OF k q Some this] Some q r show ?thesis
    by (auto simp: acquireToken_def split: if_splits sum.splits prod.splits)
qed

text \<open>An attempt sends at most one request.\<close>

lemma attempt_request_cases [consumes 1, case_names unsent sent]:
  assumes "attempt_request env c ctx verb url body extra attempt s = (y, s')"
  obtains (unsent) e s1 where "rate_limit c (rc_SubscriptionID ctx) s = (e, s1)" and "s' = s \<or> s' = s1 \<or> (\<exists>z. acquireToken env c s1 = (z, s'))"
    and "\<exists>err. y = Inl (Inl err)"
  | (sent) s1 s2 token ans w where "rate_limit c (rc_SubscriptionID ctx) s = (None, s1)" and "acquireToken env c s1 = (Inr token, s2)"
    and "he_Do env (request verb url body token extra) (as_world s2) = (ans, w)" and "s' = s2\<lparr>as_world := w\<rparr>"
    and "y = (case ans of
        Inl err \<Rightarrow> (let d = DecideRetry (he_Float64 env w) (Some err) attempt (pc_retryPolicy c) in
          if rd_Retry d then Inr (rd_Delay d) else Inl (Inl (Wrapped ''executing request'' err)))
      | Inr resp \<Rightarrow> if 200 \<le> rs_StatusCode resp \<and> rs_StatusCode resp < 300 then Inl (Inr resp)
          else (let armErr = ARMError (ParseARMErrorWithContext env resp ctx (he_Now env w));
                    d = DecideRetry (he_Float64 env w) (Some armErr) attempt (pc_retryPolicy c)
                in if rd_Retry d then Inr (rd_Delay d) else Inl (Inl armErr)))"
proof -
  obtain e s1 where rl: "rate_limit c (rc_SubscriptionID ctx) s = (e, s1)" by fastforce
  obtain tok s2 where tk: "acquireToken env c s1 = (tok, s2)" by fastforce
  show thesis
  proof (cases "he_Err env (as_world s) = None \<and> e = None \<and> he_NewRequest env verb url = None \<and> (\<exists>token. tok = Inr token)")
    case True
    then obtain token where token: "tok = Inr token" by blast
    obtain ans w where d: "he_Do env (request verb url body token extra) (as_world s2) = (ans, w)" by fastforce
    show thesis
      by (rule sent [of s1 token s2 ans w])
        (use True rl tk token d assms in \<open>auto simp: attempt_request_def Let_def split: sum.splits if_splits\<close>)
  next
    case False
    show thesis
      by (rule unsent [OF rl])
        (use False rl tk assms in \<open>auto simp: attempt_request_def Let_def split: option.splits sum.splits if_splits\<close>)
  qed
qed

lemma attempt_request_keeps:
  assumes k: "env_keeps env c G Q" and q: "Q (as_world s)" and r: "attempt_request env c ctx verb url body extra attempt s = (y, s')"
    and g: "\<And>token. G (request verb url body token extra)"
  shows "Q (as_world s')"
  using r
proof (cases rule: attempt_request_cases)
  case (unsent e s1)
  then show ?thesis using rate_limit_keeps [OF k q unsent(1)] acquireToken_keeps [OF k] q by blast
next
  case (sent s1 s2 token ans w)
  have "Q (as_world s2)" using acquireToken_keeps [OF k rate_limit_keeps [OF k q sent(1)] sent(2)] .
  then show ?thesis using env_keeps_send [OF k _ g sent(3)] sent(4) by simp
qed

lemma request_loop_keeps:
  assumes k: "env_keeps env c G Q" and g: "\<And>token. G (request verb url body token extra)"
  shows "Q (as_world s) \<Longrightarrow> request_loop env c ctx verb url body extra attempt s = (y, s') \<Longrightarrow> Q (as_world s')"
  using k g
proof (induction env c ctx verb url body extra attempt s arbitrary: y s' rule: request_loop.induct)
  case (1 env c ctx verb url body extra attempt s)
  obtain r s1 where a: "attempt_request env c ctx verb url body extra attempt s = (r, s1)" by fastforce
  have q1: "Q (as_world s1)" by (rule attempt_request_keeps [OF "1.prems"(3,1) a "1.prems"(4)])
  show ?case
  proof (cases r)
    case (Inl res)
    then show ?thesis using "1.prems"(2) a q1 by (simp add: request_loop.simps)
  next
    case (Inr delay)
    obtain e w where t: "he_After env delay (as_world s1) = (e, w)" by fastforce
    have "Q w" by (rule env_keeps_wait [OF "1.prems"(3) q1 t])
    then show ?thesis
      using "1.prems"(2) a Inr t "1.IH" [OF a [symmetric] Inr t [symmetric] _, of y s'] "1.prems"(3,4)
      by (auto simp: request_loop.simps [of env c ctx verb url body extra attempt s] split: option.splits)
  qed
qed

lemma doRequest_keeps:
  assumes "env_keeps env c G Q" and "Q (as_world s)" and "doRequest env c ctx verb url body extra s = (y, s')"
    and "\<And>token. G (request verb url body token extra)"
  shows "Q (as_world s')"
  using request_loop_keeps [OF assms(1,4,2)] assms(3) unfolding doRequest_def .

lemma attempt_request_success:
  "attempt_request env c ctx verb url body extra attempt s = (Inl (Inr resp), s') \<Longrightarrow> 200 \<le> rs_StatusCode resp \<and> rs_StatusCode resp < 300"
  by (auto simp: attempt_request_def Let_def split: option.splits prod.splits sum.splits if_splits)

lemma request_loop_success:
  "request_loop env c ctx verb url body extra attempt s = (Inr resp, s') \<Longrightarrow> 200 \<le> rs_StatusCode resp \<and> rs_StatusCode resp < 300"
proof (induction env c ctx verb url body extra attempt s rule: request_loop.induct)
  case (1 env c ctx verb url body extra attempt s)
  obtain r s1 where a: "attempt_request env c ctx verb url body extra attempt s = (r, s1)" by fastforce
  show ?case
  proof (cases r)
    case (Inl res)
    then show ?thesis using "1.prems" a attempt_request_success [of env c ctx verb url body extra attempt s resp s']
      by (simp add: request_loop.simps)
  next
    case (Inr delay)
    obtain e w where t: "he_After env delay (as_world s1) = (e, w)" by fastforce
    show ?thesis using "1.prems" a Inr t "1.IH" [OF a [symmetric] Inr t [symmetric]]
      by (auto simp: request_loop.simps [of env c ctx verb url body extra attempt s] split: option.splits)
  qed
qed

text \<open>A counter of requests: sending adds at most one, nothing else adds any.\<close>

definition counts_requests :: "'w http_env \<Rightarrow> 'w AddressPrefixSetClient \<Rightarrow> ('w \<Rightarrow> nat) \<Rightarrow> bool" where
  "counts_requests env c n \<longleftrightarrow> (\<forall>rq w. n (snd (he_Do env rq w)) \<le> n w + 1) \<and> (\<forall>k. env_keeps env c (\<lambda>_. False) (\<lambda>w. n w \<le> k))"

lemma attempt_request_count:
  assumes n: "counts_requests env c n" and r: "attempt_request env c ctx verb url body extra attempt s = (y, s')"
  shows "n (as_world s') \<le> n (as_world s) + 1"
proof -
  have k: "env_keeps env c (\<lambda>_. False) (\<lambda>w. n w \<le> k)" for k using n by (simp add: counts_requests_def)
  show ?thesis
    using r
  proof (cases rule: attempt_request_cases)
    case (unsent e s1)
    have "n (as_world s1) \<le> n (as_world s)" by (rule rate_limit_keeps [OF k order_refl unsent(1)])
    moreover have "n (as_world s') \<le> n (as_world s1)" if "acquireToken env c s1 = (z, s')" for z
      by (rule acquireToken_keeps [OF k order_refl that])
    ultimately show ?thesis using unsent(2) by fastforce
  next
    case (sent s1 s2 token ans w)
    have "n (as_world s1) \<le> n (as_world s)" by (rule rate_limit_keeps [OF k order_refl sent(1)])
    moreover have "n (as_world s2) \<le> n (as_world s1)" by (rule acquireToken_keeps [OF k order_refl sent(2)])
    moreover have "n (snd (he_Do env (request verb url body token extra) (as_world s2))) \<le> n (as_world s2) + 1"
      using n unfolding counts_requests_def by blast
    ultimately show ?thesis using sent(3,4) by simp
  qed
qed

lemma request_loop_count:
  "counts_requests env c n \<Longrightarrow> request_loop env c ctx verb url body extra attempt s = (y, s') \<Longrightarrow>
   n (as_world s') \<le> n (as_world s) + nat (max 1 (last_retry (pc_retryPolicy c) + 2 - attempt))"
proof (induction env c ctx verb url body extra attempt s arbitrary: y s' rule: request_loop.induct)
  case (1 env c ctx verb url body extra attempt s)
  obtain r s1 where a: "attempt_request env c ctx verb url body extra attempt s = (r, s1)" by fastforce
  have n1: "n (as_world s1) \<le> n (as_world s) + 1" by (rule attempt_request_count [OF "1.prems"(1) a])
  show ?case
  proof (cases r)
    case (Inl res)
    then show ?thesis using "1.prems" a n1 by (simp add: request_loop.simps)
  next
    case (Inr delay)
    have again: "attempt \<le> last_retry (pc_retryPolicy c)" using attempt_again a Inr by blast
    obtain e w where t: "he_After env delay (as_world s1) = (e, w)" by fastforce
    have w: "n w \<le> n (as_world s1)"
      by (rule env_keeps_wait [where G = "\<lambda>_. False" and c = c, OF _ order_refl t]) (use "1.prems"(1) in \<open>simp add: counts_requests_def\<close>)
    show ?thesis
    proof (cases e)
      case None
      have "n (as_world s') \<le> n w + nat (max 1 (last_retry (pc_retryPolicy c) + 2 - (attempt + 1)))"
        using "1.IH" [OF a [symmetric] Inr t [symmetric] None "1.prems"(1), of y s'] "1.prems"(2) a Inr t None
        by (simp add: request_loop.simps [of env c ctx verb url body extra attempt s])
      then show ?thesis using n1 w again by linarith
    next
      case (Some x)
      then show ?thesis using "1.prems"(2) a Inr t n1 w again
        by (auto simp: request_loop.simps [of env c ctx verb url body extra attempt s])
    qed
  qed
qed

text \<open>C20: a call of the client sends at most as many requests as the retry policy allows, and an
  answer it hands on as a success has a status of 2xx. It always ends.\<close>

theorem do_request_bounded:
  assumes "counts_requests env c n" and "doRequest env c ctx verb url body extra s = (y, s')"
  shows "n (as_world s') \<le> n (as_world s) + nat (max 1 (last_retry (pc_retryPolicy c) + 1)) \<and>
    (\<forall>resp. y = Inr resp \<longrightarrow> 200 \<le> rs_StatusCode resp \<and> rs_StatusCode resp < 300)"
  using request_loop_count [OF assms(1), of ctx verb url body extra 1 s y s'] assms(2) by (auto simp: doRequest_def dest: request_loop_success)

text \<open>A server that is always unavailable receives exactly as many requests as that.\<close>

definition busy_env :: "nat http_env" where
  "busy_env = \<lparr>he_Err = (\<lambda>_. None), he_NewRequest = (\<lambda>_ _. None),
     he_Do = (\<lambda>_ w. (Inr \<lparr>rs_StatusCode = 503, rs_Header = (\<lambda>_. []), rs_Body = ([], None)\<rparr>, Suc w)),
     he_After = (\<lambda>_ w. (None, w)), he_Now = (\<lambda>_. 1000), he_Float64 = (\<lambda>_. 0), he_ParseTime = (\<lambda>_. None)\<rparr>"

definition busy_client :: "nat AddressPrefixSetClient" where
  "busy_client = \<lparr>pc_credential = None, pc_baseURL = ''https://host'', pc_retryPolicy = DefaultRetryPolicy, pc_rateLimiter = None\<rparr>"

definition busy_context :: RetryContext where
  "busy_context = \<lparr>rc_Operation = ARMOperationGetPrefixSet, rc_Method = ''GET'', rc_URL = ''u'', rc_SubscriptionID = ''s'',
     rc_ResourceGroup = ''g'', rc_ASGName = ''a'', rc_PrefixSetName = ''p''\<rparr>"

lemma busy_counts: "counts_requests busy_env busy_client (\<lambda>w. w)"
  by (simp add: counts_requests_def env_keeps_def busy_env_def busy_client_def)

lemma busy_round:
  "attempt_request busy_env busy_client busy_context ''GET'' ''u'' None [] n s =
    (let d = DecideRetry 0 (Some (ARMError (ParseARMErrorWithContext busy_env \<lparr>rs_StatusCode = 503, rs_Header = (\<lambda>_. []), rs_Body = ([], None)\<rparr>
         busy_context 1000))) n DefaultRetryPolicy
     in (if rd_Retry d then Inr (rd_Delay d) else Inl (Inl (ARMError (ParseARMErrorWithContext busy_env
           \<lparr>rs_StatusCode = 503, rs_Header = (\<lambda>_. []), rs_Body = ([], None)\<rparr> busy_context 1000)))), s\<lparr>as_world := Suc (as_world s)\<rparr>)"
  by (simp add: attempt_request_def busy_env_def busy_client_def rate_limit_def acquireToken_def Let_def)

lemma busy_error: "arm_StatusCode (ParseARMErrorWithContext busy_env \<lparr>rs_StatusCode = 503, rs_Header = (\<lambda>_. []), rs_Body = ([], None)\<rparr>
         busy_context 1000) = 503"
  by (simp add: ParseARMErrorWithContext_def parseARMError_def Let_def split: option.splits)

lemma busy_wait: "he_After busy_env d w = (None, w)"
  by (simp add: busy_env_def)

theorem do_request_bounded_witness:
  "\<exists>e s'. doRequest busy_env busy_client busy_context ''GET'' ''u'' None [] \<lparr>as_world = 0, as_cachedToken = [], as_tokenExpiresOn = 0\<rparr> =
      (Inl e, s') \<and> as_world s' = 4 \<and> as_world s' \<le> 0 + nat (max 1 (last_retry (pc_retryPolicy busy_client) + 1))"
proof -
  let ?s = "\<lparr>as_world = 0, as_cachedToken = [], as_tokenExpiresOn = 0\<rparr> :: nat arm_state"
  have "\<exists>e s'. doRequest busy_env busy_client busy_context ''GET'' ''u'' None [] ?s = (Inl e, s') \<and> as_world s' = 4"
    by (simp add: doRequest_def request_loop.simps busy_round busy_error DecideRetry_def isRetriableStatusCode_def DefaultRetryPolicy_def
        no_retry_def Let_def busy_wait)
  then show ?thesis
    using do_request_bounded [OF busy_counts, of busy_context "''GET''" "''u''" None "[]" ?s] by fastforce
qed

end
