(* ===== verification/Arm_Client.thy ===== *)
theory Arm_Client
  imports Arm_Http
begin

text \<open>
  The client of prefix sets in Azure (\<open>internal/azure/address_prefix_set_client.go\<close>): URLs, the
  decoding of answers, reading, conditional writing, deleting, listing with pages and polling of
  long-running operations. \<open>List\<close> follows links and \<open>pollLRO\<close> polls for as long as Azure says
  so; they are partial functions whose result \<open>None\<close> means that they do not return.

  Repeated members of a JSON object are decoded one after the other; a repeated array is
  decoded afresh.
\<close>

section \<open>URLs\<close>

definition path_safe :: "char \<Rightarrow> bool" where
  "path_safe c \<longleftrightarrow> (let n = of_char c :: nat in
     48 \<le> n \<and> n \<le> 57 \<or> 65 \<le> n \<and> n \<le> 90 \<or> 97 \<le> n \<and> n \<le> 122 \<or> c \<in> set ''-_.~$&+=:@'')"

definition upper_hex :: "nat \<Rightarrow> char" where
  "upper_hex n = byte (if n < 10 then 48 + n else 55 + n)"

text \<open>\<open>url.PathEscape\<close>.\<close>

definition escape_char :: "char \<Rightarrow> string" where
  "escape_char c = (if path_safe c then [c] else [CHR ''%'', upper_hex (of_char c div 16), upper_hex (of_char c mod 16)])"

definition PathEscape :: "string \<Rightarrow> string" where
  "PathEscape s = concat (map escape_char s)"

definition AddressPrefixSetAPIVersion :: string where
  "AddressPrefixSetAPIVersion = ''2025-07-01''"

definition group_path :: "'w AddressPrefixSetClient \<Rightarrow> string \<Rightarrow> string \<Rightarrow> string \<Rightarrow> string" where
  "group_path c subscriptionID resourceGroup asgName =
     pc_baseURL c @ ''/subscriptions/'' @ PathEscape subscriptionID @ ''/resourceGroups/'' @ PathEscape resourceGroup @
     ''/providers/Microsoft.Network/applicationSecurityGroups/'' @ PathEscape asgName @ ''/addressPrefixSets''"

definition resourceURL :: "'w AddressPrefixSetClient \<Rightarrow> resource \<Rightarrow> string" where
  "resourceURL c r = (case r of (subscriptionID, resourceGroup, asgName, prefixSetName) \<Rightarrow>
     group_path c subscriptionID resourceGroup asgName @ ''/'' @ PathEscape prefixSetName @ ''?api-version='' @ AddressPrefixSetAPIVersion)"

definition listURL :: "'w AddressPrefixSetClient \<Rightarrow> string \<times> string \<times> string \<Rightarrow> string" where
  "listURL c g = (case g of (subscriptionID, resourceGroup, asgName) \<Rightarrow>
     group_path c subscriptionID resourceGroup asgName @ ''?api-version='' @ AddressPrefixSetAPIVersion)"

section \<open>Decoding\<close>

definition decode_pointer :: "json \<Rightarrow> string option option" where
  "decode_pointer j = (case j of JStr s \<Rightarrow> Some (Some s) | JNull \<Rightarrow> Some None | _ \<Rightarrow> None)"

fun decode_list :: "(json \<Rightarrow> 'a option) \<Rightarrow> json list \<Rightarrow> 'a list option" where
  "decode_list f [] = Some []"
| "decode_list f (j # js) = (case f j of None \<Rightarrow> None | Some x \<Rightarrow> map_option ((#) x) (decode_list f js))"

definition decode_properties_field :: "string \<Rightarrow> json \<Rightarrow> AddressPrefixSetProperties \<Rightarrow> AddressPrefixSetProperties option" where
  "decode_properties_field k v p =
     (if EqualFold k ''addressPrefixSet'' then
        (case v of
           JNull \<Rightarrow> Some (p\<lparr>psp_AddressPrefixes := []\<rparr>)
         | JArr js \<Rightarrow> map_option (\<lambda>ips. p\<lparr>psp_AddressPrefixes := ips\<rparr>) (decode_list (\<lambda>j. decode_string j []) js)
         | _ \<Rightarrow> None)
      else if EqualFold k ''provisioningState'' then map_option (\<lambda>s. p\<lparr>psp_ProvisioningState := s\<rparr>) (decode_pointer v)
      else Some p)"

definition empty_properties :: AddressPrefixSetProperties where
  "empty_properties = \<lparr>psp_AddressPrefixes = [], psp_ProvisioningState = None\<rparr>"

definition decode_set_field :: "string \<Rightarrow> json \<Rightarrow> AddressPrefixSet \<Rightarrow> AddressPrefixSet option" where
  "decode_set_field k v s =
     (if EqualFold k ''id'' then map_option (\<lambda>x. s\<lparr>aps_ID := x\<rparr>) (decode_pointer v)
      else if EqualFold k ''name'' then map_option (\<lambda>x. s\<lparr>aps_Name := x\<rparr>) (decode_pointer v)
      else if EqualFold k ''etag'' then map_option (\<lambda>x. s\<lparr>aps_Etag := x\<rparr>) (decode_pointer v)
      else if EqualFold k ''type'' then map_option (\<lambda>x. s\<lparr>aps_Type := x\<rparr>) (decode_pointer v)
      else if EqualFold k ''properties'' then
        (case v of
           JNull \<Rightarrow> Some (s\<lparr>aps_Properties := None\<rparr>)
         | _ \<Rightarrow> map_option (\<lambda>p. s\<lparr>aps_Properties := Some p\<rparr>)
                  (decode_object decode_properties_field v (case aps_Properties s of None \<Rightarrow> empty_properties | Some p \<Rightarrow> p)))
      else Some s)"

definition empty_set :: AddressPrefixSet where
  "empty_set = \<lparr>aps_ID = None, aps_Name = None, aps_Etag = None, aps_Type = None, aps_Properties = None\<rparr>"

definition decode_set :: "json \<Rightarrow> AddressPrefixSet option" where
  "decode_set j = decode_object decode_set_field j empty_set"

record AddressPrefixSetListResult =
  plr_Value :: "AddressPrefixSet list option"
  plr_NextLink :: "string option"

definition decode_list_field :: "string \<Rightarrow> json \<Rightarrow> AddressPrefixSetListResult \<Rightarrow> AddressPrefixSetListResult option" where
  "decode_list_field k v l =
     (if EqualFold k ''value'' then
        (case v of
           JNull \<Rightarrow> Some (l\<lparr>plr_Value := None\<rparr>)
         | JArr js \<Rightarrow> map_option (\<lambda>xs. l\<lparr>plr_Value := Some xs\<rparr>) (decode_list decode_set js)
         | _ \<Rightarrow> None)
      else if EqualFold k ''nextLink'' then map_option (\<lambda>x. l\<lparr>plr_NextLink := x\<rparr>) (decode_pointer v)
      else Some l)"

text \<open>\<open>json.Unmarshal\<close> into each of the two types; \<open>None\<close> is an error.\<close>

definition unmarshal_set :: "string \<Rightarrow> AddressPrefixSet option" where
  "unmarshal_set body = (case json_parse body of None \<Rightarrow> None | Some j \<Rightarrow> decode_set j)"

definition unmarshal_list :: "string \<Rightarrow> AddressPrefixSetListResult option" where
  "unmarshal_list body =
     (case json_parse body of
        None \<Rightarrow> None
      | Some j \<Rightarrow> decode_object decode_list_field j \<lparr>plr_Value = None, plr_NextLink = None\<rparr>)"

definition marshal_put :: "string list \<Rightarrow> string" where
  "marshal_put ips = ''{'' @ json_string ''properties'' @ '':{'' @ json_string ''addressPrefixSet'' @ '':['' @
     Join (map json_string ips) '','' @ '']}}''"

section \<open>Reading\<close>

text \<open>The error of \<open>json.Unmarshal\<close>, whose text is not modelled.\<close>

definition json_error :: goerror where
  "json_error = OtherError ''json''"

definition item_name :: "AddressPrefixSet \<Rightarrow> string" where
  "item_name s = (case aps_Name s of Some n \<Rightarrow> n
     | None \<Rightarrow> (case aps_ID s of Some i \<Rightarrow> last (Split i (CHR ''/'')) | None \<Rightarrow> []))"

text \<open>The body of an answer to \<open>GET\<close>: the resource and whether the list had several.\<close>

definition pick_set :: "string \<Rightarrow> string \<Rightarrow> goerror + AddressPrefixSet \<times> bool" where
  "pick_set prefixSetName body =
     (case (case unmarshal_list body of Some l \<Rightarrow> plr_Value l | None \<Rightarrow> None) of
        Some items \<Rightarrow>
          if items = [] then Inl (Wrapped (''GET AddressPrefixSet '' @ prefixSetName @ '' returned empty list'') ErrNotFound)
          else (case find (\<lambda>s. EqualFold (item_name s) prefixSetName) items of
                  Some s \<Rightarrow> Inr (s, length items > 1)
                | None \<Rightarrow> Inl (Wrapped (''GET AddressPrefixSet '' @ prefixSetName @ '' not found in list of '' @
                    show_nat (length items) @ '' items'') ErrNotFound))
      | None \<Rightarrow>
          (case unmarshal_set body of
             None \<Rightarrow> Inl (Wrapped ''decoding response'' json_error)
           | Some s \<Rightarrow> Inr (s, False)))"

definition decode_get :: "string \<Rightarrow> http_response \<Rightarrow> goerror + AddressPrefixSet" where
  "decode_get prefixSetName resp =
     (case snd (rs_Body resp) of
        Some err \<Rightarrow> Inl (Wrapped ''reading response body'' err)
      | None \<Rightarrow>
          (case pick_set prefixSetName (fst (rs_Body resp)) of
             Inl err \<Rightarrow> Inl err
           | Inr (result, multipleResults) \<Rightarrow>
               if aps_ID result = None \<and> aps_Name result = None
               then Inl (Wrapped (''GET AddressPrefixSet '' @ prefixSetName @ '' returned empty resource'') ErrNotFound)
               else
                 (let headerETag = rs_Header resp ''ETag'';
                      result = (if \<not> multipleResults \<and> headerETag \<noteq> [] then result\<lparr>aps_Etag := Some headerETag\<rparr> else result)
                  in if aps_Etag result = None \<or> aps_Etag result = Some []
                     then Inl (Wrapped (''GET AddressPrefixSet '' @ prefixSetName) ErrMissingETag)
                     else Inr result)))"

definition retry_context :: "ARMOperation \<Rightarrow> string \<Rightarrow> string \<Rightarrow> resource \<Rightarrow> RetryContext" where
  "retry_context oper verb url r = (case r of (sub, rg, asg, psn) \<Rightarrow>
     \<lparr>rc_Operation = oper, rc_Method = verb, rc_URL = url, rc_SubscriptionID = sub, rc_ResourceGroup = rg, rc_ASGName = asg,
      rc_PrefixSetName = psn\<rparr>)"

text \<open>\<open>getWithOptions\<close>; the metrics it may skip are in \<open>Arm_Metrics\<close>, so \<open>Get\<close> and \<open>getInternal\<close> are this.\<close>

definition ARM_Get :: "'w http_env \<Rightarrow> 'w AddressPrefixSetClient \<Rightarrow> resource \<Rightarrow> 'w arm_state \<Rightarrow> (goerror + AddressPrefixSet) \<times> 'w arm_state" where
  "ARM_Get env c r s =
     (let url = resourceURL c r in
      case doRequest env c (retry_context ARMOperationGetPrefixSet ''GET'' url r) ''GET'' url None [] s of
        (Inl err, s) \<Rightarrow> (Inl (Wrapped ''GET AddressPrefixSet'' err), s)
      | (Inr resp, s) \<Rightarrow> (decode_get (snd (snd (snd r))) resp, s))"

definition ARM_GetWithETag :: "'w http_env \<Rightarrow> 'w AddressPrefixSetClient \<Rightarrow> resource \<Rightarrow> 'w arm_state \<Rightarrow>
    (goerror + AddressPrefixSet \<times> string) \<times> 'w arm_state" where
  "ARM_GetWithETag env c r s =
     (case ARM_Get env c r s of
        (Inl err, s) \<Rightarrow> (Inl err, s)
      | (Inr result, s) \<Rightarrow> (Inr (result, (case aps_Etag result of Some e \<Rightarrow> e | None \<Rightarrow> [])), s))"

section \<open>Long-running operations\<close>

text \<open>One poll: \<open>Inl\<close> ends the polling.\<close>

definition poll_once :: "'w http_env \<Rightarrow> 'w AddressPrefixSetClient \<Rightarrow> string \<Rightarrow> string \<Rightarrow> 'w arm_state \<Rightarrow>
    (goerror option + unit) \<times> 'w arm_state" where
  "poll_once env c location subscriptionID s =
     (case he_After env (500 * millisecond) (as_world s) of
        (Some err, w) \<Rightarrow> (Inl (Some err), s\<lparr>as_world := w\<rparr>)
      | (None, w) \<Rightarrow>
          (case doRequest env c (retry_context ARMOperationPollLRO ''GET'' location (subscriptionID, [], [], [])) ''GET'' location None []
                  (s\<lparr>as_world := w\<rparr>) of
             (Inl err, s) \<Rightarrow> (Inl (Some (Wrapped ''polling LRO'' err)), s)
           | (Inr resp, s) \<Rightarrow>
               if rs_StatusCode resp = 200 \<or> rs_StatusCode resp = 204 then (Inl None, s)
               else if rs_StatusCode resp = 202 then (Inr (), s)
               else (Inl (Some (OtherError (''LRO poll returned unexpected status '' @ show_int (rs_StatusCode resp)))), s)))"

partial_function (option) poll_loop :: "'w http_env \<Rightarrow> 'w AddressPrefixSetClient \<Rightarrow> string \<Rightarrow> string \<Rightarrow> 'w arm_state \<Rightarrow>
    (goerror option \<times> 'w arm_state) option" where
  "poll_loop env c location subscriptionID s =
     (case poll_once env c location subscriptionID s of
        (Inl res, s) \<Rightarrow> Some (res, s)
      | (Inr _, s) \<Rightarrow> poll_loop env c location subscriptionID s)"

definition pollLRO :: "'w http_env \<Rightarrow> 'w AddressPrefixSetClient \<Rightarrow> string \<Rightarrow> string \<Rightarrow> 'w arm_state \<Rightarrow>
    (goerror option \<times> 'w arm_state) option" where
  "pollLRO env c location subscriptionID s =
     poll_loop env c (if HasPrefix location ''http'' then location else pc_baseURL c @ location) subscriptionID s"

text \<open>What follows an answer that may announce a long-running operation.\<close>

definition await_operation :: "'w http_env \<Rightarrow> 'w AddressPrefixSetClient \<Rightarrow> int set \<Rightarrow> string \<Rightarrow> string \<Rightarrow> http_response \<Rightarrow> 'w arm_state \<Rightarrow>
    (goerror option \<times> 'w arm_state) option" where
  "await_operation env c statuses msg subscriptionID resp s =
     (if rs_StatusCode resp \<in> statuses \<and> rs_Header resp ''Location'' \<noteq> [] then
        (case pollLRO env c (rs_Header resp ''Location'') subscriptionID s of
           None \<Rightarrow> None
         | Some (Some err, s) \<Rightarrow> Some (Some (Wrapped msg err), s)
         | Some (None, s) \<Rightarrow> Some (None, s))
      else Some (None, s))"

section \<open>Writing\<close>

definition send_put :: "'w http_env \<Rightarrow> 'w AddressPrefixSetClient \<Rightarrow> string \<Rightarrow> resource \<Rightarrow> string list \<Rightarrow> (string, string) gomap \<Rightarrow> 'w arm_state \<Rightarrow>
    (goerror option \<times> 'w arm_state) option" where
  "send_put env c msg r ips headers s =
     (let url = resourceURL c r in
      case doRequest env c (retry_context ARMOperationPutPrefixSet ''PUT'' url r) ''PUT'' url (Some (marshal_put ips)) headers s of
        (Inl err, s) \<Rightarrow> Some (Some (Wrapped msg err), s)
      | (Inr resp, s) \<Rightarrow> await_operation env c {201, 202} ''polling PUT LRO'' (fst r) resp s)"

definition ARM_PutWithIfMatch :: "'w http_env \<Rightarrow> 'w AddressPrefixSetClient \<Rightarrow> resource \<Rightarrow> string list \<Rightarrow> string \<Rightarrow> 'w arm_state \<Rightarrow>
    (goerror option \<times> 'w arm_state) option" where
  "ARM_PutWithIfMatch env c r ips etag s = send_put env c ''PUT (If-Match) AddressPrefixSet'' r ips [(''If-Match'', etag)] s"

definition ARM_Put :: "'w http_env \<Rightarrow> 'w AddressPrefixSetClient \<Rightarrow> resource \<Rightarrow> string list \<Rightarrow> 'w arm_state \<Rightarrow>
    (goerror option \<times> 'w arm_state) option" where
  "ARM_Put env c r ips s =
     (case ARM_Get env c r s of
        (Inl getErr, s) \<Rightarrow>
          if IsNotFound getErr then send_put env c ''PUT AddressPrefixSet'' r ips [(''If-None-Match'', ''*'')] s
          else Some (Some (Wrapped ''pre-PUT GET'' getErr), s)
      | (Inr existing, s) \<Rightarrow>
          send_put env c ''PUT AddressPrefixSet'' r ips
            (case aps_Etag existing of Some etag \<Rightarrow> [(''If-Match'', etag)] | None \<Rightarrow> []) s)"

definition ARM_Delete :: "'w http_env \<Rightarrow> 'w AddressPrefixSetClient \<Rightarrow> resource \<Rightarrow> 'w arm_state \<Rightarrow> (goerror option \<times> 'w arm_state) option" where
  "ARM_Delete env c r s =
     (let url = resourceURL c r in
      case doRequest env c (retry_context ARMOperationDeletePrefixSet ''DELETE'' url r) ''DELETE'' url None [] s of
        (Inl err, s) \<Rightarrow> if IsNotFound err then Some (None, s) else Some (Some (Wrapped ''DELETE AddressPrefixSet'' err), s)
      | (Inr resp, s) \<Rightarrow> await_operation env c {202} ''polling DELETE LRO'' (fst r) resp s)"

section \<open>Listing\<close>

definition list_page :: "'w http_env \<Rightarrow> 'w AddressPrefixSetClient \<Rightarrow> string \<times> string \<times> string \<Rightarrow> string \<Rightarrow> 'w arm_state \<Rightarrow>
    (goerror + AddressPrefixSet list \<times> string) \<times> 'w arm_state" where
  "list_page env c g url s =
     (case g of (sub, rg, asg) \<Rightarrow>
        (case doRequest env c (retry_context ARMOperationListPrefixSets ''GET'' url (sub, rg, asg, [])) ''GET'' url None [] s of
           (Inl err, s) \<Rightarrow> (Inl (Wrapped ''LIST AddressPrefixSets'' err), s)
         | (Inr resp, s) \<Rightarrow>
             (case snd (rs_Body resp) of
                Some err \<Rightarrow> (Inl (Wrapped ''reading LIST response body'' err), s)
              | None \<Rightarrow>
                  (case unmarshal_list (fst (rs_Body resp)) of
                     None \<Rightarrow> (Inl (Wrapped ''decoding LIST response'' json_error), s)
                   | Some result \<Rightarrow>
                       (Inr ((case plr_Value result of None \<Rightarrow> [] | Some xs \<Rightarrow> xs),
                             (case plr_NextLink result of None \<Rightarrow> [] | Some l \<Rightarrow> l)), s)))))"

partial_function (option) list_pages :: "'w http_env \<Rightarrow> 'w AddressPrefixSetClient \<Rightarrow> string \<times> string \<times> string \<Rightarrow> string \<Rightarrow> AddressPrefixSet list \<Rightarrow>
    'w arm_state \<Rightarrow> ((goerror + AddressPrefixSet list) \<times> 'w arm_state) option" where
  "list_pages env c g nextURL all s =
     (if nextURL = [] then Some (Inr all, s)
      else (case list_page env c g nextURL s of
              (Inl err, s) \<Rightarrow> Some (Inl err, s)
            | (Inr (items, nextURL), s) \<Rightarrow> list_pages env c g nextURL (all @ items) s))"

definition ARM_List :: "'w http_env \<Rightarrow> 'w AddressPrefixSetClient \<Rightarrow> string \<times> string \<times> string \<Rightarrow> 'w arm_state \<Rightarrow>
    ((goerror + AddressPrefixSet list) \<times> 'w arm_state) option" where
  "ARM_List env c g s = list_pages env c g (listURL c g) [] s"


section \<open>Writing and reading prefixes\<close>

definition put_json :: "string list \<Rightarrow> json" where
  "put_json ips = JObj [(''properties'', JObj [(''addressPrefixSet'', JArr (map JStr ips))])]"

lemma marshal_put_json: "marshal_put ips = json_print (put_json ips)"
  by (simp add: marshal_put_def put_json_def comp_def)

lemma decode_strings: "decode_list (\<lambda>j. decode_string j []) (map JStr ips) = Some ips"
  by (induction ips) (simp_all add: decode_string_def)

lemma unmarshal_put:
  "unmarshal_set (marshal_put ips) =
     Some \<lparr>aps_ID = None, aps_Name = None, aps_Etag = None, aps_Type = None,
       aps_Properties = Some \<lparr>psp_AddressPrefixes = ips, psp_ProvisioningState = None\<rparr>\<rparr>"
proof -
  have "json_parse (marshal_put ips) = Some (put_json ips)"
    unfolding marshal_put_json by (rule json_parse_print) (simp add: put_json_def list_all_iff)
  moreover have "decode_object decode_properties_field (JObj [(''addressPrefixSet'', JArr (map JStr ips))]) empty_properties =
      Some \<lparr>psp_AddressPrefixes = ips, psp_ProvisioningState = None\<rparr>"
    by (simp add: decode_object_def decode_properties_field_def decode_strings empty_properties_def EqualFold_def)
  ultimately show ?thesis
    by (simp add: unmarshal_set_def decode_set_def put_json_def decode_set_field_def empty_set_def decode_object_def EqualFold_def ToLower_def lower_byte_def)
qed


section \<open>Escaping\<close>

lemma path_safe_not_percent: "path_safe c \<Longrightarrow> c \<noteq> CHR ''%'' \<and> c \<noteq> CHR ''/''"
  by (auto simp: path_safe_def Let_def)

lemma code_byte: "n < 256 \<Longrightarrow> code (byte n) = n"
  by (simp only: of_char_of mod_less)

lemma code_upper_hex: "a < 16 \<Longrightarrow> code (upper_hex a) = (if a < 10 then 48 + a else 55 + a)"
proof -
  assume "a < 16"
  then have "(if a < 10 then 48 + a else 55 + a) < 256" by presburger
  then show ?thesis unfolding upper_hex_def by (rule code_byte)
qed

lemma upper_hex_inj:
  assumes "a < 16" and "b < 16" and "upper_hex a = upper_hex b"
  shows "a = b"
proof -
  have "(if a < 10 then 48 + a else 55 + a) = (if b < 10 then 48 + b else 55 + b)"
    using code_upper_hex [OF assms(1)] code_upper_hex [OF assms(2)] unfolding assms(3) by (rule trans [OF sym])
  then show ?thesis by presburger
qed

lemma upper_hex_plain:
  assumes "a < 16"
  shows "upper_hex a \<noteq> CHR ''/'' \<and> upper_hex a \<noteq> CHR ''?''"
proof -
  have "code (upper_hex a) \<noteq> 47 \<and> code (upper_hex a) \<noteq> 63"
    unfolding code_upper_hex [OF assms] by presburger
  then show ?thesis by (intro conjI notI) simp_all
qed

lemma code_div_mod: "(of_char c :: nat) div 16 = of_char d div 16 \<Longrightarrow> (of_char c :: nat) mod 16 = of_char d mod 16 \<Longrightarrow> c = d"
proof -
  assume "(of_char c :: nat) div 16 = of_char d div 16" and "(of_char c :: nat) mod 16 = of_char d mod 16"
  then have "(of_char c :: nat) = of_char d" by (metis div_mult_mod_eq)
  then show ?thesis by simp
qed

lemma escape_char_inj:
  assumes e: "escape_char c @ x = escape_char d @ y"
  shows "c = d \<and> x = y"
proof (cases "path_safe c \<or> path_safe d")
  case True
  then show ?thesis using e path_safe_not_percent [of c] path_safe_not_percent [of d]
    by (auto simp: escape_char_def split: if_splits)
next
  case False
  then have h: "upper_hex (code c div 16) = upper_hex (code d div 16)" "upper_hex (code c mod 16) = upper_hex (code d mod 16)" "x = y"
    using e by (simp_all add: escape_char_def)
  have n: "code c div 16 < 16" "code d div 16 < 16" using nat_of_char_less_256 [of c] nat_of_char_less_256 [of d] by linarith+
  have "code c div 16 = code d div 16" using upper_hex_inj [OF n h(1)] .
  moreover have "code c mod 16 = code d mod 16" by (rule upper_hex_inj [OF _ _ h(2)]) simp_all
  ultimately show ?thesis using code_div_mod h(3) by blast
qed

lemma PathEscape_Cons [simp]: "PathEscape (c # s) = escape_char c @ PathEscape s" and PathEscape_Nil [simp]: "PathEscape [] = []"
  by (simp_all add: PathEscape_def)

lemma PathEscape_inj: "PathEscape s = PathEscape t \<Longrightarrow> s = t"
proof (induction s arbitrary: t)
  case Nil
  then show ?case by (cases t) (auto simp: escape_char_def split: if_splits)
next
  case (Cons c s)
  then obtain d u where t: "t = d # u" by (cases t) (auto simp: escape_char_def split: if_splits)
  then show ?case using Cons escape_char_inj by auto
qed

lemma PathEscape_plain: "CHR ''/'' \<notin> set (PathEscape s) \<and> CHR ''?'' \<notin> set (PathEscape s)"
proof (induction s)
  case (Cons c s)
  have "code c div 16 < 16" using nat_of_char_less_256 [of c] by linarith
  moreover have "\<not> path_safe CHR ''?''" "\<not> path_safe CHR ''/''" by (simp_all add: path_safe_def)
  ultimately have "CHR ''/'' \<notin> set (escape_char c) \<and> CHR ''?'' \<notin> set (escape_char c)"
    using upper_hex_plain [of "code c div 16"] upper_hex_plain [of "code c mod 16"]
    by (auto simp: escape_char_def)
  then show ?case using Cons by simp
qed simp

lemma cut_at: "c \<notin> set a \<Longrightarrow> c \<notin> set b \<Longrightarrow> a @ c # x = b @ c # y \<Longrightarrow> a = b \<and> x = y"
proof (induction a arbitrary: b)
  case Nil
  then show ?case by (cases b) auto
next
  case (Cons h a)
  then show ?case by (cases b) auto
qed

lemma group_path_eq:
  assumes "group_path c sub rg asg @ x = group_path c sub' rg' asg' @ y"
  shows "sub = sub' \<and> rg = rg' \<and> asg = asg' \<and> x = y"
proof -
  note cut = cut_at [OF PathEscape_plain [THEN conjunct1] PathEscape_plain [THEN conjunct1]]
  have "PathEscape sub @ CHR ''/'' # ''resourceGroups/'' @ PathEscape rg @ ''/providers/Microsoft.Network/applicationSecurityGroups/'' @
       PathEscape asg @ ''/addressPrefixSets'' @ x =
     PathEscape sub' @ CHR ''/'' # ''resourceGroups/'' @ PathEscape rg' @ ''/providers/Microsoft.Network/applicationSecurityGroups/'' @
       PathEscape asg' @ ''/addressPrefixSets'' @ y"
    using assms by (simp add: group_path_def)
  from cut [OF this] have 1: "sub = sub'"
    and "PathEscape rg @ CHR ''/'' # ''providers/Microsoft.Network/applicationSecurityGroups/'' @ PathEscape asg @ ''/addressPrefixSets'' @ x =
      PathEscape rg' @ CHR ''/'' # ''providers/Microsoft.Network/applicationSecurityGroups/'' @ PathEscape asg' @ ''/addressPrefixSets'' @ y"
    by (auto dest: PathEscape_inj)
  from cut [OF this(2)] have 2: "rg = rg'"
    and "PathEscape asg @ CHR ''/'' # ''addressPrefixSets'' @ x = PathEscape asg' @ CHR ''/'' # ''addressPrefixSets'' @ y"
    by (auto dest: PathEscape_inj)
  from cut [OF this(2)] have "asg = asg'" "x = y" by (auto dest: PathEscape_inj)
  with 1 2 show ?thesis by simp
qed

lemma resourceURL_eq: "resourceURL c r = resourceURL c r' \<longleftrightarrow> r = r'"
proof
  obtain sub rg asg name where r: "r = (sub, rg, asg, name)" by (cases r)
  obtain sub' rg' asg' name' where r': "r' = (sub', rg', asg', name')" by (cases r')
  assume "resourceURL c r = resourceURL c r'"
  from group_path_eq [OF this [unfolded r r' resourceURL_def prod.case]] show "r = r'"
    by (auto simp: r r' dest: PathEscape_inj)
qed simp

lemma listURL_eq: "listURL c g = listURL c g' \<longleftrightarrow> g = g'"
proof
  obtain sub rg asg where g: "g = (sub, rg, asg)" by (cases g)
  obtain sub' rg' asg' where g': "g' = (sub', rg', asg')" by (cases g')
  assume "listURL c g = listURL c g'"
  from group_path_eq [OF this [unfolded g g' listURL_def prod.case]] show "g = g'" by (simp add: g g')
qed simp

lemma listURL_not_resource: "listURL c g \<noteq> resourceURL c r"
proof
  obtain sub rg asg where g: "g = (sub, rg, asg)" by (cases g)
  obtain sub' rg' asg' name where r: "r = (sub', rg', asg', name)" by (cases r)
  assume "listURL c g = resourceURL c r"
  from group_path_eq [OF this [unfolded g r listURL_def resourceURL_def prod.case]] show False by simp
qed

text \<open>two prefix sets never share a URL, whatever bytes the names contain, and no prefix set has
  the URL of a listing; a name cannot add or leave a segment of the path.\<close>

theorem resource_url_injective: "(resourceURL c r = resourceURL c r' \<longleftrightarrow> r = r') \<and> listURL c g \<noteq> resourceURL c r"
  using resourceURL_eq listURL_not_resource by blast


section \<open>What is sent\<close>

text \<open>A log of the requests of a world: sending adds the request, nothing else adds any.\<close>

definition logs_requests :: "'w http_env \<Rightarrow> 'w AddressPrefixSetClient \<Rightarrow> ('w \<Rightarrow> http_request list) \<Rightarrow> bool" where
  "logs_requests env c sent \<longleftrightarrow> (\<forall>rq w. sent (snd (he_Do env rq w)) = sent w @ [rq]) \<and> (\<forall>l. env_keeps env c (\<lambda>_. False) (\<lambda>w. sent w = l))"

definition sent_only :: "('w \<Rightarrow> http_request list) \<Rightarrow> (http_request \<Rightarrow> bool) \<Rightarrow> 'w \<Rightarrow> 'w \<Rightarrow> bool" where
  "sent_only sent G w w' \<longleftrightarrow> (\<exists>new. sent w' = sent w @ new \<and> list_all G new)"

lemma sent_only_refl [simp]: "sent_only sent G w w"
  by (simp add: sent_only_def)

lemma sent_only_trans: "sent_only sent G w w1 \<Longrightarrow> sent_only sent G w1 w2 \<Longrightarrow> sent_only sent G w w2"
  by (fastforce simp: sent_only_def)

lemma sent_only_mono: "sent_only sent G w w' \<Longrightarrow> (\<And>rq. G rq \<Longrightarrow> H rq) \<Longrightarrow> sent_only sent H w w'"
  by (auto simp: sent_only_def list_all_iff)

lemma logs_quiet:
  assumes "logs_requests env c sent"
  shows "sent (snd (he_After env d w)) = sent w" and "pc_credential c = Some f \<Longrightarrow> sent (snd (f w)) = sent w"
    and "pc_rateLimiter c = Some g \<Longrightarrow> sent (snd (g sub w)) = sent w"
  using assms unfolding logs_requests_def env_keeps_def by blast+

lemma logs_keep:
  assumes l: "logs_requests env c sent"
  shows "env_keeps env c G (sent_only sent G w)"
proof -
  have "sent_only sent G w (snd (he_Do env rq w'))" if "G rq" and "sent_only sent G w w'" for rq w'
  proof (rule sent_only_trans [OF that(2)])
    have "sent (snd (he_Do env rq w')) = sent w' @ [rq]" using l unfolding logs_requests_def by blast
    then show "sent_only sent G w' (snd (he_Do env rq w'))" using that(1) by (simp add: sent_only_def)
  qed
  then show ?thesis using logs_quiet [OF l] by (simp add: env_keeps_def sent_only_def)
qed

lemma doRequest_sent:
  assumes "logs_requests env c sent" and "doRequest env c ctx verb url body extra s = (y, s')"
  shows "sent_only sent (\<lambda>rq. \<exists>token. rq = request verb url body token extra) (as_world s) (as_world s')"
  by (rule doRequest_keeps [OF logs_keep [OF assms(1)] _ assms(2)]) auto

lemma doRequest_sends:
  assumes "logs_requests env c sent" and "doRequest env c ctx verb url body extra s = (y, s')" and "\<And>token. G (request verb url body token extra)"
  shows "sent_only sent G (as_world s) (as_world s')"
  by (rule sent_only_mono [OF doRequest_sent [OF assms(1,2)]]) (use assms(3) in blast)

text \<open>Polling sends only \<open>GET\<close>.\<close>

definition is_get :: "http_request \<Rightarrow> bool" where
  "is_get rq \<longleftrightarrow> rq_Method rq = ''GET'' \<and> rq_Body rq = None"

lemma request_get [simp]: "is_get (request ''GET'' url None token extra)"
  by (simp add: is_get_def request_def)

lemma poll_once_sent:
  assumes l: "logs_requests env c sent" and p: "poll_once env c loc sub s = (y, s')"
  shows "sent_only sent is_get (as_world s) (as_world s')"
proof -
  obtain e w where t: "he_After env (500 * millisecond) (as_world s) = (e, w)" by fastforce
  have w: "sent w = sent (as_world s)" using logs_quiet(1) [OF l, of "500 * millisecond" "as_world s"] t by simp
  show ?thesis
  proof (cases e)
    case (Some x)
    then show ?thesis using p t w by (auto simp: poll_once_def sent_only_def)
  next
    case None
    obtain z s1 where d: "doRequest env c (retry_context ARMOperationPollLRO ''GET'' loc (sub, [], [], [])) ''GET'' loc None [] (s\<lparr>as_world := w\<rparr>) = (z, s1)"
      by fastforce
    have "s' = s1" using p t None d by (auto simp: poll_once_def split: sum.splits if_splits)
    then show ?thesis using doRequest_sends [OF l d, of is_get] w by (simp add: sent_only_def)
  qed
qed

text \<open>Induction on the polls of a call that returns.\<close>

lemma poll_loop_rule [consumes 1, case_names ended again]:
  assumes "poll_loop env c loc sub s = Some r" and "\<And>s res s'. poll_once env c loc sub s = (Inl res, s') \<Longrightarrow> P s (res, s')"
    and "\<And>s s' r. poll_once env c loc sub s = (Inr (), s') \<Longrightarrow> P s' r \<Longrightarrow> P s r"
  shows "P s r"
proof -
  have "env = env \<longrightarrow> c = c \<longrightarrow> loc = loc \<longrightarrow> sub = sub \<longrightarrow> P s r"
    by (rule poll_loop.raw_induct [where P = "\<lambda>env' c' loc' sub' s r. env' = env \<longrightarrow> c' = c \<longrightarrow> loc' = loc \<longrightarrow> sub' = sub \<longrightarrow> P s r", OF _ assms(1)])
      (use assms(2,3) in \<open>auto split: prod.splits sum.splits\<close>)
  then show ?thesis by simp
qed

lemma poll_loop_sent:
  assumes l: "logs_requests env c sent" and p: "poll_loop env c loc sub s = Some r"
  shows "sent_only sent is_get (as_world s) (as_world (snd r))"
  using p
proof (induction rule: poll_loop_rule)
  case (ended s res s')
  then show ?case using poll_once_sent [OF l] by simp
next
  case (again s s' r)
  show ?case by (rule sent_only_trans [OF poll_once_sent [OF l again(1)] again(2)])
qed

lemma await_operation_sent:
  assumes "logs_requests env c sent" and "await_operation env c st msg sub resp s = Some (y, s')"
  shows "sent_only sent is_get (as_world s) (as_world s')"
  using assms(2)
  by (auto simp: await_operation_def pollLRO_def split: if_splits option.splits dest!: poll_loop_sent [OF assms(1)])

lemma send_put_sent:
  assumes l: "logs_requests env c sent" and p: "send_put env c msg r ips headers s = Some (y, s')"
    and G: "\<And>token. G (request ''PUT'' (resourceURL c r) (Some (marshal_put ips)) token headers)" and get: "\<And>rq. is_get rq \<Longrightarrow> G rq"
  shows "sent_only sent G (as_world s) (as_world s')"
proof -
  let ?u = "resourceURL c r"
  obtain z s1 where d: "doRequest env c (retry_context ARMOperationPutPrefixSet ''PUT'' ?u r) ''PUT'' ?u (Some (marshal_put ips)) headers s = (z, s1)"
    by fastforce
  have "sent_only sent G (as_world s) (as_world s1)" by (rule doRequest_sends [OF l d]) (rule G)
  moreover have "sent_only sent G (as_world s1) (as_world s')"
    using p d by (auto simp: send_put_def Let_def split: sum.splits intro: sent_only_mono [OF await_operation_sent [OF l] get])
  ultimately show ?thesis by (rule sent_only_trans)
qed

lemma ARM_Get_sent:
  assumes "logs_requests env c sent" and "ARM_Get env c r s = (y, s')"
  shows "sent_only sent is_get (as_world s) (as_world s')"
  using assms(2) doRequest_sends [OF assms(1), of _ "''GET''" _ None "[]" _ _ _ is_get]
  by (auto simp: ARM_Get_def Let_def split: prod.splits sum.splits)

section \<open>Reading\<close>

lemma decode_get_etag: "decode_get name resp = Inr ps \<Longrightarrow> \<exists>etag. etag \<noteq> [] \<and> aps_Etag ps = Some etag"
  by (auto simp: decode_get_def Let_def split: option.splits sum.splits if_splits)

lemma ARM_Get_etag: "ARM_Get env c r s = (Inr ps, s') \<Longrightarrow> \<exists>etag. etag \<noteq> [] \<and> aps_Etag ps = Some etag"
  by (auto simp: ARM_Get_def Let_def split: prod.splits sum.splits dest: decode_get_etag)

text \<open>A \<open>PUT\<close> of these prefixes under a precondition.\<close>

definition conditional_put :: "string \<Rightarrow> string list \<Rightarrow> http_request \<Rightarrow> bool" where
  "conditional_put url ips rq \<longleftrightarrow> rq_Method rq = ''PUT'' \<and> rq_URL rq = url \<and> rq_Body rq = Some (marshal_put ips) \<and>
     (gget (rq_Headers rq) ''If-None-Match'' = Some ''*'' \<or>
      (\<exists>etag. etag \<noteq> [] \<and> gget (rq_Headers rq) ''If-Match'' = Some etag))"

lemma request_conditional:
  "conditional_put url ips (request ''PUT'' url (Some (marshal_put ips)) token [(''If-None-Match'', ''*'')])"
  "etag \<noteq> [] \<Longrightarrow> conditional_put url ips (request ''PUT'' url (Some (marshal_put ips)) token [(''If-Match'', etag)])"
  by (simp_all add: conditional_put_def request_def)

text \<open>C18: \<open>Put\<close> never writes blindly: whatever Azure answers and however often it retries,
  each request it sends is a \<open>GET\<close> without body or a \<open>PUT\<close> of exactly these prefixes to the URL of
  the resource that carries a nonempty ETag to match, or demands that nothing exists.\<close>

theorem arm_writes_conditional:
  assumes l: "logs_requests env c sent" and p: "ARM_Put env c r ips s = Some (y, s')"
  shows "\<exists>new. sent (as_world s') = sent (as_world s) @ new \<and>
    (\<forall>rq \<in> set new. is_get rq \<or> conditional_put (resourceURL c r) ips rq)"
proof -
  let ?G = "\<lambda>rq. is_get rq \<or> conditional_put (resourceURL c r) ips rq"
  obtain g s1 where g: "ARM_Get env c r s = (g, s1)" by fastforce
  have before: "sent_only sent ?G (as_world s) (as_world s1)" by (rule sent_only_mono [OF ARM_Get_sent [OF l g]]) simp
  have put: "sent_only sent ?G (as_world s1) (as_world s')"
    if "send_put env c msg r ips headers s1 = Some (y, s')" and "\<And>token. conditional_put (resourceURL c r) ips
      (request ''PUT'' (resourceURL c r) (Some (marshal_put ips)) token headers)" for msg headers
    by (rule send_put_sent [OF l that(1)]) (simp_all add: that(2))
  have "sent_only sent ?G (as_world s1) (as_world s')"
  proof (cases g)
    case (Inl e)
    then show ?thesis using p g put request_conditional(1) by (auto simp: ARM_Put_def split: if_splits)
  next
    case (Inr ps)
    then obtain etag where "etag \<noteq> []" and "aps_Etag ps = Some etag" using ARM_Get_etag g by blast
    then show ?thesis using p g Inr put request_conditional(2) by (auto simp: ARM_Put_def)
  qed
  with before have "sent_only sent ?G (as_world s) (as_world s')" by (rule sent_only_trans)
  then show ?thesis by (simp add: sent_only_def list_all_iff)
qed

text \<open>A server that logs and has nothing: the \<open>PUT\<close> demands that it is so.\<close>

definition log_env :: "http_request list http_env" where
  "log_env = \<lparr>he_Err = (\<lambda>_. None), he_NewRequest = (\<lambda>_ _. None),
     he_Do = (\<lambda>rq w. (Inr \<lparr>rs_StatusCode = if is_get rq then 404 else 201, rs_Header = (\<lambda>_. []), rs_Body = ([], None)\<rparr>, w @ [rq])),
     he_After = (\<lambda>_ w. (None, w)), he_Now = (\<lambda>_. 1000), he_Float64 = (\<lambda>_. 0), he_ParseTime = (\<lambda>_. None)\<rparr>"

definition log_client :: "http_request list AddressPrefixSetClient" where
  "log_client = \<lparr>pc_credential = None, pc_baseURL = ''https://host'', pc_retryPolicy = DefaultRetryPolicy, pc_rateLimiter = None\<rparr>"

lemma log_logs: "logs_requests log_env log_client (\<lambda>w. w)"
  by (simp add: logs_requests_def env_keeps_def log_env_def log_client_def)

lemma request_put [simp]: "\<not> is_get (request ''PUT'' url body token extra)"
  by (simp add: is_get_def request_def)

lemma log_get: "attempt_request log_env log_client ctx ''GET'' url None [] n s =
   (Inl (Inl (ARMError (ParseARMErrorWithContext log_env \<lparr>rs_StatusCode = 404, rs_Header = (\<lambda>_. []), rs_Body = ([], None)\<rparr> ctx 1000))),
    s\<lparr>as_world := as_world s @ [request ''GET'' url None [] []]\<rparr>)"
  by (simp add: attempt_request_def log_env_def log_client_def rate_limit_def acquireToken_def Let_def DecideRetry_def no_retry_def
      ParseARMErrorWithContext_def parseARMError_def isRetriableStatusCode_def split: option.splits)

lemma log_put: "attempt_request log_env log_client ctx ''PUT'' url body extra n s =
   (Inl (Inr \<lparr>rs_StatusCode = 201, rs_Header = (\<lambda>_. []), rs_Body = ([], None)\<rparr>),
    s\<lparr>as_world := as_world s @ [request ''PUT'' url body [] extra]\<rparr>)"
  by (simp add: attempt_request_def log_env_def log_client_def rate_limit_def acquireToken_def Let_def)

lemma log_ARM_Get:
  "\<exists>e. IsNotFound e \<and> ARM_Get log_env log_client r s = (Inl e, s\<lparr>as_world := as_world s @ [request ''GET'' (resourceURL log_client r) None [] []]\<rparr>)"
  by (auto simp: ARM_Get_def Let_def doRequest_def request_loop.simps log_get ParseARMErrorWithContext_def parseARMError_def split: option.splits)

lemma log_send_put: "send_put log_env log_client msg r ips headers s =
    Some (None, s\<lparr>as_world := as_world s @ [request ''PUT'' (resourceURL log_client r) (Some (marshal_put ips)) [] headers]\<rparr>)"
  by (simp add: send_put_def Let_def doRequest_def request_loop.simps log_put await_operation_def)

theorem arm_writes_conditional_witness:
  "\<exists>y s'. ARM_Put log_env log_client (''sub'', ''rg'', ''asg'', ''ps'') [''10.0.0.1/32''] \<lparr>as_world = [], as_cachedToken = [], as_tokenExpiresOn = 0\<rparr> =
      Some (y, s') \<and> y = None \<and> length (as_world s') = 2 \<and> (\<exists>rq. as_world s' ! 1 = rq \<and> rq_Method rq = ''PUT'') \<and>
    (\<forall>rq \<in> set (as_world s'). is_get rq \<or> conditional_put (resourceURL log_client (''sub'', ''rg'', ''asg'', ''ps'')) [''10.0.0.1/32''] rq)"
proof -
  let ?r = "(''sub'', ''rg'', ''asg'', ''ps'')" and ?s = "\<lparr>as_world = [], as_cachedToken = [], as_tokenExpiresOn = 0\<rparr> :: http_request list arm_state"
  obtain e where e: "IsNotFound e" "ARM_Get log_env log_client ?r ?s =
      (Inl e, ?s\<lparr>as_world := as_world ?s @ [request ''GET'' (resourceURL log_client ?r) None [] []]\<rparr>)" using log_ARM_Get by blast
  obtain s' where p: "ARM_Put log_env log_client ?r [''10.0.0.1/32''] ?s = Some (None, s')"
    and w: "length (as_world s') = 2" "rq_Method (as_world s' ! 1) = ''PUT''"
    using e by (simp add: ARM_Put_def log_send_put request_def)
  from arm_writes_conditional [OF log_logs p] w p show ?thesis by simp
qed


section \<open>Termination\<close>

text \<open>A success is the answer to a request that was sent when whatever the requests keep still held.\<close>

lemma request_loop_answer:
  "request_loop env c ctx verb url body extra attempt s = (Inr resp, s') \<Longrightarrow>
   \<exists>token w. he_Do env (request verb url body token extra) w = (Inr resp, as_world s') \<and>
     (\<forall>G Q. env_keeps env c G Q \<longrightarrow> (\<forall>token. G (request verb url body token extra)) \<longrightarrow> Q (as_world s) \<longrightarrow> Q w)"
proof (induction env c ctx verb url body extra attempt s rule: request_loop.induct)
  case (1 env c ctx verb url body extra attempt s)
  obtain r s1 where a: "attempt_request env c ctx verb url body extra attempt s = (r, s1)" by fastforce
  show ?case
  proof (cases r)
    case (Inl res)
    with "1.prems" a have s1: "s1 = s'" and r: "r = Inl (Inr resp)" by (simp_all add: request_loop.simps)
    from a show ?thesis
    proof (cases rule: attempt_request_cases)
      case (unsent e s2)
      then show ?thesis using r by auto
    next
      case (sent s2 s3 token ans w)
      have "ans = Inr resp" using sent(5) r by (auto split: sum.splits if_splits simp: Let_def)
      moreover have "Q (as_world s3)" if "env_keeps env c G Q" and "Q (as_world s)" for G Q
        using acquireToken_keeps [OF that(1) rate_limit_keeps [OF that sent(1)] sent(2)] .
      ultimately show ?thesis using sent(3,4) s1 by (intro exI [of _ token] exI [of _ "as_world s3"] conjI) (simp, blast)
    qed
  next
    case (Inr delay)
    obtain e w where t: "he_After env delay (as_world s1) = (e, w)" by fastforce
    have e: "e = None" using "1.prems" a Inr t by (auto simp: request_loop.simps [of env c ctx verb url body extra attempt s] split: option.splits)
    have k: "Q w" if "env_keeps env c G Q" and "\<forall>token. G (request verb url body token extra)" and "Q (as_world s)" for G Q
      by (rule env_keeps_wait [OF that(1) attempt_request_keeps [OF that(1,3) a] t]) (use that(2) in blast)
    have "request_loop env c ctx verb url body extra (attempt + 1) (s1\<lparr>as_world := w\<rparr>) = (Inr resp, s')"
      using "1.prems" a Inr t e by (simp add: request_loop.simps [of env c ctx verb url body extra attempt s])
    from "1.IH" [OF a [symmetric] Inr t [symmetric] e this] k show ?thesis by simp blast
  qed
qed

lemma doRequest_answer:
  assumes "doRequest env c ctx verb url body extra s = (Inr resp, s')"
  obtains token w where "he_Do env (request verb url body token extra) w = (Inr resp, as_world s')"
    and "\<forall>G Q. env_keeps env c G Q \<longrightarrow> (\<forall>token. G (request verb url body token extra)) \<longrightarrow> Q (as_world s) \<longrightarrow> Q w"
  using request_loop_answer [OF assms [unfolded doRequest_def]] by blast

text \<open>
  What Azure promises: an operation is not in progress forever, \<open>mu loc w\<close> bounds the polls of
  \<open>loc\<close> that still answer \<open>202\<close>; and the links of a listing do not run in circles,
  \<open>rank url\<close> bounds the pages from \<open>url\<close> on.
\<close>

definition polls_end :: "'w http_env \<Rightarrow> 'w AddressPrefixSetClient \<Rightarrow> (string \<Rightarrow> 'w \<Rightarrow> nat) \<Rightarrow> bool" where
  "polls_end env c mu \<longleftrightarrow>
     (\<forall>loc k. env_keeps env c is_get (\<lambda>w. mu loc w \<le> k)) \<and>
     (\<forall>rq w resp w'. he_Do env rq w = (Inr resp, w') \<longrightarrow> is_get rq \<longrightarrow> rs_StatusCode resp = 202 \<longrightarrow> mu (rq_URL rq) w' < mu (rq_URL rq) w)"

definition pages_end :: "'w http_env \<Rightarrow> (string \<Rightarrow> nat) \<Rightarrow> bool" where
  "pages_end env rank \<longleftrightarrow>
     (\<forall>rq w resp w' l url. he_Do env rq w = (Inr resp, w') \<longrightarrow> unmarshal_list (fst (rs_Body resp)) = Some l \<longrightarrow>
        plr_NextLink l = Some url \<longrightarrow> url \<noteq> [] \<longrightarrow> rank url < rank (rq_URL rq))"

lemma request_url [simp]: "rq_URL (request verb url body token extra) = url"
  by (simp add: request_def)

lemma poll_once_again:
  assumes m: "polls_end env c mu" and p: "poll_once env c loc sub s = (Inr u, s')"
  shows "mu loc (as_world s') < mu loc (as_world s)"
proof -
  have k: "env_keeps env c is_get (\<lambda>w. mu loc w \<le> k)" for k using m unfolding polls_end_def by blast
  obtain e w where t: "he_After env (500 * millisecond) (as_world s) = (e, w)" by fastforce
  have w: "mu loc w \<le> mu loc (as_world s)" by (rule env_keeps_wait [OF k order_refl t])
  obtain resp where d: "doRequest env c (retry_context ARMOperationPollLRO ''GET'' loc (sub, [], [], [])) ''GET'' loc None []
      (s\<lparr>as_world := w\<rparr>) = (Inr resp, s')" and st: "rs_StatusCode resp = 202"
    using p t by (auto simp: poll_once_def split: option.splits prod.splits sum.splits if_splits)
  obtain token w1 where a: "he_Do env (request ''GET'' loc None token []) w1 = (Inr resp, as_world s')"
    and q: "\<forall>G Q. env_keeps env c G Q \<longrightarrow> (\<forall>token. G (request ''GET'' loc None token [])) \<longrightarrow> Q w \<longrightarrow> Q w1"
    by (rule doRequest_answer [OF d]) simp
  have "mu loc w1 \<le> mu loc w" by (rule q [rule_format, OF k]) simp_all
  moreover have "mu loc (as_world s') < mu loc w1"
  proof -
    have "mu (rq_URL (request ''GET'' loc None token [])) (as_world s') < mu (rq_URL (request ''GET'' loc None token [])) w1"
      using m a st request_get unfolding polls_end_def by blast
    then show ?thesis by simp
  qed
  ultimately show ?thesis using w by linarith
qed

lemma poll_loop_returns:
  assumes m: "polls_end env c mu"
  shows "\<exists>r. poll_loop env c loc sub s = Some r"
proof (induction "mu loc (as_world s)" arbitrary: s rule: less_induct)
  case less
  obtain y s' where p: "poll_once env c loc sub s = (y, s')" by fastforce
  show ?case
  proof (cases y)
    case (Inl x)
    then show ?thesis using p by (simp add: poll_loop.simps)
  next
    case (Inr u)
    from less [OF poll_once_again [OF m p [unfolded Inr]]] show ?thesis using p Inr by (simp add: poll_loop.simps [of env c loc sub s])
  qed
qed

lemma await_operation_returns:
  assumes "polls_end env c mu"
  shows "\<exists>res. await_operation env c st msg sub resp s = Some res"
proof -
  obtain e s' where "poll_loop env c (if HasPrefix (rs_Header resp ''Location'') ''http'' then rs_Header resp ''Location''
      else pc_baseURL c @ rs_Header resp ''Location'') sub s = Some (e, s')"
    using poll_loop_returns [OF assms] by fastforce
  then show ?thesis by (cases e) (simp_all add: await_operation_def pollLRO_def)
qed

lemma send_put_returns:
  assumes "polls_end env c mu"
  shows "\<exists>res. send_put env c msg r ips headers s = Some res"
  using await_operation_returns [OF assms] by (auto simp: send_put_def Let_def split: prod.splits sum.splits)

lemma list_page_link:
  assumes m: "pages_end env rank" and p: "list_page env c g url s = (Inr (items, next_url), s')" and "next_url \<noteq> []"
  shows "rank next_url < rank url"
proof -
  obtain sub rg asg where g: "g = (sub, rg, asg)" by (cases g)
  obtain resp l where d: "doRequest env c (retry_context ARMOperationListPrefixSets ''GET'' url (sub, rg, asg, [])) ''GET'' url None [] s = (Inr resp, s')"
    and l: "unmarshal_list (fst (rs_Body resp)) = Some l" and n: "plr_NextLink l = Some next_url"
    using p assms(3) g by (auto simp: list_page_def split: prod.splits sum.splits option.splits)
  obtain token w where a: "he_Do env (request ''GET'' url None token []) w = (Inr resp, as_world s')" by (rule doRequest_answer [OF d])
  show ?thesis using m a l n assms(3) unfolding pages_end_def by (metis request_url)
qed

lemma list_pages_returns:
  assumes m: "pages_end env rank"
  shows "\<exists>r. list_pages env c g url all s = Some r"
proof (induction "rank url" arbitrary: url all s rule: less_induct)
  case less
  obtain y s' where p: "list_page env c g url s = (y, s')" by fastforce
  show ?case
  proof (cases y)
    case (Inl x)
    then show ?thesis using p by (simp add: list_pages.simps)
  next
    case (Inr u)
    obtain items next_url where u: "u = (items, next_url)" by (cases u)
    show ?thesis
    proof (cases "next_url = []")
      case True
      then show ?thesis using p Inr u by (simp add: list_pages.simps)
    next
      case False
      from less [OF list_page_link [OF m p [unfolded Inr u] False]] show ?thesis
        using p Inr u by (simp add: list_pages.simps [of env c g url])
    qed
  qed
qed

text \<open>C19: every operation of the client returns, when operations in Azure end and the pages of a
  listing are finitely many; the code sets no limit of its own.\<close>

theorem arm_operations_return:
  assumes "polls_end env c mu" and "pages_end env rank"
  shows "(\<exists>res. ARM_Put env c r ips s = Some res) \<and> (\<exists>res. ARM_PutWithIfMatch env c r ips etag s = Some res) \<and>
    (\<exists>res. ARM_Delete env c r s = Some res) \<and> (\<exists>res. ARM_List env c g s = Some res)"
proof (intro conjI)
  show "\<exists>res. ARM_Put env c r ips s = Some res"
    using send_put_returns [OF assms(1)] by (auto simp: ARM_Put_def split: prod.splits sum.splits)
  show "\<exists>res. ARM_Delete env c r s = Some res"
    using await_operation_returns [OF assms(1)] by (auto simp: ARM_Delete_def Let_def split: prod.splits sum.splits)
qed (use send_put_returns [OF assms(1)] list_pages_returns [OF assms(2)] in \<open>auto simp: ARM_PutWithIfMatch_def ARM_List_def\<close>)

text \<open>A server with one operation that takes \<open>w\<close> more polls.\<close>

definition slow_env :: "nat http_env" where
  "slow_env = \<lparr>he_Err = (\<lambda>_. None), he_NewRequest = (\<lambda>_ _. None),
     he_Do = (\<lambda>rq w. if is_get rq
       then (Inr \<lparr>rs_StatusCode = if w > 0 then 202 else 200, rs_Header = (\<lambda>_. []), rs_Body = ([], None)\<rparr>, w - 1)
       else (Inr \<lparr>rs_StatusCode = 202, rs_Header = (\<lambda>h. if h = ''Location'' then ''/op'' else []), rs_Body = ([], None)\<rparr>, 3)),
     he_After = (\<lambda>_ w. (None, w)), he_Now = (\<lambda>_. 1000), he_Float64 = (\<lambda>_. 0), he_ParseTime = (\<lambda>_. None)\<rparr>"

definition slow_client :: "nat AddressPrefixSetClient" where
  "slow_client = \<lparr>pc_credential = None, pc_baseURL = ''https://host'', pc_retryPolicy = DefaultRetryPolicy, pc_rateLimiter = None\<rparr>"

theorem arm_operations_return_witness:
  "polls_end slow_env slow_client (\<lambda>_ w. w) \<and> pages_end slow_env (\<lambda>_. 0) \<and>
   (\<exists>res. ARM_Delete slow_env slow_client (''sub'', ''rg'', ''asg'', ''ps'') \<lparr>as_world = 0, as_cachedToken = [], as_tokenExpiresOn = 0\<rparr> = Some res)"
proof -
  have p: "polls_end slow_env slow_client (\<lambda>_ w. w)"
    by (auto simp: polls_end_def env_keeps_def slow_env_def slow_client_def split: if_splits)
  have "unmarshal_list [] = None" by (simp add: unmarshal_list_def json_parse_def)
  then have q: "pages_end slow_env (\<lambda>_. 0)" by (auto simp: pages_end_def slow_env_def split: if_splits)
  show ?thesis using p q arm_operations_return [OF p q] by blast
qed

section \<open>Which set a read returns\<close>

text \<open>the set a \<open>GET\<close> returns is one of the answer: in a list, an item of the name asked
  for, and if there are several, with the ETag of that item, never the one of the list. An answer that lists no item of that name
  is reported as not found.\<close>

theorem get_picks_named_set:
  assumes "unmarshal_list (fst (rs_Body resp)) = Some l" and "plr_Value l = Some items" and "snd (rs_Body resp) = None"
  shows "(decode_get name resp = Inr ps \<longrightarrow>
      (\<exists>item \<in> set items. EqualFold (item_name item) name \<and> ps = item\<lparr>aps_Etag := aps_Etag ps\<rparr> \<and> (length items > 1 \<longrightarrow> ps = item))) \<and>
    ((\<forall>item \<in> set items. \<not> EqualFold (item_name item) name) \<longrightarrow> (\<exists>e. decode_get name resp = Inl e \<and> IsNotFound e))"
proof (cases "find (\<lambda>s. EqualFold (item_name s) name) items")
  case None
  have "\<exists>e. pick_set name (fst (rs_Body resp)) = Inl e \<and> IsNotFound e"
    using None assms(1,2) by (cases "items = []") (auto simp: pick_set_def)
  then show ?thesis using assms(3) by (auto simp: decode_get_def)
next
  case (Some item)
  then have i: "item \<in> set items" "EqualFold (item_name item) name" "items \<noteq> []" by (auto simp: find_Some_iff)
  have "ps = item\<lparr>aps_Etag := aps_Etag ps\<rparr> \<and> (length items > 1 \<longrightarrow> ps = item)" if "decode_get name resp = Inr ps"
    using that assms Some i(3) by (auto simp: decode_get_def pick_set_def Let_def split: if_splits)
  then show ?thesis using i by blast
qed

definition two_sets :: json where
  "two_sets = JObj [(''value'', JArr [JObj [(''name'', JStr ''a''), (''etag'', JStr ''1'')], JObj [(''name'', JStr ''b''), (''etag'', JStr ''2'')]])]"

lemma two_sets_decoded:
  "unmarshal_list (json_print two_sets) =
     Some \<lparr>plr_Value = Some [empty_set\<lparr>aps_Name := Some ''a'', aps_Etag := Some ''1''\<rparr>, empty_set\<lparr>aps_Name := Some ''b'', aps_Etag := Some ''2''\<rparr>],
           plr_NextLink = None\<rparr>"
proof -
  have "json_parse (json_print two_sets) = Some two_sets" by (rule json_parse_print) (simp add: two_sets_def)
  then show ?thesis
    by (simp add: unmarshal_list_def two_sets_def decode_object_def decode_list_field_def decode_set_def decode_set_field_def decode_pointer_def
        EqualFold_def ToLower_def lower_byte_def)
qed

theorem get_picks_named_set_witness:
  "let resp = \<lparr>rs_StatusCode = 200, rs_Header = (\<lambda>h. if h = ''ETag'' then ''list'' else []), rs_Body = (json_print two_sets, None)\<rparr> in
   (\<exists>ps. decode_get ''B'' resp = Inr ps \<and> aps_Etag ps = Some ''2'' \<and> EqualFold (item_name ps) ''B'') \<and>
   (\<exists>e. decode_get ''c'' resp = Inl e \<and> IsNotFound e)"
proof -
  let ?resp = "\<lparr>rs_StatusCode = 200, rs_Header = (\<lambda>h. if h = ''ETag'' then ''list'' else []), rs_Body = (json_print two_sets, None)\<rparr>"
  have t: "unmarshal_list (fst (rs_Body ?resp)) = Some \<lparr>plr_Value = Some [empty_set\<lparr>aps_Name := Some ''a'', aps_Etag := Some ''1''\<rparr>,
      empty_set\<lparr>aps_Name := Some ''b'', aps_Etag := Some ''2''\<rparr>], plr_NextLink = None\<rparr>" by (simp add: two_sets_decoded)
  have fold: "EqualFold ''b'' ''B''" "\<not> EqualFold ''a'' ''B''" "\<not> EqualFold ''a'' ''c''" "\<not> EqualFold ''b'' ''c''" by code_simp+
  note eval = item_name_def empty_set_def fold
  have "decode_get ''B'' ?resp = Inr (empty_set\<lparr>aps_Name := Some ''b'', aps_Etag := Some ''2''\<rparr>)"
    by (simp add: decode_get_def pick_set_def two_sets_decoded eval)
  moreover have "\<exists>e. decode_get ''c'' ?resp = Inl e \<and> IsNotFound e"
    using get_picks_named_set [OF t, of _ "''c''"] by (simp add: eval)
  ultimately show ?thesis unfolding Let_def by (simp add: eval)
qed

end
