(* ===== verification/Arm_Service.thy ===== *)
theory Arm_Service
  imports Arm_Client
begin

text \<open>
  The client of prefix sets against Azure Resource Manager: what Azure has to promise about single
  HTTP requests (locale \<open>arm_service\<close>) for the clients of \<open>internal/azure/address_prefix_set_client.go\<close>
  to keep the contract \<open>prefix_set_service\<close> that the executor and the reconciler rely on.

  The state of the operations is the world with the token caches of the clients, one client per
  subscription as the factory makes them.
\<close>

section \<open>The clients of the factory as one interface\<close>

type_synonym 'w fleet = "'w \<times> (string \<Rightarrow> string \<times> gotime)"

text \<open>A call of the client of a subscription: it uses and changes that client's token cache.\<close>

definition on_client :: "string \<Rightarrow> ('w arm_state \<Rightarrow> 'y \<times> 'w arm_state) \<Rightarrow> 'w fleet \<Rightarrow> 'y \<times> 'w fleet" where
  "on_client sub call st =
     (case st of (w, caches) \<Rightarrow>
        (case call \<lparr>as_world = w, as_cachedToken = fst (caches sub), as_tokenExpiresOn = snd (caches sub)\<rparr> of
           (y, s) \<Rightarrow> (y, (as_world s, caches(sub := (as_cachedToken s, as_tokenExpiresOn s))))))"

text \<open>The operations that may not return are used where they do (\<open>arm_operations_return\<close>).\<close>

definition arm_api :: "'w http_env \<Rightarrow> 'w AddressPrefixSetClient \<Rightarrow> 'w fleet AddressPrefixSetAPI" where
  "arm_api env c =
     \<lparr>api_Get = (\<lambda>r. on_client (fst r) (\<lambda>s. case ARM_Get env c r s of (y, s) \<Rightarrow> (map_sum id Some y, s))),
      api_GetWithETag = (\<lambda>r. on_client (fst r) (\<lambda>s. case ARM_GetWithETag env c r s of (y, s) \<Rightarrow> (map_sum id (map_prod Some id) y, s))),
      api_Put = (\<lambda>r ips. on_client (fst r) (\<lambda>s. the (ARM_Put env c r ips s))),
      api_PutWithIfMatch = (\<lambda>r ips etag. on_client (fst r) (\<lambda>s. the (ARM_PutWithIfMatch env c r ips etag s))),
      api_Delete = (\<lambda>r. on_client (fst r) (\<lambda>s. the (ARM_Delete env c r s))),
      api_List = (\<lambda>g. on_client (fst g) (\<lambda>s. the (ARM_List env c g s)))\<rparr>"

section \<open>Requests\<close>

text \<open>Only an answer of Azure is an error \<open>404\<close>; no other error claims that a resource does not exist.\<close>

definition honest_errors :: "'w http_env \<Rightarrow> 'w AddressPrefixSetClient \<Rightarrow> bool" where
  "honest_errors env c \<longleftrightarrow>
     (\<forall>w e. he_Err env w = Some e \<longrightarrow> \<not> IsNotFound e) \<and> (\<forall>verb url e. he_NewRequest env verb url = Some e \<longrightarrow> \<not> IsNotFound e) \<and>
     (\<forall>d w e. fst (he_After env d w) = Some e \<longrightarrow> \<not> IsNotFound e) \<and> (\<forall>rq w e. fst (he_Do env rq w) = Inl e \<longrightarrow> \<not> IsNotFound e) \<and>
     (\<forall>rq w resp e. fst (he_Do env rq w) = Inr resp \<longrightarrow> snd (rs_Body resp) = Some e \<longrightarrow> \<not> IsNotFound e) \<and>
     (\<forall>f w e. pc_credential c = Some f \<longrightarrow> fst (f w) = Inl e \<longrightarrow> \<not> IsNotFound e) \<and>
     (\<forall>f sub w e. pc_rateLimiter c = Some f \<longrightarrow> fst (f sub w) = Some e \<longrightarrow> \<not> IsNotFound e)"

lemma honest_rate_limit:
  assumes "honest_errors env c" and "rate_limit c sub s = (Some e, s')"
  shows "\<not> IsNotFound e"
proof (cases "pc_rateLimiter c")
  case (Some f)
  obtain y w where "f sub (as_world s) = (y, w)" by fastforce
  moreover have "fst (f sub (as_world s)) = Some e \<longrightarrow> \<not> IsNotFound e" using assms(1) Some unfolding honest_errors_def by blast
  ultimately show ?thesis using assms(2) Some by (auto simp: rate_limit_def split: if_splits)
qed (use assms in \<open>simp add: rate_limit_def\<close>)

lemma honest_token:
  assumes "honest_errors env c" and "acquireToken env c s = (Inl e, s')"
  shows "\<not> IsNotFound e"
proof (cases "pc_credential c")
  case (Some f)
  obtain y w where f: "f (as_world s) = (y, w)" by fastforce
  have "fst (f (as_world s)) = Inl x \<longrightarrow> \<not> IsNotFound x" for x using assms(1) Some unfolding honest_errors_def by blast
  then show ?thesis using assms(2) Some f by (auto simp: acquireToken_def split: if_splits sum.splits)
qed (use assms in \<open>simp add: acquireToken_def\<close>)

lemma parse_status [simp]: "arm_StatusCode (ParseARMErrorWithContext env resp ctx t) = rs_StatusCode resp"
  by (simp add: ParseARMErrorWithContext_def parseARMError_def Let_def split: option.splits prod.splits bool.splits)

text \<open>
  What a request does, from what its answers do: \<open>Q\<close> holds before it and is kept by everything but a
  success, \<open>R\<close> is what a success gives, and \<open>F\<close> what an answer \<open>404\<close> tells.
\<close>

definition answers_ok :: "('w \<Rightarrow> bool) \<Rightarrow> (http_response \<Rightarrow> 'w \<Rightarrow> bool) \<Rightarrow> bool \<Rightarrow> (goerror + http_response) \<times> 'w \<Rightarrow> bool" where
  "answers_ok Q R F ans \<longleftrightarrow>
     (case ans of
        (Inl e, w) \<Rightarrow> Q w
      | (Inr resp, w) \<Rightarrow> if 200 \<le> rs_StatusCode resp \<and> rs_StatusCode resp < 300 then R resp w
          else Q w \<and> (rs_StatusCode resp = 404 \<longrightarrow> F))"

lemma attempt_request_ok:
  assumes h: "honest_errors env c" and quiet: "env_keeps env c (\<lambda>_. False) Q" and q: "Q (as_world s)"
    and ok: "\<And>token w. Q w \<Longrightarrow> answers_ok Q R F (he_Do env (request verb url body token extra) w)"
    and a: "attempt_request env c ctx verb url body extra attempt s = (y, s')"
  shows "(\<forall>d. y = Inr d \<longrightarrow> Q (as_world s')) \<and> (\<forall>resp. y = Inl (Inr resp) \<longrightarrow> R resp (as_world s')) \<and>
    (\<forall>e. y = Inl (Inl e) \<longrightarrow> Q (as_world s') \<and> (IsNotFound e \<longrightarrow> F))"
proof -
  obtain e s1 where rl: "rate_limit c (rc_SubscriptionID ctx) s = (e, s1)" by fastforce
  obtain tok s2 where tk: "acquireToken env c s1 = (tok, s2)" by fastforce
  have q1: "Q (as_world s1)" by (rule rate_limit_keeps [OF quiet q rl])
  have q2: "Q (as_world s2)" by (rule acquireToken_keeps [OF quiet q1 tk])
  consider (err) x where "he_Err env (as_world s) = Some x" | (limit) x where "he_Err env (as_world s) = None" "e = Some x"
    | (url) x where "he_Err env (as_world s) = None" "e = None" "he_NewRequest env verb url = Some x"
    | (token) x where "he_Err env (as_world s) = None" "e = None" "he_NewRequest env verb url = None" "tok = Inl x"
    | (sent) token where "he_Err env (as_world s) = None" "e = None" "he_NewRequest env verb url = None" "tok = Inr token"
    by (cases "he_Err env (as_world s)"; cases e; cases "he_NewRequest env verb url"; cases tok) auto
  then show ?thesis
  proof cases
    case (err x)
    then show ?thesis using a q h by (auto simp: attempt_request_def honest_errors_def)
  next
    case (limit x)
    then show ?thesis using a rl q1 honest_rate_limit [OF h, of "rc_SubscriptionID ctx" s x s1] by (auto simp: attempt_request_def)
  next
    case (url x)
    then have "\<not> IsNotFound x" using h by (auto simp: honest_errors_def)
    then show ?thesis using url a rl q1 by (auto simp: attempt_request_def)
  next
    case (token x)
    then show ?thesis using a rl tk q2 honest_token [OF h, of s1 x s2] by (auto simp: attempt_request_def)
  next
    case (sent token)
    obtain ans w where d: "he_Do env (request verb url body token extra) (as_world s2) = (ans, w)" by fastforce
    have ans: "answers_ok Q R F (ans, w)" using ok [OF q2, of token] d by simp
    have a': "attempt_request env c ctx verb url body extra attempt s = (case ans of
        Inl err \<Rightarrow> (let decision = DecideRetry (he_Float64 env w) (Some err) attempt (pc_retryPolicy c) in
          if rd_Retry decision then (Inr (rd_Delay decision), s2\<lparr>as_world := w\<rparr>)
          else (Inl (Inl (Wrapped ''executing request'' err)), s2\<lparr>as_world := w\<rparr>))
      | Inr resp \<Rightarrow> if 200 \<le> rs_StatusCode resp \<and> rs_StatusCode resp < 300 then (Inl (Inr resp), s2\<lparr>as_world := w\<rparr>)
          else (let armErr = ARMError (ParseARMErrorWithContext env resp ctx (he_Now env w));
                    decision = DecideRetry (he_Float64 env w) (Some armErr) attempt (pc_retryPolicy c)
                in if rd_Retry decision then (Inr (rd_Delay decision), s2\<lparr>as_world := w\<rparr>) else (Inl (Inl armErr), s2\<lparr>as_world := w\<rparr>)))"
      using sent rl tk d by (simp add: attempt_request_def)
    show ?thesis
    proof (cases ans)
      case (Inl x)
      have "fst (he_Do env (request verb url body token extra) (as_world s2)) = Inl x" using d Inl by simp
      then have "\<not> IsNotFound x" using h unfolding honest_errors_def by blast
      then show ?thesis using a a' Inl ans by (auto simp: Let_def answers_ok_def split: if_splits)
    next
      case (Inr resp)
      then show ?thesis using a a' ans by (auto simp: Let_def answers_ok_def split: if_splits)
    qed
  qed
qed

lemma request_loop_ok:
  assumes h: "honest_errors env c" and quiet: "env_keeps env c (\<lambda>_. False) Q"
    and ok: "\<And>token w. Q w \<Longrightarrow> answers_ok Q R F (he_Do env (request verb url body token extra) w)"
  shows "Q (as_world s) \<Longrightarrow> request_loop env c ctx verb url body extra attempt s = (y, s') \<Longrightarrow>
    (\<forall>resp. y = Inr resp \<longrightarrow> R resp (as_world s')) \<and> (\<forall>e. y = Inl e \<longrightarrow> Q (as_world s') \<and> (IsNotFound e \<longrightarrow> F))"
  using h quiet ok
proof (induction env c ctx verb url body extra attempt s arbitrary: y s' rule: request_loop.induct)
  case (1 env c ctx verb url body extra attempt s)
  obtain r s1 where a: "attempt_request env c ctx verb url body extra attempt s = (r, s1)" by fastforce
  note at = attempt_request_ok [OF "1.prems"(3,4,1) "1.prems"(5) a]
  show ?case
  proof (cases r)
    case (Inl res)
    then show ?thesis using "1.prems"(2) a at by (simp add: request_loop.simps)
  next
    case (Inr delay)
    obtain e w where t: "he_After env delay (as_world s1) = (e, w)" by fastforce
    have "Q (as_world s1)" using at Inr by blast
    then have q: "Q w" by (rule env_keeps_wait [OF "1.prems"(4) _ t])
    have "fst (he_After env delay (as_world s1)) = Some x \<longrightarrow> \<not> IsNotFound x" for x using "1.prems"(3) unfolding honest_errors_def by blast
    then have n: "e = Some x \<Longrightarrow> \<not> IsNotFound x" for x using t by simp
    show ?thesis
    proof (cases e)
      case None
      show ?thesis
        by (rule "1.IH" [OF a [symmetric] Inr t [symmetric] None _ _ "1.prems"(3-5)])
          (use "1.prems"(2) a Inr t None q in \<open>simp_all add: request_loop.simps [of env c ctx verb url body extra attempt s]\<close>)
    next
      case (Some x)
      then show ?thesis using "1.prems"(2) a Inr t q n by (auto simp: request_loop.simps [of env c ctx verb url body extra attempt s])
    qed
  qed
qed

lemma doRequest_ok:
  assumes "honest_errors env c" and "env_keeps env c (\<lambda>_. False) Q"
    and "\<And>token w. Q w \<Longrightarrow> answers_ok Q R F (he_Do env (request verb url body token extra) w)"
    and "Q (as_world s)" and "doRequest env c ctx verb url body extra s = (y, s')"
  obtains (success) resp where "y = Inr resp" and "R resp (as_world s')"
  | (failure) e where "y = Inl e" and "Q (as_world s')" and "IsNotFound e \<Longrightarrow> F"
  using request_loop_ok [OF assms(1-4), of ctx 1 y s'] assms(5) by (cases y) (auto simp: doRequest_def)


section \<open>What Azure promises\<close>

text \<open>An answer to \<open>GET\<close> on a prefix set: an envelope of sets with names, among them the one asked for if it exists.\<close>

definition shows_set :: "string \<Rightarrow> string set option \<Rightarrow> string \<Rightarrow> bool" where
  "shows_set name v body \<longleftrightarrow>
     (\<exists>l items. unmarshal_list body = Some l \<and> plr_Value l = Some items \<and>
        (\<forall>item \<in> set items. \<exists>n. aps_Name item = Some n \<and> (EqualFold n name \<longrightarrow> v = Some (set (prefixes_of item)))) \<and>
        (v \<noteq> None \<longrightarrow> (\<exists>item \<in> set items. \<exists>n. aps_Name item = Some n \<and> EqualFold n name)))"

text \<open>A page of a listing: each of the names still to come is on it or comes after its link.\<close>

definition shows_page :: "(string \<Rightarrow> string set) \<Rightarrow> string \<Rightarrow> string \<Rightarrow> bool" where
  "shows_page L url body \<longleftrightarrow>
     (\<forall>l. unmarshal_list body = Some l \<longrightarrow> (\<forall>n \<in> L url.
        (\<exists>item \<in> set (case plr_Value l of None \<Rightarrow> [] | Some xs \<Rightarrow> xs). aps_Name item = Some n) \<or>
        (\<exists>url'. plr_NextLink l = Some url' \<and> url' \<noteq> [] \<and> n \<in> L url')))"

definition unchanged :: "('w \<Rightarrow> bool) \<Rightarrow> ('w \<Rightarrow> 's) \<Rightarrow> ('w \<Rightarrow> 'l) \<Rightarrow> 'w \<Rightarrow> 'w \<Rightarrow> bool" where
  "unchanged invar stored listed w w' \<longleftrightarrow> invar w' \<and> stored w' = stored w \<and> listed w' = listed w"

lemma unchanged_trans: "unchanged I S L w w1 \<Longrightarrow> unchanged I S L w1 w2 \<Longrightarrow> unchanged I S L w w2"
  by (simp add: unchanged_def)

lemma prefixes_etag [simp]: "prefixes_of (x\<lparr>aps_Etag := e\<rparr>) = prefixes_of x"
  by (simp add: prefixes_of_def)

lemma item_name_Some: "aps_Name s = Some n \<Longrightarrow> item_name s = n"
  by (simp add: item_name_def)

lemma decode_get_shows:
  assumes "snd (rs_Body resp) = None \<longrightarrow> shows_set name v (fst (rs_Body resp))" and "\<forall>e. snd (rs_Body resp) = Some e \<longrightarrow> \<not> IsNotFound e"
  shows "(\<forall>ps. decode_get name resp = Inr ps \<longrightarrow> v = Some (set (prefixes_of ps))) \<and>
    (\<forall>e. decode_get name resp = Inl e \<longrightarrow> IsNotFound e \<longrightarrow> v = None)"
proof (cases "snd (rs_Body resp)")
  case None
  then have "shows_set name v (fst (rs_Body resp))" using assms(1) by simp
  then obtain l items where l: "unmarshal_list (fst (rs_Body resp)) = Some l" "plr_Value l = Some items"
    and v: "\<forall>item \<in> set items. \<exists>n. aps_Name item = Some n \<and> (EqualFold n name \<longrightarrow> v = Some (set (prefixes_of item)))"
    and x: "v \<noteq> None \<longrightarrow> (\<exists>item \<in> set items. \<exists>n. aps_Name item = Some n \<and> EqualFold n name)"
    unfolding shows_set_def by (elim exE conjE) (rule that)
  show ?thesis
  proof (cases "find (\<lambda>s. EqualFold (item_name s) name) items")
    case None
    have "v = None"
    proof (rule ccontr)
      assume "v \<noteq> None"
      with x obtain item n where "item \<in> set items" "aps_Name item = Some n" "EqualFold n name" by blast
      then show False using None by (auto simp: find_None_iff item_name_Some)
    qed
    moreover have "decode_get name resp \<noteq> Inr ps" for ps
      using None \<open>snd (rs_Body resp) = None\<close> l by (auto simp: decode_get_def pick_set_def)
    ultimately show ?thesis by simp
  next
    case (Some item)
    then have i: "item \<in> set items" "EqualFold (item_name item) name" "items \<noteq> []" by (auto simp: find_Some_iff)
    then obtain n where n: "aps_Name item = Some n" "v = Some (set (prefixes_of item))" using v by (auto simp: item_name_Some)
    show ?thesis
      using Some \<open>snd (rs_Body resp) = None\<close> l i(3) n by (auto simp: decode_get_def pick_set_def Let_def split: if_splits)
  qed
qed (use assms(2) in \<open>simp add: decode_get_def\<close>)

text \<open>
  \<open>stored w (ident r)\<close> are the prefixes that Azure holds for \<open>r\<close>, and \<open>listed w url\<close> the names that the pages from
  \<open>url\<close> on list. Only requests change them; a write whose answer is not a success has not happened, and one whose
  answer is a success is complete (no \<open>Location\<close> to poll).
\<close>

locale arm_service =
  fixes env :: "'w http_env"
    and c :: "'w AddressPrefixSetClient"
    and invar :: "'w \<Rightarrow> bool"
    and ident :: "resource \<Rightarrow> 'k"
    and stored :: "'w \<Rightarrow> 'k \<Rightarrow> string set option"
    and listed :: "'w \<Rightarrow> string \<Rightarrow> string set"
    and rank :: "string \<Rightarrow> nat"
  assumes errors: "honest_errors env c"
    and quiet: "env_keeps env c (\<lambda>_. False) (unchanged invar stored listed w)"
    and get_answer: "invar w \<Longrightarrow>
      answers_ok (unchanged invar stored listed w)
        (\<lambda>resp w'. unchanged invar stored listed w w' \<and> (snd (rs_Body resp) = None \<longrightarrow> shows_set (snd (snd (snd r))) (stored w (ident r)) (fst (rs_Body resp))))
        (stored w (ident r) = None) (he_Do env (request ''GET'' (resourceURL c r) None token []) w)"
    and page_answer: "invar w \<Longrightarrow>
      answers_ok (unchanged invar stored listed w)
        (\<lambda>resp w'. unchanged invar stored listed w w' \<and> (snd (rs_Body resp) = None \<longrightarrow> shows_page (listed w) url (fst (rs_Body resp))))
        True (he_Do env (request ''GET'' url None token []) w)"
    and put_answer: "invar w \<Longrightarrow> unmarshal_set body = Some x \<Longrightarrow>
      answers_ok (unchanged invar stored listed w)
        (\<lambda>resp w'. invar w' \<and> stored w' = (stored w)(ident r \<mapsto> set (prefixes_of x)) \<and> rs_Header resp ''Location'' = [])
        (stored w (ident r) = None) (he_Do env (request ''PUT'' (resourceURL c r) (Some body) token extra) w)"
    and delete_answer: "invar w \<Longrightarrow>
      answers_ok (unchanged invar stored listed w)
        (\<lambda>resp w'. invar w' \<and> stored w' = (stored w)(ident r := None) \<and> rs_Header resp ''Location'' = [])
        (stored w (ident r) = None) (he_Do env (request ''DELETE'' (resourceURL c r) None token []) w)"
    and listed_all: "invar w \<Longrightarrow> stored w (ident (sub, rg, asg, name)) \<noteq> None \<Longrightarrow>
      \<exists>n \<in> listed w (listURL c (sub, rg, asg)). EqualFold n name \<and> ident (sub, rg, asg, n) = ident (sub, rg, asg, name)"
    and pages: "pages_end env rank"
begin

lemma unchanged_ok:
  assumes "\<And>w. invar w \<Longrightarrow> answers_ok (unchanged invar stored listed w) (R w) (F w) (call w)"
    and "unchanged invar stored listed w0 w" and "\<And>w1 resp w'. unchanged invar stored listed w0 w1 \<Longrightarrow> R w1 resp w' \<Longrightarrow> Res resp w'"
    and "\<And>w1. unchanged invar stored listed w0 w1 \<Longrightarrow> F w1 \<Longrightarrow> Gone"
  shows "answers_ok (unchanged invar stored listed w0) Res Gone (call w)"
proof -
  have "invar w" using assms(2) by (simp add: unchanged_def)
  from assms(1) [OF this] show ?thesis
    unfolding answers_ok_def
    by (auto split: sum.splits prod.splits if_splits intro: unchanged_trans [OF assms(2)] assms(3) [OF assms(2)] assms(4) [OF assms(2)])
qed

lemma request_ok:
  assumes "\<And>token w. invar w \<Longrightarrow> answers_ok (unchanged invar stored listed w) (R w) (F w) (he_Do env (request verb url body token extra) w)"
    and "\<And>w1 resp w'. unchanged invar stored listed (as_world s) w1 \<Longrightarrow> R w1 resp w' \<Longrightarrow> Res resp w'"
    and "\<And>w1. unchanged invar stored listed (as_world s) w1 \<Longrightarrow> F w1 \<Longrightarrow> Gone"
    and "invar (as_world s)" and "doRequest env c ctx verb url body extra s = (y, s')"
  obtains (success) resp where "y = Inr resp" and "Res resp (as_world s')" and "\<forall>e. snd (rs_Body resp) = Some e \<longrightarrow> \<not> IsNotFound e"
  | (failure) e where "y = Inl e" and "unchanged invar stored listed (as_world s) (as_world s')" and "IsNotFound e \<Longrightarrow> Gone"
proof (rule doRequest_ok [OF errors quiet [of "as_world s"] _ _ assms(5), where R = Res and F = Gone])
  fix resp
  assume y: "y = Inr resp" and r: "Res resp (as_world s')"
  obtain token w where d: "he_Do env (request verb url body token extra) w = (Inr resp, as_world s')"
    by (rule doRequest_answer [OF assms(5) [unfolded y]])
  have "fst (he_Do env (request verb url body token extra) w) = Inr resp" using d by simp
  then have "\<forall>e. snd (rs_Body resp) = Some e \<longrightarrow> \<not> IsNotFound e" using errors unfolding honest_errors_def by blast
  then show thesis by (rule success [OF y r])
next
  fix token w
  assume u: "unchanged invar stored listed (as_world s) w"
  show "answers_ok (unchanged invar stored listed (as_world s)) Res Gone (he_Do env (request verb url body token extra) w)"
    by (rule unchanged_ok [of R F "he_Do env (request verb url body token extra)" "as_world s" w Res Gone, OF assms(1) u assms(2,3)])
qed (use assms(4) failure in \<open>auto simp: unchanged_def\<close>)

lemma get_spec:
  assumes i: "invar (as_world s)" and g: "ARM_Get env c r s = (y, s')"
  shows "unchanged invar stored listed (as_world s) (as_world s') \<and>
    (\<forall>ps. y = Inr ps \<longrightarrow> stored (as_world s) (ident r) = Some (set (prefixes_of ps))) \<and>
    (\<forall>e. y = Inl e \<longrightarrow> IsNotFound e \<longrightarrow> stored (as_world s) (ident r) = None)"
proof -
  let ?u = "resourceURL c r" and ?v = "stored (as_world s) (ident r)" and ?U = "unchanged invar stored listed (as_world s)"
  obtain z s1 where d: "doRequest env c (retry_context ARMOperationGetPrefixSet ''GET'' ?u r) ''GET'' ?u None [] s = (z, s1)" by fastforce
  from get_answer [of _ r] _ _ i d show ?thesis
  proof (rule request_ok [where Gone = "?v = None" and
        Res = "\<lambda>resp w'. ?U w' \<and> (snd (rs_Body resp) = None \<longrightarrow> shows_set (snd (snd (snd r))) ?v (fst (rs_Body resp)))"])
    fix resp
    assume "z = Inr resp" and "?U (as_world s1) \<and> (snd (rs_Body resp) = None \<longrightarrow> shows_set (snd (snd (snd r))) ?v (fst (rs_Body resp)))"
      and "\<forall>e. snd (rs_Body resp) = Some e \<longrightarrow> \<not> IsNotFound e"
    then show ?thesis using decode_get_shows [of resp "snd (snd (snd r))" ?v] g d by (simp add: ARM_Get_def Let_def)
  next
    fix e
    assume "z = Inl e" and "?U (as_world s1)" and "IsNotFound e \<Longrightarrow> ?v = None"
    then show ?thesis using g d by (auto simp: ARM_Get_def Let_def)
  qed (auto simp: unchanged_def)
qed

lemma send_put_spec:
  assumes i: "invar (as_world s)"
  obtains (success) s' where "send_put env c msg r ips headers s = Some (None, s')" and "invar (as_world s')"
    and "stored (as_world s') = (stored (as_world s))(ident r \<mapsto> set ips)"
  | (failure) e s' where "send_put env c msg r ips headers s = Some (Some e, s')" and "unchanged invar stored listed (as_world s) (as_world s')"
    and "IsNotFound e \<longrightarrow> stored (as_world s) (ident r) = None"
proof -
  let ?u = "resourceURL c r" and ?v = "stored (as_world s) (ident r)" and ?U = "unchanged invar stored listed (as_world s)"
  let ?R = "\<lambda>resp w'. invar w' \<and> stored w' = (stored (as_world s))(ident r \<mapsto> set ips) \<and> rs_Header resp ''Location'' = []"
  obtain x where x: "unmarshal_set (marshal_put ips) = Some x" "prefixes_of x = ips"
    using unmarshal_put [of ips] by (auto simp: prefixes_of_def)
  obtain z s1 where d: "doRequest env c (retry_context ARMOperationPutPrefixSet ''PUT'' ?u r) ''PUT'' ?u (Some (marshal_put ips)) headers s = (z, s1)"
    by fastforce
  from put_answer [OF _ x(1), of _ r _ headers, unfolded x(2)] _ _ i d show thesis
  proof (rule request_ok [where Gone = "?v = None" and Res = ?R])
    fix resp
    assume "z = Inr resp" and "?R resp (as_world s1)"
    then show thesis using d by (intro success [of s1]) (simp_all add: send_put_def Let_def await_operation_def)
  next
    fix e
    assume "z = Inl e" and "?U (as_world s1)" and "IsNotFound e \<Longrightarrow> ?v = None"
    then show thesis using d by (intro failure [of "Wrapped msg e" s1]) (simp_all add: send_put_def Let_def)
  qed (auto simp: unchanged_def)
qed

lemma put_spec:
  assumes i: "invar (as_world s)"
  obtains y s' where "ARM_Put env c r ips s = Some (y, s')" and "invar (as_world s')"
    and "stored (as_world s') = (if y = None then (stored (as_world s))(ident r \<mapsto> set ips) else stored (as_world s))"
proof -
  note that1 = that
  obtain g s1 where g: "ARM_Get env c r s = (g, s1)" by fastforce
  have s1: "invar (as_world s1)" "stored (as_world s1) = stored (as_world s)" using get_spec [OF i g] by (simp_all add: unchanged_def)
  have put: thesis if e: "ARM_Put env c r ips s = send_put env c msg r ips headers s1" for msg headers
  proof (cases rule: send_put_spec [OF s1(1), of msg r ips headers])
    case (1 s')
    then show thesis by (intro that1 [of None s']) (simp_all add: e s1(2))
  next
    case (2 x s')
    then show thesis by (intro that1 [of "Some x" s']) (simp_all add: e s1(2) unchanged_def)
  qed
  show thesis
  proof (cases g)
    case (Inl e)
    show thesis
    proof (cases "IsNotFound e")
      case True
      then show thesis by (intro put) (use g Inl in \<open>simp add: ARM_Put_def\<close>)
    next
      case False
      then have "ARM_Put env c r ips s = Some (Some (Wrapped ''pre-PUT GET'' e), s1)" using g Inl by (simp add: ARM_Put_def)
      then show thesis by (rule that) (use s1 in simp_all)
    qed
  next
    case (Inr x)
    then show thesis by (intro put) (use g in \<open>simp add: ARM_Put_def\<close>)
  qed
qed

lemma match_spec:
  assumes i: "invar (as_world s)"
  obtains y s' where "ARM_PutWithIfMatch env c r ips etag s = Some (y, s')" and "invar (as_world s')"
    and "stored (as_world s') = (if y = None then (stored (as_world s))(ident r \<mapsto> set ips) else stored (as_world s))"
    and "\<forall>e. y = Some e \<longrightarrow> IsNotFound e \<longrightarrow> stored (as_world s) (ident r) = None"
  by (rule send_put_spec [OF i, of "''PUT (If-Match) AddressPrefixSet''" r ips "[(''If-Match'', etag)]"])
    (use that in \<open>auto simp: ARM_PutWithIfMatch_def unchanged_def\<close>)

lemma delete_spec:
  assumes i: "invar (as_world s)"
  obtains y s' where "ARM_Delete env c r s = Some (y, s')" and "invar (as_world s')"
    and "stored (as_world s') = (if y = None then (stored (as_world s))(ident r := None) else stored (as_world s))"
    and "\<forall>e. y = Some e \<longrightarrow> \<not> IsNotFound e"
proof -
  let ?u = "resourceURL c r" and ?v = "stored (as_world s) (ident r)" and ?U = "unchanged invar stored listed (as_world s)"
  let ?R = "\<lambda>resp w'. invar w' \<and> stored w' = (stored (as_world s))(ident r := None) \<and> rs_Header resp ''Location'' = []"
  obtain z s1 where d: "doRequest env c (retry_context ARMOperationDeletePrefixSet ''DELETE'' ?u r) ''DELETE'' ?u None [] s = (z, s1)" by fastforce
  from delete_answer [of _ r] _ _ i d show thesis
  proof (rule request_ok [where Gone = "?v = None" and Res = ?R])
    fix resp
    assume "z = Inr resp" and "?R resp (as_world s1)"
    then show thesis using d by (intro that [of None s1]) (simp_all add: ARM_Delete_def Let_def await_operation_def)
  next
    fix e
    assume z: "z = Inl e" and u: "?U (as_world s1)" and n: "IsNotFound e \<Longrightarrow> ?v = None"
    show thesis
    proof (cases "IsNotFound e")
      case True
      then have "(stored (as_world s))(ident r := None) = stored (as_world s)" using n by (metis fun_upd_triv)
      then show thesis using d z u True by (intro that [of None s1]) (simp_all add: ARM_Delete_def Let_def unchanged_def)
    next
      case False
      then show thesis using d z u
        by (intro that [of "Some (Wrapped ''DELETE AddressPrefixSet'' e)" s1]) (simp_all add: ARM_Delete_def Let_def unchanged_def)
    qed
  qed (auto simp: unchanged_def)
qed

lemma page_spec:
  assumes i: "invar (as_world s)" and p: "list_page env c g url s = (y, s')"
  shows "unchanged invar stored listed (as_world s) (as_world s') \<and>
    (\<forall>items next_url. y = Inr (items, next_url) \<longrightarrow> (\<forall>n \<in> listed (as_world s) url.
       (\<exists>item \<in> set items. aps_Name item = Some n) \<or> next_url \<noteq> [] \<and> n \<in> listed (as_world s) next_url))"
proof -
  obtain sub rg asg where g: "g = (sub, rg, asg)" by (cases g)
  let ?U = "unchanged invar stored listed (as_world s)" and ?L = "listed (as_world s)"
  let ?R = "\<lambda>resp w'. ?U w' \<and> (snd (rs_Body resp) = None \<longrightarrow> shows_page ?L url (fst (rs_Body resp)))"
  obtain z s1 where d: "doRequest env c (retry_context ARMOperationListPrefixSets ''GET'' url (sub, rg, asg, [])) ''GET'' url None [] s = (z, s1)"
    by fastforce
  from page_answer [of _ url] _ _ i d show ?thesis
  proof (rule request_ok [where Gone = True and Res = ?R])
    fix resp
    assume "z = Inr resp" and "?R resp (as_world s1)"
    then show ?thesis using p d g by (fastforce simp: list_page_def shows_page_def split: option.splits)
  next
    fix e
    assume "z = Inl e" and "?U (as_world s1)"
    then show ?thesis using p d g by (auto simp: list_page_def)
  qed (auto simp: unchanged_def)
qed

lemma pages_spec:
  "invar (as_world s) \<Longrightarrow> \<exists>y s'. list_pages env c g url all s = Some (y, s') \<and> unchanged invar stored listed (as_world s) (as_world s') \<and>
    (\<forall>sets. y = Inr sets \<longrightarrow> set all \<subseteq> set sets \<and> (url \<noteq> [] \<longrightarrow> (\<forall>n \<in> listed (as_world s) url. \<exists>x \<in> set sets. aps_Name x = Some n)))"
proof (induction "rank url" arbitrary: url all s rule: less_induct)
  case less
  obtain y s' where p: "list_page env c g url s = (y, s')" by fastforce
  note k = page_spec [OF less.prems p]
  show ?case
  proof (cases "url = [] \<or> (\<exists>e. y = Inl e)")
    case True
    then show ?thesis using p k less.prems by (auto simp: list_pages.simps unchanged_def)
  next
    case False
    then obtain items next_url where y: "y = Inr (items, next_url)" and url: "url \<noteq> []" by (cases y) auto
    have step: "list_pages env c g url all s = list_pages env c g next_url (all @ items) s'"
      using p y url by (simp add: list_pages.simps [of env c g url])
    show ?thesis
    proof (cases "next_url = []")
      case True
      then show ?thesis using step k y by (fastforce simp: list_pages.simps)
    next
      case False
      have "invar (as_world s')" using k by (simp add: unchanged_def)
      from less.hyps [OF list_page_link [OF pages p [unfolded y] False] this, of "all @ items"]
      show ?thesis using step k y False by (fastforce simp: unchanged_def)
    qed
  qed
qed

lemma list_spec:
  assumes i: "invar (as_world s)"
  obtains y s' where "ARM_List env c (sub, rg, asg) s = Some (y, s')" and "unchanged invar stored listed (as_world s) (as_world s')"
    and "\<forall>sets name. y = Inr sets \<longrightarrow> stored (as_world s) (ident (sub, rg, asg, name)) \<noteq> None \<longrightarrow>
      (\<exists>x \<in> set sets. \<exists>n. aps_Name x = Some n \<and> EqualFold n name \<and> ident (sub, rg, asg, n) = ident (sub, rg, asg, name))"
proof -
  let ?u = "listURL c (sub, rg, asg)"
  have u: "?u \<noteq> []" by (simp add: listURL_def)
  obtain y s' where l: "list_pages env c (sub, rg, asg) ?u [] s = Some (y, s')" "unchanged invar stored listed (as_world s) (as_world s')"
    and n: "\<forall>sets. y = Inr sets \<longrightarrow> set [] \<subseteq> set sets \<and> (?u \<noteq> [] \<longrightarrow> (\<forall>n \<in> listed (as_world s) ?u. \<exists>x \<in> set sets. aps_Name x = Some n))"
    using pages_spec [OF i, of "(sub, rg, asg)" ?u "[]"] by (elim exE conjE) (rule that)
  have "\<exists>x \<in> set sets. \<exists>n. aps_Name x = Some n \<and> EqualFold n name \<and> ident (sub, rg, asg, n) = ident (sub, rg, asg, name)"
    if "y = Inr sets" and st: "stored (as_world s) (ident (sub, rg, asg, name)) \<noteq> None" for sets name
  proof -
    obtain m where "m \<in> listed (as_world s) ?u" and m: "EqualFold m name" "ident (sub, rg, asg, m) = ident (sub, rg, asg, name)"
      using listed_all [OF i st] by (elim bexE conjE) (rule that)
    with n u that(1) obtain x where "x \<in> set sets" "aps_Name x = Some m" by blast
    with m show ?thesis by blast
  qed
  then show thesis by (intro that [OF l(1) [folded ARM_List_def] l(2)]) blast
qed

end

section \<open>The contract of the executor\<close>

lemma on_client_eq:
  "on_client sub call (w, caches) =
     (case call \<lparr>as_world = w, as_cachedToken = fst (caches sub), as_tokenExpiresOn = snd (caches sub)\<rparr> of
        (y, s) \<Rightarrow> (y, (as_world s, caches(sub := (as_cachedToken s, as_tokenExpiresOn s)))))"
  by (simp add: on_client_def)

text \<open>A call of a client, seen as a call of the fleet: what holds of worlds is all the contract speaks of.\<close>

lemma on_client_rule:
  assumes "\<And>s y s'. as_world s = fst st \<Longrightarrow> call s = (y, s') \<Longrightarrow> P y (as_world s')"
  shows "P (fst (on_client sub call st)) (fst (snd (on_client sub call st)))"
proof -
  obtain w caches where st: "st = (w, caches)" by (cases st)
  obtain y s' where "call \<lparr>as_world = w, as_cachedToken = fst (caches sub), as_tokenExpiresOn = snd (caches sub)\<rparr> = (y, s')" by fastforce
  with assms [OF _ this] show ?thesis by (simp add: st on_client_eq)
qed

context arm_service
begin

lemma get_rule:
  assumes "invar (fst st)"
  shows "unchanged invar stored listed (fst st) (fst (snd (api_Get (arm_api env c) r st))) \<and> fst (api_Get (arm_api env c) r st) \<noteq> Inr None \<and>
    (\<forall>x. fst (api_Get (arm_api env c) r st) = Inr x \<longrightarrow> stored (fst st) (ident r) = map_option (\<lambda>s. set (prefixes_of s)) x) \<and>
    (\<forall>e. fst (api_Get (arm_api env c) r st) = Inl e \<longrightarrow> IsNotFound e \<longrightarrow> stored (fst st) (ident r) = None)"
  unfolding arm_api_def AddressPrefixSetAPI.select_convs
proof (rule on_client_rule)
  fix s y s'
  assume s: "as_world s = fst st" and g: "(case ARM_Get env c r s of (y, s) \<Rightarrow> (map_sum id Some y, s)) = (y, s')"
  obtain z where z: "ARM_Get env c r s = (z, s')" "y = map_sum id Some z" using g by (cases "ARM_Get env c r s") simp
  show "unchanged invar stored listed (fst st) (as_world s') \<and> y \<noteq> Inr None \<and>
    (\<forall>x. y = Inr x \<longrightarrow> stored (fst st) (ident r) = map_option (\<lambda>s. set (prefixes_of s)) x) \<and>
    (\<forall>e. y = Inl e \<longrightarrow> IsNotFound e \<longrightarrow> stored (fst st) (ident r) = None)"
    using get_spec [of s r z s'] assms s z by (cases z) simp_all
qed

lemma etag_rule:
  assumes "invar (fst st)"
  shows "unchanged invar stored listed (fst st) (fst (snd (api_GetWithETag (arm_api env c) r st))) \<and>
    (\<forall>x etag. fst (api_GetWithETag (arm_api env c) r st) = Inr (x, etag) \<longrightarrow> stored (fst st) (ident r) = map_option (\<lambda>s. set (prefixes_of s)) x) \<and>
    (\<forall>e. fst (api_GetWithETag (arm_api env c) r st) = Inl e \<longrightarrow> IsNotFound e \<longrightarrow> stored (fst st) (ident r) = None)"
  unfolding arm_api_def AddressPrefixSetAPI.select_convs
proof (rule on_client_rule)
  fix s y s'
  assume s: "as_world s = fst st" and g: "(case ARM_GetWithETag env c r s of (y, s) \<Rightarrow> (map_sum id (map_prod Some id) y, s)) = (y, s')"
  obtain z where z: "ARM_Get env c r s = (z, s')" using g by (auto simp: ARM_GetWithETag_def split: prod.splits sum.splits)
  show "unchanged invar stored listed (fst st) (as_world s') \<and>
    (\<forall>x etag. y = Inr (x, etag) \<longrightarrow> stored (fst st) (ident r) = map_option (\<lambda>s. set (prefixes_of s)) x) \<and>
    (\<forall>e. y = Inl e \<longrightarrow> IsNotFound e \<longrightarrow> stored (fst st) (ident r) = None)"
    using get_spec [of s r z s'] assms s z g by (cases z) (auto simp: ARM_GetWithETag_def)
qed

lemma put_rule:
  assumes "invar (fst st)"
  shows "invar (fst (snd (api_Put (arm_api env c) r ips st))) \<and>
    stored (fst (snd (api_Put (arm_api env c) r ips st))) =
      (if fst (api_Put (arm_api env c) r ips st) = None then (stored (fst st))(ident r \<mapsto> set ips) else stored (fst st))"
  unfolding arm_api_def AddressPrefixSetAPI.select_convs
proof (rule on_client_rule)
  fix s y s'
  assume s: "as_world s = fst st" and g: "the (ARM_Put env c r ips s) = (y, s')"
  have i: "invar (as_world s)" using assms s by simp
  show "invar (as_world s') \<and> stored (as_world s') = (if y = None then (stored (fst st))(ident r \<mapsto> set ips) else stored (fst st))"
    by (rule put_spec [OF i, of r ips]) (use g s in auto)
qed

lemma match_rule:
  assumes "invar (fst st)"
  shows "invar (fst (snd (api_PutWithIfMatch (arm_api env c) r ips etag st))) \<and>
    stored (fst (snd (api_PutWithIfMatch (arm_api env c) r ips etag st))) =
      (if fst (api_PutWithIfMatch (arm_api env c) r ips etag st) = None then (stored (fst st))(ident r \<mapsto> set ips) else stored (fst st)) \<and>
    (\<forall>e. fst (api_PutWithIfMatch (arm_api env c) r ips etag st) = Some e \<longrightarrow> IsNotFound e \<longrightarrow> stored (fst st) (ident r) = None)"
  unfolding arm_api_def AddressPrefixSetAPI.select_convs
proof (rule on_client_rule)
  fix s y s'
  assume s: "as_world s = fst st" and g: "the (ARM_PutWithIfMatch env c r ips etag s) = (y, s')"
  have i: "invar (as_world s)" using assms s by simp
  show "invar (as_world s') \<and> stored (as_world s') = (if y = None then (stored (fst st))(ident r \<mapsto> set ips) else stored (fst st)) \<and>
    (\<forall>e. y = Some e \<longrightarrow> IsNotFound e \<longrightarrow> stored (fst st) (ident r) = None)"
    by (rule match_spec [OF i, of r ips etag]) (use g s in auto)
qed

lemma delete_rule:
  assumes "invar (fst st)"
  shows "invar (fst (snd (api_Delete (arm_api env c) r st))) \<and>
    stored (fst (snd (api_Delete (arm_api env c) r st))) =
      (if fst (api_Delete (arm_api env c) r st) = None then (stored (fst st))(ident r := None) else stored (fst st)) \<and>
    (\<forall>e. fst (api_Delete (arm_api env c) r st) = Some e \<longrightarrow> \<not> IsNotFound e)"
  unfolding arm_api_def AddressPrefixSetAPI.select_convs
proof (rule on_client_rule)
  fix s y s'
  assume s: "as_world s = fst st" and g: "the (ARM_Delete env c r s) = (y, s')"
  have i: "invar (as_world s)" using assms s by simp
  show "invar (as_world s') \<and> stored (as_world s') = (if y = None then (stored (fst st))(ident r := None) else stored (fst st)) \<and>
    (\<forall>e. y = Some e \<longrightarrow> \<not> IsNotFound e)"
    by (rule delete_spec [OF i, of r]) (use g s in auto)
qed

lemma list_rule:
  assumes "invar (fst st)"
  shows "unchanged invar stored listed (fst st) (fst (snd (api_List (arm_api env c) (sub, rg, asg) st))) \<and>
    (\<forall>sets name. fst (api_List (arm_api env c) (sub, rg, asg) st) = Inr sets \<longrightarrow> stored (fst st) (ident (sub, rg, asg, name)) \<noteq> None \<longrightarrow>
      (\<exists>x \<in> set sets. \<exists>n. aps_Name x = Some n \<and> EqualFold n name \<and> ident (sub, rg, asg, n) = ident (sub, rg, asg, name)))"
  unfolding arm_api_def AddressPrefixSetAPI.select_convs
proof (rule on_client_rule)
  fix s y s'
  assume s: "as_world s = fst st" and g: "the (ARM_List env c (sub, rg, asg) s) = (y, s')"
  have i: "invar (as_world s)" using assms s by simp
  show "unchanged invar stored listed (fst st) (as_world s') \<and>
    (\<forall>sets name. y = Inr sets \<longrightarrow> stored (fst st) (ident (sub, rg, asg, name)) \<noteq> None \<longrightarrow>
      (\<exists>x \<in> set sets. \<exists>n. aps_Name x = Some n \<and> EqualFold n name \<and> ident (sub, rg, asg, n) = ident (sub, rg, asg, name)))"
    by (rule list_spec [OF i, of sub rg asg]) (use g s in auto)
qed

end

sublocale arm_service \<subseteq> prefix_set_service "arm_api env c" "\<lambda>st. invar (fst st)" ident "\<lambda>st. stored (fst st)"
proof (unfold_locales, goal_cases)
  case (15 st g)
  obtain sub rg asg where g: "g = (sub, rg, asg)" by (cases g)
  show ?case using list_rule [OF 15, of sub rg asg] by (simp add: g unchanged_def)
next
  case (16 st sub rg asg sets name)
  show ?case using list_rule [OF 16(1), of sub rg asg] 16(2,3) by blast
next
  case (14 st r)
  show ?case using get_rule [OF 14] by blast
qed (use get_rule etag_rule put_rule match_rule delete_rule in \<open>simp_all add: unchanged_def\<close>)

context arm_service
begin

lemma service: "prefix_set_service (arm_api env c) (\<lambda>st. invar (fst st)) ident (\<lambda>st. stored (fst st))"
  by (rule prefix_set_service_axioms)

end

end
