(* ===== verification/Arm_Server.thy ===== *)
theory Arm_Server
  imports Arm_Service Executor
begin

text \<open>
  The HTTP client against an HTTP server whose store is the in-memory client of
  \<open>internal/azure/fake\<close>: the interpretation of \<open>arm_service\<close>, and the execution of a diff through the
  HTTP client. The server knows a list of resources and refuses every other URL; a prefix set
  is written as the client's types describe it (\<open>internal/azure/address_prefix_set_client.go\<close>).
\<close>

section \<open>Prefix sets as JSON\<close>

definition pointer_json :: "string option \<Rightarrow> json" where
  "pointer_json x = (case x of None \<Rightarrow> JNull | Some s \<Rightarrow> JStr s)"

definition properties_json :: "AddressPrefixSetProperties \<Rightarrow> json" where
  "properties_json p = JObj [(''addressPrefixSet'', JArr (map JStr (psp_AddressPrefixes p))), (''provisioningState'', pointer_json (psp_ProvisioningState p))]"

definition set_json :: "AddressPrefixSet \<Rightarrow> json" where
  "set_json x = JObj [(''id'', pointer_json (aps_ID x)), (''name'', pointer_json (aps_Name x)), (''etag'', pointer_json (aps_Etag x)),
     (''type'', pointer_json (aps_Type x)), (''properties'', case aps_Properties x of None \<Rightarrow> JNull | Some p \<Rightarrow> properties_json p)]"

definition envelope :: "AddressPrefixSet list \<Rightarrow> string" where
  "envelope xs = json_print (JObj [(''value'', JArr (map set_json xs))])"

lemma fold_names [simp]: "EqualFold ''id'' ''id''" "\<not> EqualFold ''name'' ''id''" "EqualFold ''name'' ''name''" "\<not> EqualFold ''etag'' ''id''"
  "\<not> EqualFold ''etag'' ''name''" "EqualFold ''etag'' ''etag''" "\<not> EqualFold ''type'' ''id''" "\<not> EqualFold ''type'' ''name''"
  "\<not> EqualFold ''type'' ''etag''" "EqualFold ''type'' ''type''" "\<not> EqualFold ''properties'' ''id''" "\<not> EqualFold ''properties'' ''name''"
  "\<not> EqualFold ''properties'' ''etag''" "\<not> EqualFold ''properties'' ''type''" "EqualFold ''properties'' ''properties''"
  "EqualFold ''addressPrefixSet'' ''addressPrefixSet''" "\<not> EqualFold ''provisioningState'' ''addressPrefixSet''"
  "EqualFold ''provisioningState'' ''provisioningState''" "EqualFold ''value'' ''value''"
  by (simp_all add: EqualFold_def ToLower_def lower_byte_def)

lemma decode_pointer_json [simp]: "decode_pointer (pointer_json x) = Some x"
  by (simp add: decode_pointer_def pointer_json_def split: option.splits)

lemma decode_properties_json [simp]: "decode_object decode_properties_field (properties_json p) empty_properties = Some p"
  by (cases p) (simp add: properties_json_def decode_object_def decode_properties_field_def decode_strings)

lemma decode_properties_member:
  assumes "aps_Properties x = None"
  shows "decode_set_field ''properties'' (properties_json p) x = Some (x\<lparr>aps_Properties := Some p\<rparr>)"
proof -
  obtain kvs where "properties_json p = JObj kvs" by (simp add: properties_json_def)
  moreover from this have "decode_object decode_properties_field (JObj kvs) empty_properties = Some p" using decode_properties_json [of p] by simp
  ultimately show ?thesis using assms by (simp add: decode_set_field_def)
qed

lemma decode_set_json [simp]: "decode_set (set_json x) = Some x"
proof -
  have null: "decode_set_field ''properties'' JNull y = Some (y\<lparr>aps_Properties := None\<rparr>)" for y by (simp add: decode_set_field_def)
  have "decode_set_field ''id'' v y = map_option (\<lambda>p. y\<lparr>aps_ID := p\<rparr>) (decode_pointer v)"
    "decode_set_field ''name'' v y = map_option (\<lambda>p. y\<lparr>aps_Name := p\<rparr>) (decode_pointer v)"
    "decode_set_field ''etag'' v y = map_option (\<lambda>p. y\<lparr>aps_Etag := p\<rparr>) (decode_pointer v)"
    "decode_set_field ''type'' v y = map_option (\<lambda>p. y\<lparr>aps_Type := p\<rparr>) (decode_pointer v)" for v y
    by (simp_all add: decode_set_field_def)
  then show ?thesis
    by (cases x; cases "aps_Properties x") (simp_all add: set_json_def decode_set_def decode_object_def null decode_properties_member empty_set_def)
qed

lemma decode_sets_json: "decode_list decode_set (map set_json xs) = Some xs"
  by (induction xs) simp_all

lemma no_num_pointer [simp]: "no_num (pointer_json x)"
  by (simp add: pointer_json_def split: option.splits)

lemma no_num_set_json [simp]: "no_num (set_json x)"
  by (auto simp: set_json_def properties_json_def list_all_iff split: option.splits)

lemma unmarshal_envelope: "unmarshal_list (envelope xs) = Some \<lparr>plr_Value = Some xs, plr_NextLink = None\<rparr>"
proof -
  have "json_parse (envelope xs) = Some (JObj [(''value'', JArr (map set_json xs))])"
    unfolding envelope_def by (rule json_parse_print) (simp add: list_all_iff)
  then show ?thesis by (simp add: unmarshal_list_def decode_object_def decode_list_field_def decode_sets_json)
qed

section \<open>The server\<close>

record http_store =
  hs_known :: "resource list"
  hs_client :: Client

definition answer :: "int \<Rightarrow> string \<Rightarrow> http_response" where
  "answer status body = \<lparr>rs_StatusCode = status, rs_Header = (\<lambda>_. []), rs_Body = (body, None)\<rparr>"

definition fail_answer :: "goerror \<Rightarrow> http_response" where
  "fail_answer e = answer (if IsNotFound e then 404 else if IsPreconditionFailed e then 412 else 500) []"

definition write_answer :: "goerror option \<times> Client \<Rightarrow> http_response \<times> Client" where
  "write_answer res = (case res of (None, cl) \<Rightarrow> (answer 200 [], cl) | (Some e, cl) \<Rightarrow> (fail_answer e, cl))"

definition serve_put :: "resource \<Rightarrow> (string, string) gomap \<Rightarrow> string list \<Rightarrow> Client \<Rightarrow> goerror option \<times> Client" where
  "serve_put r headers ips cl =
     (case gget headers ''If-Match'' of
        Some etag \<Rightarrow> Client_PutWithIfMatch r ips etag cl
      | None \<Rightarrow>
          if gget headers ''If-None-Match'' = Some ''*'' \<and> PeekPrefixes cl r \<noteq> None then (Some etag_mismatch, cl)
          else Client_Put r ips cl)"

definition serve_set :: "resource \<Rightarrow> http_request \<Rightarrow> Client \<Rightarrow> http_response \<times> Client" where
  "serve_set r rq cl =
     (if rq_Method rq = ''GET'' then
        (case Client_Get r cl of
           (Inl e, cl) \<Rightarrow> (fail_answer e, cl)
         | (Inr x, cl) \<Rightarrow> (answer 200 (envelope (case x of None \<Rightarrow> [] | Some s \<Rightarrow> [s])), cl))
      else if rq_Method rq = ''PUT'' then
        (case (case rq_Body rq of None \<Rightarrow> None | Some body \<Rightarrow> unmarshal_set body) of
           None \<Rightarrow> (answer 400 [], cl)
         | Some x \<Rightarrow> write_answer (serve_put r (rq_Headers rq) (prefixes_of x) cl))
      else if rq_Method rq = ''DELETE'' then write_answer (Client_Delete r cl)
      else (answer 405 [], cl))"

definition serve_group :: "string \<times> string \<times> string \<Rightarrow> http_request \<Rightarrow> Client \<Rightarrow> http_response \<times> Client" where
  "serve_group g rq cl =
     (if rq_Method rq = ''GET'' then
        (case Client_List g cl of (Inl e, cl) \<Rightarrow> (fail_answer e, cl) | (Inr xs, cl) \<Rightarrow> (answer 200 (envelope xs), cl))
      else (answer 405 [], cl))"

definition group_of :: "resource \<Rightarrow> string \<times> string \<times> string" where
  "group_of r = (case r of (sub, rg, asg, name) \<Rightarrow> (sub, rg, asg))"

definition serve :: "http_store AddressPrefixSetClient \<Rightarrow> http_request \<Rightarrow> http_store \<Rightarrow> http_response \<times> http_store" where
  "serve c rq w =
     (case find (\<lambda>r. resourceURL c r = rq_URL rq) (hs_known w) of
        Some r \<Rightarrow> (case serve_set r rq (hs_client w) of (resp, cl) \<Rightarrow> (resp, w\<lparr>hs_client := cl\<rparr>))
      | None \<Rightarrow>
          (case find (\<lambda>r. listURL c (group_of r) = rq_URL rq) (hs_known w) of
             Some r \<Rightarrow> (case serve_group (group_of r) rq (hs_client w) of (resp, cl) \<Rightarrow> (resp, w\<lparr>hs_client := cl\<rparr>))
           | None \<Rightarrow> (answer 400 [], w)))"

definition store_client :: "http_store AddressPrefixSetClient" where
  "store_client = \<lparr>pc_credential = None, pc_baseURL = ''https://store'', pc_retryPolicy = DefaultRetryPolicy, pc_rateLimiter = None\<rparr>"

definition store_env :: "http_store http_env" where
  "store_env = \<lparr>he_Err = (\<lambda>_. None), he_NewRequest = (\<lambda>_ _. None),
     he_Do = (\<lambda>rq w. case serve store_client rq w of (resp, w) \<Rightarrow> (Inr resp, w)),
     he_After = (\<lambda>_ w. (None, w)), he_Now = (\<lambda>_. 1000), he_Float64 = (\<lambda>_. 0), he_ParseTime = (\<lambda>_. None)\<rparr>"

definition store_listed :: "http_store \<Rightarrow> string \<Rightarrow> string set" where
  "store_listed w url = {name. \<exists>sub rg asg. listURL store_client (sub, rg, asg) = url \<and> fake_stored (hs_client w) (resourceKey (sub, rg, asg, name)) \<noteq> None}"

section \<open>The server keeps the promises\<close>

lemma find_URL: "find (\<lambda>r'. resourceURL c r' = resourceURL c r) xs = (if r \<in> set xs then Some r else None)"
  by (induction xs) (auto simp: resourceURL_eq)

lemma find_none_URL: "find (\<lambda>r'. listURL c (group_of r') = resourceURL c r) xs = None" "find (\<lambda>r'. resourceURL c r' = listURL c g) xs = None"
  using listURL_not_resource [of c] listURL_not_resource [of c, THEN not_sym] by (auto simp: find_None_iff)

lemma serve_resource:
  assumes "rq_URL rq = resourceURL c r"
  shows "serve c rq w = (if r \<in> set (hs_known w) then (case serve_set r rq (hs_client w) of (resp, cl) \<Rightarrow> (resp, w\<lparr>hs_client := cl\<rparr>)) else (answer 400 [], w))"
  by (simp add: serve_def assms find_URL find_none_URL)

lemma serve_listing:
  assumes "rq_URL rq = listURL c g"
  shows "serve c rq w = (if g \<in> group_of ` set (hs_known w) then (case serve_group g rq (hs_client w) of (resp, cl) \<Rightarrow> (resp, w\<lparr>hs_client := cl\<rparr>))
    else (answer 400 [], w))"
proof (cases "find (\<lambda>r. listURL c (group_of r) = listURL c g) (hs_known w)")
  case None
  then have "g \<notin> group_of ` set (hs_known w)" by (auto simp: find_None_iff)
  then show ?thesis using None by (simp add: serve_def assms find_none_URL)
next
  case (Some r)
  then have "r \<in> set (hs_known w)" "group_of r = g" by (auto simp: find_Some_iff listURL_eq)
  then show ?thesis using Some by (auto simp: serve_def assms find_none_URL)
qed

abbreviation store_honest :: "http_store \<Rightarrow> bool" where
  "store_honest w \<equiv> honest (hs_client w)"

abbreviation store_stored :: "http_store \<Rightarrow> string \<Rightarrow> string set option" where
  "store_stored w \<equiv> fake_stored (hs_client w)"

lemma store_unchanged:
  "unchanged store_honest store_stored store_listed w w' \<longleftrightarrow> store_honest w' \<and> store_stored w' = store_stored w"
  by (auto simp: unchanged_def store_listed_def)

lemma fail_ok: "\<not> (200 \<le> rs_StatusCode (fail_answer e) \<and> rs_StatusCode (fail_answer e) < 300)"
  "rs_StatusCode (fail_answer e) = 404 \<longleftrightarrow> IsNotFound e"
  by (simp_all add: fail_answer_def answer_def)

lemma refused_ok:
  assumes "store_honest w"
  shows "answers_ok (unchanged store_honest store_stored store_listed w) R F (Inr (answer 400 []), w)"
    "answers_ok (unchanged store_honest store_stored store_listed w) R F (Inr (answer 405 []), w)"
  using assms by (simp_all add: answers_ok_def answer_def store_unchanged)

lemma store_do: "he_Do store_env rq w = (case serve store_client rq w of (resp, w) \<Rightarrow> (Inr resp, w))"
  by (simp add: store_env_def)

lemma request_fields [simp]: "rq_Method (request verb url body token extra) = verb" "rq_Body (request verb url body token extra) = body"
  by (simp_all add: request_def)

lemma store_get:
  assumes i: "store_honest w"
  shows "answers_ok (unchanged store_honest store_stored store_listed w)
    (\<lambda>resp w'. unchanged store_honest store_stored store_listed w w' \<and>
      (snd (rs_Body resp) = None \<longrightarrow> shows_set (snd (snd (snd r))) (store_stored w (resourceKey r)) (fst (rs_Body resp))))
    (store_stored w (resourceKey r) = None) (he_Do store_env (request ''GET'' (resourceURL store_client r) None token []) w)"
proof (cases "r \<in> set (hs_known w)")
  case True
  obtain y cl where g: "Client_Get r (hs_client w) = (y, cl)" by fastforce
  have k: "honest cl" "fake_stored cl = store_stored w" using Client_Get_keeps [OF i, of r] g by simp_all
  show ?thesis
  proof (cases y)
    case (Inl e)
    then have "IsNotFound e \<longrightarrow> store_stored w (resourceKey r) = None" using Client_Get_absent [OF i, of r e] g by simp
    then show ?thesis using True g Inl k fail_ok [of e]
      by (auto simp: store_do serve_resource serve_set_def answers_ok_def store_unchanged)
  next
    case (Inr x)
    then obtain s where s: "x = Some s" using Client_Get_not_nil [of r "hs_client w"] g by (cases x) auto
    then have "store_stored w (resourceKey r) = Some (set (prefixes_of s))" using Client_Get_value [of r "hs_client w" x] g Inr by simp
    moreover have "aps_Name s = Some (snd (snd (snd r)))" using g Inr s by (auto simp: Client_Get_def Let_def split: option.splits prod.splits)
    ultimately have "shows_set (snd (snd (snd r))) (store_stored w (resourceKey r)) (envelope [s])"
      by (simp add: shows_set_def unmarshal_envelope EqualFold_def)
    then show ?thesis using True g Inr s k
      by (simp add: store_do serve_resource serve_set_def answers_ok_def answer_def store_unchanged)
  qed
next
  case False
  then show ?thesis using refused_ok(1) [OF i] by (simp add: store_do serve_resource)
qed

lemma write_ok:
  assumes "honest (snd res)" and "fake_stored (snd res) = (if fst res = None then S else store_stored w)"
    and "\<forall>e. fst res = Some e \<longrightarrow> IsNotFound e \<longrightarrow> F"
  shows "answers_ok (unchanged store_honest store_stored store_listed w)
    (\<lambda>resp w'. store_honest w' \<and> store_stored w' = S \<and> rs_Header resp ''Location'' = []) F
    (case write_answer res of (resp, cl) \<Rightarrow> (Inr resp, w\<lparr>hs_client := cl\<rparr>))"
  using assms fail_ok
  by (cases res) (auto simp: write_answer_def answers_ok_def store_unchanged answer_def fail_answer_def split: option.splits)

lemma Client_Put_absent:
  assumes "honest cl" and "fst (Client_Put r ips cl) = Some e"
  shows "\<not> IsNotFound e"
  using assms honest_consume(2) [OF assms(1), of "inject_key OperationPut r" e]
  by (auto simp: Client_Put_def Let_def split_beta split: option.splits if_splits)

lemma serve_put_laws:
  assumes "honest cl"
  shows "honest (snd (serve_put r headers ips cl))"
    and "fake_stored (snd (serve_put r headers ips cl)) =
      (if fst (serve_put r headers ips cl) = None then (fake_stored cl)(resourceKey r \<mapsto> set ips) else fake_stored cl)"
    and "fst (serve_put r headers ips cl) = Some e \<Longrightarrow> IsNotFound e \<Longrightarrow> fake_stored cl (resourceKey r) = None"
  using Client_Put_laws [OF assms, of r ips] Client_PutWithIfMatch_laws [where c = cl and r = r and ips = ips] assms Client_Put_absent [OF assms, of r ips e]
  by (auto simp: serve_put_def split: option.splits if_splits)

lemma store_put:
  assumes i: "store_honest w" and x: "unmarshal_set body = Some x"
  shows "answers_ok (unchanged store_honest store_stored store_listed w)
    (\<lambda>resp w'. store_honest w' \<and> store_stored w' = (store_stored w)(resourceKey r \<mapsto> set (prefixes_of x)) \<and> rs_Header resp ''Location'' = [])
    (store_stored w (resourceKey r) = None) (he_Do store_env (request ''PUT'' (resourceURL store_client r) (Some body) token extra) w)"
proof (cases "r \<in> set (hs_known w)")
  case True
  let ?rq = "request ''PUT'' (resourceURL store_client r) (Some body) token extra"
  have "he_Do store_env ?rq w = (case write_answer (serve_put r (rq_Headers ?rq) (prefixes_of x) (hs_client w)) of (resp, cl) \<Rightarrow> (Inr resp, w\<lparr>hs_client := cl\<rparr>))"
    using True by (simp add: store_do serve_resource serve_set_def x split: prod.splits)
  moreover note write_ok [of "serve_put r (rq_Headers ?rq) (prefixes_of x) (hs_client w)" "(store_stored w)(resourceKey r \<mapsto> set (prefixes_of x))" w
    "store_stored w (resourceKey r) = None"]
  ultimately show ?thesis using serve_put_laws [OF i, of r "rq_Headers ?rq" "prefixes_of x"] by simp
next
  case False
  then show ?thesis using refused_ok(1) [OF i] by (simp add: store_do serve_resource)
qed

lemma store_delete:
  assumes i: "store_honest w"
  shows "answers_ok (unchanged store_honest store_stored store_listed w)
    (\<lambda>resp w'. store_honest w' \<and> store_stored w' = (store_stored w)(resourceKey r := None) \<and> rs_Header resp ''Location'' = [])
    (store_stored w (resourceKey r) = None) (he_Do store_env (request ''DELETE'' (resourceURL store_client r) None token []) w)"
proof (cases "r \<in> set (hs_known w)")
  case True
  let ?rq = "request ''DELETE'' (resourceURL store_client r) None token []"
  have "he_Do store_env ?rq w = (case write_answer (Client_Delete r (hs_client w)) of (resp, cl) \<Rightarrow> (Inr resp, w\<lparr>hs_client := cl\<rparr>))"
    using True by (simp add: store_do serve_resource serve_set_def split: prod.splits)
  then show ?thesis
    using write_ok [of "Client_Delete r (hs_client w)" "(store_stored w)(resourceKey r := None)" w "store_stored w (resourceKey r) = None"]
      Client_Delete_laws [OF i, of r] Client_Delete_absent [OF i, of r] by simp
next
  case False
  then show ?thesis using refused_ok(1) [OF i] by (simp add: store_do serve_resource)
qed

lemma store_page:
  assumes i: "store_honest w"
  shows "answers_ok (unchanged store_honest store_stored store_listed w)
    (\<lambda>resp w'. unchanged store_honest store_stored store_listed w w' \<and> (snd (rs_Body resp) = None \<longrightarrow> shows_page (store_listed w) url (fst (rs_Body resp))))
    True (he_Do store_env (request ''GET'' url None token []) w)"
proof -
  let ?rq = "request ''GET'' url None token []"
  have "serve store_client ?rq w = (answer 400 [], w)" if "\<And>g. url \<noteq> listURL store_client g" and "\<And>r. url \<noteq> resourceURL store_client r"
  proof -
    have "find (\<lambda>r. resourceURL store_client r = url) xs = None" "find (\<lambda>r. listURL store_client (group_of r) = url) xs = None" for xs
      using that [symmetric] by (simp_all add: find_None_iff)
    then show ?thesis by (simp add: serve_def)
  qed
  then consider (listing) g where "url = listURL store_client g" | (resource) r where "url = resourceURL store_client r"
    | (other) "serve store_client ?rq w = (answer 400 [], w)"
    by blast
  then show ?thesis
  proof cases
    case (listing g)
    obtain sub rg asg where g: "g = (sub, rg, asg)" by (cases g)
    obtain y cl where l: "Client_List g (hs_client w) = (y, cl)" by fastforce
    have k: "honest cl" "fake_stored cl = store_stored w" using Client_List_keeps [OF i, of g] l by simp_all
    have "shows_page (store_listed w) url (envelope xs)" if "y = Inr xs" for xs
    proof -
      have "\<exists>x \<in> set xs. aps_Name x = Some n" if "n \<in> store_listed w url" for n
        using that Client_List_complete [of sub rg asg "hs_client w" xs n] l \<open>y = Inr xs\<close> listing g by (auto simp: store_listed_def listURL_eq)
      then show ?thesis by (auto simp: shows_page_def unmarshal_envelope)
    qed
    then show ?thesis using listing l k refused_ok(1) [OF i] fail_ok
      by (cases y) (auto simp: store_do serve_listing serve_group_def answers_ok_def answer_def store_unchanged)
  next
    case (resource r)
    then have "store_listed w url = {}" by (auto simp: store_listed_def listURL_not_resource)
    then have "shows_page (store_listed w) url body" for body by (simp add: shows_page_def)
    moreover note store_get [OF i, of r token]
    ultimately show ?thesis using resource by (auto simp: answers_ok_def split: prod.splits sum.splits)
  next
    case other
    then show ?thesis using refused_ok(1) [OF i] by (simp add: store_do)
  qed
qed

lemma store_quiet: "env_keeps store_env store_client (\<lambda>_. False) Q"
  by (simp add: env_keeps_def store_env_def store_client_def)

lemma store_errors: "honest_errors store_env store_client"
proof -
  have "snd (rs_Body (fst (serve store_client rq w))) = None" for rq w
    by (auto simp: serve_def serve_set_def serve_group_def write_answer_def fail_answer_def answer_def split: option.splits prod.splits sum.splits)
  then show ?thesis by (auto simp: honest_errors_def store_env_def store_client_def split_beta)
qed

lemma store_pages: "pages_end store_env (\<lambda>_. 0)"
proof -
  have "unmarshal_list [] = None" by (simp add: unmarshal_list_def json_parse_def)
  then have "unmarshal_list (fst (rs_Body (fst (serve store_client rq w)))) = Some l \<Longrightarrow> plr_NextLink l = None" for rq w l
    by (auto simp: serve_def serve_set_def serve_group_def write_answer_def fail_answer_def answer_def unmarshal_envelope
        split: option.splits prod.splits sum.splits if_splits)
  then show ?thesis by (auto simp: pages_end_def store_env_def split_beta)
qed

interpretation over_http: arm_service store_env store_client store_honest resourceKey store_stored store_listed "\<lambda>_. 0"
proof
  fix w sub rg asg name
  assume "store_stored w (resourceKey (sub, rg, asg, name)) \<noteq> None"
  then show "\<exists>n \<in> store_listed w (listURL store_client (sub, rg, asg)). EqualFold n name \<and> resourceKey (sub, rg, asg, n) = resourceKey (sub, rg, asg, name)"
    by (intro bexI [of _ name]) (auto simp: store_listed_def EqualFold_def)
qed (rule store_errors store_quiet store_get store_page store_put store_delete store_pages; assumption?)+

section \<open>Properties\<close>




text \<open>A first deployment over HTTP.\<close>

definition http_exec_env :: "http_store fleet exec_env" where
  "http_exec_env = \<lparr>env_ctx = (\<lambda>_. None), env_clock = (\<lambda>_. 0), env_factory = (\<lambda>_. Inr (arm_api store_env store_client)), env_pick = (\<lambda>_. True)\<rparr>"

definition first_store :: "http_store fleet" where
  "first_store = (\<lparr>hs_known = [target_resource (ex_target ''web'')], hs_client = NewClient\<rparr>, \<lambda>_. ([], 0))"

lemma store_request:
  assumes "serve store_client (request verb url body [] extra) (as_world s) = (resp, w)" and "rs_StatusCode resp \<in> {200, 404}"
  shows "\<exists>a. arm_StatusCode a = rs_StatusCode resp \<and> doRequest store_env store_client ctx verb url body extra s =
    (if rs_StatusCode resp = 200 then Inr resp else Inl (ARMError a), s\<lparr>as_world := w\<rparr>)"
proof -
  have a: "attempt_request store_env store_client ctx verb url body extra 1 s =
      (Inl (if rs_StatusCode resp = 200 then Inr resp else Inl (ARMError (ParseARMErrorWithContext store_env resp ctx 1000))), s\<lparr>as_world := w\<rparr>)"
    using assms
    by (auto simp: attempt_request_def rate_limit_def acquireToken_def store_client_def store_env_def DecideRetry_def no_retry_def
        isRetriableStatusCode_def isNetworkError_def as_arm_def Let_def)
  then show ?thesis by (intro exI [of _ "ParseARMErrorWithContext store_env resp ctx 1000"]) (simp add: doRequest_def request_loop.simps)
qed

lemma first_put:
  assumes "r = target_resource (ex_target ''web'')"
  shows "fst (api_Put (arm_api store_env store_client) r ips first_store) = None"
proof -
  let ?s = "\<lparr>as_world = fst first_store, as_cachedToken = [], as_tokenExpiresOn = 0\<rparr>" and ?u = "resourceURL store_client r"
  let ?get = "request ''GET'' ?u None [] []" and ?put = "request ''PUT'' ?u (Some (marshal_put ips)) [] [(''If-None-Match'', ''*'')]"
  have known: "r \<in> set (hs_known (fst first_store))" by (simp add: first_store_def assms)
  obtain w1 where w1: "serve store_client ?get (as_world ?s) = (fail_answer ErrNotFound, w1)" "r \<in> set (hs_known w1)"
    "cl_store (hs_client w1) = []" "cl_injectedErrors (hs_client w1) = []" "cl_Fail412Count (hs_client w1) = 0" "cl_fail412Calls (hs_client w1) = 0"
    using known
    by (simp add: serve_resource serve_set_def Client_Get_def Let_def consumeInjectedError_def first_store_def NewClient_def)
  obtain a where a: "arm_StatusCode a = 404"
    "doRequest store_env store_client (retry_context ARMOperationGetPrefixSet ''GET'' ?u r) ''GET'' ?u None [] ?s = (Inl (ARMError a), ?s\<lparr>as_world := w1\<rparr>)"
    using store_request [OF w1(1), of "retry_context ARMOperationGetPrefixSet ''GET'' ?u r"] by (auto simp: fail_answer_def answer_def)
  then have g: "IsNotFound (Wrapped ''GET AddressPrefixSet'' (ARMError a))"
    "ARM_Get store_env store_client r ?s = (Inl (Wrapped ''GET AddressPrefixSet'' (ARMError a)), ?s\<lparr>as_world := w1\<rparr>)"
    by (simp_all add: ARM_Get_def Let_def)
  obtain w2 where w2: "serve store_client ?put (as_world (?s\<lparr>as_world := w1\<rparr>)) = (answer 200 [], w2)"
    using w1(2-6) by (simp add: serve_resource serve_set_def unmarshal_put request_def serve_put_def PeekPrefixes_def Client_Put_def
        consumeInjectedError_def write_answer_def Let_def)
  have "ARM_Put store_env store_client r ips ?s = Some (None, ?s\<lparr>as_world := w2\<rparr>)"
    using g store_request [OF w2, of "retry_context ARMOperationPutPrefixSet ''PUT'' ?u r"]
    by (auto simp: ARM_Put_def send_put_def Let_def await_operation_def answer_def)
  then show ?thesis by (simp add: arm_api_def on_client_def first_store_def)
qed

lemma first_execute: "\<forall>r \<in> set (fst (Execute (NewExecutor 2) http_exec_env [0] [ex_create] first_store)). ar_Success r"
proof -
  have "eo_err (fst (executeWithETagRetry (NewExecutor 2) (\<lambda>_. None) (arm_api store_env store_client) ex_create first_store)) = None"
    using first_put [OF refl, of "[''a'']"]
    by (auto simp: executeWithETagRetry_def NewExecutor_def numeral_3_eq_3 executeAction_def ex_create_def Let_def split: prod.splits)
  then show ?thesis by (simp add: Execute_def execute_one_def run_action_def http_exec_env_def split_beta Let_def)
qed


end
