(* ===== verification/Config.thy ===== *)
theory Config
  imports Arm_Http
begin

text \<open>
  The configuration (\<open>internal/config/config.go\<close>): the environment variables read at startup, and
  the ARM tuning that may come from mounted files and is read again at run time.

  The process environment, the file system and \<open>strconv.ParseFloat\<close> are parameters. A
  \<open>float64\<close> is a rational number, an infinity or not a number. \<open>strings.TrimSpace\<close> is the ASCII part of Go's.
  The texts of parse errors are not modelled.
\<close>

section \<open>Numbers\<close>

datatype float64 = NaN | PosInf | NegInf | Finite rat

definition float_le_zero :: "float64 \<Rightarrow> bool" where
  "float_le_zero v = (case v of NaN \<Rightarrow> False | PosInf \<Rightarrow> False | NegInf \<Rightarrow> True | Finite q \<Rightarrow> q \<le> 0)"

definition float_eq :: "float64 \<Rightarrow> float64 \<Rightarrow> bool" where
  "float_eq a b \<longleftrightarrow> a = b \<and> a \<noteq> NaN"

definition atoi_error :: goerror where
  "atoi_error = OtherError ''strconv.Atoi''"

definition trim_byte :: "char \<Rightarrow> bool" where
  "trim_byte c \<longleftrightarrow> (of_char c :: nat) \<in> {9, 10, 11, 12, 13, 32}"

definition TrimSpace :: "string \<Rightarrow> string" where
  "TrimSpace s = rev (dropWhile trim_byte (rev (dropWhile trim_byte s)))"

section \<open>Startup\<close>

record config_env =
  ce_Getenv :: "string \<Rightarrow> string"
  ce_ReadFile :: "string \<Rightarrow> goerror + string"
  ce_IsNotExist :: "goerror \<Rightarrow> bool"
  ce_ParseFloat :: "string \<Rightarrow> goerror + float64"
  ce_Format :: "float64 \<Rightarrow> string"

record Config =
  cfg_SubscriptionID :: string
  cfg_ResourceGroup :: string
  cfg_ClusterName :: string
  cfg_ResyncInterval :: duration
  cfg_ARMRateLimitRPS :: float64
  cfg_MaxConcurrentActions :: int
  cfg_MaxConcurrentReconciles :: int
  cfg_MaxConcurrentAzureReads :: int
  cfg_MinReconcileIntervalMs :: int
  cfg_PatchThresholdPercent :: int

record ARMTuningConfig =
  atc_ARMRateLimitRPS :: float64
  atc_MaxConcurrentActions :: int

definition ARMTuningDefaults :: ARMTuningConfig where
  "ARMTuningDefaults = \<lparr>atc_ARMRateLimitRPS = Finite 20, atc_MaxConcurrentActions = 10\<rparr>"

definition validateARMRateLimitRPS :: "config_env \<Rightarrow> string \<Rightarrow> float64 \<Rightarrow> goerror option" where
  "validateARMRateLimitRPS env field v =
     (if float_le_zero v \<or> v = NaN \<or> v = PosInf \<or> v = NegInf
      then Some (OtherError (field @ '' must be a finite number > 0, got '' @ ce_Format env v)) else None)"

definition validateMaxConcurrentActions :: "string \<Rightarrow> int \<Rightarrow> goerror option" where
  "validateMaxConcurrentActions field v =
     (if v < 1 then Some (OtherError (field @ '' must be >= 1, got '' @ show_int v)) else None)"

text \<open>A value that is parsed and validated; \<open>field\<close> names it in errors.\<close>

definition parse_rps :: "config_env \<Rightarrow> string \<Rightarrow> string \<Rightarrow> goerror + float64" where
  "parse_rps env field s =
     (case ce_ParseFloat env s of
        Inl err \<Rightarrow> Inl (Wrapped (field @ '' must be a valid number'') err)
      | Inr v \<Rightarrow> (case validateARMRateLimitRPS env field v of Some err \<Rightarrow> Inl err | None \<Rightarrow> Inr v))"

definition parse_int :: "string \<Rightarrow> (int \<Rightarrow> goerror option) \<Rightarrow> string \<Rightarrow> goerror + int" where
  "parse_int field check s =
     (case Atoi s of
        None \<Rightarrow> Inl (Wrapped (field @ '' must be a valid integer'') atoi_error)
      | Some v \<Rightarrow> (case check v of Some err \<Rightarrow> Inl err | None \<Rightarrow> Inr v))"

definition env_rps :: "config_env \<Rightarrow> goerror + float64" where
  "env_rps env = (let s = ce_Getenv env ''ARM_RATE_LIMIT_RPS'' in
     if s = [] then Inr (atc_ARMRateLimitRPS ARMTuningDefaults) else parse_rps env ''ARM_RATE_LIMIT_RPS'' s)"

definition env_int :: "config_env \<Rightarrow> string \<Rightarrow> int \<Rightarrow> (int \<Rightarrow> goerror option) \<Rightarrow> goerror + int" where
  "env_int env field def check = (let s = ce_Getenv env field in if s = [] then Inr def else parse_int field check s)"

definition at_least :: "int \<Rightarrow> string \<Rightarrow> int \<Rightarrow> goerror option" where
  "at_least low field v = (if v < low then Some (OtherError (field @ '' must be >= '' @ show_int low @ '', got '' @ show_int v)) else None)"

definition percent :: "string \<Rightarrow> int \<Rightarrow> goerror option" where
  "percent field v = (if v < 1 \<or> v > 100 then Some (OtherError (field @ '' must be between 1 and 100, got '' @ show_int v)) else None)"

definition Validate :: "Config \<Rightarrow> goerror option" where
  "Validate c =
     (if cfg_ClusterName c = [] then Some (OtherError ''CLUSTER_NAME is required'')
      else if cfg_ClusterName c \<noteq> ToLower (cfg_ClusterName c)
        then Some (OtherError ''CLUSTER_NAME must be lowercase to avoid Azure ownership collisions'')
      else None)"

definition ebind :: "'e + 'a \<Rightarrow> ('a \<Rightarrow> 'e + 'b) \<Rightarrow> 'e + 'b" where
  "ebind x f = (case x of Inl e \<Rightarrow> Inl e | Inr a \<Rightarrow> f a)"

text \<open>\<open>LoadARMTuningFromEnv\<close> repeats code of \<open>Load\<close> and of \<open>LoadARMTuningConfig\<close>.\<close>

definition LoadARMTuningFromEnv :: "config_env \<Rightarrow> goerror + ARMTuningConfig" where
  "LoadARMTuningFromEnv env =
     ebind (env_rps env) (\<lambda>rps.
     ebind (env_int env ''MAX_CONCURRENT_ACTIONS'' (atc_MaxConcurrentActions ARMTuningDefaults)
             (validateMaxConcurrentActions ''MAX_CONCURRENT_ACTIONS'')) (\<lambda>conc.
     Inr \<lparr>atc_ARMRateLimitRPS = rps, atc_MaxConcurrentActions = conc\<rparr>))"

definition Load :: "config_env \<Rightarrow> goerror + Config" where
  "Load env =
     ebind (env_int env ''RESYNC_INTERVAL_SECONDS'' 60 (at_least 1 ''RESYNC_INTERVAL_SECONDS'')) (\<lambda>resync.
     ebind (if ce_Getenv env ''ARM_TUNING_DIR'' \<noteq> [] then Inr ARMTuningDefaults else LoadARMTuningFromEnv env) (\<lambda>tuning.
     ebind (env_int env ''MAX_CONCURRENT_RECONCILES'' 5 (at_least 1 ''MAX_CONCURRENT_RECONCILES'')) (\<lambda>reconciles.
     ebind (env_int env ''MAX_CONCURRENT_AZURE_READS'' 10 (at_least 1 ''MAX_CONCURRENT_AZURE_READS'')) (\<lambda>reads.
     ebind (env_int env ''MIN_RECONCILE_INTERVAL_MS'' 2000 (at_least 0 ''MIN_RECONCILE_INTERVAL_MS'')) (\<lambda>minInterval.
     ebind (env_int env ''POD_NSG_PATCH_THRESHOLD_PERCENT'' 50 (percent ''POD_NSG_PATCH_THRESHOLD_PERCENT'')) (\<lambda>threshold.
       let cfg = \<lparr>cfg_SubscriptionID = ce_Getenv env ''AZURE_SUBSCRIPTION_ID'', cfg_ResourceGroup = ce_Getenv env ''AZURE_RESOURCE_GROUP'',
                  cfg_ClusterName = ce_Getenv env ''CLUSTER_NAME'', cfg_ResyncInterval = wrap_duration (resync * second),
                  cfg_ARMRateLimitRPS = atc_ARMRateLimitRPS tuning, cfg_MaxConcurrentActions = atc_MaxConcurrentActions tuning,
                  cfg_MaxConcurrentReconciles = reconciles, cfg_MaxConcurrentAzureReads = reads,
                  cfg_MinReconcileIntervalMs = minInterval, cfg_PatchThresholdPercent = threshold\<rparr>
       in (case Validate cfg of Some err \<Rightarrow> Inl err | None \<Rightarrow> Inr cfg)))))))"

section \<open>ARM tuning from files\<close>

definition ErrTuningFilesAbsent :: goerror where
  "ErrTuningFilesAbsent = OtherError ''ARM tuning files absent''"

definition tuning_file :: "config_env \<Rightarrow> string \<Rightarrow> goerror + string" where
  "tuning_file env field = ce_ReadFile env (ce_Getenv env ''ARM_TUNING_DIR'' @ ''/'' @ field)"

definition file_rps :: "config_env \<Rightarrow> string \<Rightarrow> goerror + float64" where
  "file_rps env bytes = parse_rps env ''ARM_TUNING_DIR/ARM_RATE_LIMIT_RPS'' (TrimSpace bytes)"

definition file_conc :: "string \<Rightarrow> goerror + int" where
  "file_conc bytes = parse_int ''ARM_TUNING_DIR/MAX_CONCURRENT_ACTIONS''
     (validateMaxConcurrentActions ''ARM_TUNING_DIR/MAX_CONCURRENT_ACTIONS'') (TrimSpace bytes)"

definition LoadARMTuningConfig :: "config_env \<Rightarrow> goerror + ARMTuningConfig" where
  "LoadARMTuningConfig env =
     (if ce_Getenv env ''ARM_TUNING_DIR'' \<noteq> [] then
        (case (tuning_file env ''ARM_RATE_LIMIT_RPS'', tuning_file env ''MAX_CONCURRENT_ACTIONS'') of
           (Inr rpsBytes, Inr concBytes) \<Rightarrow>
             ebind (file_rps env rpsBytes) (\<lambda>rps. ebind (file_conc concBytes) (\<lambda>conc.
               Inr \<lparr>atc_ARMRateLimitRPS = rps, atc_MaxConcurrentActions = conc\<rparr>))
         | (Inl rpsErr, Inr _) \<Rightarrow> Inl (Wrapped ''ARM_TUNING_DIR/ARM_RATE_LIMIT_RPS'' rpsErr)
         | (Inr _, Inl concErr) \<Rightarrow> Inl (Wrapped ''ARM_TUNING_DIR/MAX_CONCURRENT_ACTIONS'' concErr)
         | (Inl rpsErr, Inl concErr) \<Rightarrow>
             if ce_IsNotExist env rpsErr \<and> ce_IsNotExist env concErr then Inl ErrTuningFilesAbsent
             else Inl (Wrapped ''ARM_TUNING_DIR: unable to read tuning files'' rpsErr))
      else LoadARMTuningFromEnv env)"

record ARMTuningReloadResult =
  trr_ARMRateLimitRPS :: "float64 option"
  trr_MaxConcurrentActions :: "int option"
  trr_ARMRateLimitRPSError :: "goerror option"
  trr_MaxConcurrentActionsErr :: "goerror option"
  trr_FilesAbsent :: bool
  trr_NotConfigured :: bool

definition no_tuning :: ARMTuningReloadResult where
  "no_tuning = \<lparr>trr_ARMRateLimitRPS = None, trr_MaxConcurrentActions = None, trr_ARMRateLimitRPSError = None,
     trr_MaxConcurrentActionsErr = None, trr_FilesAbsent = False, trr_NotConfigured = False\<rparr>"

definition LoadARMTuningForReload :: "config_env \<Rightarrow> ARMTuningReloadResult" where
  "LoadARMTuningForReload env =
     (if ce_Getenv env ''ARM_TUNING_DIR'' = [] then no_tuning\<lparr>trr_NotConfigured := True\<rparr>
      else
        (let rps = tuning_file env ''ARM_RATE_LIMIT_RPS'';
             conc = tuning_file env ''MAX_CONCURRENT_ACTIONS'';
             rpsRead = (\<lambda>err. Wrapped ''ARM_TUNING_DIR/ARM_RATE_LIMIT_RPS'' err);
             concRead = (\<lambda>err. Wrapped ''ARM_TUNING_DIR/MAX_CONCURRENT_ACTIONS'' err)
         in (case (rps, conc) of
               (Inl rpsErr, Inl concErr) \<Rightarrow>
                 if ce_IsNotExist env rpsErr \<and> ce_IsNotExist env concErr then no_tuning\<lparr>trr_FilesAbsent := True\<rparr>
                 else no_tuning\<lparr>trr_ARMRateLimitRPSError := Some (rpsRead rpsErr), trr_MaxConcurrentActionsErr := Some (concRead concErr)\<rparr>
             | _ \<Rightarrow>
                 (let result = (case (case rps of Inl err \<Rightarrow> Inl (rpsRead err) | Inr bytes \<Rightarrow> file_rps env bytes) of
                          Inl err \<Rightarrow> no_tuning\<lparr>trr_ARMRateLimitRPSError := Some err\<rparr>
                        | Inr v \<Rightarrow> no_tuning\<lparr>trr_ARMRateLimitRPS := Some v\<rparr>)
                  in (case (case conc of Inl err \<Rightarrow> Inl (concRead err) | Inr bytes \<Rightarrow> file_conc bytes) of
                        Inl err \<Rightarrow> result\<lparr>trr_MaxConcurrentActionsErr := Some err\<rparr>
                      | Inr v \<Rightarrow> result\<lparr>trr_MaxConcurrentActions := Some v\<rparr>)))))"

text \<open>The tuning \<open>main\<close> starts with: absent files are no error at startup.\<close>

definition startup_tuning :: "config_env \<Rightarrow> goerror + ARMTuningConfig" where
  "startup_tuning env =
     (case LoadARMTuningConfig env of
        Inr t \<Rightarrow> Inr t
      | Inl err \<Rightarrow> if errors_Is err ErrTuningFilesAbsent then LoadARMTuningFromEnv env else Inl err)"

section \<open>Lemmas\<close>

definition valid_rps :: "float64 \<Rightarrow> bool" where
  "valid_rps v \<longleftrightarrow> (case v of Finite q \<Rightarrow> q > 0 | _ \<Rightarrow> False)"

definition valid_tuning :: "ARMTuningConfig \<Rightarrow> bool" where
  "valid_tuning t \<longleftrightarrow> valid_rps (atc_ARMRateLimitRPS t) \<and> 1 \<le> atc_MaxConcurrentActions t"

lemma ebind_Inr [simp]: "ebind x f = Inr z \<longleftrightarrow> (\<exists>a. x = Inr a \<and> f a = Inr z)"
  by (auto simp: ebind_def split: sum.splits)

lemma valid_defaults: "valid_tuning ARMTuningDefaults"
  by (simp add: valid_tuning_def ARMTuningDefaults_def valid_rps_def)

lemma parse_rps_valid: "parse_rps env field s = Inr v \<Longrightarrow> valid_rps v"
  by (auto simp: parse_rps_def validateARMRateLimitRPS_def float_le_zero_def valid_rps_def split: sum.splits option.splits float64.splits if_splits)

lemma Atoi_range: "Atoi s = Some n \<Longrightarrow> - (2 ^ 63) \<le> n \<and> n < 2 ^ 63"
  by (auto simp: Atoi_def split: option.splits if_splits list.splits)

lemma parse_int_valid: "parse_int field check s = Inr n \<Longrightarrow> check n = None \<and> n < 2 ^ 63"
  using Atoi_range [of s n] by (auto simp: parse_int_def split: option.splits)

lemma env_rps_valid: "env_rps env = Inr v \<Longrightarrow> valid_rps v"
  using valid_defaults by (auto simp: env_rps_def Let_def valid_tuning_def dest: parse_rps_valid split: if_splits)

lemma env_int_valid: "env_int env field d check = Inr n \<Longrightarrow> n = d \<or> check n = None \<and> n < 2 ^ 63"
  by (auto simp: env_int_def Let_def dest: parse_int_valid split: if_splits)

lemma at_least_ok [simp]: "at_least low field v = None \<longleftrightarrow> low \<le> v"
  by (auto simp: at_least_def)

lemma percent_ok [simp]: "percent field v = None \<longleftrightarrow> 1 \<le> v \<and> v \<le> 100"
  by (auto simp: percent_def)

lemma concurrency_ok [simp]: "validateMaxConcurrentActions field v = None \<longleftrightarrow> 1 \<le> v"
  by (auto simp: validateMaxConcurrentActions_def)

lemma env_tuning_valid: "LoadARMTuningFromEnv env = Inr t \<Longrightarrow> valid_tuning t"
  using valid_defaults by (auto simp: LoadARMTuningFromEnv_def valid_tuning_def dest: env_rps_valid env_int_valid)

lemma file_rps_valid: "file_rps env bytes = Inr v \<Longrightarrow> valid_rps v"
  by (auto simp: file_rps_def dest: parse_rps_valid)

lemma file_conc_valid: "file_conc bytes = Inr n \<Longrightarrow> 1 \<le> n"
  by (auto simp: file_conc_def dest: parse_int_valid)

lemma tuning_valid: "LoadARMTuningConfig env = Inr t \<Longrightarrow> valid_tuning t"
  by (auto simp: LoadARMTuningConfig_def valid_tuning_def [of "\<lparr>atc_ARMRateLimitRPS = _, atc_MaxConcurrentActions = _\<rparr>"]
      dest: env_tuning_valid file_rps_valid file_conc_valid split: if_splits sum.splits)

lemma startup_valid: "startup_tuning env = Inr t \<Longrightarrow> valid_tuning t"
  by (auto simp: startup_tuning_def dest: tuning_valid env_tuning_valid split: sum.splits if_splits)

lemma wrap_duration_id: "- (2 ^ 63) \<le> d \<Longrightarrow> d < 2 ^ 63 \<Longrightarrow> wrap_duration d = d"
  by (simp add: wrap_duration_def)

lemma Load_bounds:
  assumes "Load env = Inr cfg"
  shows "cfg_ClusterName cfg \<noteq> [] \<and> ToLower (cfg_ClusterName cfg) = cfg_ClusterName cfg \<and>
    valid_rps (cfg_ARMRateLimitRPS cfg) \<and> 1 \<le> cfg_MaxConcurrentActions cfg \<and>
    1 \<le> cfg_MaxConcurrentReconciles cfg \<and> 1 \<le> cfg_MaxConcurrentAzureReads cfg \<and> 0 \<le> cfg_MinReconcileIntervalMs cfg \<and>
    1 \<le> cfg_PatchThresholdPercent cfg \<and> cfg_PatchThresholdPercent cfg \<le> 100 \<and>
    (\<exists>n. 1 \<le> n \<and> n < 2 ^ 63 \<and> cfg_ResyncInterval cfg = wrap_duration (n * second) \<and>
       (n \<le> 9223372036 \<longrightarrow> cfg_ResyncInterval cfg = n * second))"
proof -
  obtain resync tuning reconciles reads minInterval threshold where
    r: "env_int env ''RESYNC_INTERVAL_SECONDS'' 60 (at_least 1 ''RESYNC_INTERVAL_SECONDS'') = Inr resync"
    and t: "(if ce_Getenv env ''ARM_TUNING_DIR'' \<noteq> [] then Inr ARMTuningDefaults else LoadARMTuningFromEnv env) = Inr tuning"
    and w: "env_int env ''MAX_CONCURRENT_RECONCILES'' 5 (at_least 1 ''MAX_CONCURRENT_RECONCILES'') = Inr reconciles"
    and a: "env_int env ''MAX_CONCURRENT_AZURE_READS'' 10 (at_least 1 ''MAX_CONCURRENT_AZURE_READS'') = Inr reads"
    and m: "env_int env ''MIN_RECONCILE_INTERVAL_MS'' 2000 (at_least 0 ''MIN_RECONCILE_INTERVAL_MS'') = Inr minInterval"
    and p: "env_int env ''POD_NSG_PATCH_THRESHOLD_PERCENT'' 50 (percent ''POD_NSG_PATCH_THRESHOLD_PERCENT'') = Inr threshold"
    and v: "Validate cfg = None"
    and cfg: "cfg = \<lparr>cfg_SubscriptionID = ce_Getenv env ''AZURE_SUBSCRIPTION_ID'', cfg_ResourceGroup = ce_Getenv env ''AZURE_RESOURCE_GROUP'',
                  cfg_ClusterName = ce_Getenv env ''CLUSTER_NAME'', cfg_ResyncInterval = wrap_duration (resync * second),
                  cfg_ARMRateLimitRPS = atc_ARMRateLimitRPS tuning, cfg_MaxConcurrentActions = atc_MaxConcurrentActions tuning,
                  cfg_MaxConcurrentReconciles = reconciles, cfg_MaxConcurrentAzureReads = reads,
                  cfg_MinReconcileIntervalMs = minInterval, cfg_PatchThresholdPercent = threshold\<rparr>"
    using assms unfolding Load_def Let_def ebind_Inr by (auto split: option.splits)
  have "valid_tuning tuning" using t valid_defaults by (auto dest: env_tuning_valid split: if_splits)
  moreover have n: "1 \<le> resync" "resync < 2 ^ 63" using env_int_valid [OF r] by auto
  moreover have "wrap_duration (resync * second) = resync * second" if "resync \<le> 9223372036"
    using that n(1) by (intro wrap_duration_id) (simp_all add: second_def)
  ultimately show ?thesis
    using v env_int_valid [OF w] env_int_valid [OF a] env_int_valid [OF m] env_int_valid [OF p]
    by (auto simp: cfg Validate_def valid_tuning_def split: if_splits)
qed

text \<open>C35: a configuration that \<open>Load\<close> accepts satisfies every bound the rest of the program takes for
  granted: a nonempty lower-case cluster name (so that ownership keys cannot differ in case only), a finite positive rate,
  at least one worker, reader and parallel action, a threshold that is a percentage; and the resync interval is
  positive as long as its seconds fit into a \<open>time.Duration\<close>.\<close>

theorem config_well_formed:
  assumes "Load env = Inr cfg"
  shows "cfg_ClusterName cfg \<noteq> [] \<and> ToLower (cfg_ClusterName cfg) = cfg_ClusterName cfg \<and>
    valid_rps (cfg_ARMRateLimitRPS cfg) \<and> 1 \<le> cfg_MaxConcurrentActions cfg \<and>
    1 \<le> cfg_MaxConcurrentReconciles cfg \<and> 1 \<le> cfg_MaxConcurrentAzureReads cfg \<and> 0 \<le> cfg_MinReconcileIntervalMs cfg \<and>
    1 \<le> cfg_PatchThresholdPercent cfg \<and> cfg_PatchThresholdPercent cfg \<le> 100 \<and>
    (\<exists>n. 1 \<le> n \<and> n < 2 ^ 63 \<and> cfg_ResyncInterval cfg = wrap_duration (n * second) \<and>
       (n \<le> 9223372036 \<longrightarrow> cfg_ResyncInterval cfg = n * second))"
  by (rule Load_bounds [OF assms])

text \<open>An environment with only a cluster name and a resync interval.\<close>

definition env_with :: "string \<Rightarrow> config_env" where
  "env_with seconds =
     \<lparr>ce_Getenv = (\<lambda>v. if v = ''CLUSTER_NAME'' then ''c1'' else if v = ''RESYNC_INTERVAL_SECONDS'' then seconds else []),
      ce_ReadFile = (\<lambda>_. Inl (OtherError ''no file'')), ce_IsNotExist = (\<lambda>_. True), ce_ParseFloat = (\<lambda>_. Inl (OtherError ''syntax'')),
      ce_Format = (\<lambda>_. [])\<rparr>"

theorem config_well_formed_witness:
  "\<exists>cfg. Load (env_with ''120'') = Inr cfg \<and> cfg_ResyncInterval cfg = 120 * second \<and> cfg_ClusterName cfg = ''c1'' \<and>
     valid_rps (cfg_ARMRateLimitRPS cfg) \<and> 1 \<le> cfg_MaxConcurrentActions cfg"
proof -
  have a: "Atoi ''120'' = Some 120" by (simp add: Atoi_def parse_decimal_def digits_value_def json_digit_def)
  have l: "ToLower ''c1'' = ''c1''" by code_simp
  obtain cfg where c: "Load (env_with ''120'') = Inr cfg" "cfg_ResyncInterval cfg = 120 * second" "cfg_ClusterName cfg = ''c1''"
    by (simp add: Load_def env_with_def env_int_def parse_int_def a l LoadARMTuningFromEnv_def env_rps_def ARMTuningDefaults_def
        ebind_def Validate_def wrap_duration_def second_def at_least_def)
  with config_well_formed [OF c(1)] show ?thesis by blast
qed

text \<open>A resync interval of more than 292 years wraps around: it is accepted and negative.\<close>

lemma resync_interval_overflows: "\<exists>cfg. Load (env_with ''9223372037'') = Inr cfg \<and> cfg_ResyncInterval cfg < 0"
proof -
  have a: "Atoi ''9223372037'' = Some 9223372037" by (simp add: Atoi_def parse_decimal_def digits_value_def json_digit_def)
  have l: "ToLower ''c1'' = ''c1''" by code_simp
  show ?thesis
    by (simp add: Load_def env_with_def env_int_def parse_int_def a l LoadARMTuningFromEnv_def env_rps_def ARMTuningDefaults_def
        ebind_def Validate_def wrap_duration_def second_def at_least_def)
qed

text \<open>reading the tuning at startup and reading it again at run time agree: startup accepts the
  files exactly when the reload has both values and no error, with the same values; each value a reload
  applies is valid, and a field has a value or an error, never both.\<close>

theorem reload_agrees_with_load:
  assumes "ce_Getenv env ''ARM_TUNING_DIR'' \<noteq> []"
  shows "(LoadARMTuningConfig env = Inr t \<longleftrightarrow>
      LoadARMTuningForReload env = no_tuning\<lparr>trr_ARMRateLimitRPS := Some (atc_ARMRateLimitRPS t),
        trr_MaxConcurrentActions := Some (atc_MaxConcurrentActions t)\<rparr>) \<and>
    (let result = LoadARMTuningForReload env in
      (trr_FilesAbsent result \<or> (trr_ARMRateLimitRPS result = None) \<noteq> (trr_ARMRateLimitRPSError result = None) \<and>
         (trr_MaxConcurrentActions result = None) \<noteq> (trr_MaxConcurrentActionsErr result = None)) \<and>
      (\<forall>v. trr_ARMRateLimitRPS result = Some v \<longrightarrow> valid_rps v) \<and> (\<forall>n. trr_MaxConcurrentActions result = Some n \<longrightarrow> 1 \<le> n))"
proof (cases "tuning_file env ''ARM_RATE_LIMIT_RPS''")
  case rps: (Inl rpsErr)
  show ?thesis
    by (cases "tuning_file env ''MAX_CONCURRENT_ACTIONS''"; cases t)
      (auto simp: LoadARMTuningConfig_def LoadARMTuningForReload_def rps assms no_tuning_def Let_def dest: file_conc_valid split: sum.splits)
next
  case rps: (Inr rpsBytes)
  show ?thesis
    by (cases "tuning_file env ''MAX_CONCURRENT_ACTIONS''"; cases "file_rps env rpsBytes"; cases t)
      (auto simp: LoadARMTuningConfig_def LoadARMTuningForReload_def rps assms no_tuning_def Let_def dest: file_conc_valid file_rps_valid
        split: sum.splits)
qed

text \<open>A mounted rate that is valid beside a concurrency that is not.\<close>

definition env_files :: config_env where
  "env_files =
     \<lparr>ce_Getenv = (\<lambda>v. if v = ''ARM_TUNING_DIR'' then ''/t'' else []),
      ce_ReadFile = (\<lambda>f. Inr (if f = ''/t/ARM_RATE_LIMIT_RPS'' then ''5'' else '' 0'')), ce_IsNotExist = (\<lambda>_. True),
      ce_ParseFloat = (\<lambda>_. Inr (Finite 5)), ce_Format = (\<lambda>_. [])\<rparr>"

theorem reload_agrees_with_load_witness:
  "ce_Getenv env_files ''ARM_TUNING_DIR'' \<noteq> [] \<and> trr_ARMRateLimitRPS (LoadARMTuningForReload env_files) = Some (Finite 5) \<and>
   trr_MaxConcurrentActionsErr (LoadARMTuningForReload env_files) \<noteq> None \<and> (\<exists>e. LoadARMTuningConfig env_files = Inl e)"
proof -
  have z: "file_conc '' 0'' = Inl (OtherError (''ARM_TUNING_DIR/MAX_CONCURRENT_ACTIONS must be >= 1, got '' @ show_int 0))"
    by (simp add: file_conc_def parse_int_def TrimSpace_def trim_byte_def Atoi_def parse_decimal_def digits_value_def json_digit_def
        validateMaxConcurrentActions_def)
  have d: "ce_Getenv env_files ''ARM_TUNING_DIR'' \<noteq> []" by (simp add: env_files_def)
  have r: "trr_ARMRateLimitRPS (LoadARMTuningForReload env_files) = Some (Finite 5)" "trr_MaxConcurrentActions (LoadARMTuningForReload env_files) = None"
    by (simp_all add: LoadARMTuningForReload_def env_files_def tuning_file_def file_rps_def parse_rps_def validateARMRateLimitRPS_def
        float_le_zero_def z no_tuning_def Let_def)
  from reload_agrees_with_load [OF d] r d show ?thesis
    by (cases "LoadARMTuningConfig env_files") (auto simp: Let_def no_tuning_def LoadARMTuningForReload_def env_files_def tuning_file_def
        file_rps_def parse_rps_def validateARMRateLimitRPS_def float_le_zero_def z)
qed

end
