(* ===== verification/Rate_Limit.thy ===== *)
theory Rate_Limit
  imports Config
begin

text \<open>
  The rate limiter of ARM calls (\<open>internal/azure/ratelimit.go\<close>): one token bucket per
  subscription, kept in a map that is emptied when it is full.

  The buckets are those of \<open>golang.org/x/time/rate\<close>, a parameter. A bucket is shared by pointer: a call
  holds on to its bucket while the map may lose it, so the map has addresses and the buckets are in a heap.
  \<open>int(f)\<close> of a \<open>float64\<close> outside of 64 bits is left to the implementation in Go, the
  parameter \<open>conv\<close>; sums of floats are exact, as they are for rates below \<open>2^53\<close>. \<open>Wait\<close> reads the map, reserves,
  and sleeps in one step.
\<close>

section \<open>Buckets and the clock\<close>

record ('l, 'r) rate_api =
  ra_NewLimiter :: "float64 \<Rightarrow> int \<Rightarrow> 'l"
  ra_ReserveN :: "'l \<Rightarrow> gotime \<Rightarrow> int \<Rightarrow> 'r \<times> 'l"
  ra_OK :: "'r \<Rightarrow> bool"
  ra_DelayFrom :: "'r \<Rightarrow> gotime \<Rightarrow> duration"
  ra_CancelAt :: "'r \<Rightarrow> gotime \<Rightarrow> 'l \<Rightarrow> 'l"
  ra_SetLimit :: "gotime \<Rightarrow> float64 \<Rightarrow> 'l \<Rightarrow> 'l"
  ra_SetBurst :: "gotime \<Rightarrow> int \<Rightarrow> 'l \<Rightarrow> 'l"
  ra_InfDuration :: duration

record 'w RateLimitClock =
  rlc_Now :: "'w \<Rightarrow> gotime"
  rlc_Sleep :: "duration \<Rightarrow> 'w \<Rightarrow> goerror option \<times> 'w"

record 'l ARMRateLimiter =
  arl_rps :: float64
  arl_burst :: int
  arl_maxSubs :: int
  arl_limiters :: "(string, nat) gomap"
  arl_heap :: "nat \<Rightarrow> 'l"
  arl_fresh :: nat

definition ErrRateLimitReservationDenied :: goerror where
  "ErrRateLimitReservationDenied = OtherError ''rate limit reservation denied''"

definition ErrRateLimitInfiniteDelay :: goerror where
  "ErrRateLimitInfiniteDelay = OtherError ''rate limit reservation returned infinite delay''"

definition maxSubscriptionLimiters :: int where
  "maxSubscriptionLimiters = 4096"

section \<open>Operations\<close>

definition float_int :: "(float64 \<Rightarrow> int) \<Rightarrow> float64 \<Rightarrow> int" where
  "float_int conv v =
     (case v of
        Finite q \<Rightarrow> let n = (if q < 0 then \<lceil>q\<rceil> else \<lfloor>q\<rfloor>) in if - (2 ^ 63) \<le> n \<and> n < 2 ^ 63 then n else conv v
      | _ \<Rightarrow> conv v)"

definition ceil :: "(float64 \<Rightarrow> int) \<Rightarrow> float64 \<Rightarrow> float64" where
  "ceil conv f =
     (if float_le_zero f then Finite 0
      else
        (let i = of_int (float_int conv f)
         in if (case f of Finite q \<Rightarrow> q > i | PosInf \<Rightarrow> True | _ \<Rightarrow> False) then Finite (i + 1) else Finite i))"

definition burst_of :: "(float64 \<Rightarrow> int) \<Rightarrow> float64 \<Rightarrow> int" where
  "burst_of conv rps = max 1 (float_int conv (ceil conv rps))"

text \<open>\<open>NewARMRateLimiter\<close>; \<open>WithMaxSubscriptions\<close> is the one option that changes the behaviour.\<close>

definition NewARMRateLimiter :: "(float64 \<Rightarrow> int) \<Rightarrow> float64 \<Rightarrow> 'l ARMRateLimiter" where
  "NewARMRateLimiter conv rps =
     \<lparr>arl_rps = rps, arl_burst = (if float_le_zero rps then 0 else burst_of conv rps), arl_maxSubs = maxSubscriptionLimiters,
      arl_limiters = [], arl_heap = (\<lambda>_. undefined), arl_fresh = 0\<rparr>"

definition WithMaxSubscriptions :: "int \<Rightarrow> 'l ARMRateLimiter \<Rightarrow> 'l ARMRateLimiter" where
  "WithMaxSubscriptions n l = (if n > 0 then l\<lparr>arl_maxSubs := n\<rparr> else l)"

definition getLimiter :: "('l, 'r) rate_api \<Rightarrow> string \<Rightarrow> 'l ARMRateLimiter \<Rightarrow> nat \<times> 'l ARMRateLimiter" where
  "getLimiter api sub l =
     (case gget (arl_limiters l) sub of
        Some ref \<Rightarrow> (ref, l)
      | None \<Rightarrow>
          (let l = (if int (length (arl_limiters l)) \<ge> arl_maxSubs l then l\<lparr>arl_limiters := []\<rparr> else l);
               ref = arl_fresh l
           in (ref, l\<lparr>arl_limiters := gput sub ref (arl_limiters l),
                      arl_heap := (arl_heap l)(ref := ra_NewLimiter api (arl_rps l) (arl_burst l)), arl_fresh := Suc ref\<rparr>)))"

definition cancel :: "('l, 'r) rate_api \<Rightarrow> 'r \<Rightarrow> gotime \<Rightarrow> nat \<Rightarrow> 'l ARMRateLimiter \<Rightarrow> 'l ARMRateLimiter" where
  "cancel api reservation t ref l = l\<lparr>arl_heap := (arl_heap l)(ref := ra_CancelAt api reservation t (arl_heap l ref))\<rparr>"

definition Wait :: "('l, 'r) rate_api \<Rightarrow> 'w RateLimitClock \<Rightarrow> string \<Rightarrow> 'l ARMRateLimiter \<times> 'w \<Rightarrow> goerror option \<times> 'l ARMRateLimiter \<times> 'w" where
  "Wait api clock sub s =
     (case s of (l, w) \<Rightarrow>
        (case getLimiter api sub l of (ref, l) \<Rightarrow>
           (let t = rlc_Now clock w in
            case ra_ReserveN api (arl_heap l ref) t 1 of (reservation, bucket) \<Rightarrow>
              (let l = l\<lparr>arl_heap := (arl_heap l)(ref := bucket)\<rparr>;
                   delay = ra_DelayFrom api reservation t
               in if \<not> ra_OK api reservation then (Some ErrRateLimitReservationDenied, l, w)
                  else if delay \<ge> ra_InfDuration api then (Some ErrRateLimitInfiniteDelay, cancel api reservation t ref l, w)
                  else if delay \<le> 0 then (None, l, w)
                  else (case rlc_Sleep clock delay w of
                          (Some err, w) \<Rightarrow> (Some err, cancel api reservation (rlc_Now clock w) ref l, w)
                        | (None, w) \<Rightarrow> (None, l, w))))))"

text \<open>\<open>t\<close> is the time at which the buckets learn of the change; \<open>fmt\<close> is \<open>%v\<close>.\<close>

definition SetRPS :: "('l, 'r) rate_api \<Rightarrow> (float64 \<Rightarrow> int) \<Rightarrow> (float64 \<Rightarrow> string) \<Rightarrow> gotime \<Rightarrow> float64 \<Rightarrow> 'l ARMRateLimiter \<Rightarrow>
    goerror option \<times> 'l ARMRateLimiter" where
  "SetRPS api conv fmt t rps l =
     (if float_le_zero rps \<or> rps = NaN \<or> rps = PosInf \<or> rps = NegInf
      then (Some (OtherError (''SetRPS: rps must be a finite number > 0, got '' @ fmt rps)), l)
      else
        (let newBurst = burst_of conv rps in
         (None, l\<lparr>arl_rps := rps, arl_burst := newBurst,
            arl_heap := fold (\<lambda>(sub, ref) h. h(ref := ra_SetBurst api t newBurst (ra_SetLimit api t rps (h ref)))) (arl_limiters l) (arl_heap l)\<rparr>)))"

definition RPS :: "'l ARMRateLimiter \<Rightarrow> float64" where
  "RPS l = arl_rps l"

section \<open>Reachable limiters\<close>

inductive limiter_run :: "('l, 'r) rate_api \<Rightarrow> (float64 \<Rightarrow> int) \<Rightarrow> (float64 \<Rightarrow> string) \<Rightarrow> 'w RateLimitClock \<Rightarrow> 'l ARMRateLimiter \<Rightarrow> bool"
  for api conv fmt clock where
  start: "0 < n \<Longrightarrow> limiter_run api conv fmt clock (WithMaxSubscriptions n (NewARMRateLimiter conv rps))"
| wait: "limiter_run api conv fmt clock l \<Longrightarrow> limiter_run api conv fmt clock (fst (snd (Wait api clock sub (l, w))))"
| set: "limiter_run api conv fmt clock l \<Longrightarrow> limiter_run api conv fmt clock (snd (SetRPS api conv fmt t rps l))"

text \<open>What the package \<open>rate\<close> documents: a bucket has the limit and burst it was given last.\<close>

definition bucket_laws :: "('l, 'r) rate_api \<Rightarrow> ('l \<Rightarrow> float64) \<Rightarrow> ('l \<Rightarrow> int) \<Rightarrow> bool" where
  "bucket_laws api rate_of size_of \<longleftrightarrow>
     (\<forall>r b. rate_of (ra_NewLimiter api r b) = r \<and> size_of (ra_NewLimiter api r b) = b) \<and>
     (\<forall>l t n. rate_of (snd (ra_ReserveN api l t n)) = rate_of l \<and> size_of (snd (ra_ReserveN api l t n)) = size_of l) \<and>
     (\<forall>r t l. rate_of (ra_CancelAt api r t l) = rate_of l \<and> size_of (ra_CancelAt api r t l) = size_of l) \<and>
     (\<forall>t r l. rate_of (ra_SetLimit api t r l) = r \<and> size_of (ra_SetLimit api t r l) = size_of l) \<and>
     (\<forall>t b l. rate_of (ra_SetBurst api t b l) = rate_of l \<and> size_of (ra_SetBurst api t b l) = b)"

definition limiter_inv :: "('l \<Rightarrow> float64) \<Rightarrow> ('l \<Rightarrow> int) \<Rightarrow> 'l ARMRateLimiter \<Rightarrow> bool" where
  "limiter_inv rate_of size_of l \<longleftrightarrow>
     distinct (gkeys (arl_limiters l)) \<and> distinct (map snd (arl_limiters l)) \<and> 0 < arl_maxSubs l \<and>
     int (length (arl_limiters l)) \<le> arl_maxSubs l \<and>
     (\<forall>(sub, ref) \<in> set (arl_limiters l). ref < arl_fresh l \<and> rate_of (arl_heap l ref) = arl_rps l \<and> size_of (arl_heap l ref) = arl_burst l)"

section \<open>Lemmas\<close>

lemma bucket_lawsD:
  assumes "bucket_laws api rate_of size_of"
  shows "rate_of (ra_NewLimiter api r b) = r" "size_of (ra_NewLimiter api r b) = b"
    "rate_of (snd (ra_ReserveN api l t n)) = rate_of l" "size_of (snd (ra_ReserveN api l t n)) = size_of l"
    "rate_of (ra_CancelAt api res t l) = rate_of l" "size_of (ra_CancelAt api res t l) = size_of l"
    "rate_of (ra_SetLimit api t r l) = r" "size_of (ra_SetLimit api t r l) = size_of l"
    "rate_of (ra_SetBurst api t b l) = rate_of l" "size_of (ra_SetBurst api t b l) = b"
  using assms by (simp_all add: bucket_laws_def)

lemma limiter_inv_update:
  assumes "limiter_inv rate_of size_of l" and "rate_of b = rate_of (arl_heap l ref)" and "size_of b = size_of (arl_heap l ref)"
  shows "limiter_inv rate_of size_of (l\<lparr>arl_heap := (arl_heap l)(ref := b)\<rparr>)"
  using assms by (auto simp: limiter_inv_def)

lemma getLimiter_inv:
  assumes laws: "bucket_laws api rate_of size_of" and i: "limiter_inv rate_of size_of l" and g: "getLimiter api sub l = (ref, l')"
  shows "limiter_inv rate_of size_of l' \<and> (sub, ref) \<in> set (arl_limiters l')"
proof (cases "gget (arl_limiters l) sub")
  case (Some r)
  then show ?thesis using g i gget_in_set by (auto simp: getLimiter_def)
next
  case None
  define m where "m = (if int (length (arl_limiters l)) \<ge> arl_maxSubs l then l\<lparr>arl_limiters := []\<rparr> else l)"
  have m: "limiter_inv rate_of size_of m" "int (length (arl_limiters m)) < arl_maxSubs m" "sub \<notin> set (gkeys (arl_limiters m))"
    using i None by (auto simp: m_def limiter_inv_def gget_None_iff)
  have l': "l' = m\<lparr>arl_limiters := arl_limiters m @ [(sub, arl_fresh m)], arl_heap := (arl_heap m)(arl_fresh m := ra_NewLimiter api (arl_rps m) (arl_burst m)),
      arl_fresh := Suc (arl_fresh m)\<rparr>" and "ref = arl_fresh m"
    using g None m(3) by (auto simp: getLimiter_def m_def Let_def gput_absent gget_None_iff split: if_splits)
  moreover have "limiter_inv rate_of size_of l'"
    using m bucket_lawsD [OF laws] unfolding l' limiter_inv_def by (auto simp: image_iff)
  ultimately show ?thesis by simp
qed

lemma Wait_inv:
  assumes laws: "bucket_laws api rate_of size_of" and i: "limiter_inv rate_of size_of l" and r: "Wait api clock sub (l, w) = (e, l', w')"
  shows "limiter_inv rate_of size_of l'"
proof -
  obtain ref l1 where g: "getLimiter api sub l = (ref, l1)" by fastforce
  obtain res b where b: "ra_ReserveN api (arl_heap l1 ref) (rlc_Now clock w) 1 = (res, b)" by fastforce
  let ?l = "l1\<lparr>arl_heap := (arl_heap l1)(ref := b)\<rparr>"
  have i1: "limiter_inv rate_of size_of ?l"
    using limiter_inv_update [of rate_of size_of l1 b ref] getLimiter_inv [OF laws i g] bucket_lawsD(3,4) [OF laws, of "arl_heap l1 ref" "rlc_Now clock w" 1] b
    by simp
  have i2: "limiter_inv rate_of size_of (cancel api res t ref ?l)" for t
    unfolding cancel_def by (rule limiter_inv_update [OF i1 bucket_lawsD(5,6) [OF laws]])
  have "l' = ?l \<or> (\<exists>t. l' = cancel api res t ref ?l)"
    using r g b by (auto simp: Wait_def Let_def split: if_splits option.splits prod.splits)
  then show ?thesis using i1 i2 by blast
qed

lemma set_all_fold:
  assumes "bucket_laws api rate_of size_of"
  shows "rate_of (fold (\<lambda>(sub, ref) h. h(ref := ra_SetBurst api t b (ra_SetLimit api t r (h ref)))) m h ref) =
      (if ref \<in> snd ` set m then r else rate_of (h ref))"
    and "size_of (fold (\<lambda>(sub, ref) h. h(ref := ra_SetBurst api t b (ra_SetLimit api t r (h ref)))) m h ref) =
      (if ref \<in> snd ` set m then b else size_of (h ref))"
  using bucket_lawsD [OF assms] by (induction m arbitrary: h) auto

lemma SetRPS_inv:
  assumes laws: "bucket_laws api rate_of size_of" and i: "limiter_inv rate_of size_of l"
  shows "limiter_inv rate_of size_of (snd (SetRPS api conv fmt t rps l))"
proof (cases "fst (SetRPS api conv fmt t rps l) = None")
  case True
  let ?h = "fold (\<lambda>(sub, ref) h. h(ref := ra_SetBurst api t (burst_of conv rps) (ra_SetLimit api t rps (h ref)))) (arl_limiters l) (arl_heap l)"
  have l': "snd (SetRPS api conv fmt t rps l) = l\<lparr>arl_rps := rps, arl_burst := burst_of conv rps, arl_heap := ?h\<rparr>"
    using True by (auto simp: SetRPS_def Let_def split: if_splits)
  have "rate_of (?h ref) = rps \<and> size_of (?h ref) = burst_of conv rps" if "(sub, ref) \<in> set (arl_limiters l)" for sub ref
    unfolding set_all_fold [OF laws] using that by force
  then show ?thesis using i unfolding l' limiter_inv_def by auto
next
  case False
  then show ?thesis using i by (auto simp: SetRPS_def Let_def split: if_splits)
qed

text \<open>C39: whatever calls wait and whenever the rate changes, the map never holds more buckets
  than its capacity, no two subscriptions share a bucket, and each bucket in it has the rate and the burst that
  are configured now.\<close>

theorem rate_limits_uniform:
  assumes "bucket_laws api rate_of size_of" and "limiter_run api conv fmt clock l"
  shows "distinct (gkeys (arl_limiters l)) \<and> distinct (map snd (arl_limiters l)) \<and> int (length (arl_limiters l)) \<le> arl_maxSubs l \<and>
    (\<forall>sub ref. gget (arl_limiters l) sub = Some ref \<longrightarrow> rate_of (arl_heap l ref) = arl_rps l \<and> size_of (arl_heap l ref) = arl_burst l)"
proof -
  from assms(2) have i: "limiter_inv rate_of size_of l"
  proof (induction rule: limiter_run.induct)
    case (start n rps)
    then show ?case by (simp add: limiter_inv_def WithMaxSubscriptions_def NewARMRateLimiter_def)
  next
    case (wait l w)
    then show ?case using Wait_inv [OF assms(1)] by (metis prod.collapse)
  next
    case (set l t rps)
    show ?case by (rule SetRPS_inv [OF assms(1) set.IH])
  qed
  then show ?thesis using gget_in_set by (fastforce simp: limiter_inv_def)
qed

text \<open>waiting for one subscription never touches the bucket of another; it succeeds only when
  the reservation is granted and its delay, if any, has been slept through.\<close>

theorem wait_isolated:
  assumes laws: "bucket_laws api rate_of size_of" and i: "limiter_inv rate_of size_of l" and r: "Wait api clock sub (l, w) = (e, l', w')"
  shows "(\<forall>sub' ref. sub' \<noteq> sub \<longrightarrow> gget (arl_limiters l') sub' = Some ref \<longrightarrow>
      gget (arl_limiters l) sub' = Some ref \<and> arl_heap l' ref = arl_heap l ref) \<and>
    (e = None \<longrightarrow> w' = w \<or> (\<exists>delay > 0. rlc_Sleep clock delay w = (None, w')))"
proof -
  obtain ref l1 where g: "getLimiter api sub l = (ref, l1)" by fastforce
  obtain res b where b: "ra_ReserveN api (arl_heap l1 ref) (rlc_Now clock w) 1 = (res, b)" by fastforce
  have maps: "gget (arl_limiters l1) sub' = Some ref' \<Longrightarrow> sub' \<noteq> sub \<Longrightarrow> gget (arl_limiters l) sub' = Some ref' \<and> arl_heap l1 ref' = arl_heap l ref'" for sub' ref'
    using g i by (auto simp: getLimiter_def Let_def limiter_inv_def split: option.splits if_splits dest: gget_in_set)
  have "ref' \<noteq> ref" if "gget (arl_limiters l1) sub' = Some ref'" and "sub' \<noteq> sub" for sub' ref'
  proof
    assume "ref' = ref"
    then have "(sub', ref) \<in> set (arl_limiters l1)" and "(sub, ref) \<in> set (arl_limiters l1)"
      using gget_in_set [OF that(1)] getLimiter_inv [OF laws i g] by simp_all
    moreover have "distinct (map snd (arl_limiters l1))" using getLimiter_inv [OF laws i g] by (simp add: limiter_inv_def)
    ultimately have "(sub', ref) = (sub, ref)" by (fastforce simp: distinct_map inj_on_def)
    then show False using that(2) by simp
  qed
  moreover have "arl_limiters l' = arl_limiters l1" and "\<And>x. x \<noteq> ref \<Longrightarrow> arl_heap l' x = arl_heap l1 x"
    and "e = None \<longrightarrow> w' = w \<or> (\<exists>delay > 0. rlc_Sleep clock delay w = (None, w'))"
    using r g b by (auto simp: Wait_def Let_def cancel_def split: if_splits option.splits prod.splits)
  ultimately show ?thesis using maps by auto
qed

text \<open>A bucket that only remembers its settings.\<close>

definition plain_api :: "(float64 \<times> int, duration) rate_api" where
  "plain_api = \<lparr>ra_NewLimiter = Pair, ra_ReserveN = (\<lambda>l t n. (5, l)), ra_OK = (\<lambda>_. True), ra_DelayFrom = (\<lambda>r t. r), ra_CancelAt = (\<lambda>r t l. l),
     ra_SetLimit = (\<lambda>t r l. (r, snd l)), ra_SetBurst = (\<lambda>t b l. (fst l, b)), ra_InfDuration = 2 ^ 63 - 1\<rparr>"

definition step_clock :: "int RateLimitClock" where
  "step_clock = \<lparr>rlc_Now = (\<lambda>w. w), rlc_Sleep = (\<lambda>d w. (None, w + d))\<rparr>"

lemma plain_laws: "bucket_laws plain_api fst snd"
  by (simp add: bucket_laws_def plain_api_def)

text \<open>Two subscriptions and a change of the rate to \<open>5/2\<close>: both buckets have the new rate and burst \<open>3\<close>.\<close>

theorem rate_limits_uniform_witness:
  "\<exists>l. limiter_run plain_api (\<lambda>_. 0) (\<lambda>_. []) step_clock l \<and> gkeys (arl_limiters l) = [''a'', ''b''] \<and>
     (\<forall>sub ref. gget (arl_limiters l) sub = Some ref \<longrightarrow> arl_heap l ref = (Finite (5 / 2), 3))"
proof -
  define l0 where "l0 = (WithMaxSubscriptions 2 (NewARMRateLimiter (\<lambda>_. 0) (Finite 20)) :: (float64 \<times> int) ARMRateLimiter)"
  define l1 where "l1 = fst (snd (Wait plain_api step_clock ''a'' (l0, 0)))"
  define l2 where "l2 = fst (snd (Wait plain_api step_clock ''b'' (l1, 5)))"
  define l3 where "l3 = snd (SetRPS plain_api (\<lambda>_. 0) (\<lambda>_. []) 7 (Finite (5 / 2)) l2)"
  have "limiter_run plain_api (\<lambda>_. 0) (\<lambda>_. []) step_clock l0" unfolding l0_def by (rule limiter_run.start) simp
  then have r: "limiter_run plain_api (\<lambda>_. 0) (\<lambda>_. []) step_clock l3"
    unfolding l3_def l2_def l1_def by (intro limiter_run.set limiter_run.wait)
  have f: "\<lfloor>5 / 2 :: rat\<rfloor> = 2" by (rule floor_unique) simp_all
  have b: "burst_of (\<lambda>_. 0) (Finite (5 / 2)) = 3" "\<not> float_le_zero (Finite (5 / 2))"
    by (simp_all add: f burst_of_def ceil_def float_int_def float_le_zero_def Let_def)
  have k: "gkeys (arl_limiters l3) = [''a'', ''b'']" "arl_rps l3 = Finite (5 / 2)" "arl_burst l3 = 3"
    by (simp_all add: l3_def l2_def l1_def l0_def SetRPS_def b Let_def Wait_def getLimiter_def plain_api_def step_clock_def
        WithMaxSubscriptions_def NewARMRateLimiter_def)
  have "\<forall>sub ref. gget (arl_limiters l3) sub = Some ref \<longrightarrow> arl_heap l3 ref = (Finite (5 / 2), 3)"
    using rate_limits_uniform [OF plain_laws r] k(2,3) by (metis prod.collapse)
  with r k(1) show ?thesis by (intro exI [of _ l3] conjI)
qed

theorem wait_isolated_witness:
  "let l = WithMaxSubscriptions 2 (NewARMRateLimiter (\<lambda>_. 0) (Finite 20)) :: (float64 \<times> int) ARMRateLimiter in
   limiter_inv fst snd l \<and> (\<exists>l'. Wait plain_api step_clock ''a'' (l, 0) = (None, l', 5) \<and> (\<exists>delay > 0. rlc_Sleep step_clock delay 0 = (None, 5)))"
proof -
  let ?l = "WithMaxSubscriptions 2 (NewARMRateLimiter (\<lambda>_. 0) (Finite 20)) :: (float64 \<times> int) ARMRateLimiter"
  have i: "limiter_inv fst snd ?l" by (simp add: limiter_inv_def WithMaxSubscriptions_def NewARMRateLimiter_def)
  have "fst (Wait plain_api step_clock ''a'' (?l, 0)) = None" "snd (snd (Wait plain_api step_clock ''a'' (?l, 0))) = 5"
    by (simp_all add: Wait_def getLimiter_def plain_api_def step_clock_def WithMaxSubscriptions_def NewARMRateLimiter_def Let_def)
  then obtain l' where w: "Wait plain_api step_clock ''a'' (?l, 0) = (None, l', 5)" by (metis prod.collapse)
  from wait_isolated [OF plain_laws i w] i w show ?thesis unfolding Let_def by auto
qed

end
