(* ===== verification/Arm_Tuning.thy ===== *)
theory Arm_Tuning
  imports Executor Rate_Limit
begin

text \<open>
  The ARM tuning at run time (\<open>armTuningReloader\<close> of \<open>cmd/main.go\<close>): every tick reads the mounted
  files and hands what changed to the rate limiter and to the executor. What the files hold at a tick is a
  \<open>config_env\<close>; the run of the reloader is a list of ticks. Logging is left out.
\<close>

record 'l armTuningReloader =
  rl_current :: ARMTuningConfig
  rl_executor :: Executor
  rl_limiter :: "'l ARMRateLimiter"

definition newARMTuningReloader :: "ARMTuningConfig \<Rightarrow> Executor \<Rightarrow> 'l ARMRateLimiter \<Rightarrow> 'l armTuningReloader" where
  "newARMTuningReloader initial executor limiter = \<lparr>rl_current = initial, rl_executor = executor, rl_limiter = limiter\<rparr>"

definition reload_rps :: "('l, 'r) rate_api \<Rightarrow> (float64 \<Rightarrow> int) \<Rightarrow> (float64 \<Rightarrow> string) \<Rightarrow> gotime \<Rightarrow> ARMTuningReloadResult \<Rightarrow>
    'l armTuningReloader \<Rightarrow> 'l armTuningReloader" where
  "reload_rps api conv fmt t result r =
     (case trr_ARMRateLimitRPS result of
        Some v \<Rightarrow>
          if \<not> float_eq v (atc_ARMRateLimitRPS (rl_current r)) then
            (case SetRPS api conv fmt t v (rl_limiter r) of
               (Some err, l) \<Rightarrow> r\<lparr>rl_limiter := l\<rparr>
             | (None, l) \<Rightarrow> r\<lparr>rl_limiter := l, rl_current := (rl_current r)\<lparr>atc_ARMRateLimitRPS := v\<rparr>\<rparr>)
          else r
      | None \<Rightarrow> r)"

definition reload_conc :: "ARMTuningReloadResult \<Rightarrow> 'l armTuningReloader \<Rightarrow> 'l armTuningReloader" where
  "reload_conc result r =
     (case trr_MaxConcurrentActions result of
        Some v \<Rightarrow>
          if v \<noteq> atc_MaxConcurrentActions (rl_current r) then
            (case SetMaxParallel (rl_executor r) v of
               Inl err \<Rightarrow> r
             | Inr e \<Rightarrow> r\<lparr>rl_executor := e, rl_current := (rl_current r)\<lparr>atc_MaxConcurrentActions := v\<rparr>\<rparr>)
          else r
      | None \<Rightarrow> r)"

definition reload :: "('l, 'r) rate_api \<Rightarrow> (float64 \<Rightarrow> int) \<Rightarrow> config_env \<times> gotime \<Rightarrow> 'l armTuningReloader \<Rightarrow> 'l armTuningReloader" where
  "reload api conv tick r =
     (case tick of (env, t) \<Rightarrow>
        (let result = LoadARMTuningForReload env in
         if trr_NotConfigured result then r
         else if trr_FilesAbsent result then r
         else reload_conc result (reload_rps api conv (ce_Format env) t result r)))"

text \<open>\<open>Start\<close>: the ticks until the context ends.\<close>

definition Start_reloader :: "('l, 'r) rate_api \<Rightarrow> (float64 \<Rightarrow> int) \<Rightarrow> (config_env \<times> gotime) list \<Rightarrow> 'l armTuningReloader \<Rightarrow> 'l armTuningReloader" where
  "Start_reloader api conv ticks r = fold (reload api conv) ticks r"

section \<open>Lemmas\<close>

text \<open>The last value that is there, or else the first one.\<close>

definition latest :: "'a \<Rightarrow> 'a option list \<Rightarrow> 'a" where
  "latest d xs = fold (\<lambda>x d. case x of None \<Rightarrow> d | Some v \<Rightarrow> v) xs d"

definition in_step :: "'l armTuningReloader \<Rightarrow> bool" where
  "in_step r \<longleftrightarrow> valid_tuning (rl_current r) \<and> arl_rps (rl_limiter r) = atc_ARMRateLimitRPS (rl_current r) \<and>
     ex_maxParallel (rl_executor r) = atc_MaxConcurrentActions (rl_current r)"

lemma reload_result_valid:
  "(trr_ARMRateLimitRPS (LoadARMTuningForReload env) = Some v \<longrightarrow> valid_rps v) \<and>
   (trr_MaxConcurrentActions (LoadARMTuningForReload env) = Some n \<longrightarrow> 1 \<le> n) \<and>
   (trr_NotConfigured (LoadARMTuningForReload env) \<or> trr_FilesAbsent (LoadARMTuningForReload env) \<longrightarrow>
     trr_ARMRateLimitRPS (LoadARMTuningForReload env) = None \<and> trr_MaxConcurrentActions (LoadARMTuningForReload env) = None)"
  by (auto simp: LoadARMTuningForReload_def no_tuning_def Let_def dest: file_rps_valid file_conc_valid split: sum.splits if_splits)

lemma SetRPS_valid: "valid_rps v \<Longrightarrow> \<exists>l'. SetRPS api conv fmt t v l = (None, l') \<and> arl_rps l' = v"
  by (auto simp: valid_rps_def SetRPS_def float_le_zero_def Let_def split: float64.splits)

lemma valid_rps_eq: "valid_rps v \<Longrightarrow> float_eq v w \<longleftrightarrow> v = w"
  by (auto simp: valid_rps_def float_eq_def)

lemma reload_rps_step:
  assumes "in_step r" and "\<And>v. trr_ARMRateLimitRPS result = Some v \<Longrightarrow> valid_rps v"
  shows "in_step (reload_rps api conv fmt t result r) \<and> rl_executor (reload_rps api conv fmt t result r) = rl_executor r \<and>
    rl_current (reload_rps api conv fmt t result r) =
      (rl_current r)\<lparr>atc_ARMRateLimitRPS := (case trr_ARMRateLimitRPS result of None \<Rightarrow> atc_ARMRateLimitRPS (rl_current r) | Some v \<Rightarrow> v)\<rparr>"
proof (cases "trr_ARMRateLimitRPS result")
  case (Some v)
  then have v: "valid_rps v" by (rule assms(2))
  obtain l' where l: "SetRPS api conv fmt t v (rl_limiter r) = (None, l')" "arl_rps l' = v" using SetRPS_valid [OF v] by blast
  show ?thesis using assms(1) Some v l by (simp add: reload_rps_def valid_rps_eq in_step_def valid_tuning_def)
qed (use assms(1) in \<open>simp add: reload_rps_def\<close>)

lemma reload_conc_step:
  assumes "in_step r" and "\<And>v. trr_MaxConcurrentActions result = Some v \<Longrightarrow> 1 \<le> v"
  shows "in_step (reload_conc result r) \<and> rl_current (reload_conc result r) =
      (rl_current r)\<lparr>atc_MaxConcurrentActions := (case trr_MaxConcurrentActions result of None \<Rightarrow> atc_MaxConcurrentActions (rl_current r) | Some v \<Rightarrow> v)\<rparr>"
proof (cases "trr_MaxConcurrentActions result")
  case (Some v)
  then have "1 \<le> v" by (rule assms(2))
  then show ?thesis using assms(1) Some by (simp add: reload_conc_def SetMaxParallel_def in_step_def valid_tuning_def)
qed (use assms(1) in \<open>simp add: reload_conc_def\<close>)

lemma reload_step:
  assumes "in_step r"
  shows "in_step (reload api conv (env, t) r) \<and> rl_current (reload api conv (env, t) r) =
    \<lparr>atc_ARMRateLimitRPS = latest (atc_ARMRateLimitRPS (rl_current r)) [trr_ARMRateLimitRPS (LoadARMTuningForReload env)],
     atc_MaxConcurrentActions = latest (atc_MaxConcurrentActions (rl_current r)) [trr_MaxConcurrentActions (LoadARMTuningForReload env)]\<rparr>"
proof (cases "trr_NotConfigured (LoadARMTuningForReload env) \<or> trr_FilesAbsent (LoadARMTuningForReload env)")
  case True
  then show ?thesis using assms reload_result_valid [of env] by (auto simp: reload_def Let_def latest_def)
next
  case False
  let ?res = "LoadARMTuningForReload env"
  let ?r = "reload_rps api conv (ce_Format env) t ?res r"
  have 1: "in_step ?r \<and> rl_executor ?r = rl_executor r \<and> rl_current ?r =
      (rl_current r)\<lparr>atc_ARMRateLimitRPS := (case trr_ARMRateLimitRPS ?res of None \<Rightarrow> atc_ARMRateLimitRPS (rl_current r) | Some v \<Rightarrow> v)\<rparr>"
    by (rule reload_rps_step [OF assms]) (use reload_result_valid in blast)
  have "in_step (reload_conc ?res ?r) \<and> rl_current (reload_conc ?res ?r) =
      (rl_current ?r)\<lparr>atc_MaxConcurrentActions := (case trr_MaxConcurrentActions ?res of None \<Rightarrow> atc_MaxConcurrentActions (rl_current ?r) | Some v \<Rightarrow> v)\<rparr>"
    by (rule reload_conc_step) (use 1 reload_result_valid in blast)+
  then show ?thesis using 1 False by (cases "rl_current r") (auto simp: reload_def Let_def latest_def split: option.splits)
qed

lemma latest_Cons: "latest d (x # xs) = latest (latest d [x]) xs"
  by (simp add: latest_def)

lemma reload_steps:
  "in_step r \<Longrightarrow> in_step (fold (reload api conv) ticks r) \<and> rl_current (fold (reload api conv) ticks r) =
      \<lparr>atc_ARMRateLimitRPS = latest (atc_ARMRateLimitRPS (rl_current r)) (map (\<lambda>(env, t). trr_ARMRateLimitRPS (LoadARMTuningForReload env)) ticks),
       atc_MaxConcurrentActions = latest (atc_MaxConcurrentActions (rl_current r)) (map (\<lambda>(env, t). trr_MaxConcurrentActions (LoadARMTuningForReload env)) ticks)\<rparr>"
proof (induction ticks arbitrary: r)
  case Nil
  then show ?case by (simp add: latest_def)
next
  case (Cons tick ticks)
  obtain env t where "tick = (env, t)" by (cases tick)
  then show ?case using Cons.IH [of "reload api conv tick r"] reload_step [OF Cons.prems, of api conv env t]
    by (simp add: latest_Cons [of _ _ "map _ _"])
qed

text \<open>C38: whatever the mounted files hold at each tick, the rate limiter runs at the rate and the
  executor with the parallelism that the reloader believes to be current, both always valid; and each of the two is the last
  valid value its file had, or the one of the start: a broken file never disturbs the other one.\<close>

theorem tuning_follows_files:
  fixes api :: "('l, 'r) rate_api"
  assumes "startup_tuning env0 = Inr t0"
  shows "let r = Start_reloader api conv ticks (newARMTuningReloader t0 (NewExecutor (atc_MaxConcurrentActions t0)) (NewARMRateLimiter conv (atc_ARMRateLimitRPS t0)));
             results = map (\<lambda>(env, t). LoadARMTuningForReload env) ticks
    in RPS (rl_limiter r) = latest (atc_ARMRateLimitRPS t0) (map trr_ARMRateLimitRPS results) \<and>
       MaxParallel (rl_executor r) = latest (atc_MaxConcurrentActions t0) (map trr_MaxConcurrentActions results) \<and>
       valid_rps (RPS (rl_limiter r)) \<and> 1 \<le> MaxParallel (rl_executor r)"
proof -
  define r0 :: "'l armTuningReloader" where "r0 = newARMTuningReloader t0 (NewExecutor (atc_MaxConcurrentActions t0)) (NewARMRateLimiter conv (atc_ARMRateLimitRPS t0))"
  have "in_step r0" and "rl_current r0 = t0"
    using startup_valid [OF assms]
    by (simp_all add: r0_def in_step_def newARMTuningReloader_def NewARMRateLimiter_def NewExecutor_def valid_tuning_def)
  then show ?thesis using reload_steps [of r0 api conv ticks] unfolding r0_def [symmetric]
    by (auto simp: Start_reloader_def Let_def in_step_def RPS_def MaxParallel_def valid_tuning_def comp_def case_prod_unfold)
qed

text \<open>A start with the defaults and one tick whose rate is valid and whose concurrency is not.\<close>

theorem tuning_follows_files_witness:
  "startup_tuning (env_with []) = Inr ARMTuningDefaults \<and>
   (let r = Start_reloader plain_api (\<lambda>_. 0) [(env_files, 0)]
        (newARMTuningReloader ARMTuningDefaults (NewExecutor 10) (NewARMRateLimiter (\<lambda>_. 0) (Finite 20)))
    in RPS (rl_limiter r) = Finite 5 \<and> MaxParallel (rl_executor r) = 10)"
proof -
  have s: "startup_tuning (env_with []) = Inr ARMTuningDefaults"
    by (simp add: startup_tuning_def LoadARMTuningConfig_def LoadARMTuningFromEnv_def env_with_def env_rps_def env_int_def ebind_def ARMTuningDefaults_def)
  have z: "file_conc '' 0'' = Inl (OtherError (''ARM_TUNING_DIR/MAX_CONCURRENT_ACTIONS must be >= 1, got '' @ show_int 0))"
    by (simp add: file_conc_def parse_int_def TrimSpace_def trim_byte_def Atoi_def parse_decimal_def digits_value_def json_digit_def
        validateMaxConcurrentActions_def)
  have "trr_ARMRateLimitRPS (LoadARMTuningForReload env_files) = Some (Finite 5)" "trr_MaxConcurrentActions (LoadARMTuningForReload env_files) = None"
    by (simp_all add: LoadARMTuningForReload_def env_files_def tuning_file_def file_rps_def parse_rps_def validateARMRateLimitRPS_def
        float_le_zero_def z no_tuning_def Let_def)
  with tuning_follows_files [OF s, of plain_api "\<lambda>_. 0" "[(env_files, 0)]"] s show ?thesis
    by (simp add: Let_def latest_def ARMTuningDefaults_def)
qed

end
