(* ===== verification/Client_Factory.thy ===== *)
theory Client_Factory
  imports Arm_Client
begin

text \<open>
  Clients per subscription and the credentials they use (\<open>internal/azure/client_factory.go\<close>,
  \<open>NewAddressPrefixSetClient\<close> and the options of \<open>internal/azure/address_prefix_set_client.go\<close> and
  \<open>client_options.go\<close>).

  A client is shared by pointer: the factory hands out an address with it. The default credential of the
  Azure SDK and the process environment are parameters; the credential that asks the wireserver is modelled. Metric observers are left out.
\<close>

section \<open>The wireserver credential\<close>

type_synonym 'w credential = "'w \<Rightarrow> (goerror + string \<times> gotime) \<times> 'w"

record wireserverTokenResponse =
  wtr_AccessToken :: string
  wtr_ExpiresOn :: string
  wtr_Resource :: string
  wtr_TokenType :: string
  wtr_ExpiresIn :: string
  wtr_NotBefore :: string
  wtr_ExtExpiresIn :: string

definition decode_token_field :: "string \<Rightarrow> json \<Rightarrow> wireserverTokenResponse \<Rightarrow> wireserverTokenResponse option" where
  "decode_token_field k v t =
     (if EqualFold k ''access_token'' then map_option (\<lambda>s. t\<lparr>wtr_AccessToken := s\<rparr>) (decode_string v (wtr_AccessToken t))
      else if EqualFold k ''expires_on'' then map_option (\<lambda>s. t\<lparr>wtr_ExpiresOn := s\<rparr>) (decode_string v (wtr_ExpiresOn t))
      else if EqualFold k ''resource'' then map_option (\<lambda>s. t\<lparr>wtr_Resource := s\<rparr>) (decode_string v (wtr_Resource t))
      else if EqualFold k ''token_type'' then map_option (\<lambda>s. t\<lparr>wtr_TokenType := s\<rparr>) (decode_string v (wtr_TokenType t))
      else if EqualFold k ''expires_in'' then map_option (\<lambda>s. t\<lparr>wtr_ExpiresIn := s\<rparr>) (decode_string v (wtr_ExpiresIn t))
      else if EqualFold k ''not_before'' then map_option (\<lambda>s. t\<lparr>wtr_NotBefore := s\<rparr>) (decode_string v (wtr_NotBefore t))
      else if EqualFold k ''ext_expires_in'' then map_option (\<lambda>s. t\<lparr>wtr_ExtExpiresIn := s\<rparr>) (decode_string v (wtr_ExtExpiresIn t))
      else Some t)"

definition unmarshal_token :: "string \<Rightarrow> wireserverTokenResponse option" where
  "unmarshal_token body =
     (case json_parse body of
        None \<Rightarrow> None
      | Some j \<Rightarrow> decode_object decode_token_field j
          \<lparr>wtr_AccessToken = [], wtr_ExpiresOn = [], wtr_Resource = [], wtr_TokenType = [], wtr_ExpiresIn = [], wtr_NotBefore = [], wtr_ExtExpiresIn = []\<rparr>)"

text \<open>\<open>fmt.Sscanf(s, "%d", &ts)\<close>: blanks, a sign, digits; what follows is ignored.\<close>

definition scan_int :: "string \<Rightarrow> int option" where
  "scan_int s =
     (let s = dropWhile (\<lambda>c. (of_char c :: nat) \<in> {9, 11, 12, 13, 32}) s;
          sign = (s \<noteq> [] \<and> (hd s = CHR ''-'' \<or> hd s = CHR ''+''));
          ds = takeWhile json_digit (if sign then tl s else s)
      in Atoi ((if sign then [hd s] else []) @ ds))"

text \<open>\<open>time.Unix\<close>: the zero time is the first of January of the year 1.\<close>

definition Unix :: "int \<Rightarrow> gotime" where
  "Unix ts = (ts + 62135596800) * second"

definition resource_of_scope :: "string \<Rightarrow> string" where
  "resource_of_scope scope = (if length scope > 9 \<and> HasSuffix scope ''/.default'' then take (length scope - 9) scope else scope)"

definition wireserver_token :: "gotime \<Rightarrow> http_response \<Rightarrow> goerror + string \<times> gotime" where
  "wireserver_token t resp =
     (case snd (rs_Body resp) of
        Some err \<Rightarrow> Inl (Wrapped ''wireserverCredential: reading response'' err)
      | None \<Rightarrow>
          if rs_StatusCode resp \<noteq> 200
          then Inl (OtherError (''wireserverCredential: wireserver returned '' @ show_int (rs_StatusCode resp) @ '': '' @ fst (rs_Body resp)))
          else (case unmarshal_token (fst (rs_Body resp)) of
                  None \<Rightarrow> Inl (Wrapped ''wireserverCredential: parsing token response'' json_error)
                | Some tok \<Rightarrow>
                    Inr (wtr_AccessToken tok, (case scan_int (wtr_ExpiresOn tok) of Some ts \<Rightarrow> Unix ts | None \<Rightarrow> t + 3600 * second))))"

definition GetToken :: "'w http_env \<Rightarrow> string list \<Rightarrow> 'w credential" where
  "GetToken env scopes w =
     (case scopes of
        [] \<Rightarrow> (Inl (OtherError ''wireserverCredential: at least one scope is required''), w)
      | scope # _ \<Rightarrow>
          (let url = ''http://168.63.129.16/metadata/identity/oauth2/token?api-version=2018-02-01&resource='' @ resource_of_scope scope in
           case he_NewRequest env ''GET'' url of
             Some err \<Rightarrow> (Inl (Wrapped ''wireserverCredential: creating request'' err), w)
           | None \<Rightarrow>
               (case he_Do env \<lparr>rq_Method = ''GET'', rq_URL = url, rq_Body = None, rq_Headers = [(''Metadata'', ''true'')]\<rparr> w of
                  (Inl err, w) \<Rightarrow> (Inl (Wrapped ''wireserverCredential: requesting token from wireserver'' err), w)
                | (Inr resp, w) \<Rightarrow> (wireserver_token (he_Now env w) resp, w))))"

text \<open>The scopes of \<open>acquireToken\<close>.\<close>

definition token_scopes :: "string list" where
  "token_scopes = [''https://management.azure.com/.default'']"

section \<open>Clients and their options\<close>

definition armEndpoint :: string where
  "armEndpoint = ''https://management.azure.com''"

type_synonym 'w limiter = "string \<Rightarrow> 'w \<Rightarrow> goerror option \<times> 'w"
type_synonym 'w client_option = "'w AddressPrefixSetClient \<Rightarrow> 'w AddressPrefixSetClient"

definition WithARMBaseURL :: "string \<Rightarrow> 'w client_option" where
  "WithARMBaseURL baseURL c = c\<lparr>pc_baseURL := baseURL\<rparr>"

definition WithRetryPolicy :: "RetryPolicy \<Rightarrow> 'w client_option" where
  "WithRetryPolicy p c = c\<lparr>pc_retryPolicy := p\<rparr>"

definition WithSubscriptionRateLimiter :: "'w limiter \<Rightarrow> 'w client_option" where
  "WithSubscriptionRateLimiter l c = c\<lparr>pc_rateLimiter := Some l\<rparr>"

definition NewAddressPrefixSetClient :: "'w credential option \<Rightarrow> 'w client_option list \<Rightarrow> 'w AddressPrefixSetClient" where
  "NewAddressPrefixSetClient credential opts =
     fold (\<lambda>opt. opt) opts \<lparr>pc_credential = credential, pc_baseURL = armEndpoint, pc_retryPolicy = DefaultRetryPolicy, pc_rateLimiter = None\<rparr>"

section \<open>The factory\<close>

record 'w ARM_ClientFactory =
  cf_credential :: "'w credential option"
  cf_baseURL :: string
  cf_retryPolicy :: "RetryPolicy option"
  cf_rateLimiter :: "'w limiter option"
  cf_credExplicit :: bool
  cf_credDone :: bool
  cf_credErr :: "goerror option"
  cf_clients :: "(string, nat \<times> 'w AddressPrefixSetClient) gomap"
  cf_fresh :: nat

text \<open>
  \<open>cs_wireserver\<close> is \<open>USE_WIRESERVER_IDENTITY=true\<close>, \<open>cs_default\<close> is
  \<open>azidentity.NewDefaultAzureCredential\<close>, \<open>cs_http\<close> the HTTP client of the wireserver credential.
\<close>

record 'w credential_source =
  cs_wireserver :: bool
  cs_default :: "goerror + 'w credential"
  cs_http :: "'w http_env"

type_synonym 'w factory_option = "'w ARM_ClientFactory \<Rightarrow> 'w ARM_ClientFactory"

definition WithFactoryRetryPolicy :: "RetryPolicy \<Rightarrow> 'w factory_option" where
  "WithFactoryRetryPolicy p f = f\<lparr>cf_retryPolicy := Some p\<rparr>"

definition WithFactorySubscriptionRateLimiter :: "'w limiter \<Rightarrow> 'w factory_option" where
  "WithFactorySubscriptionRateLimiter l f = f\<lparr>cf_rateLimiter := Some l\<rparr>"

definition WithFactoryARMBaseURL :: "string \<Rightarrow> 'w factory_option" where
  "WithFactoryARMBaseURL baseURL f = f\<lparr>cf_baseURL := baseURL\<rparr>"

definition ARM_NewClientFactory :: "'w factory_option list \<Rightarrow> 'w ARM_ClientFactory" where
  "ARM_NewClientFactory opts =
     fold (\<lambda>opt. opt) opts \<lparr>cf_credential = None, cf_baseURL = [], cf_retryPolicy = None, cf_rateLimiter = None, cf_credExplicit = False,
       cf_credDone = False, cf_credErr = None, cf_clients = [], cf_fresh = 0\<rparr>"

definition NewClientFactoryWithCredential :: "'w credential option \<Rightarrow> 'w factory_option list \<Rightarrow> 'w ARM_ClientFactory" where
  "NewClientFactoryWithCredential credential opts =
     fold (\<lambda>opt. opt) opts \<lparr>cf_credential = credential, cf_baseURL = [], cf_retryPolicy = None, cf_rateLimiter = None, cf_credExplicit = True,
       cf_credDone = False, cf_credErr = None, cf_clients = [], cf_fresh = 0\<rparr>"

definition NewClientFactoryWithDefaultCredential :: "'w credential_source \<Rightarrow> 'w factory_option list \<Rightarrow> goerror + 'w ARM_ClientFactory" where
  "NewClientFactoryWithDefaultCredential src opts =
     (if cs_wireserver src then Inr (NewClientFactoryWithCredential (Some (GetToken (cs_http src) token_scopes)) opts)
      else (case cs_default src of
              Inl err \<Rightarrow> Inl (Wrapped ''creating DefaultAzureCredential'' err)
            | Inr cred \<Rightarrow> Inr (NewClientFactoryWithCredential (Some cred) opts)))"

text \<open>\<open>credOnce.Do\<close> runs its function in the first call only.\<close>

definition resolveCredential :: "'w credential_source \<Rightarrow> 'w ARM_ClientFactory \<Rightarrow> goerror option \<times> 'w ARM_ClientFactory" where
  "resolveCredential src f =
     (if cf_credExplicit f then (None, f)
      else
        (let f = (if cf_credDone f then f
                  else (let f = f\<lparr>cf_credDone := True\<rparr> in
                        if cf_credential f \<noteq> None then f
                        else if cs_wireserver src then f\<lparr>cf_credential := Some (GetToken (cs_http src) token_scopes)\<rparr>
                        else (case cs_default src of
                                Inl err \<Rightarrow> f\<lparr>cf_credErr := Some (Wrapped ''creating DefaultAzureCredential'' err)\<rparr>
                              | Inr cred \<Rightarrow> f\<lparr>cf_credential := Some cred\<rparr>)))
         in (cf_credErr f, f)))"

definition client_options :: "'w ARM_ClientFactory \<Rightarrow> 'w client_option list" where
  "client_options f =
     (if cf_baseURL f \<noteq> [] then [WithARMBaseURL (cf_baseURL f)] else []) @
     (case cf_retryPolicy f of Some p \<Rightarrow> [WithRetryPolicy p] | None \<Rightarrow> []) @
     (case cf_rateLimiter f of Some l \<Rightarrow> [WithSubscriptionRateLimiter l] | None \<Rightarrow> [])"

definition ARM_ForSubscription :: "'w credential_source \<Rightarrow> string \<Rightarrow> 'w ARM_ClientFactory \<Rightarrow> (goerror + nat \<times> 'w AddressPrefixSetClient) \<times> 'w ARM_ClientFactory" where
  "ARM_ForSubscription src sub f =
     (if sub = [] then (Inl (OtherError ''subscription ID must not be empty''), f)
      else
        (case gget (cf_clients f) sub of
           Some client \<Rightarrow> (Inr client, f)
         | None \<Rightarrow>
             (case resolveCredential src f of
                (Some err, f) \<Rightarrow> (Inl (Wrapped ''resolving credential'' err), f)
              | (None, f) \<Rightarrow>
                  (case gget (cf_clients f) sub of
                     Some client \<Rightarrow> (Inr client, f)
                   | None \<Rightarrow>
                       (let client = (cf_fresh f, NewAddressPrefixSetClient (cf_credential f) (client_options f))
                        in (Inr client, f\<lparr>cf_clients := gput sub client (cf_clients f), cf_fresh := Suc (cf_fresh f)\<rparr>))))))"


section \<open>Reachable factories\<close>

definition factory_calls :: "('w credential_source \<times> string) list \<Rightarrow> 'w ARM_ClientFactory \<Rightarrow> 'w ARM_ClientFactory" where
  "factory_calls calls f = fold (\<lambda>(src, sub) f. snd (ARM_ForSubscription src sub f)) calls f"

definition same_settings :: "'w ARM_ClientFactory \<Rightarrow> 'w ARM_ClientFactory \<Rightarrow> bool" where
  "same_settings f g \<longleftrightarrow> cf_baseURL f = cf_baseURL g \<and> cf_retryPolicy f = cf_retryPolicy g \<and> cf_rateLimiter f = cf_rateLimiter g"

text \<open>The client that the settings of a factory ask for.\<close>

definition configured :: "'w ARM_ClientFactory \<Rightarrow> 'w AddressPrefixSetClient \<Rightarrow> bool" where
  "configured f c \<longleftrightarrow> pc_baseURL c = (if cf_baseURL f = [] then armEndpoint else cf_baseURL f) \<and>
     pc_retryPolicy c = (case cf_retryPolicy f of None \<Rightarrow> DefaultRetryPolicy | Some p \<Rightarrow> p) \<and> pc_rateLimiter c = cf_rateLimiter f"

lemma new_client_configured: "configured f (NewAddressPrefixSetClient cred (client_options f))"
  by (auto simp: configured_def NewAddressPrefixSetClient_def client_options_def WithARMBaseURL_def WithRetryPolicy_def
      WithSubscriptionRateLimiter_def split: option.splits)

lemma resolveCredential_keeps:
  "resolveCredential src f = (e, f') \<Longrightarrow> cf_clients f' = cf_clients f \<and> cf_fresh f' = cf_fresh f \<and> same_settings f f'"
  by (auto simp: resolveCredential_def same_settings_def Let_def split: if_splits sum.splits)

definition factory_inv :: "'w ARM_ClientFactory \<Rightarrow> 'w ARM_ClientFactory \<Rightarrow> bool" where
  "factory_inv f0 f \<longleftrightarrow> same_settings f0 f \<and> wfmap (cf_clients f) \<and> distinct (map (fst \<circ> snd) (cf_clients f)) \<and>
     (\<forall>(sub, a, c) \<in> set (cf_clients f). a < cf_fresh f \<and> configured f0 c)"

lemma ForSubscription_cases [consumes 1, case_names unchanged failed created]:
  assumes "ARM_ForSubscription src sub f = (y, f')"
  obtains (unchanged) "f' = f" and "sub = [] \<and> (\<exists>err. y = Inl err) \<or> sub \<noteq> [] \<and> (\<exists>z. gget (cf_clients f) sub = Some z \<and> y = Inr z)"
  | (failed) err where "sub \<noteq> []" and "gget (cf_clients f) sub = None" and "resolveCredential src f = (Some err, f')" and "y = Inl (Wrapped ''resolving credential'' err)"
  | (created) g where "sub \<noteq> []" and "gget (cf_clients f) sub = None" and "resolveCredential src f = (None, g)"
      and "f' = g\<lparr>cf_clients := cf_clients f @ [(sub, cf_fresh f, NewAddressPrefixSetClient (cf_credential g) (client_options g))], cf_fresh := Suc (cf_fresh f)\<rparr>"
      and "y = Inr (cf_fresh f, NewAddressPrefixSetClient (cf_credential g) (client_options g))"
proof (cases "sub = [] \<or> gget (cf_clients f) sub \<noteq> None")
  case True
  then show thesis using assms by (intro unchanged) (auto simp: ARM_ForSubscription_def split: if_splits option.splits)
next
  case False
  then have n: "sub \<noteq> []" "gget (cf_clients f) sub = None" by blast+
  obtain e g where r: "resolveCredential src f = (e, g)" by fastforce
  note k = resolveCredential_keeps [OF r]
  show thesis
  proof (cases e)
    case None
    then show thesis using n assms r k by (intro created [of g]) (simp_all add: ARM_ForSubscription_def Let_def gput_absent)
  next
    case (Some err)
    then show thesis using n assms r by (intro failed [of err]) (simp_all add: ARM_ForSubscription_def)
  qed
qed

lemma ForSubscription_inv:
  assumes i: "factory_inv f0 f" and r: "ARM_ForSubscription src sub f = (y, f')"
  shows "factory_inv f0 f' \<and> (\<forall>x z. gget (cf_clients f) x = Some z \<longrightarrow> gget (cf_clients f') x = Some z) \<and>
    (\<forall>z. y = Inr z \<longrightarrow> sub \<noteq> [] \<and> gget (cf_clients f') sub = Some z)"
  using r
proof (cases rule: ForSubscription_cases)
  case unchanged
  then show ?thesis using i by auto
next
  case (failed err)
  then show ?thesis using i resolveCredential_keeps [OF failed(3)] by (auto simp: factory_inv_def same_settings_def)
next
  case (created g)
  note k = resolveCredential_keeps [OF created(3)]
  have "configured f0 (NewAddressPrefixSetClient (cf_credential g) (client_options g))"
    using new_client_configured [of g "cf_credential g"] i k by (auto simp: configured_def factory_inv_def same_settings_def)
  then show ?thesis using i k created by (auto simp: factory_inv_def same_settings_def gget_None_iff image_iff map_add_Some_iff)
qed

lemma factory_calls_inv:
  "factory_inv f0 f \<Longrightarrow> factory_inv f0 (factory_calls calls f) \<and>
     (\<forall>x z. gget (cf_clients f) x = Some z \<longrightarrow> gget (cf_clients (factory_calls calls f)) x = Some z)"
  unfolding factory_calls_def
proof (induction calls arbitrary: f)
  case (Cons call calls)
  obtain src sub where c: "call = (src, sub)" by (cases call)
  obtain y f' where r: "ARM_ForSubscription src sub f = (y, f')" by fastforce
  show ?case using ForSubscription_inv [OF Cons.prems r] Cons.IH [of f'] c r by simp
qed simp

text \<open>a subscription has one client: once \<open>ForSubscription\<close> has answered, every later call,
  whatever calls for other subscriptions are in between, answers the same client (its token cache with it), no other
  subscription gets that client, and it has the endpoint, the retry policy and the rate limiter of the factory.\<close>

theorem client_per_subscription:
  assumes "cf_clients f0 = []" and "ARM_ForSubscription src sub (factory_calls before f0) = (Inr (a, c), f1)"
  shows "configured f0 c \<and> ARM_ForSubscription src' sub (factory_calls later f1) = (Inr (a, c), factory_calls later f1) \<and>
    (\<forall>sub' c'. gget (cf_clients (factory_calls later f1)) sub' = Some (a, c') \<longrightarrow> sub' = sub)"
proof -
  have i0: "factory_inv f0 f0" using assms(1) by (simp add: factory_inv_def same_settings_def)
  have i1: "factory_inv f0 f1" and s: "sub \<noteq> []" "gget (cf_clients f1) sub = Some (a, c)"
    using ForSubscription_inv [OF factory_calls_inv [OF i0, THEN conjunct1] assms(2)] by auto
  let ?f = "factory_calls later f1"
  have i: "factory_inv f0 ?f" and g: "gget (cf_clients ?f) sub = Some (a, c)" using factory_calls_inv [OF i1] s by auto
  have "configured f0 c" using i gget_in_set [OF g] by (auto simp: factory_inv_def)
  moreover have "ARM_ForSubscription src' sub ?f = (Inr (a, c), ?f)" using s g by (simp add: ARM_ForSubscription_def)
  moreover have "sub' = sub" if "gget (cf_clients ?f) sub' = Some (a, c')" for sub' c'
  proof -
    have "inj_on (fst \<circ> snd) (set (cf_clients ?f))" using i by (simp add: factory_inv_def distinct_map)
    from inj_onD [OF this _ gget_in_set [OF that] gget_in_set [OF g]] show ?thesis by simp
  qed
  ultimately show ?thesis by blast
qed

text \<open>A factory with a base URL and an explicit credential that answers for two subscriptions.\<close>

definition test_factory :: "nat ARM_ClientFactory" where
  "test_factory = NewClientFactoryWithCredential None [WithFactoryARMBaseURL ''https://test'']"

definition no_source :: "nat credential_source" where
  "no_source = \<lparr>cs_wireserver = False, cs_default = Inl (OtherError ''none''), cs_http = busy_env\<rparr>"

theorem client_per_subscription_witness:
  "\<exists>a c f1. cf_clients test_factory = [] \<and> ARM_ForSubscription no_source ''s1'' (factory_calls [(no_source, ''s0'')] test_factory) = (Inr (a, c), f1) \<and>
     pc_baseURL c = ''https://test'' \<and> ARM_ForSubscription no_source ''s1'' (factory_calls [(no_source, ''s2'')] f1) = (Inr (a, c), factory_calls [(no_source, ''s2'')] f1)"
proof -
  note eval = test_factory_def NewClientFactoryWithCredential_def WithFactoryARMBaseURL_def ARM_ForSubscription_def resolveCredential_def factory_calls_def
  have e: "cf_clients test_factory = []" by (simp add: eval)
  obtain a c f1 where f: "ARM_ForSubscription no_source ''s1'' (factory_calls [(no_source, ''s0'')] test_factory) = (Inr (a, c), f1)"
    by (simp add: eval Let_def)
  from client_per_subscription [OF e f, of no_source "[(no_source, ''s2'')]"] have "configured test_factory c"
    and l: "ARM_ForSubscription no_source ''s1'' (factory_calls [(no_source, ''s2'')] f1) = (Inr (a, c), factory_calls [(no_source, ''s2'')] f1)" by blast+
  then have "pc_baseURL c = ''https://test''" by (simp add: configured_def eval)
  with e f l show ?thesis by blast
qed

section \<open>Tokens\<close>

lemma digits_value_snoc: "digits_value (ds @ [c]) = 10 * digits_value ds + (of_char c - 48)"
  by (simp add: digits_value_def)

lemma digit_char_value: "d < 10 \<Longrightarrow> json_digit (digit_char d) \<and> (of_char (digit_char d) :: int) - 48 = int d"
proof -
  assume d: "d < 10"
  then have "code (digit_char d) = 48 + d" unfolding digit_char_def by (intro code_byte) simp
  moreover have "(of_char (digit_char d) :: int) = int (code (digit_char d))" by (rule of_nat_of_char [symmetric])
  ultimately show ?thesis using d by (simp only: json_digit_def) simp
qed

lemma show_nat_digits: "list_all json_digit (show_nat n) \<and> show_nat n \<noteq> [] \<and> digits_value (show_nat n) = int n"
proof (induction n rule: show_nat.induct)
  case (1 n)
  show ?case
  proof (cases "n < 10")
    case True
    then have "show_nat n = [digit_char n]" by (simp add: show_nat.simps)
    then show ?thesis using digit_char_value [OF True] by (simp add: digits_value_def)
  next
    case False
    then have s: "show_nat n = show_nat (n div 10) @ [digit_char (n mod 10)]" by (subst show_nat.simps) simp
    have d: "json_digit (digit_char (n mod 10)) \<and> (of_char (digit_char (n mod 10)) :: int) - 48 = int (n mod 10)"
      by (rule digit_char_value) simp
    have "digits_value (show_nat n) = 10 * int (n div 10) + int (n mod 10)"
      using 1 False d unfolding s digits_value_snoc by simp
    also have "\<dots> = int n" by presburger
    finally show ?thesis using 1 False d unfolding s by simp
  qed
qed

lemma Atoi_show_int:
  assumes "- (2 ^ 63) \<le> n" and "n < 2 ^ 63"
  shows "Atoi (show_int n) = Some n"
proof -
  have p: "parse_decimal (show_nat m) = Some (int m)" for m using show_nat_digits [of m] by (simp add: parse_decimal_def)
  show ?thesis
  proof (cases "n < 0")
    case True
    then show ?thesis using assms p [of "nat (- n)"] by (simp add: Atoi_def show_int_def)
  next
    case False
    obtain c r where c: "show_nat (nat n) = c # r" using show_nat_digits [of "nat n"] by (cases "show_nat (nat n)") auto
    have "c \<noteq> CHR ''-'' \<and> c \<noteq> CHR ''+''" using show_nat_digits [of "nat n"] c by (auto simp: json_digit_def)
    then show ?thesis using assms False c p [of "nat n"] by (simp add: Atoi_def show_int_def)
  qed
qed

lemma scan_int_digits: "ds \<noteq> [] \<Longrightarrow> list_all json_digit ds \<Longrightarrow> scan_int ds = Atoi ds"
proof -
  assume ds: "ds \<noteq> []" "list_all json_digit ds"
  then obtain c r where c: "ds = c # r" "json_digit c" by (cases ds) auto
  then have cs: "c \<noteq> CHR ''-''" "c \<noteq> CHR ''+''" "(of_char c :: nat) \<notin> {9, 11, 12, 13, 32}" by (auto simp: json_digit_def)
  have tw: "takeWhile json_digit r = r" using ds c by (simp add: list_all_iff takeWhile_eq_all_conv)
  show ?thesis using c cs by (simp add: scan_int_def Let_def tw)
qed

text \<open>The token and the expiry that the wireserver announces are the ones the credential hands on.\<close>

lemma wireserver_token_exact:
  assumes "int ts < 2 ^ 63" and "rs_StatusCode resp = 200"
    and "rs_Body resp = (json_print (JObj [(''access_token'', JStr token), (''expires_on'', JStr (show_nat ts))]), None)"
  shows "wireserver_token t resp = Inr (token, Unix (int ts))"
proof -
  let ?j = "JObj [(''access_token'', JStr token), (''expires_on'', JStr (show_nat ts))]"
  have "json_parse (json_print ?j) = Some ?j" by (rule json_parse_print) simp
  moreover have "\<not> EqualFold ''expires_on'' ''access_token''" by code_simp
  moreover have "scan_int (show_nat ts) = Some (int ts)"
    using scan_int_digits [of "show_nat ts"] show_nat_digits [of ts] Atoi_show_int [of "int ts"] assms(1) by (simp add: show_int_def)
  ultimately show ?thesis using assms(2,3)
    by (simp add: wireserver_token_def unmarshal_token_def decode_object_def decode_token_field_def decode_string_def)
qed

end
