(* ===== verification/Trackers.thy ===== *)
theory Trackers
  imports Executor Desired_State
begin

text \<open>
  The trackers behind the metrics: the initial reconciliation (\<open>internal/metrics/reconcile.go\<close>,
  \<open>internal/controller/initial_reconcile_initializer.go\<close>), the convergence of prefix sets
  (\<open>internal/metrics/convergence.go\<close>), pod churn (\<open>internal/metrics/pod_churn.go\<close>) with their
  \<open>cleanup_stubs.go\<close>, and the helpers of \<open>mapping_reconciler.go\<close> and \<open>cmd/main.go\<close> that feed them.

  A call that sets a gauge, adds to a counter or observes a duration gives that value as a result; the operations on collectors behind it are in
  \<open>Metric_Series\<close>. Each method holds the tracker's mutex and is one step; \<open>EnsureInitialized\<close> lists the mappings
  between two critical sections and is two steps. Rates are exact rational numbers.
\<close>

section \<open>Initial reconciliation\<close>

record InitialReconcileTracker =
  irt_controllerStart :: gotime
  irt_initialKeys :: "NamespacedName goset"
  irt_completedKeys :: "NamespacedName goset"
  irt_initialized :: bool
  irt_complete :: bool

definition NewInitialReconcileTracker :: "gotime \<Rightarrow> InitialReconcileTracker" where
  "NewInitialReconcileTracker start =
     \<lparr>irt_controllerStart = start, irt_initialKeys = [], irt_completedKeys = [], irt_initialized = False, irt_complete = False\<rparr>"

text \<open>The second critical section of \<open>EnsureInitialized\<close>, after the listing.\<close>

definition ensure_commit :: "NamespacedName list \<Rightarrow> InitialReconcileTracker \<Rightarrow> InitialReconcileTracker" where
  "ensure_commit keys t =
     (if irt_initialized t then t
      else let t = t\<lparr>irt_initialKeys := fold sadd keys (irt_initialKeys t), irt_initialized := True\<rparr>
           in if irt_initialKeys t = [] then t\<lparr>irt_complete := True\<rparr> else t)"

definition EnsureInitialized :: "goerror + NamespacedName list \<Rightarrow> InitialReconcileTracker \<Rightarrow> goerror option \<times> InitialReconcileTracker" where
  "EnsureInitialized listing t =
     (if irt_initialized t then (None, t)
      else (case listing of Inl err \<Rightarrow> (Some err, t) | Inr keys \<Rightarrow> (None, ensure_commit keys t)))"

text \<open>\<open>MarkTerminal\<close>: the result is the duration given to \<open>SetInitialReconcileComplete\<close>, if it is called.\<close>

definition MarkTerminal :: "gotime \<Rightarrow> NamespacedName \<Rightarrow> bool \<Rightarrow> InitialReconcileTracker \<Rightarrow> duration option \<times> InitialReconcileTracker" where
  "MarkTerminal t key terminal tr =
     (if \<not> terminal then (None, tr)
      else if irt_complete tr \<or> \<not> irt_initialized tr then (None, tr)
      else if key \<notin> set (irt_initialKeys tr) then (None, tr)
      else (let tr = tr\<lparr>irt_completedKeys := sadd key (irt_completedKeys tr)\<rparr> in
            if length (irt_completedKeys tr) \<ge> length (irt_initialKeys tr)
            then (Some (t - irt_controllerStart tr), tr\<lparr>irt_complete := True\<rparr>)
            else (None, tr)))"

definition Forget_initial :: "NamespacedName \<Rightarrow> InitialReconcileTracker \<Rightarrow> InitialReconcileTracker" where
  "Forget_initial key tr =
     (let tr = tr\<lparr>irt_initialKeys := sdel key (irt_initialKeys tr), irt_completedKeys := sdel key (irt_completedKeys tr)\<rparr>
      in if irt_initialized tr \<and> \<not> irt_complete tr \<and> length (irt_initialKeys tr) > 0 \<and>
            length (irt_completedKeys tr) \<ge> length (irt_initialKeys tr)
         then tr\<lparr>irt_complete := True\<rparr> else tr)"

text \<open>\<open>markInitialTerminal\<close> of the reconciler: a tracker that is not initialized is initialized first.\<close>

definition markInitialTerminal :: "goerror + NamespacedName list \<Rightarrow> gotime \<Rightarrow> NamespacedName \<Rightarrow> bool \<Rightarrow> InitialReconcileTracker \<Rightarrow>
    duration option \<times> InitialReconcileTracker" where
  "markInitialTerminal listing t key terminal tr =
     (let tr = (if \<not> irt_initialized tr then snd (EnsureInitialized listing tr) else tr) in MarkTerminal t key terminal tr)"

text \<open>\<open>Start\<close> of the initializer.\<close>

definition initializer_Start :: "goerror + NamespacedName list \<Rightarrow> gotime \<Rightarrow> InitialReconcileTracker \<Rightarrow> duration option \<times> InitialReconcileTracker" where
  "initializer_Start listing t tr =
     (case EnsureInitialized listing tr of
        (Some err, tr) \<Rightarrow> (None, tr)
      | (None, tr) \<Rightarrow> if irt_complete tr then (Some (t - irt_controllerStart tr), tr) else (None, tr))"

section \<open>Convergence\<close>

datatype ConvergenceOperation = ConvergenceOpAdd | ConvergenceOpDelete | ConvergenceOpUpdate

record convergenceToken =
  ct_op :: ConvergenceOperation
  ct_target :: ASGTarget
  ct_detectedAt :: gotime
  ct_completedAt :: "gotime option"

record convergenceKey =
  ck_mappingKey :: NamespacedName
  ck_targetKey :: string
  ck_observedGeneration :: int

type_synonym ConvergenceTracker = "(convergenceKey, convergenceToken) gomap"

definition conv_key :: "NamespacedName \<Rightarrow> ASGTarget \<Rightarrow> int \<Rightarrow> convergenceKey" where
  "conv_key key target gen = \<lparr>ck_mappingKey = key, ck_targetKey = targetKey target, ck_observedGeneration = gen\<rparr>"

definition StartOrKeep :: "NamespacedName \<Rightarrow> ASGTarget \<Rightarrow> int \<Rightarrow> ConvergenceOperation \<Rightarrow> gotime \<Rightarrow> ConvergenceTracker \<Rightarrow> ConvergenceTracker" where
  "StartOrKeep key target gen oper detectedAt pending =
     (case gget pending (conv_key key target gen) of
        None \<Rightarrow> gput (conv_key key target gen) \<lparr>ct_op = oper, ct_target = target, ct_detectedAt = detectedAt, ct_completedAt = None\<rparr> pending
      | Some _ \<Rightarrow> pending)"

text \<open>The operation is an argument of \<open>StageSuccessfulAction\<close> that the code does not use.\<close>

definition StageSuccessfulAction :: "NamespacedName \<Rightarrow> ASGTarget \<Rightarrow> int \<Rightarrow> ConvergenceOperation \<Rightarrow> gotime \<Rightarrow> ConvergenceTracker \<Rightarrow> ConvergenceTracker" where
  "StageSuccessfulAction key target gen oper completedAt pending =
     (case gget pending (conv_key key target gen) of
        Some token \<Rightarrow> gput (conv_key key target gen) (token\<lparr>ct_completedAt := Some completedAt\<rparr>) pending
      | None \<Rightarrow> pending)"

text \<open>The result is what \<open>ObserveConvergence\<close> is called with.\<close>

definition CommitConvergence :: "NamespacedName \<Rightarrow> ASGTarget \<Rightarrow> int \<Rightarrow> ConvergenceTracker \<Rightarrow>
    (ASGTarget \<times> ConvergenceOperation \<times> duration) list \<times> ConvergenceTracker" where
  "CommitConvergence key target gen pending =
     (case gget pending (conv_key key target gen) of
        Some token \<Rightarrow>
          (case ct_completedAt token of
             Some completedAt \<Rightarrow> ([(target, ct_op token, completedAt - ct_detectedAt token)], gdel (conv_key key target gen) pending)
           | None \<Rightarrow> ([], pending))
      | None \<Rightarrow> ([], pending))"

definition Forget_convergence :: "NamespacedName \<Rightarrow> ConvergenceTracker \<Rightarrow> ConvergenceTracker" where
  "Forget_convergence key pending = filter (\<lambda>(ck, token). ck_mappingKey ck \<noteq> key) pending"

definition ForgetGeneration :: "NamespacedName \<Rightarrow> int \<Rightarrow> ConvergenceTracker \<Rightarrow> ConvergenceTracker" where
  "ForgetGeneration key gen pending = filter (\<lambda>(ck, token). \<not> (ck_mappingKey ck = key \<and> ck_observedGeneration ck = gen)) pending"

definition PruneStaleGenerations :: "NamespacedName \<Rightarrow> int \<Rightarrow> ConvergenceTracker \<Rightarrow> ConvergenceTracker" where
  "PruneStaleGenerations key gen pending = filter (\<lambda>(ck, token). \<not> (ck_mappingKey ck = key \<and> ck_observedGeneration ck < gen)) pending"

definition ForgetTarget :: "NamespacedName \<Rightarrow> ASGTarget \<Rightarrow> int \<Rightarrow> ConvergenceTracker \<Rightarrow> ConvergenceTracker" where
  "ForgetTarget key target gen pending = gdel (conv_key key target gen) pending"

definition HasPending :: "NamespacedName \<Rightarrow> ConvergenceTracker \<Rightarrow> bool" where
  "HasPending key pending = list_ex (\<lambda>(ck, token). ck_mappingKey ck = key) pending"

record TargetDelta =
  td_AddedIPs :: "string goset"
  td_RemovedIPs :: "string goset"

definition ClassifyConvergenceOperation :: "TargetDelta \<Rightarrow> ConvergenceOperation option" where
  "ClassifyConvergenceOperation delta =
     (let hasAdded = td_AddedIPs delta \<noteq> []; hasRemoved = td_RemovedIPs delta \<noteq> [] in
      if hasAdded \<and> hasRemoved then Some ConvergenceOpUpdate
      else if hasAdded then Some ConvergenceOpAdd
      else if hasRemoved then Some ConvergenceOpDelete
      else None)"

text \<open>The delta of a target in \<open>startConvergenceTracking\<close>.\<close>

definition target_delta :: "desired_state \<Rightarrow> actual_state \<Rightarrow> ASGTarget \<Rightarrow> TargetDelta" where
  "target_delta desired actual target =
     \<lparr>td_AddedIPs = (case gget desired target of None \<Rightarrow> []
        | Some d \<Rightarrow> filter (\<lambda>ip. case gget actual target of None \<Rightarrow> True | Some a \<Rightarrow> ip \<notin> set a) d),
      td_RemovedIPs = (case gget actual target of None \<Rightarrow> []
        | Some a \<Rightarrow> filter (\<lambda>ip. case gget desired target of None \<Rightarrow> True | Some d \<Rightarrow> ip \<notin> set d) a)\<rparr>"

definition startConvergenceTracking :: "NamespacedName \<Rightarrow> int \<Rightarrow> Action list \<Rightarrow> desired_state \<Rightarrow> actual_state \<Rightarrow> gotime \<Rightarrow>
    ConvergenceTracker \<Rightarrow> ConvergenceTracker" where
  "startConvergenceTracking key gen actions desired actual detectedAt pending =
     fold (\<lambda>action pending.
         case ClassifyConvergenceOperation (target_delta desired actual (act_Target action)) of
           Some oper \<Rightarrow> StartOrKeep key (act_Target action) gen oper detectedAt pending
         | None \<Rightarrow> pending) actions pending"

definition final_kind :: "ActionResult \<Rightarrow> ActionKind" where
  "final_kind res = (if ar_FinalActionKind res = OtherActionKind [] then act_Kind (ar_Action res) else ar_FinalActionKind res)"

definition staged_op :: "ActionResult \<Rightarrow> ConvergenceOperation" where
  "staged_op res = (case final_kind res of CreatePrefixSet \<Rightarrow> ConvergenceOpAdd | DeletePrefixSet \<Rightarrow> ConvergenceOpDelete | _ \<Rightarrow> ConvergenceOpUpdate)"

text \<open>\<open>t\<close> is \<open>time.Now()\<close>, for a result without a time of its own.\<close>

definition stageConvergenceResults :: "gotime \<Rightarrow> NamespacedName \<Rightarrow> int \<Rightarrow> ActionResult list \<Rightarrow> ConvergenceTracker \<Rightarrow> ConvergenceTracker" where
  "stageConvergenceResults t key gen results pending =
     fold (\<lambda>res pending.
         if \<not> ar_Success res \<or> ar_NoOp res then pending
         else StageSuccessfulAction key (act_Target (ar_Action res)) gen (staged_op res) (if ar_CompletedAt res = 0 then t else ar_CompletedAt res) pending)
       results pending"

text \<open>The committer that \<open>main\<close> gives to the status updater.\<close>

definition convergence_committer :: "NamespacedName \<Rightarrow> int \<Rightarrow> ActionResult list \<Rightarrow> ConvergenceTracker \<Rightarrow>
    (ASGTarget \<times> ConvergenceOperation \<times> duration) list \<times> ConvergenceTracker" where
  "convergence_committer key gen results pending =
     fold (\<lambda>res (observed, pending).
         if \<not> ar_Success res then (observed, pending)
         else if ar_NoOp res then (observed, ForgetTarget key (act_Target (ar_Action res)) gen pending)
         else (case CommitConvergence key (act_Target (ar_Action res)) gen pending of (obs, pending) \<Rightarrow> (observed @ obs, pending)))
       results ([], pending)"

text \<open>The targets whose drift counter \<open>detectAndRecordDrift\<close> increments.\<close>

definition detectAndRecordDrift :: "desired_state \<Rightarrow> actual_state \<Rightarrow> Action list \<Rightarrow> ASGTarget list" where
  "detectAndRecordDrift desired actual actions =
     (let correctedTargets = fold (\<lambda>a s. if act_Kind a \<in> {UpdatePrefixSet, PatchPrefixSet, DeletePrefixSet} then sadd (act_Target a) s else s) actions []
      in map fst (filter (\<lambda>(target, ips). target \<in> set correctedTargets \<and>
           list_ex (\<lambda>ip. case gget desired target of None \<Rightarrow> True | Some d \<Rightarrow> ip \<notin> set d) ips) actual))"

fun actionKindToOperationLabel :: "ActionKind \<Rightarrow> string" where
  "actionKindToOperationLabel CreatePrefixSet = ''create''"
| "actionKindToOperationLabel UpdatePrefixSet = ''update''"
| "actionKindToOperationLabel PatchPrefixSet = ''update''"
| "actionKindToOperationLabel DeletePrefixSet = ''delete''"
| "actionKindToOperationLabel (OtherActionKind _) = ''unknown''"

text \<open>The labels of \<open>RecordPrefixSetAction\<close> for the results of a reconcile.\<close>

definition recorded_actions :: "ActionResult list \<Rightarrow> (string \<times> string) list" where
  "recorded_actions results =
     map (\<lambda>res. (actionKindToOperationLabel (final_kind res),
                 if ar_Success res then ''success'' else ''failure''))
       (filter (\<lambda>res. \<not> ar_NoOp res) results)"

section \<open>Pod churn\<close>

definition podChurnWindow :: duration where
  "podChurnWindow = 60 * second"

record PodDeltaSummary =
  pds_Added :: nat
  pds_Deleted :: nat
  pds_Updated :: nat
  pds_Total :: nat

record churnInterval =
  ci_start :: gotime
  ci_end :: gotime
  ci_changes :: nat

record snapshotEntry =
  se_snapshot :: PodSnapshot
  se_observedAt :: gotime
  se_history :: "churnInterval list"

type_synonym PodChurnTracker = "(NamespacedName, snapshotEntry) gomap"

definition computeDelta :: "PodSnapshot option \<Rightarrow> PodSnapshot \<Rightarrow> PodDeltaSummary" where
  "computeDelta prev current =
     (case prev of
        None \<Rightarrow> \<lparr>pds_Added = length (snap_Pods current), pds_Deleted = 0, pds_Updated = 0, pds_Total = length (snap_Pods current)\<rparr>
      | Some prev \<Rightarrow>
          (let added = length (filter (\<lambda>(i, m). gget (snap_Pods prev) i = None) (snap_Pods current));
               updated = length (filter (\<lambda>(i, m). case gget (snap_Pods prev) i of None \<Rightarrow> False | Some p \<Rightarrow> mem_PodIP p \<noteq> mem_PodIP m) (snap_Pods current));
               deleted = length (filter (\<lambda>(i, m). gget (snap_Pods current) i = None) (snap_Pods prev))
           in \<lparr>pds_Added = added, pds_Deleted = deleted, pds_Updated = updated, pds_Total = added + deleted + updated\<rparr>))"

text \<open>The changes of an interval that fall into the window, in proportion to the overlap.\<close>

definition weighted :: "gotime \<Rightarrow> gotime \<Rightarrow> churnInterval \<Rightarrow> rat" where
  "weighted windowStart t iv =
     (let intervalDuration = ci_end iv - ci_start iv in
      if intervalDuration \<le> 0 then 0
      else
        (let overlapStart = (if ci_start iv < windowStart then windowStart else ci_start iv);
             overlapEnd = (if ci_end iv > t then t else ci_end iv);
             overlapDuration = overlapEnd - overlapStart
         in if overlapDuration \<le> 0 then 0 else of_nat (ci_changes iv) * (of_int overlapDuration / of_int intervalDuration)))"

definition pruned_history :: "gotime \<Rightarrow> snapshotEntry option \<Rightarrow> PodDeltaSummary \<Rightarrow> churnInterval list" where
  "pruned_history t prev delta =
     (let history = (case prev of
            None \<Rightarrow> []
          | Some p \<Rightarrow>
              if se_observedAt p \<noteq> 0 \<and> t > se_observedAt p \<and> pds_Total delta > 0
              then se_history p @ [\<lparr>ci_start = se_observedAt p, ci_end = t, ci_changes = pds_Total delta\<rparr>] else se_history p)
      in filter (\<lambda>iv. ci_end iv > t - podChurnWindow) history)"

text \<open>The results are the delta, the counters added to, and the rate of the gauge.\<close>

definition ObserveSnapshot :: "NamespacedName \<Rightarrow> PodSnapshot \<Rightarrow> gotime \<Rightarrow> PodChurnTracker \<Rightarrow>
    (PodDeltaSummary \<times> (string \<times> nat) list \<times> rat) \<times> PodChurnTracker" where
  "ObserveSnapshot key current t tr =
     (let prev = gget tr key;
          delta = computeDelta (map_option se_snapshot prev) current;
          counters = filter (\<lambda>(oper, n). n > 0) [(''add'', pds_Added delta), (''delete'', pds_Deleted delta), (''update'', pds_Updated delta)];
          history = pruned_history t prev delta;
          rate = sum_list (map (weighted (t - podChurnWindow) t) history) / 60
      in ((delta, counters, rate), gput key \<lparr>se_snapshot = current, se_observedAt = t, se_history = history\<rparr> tr))"

definition Forget_churn :: "NamespacedName \<Rightarrow> PodChurnTracker \<Rightarrow> PodChurnTracker" where
  "Forget_churn key tr = gdel key tr"

definition HasSnapshot :: "NamespacedName \<Rightarrow> PodChurnTracker \<Rightarrow> bool" where
  "HasSnapshot key tr \<longleftrightarrow> gget tr key \<noteq> None"

text \<open>What \<open>cleanupPerMappingMetricState\<close> does to the two trackers.\<close>

definition forget_mapping :: "NamespacedName \<Rightarrow> ConvergenceTracker \<times> PodChurnTracker \<Rightarrow> ConvergenceTracker \<times> PodChurnTracker" where
  "forget_mapping key s = (case s of (conv, churn) \<Rightarrow> (Forget_convergence key conv, Forget_churn key churn))"


section \<open>The initial reconciliation completes\<close>

text \<open>What happens to a tracker: a listing is committed, by the initializer or by a reconcile, or a reconcile ends.\<close>

datatype tracker_step = Listed "NamespacedName list" | Marked gotime NamespacedName bool

fun tracker_run :: "tracker_step list \<Rightarrow> InitialReconcileTracker \<Rightarrow> duration list \<times> InitialReconcileTracker" where
  "tracker_run [] tr = ([], tr)"
| "tracker_run (Listed keys # steps) tr = tracker_run steps (ensure_commit keys tr)"
| "tracker_run (Marked t key terminal # steps) tr =
     (case MarkTerminal t key terminal tr of
        (d, tr) \<Rightarrow> (case tracker_run steps tr of (ds, tr) \<Rightarrow> ((case d of None \<Rightarrow> [] | Some x \<Rightarrow> [x]) @ ds, tr)))"

definition tracker_inv :: "NamespacedName set \<Rightarrow> InitialReconcileTracker \<Rightarrow> bool" where
  "tracker_inv keys tr \<longleftrightarrow> irt_initialized tr \<and> set (irt_initialKeys tr) = keys \<and> distinct (irt_initialKeys tr) \<and>
     set (irt_completedKeys tr) \<subseteq> keys \<and> distinct (irt_completedKeys tr) \<and> (irt_complete tr \<longleftrightarrow> set (irt_completedKeys tr) = keys)"

lemma length_subset_eq: "distinct xs \<Longrightarrow> distinct ys \<Longrightarrow> set xs \<subseteq> set ys \<Longrightarrow> length ys \<le> length xs \<longleftrightarrow> set xs = set ys"
  using card_seteq [of "set ys" "set xs"] by (auto simp: distinct_card [symmetric])

lemma MarkTerminal_inv:
  assumes i: "tracker_inv keys tr" and m: "MarkTerminal t key terminal tr = (d, tr')"
  shows "tracker_inv keys tr'" and "irt_complete tr \<Longrightarrow> d = None \<and> tr' = tr"
    and "\<not> irt_complete tr \<Longrightarrow> set (irt_completedKeys tr') = (if terminal \<and> key \<in> keys then insert key (set (irt_completedKeys tr)) else set (irt_completedKeys tr))"
    and "\<not> irt_complete tr \<Longrightarrow> d \<noteq> None \<longleftrightarrow> irt_complete tr'"
proof -
  consider (same) "tr' = tr" "d = None" "irt_complete tr \<or> \<not> (terminal \<and> key \<in> keys)"
    | (marked) "\<not> irt_complete tr" "terminal" "key \<in> keys"
    using i m by (auto simp: MarkTerminal_def tracker_inv_def split: if_splits)
  then have "tracker_inv keys tr' \<and> (irt_complete tr \<longrightarrow> d = None \<and> tr' = tr) \<and>
    (\<not> irt_complete tr \<longrightarrow> set (irt_completedKeys tr') = (if terminal \<and> key \<in> keys then insert key (set (irt_completedKeys tr)) else set (irt_completedKeys tr))
      \<and> (d \<noteq> None \<longleftrightarrow> irt_complete tr'))"
  proof cases
    case same
    then show ?thesis using i by auto
  next
    case marked
    let ?c = "sadd key (irt_completedKeys tr)"
    have "length (irt_initialKeys tr) \<le> length ?c \<longleftrightarrow> set ?c = keys"
      using i marked(3) length_subset_eq [of ?c "irt_initialKeys tr"] by (auto simp: tracker_inv_def)
    then show ?thesis using i m marked by (auto simp: MarkTerminal_def tracker_inv_def Let_def split: if_splits)
  qed
  then show "tracker_inv keys tr'" and "irt_complete tr \<Longrightarrow> d = None \<and> tr' = tr"
    and "\<not> irt_complete tr \<Longrightarrow> set (irt_completedKeys tr') = (if terminal \<and> key \<in> keys then insert key (set (irt_completedKeys tr)) else set (irt_completedKeys tr))"
    and "\<not> irt_complete tr \<Longrightarrow> d \<noteq> None \<longleftrightarrow> irt_complete tr'" by blast+
qed

lemma tracker_run_inv:
  "tracker_inv keys tr \<Longrightarrow> tracker_run steps tr = (ds, tr') \<Longrightarrow>
   tracker_inv keys tr' \<and> (irt_complete tr \<longrightarrow> irt_complete tr' \<and> ds = []) \<and>
   (\<not> irt_complete tr \<longrightarrow> (irt_complete tr' \<longleftrightarrow> keys \<subseteq> set (irt_completedKeys tr) \<union> {k. \<exists>t. Marked t k True \<in> set steps}) \<and>
      length ds = (if irt_complete tr' then 1 else 0))"
proof (induction steps arbitrary: tr ds)
  case Nil
  then show ?case by (auto simp: tracker_inv_def)
next
  case (Cons step steps)
  show ?case
  proof (cases step)
    case (Listed ks)
    then show ?thesis using Cons.IH [of tr ds] Cons.prems by (auto simp: ensure_commit_def tracker_inv_def)
  next
    case (Marked t k terminal)
    obtain d tr1 where m: "MarkTerminal t k terminal tr = (d, tr1)" by fastforce
    obtain ds1 where r: "tracker_run steps tr1 = (ds1, tr')" and ds: "ds = (case d of None \<Rightarrow> [] | Some x \<Rightarrow> [x]) @ ds1"
      using Cons.prems(2) Marked m by (auto split: prod.splits)
    note mi = MarkTerminal_inv [OF Cons.prems(1) m]
    note ih = Cons.IH [OF mi(1) r]
    have marks: "{k'. \<exists>t. Marked t k' True \<in> set (step # steps)} =
        (if terminal then {k} else {}) \<union> {k'. \<exists>t. Marked t k' True \<in> set steps}" using Marked by auto
    show ?thesis
    proof (cases "irt_complete tr")
      case True
      then show ?thesis using ih mi(2) ds by auto
    next
      case False
      show ?thesis
      proof (cases "irt_complete tr1")
        case True
        then have "set (irt_completedKeys tr1) = keys" using mi(1) by (simp add: tracker_inv_def)
        then have "keys \<subseteq> set (irt_completedKeys tr) \<union> (if terminal then {k} else {})" using mi(3) [OF False] by (auto split: if_splits)
        then show ?thesis using ih True False mi(4) ds unfolding marks by auto
      next
        case nc: False
        have "keys \<subseteq> set (irt_completedKeys tr1) \<union> X \<longleftrightarrow> keys \<subseteq> set (irt_completedKeys tr) \<union> ((if terminal then {k} else {}) \<union> X)" for X
          using mi(3) [OF False] by auto
        then show ?thesis using ih nc False mi(4) ds unfolding marks by auto
      qed
    qed
  qed
qed


definition nn :: "string \<Rightarrow> NamespacedName" where
  "nn name = \<lparr>nn_Namespace = ''ns'', nn_Name = name\<rparr>"


text \<open>Forgetting the last listed mapping leaves the tracker incomplete for good: no later outcome completes it.\<close>

lemma forget_last_key_stalls:
  "tracker_run (map (\<lambda>(t, k, b). Marked t k b) marks) (Forget_initial k (ensure_commit [k] (NewInitialReconcileTracker start))) =
     ([], Forget_initial k (ensure_commit [k] (NewInitialReconcileTracker start))) \<and>
   \<not> irt_complete (Forget_initial k (ensure_commit [k] (NewInitialReconcileTracker start)))"
  by (induction marks) (auto simp: Forget_initial_def ensure_commit_def NewInitialReconcileTracker_def MarkTerminal_def Let_def)


section \<open>Convergence is observed once\<close>

abbreviation res_target :: "ActionResult \<Rightarrow> ASGTarget" where
  "res_target res \<equiv> act_Target (ar_Action res)"

definition staged_at :: "gotime \<Rightarrow> ActionResult \<Rightarrow> gotime" where
  "staged_at t res = (if ar_CompletedAt res = 0 then t else ar_CompletedAt res)"

lemma conv_key_eq [simp]: "conv_key key target gen = conv_key key target' gen \<longleftrightarrow> targetKey target = targetKey target'"
  by (simp add: conv_key_def)

lemma StageSuccessfulAction_get:
  "gget (StageSuccessfulAction key target gen oper t pending) ck =
     (if ck = conv_key key target gen then map_option (\<lambda>tok. tok\<lparr>ct_completedAt := Some t\<rparr>) (gget pending ck) else gget pending ck)"
  by (auto simp: StageSuccessfulAction_def split: option.splits)

lemma stage_Cons: "stageConvergenceResults t key gen (res # results) pending = stageConvergenceResults t key gen results
    (if \<not> ar_Success res \<or> ar_NoOp res then pending
     else StageSuccessfulAction key (res_target res) gen (staged_op res) (staged_at t res) pending)"
  by (simp add: stageConvergenceResults_def staged_at_def)

text \<open>Staging changes the tokens of the results only.\<close>

lemma stage_other:
  "(\<forall>res \<in> set results. ck \<noteq> conv_key key (res_target res) gen) \<Longrightarrow> gget (stageConvergenceResults t key gen results pending) ck = gget pending ck"
proof (induction results arbitrary: pending)
  case (Cons res results)
  then show ?case unfolding stage_Cons by (simp add: StageSuccessfulAction_get)
qed (simp add: stageConvergenceResults_def)

lemma stage_get:
  assumes "distinct (map (targetKey \<circ> res_target) results)" and "res \<in> set results"
  shows "gget (stageConvergenceResults t key gen results pending) (conv_key key (res_target res) gen) =
    (if ar_Success res \<and> \<not> ar_NoOp res then map_option (\<lambda>tok. tok\<lparr>ct_completedAt := Some (staged_at t res)\<rparr>) (gget pending (conv_key key (res_target res) gen))
     else gget pending (conv_key key (res_target res) gen))"
  using assms
proof (induction results arbitrary: pending)
  case (Cons r results)
  show ?case
  proof (cases "res = r")
    case True
    have "\<forall>x \<in> set results. conv_key key (res_target r) gen \<noteq> conv_key key (res_target x) gen"
      using Cons.prems(1) by (auto simp: image_iff)
    from stage_other [OF this] True show ?thesis unfolding stage_Cons by (simp add: StageSuccessfulAction_get)
  next
    case False
    then have m: "res \<in> set results" and k: "targetKey (res_target res) \<noteq> targetKey (res_target r)" using Cons.prems by (auto simp: image_iff)
    show ?thesis unfolding stage_Cons using Cons.IH [OF _ m] Cons.prems(1) k by (simp add: StageSuccessfulAction_get)
  qed
qed simp

definition commit_step :: "NamespacedName \<Rightarrow> int \<Rightarrow> ActionResult \<Rightarrow> ConvergenceTracker \<Rightarrow>
    (ASGTarget \<times> ConvergenceOperation \<times> duration) list \<times> ConvergenceTracker" where
  "commit_step key gen res pending =
     (if \<not> ar_Success res then ([], pending)
      else if ar_NoOp res then ([], ForgetTarget key (res_target res) gen pending)
      else CommitConvergence key (res_target res) gen pending)"

lemma committer_fold:
  "fold (\<lambda>res (observed, pending).
         if \<not> ar_Success res then (observed, pending)
         else if ar_NoOp res then (observed, ForgetTarget key (res_target res) gen pending)
         else (case CommitConvergence key (res_target res) gen pending of (obs, pending) \<Rightarrow> (observed @ obs, pending)))
       results (obs0, pending) = (obs0 @ fst (convergence_committer key gen results pending), snd (convergence_committer key gen results pending))"
  unfolding convergence_committer_def
proof (induction results rule: rev_induct)
  case (snoc res results)
  then show ?case by (simp split: prod.splits)
qed simp

lemma committer_Nil [simp]: "convergence_committer key gen [] pending = ([], pending)"
  by (simp add: convergence_committer_def)

lemma committer_Cons: "convergence_committer key gen (res # results) pending =
    (case commit_step key gen res pending of (obs, p) \<Rightarrow>
      (obs @ fst (convergence_committer key gen results p), snd (convergence_committer key gen results p)))"
  by (subst convergence_committer_def) (simp add: committer_fold commit_step_def split: prod.splits)

lemma commit_step_get:
  "commit_step key gen res pending = (obs, p) \<Longrightarrow>
   gget p ck = (if ck = conv_key key (res_target res) gen \<and> ar_Success res \<and>
      (ar_NoOp res \<or> (\<exists>tok. gget pending ck = Some tok \<and> ct_completedAt tok \<noteq> None)) then None else gget pending ck)"
  by (auto simp: commit_step_def ForgetTarget_def CommitConvergence_def split: if_splits option.splits)

text \<open>Nothing left to do for a result.\<close>

definition settled :: "NamespacedName \<Rightarrow> int \<Rightarrow> ActionResult \<Rightarrow> ConvergenceTracker \<Rightarrow> bool" where
  "settled key gen res pending \<longleftrightarrow> (ar_Success res \<longrightarrow>
     (case gget pending (conv_key key (res_target res) gen) of None \<Rightarrow> True | Some tok \<Rightarrow> \<not> ar_NoOp res \<and> ct_completedAt tok = None))"

lemma commit_step_settles: "commit_step key gen res pending = (obs, p) \<Longrightarrow> settled key gen res p"
  by (auto simp: settled_def commit_step_get split: option.splits if_splits)

lemma commit_step_keeps: "commit_step key gen res pending = (obs, p) \<Longrightarrow> settled key gen r pending \<Longrightarrow> settled key gen r p"
  by (auto simp: settled_def commit_step_get split: option.splits if_splits)

lemma gdel_absent: "gget m k = None \<Longrightarrow> gdel k m = m"
  unfolding gget_None_iff by (simp add: delete_id)

lemma settled_step: "settled key gen res pending \<Longrightarrow> commit_step key gen res pending = ([], pending)"
  by (auto simp: settled_def commit_step_def ForgetTarget_def CommitConvergence_def gdel_absent split: option.splits)

lemma committer_keeps: "settled key gen r pending \<Longrightarrow> settled key gen r (snd (convergence_committer key gen results pending))"
proof (induction results arbitrary: pending)
  case (Cons res results)
  then show ?case using commit_step_keeps by (fastforce simp: committer_Cons split: prod.splits)
qed simp

lemma committer_settles: "res \<in> set results \<Longrightarrow> settled key gen res (snd (convergence_committer key gen results pending))"
proof (induction results arbitrary: pending)
  case (Cons r results)
  then show ?case using commit_step_settles committer_keeps by (fastforce simp: committer_Cons split: prod.splits)
qed simp

lemma settled_committer: "\<forall>res \<in> set results. settled key gen res pending \<Longrightarrow> convergence_committer key gen results pending = ([], pending)"
  by (induction results) (simp_all add: committer_Cons settled_step)

text \<open>What a result of a reconcile contributes, in terms of the tokens that were pending before.\<close>

definition observation :: "gotime \<Rightarrow> NamespacedName \<Rightarrow> int \<Rightarrow> ConvergenceTracker \<Rightarrow> ActionResult \<Rightarrow> (ASGTarget \<times> ConvergenceOperation \<times> duration) list" where
  "observation t key gen pending res =
     (if ar_Success res \<and> \<not> ar_NoOp res then
        (case gget pending (conv_key key (res_target res) gen) of
           Some tok \<Rightarrow> [(res_target res, ct_op tok, staged_at t res - ct_detectedAt tok)]
         | None \<Rightarrow> [])
      else [])"

lemma committer_observes:
  "distinct (map (targetKey \<circ> res_target) results) \<Longrightarrow>
   (\<forall>res \<in> set results. gget p (conv_key key (res_target res) gen) =
      (if ar_Success res \<and> \<not> ar_NoOp res then map_option (\<lambda>tok. tok\<lparr>ct_completedAt := Some (staged_at t res)\<rparr>) (gget pending (conv_key key (res_target res) gen))
       else gget pending (conv_key key (res_target res) gen))) \<Longrightarrow>
   fst (convergence_committer key gen results p) = concat (map (observation t key gen pending) results)"
proof (induction results arbitrary: p)
  case (Cons res results)
  obtain obs p' where s: "commit_step key gen res p = (obs, p')" by fastforce
  have "obs = observation t key gen pending res"
    using s Cons.prems(2) by (auto simp: commit_step_def CommitConvergence_def observation_def split: if_splits option.splits)
  moreover have "fst (convergence_committer key gen results p') = concat (map (observation t key gen pending) results)"
  proof (rule Cons.IH)
    show "distinct (map (targetKey \<circ> res_target) results)" using Cons.prems(1) by (simp add: comp_def)
    show "\<forall>r \<in> set results. gget p' (conv_key key (res_target r) gen) =
      (if ar_Success r \<and> \<not> ar_NoOp r then map_option (\<lambda>tok. tok\<lparr>ct_completedAt := Some (staged_at t r)\<rparr>) (gget pending (conv_key key (res_target r) gen))
       else gget pending (conv_key key (res_target r) gen))"
    proof
      fix r assume r: "r \<in> set results"
      then have "conv_key key (res_target r) gen \<noteq> conv_key key (res_target res) gen" using Cons.prems(1) by (auto simp: image_iff)
      then have "gget p' (conv_key key (res_target r) gen) = gget p (conv_key key (res_target r) gen)" using commit_step_get [OF s] by simp
      then show "gget p' (conv_key key (res_target r) gen) =
      (if ar_Success r \<and> \<not> ar_NoOp r then map_option (\<lambda>tok. tok\<lparr>ct_completedAt := Some (staged_at t r)\<rparr>) (gget pending (conv_key key (res_target r) gen))
       else gget pending (conv_key key (res_target r) gen))" using Cons.prems(2) r by simp
    qed
  qed
  ultimately show ?case by (simp add: committer_Cons s)
qed simp


text \<open>Two targets: one action completes after 25 seconds, the other is found converged.\<close>

definition trk_target :: "string \<Rightarrow> ASGTarget" where
  "trk_target asg = \<lparr>tgt_SubscriptionID = ''s'', tgt_ResourceGroup = ''g'', tgt_ASGName = asg, tgt_FullResourceID = asg, tgt_PrefixSetName = ''p''\<rparr>"

definition trk_result :: "string \<Rightarrow> bool \<Rightarrow> ActionResult" where
  "trk_result asg noop = \<lparr>ar_Action = \<lparr>act_Kind = UpdatePrefixSet, act_Target = trk_target asg, act_DesiredIPs = [], act_AddIPs = [], act_RemoveIPs = []\<rparr>,
     ar_Success = True, ar_Err = None, ar_CompletedAt = 30, ar_NoOp = noop, ar_FinalActionKind = UpdatePrefixSet\<rparr>"


section \<open>Pod churn\<close>

lemma count_filter_keys: "wfmap m \<Longrightarrow> length (filter (\<lambda>(i, v). P i v) m) = card {i. \<exists>v. gget m i = Some v \<and> P i v}"
proof -
  assume w: "wfmap m"
  have "length (filter (\<lambda>(i, v). P i v) m) = card (fst ` set (filter (\<lambda>(i, v). P i v) m))"
    using w distinct_card [of "map fst (filter (\<lambda>(i, v). P i v) m)"] by (simp add: distinct_map_filter)
  also have "fst ` set (filter (\<lambda>(i, v). P i v) m) = {i. \<exists>v. gget m i = Some v \<and> P i v}"
    using w by (force simp: wfmap_gget_iff)
  finally show ?thesis .
qed

lemma weighted_bounds: "0 \<le> weighted s t iv \<and> weighted s t iv \<le> of_nat (ci_changes iv)"
proof (cases "ci_end iv - ci_start iv \<le> 0 \<or> weighted s t iv = 0")
  case True
  then show ?thesis by (auto simp: weighted_def)
next
  case False
  let ?o = "(if ci_end iv > t then t else ci_end iv) - (if ci_start iv < s then s else ci_start iv)" and ?d = "ci_end iv - ci_start iv"
  have w: "weighted s t iv = of_nat (ci_changes iv) * (of_int ?o / of_int ?d)" and "0 < ?o" using False by (auto simp: weighted_def Let_def split: if_splits)
  moreover have "?o \<le> ?d" by simp
  ultimately have "0 \<le> of_int ?o / (of_int ?d :: rat)" "of_int ?o / (of_int ?d :: rat) \<le> 1"
    by (simp_all only: divide_le_eq_1 zero_le_divide_iff of_int_le_iff of_int_0_le_iff of_int_less_iff of_int_0_less_iff) auto
  then show ?thesis unfolding w by (intro conjI mult_nonneg_nonneg mult_left_le) simp_all
qed

text \<open>the churn that is reported is the difference of two snapshots: pods that appeared, that
  disappeared, and whose address changed, each counted once; the rate is never negative and never more than
  the changes of the intervals that reach into the last minute, spread over it.\<close>

theorem churn_exact:
  assumes "ObserveSnapshot key current t tr = ((delta, counters, rate), tr')" and "gget tr key = Some e"
    and "wfmap (snap_Pods current)" and "wfmap (snap_Pods (se_snapshot e))"
  shows "let old = gget (snap_Pods (se_snapshot e)); new = gget (snap_Pods current) in
    pds_Added delta = card {i. new i \<noteq> None \<and> old i = None} \<and> pds_Deleted delta = card {i. old i \<noteq> None \<and> new i = None} \<and>
    pds_Updated delta = card {i. \<exists>m p. new i = Some m \<and> old i = Some p \<and> mem_PodIP m \<noteq> mem_PodIP p} \<and>
    (\<exists>h. gget tr' key = Some \<lparr>se_snapshot = current, se_observedAt = t, se_history = h\<rparr> \<and> (\<forall>iv \<in> set h. t - podChurnWindow < ci_end iv) \<and>
      0 \<le> rate \<and> rate \<le> of_nat (sum_list (map ci_changes h)) / 60)"
proof -
  let ?h = "pruned_history t (gget tr key) (computeDelta (map_option se_snapshot (gget tr key)) current)"
  let ?old = "gget (snap_Pods (se_snapshot e))" and ?new = "gget (snap_Pods current)"
  have bounds: "0 \<le> sum_list (map (weighted s t) h) \<and> sum_list (map (weighted s t) h) \<le> of_nat (sum_list (map ci_changes h))" for s h
    using weighted_bounds by (induction h) (auto intro: add_mono add_nonneg_nonneg)
  have d: "delta = computeDelta (Some (se_snapshot e)) current" and e: "gget tr' key = Some \<lparr>se_snapshot = current, se_observedAt = t, se_history = ?h\<rparr>"
    and r: "rate = sum_list (map (weighted (t - podChurnWindow) t) ?h) / 60"
    using assms(1,2) by (auto simp: ObserveSnapshot_def Let_def)
  have "pds_Added delta = card {i. \<exists>v. ?new i = Some v \<and> ?old i = None}" "pds_Deleted delta = card {i. \<exists>v. ?old i = Some v \<and> ?new i = None}"
    "pds_Updated delta = card {i. \<exists>v. ?new i = Some v \<and> (case ?old i of None \<Rightarrow> False | Some p \<Rightarrow> mem_PodIP p \<noteq> mem_PodIP v)}"
    unfolding d by (simp_all add: computeDelta_def Let_def count_filter_keys [OF assms(3)] count_filter_keys [OF assms(4)])
  moreover have "{i. \<exists>v. ?new i = Some v \<and> ?old i = None} = {i. ?new i \<noteq> None \<and> ?old i = None}"
    "{i. \<exists>v. ?old i = Some v \<and> ?new i = None} = {i. ?old i \<noteq> None \<and> ?new i = None}"
    "{i. \<exists>v. ?new i = Some v \<and> (case ?old i of None \<Rightarrow> False | Some p \<Rightarrow> mem_PodIP p \<noteq> mem_PodIP v)} =
     {i. \<exists>m p. ?new i = Some m \<and> ?old i = Some p \<and> mem_PodIP m \<noteq> mem_PodIP p}"
    by (auto split: option.splits)
  moreover have "\<forall>iv \<in> set ?h. t - podChurnWindow < ci_end iv" by (auto simp: pruned_history_def Let_def)
  moreover have "0 \<le> rate" "rate \<le> of_nat (sum_list (map ci_changes ?h)) / 60"
    unfolding r using bounds [of "t - podChurnWindow" ?h] by (simp_all add: divide_right_mono)
  ultimately show ?thesis unfolding Let_def e by auto
qed

definition one_pod :: "string \<Rightarrow> string \<Rightarrow> PodSnapshot" where
  "one_pod uid ip = \<lparr>snap_Pods = [(\<lparr>id_Namespace = ''ns'', id_Name = ''p'', id_UID = uid\<rparr>, \<lparr>mem_PodIP = ip\<rparr>)]\<rparr>"

text \<open>A pod is replaced by another of the same name: one added, one deleted.\<close>

theorem churn_exact_witness:
  "\<exists>delta counters rate tr'. ObserveSnapshot (nn ''m'') (one_pod ''2'' ''10.0.0.2'') (30 * second)
       [(nn ''m'', \<lparr>se_snapshot = one_pod ''1'' ''10.0.0.1'', se_observedAt = second, se_history = []\<rparr>)] = ((delta, counters, rate), tr') \<and>
     pds_Added delta = 1 \<and> pds_Deleted delta = 1 \<and> pds_Updated delta = 0 \<and> rate = 2 / 60 \<and> 0 \<le> rate"
proof -
  let ?tr = "[(nn ''m'', \<lparr>se_snapshot = one_pod ''1'' ''10.0.0.1'', se_observedAt = second, se_history = []\<rparr>)]"
  obtain delta counters rate tr' where o: "ObserveSnapshot (nn ''m'') (one_pod ''2'' ''10.0.0.2'') (30 * second) ?tr = ((delta, counters, rate), tr')"
    by (metis prod.collapse)
  then have "pds_Added delta = 1 \<and> pds_Deleted delta = 1 \<and> pds_Updated delta = 0 \<and> rate = 2 / 60"
    by (auto simp: ObserveSnapshot_def Let_def computeDelta_def one_pod_def pruned_history_def podChurnWindow_def second_def weighted_def)
  moreover have "0 \<le> rate" using churn_exact [OF o, of "\<lparr>se_snapshot = one_pod ''1'' ''10.0.0.1'', se_observedAt = second, se_history = []\<rparr>"]
    by (auto simp: one_pod_def Let_def)
  ultimately show ?thesis using o by blast
qed

end
