(* ===== verification/Pod_Controller.thy ===== *)
theory Pod_Controller
  imports Config Status_Updater
begin

text \<open>
  The older controller of pods, which looks up the ASGs a pod asks for by label and annotation
  (\<open>internal/controller/pod_controller.go\<close>), and the wrappers of the Azure SDK it was written for
  (\<open>internal/azure/asg_client.go\<close>, \<open>internal/azure/nic_client.go\<close>).

  The Azure SDK is a parameter: its calls, the pollers it returns and its pagers. The ASGs and interfaces it
  returns are an arbitrary type. Logging is left out, and with it the texts that only the log shows. Text with \<open>%q\<close> is quoted as it is for names without
  special characters.
\<close>

section \<open>The ASGs of a pod\<close>

definition LabelASG :: string where
  "LabelASG = ''pod-nsg-controller.azure.com/asg''"

definition AnnotationASGs :: string where
  "AnnotationASGs = ''pod-nsg-controller.azure.com/asgs''"

text \<open>Reading a map that may be nil.\<close>

definition lookup :: "labels \<Rightarrow> string \<Rightarrow> string option" where
  "lookup m k = (case m of None \<Rightarrow> None | Some m \<Rightarrow> gget m k)"

definition deduplicate :: "string list \<Rightarrow> string list" where
  "deduplicate items =
     snd (fold (\<lambda>item (seen, result). if item \<in> set seen then (seen, result) else (sadd item seen, result @ [item])) items ([], []))"

definition getDesiredASGs :: "Pod \<Rightarrow> string list" where
  "getDesiredASGs pod =
     deduplicate
       ((case lookup (p_Labels pod) LabelASG of Some asg \<Rightarrow> if asg \<noteq> [] then [asg] else [] | None \<Rightarrow> []) @
        (case lookup (p_Annotations pod) AnnotationASGs of
           Some annotation \<Rightarrow> if annotation \<noteq> [] then filter (\<lambda>asg. asg \<noteq> []) (map TrimSpace (Split annotation (CHR '',''))) else []
         | None \<Rightarrow> []))"

section \<open>The clients of the Azure SDK\<close>

record ('w, 'g, 'p, 'q) azure_sdk =
  az_Get :: "string \<Rightarrow> string \<Rightarrow> 'w \<Rightarrow> (goerror + 'g) \<times> 'w"
  az_BeginCreateOrUpdate :: "string \<Rightarrow> string \<Rightarrow> 'g \<Rightarrow> 'w \<Rightarrow> (goerror + 'p) \<times> 'w"
  az_BeginDelete :: "string \<Rightarrow> string \<Rightarrow> 'w \<Rightarrow> (goerror + 'p) \<times> 'w"
  az_UpdateTags :: "string \<Rightarrow> string \<Rightarrow> (string, string option) gomap \<Rightarrow> 'w \<Rightarrow> (goerror + 'g) \<times> 'w"
  az_PollUntilDone :: "'p \<Rightarrow> 'w \<Rightarrow> (goerror + 'g) \<times> 'w"
  az_NewListPager :: "string \<Rightarrow> 'q"
  az_NewListAllPager :: 'q
  az_More :: "'q \<Rightarrow> bool"
  az_NextPage :: "'q \<Rightarrow> 'w \<Rightarrow> ((goerror + 'g list) \<times> 'q) \<times> 'w"

record ('w, 'g, 'p, 'q) ASGClient =
  asg_sdk :: "('w, 'g, 'p, 'q) azure_sdk"
  asg_resourceGroup :: string

definition quoted :: "string \<Rightarrow> string" where
  "quoted s = [CHR 0x22] @ s @ [CHR 0x22]"

definition wrapping :: "string \<Rightarrow> (goerror + 'a) \<times> 'w \<Rightarrow> (goerror + 'a) \<times> 'w" where
  "wrapping msg r = (case r of (Inl err, w) \<Rightarrow> (Inl (Wrapped msg err), w) | (Inr x, w) \<Rightarrow> (Inr x, w))"

definition ASGClient_Get :: "('w, 'g, 'p, 'q) ASGClient \<Rightarrow> string \<Rightarrow> 'w \<Rightarrow> (goerror + 'g) \<times> 'w" where
  "ASGClient_Get c asgName w = wrapping (''getting ASG '' @ quoted asgName) (az_Get (asg_sdk c) (asg_resourceGroup c) asgName w)"

text \<open>\<open>params\<close> is the group with the location and the tags.\<close>

definition ASGClient_CreateOrUpdate :: "('w, 'g, 'p, 'q) ASGClient \<Rightarrow> string \<Rightarrow> 'g \<Rightarrow> 'w \<Rightarrow> (goerror + 'g) \<times> 'w" where
  "ASGClient_CreateOrUpdate c asgName params w =
     (case az_BeginCreateOrUpdate (asg_sdk c) (asg_resourceGroup c) asgName params w of
        (Inl err, w) \<Rightarrow> (Inl (Wrapped (''starting create/update for ASG '' @ quoted asgName) err), w)
      | (Inr poller, w) \<Rightarrow> wrapping (''creating/updating ASG '' @ quoted asgName) (az_PollUntilDone (asg_sdk c) poller w))"

definition ASGClient_Delete :: "('w, 'g, 'p, 'q) ASGClient \<Rightarrow> string \<Rightarrow> 'w \<Rightarrow> goerror option \<times> 'w" where
  "ASGClient_Delete c asgName w =
     (case az_BeginDelete (asg_sdk c) (asg_resourceGroup c) asgName w of
        (Inl err, w) \<Rightarrow> (Some (Wrapped (''starting delete for ASG '' @ quoted asgName) err), w)
      | (Inr poller, w) \<Rightarrow>
          (case az_PollUntilDone (asg_sdk c) poller w of
             (Inl err, w) \<Rightarrow> (Some (Wrapped (''deleting ASG '' @ quoted asgName) err), w)
           | (Inr _, w) \<Rightarrow> (None, w)))"

definition ASGClient_UpdateTags :: "('w, 'g, 'p, 'q) ASGClient \<Rightarrow> string \<Rightarrow> (string, string option) gomap \<Rightarrow> 'w \<Rightarrow> (goerror + 'g) \<times> 'w" where
  "ASGClient_UpdateTags c asgName tags w =
     wrapping (''updating tags on ASG '' @ quoted asgName) (az_UpdateTags (asg_sdk c) (asg_resourceGroup c) asgName tags w)"

text \<open>A pager is read until it has no more pages.\<close>

partial_function (option) page_loop :: "('w, 'g, 'p, 'q) azure_sdk \<Rightarrow> string \<Rightarrow> 'q \<Rightarrow> 'g list \<Rightarrow> 'w \<Rightarrow> ((goerror + 'g list) \<times> 'w) option" where
  "page_loop sdk msg pager acc w =
     (if az_More sdk pager then
        (case az_NextPage sdk pager w of
           ((Inl err, _), w) \<Rightarrow> Some (Inl (Wrapped msg err), w)
         | ((Inr page, pager), w) \<Rightarrow> page_loop sdk msg pager (acc @ page) w)
      else Some (Inr acc, w))"

definition ASGClient_List :: "('w, 'g, 'p, 'q) ASGClient \<Rightarrow> 'w \<Rightarrow> ((goerror + 'g list) \<times> 'w) option" where
  "ASGClient_List c w = page_loop (asg_sdk c) ''listing ASGs'' (az_NewListPager (asg_sdk c) (asg_resourceGroup c)) [] w"

definition ASGClient_ListAll :: "('w, 'g, 'p, 'q) ASGClient \<Rightarrow> 'w \<Rightarrow> ((goerror + 'g list) \<times> 'w) option" where
  "ASGClient_ListAll c w = page_loop (asg_sdk c) ''listing all ASGs in subscription'' (az_NewListAllPager (asg_sdk c)) [] w"

record ('w, 'g, 'p, 'q) NICClient =
  nic_sdk :: "('w, 'g, 'p, 'q) azure_sdk"
  nic_resourceGroup :: string

definition NICClient_Get :: "('w, 'g, 'p, 'q) NICClient \<Rightarrow> string \<Rightarrow> 'w \<Rightarrow> (goerror + 'g) \<times> 'w" where
  "NICClient_Get c nicName w = wrapping (''getting NIC '' @ quoted nicName) (az_Get (nic_sdk c) (nic_resourceGroup c) nicName w)"

definition NICClient_UpdateASGs :: "('w, 'g, 'p, 'q) NICClient \<Rightarrow> string \<Rightarrow> 'g \<Rightarrow> 'w \<Rightarrow> goerror option \<times> 'w" where
  "NICClient_UpdateASGs c nicName nic w =
     (case az_BeginCreateOrUpdate (nic_sdk c) (nic_resourceGroup c) nicName nic w of
        (Inl err, w) \<Rightarrow> (Some (Wrapped (''starting NIC update for '' @ quoted nicName) err), w)
      | (Inr poller, w) \<Rightarrow>
          (case az_PollUntilDone (nic_sdk c) poller w of
             (Inl err, w) \<Rightarrow> (Some (Wrapped (''updating NIC '' @ quoted nicName) err), w)
           | (Inr _, w) \<Rightarrow> (None, w)))"

definition NICClient_ListByResourceGroup :: "('w, 'g, 'p, 'q) NICClient \<Rightarrow> 'w \<Rightarrow> ((goerror + 'g list) \<times> 'w) option" where
  "NICClient_ListByResourceGroup c w = page_loop (nic_sdk c) ''listing NICs'' (az_NewListPager (nic_sdk c) (nic_resourceGroup c)) [] w"

section \<open>The controller\<close>

record PodResult =
  pr_Requeue :: bool

fun resolveASGs :: "('w, 'g, 'p, 'q) ASGClient \<Rightarrow> string list \<Rightarrow> 'w \<Rightarrow> 'g list \<times> 'w" where
  "resolveASGs c [] w = ([], w)"
| "resolveASGs c (name # names) w =
     (case ASGClient_Get c name w of
        (Inl err, w) \<Rightarrow> resolveASGs c names w
      | (Inr asg, w) \<Rightarrow> (case resolveASGs c names w of (resolved, w) \<Rightarrow> (asg # resolved, w)))"

text \<open>The ASGs it resolves are not used yet: both exits after resolving them are the same.\<close>

definition PodReconciler_Reconcile :: "('w \<Rightarrow> (goerror + Pod) \<times> 'w) \<Rightarrow> ('w, 'g, 'p, 'q) ASGClient \<Rightarrow> 'w \<Rightarrow> (goerror + PodResult) \<times> 'w" where
  "PodReconciler_Reconcile getPod c w =
     (case getPod w of
        (Inl err, w) \<Rightarrow> if api_IsNotFound err then (Inr \<lparr>pr_Requeue = False\<rparr>, w) else (Inl (Wrapped ''fetching pod'' err), w)
      | (Inr pod, w) \<Rightarrow>
          if p_PodIP pod = [] then (Inr \<lparr>pr_Requeue = True\<rparr>, w)
          else
            (let desiredASGs = getDesiredASGs pod in
             if desiredASGs = [] then (Inr \<lparr>pr_Requeue = False\<rparr>, w)
             else (case resolveASGs c desiredASGs w of
                     (asgRefs, w) \<Rightarrow>
                       if asgRefs = [] then (Inr \<lparr>pr_Requeue = False\<rparr>, w) else (Inr \<lparr>pr_Requeue = False\<rparr>, w))))"

section \<open>Lemmas\<close>

lemma deduplicate_fold:
  "set seen = set result \<Longrightarrow> distinct result \<Longrightarrow>
   (let r = snd (fold (\<lambda>item (seen, result). if item \<in> set seen then (seen, result) else (sadd item seen, result @ [item])) items (seen, result))
    in distinct r \<and> set r = set result \<union> set items)"
proof (induction items arbitrary: seen result)
  case (Cons item items)
  then show ?case using Cons.IH [of seen result] Cons.IH [of "sadd item seen" "result @ [item]"] by (auto simp: Let_def)
qed (simp add: Let_def)

lemma deduplicate_set: "distinct (deduplicate items) \<and> set (deduplicate items) = set items"
  using deduplicate_fold [of "[]" "[]" items] by (simp add: deduplicate_def Let_def)

text \<open>the ASGs of a pod are its label and the trimmed, nonempty parts of its annotation, each
  once; no other string, in particular not the empty one, is looked up.\<close>

theorem desired_asgs_exact:
  "distinct (getDesiredASGs pod) \<and> set (getDesiredASGs pod) =
     {asg. asg \<noteq> [] \<and> (lookup (p_Labels pod) LabelASG = Some asg \<or>
        (\<exists>annotation part. lookup (p_Annotations pod) AnnotationASGs = Some annotation \<and>
           part \<in> set (Split annotation (CHR '','')) \<and> asg = TrimSpace part))}"
proof -
  have "TrimSpace [] = []" by (simp add: TrimSpace_def)
  then show ?thesis
    by (cases "lookup (p_Annotations pod) AnnotationASGs"; cases "lookup (p_Labels pod) LabelASG")
      (auto simp: getDesiredASGs_def deduplicate_set)
qed

text \<open>A group that cannot be read is skipped, the others are returned in order.\<close>

lemma resolveASGs_skips:
  assumes "\<And>name w. snd (az_Get (asg_sdk c) (asg_resourceGroup c) name w) = w"
  shows "resolveASGs c names w =
    (concat (map (\<lambda>name. case fst (az_Get (asg_sdk c) (asg_resourceGroup c) name w) of Inl _ \<Rightarrow> [] | Inr asg \<Rightarrow> [asg]) names), w)"
proof (induction names)
  case (Cons name names)
  obtain y where "az_Get (asg_sdk c) (asg_resourceGroup c) name w = (y, w)" using assms [of name w] by (metis prod.collapse)
  then show ?case using Cons.IH by (cases y) (simp_all add: ASGClient_Get_def wrapping_def)
qed simp

lemma page_loop_returns:
  assumes "\<And>q w page q' w'. az_More sdk q \<Longrightarrow> az_NextPage sdk q w = ((Inr page, q'), w') \<Longrightarrow> left q' < (left q :: nat)"
  shows "\<exists>res. page_loop sdk msg q acc w = Some res"
proof (induction "left q" arbitrary: q acc w rule: less_induct)
  case less
  obtain y q' w' where n: "az_NextPage sdk q w = ((y, q'), w')" by (metis prod.collapse)
  show ?case
  proof (cases "az_More sdk q")
    case True
    show ?thesis
    proof (cases y)
      case (Inl e)
      then show ?thesis using True n by (simp add: page_loop.simps)
    next
      case (Inr page)
      from less [OF assms [OF True n [unfolded Inr]]] show ?thesis using True n Inr by (simp add: page_loop.simps [of sdk msg q])
    qed
  qed (simp add: page_loop.simps)
qed

end
