(* ===== verification/Metrics.thy ===== *)
theory Metrics
  imports Arm_Errors
begin

text \<open>
  The metrics registry and the queue that is measured (\<open>internal/metrics/metrics.go\<close>,
  \<open>internal/metrics/queue.go\<close> and the lists of collectors in \<open>arm.go\<close>, \<open>convergence.go\<close>,
  \<open>pod_churn.go\<close>, \<open>reconcile.go\<close>).

  A Prometheus collector is its dynamic type, its name and its address; what happens to it is in \<open>Metric_Series\<close>. A recorder is
  the list of its fields in the order of \<open>Collectors()\<close>. The Prometheus registerer and the work queue of
  client-go are parameters.
\<close>

section \<open>Collectors and recorders\<close>

datatype collector_kind = CounterVec | GaugeVec | HistogramVec | Gauge | OtherCollector

record collector =
  col_kind :: collector_kind
  col_name :: string
  col_addr :: nat

type_synonym recorder = "collector list"

text \<open>The types and names of the fields of each recorder.\<close>

definition pod_churn_fields :: "(collector_kind \<times> string) list" where
  "pod_churn_fields = [(CounterVec, ''pod_ip_changes_total''), (GaugeVec, ''pod_churn_rate'')]"

definition arm_fields :: "(collector_kind \<times> string) list" where
  "arm_fields =
     [(CounterVec, ''arm_requests_total''), (HistogramVec, ''arm_request_duration_seconds''), (CounterVec, ''arm_retries_total''),
      (CounterVec, ''arm_rate_limit_delays_total''), (HistogramVec, ''arm_rate_limit_delay_seconds''),
      (HistogramVec, ''arm_call_duration_seconds''), (Gauge, ''arm_concurrent_actions''), (CounterVec, ''arm_etag_conflicts_total'')]"

definition convergence_fields :: "(collector_kind \<times> string) list" where
  "convergence_fields =
     [(HistogramVec, ''prefix_set_convergence_seconds''), (CounterVec, ''prefix_set_drift_corrections_total''),
      (CounterVec, ''prefix_set_actions_total'')]"

definition reconcile_fields :: "(collector_kind \<times> string) list" where
  "reconcile_fields =
     [(HistogramVec, ''reconcile_duration_seconds''), (CounterVec, ''reconcile_total''), (Gauge, ''reconcile_queue_depth''),
      (Gauge, ''reconcile_inflight''), (HistogramVec, ''reconcile_actions_per_cycle''), (Gauge, ''initial_reconcile_duration_seconds''),
      (Gauge, ''initial_reconcile_complete''), (HistogramVec, ''crd_resolution_duration_seconds'')]"

text \<open>A new recorder, with fresh addresses from \<open>a\<close> on.\<close>

definition new_recorder :: "(collector_kind \<times> string) list \<Rightarrow> nat \<Rightarrow> recorder" where
  "new_recorder spec a = map (\<lambda>(i, kind, name). \<lparr>col_kind = kind, col_name = name, col_addr = a + i\<rparr>) (enumerate 0 spec)"

datatype register_result = Registered | AlreadyRegistered collector | RegisterFailed goerror

definition rebind :: "(collector_kind \<times> string) list \<Rightarrow> string \<Rightarrow> nat \<Rightarrow> collector \<Rightarrow> recorder \<Rightarrow> goerror + recorder" where
  "rebind spec who i c r =
     (if i < length spec \<and> col_kind c = fst (spec ! i) then Inr (r[i := c])
      else Inl (OtherError (''rebind '' @ who @ '' collector '' @ show_nat i @ '': type mismatch'')))"

fun registerCollectors :: "(collector \<Rightarrow> 'w \<Rightarrow> register_result \<times> 'w) \<Rightarrow> (nat \<Rightarrow> collector \<Rightarrow> recorder \<Rightarrow> goerror + recorder) \<Rightarrow>
    (nat \<times> collector) list \<Rightarrow> recorder \<Rightarrow> 'w \<Rightarrow> (goerror + recorder) \<times> 'w" where
  "registerCollectors register rebindFn [] r w = (Inr r, w)"
| "registerCollectors register rebindFn ((i, c) # cs) r w =
     (case register c w of
        (Registered, w) \<Rightarrow> registerCollectors register rebindFn cs r w
      | (AlreadyRegistered existing, w) \<Rightarrow>
          (case rebindFn i existing r of
             Inl err \<Rightarrow> (Inl err, w)
           | Inr r \<Rightarrow> registerCollectors register rebindFn cs r w)
      | (RegisterFailed err, w) \<Rightarrow> (Inl (Wrapped ''registering collector'' err), w))"

record Recorder =
  rec_PodChurn :: recorder
  rec_ARM :: recorder
  rec_Convergence :: recorder
  rec_Reconcile :: recorder

definition register_recorder :: "(collector \<Rightarrow> 'w \<Rightarrow> register_result \<times> 'w) \<Rightarrow> (collector_kind \<times> string) list \<Rightarrow> string \<Rightarrow> nat \<Rightarrow> 'w \<Rightarrow>
    (goerror + recorder) \<times> 'w" where
  "register_recorder register spec who a w =
     (let r = new_recorder spec a in registerCollectors register (rebind spec who) (enumerate 0 r) r w)"

definition RegisterWith :: "(collector \<Rightarrow> 'w \<Rightarrow> register_result \<times> 'w) \<Rightarrow> 'w \<Rightarrow> (goerror + Recorder) \<times> 'w" where
  "RegisterWith register w =
     (case register_recorder register pod_churn_fields ''PodChurn'' 0 w of
        (Inl err, w) \<Rightarrow> (Inl err, w)
      | (Inr churn, w) \<Rightarrow>
     (case register_recorder register arm_fields ''ARM'' 2 w of
        (Inl err, w) \<Rightarrow> (Inl err, w)
      | (Inr arm, w) \<Rightarrow>
     (case register_recorder register convergence_fields ''Convergence'' 10 w of
        (Inl err, w) \<Rightarrow> (Inl err, w)
      | (Inr conv, w) \<Rightarrow>
     (case register_recorder register reconcile_fields ''Reconcile'' 13 w of
        (Inl err, w) \<Rightarrow> (Inl err, w)
      | (Inr reconcile, w) \<Rightarrow>
          (Inr \<lparr>rec_PodChurn = churn, rec_ARM = arm, rec_Convergence = conv, rec_Reconcile = reconcile\<rparr>, w)))))"

definition AllCollectors :: "Recorder \<Rightarrow> collector list" where
  "AllCollectors r = rec_PodChurn r @ rec_ARM r @ rec_Convergence r @ rec_Reconcile r"

section \<open>The measured queue\<close>

text \<open>The queue of client-go; \<open>wq_Get\<close> answers an item or that the queue is shut down.\<close>

record ('i, 'q) work_queue =
  wq_Add :: "'i \<Rightarrow> 'q \<Rightarrow> 'q"
  wq_Get :: "'q \<Rightarrow> ('i \<times> bool) \<times> 'q"
  wq_Done :: "'i \<Rightarrow> 'q \<Rightarrow> 'q"
  wq_AddAfter :: "'i \<Rightarrow> duration \<Rightarrow> 'q \<Rightarrow> 'q"
  wq_AddRateLimited :: "'i \<Rightarrow> 'q \<Rightarrow> 'q"
  wq_ShutDown :: "'q \<Rightarrow> 'q"
  wq_ShutDownWithDrain :: "'q \<Rightarrow> 'q"
  wq_Len :: "'q \<Rightarrow> int"

record 'q instrumentedQueue =
  iq_queue :: 'q
  iq_depth :: int
  iq_inflight :: int
  iq_stopped :: bool

text \<open>\<open>q.rec.SetQueueDepth(q.Len())\<close>, which the sampler does on every tick too.\<close>

definition sample_depth :: "('i, 'q) work_queue \<Rightarrow> 'q instrumentedQueue \<Rightarrow> 'q instrumentedQueue" where
  "sample_depth wq q = q\<lparr>iq_depth := wq_Len wq (iq_queue q)\<rparr>"

definition queue_Add :: "('i, 'q) work_queue \<Rightarrow> 'i \<Rightarrow> 'q instrumentedQueue \<Rightarrow> 'q instrumentedQueue" where
  "queue_Add wq item q = sample_depth wq (q\<lparr>iq_queue := wq_Add wq item (iq_queue q)\<rparr>)"

definition queue_Get :: "('i, 'q) work_queue \<Rightarrow> 'q instrumentedQueue \<Rightarrow> ('i \<times> bool) \<times> 'q instrumentedQueue" where
  "queue_Get wq q =
     (case wq_Get wq (iq_queue q) of
        ((item, shutdown), inner) \<Rightarrow>
          ((item, shutdown),
           sample_depth wq (q\<lparr>iq_queue := inner, iq_inflight := (if \<not> shutdown then iq_inflight q + 1 else iq_inflight q)\<rparr>)))"

definition queue_Done :: "('i, 'q) work_queue \<Rightarrow> 'i \<Rightarrow> 'q instrumentedQueue \<Rightarrow> 'q instrumentedQueue" where
  "queue_Done wq item q = sample_depth wq (q\<lparr>iq_queue := wq_Done wq item (iq_queue q), iq_inflight := iq_inflight q - 1\<rparr>)"

definition queue_AddAfter :: "('i, 'q) work_queue \<Rightarrow> 'i \<Rightarrow> duration \<Rightarrow> 'q instrumentedQueue \<Rightarrow> 'q instrumentedQueue" where
  "queue_AddAfter wq item d q =
     (let q = q\<lparr>iq_queue := wq_AddAfter wq item d (iq_queue q)\<rparr> in if d \<le> 0 then sample_depth wq q else q)"

definition queue_AddRateLimited :: "('i, 'q) work_queue \<Rightarrow> 'i \<Rightarrow> 'q instrumentedQueue \<Rightarrow> 'q instrumentedQueue" where
  "queue_AddRateLimited wq item q = sample_depth wq (q\<lparr>iq_queue := wq_AddRateLimited wq item (iq_queue q)\<rparr>)"

definition queue_ShutDown :: "('i, 'q) work_queue \<Rightarrow> 'q instrumentedQueue \<Rightarrow> 'q instrumentedQueue" where
  "queue_ShutDown wq q = q\<lparr>iq_stopped := True, iq_queue := wq_ShutDown wq (iq_queue q)\<rparr>"

definition queue_ShutDownWithDrain :: "('i, 'q) work_queue \<Rightarrow> 'q instrumentedQueue \<Rightarrow> 'q instrumentedQueue" where
  "queue_ShutDownWithDrain wq q = q\<lparr>iq_stopped := True, iq_queue := wq_ShutDownWithDrain wq (iq_queue q)\<rparr>"

text \<open>One tick of the sampler, which stops with the queue.\<close>

definition sampler_tick :: "('i, 'q) work_queue \<Rightarrow> 'q instrumentedQueue \<Rightarrow> 'q instrumentedQueue" where
  "sampler_tick wq q = (if iq_stopped q then q else sample_depth wq q)"

definition new_queue :: "'q \<Rightarrow> 'q instrumentedQueue" where
  "new_queue inner = \<lparr>iq_queue = inner, iq_depth = 0, iq_inflight = 0, iq_stopped = False\<rparr>"

section \<open>Lemmas\<close>

definition fields_ok :: "(collector_kind \<times> string) list \<Rightarrow> recorder \<Rightarrow> bool" where
  "fields_ok spec r \<longleftrightarrow> map col_kind r = map fst spec"

lemma new_recorder_ok: "fields_ok spec (new_recorder spec a)"
  by (rule nth_equalityI [THEN fields_ok_def [THEN iffD2]]) (simp_all add: new_recorder_def nth_enumerate_eq case_prod_unfold)

lemma rebind_ok: "fields_ok spec r \<Longrightarrow> rebind spec who i c r = Inr r' \<Longrightarrow> fields_ok spec r' \<and> r' = r[i := c] \<and> i < length r"
proof -
  assume f: "fields_ok spec r" and b: "rebind spec who i c r = Inr r'"
  then have r': "r' = r[i := c]" and i: "i < length spec" "col_kind c = fst (spec ! i)" by (simp_all add: rebind_def split: if_splits)
  moreover have "length r = length spec" using f unfolding fields_ok_def by (metis length_map)
  moreover have "map col_kind r' = map fst spec" using f i r' unfolding fields_ok_def by (simp add: map_update list_update_same_conv)
  ultimately show ?thesis by (simp add: fields_ok_def)
qed

text \<open>What Prometheus promises: a collector that is registered, or reported as already there, is in the registry and stays.\<close>

definition registry_ok :: "(collector \<Rightarrow> 'w \<Rightarrow> register_result \<times> 'w) \<Rightarrow> ('w \<Rightarrow> collector set) \<Rightarrow> bool" where
  "registry_ok register known \<longleftrightarrow>
     (\<forall>c w w'. register c w = (Registered, w') \<longrightarrow> c \<in> known w') \<and>
     (\<forall>c e w w'. register c w = (AlreadyRegistered e, w') \<longrightarrow> e \<in> known w') \<and>
     (\<forall>c w. known w \<subseteq> known (snd (register c w)))"

lemma registerCollectors_known:
  assumes ok: "registry_ok register known"
  shows "registerCollectors register (rebind spec who) (enumerate n xs) r w = (Inr r', w') \<Longrightarrow> fields_ok spec r \<Longrightarrow> length r = n + length xs \<Longrightarrow>
    (\<forall>j < length xs. r ! (n + j) = xs ! j) \<Longrightarrow> (\<forall>j < n. r ! j \<in> known w) \<Longrightarrow>
    fields_ok spec r' \<and> set r' \<subseteq> known w' \<and> known w \<subseteq> known w'"
proof (induction xs arbitrary: n r w)
  case Nil
  then show ?case by (auto simp: set_conv_nth)
next
  case (Cons c xs)
  obtain res w1 where reg: "register c w = (res, w1)" by fastforce
  have k: "known w \<subseteq> known w1" using ok reg unfolding registry_ok_def by (metis snd_conv)
  have tail: "\<forall>j < length xs. r ! (Suc n + j) = xs ! j" and hd: "r ! n = c"
    using Cons.prems(4) [rule_format, of "Suc _"] Cons.prems(4) [rule_format, of 0] by simp_all
  show ?case
  proof (cases res)
    case Registered
    then have "c \<in> known w1" using ok reg unfolding registry_ok_def by blast
    then have "\<forall>j < Suc n. r ! j \<in> known w1" using Cons.prems(5) k hd by (auto simp: less_Suc_eq)
    with Cons.IH [of "Suc n" r w1] Cons.prems Registered reg tail k show ?thesis by auto
  next
    case (AlreadyRegistered e)
    then have e: "e \<in> known w1" using ok reg unfolding registry_ok_def by blast
    obtain r1 where b: "rebind spec who n e r = Inr r1" using Cons.prems(1) AlreadyRegistered reg by (auto split: sum.splits)
    note f = rebind_ok [OF Cons.prems(2) b]
    have "\<forall>j < Suc n. r1 ! j \<in> known w1" using f e Cons.prems(5) k by (auto simp: less_Suc_eq)
    moreover have "\<forall>j < length xs. r1 ! (Suc n + j) = xs ! j" using tail f by simp
    moreover have "registerCollectors register (rebind spec who) (enumerate (Suc n) xs) r1 w1 = (Inr r', w')"
      using Cons.prems(1) AlreadyRegistered reg b by simp
    ultimately have "fields_ok spec r' \<and> set r' \<subseteq> known w' \<and> known w1 \<subseteq> known w'" using Cons.IH [of "Suc n" r1 w1] Cons.prems(3) f by auto
    then show ?thesis using k by blast
  next
    case (RegisterFailed err)
    then show ?thesis using Cons.prems(1) reg by simp
  qed
qed

lemma register_recorder_known:
  assumes "registry_ok register known" and "register_recorder register spec who a w = (Inr r, w')"
  shows "fields_ok spec r \<and> set r \<subseteq> known w' \<and> known w \<subseteq> known w'"
  using registerCollectors_known [OF assms(1), of spec who 0 "new_recorder spec a" "new_recorder spec a" w r w'] assms(2) new_recorder_ok
  by (simp add: register_recorder_def Let_def)

text \<open>when \<open>RegisterWith\<close> succeeds, every field of every recorder is a collector of the type
  the field needs and is the one that is in the registry, so that what the program counts is what is scraped, also when an
  earlier recorder had registered some of them.\<close>

theorem registered_recorder_scraped:
  assumes "registry_ok register known" and "RegisterWith register w = (Inr rec, w')"
  shows "set (AllCollectors rec) \<subseteq> known w' \<and> fields_ok pod_churn_fields (rec_PodChurn rec) \<and> fields_ok arm_fields (rec_ARM rec) \<and>
    fields_ok convergence_fields (rec_Convergence rec) \<and> fields_ok reconcile_fields (rec_Reconcile rec)"
proof -
  obtain c w1 a w2 v w3 r where 1: "register_recorder register pod_churn_fields ''PodChurn'' 0 w = (Inr c, w1)"
    and 2: "register_recorder register arm_fields ''ARM'' 2 w1 = (Inr a, w2)"
    and 3: "register_recorder register convergence_fields ''Convergence'' 10 w2 = (Inr v, w3)"
    and 4: "register_recorder register reconcile_fields ''Reconcile'' 13 w3 = (Inr r, w')"
    and rec: "rec = \<lparr>rec_PodChurn = c, rec_ARM = a, rec_Convergence = v, rec_Reconcile = r\<rparr>"
    using assms(2) by (auto simp: RegisterWith_def split: prod.splits sum.splits)
  note k = register_recorder_known [OF assms(1)]
  have "known w1 \<subseteq> known w'" "known w2 \<subseteq> known w'" "known w3 \<subseteq> known w'" using k [OF 2] k [OF 3] k [OF 4] by blast+
  then show ?thesis using k [OF 1] k [OF 2] k [OF 3] k [OF 4] by (simp add: rec AllCollectors_def) blast
qed

text \<open>A registry by name, and a second registration that is bound to the collectors of the first.\<close>

definition name_registry :: "collector \<Rightarrow> collector list \<Rightarrow> register_result \<times> collector list" where
  "name_registry c w = (case find (\<lambda>e. col_name e = col_name c) w of None \<Rightarrow> (Registered, c # w) | Some e \<Rightarrow> (AlreadyRegistered e, w))"

lemma name_registry_ok: "registry_ok name_registry set"
  by (auto simp: registry_ok_def name_registry_def find_Some_iff split: option.splits)

theorem registered_recorder_scraped_witness:
  "\<exists>rec w'. RegisterWith name_registry [\<lparr>col_kind = Gauge, col_name = ''reconcile_inflight'', col_addr = 99\<rparr>] = (Inr rec, w') \<and>
     col_addr (rec_Reconcile rec ! 3) = 99 \<and> set (AllCollectors rec) \<subseteq> set w'"
proof -
  let ?w = "[\<lparr>col_kind = Gauge, col_name = ''reconcile_inflight'', col_addr = 99\<rparr>]"
  have "\<exists>rec w'. RegisterWith name_registry ?w = (Inr rec, w') \<and> col_addr (rec_Reconcile rec ! 3) = 99"
    by (simp add: RegisterWith_def register_recorder_def new_recorder_def pod_churn_fields_def arm_fields_def convergence_fields_def
        reconcile_fields_def rebind_def name_registry_def)
  then show ?thesis using registered_recorder_scraped [OF name_registry_ok] by blast
qed

text \<open>The gauges of the queue: requests taken and not finished, and the length after the last change.\<close>

datatype 'i queue_op = QAdd 'i | QGet | QDone 'i | QAddAfter 'i duration | QAddRateLimited 'i

fun queue_step :: "('i, 'q) work_queue \<Rightarrow> 'i queue_op \<Rightarrow> 'q instrumentedQueue \<Rightarrow> int \<times> 'q instrumentedQueue" where
  "queue_step wq (QAdd i) q = (0, queue_Add wq i q)"
| "queue_step wq QGet q = (case queue_Get wq q of ((i, shutdown), q) \<Rightarrow> (if shutdown then 0 else 1, q))"
| "queue_step wq (QDone i) q = (- 1, queue_Done wq i q)"
| "queue_step wq (QAddAfter i d) q = (0, queue_AddAfter wq i d q)"
| "queue_step wq (QAddRateLimited i) q = (0, queue_AddRateLimited wq i q)"

lemma queue_gauges:
  assumes "queue_step wq oper q = (n, q')"
  shows "iq_inflight q' = iq_inflight q + n" and "\<not> (\<exists>i d. oper = QAddAfter i d \<and> d > 0) \<Longrightarrow> iq_depth q' = wq_Len wq (iq_queue q')"
  using assms by (cases oper; auto simp: queue_Add_def queue_Get_def queue_Done_def queue_AddAfter_def queue_AddRateLimited_def
      sample_depth_def Let_def split: prod.splits)+

end
