(* ===== verification/Metric_Series.thy ===== *)
theory Metric_Series
  imports Metrics Trackers Requeue_Policy
begin

text \<open>
  What the methods of the recorders do to their collectors (\<open>internal/metrics/reconcile.go\<close>,
  \<open>pod_churn.go\<close>, \<open>convergence.go\<close>, \<open>arm.go\<close>, \<open>cleanup_stubs.go\<close>).

  A method is the list of operations it performs on collectors, each named by the collector's name; the
  values are exact rational numbers of seconds. Which series a vector has after some operations follows what Prometheus
  documents: \<open>WithLabelValues\<close> creates the series it names, \<open>DeletePartialMatch\<close> removes the series whose labels
  include the given ones. That is the specification \<open>live_series\<close>.
\<close>

datatype metric_update = Inc | Dec | Add_value rat | Set_value rat | Observe_value rat

datatype collector_op =
    WithLabelValues string "string list" metric_update
  | Plain string metric_update
  | DeleteLabelValues string "string list"
  | DeletePartialMatch string "(string \<times> string) list"

definition Seconds :: "duration \<Rightarrow> rat" where
  "Seconds d = of_int d / of_int second"

section \<open>Label names\<close>

text \<open>The label names that the constructors give to the vectors.\<close>

definition pod_churn_labels :: "(string \<times> string list) list" where
  "pod_churn_labels = [(''pod_ip_changes_total'', [''namespace'', ''mapping'', ''operation'']), (''pod_churn_rate'', [''namespace'', ''mapping''])]"

definition arm_labels :: "(string \<times> string list) list" where
  "arm_labels =
     [(''arm_requests_total'', [''subscription_id'', ''operation'', ''status_code'']),
      (''arm_request_duration_seconds'', [''subscription_id'', ''operation'']),
      (''arm_retries_total'', [''subscription_id'', ''operation'', ''retry_reason'']),
      (''arm_rate_limit_delays_total'', [''subscription_id'']),
      (''arm_rate_limit_delay_seconds'', [''subscription_id'']),
      (''arm_call_duration_seconds'', [''subscription_id'', ''operation'']),
      (''arm_etag_conflicts_total'', [''subscription_id'', ''operation''])]"

definition convergence_labels :: "(string \<times> string list) list" where
  "convergence_labels =
     [(''prefix_set_convergence_seconds'', [''subscription_id'', ''resource_group'', ''asg_name'', ''operation'']),
      (''prefix_set_drift_corrections_total'', [''subscription_id'', ''resource_group'', ''asg_name'']),
      (''prefix_set_actions_total'', [''operation'', ''result''])]"

definition reconcile_labels :: "(string \<times> string list) list" where
  "reconcile_labels =
     [(''reconcile_duration_seconds'', [''namespace'', ''mapping'', ''result'']),
      (''reconcile_total'', [''namespace'', ''mapping'', ''result'']),
      (''reconcile_actions_per_cycle'', [''namespace'', ''mapping'']),
      (''crd_resolution_duration_seconds'', [''namespace'', ''mapping'', ''operation''])]"

definition label_names :: "string \<Rightarrow> string list" where
  "label_names vec = (case map_of (pod_churn_labels @ arm_labels @ convergence_labels @ reconcile_labels) vec of None \<Rightarrow> [] | Some ls \<Rightarrow> ls)"

section \<open>\<open>ReconcileRecorder\<close>\<close>

fun result_text :: "ReconcileResult \<Rightarrow> string" where
  "result_text ReconcileResultSuccess = ''success''"
| "result_text ReconcileResultPartialFailure = ''partial_failure''"
| "result_text ReconcileResultError = ''error''"
| "result_text ReconcileResultRequeue = ''requeue''"

definition ObserveReconcile :: "string \<Rightarrow> string \<Rightarrow> ReconcileResult \<Rightarrow> duration \<Rightarrow> collector_op list" where
  "ObserveReconcile namespace mapping result d =
     [WithLabelValues ''reconcile_duration_seconds'' [namespace, mapping, result_text result] (Observe_value (Seconds d)),
      WithLabelValues ''reconcile_total'' [namespace, mapping, result_text result] Inc]"

definition ObserveActionsPerCycle :: "string \<Rightarrow> string \<Rightarrow> nat \<Rightarrow> collector_op list" where
  "ObserveActionsPerCycle namespace mapping n =
     [WithLabelValues ''reconcile_actions_per_cycle'' [namespace, mapping] (Observe_value (of_nat n))]"

definition SetQueueDepth :: "int \<Rightarrow> collector_op list" where
  "SetQueueDepth depth = [Plain ''reconcile_queue_depth'' (Set_value (of_int depth))]"

definition IncInflight :: "collector_op list" where
  "IncInflight = [Plain ''reconcile_inflight'' Inc]"

definition DecInflight :: "collector_op list" where
  "DecInflight = [Plain ''reconcile_inflight'' Dec]"

definition SetInitialReconcileComplete :: "duration \<Rightarrow> collector_op list" where
  "SetInitialReconcileComplete d =
     [Plain ''initial_reconcile_duration_seconds'' (Set_value (Seconds d)), Plain ''initial_reconcile_complete'' (Set_value 1)]"

definition ObserveCRDResolution :: "string \<Rightarrow> string \<Rightarrow> string \<Rightarrow> duration \<Rightarrow> collector_op list" where
  "ObserveCRDResolution namespace mapping operation d =
     [WithLabelValues ''crd_resolution_duration_seconds'' [namespace, mapping, operation] (Observe_value (Seconds d))]"

definition DeleteForMapping_reconcile :: "string \<Rightarrow> string \<Rightarrow> collector_op list" where
  "DeleteForMapping_reconcile namespace mapping =
     (let labels = [(''namespace'', namespace), (''mapping'', mapping)] in
      [DeletePartialMatch ''reconcile_duration_seconds'' labels, DeletePartialMatch ''reconcile_total'' labels,
       DeletePartialMatch ''reconcile_actions_per_cycle'' labels, DeletePartialMatch ''crd_resolution_duration_seconds'' labels])"

section \<open>\<open>PodChurnRecorder\<close>\<close>

definition DeleteForMapping_churn :: "string \<Rightarrow> string \<Rightarrow> collector_op list" where
  "DeleteForMapping_churn namespace mapping =
     (let labels = [(''namespace'', namespace), (''mapping'', mapping)] in
      [DeletePartialMatch ''pod_ip_changes_total'' labels, DeletePartialMatch ''pod_churn_rate'' labels])"

text \<open>The counters and the gauge in \<open>ObserveSnapshot\<close>.\<close>

definition ObserveSnapshot_ops :: "NamespacedName \<Rightarrow> (string \<times> nat) list \<Rightarrow> rat \<Rightarrow> collector_op list" where
  "ObserveSnapshot_ops key counters rate =
     map (\<lambda>(operation, n). WithLabelValues ''pod_ip_changes_total'' [nn_Namespace key, nn_Name key, operation] (Add_value (of_nat n))) counters @
     [WithLabelValues ''pod_churn_rate'' [nn_Namespace key, nn_Name key] (Set_value rate)]"

definition ForgetWithDelete :: "NamespacedName \<Rightarrow> PodChurnTracker \<Rightarrow> collector_op list \<times> PodChurnTracker" where
  "ForgetWithDelete key tr = ([DeleteLabelValues ''pod_churn_rate'' [nn_Namespace key, nn_Name key]], Forget_churn key tr)"

section \<open>\<open>ConvergenceRecorder\<close>\<close>

fun operation_text :: "ConvergenceOperation \<Rightarrow> string" where
  "operation_text ConvergenceOpAdd = ''add''"
| "operation_text ConvergenceOpDelete = ''delete''"
| "operation_text ConvergenceOpUpdate = ''update''"

definition ObserveConvergence :: "ASGTarget \<Rightarrow> ConvergenceOperation \<Rightarrow> duration \<Rightarrow> collector_op list" where
  "ObserveConvergence target oper d =
     [WithLabelValues ''prefix_set_convergence_seconds''
        [tgt_SubscriptionID target, tgt_ResourceGroup target, tgt_ASGName target, operation_text oper] (Observe_value (Seconds d))]"

definition IncrementDriftCorrections :: "ASGTarget \<Rightarrow> collector_op list" where
  "IncrementDriftCorrections target =
     [WithLabelValues ''prefix_set_drift_corrections_total'' [tgt_SubscriptionID target, tgt_ResourceGroup target, tgt_ASGName target] Inc]"

definition RecordPrefixSetAction :: "string \<Rightarrow> string \<Rightarrow> collector_op list" where
  "RecordPrefixSetAction operation result = [WithLabelValues ''prefix_set_actions_total'' [operation, result] Inc]"

section \<open>\<open>ARMRecorder\<close>\<close>

definition ObserveRequest :: "string \<Rightarrow> string \<Rightarrow> string \<Rightarrow> duration \<Rightarrow> collector_op list" where
  "ObserveRequest subscriptionID operation statusCode d =
     [WithLabelValues ''arm_requests_total'' [subscriptionID, operation, statusCode] Inc,
      WithLabelValues ''arm_request_duration_seconds'' [subscriptionID, operation] (Observe_value (Seconds d))]"

definition ObserveRetry :: "string \<Rightarrow> string \<Rightarrow> string \<Rightarrow> collector_op list" where
  "ObserveRetry subscriptionID operation retryReason = [WithLabelValues ''arm_retries_total'' [subscriptionID, operation, retryReason] Inc]"

definition ObserveRateLimitDelay :: "string \<Rightarrow> duration \<Rightarrow> collector_op list" where
  "ObserveRateLimitDelay subscriptionID d =
     [WithLabelValues ''arm_rate_limit_delays_total'' [subscriptionID] Inc,
      WithLabelValues ''arm_rate_limit_delay_seconds'' [subscriptionID] (Observe_value (Seconds d))]"

definition ObserveCallDuration :: "string \<Rightarrow> string \<Rightarrow> duration \<Rightarrow> collector_op list" where
  "ObserveCallDuration subscriptionID operation d =
     [WithLabelValues ''arm_call_duration_seconds'' [subscriptionID, operation] (Observe_value (Seconds d))]"

definition IncConcurrentActions :: "collector_op list" where
  "IncConcurrentActions = [Plain ''arm_concurrent_actions'' Inc]"

definition DecConcurrentActions :: "collector_op list" where
  "DecConcurrentActions = [Plain ''arm_concurrent_actions'' Dec]"

definition ObserveETagConflict :: "string \<Rightarrow> string \<Rightarrow> collector_op list" where
  "ObserveETagConflict subscriptionID operation = [WithLabelValues ''arm_etag_conflicts_total'' [subscriptionID, operation] Inc]"

section \<open>The series that exist\<close>

definition labels_include :: "string list \<Rightarrow> string list \<Rightarrow> (string \<times> string) list \<Rightarrow> bool" where
  "labels_include names vals partial \<longleftrightarrow> list_all (\<lambda>(n, v). map_of (zip names vals) n = Some v) partial"

fun series_step :: "collector_op \<Rightarrow> (string \<times> string list) list \<Rightarrow> (string \<times> string list) list" where
  "series_step (WithLabelValues vec vals _) S = sadd (vec, vals) S"
| "series_step (Plain _ _) S = S"
| "series_step (DeleteLabelValues vec vals) S = filter (\<lambda>x. x \<noteq> (vec, vals)) S"
| "series_step (DeletePartialMatch vec partial) S = filter (\<lambda>(v, vals). \<not> (v = vec \<and> labels_include (label_names vec) vals partial)) S"

definition live_series :: "collector_op list \<Rightarrow> (string \<times> string list) list" where
  "live_series ops = fold series_step ops []"

text \<open>The series that name a mapping.\<close>

definition of_mapping :: "string \<Rightarrow> string \<Rightarrow> string \<times> string list \<Rightarrow> bool" where
  "of_mapping namespace mapping x \<longleftrightarrow> labels_include (label_names (fst x)) (snd x) [(''namespace'', namespace), (''mapping'', mapping)]"

text \<open>What the reconciler deletes from the recorders when a mapping is gone.\<close>

definition cleanup_ops :: "NamespacedName \<Rightarrow> collector_op list" where
  "cleanup_ops key = fst (ForgetWithDelete key []) @ DeleteForMapping_churn (nn_Namespace key) (nn_Name key) @
     DeleteForMapping_reconcile (nn_Namespace key) (nn_Name key)"

lemma live_series_append: "live_series (xs @ ys) = fold series_step ys (live_series xs)"
  by (simp add: live_series_def)

abbreviation all_labels :: "(string \<times> string list) list" where
  "all_labels \<equiv> pod_churn_labels @ arm_labels @ convergence_labels @ reconcile_labels"

definition mapping_vectors :: "string list" where
  "mapping_vectors = [''reconcile_duration_seconds'', ''reconcile_total'', ''reconcile_actions_per_cycle'', ''crd_resolution_duration_seconds'',
     ''pod_ip_changes_total'', ''pod_churn_rate'']"

text \<open>The vectors that have labels for a mapping are the ones that the two methods name.\<close>

lemma labelled_vectors: "list_all (\<lambda>(v, ls). ''namespace'' \<in> set ls \<longrightarrow> v \<in> set mapping_vectors) all_labels"
  by code_simp

lemma of_mapping_vector:
  assumes "of_mapping namespace mapping x"
  shows "fst x \<in> set mapping_vectors"
proof -
  have "''namespace'' \<in> set (label_names (fst x))"
    using assms by (auto simp: of_mapping_def labels_include_def dest!: map_of_SomeD set_zip_leftD)
  moreover from this obtain ls where "(fst x, ls) \<in> set all_labels" "label_names (fst x) = ls"
    by (cases "map_of all_labels (fst x)") (auto simp: label_names_def simp del: map_of_append set_append dest: map_of_SomeD)
  ultimately show ?thesis using labelled_vectors unfolding list_all_iff by blast
qed

fun deletes :: "collector_op \<Rightarrow> string \<times> string list \<Rightarrow> bool" where
  "deletes (DeleteLabelValues vec vals) x \<longleftrightarrow> x = (vec, vals)"
| "deletes (DeletePartialMatch vec partial) x \<longleftrightarrow> fst x = vec \<and> labels_include (label_names vec) (snd x) partial"
| "deletes _ x \<longleftrightarrow> False"

fun creates :: "collector_op \<Rightarrow> string \<times> string list \<Rightarrow> bool" where
  "creates (WithLabelValues vec vals u) x \<longleftrightarrow> x = (vec, vals)"
| "creates _ x \<longleftrightarrow> False"

lemma series_step_set: "x \<in> set (series_step c S) \<longleftrightarrow> creates c x \<or> x \<in> set S \<and> \<not> deletes c x"
  by (cases c; cases x) auto

lemma deletions: "\<forall>c \<in> set cs. \<not> creates c x \<Longrightarrow>
    x \<in> set (fold series_step cs S) \<longleftrightarrow> x \<in> set S \<and> \<not> (\<exists>c \<in> set cs. deletes c x)"
  by (induction cs arbitrary: S) (auto simp: series_step_set)

lemma cleanup_deletes: "(\<exists>c \<in> set (cleanup_ops key). deletes c x) \<longleftrightarrow> of_mapping (nn_Namespace key) (nn_Name key) x"
proof -
  let ?p = "[(''namespace'', nn_Namespace key), (''mapping'', nn_Name key)]"
  let ?vs = "[''pod_ip_changes_total'', ''pod_churn_rate'', ''reconcile_duration_seconds'', ''reconcile_total'', ''reconcile_actions_per_cycle'',
       ''crd_resolution_duration_seconds'']"
  have ops: "cleanup_ops key = DeleteLabelValues ''pod_churn_rate'' [nn_Namespace key, nn_Name key] # map (\<lambda>v. DeletePartialMatch v ?p) ?vs"
    by (simp add: cleanup_ops_def ForgetWithDelete_def DeleteForMapping_churn_def DeleteForMapping_reconcile_def Let_def)
  have "label_names ''pod_churn_rate'' = [''namespace'', ''mapping'']" by code_simp
  then have rate: "of_mapping (nn_Namespace key) (nn_Name key) (''pod_churn_rate'', [nn_Namespace key, nn_Name key])"
    by (simp add: of_mapping_def labels_include_def)
  have partial: "deletes (DeletePartialMatch v ?p) x \<longleftrightarrow> fst x = v \<and> of_mapping (nn_Namespace key) (nn_Name key) x" for v
    unfolding of_mapping_def by auto
  have vs: "set ?vs = set mapping_vectors" unfolding mapping_vectors_def list.set by (simp only: insert_commute)
  have "(\<exists>c \<in> set (map (\<lambda>v. DeletePartialMatch v ?p) ?vs). deletes c x) \<longleftrightarrow> (\<exists>v \<in> set ?vs. deletes (DeletePartialMatch v ?p) x)"
    unfolding set_map by blast
  also have "\<dots> \<longleftrightarrow> fst x \<in> set mapping_vectors \<and> of_mapping (nn_Namespace key) (nn_Name key) x" unfolding partial vs by blast
  finally have "(\<exists>c \<in> set (cleanup_ops key). deletes c x) \<longleftrightarrow> x = (''pod_churn_rate'', [nn_Namespace key, nn_Name key]) \<or>
      fst x \<in> set mapping_vectors \<and> of_mapping (nn_Namespace key) (nn_Name key) x"
    unfolding ops by (simp only: list.set(2) bex_simps deletes.simps insert_iff)
  then show ?thesis using rate of_mapping_vector [of "nn_Namespace key" "nn_Name key" x] by metis
qed

text \<open>When the state of a mapping is cleaned up, no vector of any recorder keeps a series that names
  the mapping, whatever was counted before, and the series of every other mapping stay.
\<close>

theorem cleanup_deletes_all_series:
  "x \<in> set (live_series (ops @ cleanup_ops key)) \<longleftrightarrow> x \<in> set (live_series ops) \<and> \<not> of_mapping (nn_Namespace key) (nn_Name key) x"
proof -
  have "\<forall>c \<in> set (cleanup_ops key). \<not> creates c x"
    by (simp add: cleanup_ops_def ForgetWithDelete_def DeleteForMapping_churn_def DeleteForMapping_reconcile_def Let_def)
  from deletions [OF this] show ?thesis by (simp add: live_series_append cleanup_deletes)
qed

end
