(* ===== verification/Reconcile_Metrics.thy ===== *)
theory Reconcile_Metrics
  imports Reconcile_Azure Metric_Series
begin

text \<open>
  The reconcile loop with its metrics (\<open>internal/controller/mapping_reconciler.go\<close>,
  \<open>error_policy.go\<close>): the same steps as in \<open>Reconciler\<close>, with the trackers and the recorders that
  \<open>cmd/main.go\<close> wires to it, and the committer that it gives to the status updater.

  \<open>instruments\<close> says which of the optional pointers of \<open>MappingReconciler\<close> are not nil; \<open>metric_state\<close> is
  what they point to, with the operations performed on the collectors so far. The theorems: with and without instruments a
  reconcile does the same to Kubernetes, Azure and the cache; each exit is observed exactly once under the label of its stage,
  an exit after a cache conflict never; what is left pending of convergence; and which series are left of a deleted mapping.
\<close>

record instruments =
  has_MetricsRecorder :: bool
  has_PodChurnTracker :: bool
  has_ConvergenceTracker :: bool
  has_InitialTracker :: bool

record metric_state =
  mt_PodChurnTracker :: PodChurnTracker
  mt_ConvergenceTracker :: ConvergenceTracker
  mt_InitialTracker :: InitialReconcileTracker
  mt_ops :: "collector_op list"

type_synonym 'w observed_state = "'w reconciler_state \<times> metric_state"

text \<open>Operations on the recorders, if there are any.\<close>

definition emit :: "instruments \<Rightarrow> collector_op list \<Rightarrow> metric_state \<Rightarrow> metric_state" where
  "emit ins ops q = (if has_MetricsRecorder ins then q\<lparr>mt_ops := mt_ops q @ ops\<rparr> else q)"

definition on_convergence :: "instruments \<Rightarrow> (ConvergenceTracker \<Rightarrow> ConvergenceTracker) \<Rightarrow> metric_state \<Rightarrow> metric_state" where
  "on_convergence ins f q = (if has_ConvergenceTracker ins then q\<lparr>mt_ConvergenceTracker := f (mt_ConvergenceTracker q)\<rparr> else q)"

section \<open>The helpers of the loop\<close>

definition observeReconcile :: "'w MappingReconciler \<Rightarrow> instruments \<Rightarrow> NamespacedName \<Rightarrow> ReconcileMetricStage \<Rightarrow> gotime \<Rightarrow> nat \<Rightarrow>
    'w observed_state \<Rightarrow> 'w observed_state" where
  "observeReconcile r ins key stage startTime actionCount os =
     (case os of (s, q) \<Rightarrow>
        (s, emit ins (ObserveReconcile (nn_Namespace key) (nn_Name key) (ClassifyReconcileMetricResult stage) (now r s - startTime) @
              ObserveActionsPerCycle (nn_Namespace key) (nn_Name key) actionCount) q))"

text \<open>The listing that initializes the tracker from a reconcile is a call to the API server.\<close>

definition fallback_listing :: "'w MappingReconciler \<Rightarrow> InitialReconcileTracker \<Rightarrow> 'w reconciler_state \<Rightarrow>
    (goerror + NamespacedName list) \<times> 'w reconciler_state" where
  "fallback_listing r tr s =
     (if irt_initialized tr then (Inr [], s)
      else (case external r (kc_ListMappings (r_Client r)) s of
              (Inl err, s) \<Rightarrow> (Inl err, s)
            | (Inr items, s) \<Rightarrow> (Inr (map mapping_key items), s)))"

definition markInitialTerminal_observed :: "'w MappingReconciler \<Rightarrow> instruments \<Rightarrow> NamespacedName \<Rightarrow> 'w observed_state \<Rightarrow> 'w observed_state" where
  "markInitialTerminal_observed r ins key os =
     (case os of (s, q) \<Rightarrow>
        if \<not> has_InitialTracker ins \<or> \<not> has_MetricsRecorder ins then (s, q)
        else (case fallback_listing r (mt_InitialTracker q) s of
                (listing, s) \<Rightarrow>
                  (case markInitialTerminal listing (now r s) key True (mt_InitialTracker q) of
                     (completed, tr) \<Rightarrow>
                       (s, emit ins (case completed of None \<Rightarrow> [] | Some d \<Rightarrow> SetInitialReconcileComplete d) (q\<lparr>mt_InitialTracker := tr\<rparr>)))))"

definition cleanup_observed :: "instruments \<Rightarrow> NamespacedName \<Rightarrow> 'w observed_state \<Rightarrow> 'w observed_state" where
  "cleanup_observed ins key os =
     (case os of (s, q) \<Rightarrow>
        (let s = cleanupPerMappingMetricState key s;
             q = on_convergence ins (Forget_convergence key) q;
             q = (if has_PodChurnTracker ins \<and> has_MetricsRecorder ins
                  then (case ForgetWithDelete key (mt_PodChurnTracker q) of
                          (ops, tr) \<Rightarrow> emit ins (ops @ DeleteForMapping_churn (nn_Namespace key) (nn_Name key)) (q\<lparr>mt_PodChurnTracker := tr\<rparr>))
                  else q)
         in (s, emit ins (DeleteForMapping_reconcile (nn_Namespace key) (nn_Name key)) q)))"

definition pruneConvergenceForGeneration :: "instruments \<Rightarrow> NamespacedName \<Rightarrow> int \<Rightarrow> 'w observed_state \<Rightarrow> 'w observed_state" where
  "pruneConvergenceForGeneration ins key gen os = (case os of (s, q) \<Rightarrow> (s, on_convergence ins (ForgetGeneration key gen) q))"

definition observePodChurnFromSnapshot :: "'w MappingReconciler \<Rightarrow> instruments \<Rightarrow> NamespacedName \<Rightarrow> PodSnapshot \<Rightarrow> 'w observed_state \<Rightarrow> 'w observed_state" where
  "observePodChurnFromSnapshot r ins key snap os =
     (case os of (s, q) \<Rightarrow>
        if \<not> has_MetricsRecorder ins \<or> \<not> has_PodChurnTracker ins then (s, q)
        else (case ObserveSnapshot key snap (now r s) (mt_PodChurnTracker q) of
                ((delta, counters, rate), tr) \<Rightarrow> (s, emit ins (ObserveSnapshot_ops key counters rate) (q\<lparr>mt_PodChurnTracker := tr\<rparr>))))"

section \<open>Status calls with the committer\<close>

text \<open>A client and a status updater on the world together with the metrics; the client does not touch the metrics.\<close>

definition alongside :: "('w \<Rightarrow> 'a \<times> 'w) \<Rightarrow> 'w \<times> 'q \<Rightarrow> 'a \<times> ('w \<times> 'q)" where
  "alongside f wq = (case wq of (w, q) \<Rightarrow> (case f w of (x, w) \<Rightarrow> (x, (w, q))))"

definition client_alongside :: "'w kube_client \<Rightarrow> ('w \<times> 'q) kube_client" where
  "client_alongside c = \<lparr>kc_Get = (\<lambda>key. alongside (kc_Get c key)), kc_UpdateStatus = (\<lambda>m. alongside (kc_UpdateStatus c m)),
     kc_Patch = (\<lambda>base m. alongside (kc_Patch c base m)), kc_ListPods = (\<lambda>ns. alongside (kc_ListPods c ns)),
     kc_ListMappings = alongside (kc_ListMappings c), kc_Now = (\<lambda>wq. kc_Now c (fst wq))\<rparr>"

text \<open>The closure that \<open>main\<close> gives to \<open>SetConvergenceCommitter\<close>.\<close>

definition commit_results :: "instruments \<Rightarrow> NamespacedName \<Rightarrow> int \<Rightarrow> ActionResult list \<Rightarrow> metric_state \<Rightarrow> metric_state" where
  "commit_results ins key gen results q =
     (case convergence_committer key gen results (mt_ConvergenceTracker q) of
        (observed, pending) \<Rightarrow>
          emit ins (concat (map (\<lambda>(target, oper, d). ObserveConvergence target oper d) observed)) (q\<lparr>mt_ConvergenceTracker := pending\<rparr>))"

definition wired_updater :: "instruments \<Rightarrow> 'w MappingStatusUpdater \<Rightarrow> ('w \<times> metric_state) MappingStatusUpdater" where
  "wired_updater ins u =
     (let u' = \<lparr>su_Client = client_alongside (su_Client u), su_MaxAttempts = su_MaxAttempts u, su_convergenceCommitter = None\<rparr> in
      if has_ConvergenceTracker ins
      then SetConvergenceCommitter u' (\<lambda>key gen results outcome err wq. (fst wq, commit_results ins key gen results (snd wq)))
      else u')"

definition external_observed :: "'w MappingReconciler \<Rightarrow> ('w \<times> metric_state \<Rightarrow> 'a \<times> ('w \<times> metric_state)) \<Rightarrow> 'w observed_state \<Rightarrow> 'a \<times> 'w observed_state" where
  "external_observed r f os =
     (case os of (s, q) \<Rightarrow>
        (case f (s_world s, q) of
           (x, (w, q)) \<Rightarrow> (x, (s\<lparr>s_world := w, s_DesiredStateCache := r_interleaved r (s_world s) w (s_DesiredStateCache s)\<rparr>, q))))"

text \<open>The exits for a status write that found no object, or a newer generation.\<close>

definition gone_exit :: "'w MappingReconciler \<Rightarrow> instruments \<Rightarrow> NamespacedName \<Rightarrow> 'w observed_state \<Rightarrow> 'w observed_state" where
  "gone_exit r ins key os = markInitialTerminal_observed r ins key (cleanup_observed ins key os)"

definition status_call_observed :: "'w MappingReconciler \<Rightarrow> instruments \<Rightarrow> NamespacedName \<Rightarrow> int \<Rightarrow> gotime \<Rightarrow>
    (('w \<times> metric_state) MappingStatusUpdater \<Rightarrow> 'w \<times> metric_state \<Rightarrow> goerror option \<times> ('w \<times> metric_state)) \<Rightarrow> 'w observed_state \<Rightarrow>
    (reconcile_exit + goerror option) \<times> 'w observed_state" where
  "status_call_observed r ins key gen reconcileStart f os =
     (case r_StatusUpdater r of
        None \<Rightarrow> (Inr None, os)
      | Some u \<Rightarrow>
          (case external_observed r (f (wired_updater ins u)) os of
             (None, os) \<Rightarrow> (Inr None, os)
           | (Some err, os) \<Rightarrow>
               if errors_Is err ErrStatusObjectNotFound
               then (Inl (exit_at result_zero ReconcileStageStatusSentinelTerminal),
                     observeReconcile r ins key ReconcileStageStatusSentinelTerminal reconcileStart 0
                       (gone_exit r ins key (drop_cached r key (fst os), snd os)))
               else if errors_Is err ErrStatusStaleGeneration
               then (Inl (exit_at result_zero ReconcileStageStatusSentinelTerminal),
                     observeReconcile r ins key ReconcileStageStatusSentinelTerminal reconcileStart 0 (pruneConvergenceForGeneration ins key gen os))
               else (Inr (Some err), os)))"

definition finalizeSystemError_observed :: "'w MappingReconciler \<Rightarrow> instruments \<Rightarrow> NamespacedName \<Rightarrow> PodASGMapping option \<Rightarrow> string \<Rightarrow> int list \<Rightarrow>
    goerror \<Rightarrow> bool \<Rightarrow> ActionResult list \<Rightarrow> 'w observed_state \<Rightarrow> reconcile_exit \<times> 'w observed_state" where
  "finalizeSystemError_observed r ins key mapping ownershipKey matchedPodsByIndex systemErr allowStatusWrite results os =
     (let result = DecideRequeueFromSystemError (Some systemErr) (DefaultRequeuePolicy (r_ResyncInterval r)) in
      case (allowStatusWrite, r_StatusUpdater r, mapping) of
        (True, Some u, Some m) \<Rightarrow>
          (case external_observed r (UpdateAfterReconcile (wired_updater ins u)
                  (status_args key m ownershipKey results (Some systemErr) [] matchedPodsByIndex)) os of
             (None, os) \<Rightarrow> (exit_at result ReconcileStageSystemError, os)
           | (Some statusErr, os) \<Rightarrow>
               if errors_Is statusErr ErrStatusObjectNotFound
               then (exit_at result_zero ReconcileStageStatusSentinelTerminal, gone_exit r ins key os)
               else if errors_Is statusErr ErrStatusStaleGeneration
               then (exit_at result_zero ReconcileStageStatusSentinelTerminal, pruneConvergenceForGeneration ins key (m_Generation m) os)
               else (case finalizeStatusWriteError r statusErr of (res, err) \<Rightarrow> ((res, err, Some ReconcileStageStatusWriteError), os)))
      | _ \<Rightarrow> (exit_at result ReconcileStageSystemError, os))"

text \<open>\<open>finalizeSystemError\<close> and the observation of the stage it returns, at every system error of the loop.\<close>

definition system_exit :: "'w MappingReconciler \<Rightarrow> instruments \<Rightarrow> NamespacedName \<Rightarrow> gotime \<Rightarrow> PodASGMapping option \<Rightarrow> string \<Rightarrow> int list \<Rightarrow>
    goerror \<Rightarrow> bool \<Rightarrow> ActionResult list \<Rightarrow> 'w observed_state \<Rightarrow> reconcile_exit \<times> 'w observed_state" where
  "system_exit r ins key reconcileStart mapping ownershipKey matched err allow results os =
     (case finalizeSystemError_observed r ins key mapping ownershipKey matched err allow results os of
        ((res, retErr, metricStage), os) \<Rightarrow>
          ((res, retErr, metricStage),
           case metricStage of None \<Rightarrow> os | Some stage \<Rightarrow> observeReconcile r ins key stage reconcileStart 0 os))"

section \<open>Desired state\<close>

definition list_and_recompute_observed :: "matcher \<Rightarrow> 'w MappingReconciler \<Rightarrow> instruments \<Rightarrow> NamespacedName \<Rightarrow> PodASGMapping \<Rightarrow> string \<Rightarrow> gotime \<Rightarrow>
    'w observed_state \<Rightarrow> (reconcile_exit + DesiredStateRecomputeArtifacts) \<times> 'w observed_state" where
  "list_and_recompute_observed M r ins key mapping ownershipKey reconcileStart os =
     (case os of (s, q) \<Rightarrow>
        (case external r (kc_ListPods (r_Client r) (m_Namespace mapping)) s of
           (Inl err, s) \<Rightarrow> (case system_exit r ins key reconcileStart (Some mapping) ownershipKey [] err True [] (s, q) of (x, os) \<Rightarrow> (Inl x, os))
         | (Inr pods, s) \<Rightarrow> (Inr (ComputeDesiredStateRecomputeArtifacts M (r_ClusterName r) mapping pods), (s, q))))"

definition retry_publish_observed :: "matcher \<Rightarrow> 'w MappingReconciler \<Rightarrow> instruments \<Rightarrow> NamespacedName \<Rightarrow> PodASGMapping \<Rightarrow> string \<Rightarrow> gotime \<Rightarrow>
    'w observed_state \<Rightarrow> (reconcile_exit + resolved) \<times> 'w observed_state" where
  "retry_publish_observed M r ins key mapping ownershipKey reconcileStart os =
     (case os of (s, q) \<Rightarrow>
        (case GetWithVersion (s_DesiredStateCache s) mapping of
           (_, retryVer, retryEpoch, _) \<Rightarrow>
             (case mappingStillCurrent r key (m_UID mapping) (m_Generation mapping) s of
                (Inr True, s) \<Rightarrow>
                  (case list_and_recompute_observed M r ins key mapping ownershipKey reconcileStart (s, q) of
                     (Inl x, os) \<Rightarrow> (Inl x, os)
                   | (Inr retryArts, (s, q)) \<Rightarrow>
                       (case publish mapping retryArts retryVer retryEpoch s of
                          (True, s) \<Rightarrow> (Inr (resolved_arts retryArts), (markDesiredStateFullRecompute key (m_Generation mapping) reconcileStart s, q))
                        | (False, s) \<Rightarrow> (Inl (conflict_exit r), (s, q))))
              | (_, s) \<Rightarrow> (Inl (conflict_exit r), (s, q)))))"

definition recompute_desired_observed :: "matcher \<Rightarrow> 'w MappingReconciler \<Rightarrow> instruments \<Rightarrow> NamespacedName \<Rightarrow> PodASGMapping \<Rightarrow> string \<Rightarrow> gotime \<Rightarrow> bool \<Rightarrow>
    64 word \<Rightarrow> 64 word \<Rightarrow> 'w observed_state \<Rightarrow> (reconcile_exit + resolved) \<times> 'w observed_state" where
  "recompute_desired_observed M r ins key mapping ownershipKey reconcileStart forcedResync ver epoch os =
     (case list_and_recompute_observed M r ins key mapping ownershipKey reconcileStart os of
        (Inl x, os) \<Rightarrow> (Inl x, os)
      | (Inr arts, (s, q)) \<Rightarrow>
          if r_hasCache r then
            (case mappingStillCurrent r key (m_UID mapping) (m_Generation mapping) s of
               (Inr True, s) \<Rightarrow>
                 (case publish mapping arts ver epoch s of
                    (True, s) \<Rightarrow> (Inr (resolved_arts arts), (markDesiredStateFullRecompute key (m_Generation mapping) reconcileStart s, q))
                  | (False, s) \<Rightarrow>
                      (case (forcedResync, Get (s_DesiredStateCache s) mapping) of
                         (False, (cached, True)) \<Rightarrow> (Inr (resolved_cached cached), (s, q))
                       | _ \<Rightarrow> retry_publish_observed M r ins key mapping ownershipKey reconcileStart (s, q)))
             | (_, s) \<Rightarrow> (Inl (conflict_exit r), (s, q)))
          else (Inr (resolved_arts arts), (markDesiredStateFullRecompute key (m_Generation mapping) reconcileStart s, q)))"

definition resolve_desired_observed :: "matcher \<Rightarrow> 'w MappingReconciler \<Rightarrow> instruments \<Rightarrow> NamespacedName \<Rightarrow> PodASGMapping \<Rightarrow> string \<Rightarrow> gotime \<Rightarrow>
    'w observed_state \<Rightarrow> (reconcile_exit + resolved) \<times> 'w observed_state" where
  "resolve_desired_observed M r ins key mapping ownershipKey reconcileStart os =
     (case os of (s, q) \<Rightarrow>
        if r_hasCache r then
          (let forcedResync = shouldForceDesiredStateRecompute r key (m_Generation mapping) reconcileStart s in
           case GetWithVersion (s_DesiredStateCache s) mapping of
             (cached, ver, epoch, ok) \<Rightarrow>
               if \<not> forcedResync \<and> ok then (Inr (resolved_cached cached), (s, q))
               else recompute_desired_observed M r ins key mapping ownershipKey reconcileStart forcedResync ver epoch (s, q))
        else recompute_desired_observed M r ins key mapping ownershipKey reconcileStart False 0 0 (s, q))"

section \<open>Applying the desired state\<close>

text \<open>What is recorded between the diff and the patch of the annotation, and after the execution.\<close>

definition record_diff :: "instruments \<Rightarrow> NamespacedName \<Rightarrow> int \<Rightarrow> desired_state \<Rightarrow> actual_state \<Rightarrow> Action list \<Rightarrow> duration \<Rightarrow> gotime \<Rightarrow> metric_state \<Rightarrow> metric_state" where
  "record_diff ins key gen desired actual actions crdResolutionDuration reconcileStart q =
     (let q = emit ins (ObserveCRDResolution (nn_Namespace key) (nn_Name key) (ClassifyCRDResolutionOperation actions) crdResolutionDuration) q;
          q = emit ins (concat (map IncrementDriftCorrections (detectAndRecordDrift desired actual actions))) q
      in on_convergence ins (startConvergenceTracking key gen actions desired actual reconcileStart) q)"

definition record_results :: "instruments \<Rightarrow> NamespacedName \<Rightarrow> int \<Rightarrow> ActionResult list \<Rightarrow> gotime \<Rightarrow> metric_state \<Rightarrow> metric_state" where
  "record_results ins key gen results t q =
     (let q = emit ins (concat (map (\<lambda>(label, resultLabel). RecordPrefixSetAction label resultLabel) (recorded_actions results))) q
      in on_convergence ins (stageConvergenceResults t key gen results) q)"

definition prepare_observed :: "'w MappingReconciler \<Rightarrow> instruments \<Rightarrow> NamespacedName \<Rightarrow> PodASGMapping \<Rightarrow> string \<Rightarrow> gotime \<Rightarrow> gotime \<Rightarrow> resolved \<Rightarrow>
    'w observed_state \<Rightarrow> ((reconcile_exit + planned) \<times> 'w observed_state) option" where
  "prepare_observed r ins key mapping ownershipKey reconcileStart crdResolutionStart rv os =
     (case os of (s, q) \<Rightarrow>
     (let desired = nonempty_desired (rv_desired rv);
          fail = (\<lambda>mapping err os. case system_exit r ins key reconcileStart (Some mapping) ownershipKey (rv_matchedPodsByIndex rv) err True [] os of
            (x, os) \<Rightarrow> Some (Inl x, os)) in
      case LoadOwnedASGs mapping of
        Inl err \<Rightarrow> fail mapping err (s, q)
      | Inr ownedRefs \<Rightarrow>
          (let ownedTargets = TargetsFromOwnedASGs ownedRefs ownershipKey;
               allTargets = all_targets desired ownedTargets;
               crdResolutionDuration = now r s - crdResolutionStart
           in case listActualForTargets r allTargets (s_world s) of
                None \<Rightarrow> None
              | Some (read, w) \<Rightarrow>
                  (case external r (\<lambda>_. (read, w)) s of
                     (Inl err, s) \<Rightarrow> fail mapping err (s, q)
                   | (Inr actual, s) \<Rightarrow>
                       (let actual = add_owned_actual desired ownedTargets actual;
                            actions = ComputeDiff desired actual (r_PatchThresholdPercent r);
                            q = record_diff ins key (m_Generation mapping) desired actual actions crdResolutionDuration reconcileStart q;
                            preRefs = UpdateOwnedASGsAfterResults ownedRefs desired []
                        in case patch_owned r mapping ownedRefs preRefs s of
                             (Some err, mapping, s) \<Rightarrow> fail mapping err (s, q)
                           | (None, mapping, s) \<Rightarrow>
                               Some (Inr \<lparr>pl_mapping = mapping, pl_desired = desired, pl_allTargets = allTargets, pl_actions = actions,
                                 pl_preRefs = preRefs\<rparr>, (s, q)))))))"

definition decide_exit_observed :: "'w MappingReconciler \<Rightarrow> instruments \<Rightarrow> NamespacedName \<Rightarrow> PodASGMapping \<Rightarrow> gotime \<Rightarrow> resolved \<Rightarrow> planned \<Rightarrow> ActionResult list \<Rightarrow>
    'w observed_state \<Rightarrow> reconcile_exit \<times> 'w observed_state" where
  "decide_exit_observed r ins key mapping reconcileStart rv p results os =
     (let (s, q) = (if aggregateActionFailures results \<noteq> None then os else markInitialTerminal_observed r ins key os) in
      case decide_exit r key mapping rv p results s of
        ((res, err, stage), s) \<Rightarrow>
          ((res, err, stage), case stage of None \<Rightarrow> (s, q) | Some st \<Rightarrow> observeReconcile r ins key st reconcileStart (length (pl_actions p)) (s, q)))"

definition finish_observed :: "'w MappingReconciler \<Rightarrow> instruments \<Rightarrow> NamespacedName \<Rightarrow> string \<Rightarrow> gotime \<Rightarrow> resolved \<Rightarrow> planned \<Rightarrow> ActionResult list \<Rightarrow>
    'w observed_state \<Rightarrow> reconcile_exit \<times> 'w observed_state" where
  "finish_observed r ins key ownershipKey reconcileStart rv p results os =
     (case os of (s, q) \<Rightarrow>
     (let q = record_results ins key (m_Generation (pl_mapping p)) results (now r s) q;
          postRefs = UpdateOwnedASGsAfterResults (pl_preRefs p) (pl_desired p) results in
      case (if results = [] then (None, pl_mapping p, s) else patch_owned r (pl_mapping p) (pl_preRefs p) postRefs s) of
        (Some err, mapping, s) \<Rightarrow> system_exit r ins key reconcileStart (Some mapping) ownershipKey (rv_matchedPodsByIndex rv) err True results (s, q)
      | (None, mapping, s) \<Rightarrow>
          (case status_call_observed r ins key (m_Generation mapping) reconcileStart
                  (\<lambda>u. UpdateAfterReconcile u (status_args key mapping ownershipKey results (aggregateActionFailures results) []
                    (rv_matchedPodsByIndex rv))) (s, q) of
             (Inl x, os) \<Rightarrow> (x, os)
           | (Inr (Some statusErr), os) \<Rightarrow>
               (case finalizeStatusWriteError r statusErr of
                  (res, err) \<Rightarrow> ((res, err, Some ReconcileStageStatusWriteError),
                    observeReconcile r ins key ReconcileStageStatusWriteError reconcileStart (length (pl_actions p)) os))
           | (Inr None, os) \<Rightarrow> decide_exit_observed r ins key mapping reconcileStart rv p results os)))"

definition apply_desired_observed :: "'w MappingReconciler \<Rightarrow> instruments \<Rightarrow> NamespacedName \<Rightarrow> PodASGMapping \<Rightarrow> string \<Rightarrow> gotime \<Rightarrow> gotime \<Rightarrow> resolved \<Rightarrow>
    'w observed_state \<Rightarrow> (reconcile_exit \<times> 'w observed_state) option" where
  "apply_desired_observed r ins key mapping ownershipKey reconcileStart crdResolutionStart rv os =
     (case prepare_observed r ins key mapping ownershipKey reconcileStart crdResolutionStart rv os of
        None \<Rightarrow> None
      | Some (Inl x, os) \<Rightarrow> Some (x, os)
      | Some (Inr p, (s, q)) \<Rightarrow>
          (case (if pl_actions p = [] then ([], s) else external r (r_Executor r (pl_actions p)) s) of
             (results, s) \<Rightarrow> Some (finish_observed r ins key ownershipKey reconcileStart rv p results (s, q))))"

section \<open>\<open>Reconcile\<close>\<close>

text \<open>The exit of a mapping that is gone or deleted.\<close>

definition terminal_exit :: "'w MappingReconciler \<Rightarrow> instruments \<Rightarrow> NamespacedName \<Rightarrow> 'w observed_state \<Rightarrow> 'w observed_state" where
  "terminal_exit r ins key os = cleanup_observed ins key (markInitialTerminal_observed r ins key os)"

definition reconcile_deleted_observed :: "'w MappingReconciler \<Rightarrow> instruments \<Rightarrow> NamespacedName \<Rightarrow> PodASGMapping \<Rightarrow> string \<Rightarrow> gotime \<Rightarrow> 'w observed_state \<Rightarrow>
    reconcile_exit \<times> 'w observed_state" where
  "reconcile_deleted_observed r ins key mapping ownershipKey reconcileStart os =
     (case os of (s, q) \<Rightarrow>
        if CleanupFinalizer \<in> set (m_Finalizers mapping) then
          (case external r (reconcileDelete r mapping ownershipKey) (drop_cached r key s) of
             (Some err, s) \<Rightarrow> system_exit r ins key reconcileStart (Some mapping) ownershipKey [] err False [] (s, q)
           | (None, s) \<Rightarrow>
               (let mapping' = mapping\<lparr>m_Finalizers := removeAll CleanupFinalizer (m_Finalizers mapping)\<rparr> in
                case external r (kc_Patch (r_Client r) mapping mapping') s of
                  (Inl err, s) \<Rightarrow> system_exit r ins key reconcileStart (Some mapping') ownershipKey [] err False [] (s, q)
                | (Inr _, s) \<Rightarrow> (exit_at result_zero ReconcileStageDeleteComplete,
                    observeReconcile r ins key ReconcileStageDeleteComplete reconcileStart 0 (terminal_exit r ins key (s, q)))))
        else (case terminal_exit r ins key (s, q) of
                (s, q) \<Rightarrow> (exit_at result_zero ReconcileStageDeleteComplete,
                  observeReconcile r ins key ReconcileStageDeleteComplete reconcileStart 0 (drop_cached r key s, q))))"

definition reconcile_invalid_observed :: "matcher \<Rightarrow> 'w MappingReconciler \<Rightarrow> instruments \<Rightarrow> NamespacedName \<Rightarrow> PodASGMapping \<Rightarrow> string \<Rightarrow> gotime \<Rightarrow>
    ValidationIssue list \<Rightarrow> 'w observed_state \<Rightarrow> reconcile_exit \<times> 'w observed_state" where
  "reconcile_invalid_observed M r ins key mapping ownershipKey reconcileStart issues os =
     (case os of (s, q) \<Rightarrow>
        (case external r (kc_ListPods (r_Client r) (m_Namespace mapping)) s of
           (Inl err, s) \<Rightarrow> system_exit r ins key reconcileStart (Some mapping) ownershipKey [] err True [] (s, q)
         | (Inr pods, s) \<Rightarrow>
             (case status_call_observed r ins key (m_Generation mapping) reconcileStart
                     (\<lambda>u. UpdateAfterReconcile u (status_args key mapping ownershipKey [] (aggregateValidationErrors issues) issues
                       (ComputeMatchedPodsByMapping M (m_Spec mapping) pods))) (s, q) of
                (Inl x, os) \<Rightarrow> (x, os)
              | (Inr _, (s, q)) \<Rightarrow>
                  (exit_at result_zero ReconcileStageValidationTerminal,
                   observeReconcile r ins key ReconcileStageValidationTerminal reconcileStart 0
                     (markInitialTerminal_observed r ins key (clearDesiredStateResyncState key (drop_cached r key s), q))))))"

definition reconcile_resolved_observed :: "'w MappingReconciler \<Rightarrow> instruments \<Rightarrow> NamespacedName \<Rightarrow> PodASGMapping \<Rightarrow> string \<Rightarrow> gotime \<Rightarrow> gotime \<Rightarrow> resolved \<Rightarrow>
    'w observed_state \<Rightarrow> (reconcile_exit \<times> 'w observed_state) option" where
  "reconcile_resolved_observed r ins key mapping ownershipKey reconcileStart crdResolutionStart rv os =
     (case os of (s, q) \<Rightarrow>
        (case (if r_hasCache r then mappingStillCurrent r key (m_UID mapping) (m_Generation mapping) s else (Inr True, s)) of
           (Inr True, s) \<Rightarrow>
             (case status_call_observed r ins key (m_Generation mapping) reconcileStart
                     (\<lambda>u. UpdatePending u key (m_Generation mapping) ownershipKey (rv_matchedPodsByIndex rv))
                     (observePodChurnFromSnapshot r ins key (rv_podSnapshot rv) (s, q)) of
                (Inl x, os) \<Rightarrow> Some (x, os)
              | (Inr _, os) \<Rightarrow> apply_desired_observed r ins key mapping ownershipKey reconcileStart crdResolutionStart rv os)
         | (_, s) \<Rightarrow> Some (conflict_exit r, (s, q))))"

definition reconcile_live_observed :: "matcher \<Rightarrow> 'w MappingReconciler \<Rightarrow> instruments \<Rightarrow> NamespacedName \<Rightarrow> PodASGMapping \<Rightarrow> string \<Rightarrow> gotime \<Rightarrow>
    'w observed_state \<Rightarrow> (reconcile_exit \<times> 'w observed_state) option" where
  "reconcile_live_observed M r ins key mapping ownershipKey reconcileStart os =
     (case os of (s, q) \<Rightarrow>
        (case ensureFinalizer r mapping s of
           (Inl err, mapping, s) \<Rightarrow> Some (system_exit r ins key reconcileStart (Some mapping) ownershipKey [] err False [] (s, q))
         | (Inr True, mapping, s) \<Rightarrow>
             Some (exit_at \<lparr>res_Requeue = True, res_RequeueAfter = 0\<rparr> ReconcileStageFinalizerAddEarlyReturn,
               observeReconcile r ins key ReconcileStageFinalizerAddEarlyReturn reconcileStart 0 (s, q))
         | (Inr False, mapping, s) \<Rightarrow>
             (case debounceRemaining r key (m_Generation mapping) reconcileStart s of
                (remaining, True) \<Rightarrow>
                  Some (exit_at (requeue_after remaining) ReconcileStageDebounced, observeReconcile r ins key ReconcileStageDebounced reconcileStart 0 (s, q))
              | (_, False) \<Rightarrow>
                  (let issues = validateASGResourceIDs (m_Mappings mapping) in
                   if issues \<noteq> [] then Some (reconcile_invalid_observed M r ins key mapping ownershipKey reconcileStart issues (s, q))
                   else (let crdResolutionStart = now r s in
                         case resolve_desired_observed M r ins key mapping ownershipKey reconcileStart (s, q) of
                           (Inl x, os) \<Rightarrow> Some (x, os)
                         | (Inr rv, os) \<Rightarrow> reconcile_resolved_observed r ins key mapping ownershipKey reconcileStart crdResolutionStart rv os)))))"

definition Reconcile_observed :: "matcher \<Rightarrow> 'w MappingReconciler \<Rightarrow> instruments \<Rightarrow> NamespacedName \<Rightarrow> 'w observed_state \<Rightarrow>
    (reconcile_exit \<times> 'w observed_state) option" where
  "Reconcile_observed M r ins key os =
     (case os of (s, q) \<Rightarrow>
     (let reconcileStart = now r s in
      case external r (kc_Get (r_Client r) key) s of
        (Inl err, s) \<Rightarrow>
          if api_IsNotFound err then
            (case terminal_exit r ins key (s, q) of
               (s, q) \<Rightarrow> Some (exit_at result_zero ReconcileStageMappingNotFound,
                 observeReconcile r ins key ReconcileStageMappingNotFound reconcileStart 0
                   (clearDesiredStateResyncState key (drop_cached r key s), q)))
          else Some (system_exit r ins key reconcileStart None [] [] err False [] (s, q))
      | (Inr mapping, s) \<Rightarrow>
          (let ownershipKey = OwnershipKey (r_ClusterName r) (m_Namespace mapping) (m_Name mapping);
               q = on_convergence ins (PruneStaleGenerations key (m_Generation mapping)) q in
           if m_DeletionTimestamp mapping \<noteq> None
           then Some (reconcile_deleted_observed r ins key mapping ownershipKey reconcileStart (s, q))
           else reconcile_live_observed M r ins key mapping ownershipKey reconcileStart (s, q))))"

section \<open>The committer runs beside the status write\<close>

lemma alongside_simp [simp]: "alongside f (w, q) = (case f w of (x, w) \<Rightarrow> (x, (w, q)))"
  by (simp add: alongside_def)

lemma client_alongside_simps [simp]:
  "kc_Get (client_alongside c) key = alongside (kc_Get c key)" "kc_UpdateStatus (client_alongside c) m = alongside (kc_UpdateStatus c m)"
  "kc_Now (client_alongside c) wq = kc_Now c (fst wq)"
  by (simp_all add: client_alongside_def)

lemma wired_simps [simp]:
  "su_Client (wired_updater ins u) = client_alongside (su_Client u)" "su_MaxAttempts (wired_updater ins u) = su_MaxAttempts u"
  by (simp_all add: wired_updater_def SetConvergenceCommitter_def Let_def)

definition committed :: "instruments \<Rightarrow> final_args \<Rightarrow> metric_state \<Rightarrow> metric_state" where
  "committed ins a q = (if has_ConvergenceTracker ins then commit_results ins (fa_key a) (fa_generation a) (fa_results a) q else q)"

lemma notify_wired [simp]: "notify (wired_updater ins u) a outcome err (w, q) = (w, committed ins a q)"
  by (simp add: notify_def notifyConvergence_def wired_updater_def SetConvergenceCommitter_def committed_def Let_def)

lemma notify_none: "su_convergenceCommitter u = None \<Longrightarrow> notify u a outcome err w = w"
  by (simp add: notify_def notifyConvergence_def)

lemma final_status_wired [simp]: "final_status (wired_updater ins u) a m (w, q) = final_status u a m w"
  by (simp add: final_status_def)

lemma pending_beside: "pending_loop n (wired_updater ins u) key gen psn matched lastErr (w, q) =
    (case pending_loop n u key gen psn matched lastErr w of (x, w) \<Rightarrow> (x, (w, q)))"
proof (induction n arbitrary: lastErr w)
  case (Suc n)
  then show ?case by (simp add: Let_def split: prod.split sum.split option.split)
qed simp

text \<open>The outcomes of the final status write after which the committer has not been called.\<close>

definition silent :: "goerror option \<Rightarrow> bool" where
  "silent x \<longleftrightarrow> x = Some ErrStatusObjectNotFound \<or> x = Some ErrStatusStaleGeneration \<or> (\<exists>e. x = Some (Wrapped ''fetching mapping for final status'' e))"

lemma silent_simps [simp]: "silent (Some ErrStatusObjectNotFound)" "silent (Some ErrStatusStaleGeneration)"
  "silent (Some (Wrapped ''fetching mapping for final status'' e))" "\<not> silent None"
  "\<not> silent (Some (Wrapped ''updating final status'' e))" "\<not> silent (wrap_opt ''updating final status: max attempts exceeded'' x)"
  by (auto simp: silent_def wrap_opt_def)

lemma final_after_beside:
  assumes "su_convergenceCommitter u = None"
  shows "final_after_loop (wired_updater ins u) a lastErr (w, q) =
    (case final_after_loop u a lastErr w of (x, w) \<Rightarrow> (x, (w, if silent x then q else committed ins a q)))"
  by (simp add: final_after_loop_def Let_def notify_none [OF assms] split: prod.split sum.split option.split)

lemma final_beside:
  assumes "su_convergenceCommitter u = None"
  shows "final_loop n (wired_updater ins u) a lastErr (w, q) =
    (case final_loop n u a lastErr w of (x, w) \<Rightarrow> (x, (w, if silent x then q else committed ins a q)))"
proof (induction n arbitrary: lastErr w)
  case 0
  then show ?case by (simp add: final_after_beside [OF assms])
next
  case (Suc n)
  then show ?case by (simp add: Let_def notify_none [OF assms] final_after_beside [OF assms] split: prod.split sum.split option.split)
qed

text \<open>The final status write commits what was measured exactly once, after the status is written,
  found to be right already, or given up; it commits nothing when the object is gone, when it is newer, or when it could not be
  fetched. The write itself is the same as without a committer.
\<close>

theorem committed_with_status:
  assumes "su_convergenceCommitter u = None"
  shows "UpdateAfterReconcile (wired_updater ins u) a (w, q) =
    (case UpdateAfterReconcile u a w of (x, w) \<Rightarrow> (x, (w, if silent x then q else committed ins a q)))"
  by (simp add: UpdateAfterReconcile_def final_beside [OF assms])

section \<open>What a reconcile may do to the metrics\<close>

text \<open>
  Between the start and the exit: operations that do not count a reconcile, and pending tokens
  that were pending before or are for this mapping and generation. A ready tracker needs no listing.
\<close>

definition counts_reconcile :: "collector_op \<Rightarrow> bool" where
  "counts_reconcile c = (case c of WithLabelValues v _ _ \<Rightarrow> v = ''reconcile_total'' | _ \<Rightarrow> False)"

definition ready :: "instruments \<Rightarrow> metric_state \<Rightarrow> bool" where
  "ready ins q \<longleftrightarrow> (has_InitialTracker ins \<and> has_MetricsRecorder ins \<longrightarrow> irt_initialized (mt_InitialTracker q))"

definition pending_within :: "NamespacedName \<Rightarrow> int \<Rightarrow> ConvergenceTracker \<Rightarrow> ConvergenceTracker \<Rightarrow> bool" where
  "pending_within key gen p p' \<longleftrightarrow> (\<forall>ck. gget p' ck \<noteq> None \<longrightarrow> gget p ck \<noteq> None \<or> ck_mappingKey ck = key \<and> ck_observedGeneration ck = gen)"

definition moved :: "instruments \<Rightarrow> NamespacedName \<Rightarrow> int \<Rightarrow> metric_state \<Rightarrow> metric_state \<Rightarrow> bool" where
  "moved ins key gen q q' \<longleftrightarrow> (\<exists>cs. mt_ops q' = mt_ops q @ cs \<and> list_all (\<lambda>c. \<not> counts_reconcile c) cs) \<and>
     pending_within key gen (mt_ConvergenceTracker q) (mt_ConvergenceTracker q') \<and> (ready ins q \<longrightarrow> ready ins q')"

text \<open>At the exit: one observation under the label of the stage, if the exit has a stage.\<close>

definition exited :: "instruments \<Rightarrow> NamespacedName \<Rightarrow> int \<Rightarrow> ReconcileMetricStage option \<Rightarrow> metric_state \<Rightarrow> metric_state \<Rightarrow> bool" where
  "exited ins key gen stage q q' \<longleftrightarrow> (\<exists>q1. moved ins key gen q q1 \<and>
     (case stage of None \<Rightarrow> q' = q1
      | Some st \<Rightarrow> \<exists>d n. q' = emit ins (ObserveReconcile (nn_Namespace key) (nn_Name key) (ClassifyReconcileMetricResult st) d @
          ObserveActionsPerCycle (nn_Namespace key) (nn_Name key) n) q1))"

named_theorems metric_moves

lemma moved_refl [metric_moves]: "moved ins key gen q q"
  by (simp add: moved_def pending_within_def)

lemma pending_trans: "pending_within key gen p p1 \<Longrightarrow> pending_within key gen p1 p2 \<Longrightarrow> pending_within key gen p p2"
  unfolding pending_within_def by blast

lemma pending_refl [simp]: "pending_within key gen p p"
  by (simp add: pending_within_def)

lemma moved_trans:
  assumes "moved ins key gen q q1" and "moved ins key gen q1 q2"
  shows "moved ins key gen q q2"
proof -
  obtain cs ds where "mt_ops q1 = mt_ops q @ cs" "mt_ops q2 = mt_ops q1 @ ds" "list_all (\<lambda>c. \<not> counts_reconcile c) cs" "list_all (\<lambda>c. \<not> counts_reconcile c) ds"
    using assms unfolding moved_def by blast
  then have "mt_ops q2 = mt_ops q @ (cs @ ds)" "list_all (\<lambda>c. \<not> counts_reconcile c) (cs @ ds)" by simp_all
  moreover have "pending_within key gen (mt_ConvergenceTracker q) (mt_ConvergenceTracker q2)"
    using assms pending_trans unfolding moved_def by blast
  ultimately show ?thesis using assms unfolding moved_def by blast
qed

lemma exited_trans: "moved ins key gen q q1 \<Longrightarrow> exited ins key gen stage q1 q2 \<Longrightarrow> exited ins key gen stage q q2"
  unfolding exited_def using moved_trans by blast

lemma exited_conflict: "moved ins key gen q q' \<Longrightarrow> exited ins key gen None q q'"
  by (auto simp: exited_def)

lemma moved_emit: "list_all (\<lambda>c. \<not> counts_reconcile c) cs \<Longrightarrow> moved ins key gen q (emit ins cs q)"
  by (simp add: moved_def emit_def pending_within_def ready_def)

lemma moved_conv: "pending_within key gen (mt_ConvergenceTracker q) (f (mt_ConvergenceTracker q)) \<Longrightarrow> moved ins key gen q (on_convergence ins f q)"
  by (simp add: moved_def on_convergence_def pending_within_def ready_def)

lemma moved_churn: "moved ins key gen q (q\<lparr>mt_PodChurnTracker := tr\<rparr>)"
  by (simp add: moved_def pending_within_def ready_def)

lemma pending_filter: "pending_within key gen p (filter P p)"
  by (auto simp: pending_within_def gget_None_iff)

lemma pending_fold: "(\<And>x p. pending_within key gen p (f x p)) \<Longrightarrow> pending_within key gen p (fold f xs p)"
  by (induction xs arbitrary: p) (auto intro: pending_trans)

lemma pending_gput: "gget p ck \<noteq> None \<or> ck_mappingKey ck = key \<and> ck_observedGeneration ck = gen \<Longrightarrow> pending_within key gen p (gput ck v p)"
  unfolding pending_within_def by (simp split: if_splits)

lemma pending_gdel: "pending_within key gen p (gdel ck p)"
  by (simp add: pending_within_def)

lemma pending_start: "pending_within key gen p (startConvergenceTracking key gen actions desired actual t p)"
proof -
  have "pending_within key gen p (StartOrKeep key target gen oper t p)" for target oper p
    by (auto simp: StartOrKeep_def conv_key_def intro!: pending_gput split: option.split)
  then show ?thesis unfolding startConvergenceTracking_def by (intro pending_fold) (simp split: option.split)
qed

lemma pending_stage: "pending_within key gen p (stageConvergenceResults t key' gen' results p)"
proof -
  have "pending_within key gen p (StageSuccessfulAction key' target gen' oper t' p)" for target oper t' p
    by (auto simp: StageSuccessfulAction_def intro!: pending_gput split: option.split)
  then show ?thesis unfolding stageConvergenceResults_def by (intro pending_fold) simp
qed

lemma pending_commit: "pending_within key gen p (snd (convergence_committer key' gen' results p))"
proof (induction results arbitrary: p)
  case (Cons res results)
  obtain obs1 p1 where 1: "commit_step key' gen' res p = (obs1, p1)" by fastforce
  then have "pending_within key gen p p1"
    unfolding pending_within_def by (auto simp: commit_step_get [OF 1] split: if_splits)
  then show ?case using Cons.IH [of p1] pending_trans 1 by (auto simp: committer_Cons)
qed simp


section \<open>With and without instruments\<close>

text \<open>The plain reconciler has a status updater without a committer.\<close>

abbreviation uncommitted :: "'w MappingReconciler \<Rightarrow> bool" where
  "uncommitted r \<equiv> \<forall>u. r_StatusUpdater r = Some u \<longrightarrow> su_convergenceCommitter u = None"

abbreviation paired :: "'a \<times> 'w reconciler_state \<Rightarrow> metric_state \<Rightarrow> 'a \<times> 'w observed_state" where
  "paired y q \<equiv> (fst y, (snd y, q))"

definition left_at :: "instruments \<Rightarrow> NamespacedName \<Rightarrow> int \<Rightarrow> reconcile_exit + 'a \<Rightarrow> metric_state \<Rightarrow> metric_state \<Rightarrow> bool" where
  "left_at ins key gen x q q' = (case x of Inl e \<Rightarrow> exited ins key gen (snd (snd e)) q q' | Inr _ \<Rightarrow> moved ins key gen q q')"

lemma moved_ready: "moved ins key gen q q' \<Longrightarrow> ready ins q \<Longrightarrow> ready ins q'"
  by (simp add: moved_def)

lemma moved_committed: "moved ins key gen q (committed ins a q)"
proof (cases "has_ConvergenceTracker ins")
  case True
  obtain observed pending where c: "convergence_committer (fa_key a) (fa_generation a) (fa_results a) (mt_ConvergenceTracker q) = (observed, pending)" by fastforce
  let ?q = "q\<lparr>mt_ConvergenceTracker := pending\<rparr>"
  have "moved ins key gen q ?q"
    using pending_commit [of key gen "mt_ConvergenceTracker q" "fa_key a" "fa_generation a" "fa_results a"] c by (simp add: moved_def ready_def)
  moreover have "moved ins key gen ?q (emit ins (concat (map (\<lambda>(target, oper, d). ObserveConvergence target oper d) observed)) ?q)"
    by (rule moved_emit) (auto simp: list_all_iff ObserveConvergence_def counts_reconcile_def)
  ultimately show ?thesis using True c by (simp add: committed_def commit_results_def moved_trans)
qed (simp add: committed_def moved_refl)

lemma observed_final:
  assumes "su_convergenceCommitter u = None"
  shows "\<exists>q'. external_observed r (UpdateAfterReconcile (wired_updater ins u) a) (s, q) = paired (external r (UpdateAfterReconcile u a) s) q' \<and>
    moved ins key gen q q'"
proof -
  obtain x w where "UpdateAfterReconcile u a (s_world s) = (x, w)" by fastforce
  then have "external_observed r (UpdateAfterReconcile (wired_updater ins u) a) (s, q) =
      paired (external r (UpdateAfterReconcile u a) s) (if silent x then q else committed ins a q)"
    by (simp add: external_observed_def external_def UpdateAfterReconcile_def final_beside [OF assms])
  then show ?thesis using moved_committed moved_refl by (cases "silent x") auto
qed

lemma observed_pending: "external_observed r (UpdatePending (wired_updater ins u) k g psn matched) (s, q) =
    paired (external r (UpdatePending u k g psn matched) s) q"
  by (simp add: external_observed_def external_def UpdatePending_def pending_beside split: prod.split)

lemma observed_terminal_mark:
  assumes "ready ins q"
  shows "\<exists>q'. markInitialTerminal_observed r ins k (s, q) = (s, q') \<and> moved ins key gen q q'"
proof (cases "has_InitialTracker ins \<and> has_MetricsRecorder ins")
  case True
  then have i: "irt_initialized (mt_InitialTracker q)" using assms by (simp add: ready_def)
  obtain d tr where m: "MarkTerminal (now r s) k True (mt_InitialTracker q) = (d, tr)" by fastforce
  let ?q = "q\<lparr>mt_InitialTracker := tr\<rparr>"
  have "irt_initialized tr" using m i by (auto simp: MarkTerminal_def Let_def split: if_splits)
  then have "moved ins key gen q ?q" by (simp add: moved_def ready_def)
  moreover have "moved ins key gen ?q (emit ins (case d of None \<Rightarrow> [] | Some d \<Rightarrow> SetInitialReconcileComplete d) ?q)"
    by (rule moved_emit) (simp add: SetInitialReconcileComplete_def counts_reconcile_def split: option.split)
  ultimately show ?thesis using True i m
    by (simp add: markInitialTerminal_observed_def fallback_listing_def markInitialTerminal_def moved_trans)
qed (simp add: markInitialTerminal_observed_def moved_refl)

lemma observed_cleanup: "\<exists>q'. cleanup_observed ins k (s, q) = (cleanupPerMappingMetricState k s, q') \<and> moved ins key gen q q'"
proof -
  define q1 where "q1 = on_convergence ins (Forget_convergence k) q"
  define q2 where "q2 = (if has_PodChurnTracker ins \<and> has_MetricsRecorder ins
      then emit ins (fst (ForgetWithDelete k (mt_PodChurnTracker q1)) @ DeleteForMapping_churn (nn_Namespace k) (nn_Name k))
        (q1\<lparr>mt_PodChurnTracker := snd (ForgetWithDelete k (mt_PodChurnTracker q1))\<rparr>) else q1)"
  define q3 where "q3 = emit ins (DeleteForMapping_reconcile (nn_Namespace k) (nn_Name k)) q2"
  have 1: "moved ins key gen q q1" unfolding q1_def Forget_convergence_def by (rule moved_conv) (rule pending_filter)
  have 2: "moved ins key gen q1 q2"
    unfolding q2_def by (auto intro!: moved_refl moved_trans [OF moved_churn moved_emit]
        simp: ForgetWithDelete_def DeleteForMapping_churn_def counts_reconcile_def Let_def)
  have 3: "moved ins key gen q2 q3" unfolding q3_def by (rule moved_emit) (simp add: DeleteForMapping_reconcile_def counts_reconcile_def Let_def)
  have "cleanup_observed ins k (s, q) = (cleanupPerMappingMetricState k s, q3)"
    by (simp add: cleanup_observed_def Let_def q1_def q2_def q3_def case_prod_beta)
  then show ?thesis using moved_trans [OF moved_trans [OF 1 2] 3] by blast
qed

lemma observed_gone:
  assumes "ready ins q"
  shows "\<exists>q'. gone_exit r ins k (s, q) = (cleanupPerMappingMetricState k s, q') \<and> moved ins key gen q q'"
proof -
  obtain q1 where 1: "cleanup_observed ins k (s, q) = (cleanupPerMappingMetricState k s, q1)" "moved ins key gen q q1" using observed_cleanup by blast
  obtain q2 where 2: "markInitialTerminal_observed r ins k (cleanupPerMappingMetricState k s, q1) = (cleanupPerMappingMetricState k s, q2)" "moved ins key gen q1 q2"
    using observed_terminal_mark [OF moved_ready [OF 1(2) assms]] by blast
  show ?thesis using 1 2 moved_trans by (auto simp: gone_exit_def)
qed

lemma observed_terminal:
  assumes "ready ins q"
  shows "\<exists>q'. terminal_exit r ins k (s, q) = (cleanupPerMappingMetricState k s, q') \<and> moved ins key gen q q'"
proof -
  obtain q1 where 1: "markInitialTerminal_observed r ins k (s, q) = (s, q1)" "moved ins key gen q q1" using observed_terminal_mark [OF assms] by blast
  obtain q2 where 2: "cleanup_observed ins k (s, q1) = (cleanupPerMappingMetricState k s, q2)" "moved ins key gen q1 q2" using observed_cleanup by blast
  show ?thesis using 1 2 moved_trans by (auto simp: terminal_exit_def)
qed

lemma observed_prune: "pruneConvergenceForGeneration ins k g (s, q) = (s, on_convergence ins (ForgetGeneration k g) q) \<and>
    moved ins key gen q (on_convergence ins (ForgetGeneration k g) q)"
  unfolding pruneConvergenceForGeneration_def ForgetGeneration_def by (simp add: moved_conv pending_filter)

lemma exited_observe: "moved ins key gen q q1 \<Longrightarrow> \<exists>q'. observeReconcile r ins key st t n (s, q1) = (s, q') \<and> exited ins key gen (Some st) q q'"
  unfolding observeReconcile_def exited_def by auto


lemma observed_finalize:
  assumes u: "uncommitted r" and q: "ready ins q"
  shows "\<exists>q'. finalizeSystemError_observed r ins key m ok matched err allow results (s, q) =
      paired (finalizeSystemError r key m ok matched err allow results s) q' \<and> moved ins key gen q q'"
proof (cases "allow \<and> (\<exists>u m'. r_StatusUpdater r = Some u \<and> m = Some m')")
  case False
  then show ?thesis using moved_refl
    by (auto simp: finalizeSystemError_observed_def finalizeSystemError_def Let_def split: option.split bool.split)
next
  case True
  then obtain u m' where m: "r_StatusUpdater r = Some u" "m = Some m'" "allow" by auto
  let ?a = "status_args key m' ok results (Some err) [] matched"
  have c: "su_convergenceCommitter u = None" using u m(1) by simp
  obtain q1 where 1: "external_observed r (UpdateAfterReconcile (wired_updater ins u) ?a) (s, q) = paired (external r (UpdateAfterReconcile u ?a) s) q1"
    "moved ins key gen q q1" using observed_final [OF c] by blast
  obtain x s1 where x: "external r (UpdateAfterReconcile u ?a) s = (x, s1)" by fastforce
  obtain q2 where 2: "gone_exit r ins key (s1, q1) = (cleanupPerMappingMetricState key s1, q2)" "moved ins key gen q1 q2"
    using observed_gone [OF moved_ready [OF 1(2) q]] by blast
  note 3 = observed_prune [of ins key "m_Generation m'" s1 q1 key gen]
  note t = moved_trans [OF 1(2)]
  show ?thesis
    using m 1 x 2 3 t [OF 2(2)] t [OF conjunct2 [OF 3]]
    by (cases x) (auto simp: finalizeSystemError_observed_def finalizeSystemError_def Let_def finalizeStatusWriteError_def)
qed

lemma observed_system_exit:
  assumes "uncommitted r" and "ready ins q"
  shows "\<exists>q'. system_exit r ins key t m ok matched err allow results (s, q) = paired (finalizeSystemError r key m ok matched err allow results s) q' \<and>
    exited ins key gen (snd (snd (fst (finalizeSystemError r key m ok matched err allow results s)))) q q'"
proof -
  obtain res e stage s1 where f: "finalizeSystemError r key m ok matched err allow results s = ((res, e, stage), s1)" by (metis surj_pair)
  obtain q1 where 1: "finalizeSystemError_observed r ins key m ok matched err allow results (s, q) = ((res, e, stage), (s1, q1))" "moved ins key gen q q1"
    using observed_finalize [OF assms, of key m ok matched err allow results s gen] f by auto
  show ?thesis
  proof (cases stage)
    case None
    then show ?thesis using f 1 exited_conflict by (auto simp: system_exit_def)
  next
    case (Some st)
    obtain q2 where "observeReconcile r ins key st t 0 (s1, q1) = (s1, q2)" "exited ins key gen (Some st) q q2"
      using exited_observe [OF 1(2)] by blast
    then show ?thesis using f 1 Some by (auto simp: system_exit_def)
  qed
qed

lemma observed_status_call:
  assumes q: "ready ins q"
    and f: "\<And>u. r_StatusUpdater r = Some u \<Longrightarrow>
      \<exists>q'. external_observed r (fo (wired_updater ins u)) (s, q) = paired (external r (f u) s) q' \<and> moved ins key gen q q'"
  shows "\<exists>q'. status_call_observed r ins key g t fo (s, q) = paired (status_call r key f s) q' \<and> left_at ins key gen (fst (status_call r key f s)) q q'"
proof (cases "r_StatusUpdater r")
  case None
  then show ?thesis using moved_refl by (simp add: status_call_observed_def status_call_def left_at_def)
next
  case (Some u)
  obtain q1 where 1: "external_observed r (fo (wired_updater ins u)) (s, q) = paired (external r (f u) s) q1" "moved ins key gen q q1"
    using f [OF Some] by blast
  obtain x s1 where x: "external r (f u) s = (x, s1)" by fastforce
  obtain q2 where 2: "gone_exit r ins key (drop_cached r key s1, q1) = (cleanupPerMappingMetricState key (drop_cached r key s1), q2)" "moved ins key gen q1 q2"
    using observed_gone [OF moved_ready [OF 1(2) q]] by blast
  obtain q3 where 3: "observeReconcile r ins key ReconcileStageStatusSentinelTerminal t 0 (cleanupPerMappingMetricState key (drop_cached r key s1), q2) =
      (cleanupPerMappingMetricState key (drop_cached r key s1), q3)" "exited ins key gen (Some ReconcileStageStatusSentinelTerminal) q q3"
    using exited_observe [OF moved_trans [OF 1(2) 2(2)]] by blast
  note p = observed_prune [of ins key g s1 q1 key gen]
  obtain q4 where 4: "observeReconcile r ins key ReconcileStageStatusSentinelTerminal t 0 (s1, on_convergence ins (ForgetGeneration key g) q1) =
      (s1, q4)" "exited ins key gen (Some ReconcileStageStatusSentinelTerminal) q q4"
    using exited_observe [OF moved_trans [OF 1(2) conjunct2 [OF p]]] by blast
  show ?thesis
    using Some 1 x 2 3 4 p by (cases x) (auto simp: status_call_observed_def status_call_def left_at_def)
qed

lemma observed_final_call:
  assumes "uncommitted r" and "ready ins q"
  shows "\<exists>q'. status_call_observed r ins key g t (\<lambda>u. UpdateAfterReconcile u a) (s, q) = paired (status_call r key (\<lambda>u. UpdateAfterReconcile u a) s) q' \<and>
    left_at ins key gen (fst (status_call r key (\<lambda>u. UpdateAfterReconcile u a) s)) q q'"
  by (rule observed_status_call [OF assms(2)], rule observed_final) (simp add: assms(1))

lemma observed_pending_call:
  assumes "ready ins q"
  shows "\<exists>q'. status_call_observed r ins key g t (\<lambda>u. UpdatePending u k gn psn matched) (s, q) =
      paired (status_call r key (\<lambda>u. UpdatePending u k gn psn matched) s) q' \<and>
    left_at ins key gen (fst (status_call r key (\<lambda>u. UpdatePending u k gn psn matched) s)) q q'"
  by (rule observed_status_call [OF assms]) (use observed_pending moved_refl in blast)

lemma observed_list:
  assumes "uncommitted r" and "ready ins q"
  shows "\<exists>q'. list_and_recompute_observed M r ins key m ok t (s, q) = paired (list_and_recompute M r key m ok s) q' \<and>
    left_at ins key gen (fst (list_and_recompute M r key m ok s)) q q'"
proof -
  obtain x s1 where x: "external r (kc_ListPods (r_Client r) (m_Namespace m)) s = (x, s1)" by fastforce
  show ?thesis
  proof (cases x)
    case (Inl err)
    obtain q' where q': "system_exit r ins key t (Some m) ok [] err True [] (s1, q) = paired (finalizeSystemError r key (Some m) ok [] err True [] s1) q'"
      "exited ins key gen (snd (snd (fst (finalizeSystemError r key (Some m) ok [] err True [] s1)))) q q'"
      using observed_system_exit [OF assms] by blast
    then show ?thesis using x Inl by (auto simp: list_and_recompute_observed_def list_and_recompute_def left_at_def split: prod.splits)
  next
    case (Inr pods)
    then show ?thesis using x moved_refl by (auto simp: list_and_recompute_observed_def list_and_recompute_def left_at_def)
  qed
qed

lemma observed_retry:
  assumes "uncommitted r" and "ready ins q"
  shows "\<exists>q'. retry_publish_observed M r ins key m ok t (s, q) = paired (retry_publish M r key m ok t s) q' \<and>
    left_at ins key gen (fst (retry_publish M r key m ok t s)) q q'"
proof -
  obtain c ver epoch b where g: "GetWithVersion (s_DesiredStateCache s) m = (c, ver, epoch, b)" by (metis prod_cases4)
  obtain x s1 where x: "mappingStillCurrent r key (m_UID m) (m_Generation m) s = (x, s1)" by fastforce
  show ?thesis
  proof (cases "x = Inr True")
    case False
    then show ?thesis using g x exited_conflict [OF moved_refl]
      by (cases x) (auto simp: retry_publish_observed_def retry_publish_def left_at_def split: bool.split)
  next
    case True
    obtain q1 where 1: "list_and_recompute_observed M r ins key m ok t (s1, q) = paired (list_and_recompute M r key m ok s1) q1"
      "left_at ins key gen (fst (list_and_recompute M r key m ok s1)) q q1" using observed_list [OF assms] by blast
    obtain y s2 where y: "list_and_recompute M r key m ok s1 = (y, s2)" by fastforce
    show ?thesis using g x True 1 y exited_conflict
      by (cases y) (auto simp: retry_publish_observed_def retry_publish_def left_at_def split: prod.split bool.split)
  qed
qed

lemma observed_recompute:
  assumes "uncommitted r" and "ready ins q"
  shows "\<exists>q'. recompute_desired_observed M r ins key m ok t forced ver epoch (s, q) = paired (recompute_desired M r key m ok t forced ver epoch s) q' \<and>
    left_at ins key gen (fst (recompute_desired M r key m ok t forced ver epoch s)) q q'"
proof -
  obtain q1 where 1: "list_and_recompute_observed M r ins key m ok t (s, q) = paired (list_and_recompute M r key m ok s) q1"
    "left_at ins key gen (fst (list_and_recompute M r key m ok s)) q q1" using observed_list [OF assms] by blast
  obtain y s1 where y: "list_and_recompute M r key m ok s = (y, s1)" by fastforce
  show ?thesis
  proof (cases y)
    case (Inl e)
    then show ?thesis using 1 y by (simp add: recompute_desired_observed_def recompute_desired_def left_at_def)
  next
    case (Inr arts)
    have m1: "moved ins key gen q q1" using 1(2) y Inr by (simp add: left_at_def)
    obtain x s2 where x: "mappingStillCurrent r key (m_UID m) (m_Generation m) s1 = (x, s2)" by fastforce
    obtain b s3 where b: "publish m arts ver epoch s2 = (b, s3)" by fastforce
    obtain q2 where 2: "retry_publish_observed M r ins key m ok t (s3, q1) = paired (retry_publish M r key m ok t s3) q2"
      "left_at ins key gen (fst (retry_publish M r key m ok t s3)) q1 q2" using observed_retry [OF assms(1) moved_ready [OF m1 assms(2)]] by blast
    have 3: "left_at ins key gen (fst (retry_publish M r key m ok t s3)) q q2"
      using 2(2) moved_trans [OF m1] exited_trans [OF m1] unfolding left_at_def by (auto split: sum.split)
    show ?thesis
    proof (cases "r_hasCache r \<and> x = Inr True \<and> \<not> b")
      case True
      then show ?thesis using 1 y Inr x b 2 3 m1
        by (auto simp: recompute_desired_observed_def recompute_desired_def left_at_def split: prod.split bool.split)
    next
      case False
      then show ?thesis using 1 y Inr x b m1 exited_conflict
        by (cases x) (auto simp: recompute_desired_observed_def recompute_desired_def left_at_def split: prod.split bool.split)
    qed
  qed
qed

lemma observed_resolve:
  assumes "uncommitted r" and "ready ins q"
  shows "\<exists>q'. resolve_desired_observed M r ins key m ok t (s, q) = paired (resolve_desired M r key m ok t s) q' \<and>
    left_at ins key gen (fst (resolve_desired M r key m ok t s)) q q'"
proof -
  obtain c ver epoch b where g: "GetWithVersion (s_DesiredStateCache s) m = (c, ver, epoch, b)" by (metis prod_cases4)
  show ?thesis
    using g observed_recompute [OF assms, of M key m ok t _ _ _ s gen] moved_refl
    by (auto simp: resolve_desired_observed_def resolve_desired_def left_at_def Let_def)
qed


lemma moved_record_diff: "moved ins key gen q (record_diff ins key gen desired actual actions d t q)"
proof -
  define q1 where "q1 = emit ins (ObserveCRDResolution (nn_Namespace key) (nn_Name key) (ClassifyCRDResolutionOperation actions) d) q"
  define q2 where "q2 = emit ins (concat (map IncrementDriftCorrections (detectAndRecordDrift desired actual actions))) q1"
  have 1: "moved ins key gen q q1" unfolding q1_def by (rule moved_emit) (simp add: ObserveCRDResolution_def counts_reconcile_def)
  have 2: "moved ins key gen q1 q2" unfolding q2_def by (rule moved_emit) (auto simp: list_all_iff IncrementDriftCorrections_def counts_reconcile_def)
  have 3: "moved ins key gen q2 (on_convergence ins (startConvergenceTracking key gen actions desired actual t) q2)"
    by (rule moved_conv) (rule pending_start)
  show ?thesis using moved_trans [OF moved_trans [OF 1 2] 3] by (simp add: record_diff_def q1_def q2_def Let_def)
qed

lemma moved_record_results: "moved ins key gen q (record_results ins k g results t q)"
proof -
  define q1 where "q1 = emit ins (concat (map (\<lambda>(label, resultLabel). RecordPrefixSetAction label resultLabel) (recorded_actions results))) q"
  have 1: "moved ins key gen q q1" unfolding q1_def by (rule moved_emit) (auto simp: list_all_iff RecordPrefixSetAction_def counts_reconcile_def)
  have 2: "moved ins key gen q1 (on_convergence ins (stageConvergenceResults t k g results) q1)" by (rule moved_conv) (rule pending_stage)
  show ?thesis using moved_trans [OF 1 2] by (simp add: record_results_def q1_def Let_def)
qed

lemma moved_churn_snapshot: "\<exists>q'. observePodChurnFromSnapshot r ins k snap (s, q) = (s, q') \<and> moved ins key gen q q'"
proof -
  obtain delta counters rate tr where c: "ObserveSnapshot k snap (now r s) (mt_PodChurnTracker q) = ((delta, counters, rate), tr)" by (metis surj_pair)
  have "list_all (\<lambda>c. \<not> counts_reconcile c) (ObserveSnapshot_ops k counters rate)"
    by (auto simp: list_all_iff ObserveSnapshot_ops_def counts_reconcile_def)
  then show ?thesis using c moved_refl moved_trans [OF moved_churn moved_emit] by (auto simp: observePodChurnFromSnapshot_def)
qed

text \<open>A step of the loop that may panic.\<close>

definition agrees :: "instruments \<Rightarrow> NamespacedName \<Rightarrow> int \<Rightarrow> metric_state \<Rightarrow> ((reconcile_exit + 'a) \<times> 'w observed_state) option \<Rightarrow>
    ((reconcile_exit + 'a) \<times> 'w reconciler_state) option \<Rightarrow> bool" where
  "agrees ins key gen q ob plain \<longleftrightarrow> (case plain of None \<Rightarrow> ob = None | Some y \<Rightarrow> \<exists>q'. ob = Some (paired y q') \<and> left_at ins key gen (fst y) q q')"

definition agrees_exit :: "instruments \<Rightarrow> NamespacedName \<Rightarrow> int \<Rightarrow> metric_state \<Rightarrow> (reconcile_exit \<times> 'w observed_state) option \<Rightarrow>
    (reconcile_exit \<times> 'w reconciler_state) option \<Rightarrow> bool" where
  "agrees_exit ins key gen q ob plain \<longleftrightarrow> (case plain of None \<Rightarrow> ob = None
     | Some y \<Rightarrow> \<exists>q'. ob = Some (paired y q') \<and> exited ins key gen (snd (snd (fst y))) q q')"

lemma agrees_fail:
  assumes "uncommitted r" and "moved ins key gen q q1" and "ready ins q"
  shows "agrees ins key gen q (case system_exit r ins key t m ok matched err allow results (s, q1) of (x, os) \<Rightarrow> Some (Inl x, os))
    (case finalizeSystemError r key m ok matched err allow results s of (x, s) \<Rightarrow> Some (Inl x, s))"
  using observed_system_exit [OF assms(1) moved_ready [OF assms(2,3)], of key t m ok matched err allow results s gen] exited_trans [OF assms(2)]
  by (auto simp: agrees_def left_at_def split: prod.splits)

lemma observed_prepare:
  assumes u: "uncommitted r" and q: "ready ins q"
  shows "agrees ins key (m_Generation m) q (prepare_observed r ins key m ok t0 t1 rv (s, q)) (prepare r key m ok rv s)"
proof (cases "LoadOwnedASGs m")
  case (Inl err)
  then show ?thesis using agrees_fail [OF u moved_refl q] by (simp add: prepare_observed_def prepare_def Let_def)
next
  case (Inr ownedRefs)
  let ?desired = "nonempty_desired (rv_desired rv)"
  let ?owned = "TargetsFromOwnedASGs ownedRefs ok"
  show ?thesis
  proof (cases "listActualForTargets r (all_targets ?desired ?owned) (s_world s)")
    case None
    then show ?thesis using Inr by (simp add: prepare_observed_def prepare_def Let_def agrees_def)
  next
    case (Some rw)
    obtain x s1 where x: "external r (\<lambda>_. rw) s = (x, s1)" by fastforce
    show ?thesis
    proof (cases x)
      case (Inl err)
      then show ?thesis using \<open>LoadOwnedASGs m = Inr ownedRefs\<close> Some x agrees_fail [OF u moved_refl q]
        by (cases rw) (simp add: prepare_observed_def prepare_def Let_def)
    next
      case i: (Inr actual0)
      let ?actual = "add_owned_actual ?desired ?owned actual0"
      let ?actions = "ComputeDiff ?desired ?actual (r_PatchThresholdPercent r)"
      let ?q = "record_diff ins key (m_Generation m) ?desired ?actual ?actions (now r s - t1) t0 q"
      obtain e m' s2 where p: "patch_owned r m ownedRefs (UpdateOwnedASGsAfterResults ownedRefs ?desired []) s1 = (e, m', s2)" by (metis surj_pair)
      note mv = moved_record_diff [of ins key "m_Generation m" q ?desired ?actual ?actions "now r s - t1" t0]
      show ?thesis
      proof (cases e)
        case None
        then show ?thesis using Inr Some x i p mv by (cases rw) (simp add: prepare_observed_def prepare_def Let_def agrees_def left_at_def)
      next
        case e: (Some err)
        then show ?thesis using Inr Some x i p agrees_fail [OF u mv q] by (cases rw) (simp add: prepare_observed_def prepare_def Let_def)
      qed
    qed
  qed
qed

lemma observed_decide:
  assumes q: "ready ins q"
  shows "\<exists>q'. decide_exit_observed r ins key m t rv p results (s, q) = paired (decide_exit r key m rv p results s) q' \<and>
    exited ins key gen (snd (snd (fst (decide_exit r key m rv p results s)))) q q'"
proof -
  obtain q1 where 1: "(if aggregateActionFailures results \<noteq> None then (s, q) else markInitialTerminal_observed r ins key (s, q)) = (s, q1)"
    "moved ins key gen q q1"
    using observed_terminal_mark [OF q, of r key s key gen] moved_refl by (cases "aggregateActionFailures results \<noteq> None") auto
  obtain res err stage s1 where d: "decide_exit r key m rv p results s = ((res, err, stage), s1)" by (metis surj_pair)
  show ?thesis
  proof (cases stage)
    case None
    then show ?thesis using 1 d exited_conflict by (auto simp: decide_exit_observed_def Let_def)
  next
    case (Some st)
    obtain q2 where "observeReconcile r ins key st t (length (pl_actions p)) (s1, q1) = (s1, q2)" "exited ins key gen (Some st) q q2"
      using exited_observe [OF 1(2)] by blast
    then show ?thesis using 1(1) d Some by (auto simp: decide_exit_observed_def Let_def)
  qed
qed

lemma observed_finish:
  assumes u: "uncommitted r" and q: "ready ins q"
  shows "\<exists>q'. finish_observed r ins key ok t rv p results (s, q) = paired (finish r key ok rv p results s) q' \<and>
    exited ins key gen (snd (snd (fst (finish r key ok rv p results s)))) q q'"
proof -
  let ?q = "record_results ins key (m_Generation (pl_mapping p)) results (now r s) q"
  have mv: "moved ins key gen q ?q" by (rule moved_record_results)
  have q1: "ready ins ?q" by (rule moved_ready [OF mv q])
  obtain e m s1 where p: "(if results = [] then (None, pl_mapping p, s)
      else patch_owned r (pl_mapping p) (pl_preRefs p) (UpdateOwnedASGsAfterResults (pl_preRefs p) (pl_desired p) results) s) = (e, m, s1)" by (metis surj_pair)
  show ?thesis
  proof (cases e)
    case (Some err)
    then show ?thesis using p observed_system_exit [OF u q1, of key t "Some m" ok "rv_matchedPodsByIndex rv" err True results s1 gen] exited_trans [OF mv]
      by (auto simp: finish_observed_def finish_def Let_def)
  next
    case None
    let ?f = "\<lambda>u. UpdateAfterReconcile u (status_args key m ok results (aggregateActionFailures results) [] (rv_matchedPodsByIndex rv))"
    obtain q2 where 2: "status_call_observed r ins key (m_Generation m) t
        (\<lambda>u. UpdateAfterReconcile u (status_args key m ok results (aggregateActionFailures results) [] (rv_matchedPodsByIndex rv))) (s1, ?q) =
        paired (status_call r key ?f s1) q2"
      "left_at ins key gen (fst (status_call r key ?f s1)) ?q q2" using observed_final_call [OF u q1] by blast
    obtain y s2 where y: "status_call r key ?f s1 = (y, s2)" by fastforce
    show ?thesis
    proof (cases y)
      case (Inl x)
      then show ?thesis using p None 2 y exited_trans [OF mv] by (auto simp: finish_observed_def finish_def Let_def left_at_def)
    next
      case (Inr se)
      have mv2: "moved ins key gen q q2" using 2(2) y Inr moved_trans [OF mv] by (simp add: left_at_def)
      show ?thesis
      proof (cases se)
        case (Some err)
        obtain q3 where "observeReconcile r ins key ReconcileStageStatusWriteError t (length (pl_actions p)) (s2, q2) = (s2, q3)"
          "exited ins key gen (Some ReconcileStageStatusWriteError) q q3" using exited_observe [OF mv2] by blast
        then show ?thesis using p None 2(1) y Inr Some by (auto simp: finish_observed_def finish_def Let_def split: prod.split)
      next
        case n: None
        show ?thesis using p None 2(1) y Inr n observed_decide [OF moved_ready [OF mv2 q], of r key m t rv p results s2 gen] exited_trans [OF mv2]
          by (auto simp: finish_observed_def finish_def Let_def)
      qed
    qed
  qed
qed

lemma observed_apply:
  assumes u: "uncommitted r" and q: "ready ins q"
  shows "agrees_exit ins key (m_Generation m) q (apply_desired_observed r ins key m ok t0 t1 rv (s, q)) (apply_desired r key m ok rv s)"
proof (cases "prepare r key m ok rv s")
  case None
  then show ?thesis using observed_prepare [OF u q, of key m ok t0 t1 rv s]
    by (simp add: agrees_def agrees_exit_def apply_desired_observed_def apply_desired_def)
next
  case (Some y)
  obtain x s1 where y: "y = (x, s1)" by fastforce
  obtain q1 where 1: "prepare_observed r ins key m ok t0 t1 rv (s, q) = Some (x, (s1, q1))" "left_at ins key (m_Generation m) x q q1"
    using observed_prepare [OF u q, of key m ok t0 t1 rv s] Some y by (auto simp: agrees_def)
  show ?thesis
  proof (cases x)
    case (Inl e)
    then show ?thesis using Some y 1 by (simp add: agrees_exit_def apply_desired_observed_def apply_desired_def left_at_def)
  next
    case (Inr p)
    have mv: "moved ins key (m_Generation m) q q1" using 1(2) Inr by (simp add: left_at_def)
    obtain results s2 where e: "(if pl_actions p = [] then ([], s1) else external r (r_Executor r (pl_actions p)) s1) = (results, s2)" by fastforce
    show ?thesis using Some y 1(1) Inr e observed_finish [OF u moved_ready [OF mv q], of key ok t0 rv p results s2 "m_Generation m"] exited_trans [OF mv]
      by (auto simp: agrees_exit_def apply_desired_observed_def apply_desired_def)
  qed
qed


lemma observed_deleted:
  assumes u: "uncommitted r" and q: "ready ins q"
  shows "\<exists>q'. reconcile_deleted_observed r ins key m ok t (s, q) = paired (reconcile_deleted r key m ok s) q' \<and>
    exited ins key gen (snd (snd (fst (reconcile_deleted r key m ok s)))) q q'"
proof -
  note fail = observed_system_exit [OF u q]
  have leave: "\<exists>q'. (case terminal_exit r ins key (s1, q) of (s2, q2) \<Rightarrow> observeReconcile r ins key ReconcileStageDeleteComplete t 0 (f s2, q2)) =
      (f (cleanupPerMappingMetricState key s1), q') \<and> exited ins key gen (Some ReconcileStageDeleteComplete) q q'" for s1 f
  proof -
    obtain q1 where 1: "terminal_exit r ins key (s1, q) = (cleanupPerMappingMetricState key s1, q1)" "moved ins key gen q q1"
      using observed_terminal [OF q] by blast
    then show ?thesis using exited_observe [OF 1(2)] by simp
  qed
  show ?thesis
  proof (cases "CleanupFinalizer \<in> set (m_Finalizers m)")
    case False
    then show ?thesis using leave [of "drop_cached r key" s]
      by (auto simp: reconcile_deleted_observed_def reconcile_deleted_def split: prod.splits)
  next
    case True
    obtain e s1 where e: "external r (reconcileDelete r m ok) (drop_cached r key s) = (e, s1)" by fastforce
    show ?thesis
    proof (cases e)
      case (Some err)
      then show ?thesis using True e fail by (simp add: reconcile_deleted_observed_def reconcile_deleted_def)
    next
      case None
      obtain x s2 where "external r (kc_Patch (r_Client r) m (m\<lparr>m_Finalizers := removeAll CleanupFinalizer (m_Finalizers m)\<rparr>)) s1 = (x, s2)" by fastforce
      then show ?thesis using True e None fail leave [of "\<lambda>s. s" s2]
        by (cases x) (auto simp: reconcile_deleted_observed_def reconcile_deleted_def Let_def split: prod.splits)
    qed
  qed
qed

lemma observed_invalid:
  assumes u: "uncommitted r" and q: "ready ins q"
  shows "\<exists>q'. reconcile_invalid_observed M r ins key m ok t issues (s, q) = paired (reconcile_invalid M r key m ok issues s) q' \<and>
    exited ins key gen (snd (snd (fst (reconcile_invalid M r key m ok issues s)))) q q'"
proof -
  obtain x s1 where x: "external r (kc_ListPods (r_Client r) (m_Namespace m)) s = (x, s1)" by fastforce
  show ?thesis
  proof (cases x)
    case (Inl err)
    then show ?thesis using x observed_system_exit [OF u q] by (simp add: reconcile_invalid_observed_def reconcile_invalid_def)
  next
    case (Inr pods)
    let ?a = "status_args key m ok [] (aggregateValidationErrors issues) issues (ComputeMatchedPodsByMapping M (m_Spec m) pods)"
    obtain q1 where 1: "status_call_observed r ins key (m_Generation m) t (\<lambda>u. UpdateAfterReconcile u ?a) (s1, q) =
        paired (status_call r key (\<lambda>u. UpdateAfterReconcile u ?a) s1) q1"
      "left_at ins key gen (fst (status_call r key (\<lambda>u. UpdateAfterReconcile u ?a) s1)) q q1" using observed_final_call [OF u q] by blast
    obtain y s2 where y: "status_call r key (\<lambda>u. UpdateAfterReconcile u ?a) s1 = (y, s2)" by fastforce
    show ?thesis
    proof (cases y)
      case (Inl e)
      then show ?thesis using x Inr 1 y by (auto simp: reconcile_invalid_observed_def reconcile_invalid_def left_at_def)
    next
      case i: (Inr e)
      have mv: "moved ins key gen q q1" using 1(2) y i by (simp add: left_at_def)
      let ?s = "clearDesiredStateResyncState key (drop_cached r key s2)"
      obtain q2 where 2: "markInitialTerminal_observed r ins key (?s, q1) = (?s, q2)" "moved ins key gen q1 q2"
        using observed_terminal_mark [OF moved_ready [OF mv q]] by blast
      obtain q3 where "observeReconcile r ins key ReconcileStageValidationTerminal t 0 (?s, q2) = (?s, q3)"
        "exited ins key gen (Some ReconcileStageValidationTerminal) q q3" using exited_observe [OF moved_trans [OF mv 2(2)]] by blast
      then show ?thesis using x Inr 1(1) y i 2(1) by (auto simp: reconcile_invalid_observed_def reconcile_invalid_def)
    qed
  qed
qed

lemma observed_resolved:
  assumes u: "uncommitted r" and q: "ready ins q"
  shows "agrees_exit ins key (m_Generation m) q (reconcile_resolved_observed r ins key m ok t0 t1 rv (s, q)) (reconcile_resolved r key m ok rv s)"
proof -
  obtain x s1 where x: "(if r_hasCache r then mappingStillCurrent r key (m_UID m) (m_Generation m) s else (Inr True, s)) = (x, s1)" by fastforce
  show ?thesis
  proof (cases "x = Inr True")
    case False
    then show ?thesis using x exited_conflict [OF moved_refl]
      by (cases x) (auto simp: reconcile_resolved_observed_def reconcile_resolved_def agrees_exit_def split: bool.split)
  next
    case True
    let ?f = "\<lambda>u. UpdatePending u key (m_Generation m) ok (rv_matchedPodsByIndex rv)"
    obtain q1 where 1: "observePodChurnFromSnapshot r ins key (rv_podSnapshot rv) (s1, q) = (s1, q1)" "moved ins key (m_Generation m) q q1"
      using moved_churn_snapshot by blast
    have q1: "ready ins q1" by (rule moved_ready [OF 1(2) q])
    obtain q2 where 2: "status_call_observed r ins key (m_Generation m) t0 (\<lambda>u. UpdatePending u key (m_Generation m) ok (rv_matchedPodsByIndex rv)) (s1, q1) =
        paired (status_call r key ?f s1) q2" "left_at ins key (m_Generation m) (fst (status_call r key ?f s1)) q1 q2"
      using observed_pending_call [OF q1] by blast
    obtain y s2 where y: "status_call r key ?f s1 = (y, s2)" by fastforce
    show ?thesis
    proof (cases y)
      case (Inl e)
      then show ?thesis using x True 1 2 y exited_trans [OF 1(2)]
        by (auto simp: reconcile_resolved_observed_def reconcile_resolved_def agrees_exit_def left_at_def)
    next
      case (Inr e)
      then have mv: "moved ins key (m_Generation m) q q2" using 2(2) y moved_trans [OF 1(2)] by (simp add: left_at_def)
      have "agrees_exit ins key (m_Generation m) q2 (apply_desired_observed r ins key m ok t0 t1 rv (s2, q2)) (apply_desired r key m ok rv s2)"
        by (rule observed_apply [OF u moved_ready [OF mv q]])
      then have "agrees_exit ins key (m_Generation m) q (apply_desired_observed r ins key m ok t0 t1 rv (s2, q2)) (apply_desired r key m ok rv s2)"
        using exited_trans [OF mv] by (auto simp: agrees_exit_def split: option.splits)
      then show ?thesis using x True 1(1) 2(1) y Inr by (simp add: reconcile_resolved_observed_def reconcile_resolved_def)
    qed
  qed
qed

lemma agrees_exit_Some:
  "\<exists>q'. y' = paired y q' \<and> exited ins key gen (snd (snd (fst y))) q q' \<Longrightarrow> agrees_exit ins key gen q (Some y') (Some y)"
  by (simp add: agrees_exit_def)

lemma observed_live:
  assumes u: "uncommitted r" and q: "ready ins q"
  shows "agrees_exit ins key (m_Generation m) q (reconcile_live_observed M r ins key m ok t (s, q)) (reconcile_live M r key m ok t s)"
proof -
  obtain x m' s1 where x: "ensureFinalizer r m s = (x, m', s1)" by (metis surj_pair)
  show ?thesis
  proof -
    consider (fail) err where "x = Inl err" | (added) "x = Inr True" | (present) "x = Inr False" by (metis sum.exhaust)
    then show ?thesis
    proof cases
      case fail
      then show ?thesis using x agrees_exit_Some [OF observed_system_exit [OF u q]] by (simp add: reconcile_live_observed_def reconcile_live_def)
    next
      case added
      then show ?thesis using x exited_observe [OF moved_refl [of ins key "m_Generation m" q], of r ReconcileStageFinalizerAddEarlyReturn t 0 s1]
        by (auto simp: reconcile_live_observed_def reconcile_live_def agrees_exit_def)
    next
      case present
      then have [simp]: "m' = m" using x by (auto simp: ensureFinalizer_def Let_def split: if_splits prod.splits sum.splits)
      obtain remaining b where d: "debounceRemaining r key (m_Generation m') t s1 = (remaining, b)" by fastforce
      consider (debounced) b | (invalid) "\<not> b" "validateASGResourceIDs (m_Mappings m') \<noteq> []" | (valid) "\<not> b" "validateASGResourceIDs (m_Mappings m') = []" by blast
      then show ?thesis
      proof cases
        case debounced
        then show ?thesis using x present d exited_observe [OF moved_refl [of ins key "m_Generation m" q], of r ReconcileStageDebounced t 0 s1]
          by (auto simp: reconcile_live_observed_def reconcile_live_def agrees_exit_def)
      next
        case invalid
        then show ?thesis using x present d agrees_exit_Some [OF observed_invalid [OF u q]]
          by (simp add: reconcile_live_observed_def reconcile_live_def Let_def)
      next
        case valid
        obtain q1 where 1: "resolve_desired_observed M r ins key m' ok t (s1, q) = paired (resolve_desired M r key m' ok t s1) q1"
          "left_at ins key (m_Generation m') (fst (resolve_desired M r key m' ok t s1)) q q1" using observed_resolve [OF u q] by blast
        obtain y s2 where y: "resolve_desired M r key m' ok t s1 = (y, s2)" by fastforce
        show ?thesis
        proof (cases y)
          case (Inl e)
          then show ?thesis using x present d valid 1 y by (simp add: reconcile_live_observed_def reconcile_live_def Let_def agrees_exit_def left_at_def)
        next
          case (Inr rv)
          then have mv: "moved ins key (m_Generation m') q q1" using 1(2) y by (simp add: left_at_def)
          have "agrees_exit ins key (m_Generation m') q (reconcile_resolved_observed r ins key m' ok t (now r s1) rv (s2, q1)) (reconcile_resolved r key m' ok rv s2)"
            using observed_resolved [OF u moved_ready [OF mv q], of key m' ok t "now r s1" rv s2] exited_trans [OF mv]
            by (auto simp: agrees_exit_def split: option.splits)
          then show ?thesis using x present d valid 1(1) y Inr by (simp add: reconcile_live_observed_def reconcile_live_def Let_def)
        qed
      qed
    qed
  qed
qed


section \<open>Theorems on a whole reconcile\<close>

text \<open>The metrics after the fetch: tokens of older generations are pruned.\<close>

abbreviation after_fetch :: "instruments \<Rightarrow> NamespacedName \<Rightarrow> goerror + PodASGMapping \<Rightarrow> metric_state \<Rightarrow> metric_state" where
  "after_fetch ins key x q \<equiv> (case x of Inl _ \<Rightarrow> q | Inr m \<Rightarrow> on_convergence ins (PruneStaleGenerations key (m_Generation m)) q)"

lemma moved_fetch: "moved ins key gen q (after_fetch ins key x q)"
  by (cases x) (auto simp: moved_refl PruneStaleGenerations_def intro!: moved_conv pending_filter)

lemma observed_Reconcile:
  assumes u: "uncommitted r" and q: "ready ins q" and x: "external r (kc_Get (r_Client r) key) s = (x, s1)"
  shows "agrees_exit ins key (case x of Inl _ \<Rightarrow> 0 | Inr m \<Rightarrow> m_Generation m) (after_fetch ins key x q)
    (Reconcile_observed M r ins key (s, q)) (Reconcile M r key s)"
proof (cases x)
  case (Inl err)
  show ?thesis
  proof (cases "api_IsNotFound err")
    case True
    obtain q1 where 1: "terminal_exit r ins key (s1, q) = (cleanupPerMappingMetricState key s1, q1)" "moved ins key 0 q q1"
      using observed_terminal [OF q] by blast
    show ?thesis using x Inl True 1(1) exited_observe [OF 1(2), of r ReconcileStageMappingNotFound "now r s" 0
          "clearDesiredStateResyncState key (drop_cached r key (cleanupPerMappingMetricState key s1))"]
      by (auto simp: Reconcile_observed_def Reconcile_def agrees_exit_def Let_def)
  next
    case False
    then show ?thesis using x Inl agrees_exit_Some [OF observed_system_exit [OF u q]] by (simp add: Reconcile_observed_def Reconcile_def Let_def)
  qed
next
  case (Inr m)
  have q1: "ready ins (after_fetch ins key x q)" by (rule moved_ready [OF moved_fetch q])
  then have q1: "ready ins (on_convergence ins (PruneStaleGenerations key (m_Generation m)) q)" by (simp add: Inr)
  show ?thesis
  proof (cases "m_DeletionTimestamp m = None")
    case True
    then show ?thesis using x Inr observed_live [OF u q1] by (simp add: Reconcile_observed_def Reconcile_def Let_def)
  next
    case False
    then show ?thesis using x Inr agrees_exit_Some [OF observed_deleted [OF u q1]] by (simp add: Reconcile_observed_def Reconcile_def Let_def)
  qed
qed

text \<open>C12:
  Instrumentation does not change what a reconcile does: with any of the recorders and trackers
  wired, and the committer given to the status updater, it makes the same calls, leaves the same cache and debounce state
  and returns the same result as without, or panics where it panics, once the tracker of the initial reconciliation is initialized.
\<close>

theorem instruments_transparent:
  assumes "uncommitted r" and "ready ins q"
  shows "map_option (\<lambda>(x, s', q'). (x, s')) (Reconcile_observed M r ins key (s, q)) = Reconcile M r key s"
proof -
  obtain x s1 where "external r (kc_Get (r_Client r) key) s = (x, s1)" by fastforce
  from observed_Reconcile [OF assms this, of M] show ?thesis by (auto simp: agrees_exit_def split: option.splits)
qed

lemma reconcile_exits:
  assumes "uncommitted r" and "ready ins q" and "Reconcile_observed M r ins key (s, q) = Some ((res, err, stage), (s', q'))"
    and x: "external r (kc_Get (r_Client r) key) s = (x, s1)"
  shows "exited ins key (case x of Inl _ \<Rightarrow> 0 | Inr m \<Rightarrow> m_Generation m) stage (after_fetch ins key x q) q'"
  using observed_Reconcile [OF assms(1,2) x, of M] assms(3) by (auto simp: agrees_exit_def split: option.splits)

lemma moved_counts: "moved ins key gen q q' \<Longrightarrow> filter counts_reconcile (mt_ops q') = filter counts_reconcile (mt_ops q)"
  by (auto simp: moved_def list_all_iff filter_empty_conv)




section \<open>A mapping that is gone\<close>

abbreviation gone_stage :: "ReconcileMetricStage option \<Rightarrow> bool" where
  "gone_stage stage \<equiv> stage = Some ReconcileStageDeleteComplete \<or> stage = Some ReconcileStageMappingNotFound"

lemma finalize_not_gone: "finalizeSystemError r key m ok matched e allow results s = (x, s') \<Longrightarrow> \<not> gone_stage (snd (snd x))"
  by (cases x) (auto dest!: finalizeSystemError_stage)

lemma list_not_gone: "list_and_recompute M r key m ok s = (Inl x, s') \<Longrightarrow> \<not> gone_stage (snd (snd x))"
  by (auto simp: list_and_recompute_def dest!: finalize_not_gone split: prod.splits sum.splits)

lemma retry_not_gone: "retry_publish M r key m ok t s = (Inl x, s') \<Longrightarrow> \<not> gone_stage (snd (snd x))"
  by (auto simp: retry_publish_def dest!: list_not_gone split: prod.splits sum.splits bool.splits)

lemma recompute_not_gone: "recompute_desired M r key m ok t forced ver epoch s = (Inl x, s') \<Longrightarrow> \<not> gone_stage (snd (snd x))"
  by (auto simp: recompute_desired_def dest!: list_not_gone retry_not_gone split: prod.splits sum.splits bool.splits if_splits)

lemma resolve_not_gone: "resolve_desired M r key m ok t s = (Inl x, s') \<Longrightarrow> \<not> gone_stage (snd (snd x))"
  by (auto simp: resolve_desired_def Let_def dest!: recompute_not_gone split: prod.splits if_splits)

lemma prepare_not_gone: "prepare r key m ok rv s = Some (Inl x, s') \<Longrightarrow> \<not> gone_stage (snd (snd x))"
  by (auto simp: prepare_def Let_def dest!: finalize_not_gone split: prod.splits sum.splits option.splits)

lemma finish_not_gone: "finish r key ok rv p results s = (x, s') \<Longrightarrow> \<not> gone_stage (snd (snd x))"
  by (auto simp: finish_def decide_exit_def Let_def dest!: finalize_not_gone status_call_stage split: prod.splits sum.splits option.splits if_splits)

lemma apply_not_gone: "apply_desired r key m ok rv s = Some (x, s') \<Longrightarrow> \<not> gone_stage (snd (snd x))"
  by (auto simp: apply_desired_def dest!: prepare_not_gone finish_not_gone split: prod.splits sum.splits option.splits if_splits)

lemma resolved_not_gone: "reconcile_resolved r key m ok rv s = Some (x, s') \<Longrightarrow> \<not> gone_stage (snd (snd x))"
  by (auto simp: reconcile_resolved_def dest!: apply_not_gone status_call_stage split: prod.splits sum.splits bool.splits if_splits)

lemma invalid_not_gone: "reconcile_invalid M r key m ok issues s = (x, s') \<Longrightarrow> \<not> gone_stage (snd (snd x))"
  by (auto simp: reconcile_invalid_def dest!: finalize_not_gone status_call_stage split: prod.splits sum.splits)

lemma live_not_gone: "reconcile_live M r key m ok t s = Some (x, s') \<Longrightarrow> \<not> gone_stage (snd (snd x))"
  by (auto simp: reconcile_live_def Let_def dest!: finalize_not_gone invalid_not_gone resolve_not_gone resolved_not_gone
      split: prod.splits sum.splits bool.splits if_splits)

lemma terminal_exit_result:
  assumes "terminal_exit r ins key (s, q) = (s1, q1)" and "has_MetricsRecorder ins" and "has_PodChurnTracker ins"
  shows "\<exists>ops. mt_ops q1 = ops @ cleanup_ops key" and "\<not> HasSnapshot key (mt_PodChurnTracker q1)"
    and "has_ConvergenceTracker ins \<Longrightarrow> \<not> HasPending key (mt_ConvergenceTracker q1)"
    and "gget (s_lastReconcileState s1) key = None" and "gget (s_desiredStateResyncState s1) key = None"
proof -
  obtain s0 q0 where "markInitialTerminal_observed r ins key (s, q) = (s0, q0)" by fastforce
  with assms have "s1 = cleanupPerMappingMetricState key s0 \<and> q1 = (on_convergence ins (Forget_convergence key) q0)
      \<lparr>mt_PodChurnTracker := Forget_churn key (mt_PodChurnTracker (on_convergence ins (Forget_convergence key) q0)),
       mt_ops := mt_ops (on_convergence ins (Forget_convergence key) q0) @ cleanup_ops key\<rparr>"
    by (auto simp: terminal_exit_def cleanup_observed_def emit_def ForgetWithDelete_def cleanup_ops_def Let_def)
  then show "\<exists>ops. mt_ops q1 = ops @ cleanup_ops key" and "\<not> HasSnapshot key (mt_PodChurnTracker q1)"
    and "has_ConvergenceTracker ins \<Longrightarrow> \<not> HasPending key (mt_ConvergenceTracker q1)"
    and "gget (s_lastReconcileState s1) key = None" and "gget (s_desiredStateResyncState s1) key = None"
    by (auto simp: on_convergence_def HasSnapshot_def Forget_churn_def HasPending_def Forget_convergence_def list_ex_iff
        cleanupPerMappingMetricState_def clearDebounceState_def clearDesiredStateResyncState_def)
qed

text \<open>How a reconcile ends when the mapping is gone: the clean-up, and then the observation.\<close>

definition left_behind :: "'w MappingReconciler \<Rightarrow> instruments \<Rightarrow> NamespacedName \<Rightarrow> 'w reconciler_state \<Rightarrow> metric_state \<Rightarrow> bool" where
  "left_behind r ins key s' q' \<longleftrightarrow> (\<exists>s q s1 q1 d. terminal_exit r ins key (s, q) = (s1, q1) \<and>
     s_lastReconcileState s' = s_lastReconcileState s1 \<and>
     (s_desiredStateResyncState s' = s_desiredStateResyncState s1 \<or> s_desiredStateResyncState s' = gdel key (s_desiredStateResyncState s1)) \<and>
     q' = emit ins (ObserveReconcile (nn_Namespace key) (nn_Name key) ReconcileResultSuccess d @
       ObserveActionsPerCycle (nn_Namespace key) (nn_Name key) 0) q1)"

lemma left_behind_observe:
  assumes "terminal_exit r ins key (s, q) = (s1, q1)" and "ClassifyReconcileMetricResult stage = ReconcileResultSuccess"
    and "observeReconcile r ins key stage t 0 (s2, q1) = (s', q')" and "s_lastReconcileState s2 = s_lastReconcileState s1"
    and "s_desiredStateResyncState s2 = s_desiredStateResyncState s1 \<or> s_desiredStateResyncState s2 = gdel key (s_desiredStateResyncState s1)"
  shows "left_behind r ins key s' q'"
proof -
  have "s' = s2" "q' = emit ins (ObserveReconcile (nn_Namespace key) (nn_Name key) ReconcileResultSuccess (now r s2 - t) @
       ObserveActionsPerCycle (nn_Namespace key) (nn_Name key) 0) q1" using assms(2,3) by (auto simp: observeReconcile_def)
  then show ?thesis using assms(1,4,5) unfolding left_behind_def by blast
qed

lemma drop_cached_maps [simp]: "s_lastReconcileState (drop_cached r key s) = s_lastReconcileState s"
  "s_desiredStateResyncState (drop_cached r key s) = s_desiredStateResyncState s"
  by (simp_all add: drop_cached_def)

lemma deleted_left_behind:
  assumes u: "uncommitted r" and q: "ready ins q"
    and d: "reconcile_deleted_observed r ins key m ok t (s, q) = ((res, err, stage), (s', q'))" and g: "gone_stage stage"
  shows "left_behind r ins key s' q'"
proof (cases "CleanupFinalizer \<in> set (m_Finalizers m)")
  case False
  obtain s1 q1 where 1: "terminal_exit r ins key (s, q) = (s1, q1)" by fastforce
  then have "observeReconcile r ins key ReconcileStageDeleteComplete t 0 (drop_cached r key s1, q1) = (s', q')"
    using d False by (simp add: reconcile_deleted_observed_def)
  then show ?thesis by (rule left_behind_observe [OF 1, rotated]) simp_all
next
  case True
  have fail: False if "system_exit r ins key t mo ok' matched e allow results (s1, q) = ((res, err, stage), (s', q'))" for mo ok' matched e allow results s1
    using observed_system_exit [OF u q, of key t mo ok' matched e allow results s1 0] that g
      finalize_not_gone [of r key mo ok' matched e allow results s1] by (metis fst_conv prod.collapse snd_conv)
  obtain e s1 where e: "external r (reconcileDelete r m ok) (drop_cached r key s) = (e, s1)" by fastforce
  obtain x s2 where x: "external r (kc_Patch (r_Client r) m (m\<lparr>m_Finalizers := removeAll CleanupFinalizer (m_Finalizers m)\<rparr>)) s1 = (x, s2)" by fastforce
  have e0: "e = None"
  proof (cases e)
    case (Some y)
    then have "system_exit r ins key t (Some m) ok [] y False [] (s1, q) = ((res, err, stage), (s', q'))"
      using d True e by (simp add: reconcile_deleted_observed_def)
    from fail [OF this] show ?thesis ..
  qed
  obtain y where x0: "x = Inr y"
  proof (cases x)
    case (Inl z)
    then have "system_exit r ins key t (Some (m\<lparr>m_Finalizers := removeAll CleanupFinalizer (m_Finalizers m)\<rparr>)) ok [] z False [] (s2, q) =
        ((res, err, stage), (s', q'))" using d True e e0 x by (simp add: reconcile_deleted_observed_def Let_def)
    from fail [OF this] show ?thesis ..
  qed
  obtain s3 q3 where 3: "terminal_exit r ins key (s2, q) = (s3, q3)" by fastforce
  have "observeReconcile r ins key ReconcileStageDeleteComplete t 0 (s3, q3) = (s', q')"
    using d True e x e0 3 x0 by (auto simp: reconcile_deleted_observed_def Let_def)
  then show ?thesis by (rule left_behind_observe [OF 3, rotated]) simp_all
qed

lemma reconcile_left_behind:
  assumes u: "uncommitted r" and q: "ready ins q" and R: "Reconcile_observed M r ins key (s, q) = Some ((res, err, stage), (s', q'))"
    and g: "gone_stage stage"
  shows "left_behind r ins key s' q'"
proof -
  obtain x s1 where x: "external r (kc_Get (r_Client r) key) s = (x, s1)" by fastforce
  show ?thesis
  proof (cases x)
    case (Inl e)
    show ?thesis
    proof (cases "api_IsNotFound e")
      case True
      obtain s2 q2 where 2: "terminal_exit r ins key (s1, q) = (s2, q2)" by fastforce
      then have "observeReconcile r ins key ReconcileStageMappingNotFound (now r s) 0 (clearDesiredStateResyncState key (drop_cached r key s2), q2) = (s', q')"
        using R x Inl True by (simp add: Reconcile_observed_def Let_def)
      then show ?thesis by (rule left_behind_observe [OF 2, rotated]) (simp_all add: clearDesiredStateResyncState_def)
    next
      case False
      then have "system_exit r ins key (now r s) None [] [] e False [] (s1, q) = ((res, err, stage), (s', q'))"
        using R x Inl by (simp add: Reconcile_observed_def Let_def)
      then have False using observed_system_exit [OF u q, of key "now r s" None "[]" "[]" e False "[]" s1 0] g
        finalize_not_gone [of r key None "[]" "[]" e False "[]" s1] by (metis fst_conv prod.collapse snd_conv)
      then show ?thesis ..
    qed
  next
    case (Inr m)
    let ?q = "on_convergence ins (PruneStaleGenerations key (m_Generation m)) q" and ?ok = "OwnershipKey (r_ClusterName r) (m_Namespace m) (m_Name m)"
    have q1: "ready ins ?q" using q by (simp add: ready_def on_convergence_def)
    show ?thesis
    proof (cases "m_DeletionTimestamp m = None")
      case False
      then have "reconcile_deleted_observed r ins key m ?ok (now r s) (s1, ?q) = ((res, err, stage), (s', q'))"
        using R x Inr by (simp add: Reconcile_observed_def Let_def)
      then show ?thesis by (rule deleted_left_behind [OF u q1 _ g])
    next
      case True
      then have "reconcile_live_observed M r ins key m ?ok (now r s) (s1, ?q) = Some ((res, err, stage), (s', q'))"
        using R x Inr by (simp add: Reconcile_observed_def Let_def)
      then have "reconcile_live M r key m ?ok (now r s) s1 = Some ((res, err, stage), s')"
        using observed_live [OF u q1, of key m M ?ok "now r s" s1] by (auto simp: agrees_exit_def split: option.splits)
      then show ?thesis using live_not_gone g by fastforce
    qed
  qed
qed

lemma part_of_union: "L' = A \<union> L \<Longrightarrow> (\<And>x. x \<in> L \<Longrightarrow> \<not> P x) \<Longrightarrow> \<forall>x \<in> A. P x \<Longrightarrow> {x \<in> L'. P x} = A"
  by blast



section \<open>Witnesses\<close>

text \<open>A reconciler with everything wired, at an API server that always answers the same.\<close>

definition ex_answers :: "goerror + PodASGMapping \<Rightarrow> unit kube_client" where
  "ex_answers x = \<lparr>kc_Get = (\<lambda>key w. (x, w)), kc_UpdateStatus = (\<lambda>m w. (None, w)), kc_Patch = (\<lambda>base m w. (Inr m, w)),
     kc_ListPods = (\<lambda>ns w. (Inr [], w)), kc_ListMappings = (\<lambda>w. (Inr [], w)), kc_Now = (\<lambda>w. 9)\<rparr>"

definition ex_metered :: "goerror + PodASGMapping \<Rightarrow> unit MappingReconciler" where
  "ex_metered x = \<lparr>r_Client = ex_answers x, r_ClusterName = ''c'', r_ResyncInterval = 60 * second, r_MinReconcileInterval = 0,
     r_PatchThresholdPercent = 50, r_PrefixSetFactory = (\<lambda>_. Inl (OtherError ''none'')), r_Executor = (\<lambda>acts w. ([], w)),
     r_StatusUpdater = Some (NewMappingStatusUpdater (ex_answers x)), r_hasCache = True, r_order = (\<lambda>ts. ts), r_semaphore = (\<lambda>_ _. None),
     r_interleaved = (\<lambda>_ _ c. c)\<rparr>"

definition ex_ins :: instruments where
  "ex_ins = \<lparr>has_MetricsRecorder = True, has_PodChurnTracker = True, has_ConvergenceTracker = True, has_InitialTracker = True\<rparr>"

abbreviation ex_token :: "int \<Rightarrow> convergenceKey \<times> convergenceToken" where
  "ex_token gen \<equiv> (conv_key (nn ''m'') (ex_asg ''A'') gen,
     \<lparr>ct_op = ConvergenceOpAdd, ct_target = ex_asg ''A'', ct_detectedAt = 1, ct_completedAt = None\<rparr>)"

text \<open>One reconcile was counted before; tokens of two generations are pending.\<close>

definition ex_metrics :: metric_state where
  "ex_metrics = \<lparr>mt_PodChurnTracker = [(nn ''m'', \<lparr>se_snapshot = \<lparr>snap_Pods = []\<rparr>, se_observedAt = 3, se_history = []\<rparr>)],
     mt_ConvergenceTracker = [ex_token 1, ex_token 3],
     mt_InitialTracker = ensure_commit [nn ''m''] (NewInitialReconcileTracker 0),
     mt_ops = ObserveReconcile ''ns'' ''m'' ReconcileResultError second\<rparr>"

definition ex_unit_state :: "unit reconciler_state" where
  "ex_unit_state = \<lparr>s_world = (), s_DesiredStateCache = NewDesiredStateCache ''c'',
     s_lastReconcileState = [(nn ''m'', \<lparr>db_lastSuccessfulAt = 2, db_generation = 1\<rparr>)], s_desiredStateResyncState = []\<rparr>"

lemma ex_metered_ok: "uncommitted (ex_metered x)" "ready ex_ins ex_metrics"
  by (simp_all add: ex_metered_def NewMappingStatusUpdater_def ready_def ex_metrics_def ensure_commit_def NewInitialReconcileTracker_def Let_def)

lemma ex_gone: "\<exists>s' q'. Reconcile_observed doc_matches (ex_metered (Inl (ApiNotFound ''x''))) ex_ins (nn ''m'') (ex_unit_state, ex_metrics) =
    Some ((result_zero, None, Some ReconcileStageMappingNotFound), (s', q'))"
  by (simp add: Reconcile_observed_def ex_metered_def ex_answers_def external_def api_IsNotFound_def observeReconcile_def split: prod.split)

lemma ex_added: "\<exists>s' q'. Reconcile_observed doc_matches (ex_metered (Inr (ex_plain_mapping 2))) ex_ins (nn ''m'') (ex_unit_state, ex_metrics) =
    Some ((\<lparr>res_Requeue = True, res_RequeueAfter = 0\<rparr>, None, Some ReconcileStageFinalizerAddEarlyReturn), (s', q')) \<and>
    mt_ConvergenceTracker q' = [ex_token 3]"
  by (simp add: Reconcile_observed_def reconcile_live_observed_def ensureFinalizer_def ex_metered_def ex_answers_def external_def ex_plain_mapping_def
      observeReconcile_def on_convergence_def emit_def ex_ins_def ex_metrics_def PruneStaleGenerations_def conv_key_def Let_def)

theorem committed_with_status_witness:
  "UpdateAfterReconcile (wired_updater ex_ins (NewMappingStatusUpdater (ex_answers (Inl (OtherError ''timeout''))))) ex_final_args ((), ex_metrics) =
     (Some (Wrapped ''fetching mapping for final status'' (OtherError ''timeout'')), ((), ex_metrics))"
proof -
  let ?u = "NewMappingStatusUpdater (ex_answers (Inl (OtherError ''timeout'')))"
  have "su_convergenceCommitter ?u = None" by (simp add: NewMappingStatusUpdater_def)
  moreover have "UpdateAfterReconcile ?u ex_final_args () = (Some (Wrapped ''fetching mapping for final status'' (OtherError ''timeout'')), ())"
    by (simp add: UpdateAfterReconcile_def NewMappingStatusUpdater_def ex_answers_def numeral_3_eq_3 api_IsNotFound_def)
  ultimately show ?thesis by (simp add: committed_with_status)
qed

theorem instruments_transparent_witness:
  "Reconcile doc_matches (ex_metered (Inl (ApiNotFound ''x''))) (nn ''m'') ex_unit_state =
     map_option (\<lambda>(x, s', q'). (x, s')) (Reconcile_observed doc_matches (ex_metered (Inl (ApiNotFound ''x''))) ex_ins (nn ''m'') (ex_unit_state, ex_metrics)) \<and>
   (\<exists>s'. Reconcile doc_matches (ex_metered (Inl (ApiNotFound ''x''))) (nn ''m'') ex_unit_state =
     Some ((result_zero, None, Some ReconcileStageMappingNotFound), s'))"
proof -
  obtain s' q' where R: "Reconcile_observed doc_matches (ex_metered (Inl (ApiNotFound ''x''))) ex_ins (nn ''m'') (ex_unit_state, ex_metrics) =
      Some ((result_zero, None, Some ReconcileStageMappingNotFound), (s', q'))" using ex_gone by blast
  from instruments_transparent [OF ex_metered_ok, of doc_matches "Inl (ApiNotFound ''x'')" "nn ''m''" ex_unit_state]
  show ?thesis unfolding R option.map prod.case by (metis)
qed




end
