(* ===== verification/Arm_Metrics.thy ===== *)
theory Arm_Metrics
  imports Metric_Series Arm_Http Executor Rate_Limit
begin

text \<open>
  The metric observers of the Azure calls (\<open>internal/azure/metrics_options.go\<close>): the retry loop of a
  request, the executor and the rate limiter once more, with what they report. An observer is a record of functions that
  may be absent, as the interface values of the source; with the options of \<open>cmd/main.go\<close> it is the \<open>ARMRecorder\<close>.

  Every function here returns what its plain version returns and, beside it, the operations on collectors in the order
  in which they happen (the goroutines of \<open>Execute\<close> in the order of the schedule).
\<close>

section \<open>Observers and options\<close>

type_synonym armRequestObserver = "string \<Rightarrow> string \<Rightarrow> string \<Rightarrow> duration \<Rightarrow> collector_op list"
type_synonym armRetryObserver = "string \<Rightarrow> string \<Rightarrow> string \<Rightarrow> collector_op list"
type_synonym armRateLimitObserver = "string \<Rightarrow> duration \<Rightarrow> collector_op list"

record ARMExecutorObserver =
  xo_ObserveCallDuration :: "string \<Rightarrow> string \<Rightarrow> duration \<Rightarrow> collector_op list"
  xo_IncConcurrentActions :: "collector_op list"
  xo_DecConcurrentActions :: "collector_op list"
  xo_ObserveETagConflict :: "string \<Rightarrow> string \<Rightarrow> collector_op list"

record client_observers =
  cl_armObserver :: "armRequestObserver option"
  cl_armRetryObserver :: "armRetryObserver option"

record executor_observers =
  xc_retryObserver :: "armRetryObserver option"
  xc_metricsObserver :: "ARMExecutorObserver option"

definition WithARMMetrics :: "armRequestObserver option \<Rightarrow> armRetryObserver option \<Rightarrow> client_observers \<Rightarrow> client_observers" where
  "WithARMMetrics obs retryObs c = c\<lparr>cl_armObserver := obs, cl_armRetryObserver := retryObs\<rparr>"

definition WithARMRecorder :: "client_observers \<Rightarrow> client_observers" where
  "WithARMRecorder = WithARMMetrics (Some ObserveRequest) (Some ObserveRetry)"

text \<open>The factory keeps the observers in two fields of its own and hands them to the clients it creates.\<close>

definition WithFactoryARMMetrics :: "armRequestObserver option \<Rightarrow> armRetryObserver option \<Rightarrow> client_observers \<Rightarrow> client_observers" where
  "WithFactoryARMMetrics obs retryObs f = f\<lparr>cl_armObserver := obs, cl_armRetryObserver := retryObs\<rparr>"

definition WithFactoryARMRecorder :: "client_observers \<Rightarrow> client_observers" where
  "WithFactoryARMRecorder = WithFactoryARMMetrics (Some ObserveRequest) (Some ObserveRetry)"

definition factory_client_observers :: "client_observers \<Rightarrow> client_observers \<Rightarrow> client_observers" where
  "factory_client_observers f c =
     (if cl_armObserver f \<noteq> None \<or> cl_armRetryObserver f \<noteq> None
      then c\<lparr>cl_armObserver := cl_armObserver f, cl_armRetryObserver := cl_armRetryObserver f\<rparr> else c)"

definition WithExecutorRetryMetrics :: "armRetryObserver option \<Rightarrow> executor_observers \<Rightarrow> executor_observers" where
  "WithExecutorRetryMetrics obs e = e\<lparr>xc_retryObserver := obs\<rparr>"

definition WithExecutorMetrics :: "ARMExecutorObserver option \<Rightarrow> executor_observers \<Rightarrow> executor_observers" where
  "WithExecutorMetrics obs e = e\<lparr>xc_metricsObserver := obs\<rparr>"

text \<open>The recorder as an observer of the executor, and the options that \<open>main\<close> gives.\<close>

definition recorder_observer :: ARMExecutorObserver where
  "recorder_observer = \<lparr>xo_ObserveCallDuration = ObserveCallDuration, xo_IncConcurrentActions = IncConcurrentActions,
     xo_DecConcurrentActions = DecConcurrentActions, xo_ObserveETagConflict = ObserveETagConflict\<rparr>"

definition recorded_client :: client_observers where
  "recorded_client = WithARMRecorder \<lparr>cl_armObserver = None, cl_armRetryObserver = None\<rparr>"

definition recorded_executor :: executor_observers where
  "recorded_executor = WithExecutorMetrics (Some recorder_observer)
     (WithExecutorRetryMetrics (Some ObserveRetry) \<lparr>xc_retryObserver = None, xc_metricsObserver = None\<rparr>)"

definition observing :: "'f option \<Rightarrow> ('f \<Rightarrow> collector_op list) \<Rightarrow> collector_op list" where
  "observing obs call = (case obs of None \<Rightarrow> [] | Some f \<Rightarrow> call f)"

section \<open>Requests\<close>

fun operation_label :: "ARMOperation \<Rightarrow> string" where
  "operation_label ARMOperationGetPrefixSet = ''GetPrefixSet''"
| "operation_label ARMOperationPutPrefixSet = ''PutPrefixSet''"
| "operation_label ARMOperationDeletePrefixSet = ''DeletePrefixSet''"
| "operation_label ARMOperationListPrefixSets = ''ListPrefixSets''"
| "operation_label ARMOperationPollLRO = ''PollLRO''"
| "operation_label (ARMOperationOther s) = s"

text \<open>\<open>skipMetrics\<close> is the field of the retry context that the plain model has no use for.\<close>

definition attempt_request_observed :: "client_observers \<Rightarrow> bool \<Rightarrow> 'w http_env \<Rightarrow> 'w AddressPrefixSetClient \<Rightarrow> RetryContext \<Rightarrow> string \<Rightarrow> string \<Rightarrow>
    string option \<Rightarrow> (string, string) gomap \<Rightarrow> int \<Rightarrow> 'w arm_state \<Rightarrow> ((goerror + http_response) + duration) \<times> 'w arm_state \<times> collector_op list" where
  "attempt_request_observed obs skipMetrics env c ctx verb url body extra attempt s =
     (case he_Err env (as_world s) of
        Some e \<Rightarrow> (Inl (Inl e), s, [])
      | None \<Rightarrow>
          (case rate_limit c (rc_SubscriptionID ctx) s of
             (Some e, s) \<Rightarrow> (Inl (Inl e), s, [])
           | (None, s) \<Rightarrow>
               (case he_NewRequest env verb url of
                  Some e \<Rightarrow> (Inl (Inl (Wrapped ''creating request'' e)), s, [])
                | None \<Rightarrow>
                    (case acquireToken env c s of
                       (Inl e, s) \<Rightarrow> (Inl (Inl e), s, [])
                     | (Inr token, s) \<Rightarrow>
                         (let start = he_Now env (as_world s); sub = rc_SubscriptionID ctx; oper = operation_label (rc_Operation ctx) in
                          case he_Do env (request verb url body token extra) (as_world s) of
                            (Inl httpErr, w) \<Rightarrow>
                              (let ops = observing (cl_armObserver obs) (\<lambda>f. f sub verb ''0'' (he_Now env w - start));
                                   decision = DecideRetry (he_Float64 env w) (Some httpErr) attempt (pc_retryPolicy c) in
                               if rd_Retry decision
                               then (Inr (rd_Delay decision), s\<lparr>as_world := w\<rparr>,
                                     ops @ observing (cl_armRetryObserver obs) (\<lambda>f. f sub oper (rd_RetryReason decision)))
                               else (Inl (Inl (Wrapped ''executing request'' httpErr)), s\<lparr>as_world := w\<rparr>, ops))
                          | (Inr resp, w) \<Rightarrow>
                              (let success = 200 \<le> rs_StatusCode resp \<and> rs_StatusCode resp < 300;
                                   ops = (if skipMetrics \<and> success then []
                                          else observing (cl_armObserver obs) (\<lambda>f. f sub verb (show_int (rs_StatusCode resp)) (he_Now env w - start))) in
                               if success then (Inl (Inr resp), s\<lparr>as_world := w\<rparr>, ops)
                               else
                                (let armErr = ARMError (ParseARMErrorWithContext env resp ctx (he_Now env w));
                                     decision = DecideRetry (he_Float64 env w) (Some armErr) attempt (pc_retryPolicy c)
                                 in if rd_Retry decision
                                    then (Inr (rd_Delay decision), s\<lparr>as_world := w\<rparr>,
                                          ops @ observing (cl_armRetryObserver obs) (\<lambda>f. f sub oper (rd_RetryReason decision)))
                                    else (Inl (Inl armErr), s\<lparr>as_world := w\<rparr>, ops))))))))"

lemma attempt_request_transparent:
  "(case attempt_request_observed obs skipMetrics env c ctx verb url body extra attempt s of (y, s', ops) \<Rightarrow> (y, s')) =
    attempt_request env c ctx verb url body extra attempt s"
  by (simp add: attempt_request_observed_def attempt_request_def Let_def split: option.split prod.split sum.split if_split)

lemma attempt_observed_plain:
  assumes "attempt_request_observed obs skipMetrics env c ctx verb url body extra attempt s = (y, s', ops)"
  shows "attempt_request env c ctx verb url body extra attempt s = (y, s')"
  using attempt_request_transparent [of obs skipMetrics env c ctx verb url body extra attempt s] assms by simp

function request_loop_observed :: "client_observers \<Rightarrow> bool \<Rightarrow> 'w http_env \<Rightarrow> 'w AddressPrefixSetClient \<Rightarrow> RetryContext \<Rightarrow> string \<Rightarrow> string \<Rightarrow>
    string option \<Rightarrow> (string, string) gomap \<Rightarrow> int \<Rightarrow> 'w arm_state \<Rightarrow> (goerror + http_response) \<times> 'w arm_state \<times> collector_op list" where
  "request_loop_observed obs skipMetrics env c ctx verb url body extra attempt s =
     (case attempt_request_observed obs skipMetrics env c ctx verb url body extra attempt s of
        (Inl res, s, ops) \<Rightarrow> (res, s, ops)
      | (Inr delay, s, ops) \<Rightarrow>
          (case he_After env delay (as_world s) of
             (Some e, w) \<Rightarrow> (Inl e, s\<lparr>as_world := w\<rparr>, ops)
           | (None, w) \<Rightarrow>
               (case request_loop_observed obs skipMetrics env c ctx verb url body extra (attempt + 1) (s\<lparr>as_world := w\<rparr>) of
                  (res, s, ops') \<Rightarrow> (res, s, ops @ ops'))))"
  by auto
termination
  by (relation "measure (\<lambda>(obs, skipMetrics, env, c, ctx, verb, url, body, extra, attempt, s). nat (last_retry (pc_retryPolicy c) + 1 - attempt))")
    (auto dest!: attempt_again [OF attempt_observed_plain [OF sym]])

declare request_loop_observed.simps [simp del]

definition doRequest_observed :: "client_observers \<Rightarrow> bool \<Rightarrow> 'w http_env \<Rightarrow> 'w AddressPrefixSetClient \<Rightarrow> RetryContext \<Rightarrow> string \<Rightarrow> string \<Rightarrow>
    string option \<Rightarrow> (string, string) gomap \<Rightarrow> 'w arm_state \<Rightarrow> (goerror + http_response) \<times> 'w arm_state \<times> collector_op list" where
  "doRequest_observed obs skipMetrics env c ctx verb url body extra s = request_loop_observed obs skipMetrics env c ctx verb url body extra 1 s"

section \<open>The rate limiter\<close>

definition WithRateLimitMetrics :: "armRateLimitObserver option \<Rightarrow> armRateLimitObserver option \<Rightarrow> armRateLimitObserver option" where
  "WithRateLimitMetrics obs old = obs"

definition Wait_observed :: "armRateLimitObserver option \<Rightarrow> ('l, 'r) rate_api \<Rightarrow> 'w RateLimitClock \<Rightarrow> string \<Rightarrow> 'l ARMRateLimiter \<times> 'w \<Rightarrow>
    goerror option \<times> ('l ARMRateLimiter \<times> 'w) \<times> collector_op list" where
  "Wait_observed obs api clock sub s =
     (case s of (l, w) \<Rightarrow>
        (case getLimiter api sub l of (ref, l) \<Rightarrow>
           (let t = rlc_Now clock w in
            case ra_ReserveN api (arl_heap l ref) t 1 of (reservation, bucket) \<Rightarrow>
              (let l = l\<lparr>arl_heap := (arl_heap l)(ref := bucket)\<rparr>;
                   delay = ra_DelayFrom api reservation t
               in if \<not> ra_OK api reservation then (Some ErrRateLimitReservationDenied, (l, w), [])
                  else if delay \<ge> ra_InfDuration api then (Some ErrRateLimitInfiniteDelay, (cancel api reservation t ref l, w), [])
                  else if delay \<le> 0 then (None, (l, w), [])
                  else (let ops = observing obs (\<lambda>f. f sub delay) in
                        case rlc_Sleep clock delay w of
                          (Some err, w) \<Rightarrow> (Some err, (cancel api reservation (rlc_Now clock w) ref l, w), ops)
                        | (None, w) \<Rightarrow> (None, (l, w), ops))))))"

lemma Wait_transparent:
  "(case Wait_observed obs api clock sub s of (e, (l, w), ops) \<Rightarrow> (e, l, w)) = Wait api clock sub s"
  by (simp add: Wait_observed_def Wait_def Let_def split: option.split prod.split if_split)

section \<open>The executor\<close>

fun etag_retry_loop_observed :: "nat \<Rightarrow> executor_observers \<Rightarrow> Executor \<Rightarrow> ('w \<Rightarrow> goerror option) \<Rightarrow> 'w AddressPrefixSetAPI \<Rightarrow> Action \<Rightarrow> ActionKind \<Rightarrow>
    goerror option \<Rightarrow> 'w \<Rightarrow> executionOutcome \<times> 'w \<times> collector_op list" where
  "etag_retry_loop_observed 0 obs e ctx client action finalKind err w =
     (\<lparr>eo_err = err, eo_noOp = False, eo_finalActionKind = finalKind\<rparr>, w, [])"
| "etag_retry_loop_observed (Suc n) obs e ctx client action finalKind err0 w =
     (case ctx w of
        Some cerr \<Rightarrow> (\<lparr>eo_err = Some cerr, eo_noOp = False, eo_finalActionKind = finalKind\<rparr>, w, [])
      | None \<Rightarrow>
          (case executeAction client action w of
             (None, w) \<Rightarrow> (\<lparr>eo_err = None, eo_noOp = False, eo_finalActionKind = finalKind\<rparr>, w, [])
           | (Some err, w) \<Rightarrow>
               if act_Kind action = PatchPrefixSet \<and> IsNotFound err then
                 (case recomputeSingleTargetActionViaDiff e action None (Some ErrNotFound) of
                    Inl rerr \<Rightarrow> (\<lparr>eo_err = Some (Wrapped ''patch recompute after not-found'' rerr), eo_noOp = False,
                                  eo_finalActionKind = finalKind\<rparr>, w, [])
                  | Inr None \<Rightarrow> (\<lparr>eo_err = None, eo_noOp = True, eo_finalActionKind = finalKind\<rparr>, w, [])
                  | Inr (Some next) \<Rightarrow> etag_retry_loop_observed n obs e ctx client next (act_Kind next) (Some err) w)
               else if \<not> IsPreconditionFailed err then
                 (\<lparr>eo_err = Some err, eo_noOp = False, eo_finalActionKind = finalKind\<rparr>, w, [])
               else
                 (let sub = tgt_SubscriptionID (act_Target action);
                      ops = observing (xc_retryObserver obs) (\<lambda>f. f sub (operation_label (armOperation (act_Kind action))) ''etag-conflict'') @
                        observing (xc_metricsObserver obs) (\<lambda>x. xo_ObserveETagConflict x sub (metricOperationLabel (act_Kind action))) in
                  if n = 0 then (\<lparr>eo_err = Some err, eo_noOp = False, eo_finalActionKind = finalKind\<rparr>, w, ops)
                  else
                    (case ctx w of
                       Some cerr \<Rightarrow> (\<lparr>eo_err = Some cerr, eo_noOp = False, eo_finalActionKind = finalKind\<rparr>, w, ops)
                     | None \<Rightarrow>
                         let (got, w) = api_Get client (target_resource (act_Target action)) w in
                         case recomputeSingleTargetActionViaDiff e action (got_current got) (got_err got) of
                              Inl rerr \<Rightarrow> (\<lparr>eo_err = Some (Wrapped ''recompute after 412'' rerr), eo_noOp = False,
                                            eo_finalActionKind = finalKind\<rparr>, w, ops)
                            | Inr None \<Rightarrow> (\<lparr>eo_err = None, eo_noOp = True, eo_finalActionKind = finalKind\<rparr>, w, ops)
                            | Inr (Some next) \<Rightarrow>
                                (case etag_retry_loop_observed n obs e ctx client next (act_Kind next) (Some err) w of
                                   (outcome, w, ops') \<Rightarrow> (outcome, w, ops @ ops'))))))"

definition executeWithETagRetry_observed :: "executor_observers \<Rightarrow> Executor \<Rightarrow> ('w \<Rightarrow> goerror option) \<Rightarrow> 'w AddressPrefixSetAPI \<Rightarrow> Action \<Rightarrow> 'w \<Rightarrow>
    executionOutcome \<times> 'w \<times> collector_op list" where
  "executeWithETagRetry_observed obs e ctx client action w =
     etag_retry_loop_observed (nat (ex_maxRetries e)) obs e ctx client action (act_Kind action) None w"

text \<open>The deferred decrement is the last thing that happens.\<close>

definition run_action_observed :: "executor_observers \<Rightarrow> Executor \<Rightarrow> 'w exec_env \<Rightarrow> Action \<Rightarrow> 'w \<Rightarrow> ActionResult \<times> 'w \<times> collector_op list" where
  "run_action_observed obs e env act w =
     (let sub = tgt_SubscriptionID (act_Target act);
          inc = observing (xc_metricsObserver obs) xo_IncConcurrentActions;
          dec = observing (xc_metricsObserver obs) xo_DecConcurrentActions in
      case env_factory env sub of
        Inl err \<Rightarrow> (failed_result act (Wrapped ''getting client'' err), w, inc @ dec)
      | Inr client \<Rightarrow>
          let start = env_clock env w; (outcome, w, ops) = executeWithETagRetry_observed obs e (env_ctx env) client act w in
          (\<lparr>ar_Action = act, ar_Success = (eo_err outcome = None), ar_Err = eo_err outcome,
            ar_CompletedAt = env_clock env w, ar_NoOp = eo_noOp outcome,
            ar_FinalActionKind = eo_finalActionKind outcome\<rparr>, w,
           inc @ ops @ observing (xc_metricsObserver obs) (\<lambda>x. xo_ObserveCallDuration x sub (metricOperationLabel (eo_finalActionKind outcome))
             (env_clock env w - start)) @ dec))"

definition execute_one_observed :: "executor_observers \<Rightarrow> Executor \<Rightarrow> 'w exec_env \<Rightarrow> nat \<Rightarrow> Action \<Rightarrow> 'w \<Rightarrow> ActionResult \<times> 'w \<times> collector_op list" where
  "execute_one_observed obs e env idx act w =
     (case env_ctx env w of
        Some cerr \<Rightarrow> if env_pick env idx then run_action_observed obs e env act w else (failed_result act cerr, w, [])
      | None \<Rightarrow> run_action_observed obs e env act w)"

definition Execute_observed :: "executor_observers \<Rightarrow> Executor \<Rightarrow> 'w exec_env \<Rightarrow> nat list \<Rightarrow> Action list \<Rightarrow> 'w \<Rightarrow> ActionResult list \<times> 'w \<times> collector_op list" where
  "Execute_observed obs e env schedule actions w =
     fold (\<lambda>idx (results, w, ops).
             let (r, w, ops') = execute_one_observed obs e env idx (actions ! idx) w in (results[idx := r], w, ops @ ops'))
       schedule (replicate (length actions) zero_result, w, [])"

section \<open>Counting\<close>

text \<open>How often the series of a vector are used, and the change of the gauge of running actions.\<close>

definition uses :: "string \<Rightarrow> collector_op list \<Rightarrow> nat" where
  "uses vec ops = length (filter (\<lambda>c. case c of WithLabelValues v _ _ \<Rightarrow> v = vec | _ \<Rightarrow> False) ops)"

definition running :: "collector_op list \<Rightarrow> int" where
  "running ops = int (count_list ops (Plain ''arm_concurrent_actions'' Inc)) - int (count_list ops (Plain ''arm_concurrent_actions'' Dec))"

lemma uses_simps [simp]: "uses vec [] = 0" "uses vec (xs @ ys) = uses vec xs + uses vec ys"
  by (simp_all add: uses_def)

lemma running_simps [simp]: "running [] = 0" "running (xs @ ys) = running xs + running ys"
  by (simp_all add: running_def)

lemma recorded_simps [simp]:
  "cl_armObserver recorded_client = Some ObserveRequest" "cl_armRetryObserver recorded_client = Some ObserveRetry"
  "xc_retryObserver recorded_executor = Some ObserveRetry" "xc_metricsObserver recorded_executor = Some recorder_observer"
  "xo_ObserveCallDuration recorder_observer = ObserveCallDuration" "xo_IncConcurrentActions recorder_observer = IncConcurrentActions"
  "xo_DecConcurrentActions recorder_observer = DecConcurrentActions" "xo_ObserveETagConflict recorder_observer = ObserveETagConflict"
  by (simp_all add: recorded_client_def WithARMRecorder_def WithARMMetrics_def recorded_executor_def WithExecutorMetrics_def
      WithExecutorRetryMetrics_def recorder_observer_def)

lemma observing_Some [simp]: "observing (Some f) call = call f"
  by (simp add: observing_def)

abbreviation requests_total :: string where "requests_total \<equiv> ''arm_requests_total''"
abbreviation retries_total :: string where "retries_total \<equiv> ''arm_retries_total''"
abbreviation conflicts_total :: string where "conflicts_total \<equiv> ''arm_etag_conflicts_total''"
abbreviation call_duration :: string where "call_duration \<equiv> ''arm_call_duration_seconds''"

lemma uses_recorder [simp]:
  "uses requests_total (ObserveRequest sub oper st d) = 1" "uses requests_total (ObserveRetry sub oper reason) = 0"
  "uses retries_total (ObserveRequest sub oper st d) = 0" "uses retries_total (ObserveRetry sub oper reason) = 1"
  "uses retries_total (ObserveETagConflict sub oper) = 0" "uses conflicts_total (ObserveETagConflict sub oper) = 1"
  "uses conflicts_total (ObserveRetry sub oper reason) = 0" "uses call_duration (ObserveCallDuration sub oper d) = 1"
  "uses call_duration (ObserveRetry sub oper reason) = 0" "uses call_duration (ObserveETagConflict sub oper) = 0"
  "uses retries_total (ObserveCallDuration sub oper d) = 0" "uses conflicts_total (ObserveCallDuration sub oper d) = 0"
  "uses vec IncConcurrentActions = 0" "uses vec DecConcurrentActions = 0"
  by (simp_all add: uses_def ObserveRequest_def ObserveRetry_def ObserveETagConflict_def ObserveCallDuration_def IncConcurrentActions_def DecConcurrentActions_def)

lemma running_recorder [simp]:
  "running (ObserveRetry sub oper reason) = 0" "running (ObserveETagConflict sub oper) = 0" "running (ObserveCallDuration sub oper d) = 0"
  "running IncConcurrentActions = 1" "running DecConcurrentActions = - 1"
  by (simp_all add: running_def ObserveRetry_def ObserveETagConflict_def ObserveCallDuration_def IncConcurrentActions_def DecConcurrentActions_def)

section \<open>Requests are counted\<close>

text \<open>A count of the requests in the world: a request that is sent adds one, nothing else adds any.\<close>

definition counts_sent :: "'w http_env \<Rightarrow> 'w AddressPrefixSetClient \<Rightarrow> ('w \<Rightarrow> nat) \<Rightarrow> bool" where
  "counts_sent env c n \<longleftrightarrow> (\<forall>rq w. n (snd (he_Do env rq w)) = Suc (n w)) \<and> (\<forall>k. env_keeps env c (\<lambda>_. False) (\<lambda>w. n w = k))"

lemma attempt_observed:
  assumes n: "counts_sent env c n" and a: "attempt_request_observed recorded_client skipMetrics env c ctx verb url body extra attempt s = (y, s', ops)"
  shows "n (as_world s') = n (as_world s) + uses requests_total ops + (if skipMetrics \<and> (\<exists>resp. y = Inl (Inr resp)) then 1 else 0) \<and>
    uses retries_total ops = (if \<exists>d. y = Inr d then 1 else 0) \<and> ((\<exists>d. y = Inr d) \<longrightarrow> n (as_world s') = Suc (n (as_world s))) \<and>
    n (as_world s') \<le> Suc (n (as_world s))"
proof -
  have k: "env_keeps env c (\<lambda>_. False) (\<lambda>w. n w = k)" for k using n by (simp add: counts_sent_def)
  obtain e s1 where rl: "rate_limit c (rc_SubscriptionID ctx) s = (e, s1)" by fastforce
  obtain tok s2 where tk: "acquireToken env c s1 = (tok, s2)" by fastforce
  have n1: "n (as_world s1) = n (as_world s)" by (rule rate_limit_keeps [OF k refl rl])
  have n2: "n (as_world s2) = n (as_world s1)" by (rule acquireToken_keeps [OF k refl tk])
  show ?thesis
  proof (cases "he_Err env (as_world s) = None \<and> e = None \<and> he_NewRequest env verb url = None \<and> (\<exists>token. tok = Inr token)")
    case True
    then obtain token where token: "tok = Inr token" by blast
    obtain ans w where d: "he_Do env (request verb url body token extra) (as_world s2) = (ans, w)" by fastforce
    have "n (snd (he_Do env (request verb url body token extra) (as_world s2))) = Suc (n (as_world s2))" using n unfolding counts_sent_def by blast
    then have w: "n w = Suc (n (as_world s))" using d n1 n2 by simp
    show ?thesis
      using True rl tk token d w a by (auto simp: attempt_request_observed_def Let_def split: sum.splits if_splits)
  next
    case False
    then show ?thesis
      using rl tk n1 n2 a by (auto simp: attempt_request_observed_def Let_def split: option.splits sum.splits if_splits)
  qed
qed

lemma request_loop_transparent:
  "(case request_loop_observed obs skipMetrics env c ctx verb url body extra attempt s of (y, s', ops) \<Rightarrow> (y, s')) =
    request_loop env c ctx verb url body extra attempt s"
proof (induction obs skipMetrics env c ctx verb url body extra attempt s rule: request_loop_observed.induct)
  case (1 obs skipMetrics env c ctx verb url body extra attempt s)
  obtain r s1 ops where o: "attempt_request_observed obs skipMetrics env c ctx verb url body extra attempt s = (r, s1, ops)" using prod_cases3 by blast
  note a = attempt_observed_plain [OF o]
  show ?case
  proof (cases r)
    case (Inl res)
    then show ?thesis using o a by (simp add: request_loop_observed.simps request_loop.simps)
  next
    case (Inr delay)
    obtain e w where t: "he_After env delay (as_world s1) = (e, w)" by fastforce
    show ?thesis
      using o a Inr t "1.IH" [OF o [symmetric] Inr refl t [symmetric]]
      by (auto simp: request_loop_observed.simps [of obs skipMetrics env c ctx verb url body extra attempt s]
          request_loop.simps [of env c ctx verb url body extra attempt s] split: option.splits prod.splits)
  qed
qed

lemma request_loop_counts:
  assumes "counts_sent env c n"
  shows "request_loop_observed recorded_client skipMetrics env c ctx verb url body extra attempt s = (y, s', ops) \<Longrightarrow>
    n (as_world s') = n (as_world s) + uses requests_total ops + (if skipMetrics \<and> (\<exists>resp. y = Inr resp) then 1 else 0) \<and>
    n (as_world s) + uses retries_total ops \<le> n (as_world s') \<and> n (as_world s') \<le> n (as_world s) + uses retries_total ops + 1"
  using assms
proof (induction "recorded_client" skipMetrics env c ctx verb url body extra attempt s arbitrary: y s' ops rule: request_loop_observed.induct)
  case (1 skipMetrics env c ctx verb url body extra attempt s)
  obtain r s1 ops1 where o: "attempt_request_observed recorded_client skipMetrics env c ctx verb url body extra attempt s = (r, s1, ops1)"
    using prod_cases3 by blast
  note a = attempt_observed [OF "1.prems"(2) o]
  note loop = request_loop_observed.simps [of recorded_client skipMetrics env c ctx verb url body extra attempt s]
  show ?case
  proof (cases r)
    case (Inl res)
    then show ?thesis using "1.prems"(1) o a by (auto simp: loop)
  next
    case (Inr delay)
    obtain e w where t: "he_After env delay (as_world s1) = (e, w)" by fastforce
    have w: "n w = n (as_world s1)"
      by (rule env_keeps_wait [where G = "\<lambda>_. False" and c = c, OF _ refl t]) (use "1.prems"(2) in \<open>simp add: counts_sent_def\<close>)
    show ?thesis
    proof (cases e)
      case None
      obtain y2 s2 ops2 where l: "request_loop_observed recorded_client skipMetrics env c ctx verb url body extra (attempt + 1) (s1\<lparr>as_world := w\<rparr>) = (y2, s2, ops2)"
        using prod_cases3 by blast
      have res: "y = y2" "s' = s2" "ops = ops1 @ ops2" using "1.prems"(1) o Inr t None l by (simp_all add: loop)
      from "1.hyps" [OF o [symmetric] Inr refl t [symmetric] None l "1.prems"(2)] show ?thesis using a w Inr by (simp add: res)
    next
      case (Some x)
      then show ?thesis using "1.prems"(1) o Inr t a w by (auto simp: loop)
    qed
  qed
qed


section \<open>Executions are counted\<close>

lemma etag_loop_transparent:
  "(case etag_retry_loop_observed n obs e ctx client action finalKind err w of (outcome, w', ops) \<Rightarrow> (outcome, w')) =
    etag_retry_loop n e ctx client action finalKind err w"
proof (induction n arbitrary: action finalKind err w)
  case (Suc n)
  obtain ea w1 where x: "executeAction client action w = (ea, w1)" by fastforce
  show ?case
  proof (cases "ctx w = None \<and> ea \<noteq> None")
    case True
    then obtain err where err: "ctx w = None" "ea = Some err" by blast
    obtain got w2 where g: "api_Get client (target_resource (act_Target action)) w1 = (got, w2)" by fastforce
    show ?thesis
    proof (cases "act_Kind action = PatchPrefixSet \<and> IsNotFound err")
      case True
      then show ?thesis using Suc.IH err x by (simp split: sum.split option.split)
    next
      case patched: False
      show ?thesis
      proof (cases "IsPreconditionFailed err \<and> n \<noteq> 0 \<and> ctx w1 = None")
        case True
        then show ?thesis using err x g patched by (auto simp: Let_def Suc.IH [symmetric] split: sum.split option.split prod.split)
      next
        case False
        then show ?thesis using err x patched by (auto simp: Let_def split: option.split)
      qed
    qed
  next
    case False
    then show ?thesis using x by (auto split: option.split)
  qed
qed simp

lemma etag_loop_counts:
  "etag_retry_loop_observed n recorded_executor e ctx client action finalKind err w = (outcome, w', ops) \<Longrightarrow>
    uses conflicts_total ops = uses retries_total ops \<and> uses retries_total ops \<le> n \<and> running ops = 0 \<and> uses call_duration ops = 0"
proof (induction n arbitrary: action finalKind err w outcome w' ops)
  case (Suc n)
  from Suc.prems show ?case
    by (auto simp: Let_def split: option.splits prod.splits sum.splits if_splits dest!: Suc.IH)
qed simp

lemma run_action_counts:
  assumes "run_action_observed recorded_executor e env act w = (r, w', ops)"
  shows "run_action e env act w = (r, w') \<and> running ops = 0 \<and> uses conflicts_total ops = uses retries_total ops \<and>
    uses retries_total ops \<le> nat (ex_maxRetries e) \<and> uses call_duration ops \<le> 1"
proof (cases "env_factory env (tgt_SubscriptionID (act_Target act))")
  case (Inl err)
  then show ?thesis using assms by (auto simp: run_action_observed_def run_action_def Let_def)
next
  case (Inr client)
  obtain outcome w1 ops1 where x: "executeWithETagRetry_observed recorded_executor e (env_ctx env) client act w = (outcome, w1, ops1)"
    using prod_cases3 by blast
  note l = x [unfolded executeWithETagRetry_observed_def]
  have "executeWithETagRetry e (env_ctx env) client act w = (outcome, w1)"
    using etag_loop_transparent [of "nat (ex_maxRetries e)" recorded_executor e "env_ctx env" client act "act_Kind act" None w] l
    by (simp add: executeWithETagRetry_def)
  then show ?thesis
    using etag_loop_counts [OF l] assms Inr x by (auto simp: run_action_observed_def run_action_def Let_def)
qed

lemma execute_one_counts:
  assumes "execute_one_observed recorded_executor e env idx act w = (r, w', ops)"
  shows "execute_one e env idx act w = (r, w') \<and> running ops = 0 \<and> uses conflicts_total ops = uses retries_total ops \<and>
    uses retries_total ops \<le> nat (ex_maxRetries e) \<and> uses call_duration ops \<le> 1"
  using assms run_action_counts [of e env act w r w' ops]
  by (auto simp: execute_one_observed_def execute_one_def split: option.splits if_splits)

lemma execute_observed_fold:
  assumes "fold (\<lambda>idx (results, w, ops). let (r, w, ops') = execute_one_observed recorded_executor e env idx (actions ! idx) w in (results[idx := r], w, ops @ ops'))
      schedule (rs, w, ops0) = (results, w', ops)"
  shows "fold (\<lambda>idx (results, w). let (r, w) = execute_one e env idx (actions ! idx) w in (results[idx := r], w)) schedule (rs, w) = (results, w') \<and>
    running ops = running ops0 \<and> int (uses conflicts_total ops) - int (uses conflicts_total ops0) = int (uses retries_total ops) - int (uses retries_total ops0) \<and>
    uses retries_total ops \<le> uses retries_total ops0 + nat (ex_maxRetries e) * length schedule \<and>
    uses call_duration ops \<le> uses call_duration ops0 + length schedule"
  using assms
proof (induction schedule arbitrary: rs w ops0)
  case (Cons idx schedule)
  obtain r w1 ops1 where x: "execute_one_observed recorded_executor e env idx (actions ! idx) w = (r, w1, ops1)" using prod_cases3 by blast
  have "fold (\<lambda>idx (results, w, ops). let (r, w, ops') = execute_one_observed recorded_executor e env idx (actions ! idx) w in (results[idx := r], w, ops @ ops'))
      schedule (rs[idx := r], w1, ops0 @ ops1) = (results, w', ops)" using Cons.prems by (simp add: x)
  from Cons.IH [OF this] execute_one_counts [OF x] show ?case by auto
qed simp


section \<open>Examples\<close>

text \<open>A server that is always unavailable: four requests and three retries are counted.\<close>

lemma busy_counts_sent: "counts_sent busy_env busy_client (\<lambda>w. w)"
  by (simp add: counts_sent_def env_keeps_def busy_env_def busy_client_def)


text \<open>The last conflict is counted as a retry although no attempt follows: three writes, three retries.\<close>

definition conflict_api :: "nat AddressPrefixSetAPI" where
  "conflict_api = \<lparr>api_Get = (\<lambda>r w. (Inl ErrNotFound, w)), api_GetWithETag = (\<lambda>r w. (Inl ErrNotFound, w)),
     api_Put = (\<lambda>r ips w. (Some (ARMError \<lparr>arm_StatusCode = 412, arm_ARMCode = [], arm_Message = [], arm_Operation = ARMOperationPutPrefixSet,
       arm_RequestURL = [], arm_RetryAfter = 0\<rparr>), Suc w)),
     api_PutWithIfMatch = (\<lambda>r ips etag w. (None, w)), api_Delete = (\<lambda>r w. (None, w)), api_List = (\<lambda>g w. (Inr [], w))\<rparr>"

lemma exhausted_conflict_counted:
  "case executeWithETagRetry_observed recorded_executor (NewExecutor 1) (\<lambda>_. None) conflict_api ex_create 0 of
     (outcome, puts, ops) \<Rightarrow> puts = 3 \<and> uses retries_total ops = 3"
proof -
  have r: "recomputeSingleTargetActionViaDiff (NewExecutor 1) ex_create None (Some ErrNotFound) = Inr (Some ex_create)"
    by (simp add: recomputeSingleTargetActionViaDiff_def buildSingleTargetActual_def buildSingleTargetDesired_def ex_create_def
        ComputeDiff_def unsortedDiff_def diffDesired_def byKey_def sortedIPs_def errors_Is_def set_of_slice_def)
  have p: "executeAction conflict_api ex_create w = (Some (ARMError \<lparr>arm_StatusCode = 412, arm_ARMCode = [], arm_Message = [],
      arm_Operation = ARMOperationPutPrefixSet, arm_RequestURL = [], arm_RetryAfter = 0\<rparr>), Suc w)" for w
    by (simp add: executeAction_def ex_create_def conflict_api_def)
  have g: "api_Get conflict_api x w = (Inl ErrNotFound, w)" for x w by (simp add: conflict_api_def)
  have k: "act_Kind ex_create \<noteq> PatchPrefixSet" by (simp add: ex_create_def)
  show ?thesis
    by (simp add: executeWithETagRetry_observed_def NewExecutor_def [THEN arg_cong [where f = ex_maxRetries]] numeral_3_eq_3 p g k r Let_def
        got_current_def got_err_def IsPreconditionFailed_def)
qed

end
