(* ===== verification/Main_Program.thy ===== *)
theory Main_Program
  imports Reconcile_Metrics Arm_Tuning Client_Factory
begin

text \<open>
  The start of the controller (\<open>cmd/main.go\<close>, \<open>internal/controller/setup.go\<close>): the command line, the configuration,
  and how the components are wired together.

  The flags follow the package \<open>flag\<close> of Go with \<open>ContinueOnError\<close>. What \<open>main\<close> only hands on is a parameter: the logger,
  the Prometheus registry, the manager of controller-runtime. A run ends with an exit status and what was printed to the
  standard output. Log entries and the texts for the standard error are left out.
\<close>

section \<open>The command line\<close>

record commandOptions =
  co_metricsAddr :: string
  co_healthProbeAddr :: string
  co_enableLeaderElection :: bool
  co_showVersion :: bool

definition default_options :: commandOptions where
  "default_options = \<lparr>co_metricsAddr = '':8080'', co_healthProbeAddr = '':8081'', co_enableLeaderElection = False, co_showVersion = False\<rparr>"

text \<open>\<open>strconv.ParseBool\<close>.\<close>

definition ParseBool :: "string \<Rightarrow> bool option" where
  "ParseBool s =
     (if s \<in> set [''1'', ''t'', ''T'', ''TRUE'', ''true'', ''True''] then Some True
      else if s \<in> set [''0'', ''f'', ''F'', ''FALSE'', ''false'', ''False''] then Some False
      else None)"

text \<open>The flags that are defined: one that takes a value, or one that is a switch.\<close>

datatype flag_kind = StringVar "string \<Rightarrow> commandOptions \<Rightarrow> commandOptions" | BoolVar "bool \<Rightarrow> commandOptions \<Rightarrow> commandOptions"

definition defined_flags :: "(string \<times> flag_kind) list" where
  "defined_flags =
     [(''metrics-bind-address'', StringVar (\<lambda>v opts. opts\<lparr>co_metricsAddr := v\<rparr>)),
      (''health-probe-bind-address'', StringVar (\<lambda>v opts. opts\<lparr>co_healthProbeAddr := v\<rparr>)),
      (''leader-elect'', BoolVar (\<lambda>v opts. opts\<lparr>co_enableLeaderElection := v\<rparr>)),
      (''version'', BoolVar (\<lambda>v opts. opts\<lparr>co_showVersion := v\<rparr>))]"

text \<open>Name and value of an argument after its dashes; the search for the sign starts at the second character.\<close>

definition split_flag :: "string \<Rightarrow> string \<times> string option" where
  "split_flag s =
     (let name = takeWhile (\<lambda>c. c \<noteq> CHR ''='') (tl s); rest = dropWhile (\<lambda>c. c \<noteq> CHR ''='') (tl s)
      in (hd s # name, case rest of [] \<Rightarrow> None | _ # v \<Rightarrow> Some v))"

text \<open>\<open>FlagSet.Parse\<close>.\<close>

fun flag_Parse :: "string list \<Rightarrow> commandOptions \<Rightarrow> goerror + commandOptions" where
  "flag_Parse [] opts = Inr opts"
| "flag_Parse (s # args) opts =
     (if length s < 2 \<or> hd s \<noteq> CHR ''-'' then Inr opts
      else if s = ''--'' then Inr opts
      else
        (let body = (if s ! 1 = CHR ''-'' then drop 2 s else drop 1 s) in
         if hd body = CHR ''-'' \<or> hd body = CHR ''='' then Inl (OtherError (''bad flag syntax: '' @ s))
         else
           (case split_flag body of
              (name, given) \<Rightarrow>
                (case map_of defined_flags name of
                   None \<Rightarrow>
                     if name = ''help'' \<or> name = ''h'' then Inl (OtherError ''flag: help requested'')
                     else Inl (OtherError (''flag provided but not defined: -'' @ name))
                 | Some (BoolVar upd) \<Rightarrow>
                     (case given of
                        None \<Rightarrow> flag_Parse args (upd True opts)
                      | Some v \<Rightarrow>
                          (case ParseBool v of
                             Some b \<Rightarrow> flag_Parse args (upd b opts)
                           | None \<Rightarrow> Inl (OtherError (''invalid boolean value for -'' @ name))))
                 | Some (StringVar upd) \<Rightarrow>
                     (case given of
                        Some v \<Rightarrow> flag_Parse args (upd v opts)
                      | None \<Rightarrow>
                          (case args of
                             [] \<Rightarrow> Inl (OtherError (''flag needs an argument: -'' @ name))
                           | v # args' \<Rightarrow> flag_Parse args' (upd v opts)))))))"

definition parseOptions :: "string list \<Rightarrow> goerror + commandOptions" where
  "parseOptions args = flag_Parse args default_options"

definition productName :: string where
  "productName = ''pod-nsg-controller''"

definition writeVersion :: "string \<Rightarrow> string" where
  "writeVersion version = productName @ '' '' @ version @ [CHR 0x0A]"

section \<open>The watches of the reconciler\<close>

record controller_setup =
  su_name :: string
  su_MaxConcurrentReconciles :: int
  su_instrumentedQueue :: bool
  su_mappings :: "PodASGMapping obj_event \<Rightarrow> bool"
  su_pods :: "Pod obj_event \<Rightarrow> bool"
  su_podHandler :: PodToMappingEventHandler

text \<open>The controller that \<open>SetupWithManager\<close> builds; \<open>controllerSeq\<close> is the counter of controller names.\<close>

definition SetupWithManager :: "'w MappingReconciler \<Rightarrow> instruments \<Rightarrow> int \<Rightarrow> DesiredStateCache \<Rightarrow> int \<Rightarrow> controller_setup \<times> int" where
  "SetupWithManager r ins maxConcurrentReconciles cache controllerSeq =
     (let podHandler = (if r_hasCache r then NewPodToMappingEventHandlerWithCache (r_MinReconcileInterval r) cache
                        else NewPodToMappingEventHandler (r_MinReconcileInterval r))
      in (\<lparr>su_name = ''podasgmapping-'' @ show_int (controllerSeq + 1), su_MaxConcurrentReconciles = maxConcurrentReconciles,
            su_instrumentedQueue = has_MetricsRecorder ins, su_mappings = MappingPredicate, su_pods = PodPredicate,
            su_podHandler = podHandler\<rparr>, controllerSeq + 1))"

section \<open>Wiring\<close>

text \<open>
  What \<open>main\<close> does not build itself: the API client of the manager, the schedule, the clock, and \<open>Wait\<close> of the rate limiter
  and \<open>ForSubscription\<close> of the factory on the world they live in.
\<close>

record 'w surroundings_of_main =
  sm_Client :: "'w kube_client"
  sm_Wait :: "'w limiter"
  sm_ForSubscription :: "string \<Rightarrow> goerror + 'w AddressPrefixSetAPI"
  sm_Execute :: "Executor \<Rightarrow> Action list \<Rightarrow> 'w \<Rightarrow> ActionResult list \<times> 'w"
  sm_order :: "ASGTarget list \<Rightarrow> ASGTarget list"
  sm_semaphore :: "int \<Rightarrow> ASGTarget \<Rightarrow> 'w \<Rightarrow> goerror option"
  sm_interleaved :: "'w \<Rightarrow> 'w \<Rightarrow> DesiredStateCache \<Rightarrow> DesiredStateCache"
  sm_conv :: "float64 \<Rightarrow> int"
  sm_controllerSeq :: int

definition WithPatchThresholdPercent :: "int \<Rightarrow> Executor \<Rightarrow> Executor" where
  "WithPatchThresholdPercent pct e = e\<lparr>ex_patchThresholdPercent := pct\<rparr>"

record ('w, 'l) wired_system =
  ws_options :: commandOptions
  ws_limiter :: "'l ARMRateLimiter"
  ws_factory :: "'w ARM_ClientFactory"
  ws_executor :: Executor
  ws_cache :: DesiredStateCache
  ws_reconciler :: "'w MappingReconciler"
  ws_instruments :: instruments
  ws_metrics :: metric_state
  ws_updater :: "('w \<times> metric_state) MappingStatusUpdater"
  ws_setup :: controller_setup
  ws_reloader :: "'l armTuningReloader"

definition wire :: "'w surroundings_of_main \<Rightarrow> commandOptions \<Rightarrow> Config \<Rightarrow> ARMTuningConfig \<Rightarrow> gotime \<Rightarrow> ('w, 'l) wired_system" where
  "wire env opts cfg armTuning controllerStart =
     (let rateLimiter = NewARMRateLimiter (sm_conv env) (atc_ARMRateLimitRPS armTuning);
          prefixSetFactory = ARM_NewClientFactory [WithFactoryRetryPolicy DefaultRetryPolicy, WithFactorySubscriptionRateLimiter (sm_Wait env)];
          executor = WithPatchThresholdPercent (cfg_PatchThresholdPercent cfg) (NewExecutor (atc_MaxConcurrentActions armTuning));
          statusUpdater = NewMappingStatusUpdater (sm_Client env);
          instruments = \<lparr>has_MetricsRecorder = True, has_PodChurnTracker = True, has_ConvergenceTracker = True, has_InitialTracker = True\<rparr>;
          desiredStateCache = NewDesiredStateCache (cfg_ClusterName cfg);
          reconciler = \<lparr>r_Client = sm_Client env, r_ClusterName = cfg_ClusterName cfg, r_ResyncInterval = cfg_ResyncInterval cfg,
            r_MinReconcileInterval = wrap_duration (cfg_MinReconcileIntervalMs cfg * millisecond),
            r_PatchThresholdPercent = cfg_PatchThresholdPercent cfg, r_PrefixSetFactory = sm_ForSubscription env,
            r_Executor = sm_Execute env executor, r_StatusUpdater = Some statusUpdater, r_hasCache = True, r_order = sm_order env,
            r_semaphore = sm_semaphore env (cfg_MaxConcurrentAzureReads cfg), r_interleaved = sm_interleaved env\<rparr>
      in \<lparr>ws_options = opts, ws_limiter = rateLimiter, ws_factory = prefixSetFactory, ws_executor = executor, ws_cache = desiredStateCache,
          ws_reconciler = reconciler, ws_instruments = instruments,
          ws_metrics = \<lparr>mt_PodChurnTracker = [], mt_ConvergenceTracker = [], mt_InitialTracker = NewInitialReconcileTracker controllerStart, mt_ops = []\<rparr>,
          ws_updater = wired_updater instruments statusUpdater,
          ws_setup = fst (SetupWithManager reconciler instruments (cfg_MaxConcurrentReconciles cfg) desiredStateCache (sm_controllerSeq env)),
          ws_reloader = newARMTuningReloader armTuning executor rateLimiter\<rparr>)"

section \<open>\<open>main\<close>\<close>

text \<open>The calls of \<open>main\<close> that may fail, in the world; \<open>mn_Start\<close> returns when the manager stops.\<close>

record ('w, 'l) main_env =
  mn_version :: string
  mn_buildLogger :: "'w \<Rightarrow> goerror option \<times> 'w"
  mn_config :: config_env
  mn_RegisterWith :: "'w \<Rightarrow> (goerror + Recorder) \<times> 'w"
  mn_NewManager :: "commandOptions \<Rightarrow> 'w \<Rightarrow> (goerror + 'w surroundings_of_main) \<times> 'w"
  mn_Complete :: "controller_setup \<Rightarrow> 'w \<Rightarrow> goerror option \<times> 'w"
  mn_Add :: "string \<Rightarrow> 'w \<Rightarrow> goerror option \<times> 'w"
  mn_AddCheck :: "string \<Rightarrow> 'w \<Rightarrow> goerror option \<times> 'w"
  mn_Now :: "'w \<Rightarrow> gotime"
  mn_Start :: "('w, 'l) wired_system \<Rightarrow> 'w \<Rightarrow> goerror option \<times> 'w"

text \<open>Steps that end the program with status 1 when they fail.\<close>

fun or_exit :: "('w \<Rightarrow> goerror option \<times> 'w) list \<Rightarrow> 'w \<Rightarrow> bool \<times> 'w" where
  "or_exit [] w = (True, w)"
| "or_exit (f # fs) w = (case f w of (None, w) \<Rightarrow> or_exit fs w | (Some err, w) \<Rightarrow> (False, w))"

text \<open>Everything before \<open>mgr.Start\<close>: \<open>Inl\<close> is an exit with its status and output.\<close>

definition build_system :: "('w, 'l) main_env \<Rightarrow> string list \<Rightarrow> 'w \<Rightarrow> (nat \<times> string + ('w, 'l) wired_system) \<times> 'w" where
  "build_system env args w =
     (case parseOptions args of
        Inl err \<Rightarrow> (Inl (2, []), w)
      | Inr opts \<Rightarrow>
          if co_showVersion opts then (Inl (0, writeVersion (mn_version env)), w)
          else
            (case mn_buildLogger env w of
               (Some err, w) \<Rightarrow> (Inl (1, []), w)
             | (None, w) \<Rightarrow>
            (case Load (mn_config env) of
               Inl err \<Rightarrow> (Inl (1, []), w)
             | Inr cfg \<Rightarrow>
            (case startup_tuning (mn_config env) of
               Inl err \<Rightarrow> (Inl (1, []), w)
             | Inr armTuning \<Rightarrow>
            (case mn_RegisterWith env w of
               (Inl err, w) \<Rightarrow> (Inl (1, []), w)
             | (Inr rec, w) \<Rightarrow>
            (case mn_NewManager env opts w of
               (Inl err, w) \<Rightarrow> (Inl (1, []), w)
             | (Inr sm, w) \<Rightarrow>
            (let sys = wire sm opts cfg armTuning (mn_Now env w) in
             case or_exit [mn_Complete env (ws_setup sys), mn_Add env ''initial-reconcile'', mn_Add env ''arm-tuning-reloader'',
                           mn_AddCheck env ''healthz'', mn_AddCheck env ''readyz''] w of
               (False, w) \<Rightarrow> (Inl (1, []), w)
             | (True, w) \<Rightarrow> (Inr sys, w))))))))"

definition main :: "('w, 'l) main_env \<Rightarrow> string list \<Rightarrow> 'w \<Rightarrow> (nat \<times> string) \<times> 'w" where
  "main env args w =
     (case build_system env args w of
        (Inl exit, w) \<Rightarrow> (exit, w)
      | (Inr sys, w) \<Rightarrow> (case mn_Start env sys w of (None, w) \<Rightarrow> ((0, []), w) | (Some err, w) \<Rightarrow> ((1, []), w)))"

section \<open>The command line is read back\<close>

text \<open>The arguments that say what the options are, in one of the forms that \<open>flag\<close> reads.\<close>

definition options_args :: "commandOptions \<Rightarrow> string list" where
  "options_args opts =
     (''--metrics-bind-address='' @ co_metricsAddr opts) # ''-health-probe-bind-address'' # co_healthProbeAddr opts #
      (''--leader-elect='' @ (if co_enableLeaderElection opts then ''true'' else ''false'')) # (if co_showVersion opts then [''-version''] else [])"

lemma flag_metrics: "flag_Parse ((''--metrics-bind-address='' @ v) # args) opts = flag_Parse args (opts\<lparr>co_metricsAddr := v\<rparr>)"
  by (simp add: split_flag_def defined_flags_def)

lemma flag_health: "flag_Parse (''-health-probe-bind-address'' # v # args) opts = flag_Parse args (opts\<lparr>co_healthProbeAddr := v\<rparr>)"
  by (simp add: split_flag_def defined_flags_def)

lemma flag_leader: "flag_Parse ((''--leader-elect='' @ (if b then ''true'' else ''false'')) # args) opts = flag_Parse args (opts\<lparr>co_enableLeaderElection := b\<rparr>)"
  by (simp add: split_flag_def defined_flags_def ParseBool_def)

lemma flag_version: "flag_Parse (''-version'' # args) opts = flag_Parse args (opts\<lparr>co_showVersion := True\<rparr>)"
  by (simp add: split_flag_def defined_flags_def)

text \<open>Every combination of options has a command line that is read as these options, whatever
  characters the addresses consist of.
\<close>

theorem options_roundtrip: "parseOptions (options_args opts) = Inr opts"
  unfolding options_args_def parseOptions_def flag_metrics flag_health flag_leader
  by (cases opts) (simp add: flag_version default_options_def del: flag_Parse.simps(2))

section \<open>What is wired\<close>

lemma build_system_steps:
  assumes "build_system env args w = (Inr sys, w')"
  obtains opts cfg armTuning sm t where "parseOptions args = Inr opts" and "\<not> co_showVersion opts" and "Load (mn_config env) = Inr cfg"
    and "startup_tuning (mn_config env) = Inr armTuning" and "sys = wire sm opts cfg armTuning t"
  using assms by (auto simp: build_system_def Let_def split: sum.splits prod.splits option.splits if_splits bool.splits)

text \<open>C36:
  When \<open>main\<close> gets as far as starting the manager, the components fit together: the reconciler,
  the cache and the pod handler share one cluster name, one cache and one debounce interval; the executor recomputes a refused
  patch with the threshold of the reconciler; rate, parallelism and threshold are in their bounds, and the reloader starts from
  the values that are in force; the status updater has its committer.
\<close>

theorem main_wires_consistently:
  fixes env :: "('w, 'l) main_env"
  assumes "build_system env args w = (Inr sys, w')"
  shows "let r = ws_reconciler sys; h = su_podHandler (ws_setup sys) in
    parseOptions args = Inr (ws_options sys) \<and> \<not> co_showVersion (ws_options sys) \<and>
    r_ClusterName r \<noteq> [] \<and> ToLower (r_ClusterName r) = r_ClusterName r \<and> dc_clusterName (ws_cache sys) = r_ClusterName r \<and>
    h_DesiredStateCache h = Some (ws_cache sys) \<and> h_MinReconcileInterval h = r_MinReconcileInterval r \<and>
    ex_patchThresholdPercent (ws_executor sys) = r_PatchThresholdPercent r \<and> 1 \<le> r_PatchThresholdPercent r \<and> r_PatchThresholdPercent r \<le> 100 \<and>
    1 \<le> MaxParallel (ws_executor sys) \<and> valid_rps (RPS (ws_limiter sys)) \<and> 1 \<le> su_MaxConcurrentReconciles (ws_setup sys) \<and>
    in_step (ws_reloader sys) \<and> rl_executor (ws_reloader sys) = ws_executor sys \<and> rl_limiter (ws_reloader sys) = ws_limiter sys \<and>
    uncommitted r \<and> su_convergenceCommitter (ws_updater sys) \<noteq> None \<and> cf_rateLimiter (ws_factory sys) \<noteq> None"
proof -
  obtain opts cfg armTuning sm t where b: "parseOptions args = Inr opts" "\<not> co_showVersion opts" "Load (mn_config env) = Inr cfg"
    "startup_tuning (mn_config env) = Inr armTuning" "sys = wire sm opts cfg armTuning t" by (rule build_system_steps [OF assms])
  have v: "valid_tuning armTuning" by (rule startup_valid [OF b(4)])
  then have "valid_rps (atc_ARMRateLimitRPS armTuning)" "1 \<le> atc_MaxConcurrentActions armTuning" by (simp_all add: valid_tuning_def)
  with b(1,2) v Load_bounds [OF b(3)] show ?thesis
    by (simp add: b(5) wire_def Let_def SetupWithManager_def NewPodToMappingEventHandlerWithCache_def NewDesiredStateCache_def NewExecutor_def
        WithPatchThresholdPercent_def MaxParallel_def NewARMRateLimiter_def RPS_def newARMTuningReloader_def in_step_def
        NewMappingStatusUpdater_def wired_updater_def SetConvergenceCommitter_def ARM_NewClientFactory_def WithFactoryRetryPolicy_def
        WithFactorySubscriptionRateLimiter_def)
qed

text \<open>The exit status tells why the program ended: 2 exactly for a command line that is not
  understood, in which case nothing was read or started; the version and nothing else is printed for \<open>-version\<close>; otherwise 0 or 1.
\<close>

theorem main_exit_status:
  "fst (fst (main env args w)) \<le> 2 \<and> (fst (fst (main env args w)) = 2 \<longleftrightarrow> (\<exists>err. parseOptions args = Inl err)) \<and>
   (snd (fst (main env args w)) \<noteq> [] \<longleftrightarrow> (\<exists>opts. parseOptions args = Inr opts \<and> co_showVersion opts))"
  by (auto simp: main_def build_system_def Let_def writeVersion_def productName_def split: sum.split prod.split option.split bool.split)

text \<open>A debounce interval of more than 292 years wraps around, and so turns debouncing off.\<close>

lemma min_interval_overflows:
  "cfg_MinReconcileIntervalMs cfg = 9223372036855 \<Longrightarrow> r_MinReconcileInterval (ws_reconciler (wire sm opts cfg armTuning t)) < 0"
  by (simp add: wire_def Let_def wrap_duration_def millisecond_def)

section \<open>Witness\<close>

text \<open>An environment with a cluster name, in which everything succeeds.\<close>

definition ex_surroundings_of_main :: "unit surroundings_of_main" where
  "ex_surroundings_of_main = \<lparr>sm_Client = ex_answers (Inl (ApiNotFound ''x'')), sm_Wait = (\<lambda>_ w. (None, w)), sm_ForSubscription = (\<lambda>_. Inl (OtherError ''none'')),
     sm_Execute = (\<lambda>_ _ w. ([], w)), sm_order = (\<lambda>ts. ts), sm_semaphore = (\<lambda>_ _ _. None), sm_interleaved = (\<lambda>_ _ c. c), sm_conv = (\<lambda>_. 20),
     sm_controllerSeq = 0\<rparr>"

definition ex_main_env :: "(unit, unit) main_env" where
  "ex_main_env = \<lparr>mn_version = ''v1'', mn_buildLogger = (\<lambda>w. (None, w)), mn_config = env_with ''120'',
     mn_RegisterWith = (\<lambda>w. (Inr \<lparr>rec_PodChurn = [], rec_ARM = [], rec_Convergence = [], rec_Reconcile = []\<rparr>, w)),
     mn_NewManager = (\<lambda>opts w. (Inr ex_surroundings_of_main, w)), mn_Complete = (\<lambda>_ w. (None, w)), mn_Add = (\<lambda>_ w. (None, w)),
     mn_AddCheck = (\<lambda>_ w. (None, w)), mn_Now = (\<lambda>w. 5), mn_Start = (\<lambda>sys w. (None, w))\<rparr>"

lemma ex_build: "\<exists>sys. build_system ex_main_env [''-leader-elect''] () = (Inr sys, ()) \<and> r_ClusterName (ws_reconciler sys) = ''c1''"
proof -
  have a: "Atoi ''120'' = Some 120" by (simp add: Atoi_def parse_decimal_def digits_value_def json_digit_def)
  have l: "ToLower ''c1'' = ''c1''" by code_simp
  obtain cfg where c: "Load (env_with ''120'') = Inr cfg" "cfg_ClusterName cfg = ''c1''"
    by (simp add: Load_def env_with_def env_int_def parse_int_def a l LoadARMTuningFromEnv_def env_rps_def ARMTuningDefaults_def
        ebind_def Validate_def wrap_duration_def second_def at_least_def)
  have t: "startup_tuning (env_with ''120'') = Inr ARMTuningDefaults"
    by (simp add: startup_tuning_def LoadARMTuningConfig_def env_with_def LoadARMTuningFromEnv_def env_rps_def env_int_def ARMTuningDefaults_def ebind_def)
  have p: "parseOptions [''-leader-elect''] = Inr (default_options\<lparr>co_enableLeaderElection := True\<rparr>)"
    by (simp add: parseOptions_def split_flag_def defined_flags_def)
  show ?thesis using c t p by (simp add: build_system_def ex_main_env_def Let_def default_options_def wire_def)
qed

theorem main_wires_consistently_witness:
  "\<exists>sys. build_system ex_main_env [''-leader-elect''] () = (Inr sys, ()) \<and> dc_clusterName (ws_cache sys) = ''c1'' \<and>
     1 \<le> MaxParallel (ws_executor sys) \<and> in_step (ws_reloader sys)"
proof -
  obtain sys where b: "build_system ex_main_env [''-leader-elect''] () = (Inr sys, ())" "r_ClusterName (ws_reconciler sys) = ''c1''"
    using ex_build by blast
  from main_wires_consistently [OF b(1)] b show ?thesis by (auto simp: Let_def)
qed

end
