(* ===== verification/Test_Ops.thy ===== *)
theory Test_Ops
  imports Pod_Controller Client_Factory Fake_Client
begin

text \<open>
  The test tool (\<open>cmd/testops/main.go\<close>): ten operations on an application security group and on a prefix set,
  one after the other, each with its result, and an exit status.

  The groups of the Azure SDK are an arbitrary type; what the tool reads of one and the parameters it builds are \<open>asg_view\<close>.
  A run is \<open>None\<close> when it does not return: a listing that never ends, or a client that answers neither a prefix set nor an
  error, which the tool dereferences. Log entries are left out; the results are those it logs.
\<close>

record testResult =
  tr_num :: nat
  tr_name :: string
  tr_status :: string
  tr_details :: string

text \<open>The two status texts begin with a check mark and a cross in UTF-8.\<close>

definition status_pass :: string where
  "status_pass = [CHR 0xE2, CHR 0x9C, CHR 0x85] @ '' PASS''"

definition status_fail :: string where
  "status_fail = [CHR 0xE2, CHR 0x9D, CHR 0x8C] @ '' FAIL''"

definition deref :: "string option \<Rightarrow> string" where
  "deref s = (case s of None \<Rightarrow> ''<nil>'' | Some s \<Rightarrow> s)"

definition addressPrefixSetAPIVersionLabel :: string where
  "addressPrefixSetAPIVersionLabel = AddressPrefixSetAPIVersion @ '' (AddressPrefixSets)''"

definition test_result :: "nat \<Rightarrow> string \<Rightarrow> goerror + string \<Rightarrow> testResult" where
  "test_result num name r =
     (case r of
        Inl err \<Rightarrow> \<lparr>tr_num = num, tr_name = name, tr_status = status_fail, tr_details = err_text err\<rparr>
      | Inr details \<Rightarrow> \<lparr>tr_num = num, tr_name = name, tr_status = status_pass, tr_details = details\<rparr>)"

record 'g asg_view =
  av_ID :: "'g \<Rightarrow> string option"
  av_Location :: "'g \<Rightarrow> string option"
  av_Name :: "'g \<Rightarrow> string option"
  av_params :: "string \<Rightarrow> (string, string option) gomap \<Rightarrow> 'g"

definition testASG :: string where
  "testASG = ''asg-test-controller''"

definition prefixSetName :: string where
  "prefixSetName = ''prefix-set-test''"

text \<open>A test: its result and the world, or no return.\<close>

type_synonym 'w test = "'w \<Rightarrow> ((goerror + string) \<times> 'w) option"

definition returning :: "('a \<Rightarrow> string) \<Rightarrow> (goerror + 'a) \<times> 'w \<Rightarrow> ((goerror + string) \<times> 'w) option" where
  "returning f r = (case r of (Inl err, w) \<Rightarrow> Some (Inl err, w) | (Inr x, w) \<Rightarrow> Some (Inr (f x), w))"

definition done_with :: "string \<Rightarrow> goerror option \<times> 'w \<Rightarrow> ((goerror + string) \<times> 'w) option" where
  "done_with details r = (case r of (None, w) \<Rightarrow> Some (Inr details, w) | (Some err, w) \<Rightarrow> Some (Inl err, w))"

text \<open>The tests of the group, and of the prefix set.\<close>

definition asg_tests :: "'g asg_view \<Rightarrow> ('w, 'g, 'p, 'q) ASGClient \<Rightarrow> string \<Rightarrow> (string \<times> 'w test) list" where
  "asg_tests v c asgName =
     [(''GET ASG'', \<lambda>w. returning (\<lambda>g. ''id='' @ deref (av_ID v g) @ '', location='' @ deref (av_Location v g)) (ASGClient_Get c asgName w)),
      (''UpdateTags ASG (PATCH)'', \<lambda>w. returning (\<lambda>_. ''tags updated'') (ASGClient_UpdateTags c asgName [(''test-controller'', Some ''true'')] w)),
      (''LIST ASGs (resource group)'', \<lambda>w. (case ASGClient_List c w of None \<Rightarrow> None | Some r \<Rightarrow> returning (\<lambda>gs. show_nat (length gs) @ '' ASGs found'') r)),
      (''LIST ALL ASGs (subscription)'', \<lambda>w. (case ASGClient_ListAll c w of None \<Rightarrow> None | Some r \<Rightarrow> returning (\<lambda>gs. show_nat (length gs) @ '' ASGs found'') r)),
      (''CreateOrUpdate ASG (PUT)'', \<lambda>w. returning (\<lambda>g. ''created '' @ deref (av_Name v g))
         (ASGClient_CreateOrUpdate c testASG (av_params v ''westus3'' [(''purpose'', Some ''test'')]) w))]"

definition prefix_set_tests :: "'w AddressPrefixSetAPI \<Rightarrow> string \<Rightarrow> string \<Rightarrow> (string \<times> 'w test) list" where
  "prefix_set_tests c subscriptionID resourceGroup =
     (let r = (subscriptionID, resourceGroup, testASG, prefixSetName) in
      [(''PUT AddressPrefixSet'', \<lambda>w. done_with ''created'' (api_Put c r [''10.0.0.0/24'', ''10.0.1.0/24''] w)),
       (''GET AddressPrefixSet'', \<lambda>w. (case api_Get c r w of
          (Inl err, w) \<Rightarrow> Some (Inl err, w)
        | (Inr None, w) \<Rightarrow> None
        | (Inr (Some ps), w) \<Rightarrow> Some (Inr (''id='' @ deref (aps_ID ps)), w))),
       (''LIST AddressPrefixSets'', \<lambda>w. returning (\<lambda>l. show_nat (length l) @ '' prefix sets found'') (api_List c (subscriptionID, resourceGroup, testASG) w)),
       (''DELETE AddressPrefixSet'', \<lambda>w. done_with ''deleted'' (api_Delete c r w))])"

definition cleanup_tests :: "('w, 'g, 'p, 'q) ASGClient \<Rightarrow> (string \<times> 'w test) list" where
  "cleanup_tests c = [(''Delete ASG'', \<lambda>w. done_with (''deleted '' @ testASG) (ASGClient_Delete c testASG w))]"

fun run_tests :: "nat \<Rightarrow> (string \<times> 'w test) list \<Rightarrow> 'w \<Rightarrow> (testResult list \<times> 'w) option" where
  "run_tests n [] w = Some ([], w)"
| "run_tests n ((name, t) # ts) w =
     (case t w of
        None \<Rightarrow> None
      | Some (r, w) \<Rightarrow>
          (case run_tests (n + 1) ts w of
             None \<Rightarrow> None
           | Some (results, w) \<Rightarrow> Some (test_result n name r # results, w)))"

definition exit_status :: "testResult list \<Rightarrow> nat" where
  "exit_status results = (if length (filter (\<lambda>r. tr_status r \<noteq> status_pass) results) > 0 then 1 else 0)"

text \<open>
  \<open>main\<close>: the environment, the two constructors that may fail, between them the tests of the group, and the report. A
  fatal error ends the program with status 1 and no results.
\<close>

record ('w, 'g, 'p, 'q) testops_env =
  te_Getenv :: "string \<Rightarrow> string"
  te_view :: "'g asg_view"
  te_NewASGClient :: "string \<Rightarrow> string \<Rightarrow> goerror + ('w, 'g, 'p, 'q) ASGClient"
  te_ForSubscription :: "string \<Rightarrow> goerror + 'w AddressPrefixSetAPI"

definition testops_main :: "('w, 'g, 'p, 'q) testops_env \<Rightarrow> 'w \<Rightarrow> ((nat \<times> testResult list) \<times> 'w) option" where
  "testops_main env w =
     (let subscriptionID = te_Getenv env ''AZURE_SUBSCRIPTION_ID''; resourceGroup = te_Getenv env ''AZURE_RESOURCE_GROUP'';
          asgName = te_Getenv env ''TEST_ASG_NAME'' in
      if subscriptionID = [] \<or> resourceGroup = [] \<or> asgName = [] then Some ((1, []), w)
      else (case te_NewASGClient env subscriptionID resourceGroup of
              Inl err \<Rightarrow> Some ((1, []), w)
            | Inr asgClient \<Rightarrow>
                (case run_tests 1 (asg_tests (te_view env) asgClient asgName) w of
                   None \<Rightarrow> None
                 | Some (results1, w) \<Rightarrow>
                     (case te_ForSubscription env subscriptionID of
                        Inl err \<Rightarrow> Some ((1, []), w)
                      | Inr apsClient \<Rightarrow>
                          (case run_tests 6 (prefix_set_tests apsClient subscriptionID resourceGroup @ cleanup_tests asgClient) w of
                             None \<Rightarrow> None
                           | Some (results2, w) \<Rightarrow> Some ((exit_status (results1 @ results2), results1 @ results2), w))))))"

section \<open>Lemmas\<close>

definition sdk_keeps :: "('w, 'g, 'p, 'q) azure_sdk \<Rightarrow> ('w \<Rightarrow> bool) \<Rightarrow> bool" where
  "sdk_keeps sdk Q \<longleftrightarrow> (\<forall>w. Q w \<longrightarrow>
     (\<forall>rg name. Q (snd (az_Get sdk rg name w))) \<and> (\<forall>rg name g. Q (snd (az_BeginCreateOrUpdate sdk rg name g w))) \<and>
     (\<forall>rg name. Q (snd (az_BeginDelete sdk rg name w))) \<and> (\<forall>rg name tags. Q (snd (az_UpdateTags sdk rg name tags w))) \<and>
     (\<forall>p. Q (snd (az_PollUntilDone sdk p w))) \<and> (\<forall>q. Q (snd (az_NextPage sdk q w))))"

definition test_keeps :: "('w \<Rightarrow> bool) \<Rightarrow> 'w test \<Rightarrow> bool" where
  "test_keeps Q t \<longleftrightarrow> (\<forall>w r w'. t w = Some (r, w') \<longrightarrow> Q w \<longrightarrow> Q w')"

lemma run_tests_keep:
  "\<forall>(name, t) \<in> set ts. test_keeps Q t \<Longrightarrow> run_tests n ts w = Some (results, w') \<Longrightarrow> Q w \<Longrightarrow> Q w'"
proof (induction n ts w arbitrary: results rule: run_tests.induct)
  case (2 n name t ts w)
  then show ?case by (auto simp: test_keeps_def split: option.splits prod.splits)
qed simp

lemma page_loop_keeps:
  assumes "page_loop sdk msg pager acc w = Some y"
  shows "sdk_keeps sdk Q \<longrightarrow> Q w \<longrightarrow> Q (snd y)"
proof (rule page_loop.raw_induct [OF _ assms, where P = "\<lambda>sdk msg pager acc w y. sdk_keeps sdk Q \<longrightarrow> Q w \<longrightarrow> Q (snd y)"])
  fix loop sdk msg pager acc w y
  assume IH: "\<And>sdk msg pager acc w y. loop sdk msg pager acc w = Some y \<Longrightarrow> sdk_keeps sdk Q \<longrightarrow> Q w \<longrightarrow> Q (snd y)"
    and e: "(if az_More sdk pager then case az_NextPage sdk pager w of ((Inl err, x), w) \<Rightarrow> Some (Inl (Wrapped msg err), w)
      | ((Inr page, x), w) \<Rightarrow> loop sdk msg x (acc @ page) w else Some (Inr acc, w)) = Some y"
  obtain n q w1 where n: "az_NextPage sdk pager w = ((n, q), w1)" by (metis surj_pair)
  have k: "sdk_keeps sdk Q \<Longrightarrow> Q w \<Longrightarrow> Q w1" unfolding sdk_keeps_def using n by (metis snd_conv)
  show "sdk_keeps sdk Q \<longrightarrow> Q w \<longrightarrow> Q (snd y)"
  proof (cases n)
    case (Inl err)
    then show ?thesis using e n k by (auto split: if_splits)
  next
    case (Inr page)
    then show ?thesis using e IH [of sdk msg q "acc @ page" w1 y] n k by (auto split: if_splits)
  qed
qed

lemma wrapping_keeps: "Q (snd r) \<Longrightarrow> Q (snd (wrapping msg r))"
  by (auto simp: wrapping_def split: prod.splits sum.splits)

lemma returning_keeps: "returning f r = Some (x, w') \<Longrightarrow> Q (snd r) \<Longrightarrow> Q w'"
  by (auto simp: returning_def split: prod.splits sum.splits)

lemma done_keeps: "done_with d r = Some (x, w') \<Longrightarrow> Q (snd r) \<Longrightarrow> Q w'"
  by (auto simp: done_with_def split: prod.splits option.splits)

lemma test_keeps_returning: "(\<And>w. Q w \<Longrightarrow> Q (snd (f w))) \<Longrightarrow> test_keeps Q (\<lambda>w. returning g (f w))"
  unfolding test_keeps_def by (intro allI impI) (erule returning_keeps)

lemma test_keeps_done: "(\<And>w. Q w \<Longrightarrow> Q (snd (f w))) \<Longrightarrow> test_keeps Q (\<lambda>w. done_with d (f w))"
  unfolding test_keeps_def by (intro allI impI) (erule done_keeps)

lemma asg_calls_keep:
  assumes "sdk_keeps (asg_sdk c) Q" and "Q w"
  shows "Q (snd (ASGClient_Get c name w))" "Q (snd (ASGClient_UpdateTags c name tags w))" "Q (snd (ASGClient_CreateOrUpdate c name g w))"
    "Q (snd (ASGClient_Delete c name w))"
proof -
  note k = assms(1) [unfolded sdk_keeps_def, rule_format]
  show "Q (snd (ASGClient_Get c name w))" "Q (snd (ASGClient_UpdateTags c name tags w))"
    unfolding ASGClient_Get_def ASGClient_UpdateTags_def by (rule wrapping_keeps, use k [OF assms(2)] in blast)+
  have poll: "Q w \<Longrightarrow> Q (snd (az_PollUntilDone (asg_sdk c) p w))" for p w using k by blast
  obtain x w1 where x: "az_BeginCreateOrUpdate (asg_sdk c) (asg_resourceGroup c) name g w = (x, w1)" by fastforce
  then have "Q w1" using k [OF assms(2)] by (metis snd_conv)
  then show "Q (snd (ASGClient_CreateOrUpdate c name g w))" using x wrapping_keeps [of Q, OF poll]
    by (cases x) (simp_all add: ASGClient_CreateOrUpdate_def)
  obtain y w2 where y: "az_BeginDelete (asg_sdk c) (asg_resourceGroup c) name w = (y, w2)" by fastforce
  then have q2: "Q w2" using k [OF assms(2)] by (metis snd_conv)
  show "Q (snd (ASGClient_Delete c name w))"
  proof (cases y)
    case (Inr poller)
    obtain z w3 where z: "az_PollUntilDone (asg_sdk c) poller w2 = (z, w3)" by fastforce
    then have "Q w3" using k [OF q2] by (metis snd_conv)
    then show ?thesis using y z Inr by (cases z) (simp_all add: ASGClient_Delete_def)
  qed (use y q2 in \<open>simp add: ASGClient_Delete_def\<close>)
qed

lemma asg_tests_keep:
  assumes "sdk_keeps (asg_sdk c) Q"
  shows "\<forall>(name, t) \<in> set (asg_tests v c asgName). test_keeps Q t" and "\<forall>(name, t) \<in> set (cleanup_tests c). test_keeps Q t"
proof -
  have page: "page_loop (asg_sdk c) msg pager acc w = Some (x, w') \<Longrightarrow> Q w \<Longrightarrow> Q w'" for msg pager acc w x w'
    using page_loop_keeps [of "asg_sdk c" msg pager acc w "(x, w')" Q] assms by simp
  note k = asg_calls_keep [OF assms]
  show "\<forall>(name, t) \<in> set (asg_tests v c asgName). test_keeps Q t"
    by (auto simp: asg_tests_def test_keeps_def ASGClient_List_def ASGClient_ListAll_def intro: k page
        elim!: returning_keeps [where Q = Q] split: option.splits)
  show "\<forall>(name, t) \<in> set (cleanup_tests c). test_keeps Q t"
    by (auto simp: cleanup_tests_def test_keeps_def intro: k elim!: done_keeps [where Q = Q])
qed

lemma run_tests_nums: "run_tests n ts w = Some (results, w') \<Longrightarrow> map tr_num results = [n..<n + length ts]"
proof (induction n ts w arbitrary: results rule: run_tests.induct)
  case (2 n name t ts w)
  obtain r w1 rs where t: "t w = Some (r, w1)" "run_tests (n + 1) ts w1 = Some (rs, w')" "results = test_result n name r # rs"
    using "2.prems" by (auto split: option.splits prod.splits)
  have "map tr_num rs = [Suc n..<Suc (n + length ts)]" using "2.IH" [OF t(1) refl t(2)] by simp
  moreover have "[n..<Suc (n + length ts)] = n # [Suc n..<Suc (n + length ts)]" by (rule upt_rec [THEN trans]) simp
  ultimately show ?case using t(3) by (simp add: test_result_def split: sum.split)
qed simp

lemma run_tests_append: "run_tests n (ts @ us) w =
    (case run_tests n ts w of None \<Rightarrow> None
     | Some (rs, w) \<Rightarrow> (case run_tests (n + length ts) us w of None \<Rightarrow> None | Some (ss, w) \<Rightarrow> Some (rs @ ss, w)))"
  by (induction n ts w rule: run_tests.induct) (auto split: option.splits prod.splits)

lemma pass_iff: "tr_status (test_result n name r) = status_pass \<longleftrightarrow> (\<exists>d. r = Inr d)"
  by (auto simp: test_result_def status_pass_def status_fail_def split: sum.split)

lemma exit_status_0: "exit_status results = 0 \<longleftrightarrow> (\<forall>r \<in> set results. tr_status r = status_pass)"
  by (simp add: exit_status_def filter_empty_conv)

context prefix_set_service
begin

lemma prefix_tests_keep:
  assumes K: "K = ident (sub, rg, testASG, prefixSetName)"
  shows "\<forall>(name, t) \<in> set (prefix_set_tests api sub rg). test_keeps (\<lambda>w. invar w \<and> (\<forall>k. k \<noteq> K \<longrightarrow> stored w k = S k)) t"
proof -
  define Q where "Q = (\<lambda>w. invar w \<and> (\<forall>k. k \<noteq> K \<longrightarrow> stored w k = S k))"
  let ?r = "(sub, rg, testASG, prefixSetName)"
  have put: "Q w \<Longrightarrow> Q (snd (api_Put api ?r ips w))" and get: "Q w \<Longrightarrow> Q (snd (api_Get api ?r w))" and del: "Q w \<Longrightarrow> Q (snd (api_Delete api ?r w))"
    and list: "Q w \<Longrightarrow> Q (snd (api_List api g w))" for w ips g
    using put_invar [of w] put_stored [of w ?r ips] get_keeps [of w ?r] delete_invar [of w] delete_stored [of w ?r] list_keeps [of w g] K
    by (auto simp: Q_def split: if_splits)
  have 1: "test_keeps Q (\<lambda>w. done_with d (api_Put api ?r ips w))" for d ips by (rule test_keeps_done) (rule put)
  have 2: "test_keeps Q (\<lambda>w. case api_Get api ?r w of (Inl err, w) \<Rightarrow> Some (Inl err, w) | (Inr None, w) \<Rightarrow> None
      | (Inr (Some ps), w) \<Rightarrow> Some (Inr (''id='' @ deref (aps_ID ps)), w))"
    unfolding test_keeps_def
  proof (intro allI impI)
    fix w x w'
    assume c: "(case api_Get api ?r w of (Inl err, w) \<Rightarrow> Some (Inl err, w) | (Inr None, w) \<Rightarrow> None
      | (Inr (Some ps), w) \<Rightarrow> Some (Inr (''id='' @ deref (aps_ID ps)), w)) = Some (x, w')" and q: "Q w"
    obtain y w1 where y: "api_Get api ?r w = (y, w1)" by fastforce
    have "w' = w1" using c y by (auto split: sum.splits option.splits)
    then show "Q w'" using get [OF q] y by simp
  qed
  have 3: "test_keeps Q (\<lambda>w. returning f (api_List api g w))" for f g by (rule test_keeps_returning) (rule list)
  have 4: "test_keeps Q (\<lambda>w. done_with d (api_Delete api ?r w))" for d by (rule test_keeps_done) (rule del)
  show ?thesis unfolding Q_def [symmetric] prefix_set_tests_def Let_def using 1 2 3 4 by simp
qed

lemma delete_test:
  assumes "invar w" and "done_with ''deleted'' (api_Delete api r w) = Some (Inr d, w')"
  shows "invar w' \<and> stored w' (ident r) = None"
  using assms delete_invar [of w r] delete_stored [of w r] by (auto simp: done_with_def split: prod.splits option.splits)

end

text \<open>What the parts of a run are when it gets to the report.\<close>

lemma testops_steps:
  assumes "testops_main env w = Some ((status, results), w')" and "te_NewASGClient env (te_Getenv env ''AZURE_SUBSCRIPTION_ID'') (te_Getenv env ''AZURE_RESOURCE_GROUP'') = Inr c"
    and "te_ForSubscription env (te_Getenv env ''AZURE_SUBSCRIPTION_ID'') = Inr api"
  shows "status = 1 \<and> results = [] \<and> w' = w \<or>
    (\<exists>results1 results2 w1. run_tests 1 (asg_tests (te_view env) c (te_Getenv env ''TEST_ASG_NAME'')) w = Some (results1, w1) \<and>
       run_tests 6 (prefix_set_tests api (te_Getenv env ''AZURE_SUBSCRIPTION_ID'') (te_Getenv env ''AZURE_RESOURCE_GROUP'') @ cleanup_tests c) w1 = Some (results2, w') \<and>
       results = results1 @ results2 \<and> status = exit_status results)"
  using assms by (auto simp: testops_main_def Let_def split: if_splits option.splits prod.splits)

lemma run_tests_Cons_pass:
  assumes "run_tests n ((name, t) # ts) w = Some (results, w')" and "\<forall>r \<in> set results. tr_status r = status_pass"
  shows "\<exists>d w1 rs. t w = Some (Inr d, w1) \<and> run_tests (n + 1) ts w1 = Some (rs, w') \<and> (\<forall>r \<in> set rs. tr_status r = status_pass)"
  using assms pass_iff [of n name] by (auto split: option.splits prod.splits)

text \<open>When the tests of the prefix set all pass, the last of them has deleted it, and the tests after it leave it alone.\<close>

lemma passed_tests_delete:
  fixes stored :: "'w \<Rightarrow> 'k \<Rightarrow> string set option"
  assumes "prefix_set_service api invar ident stored" and "r = (sub, rg, testASG, prefixSetName)"
    and "\<forall>S. sdk_keeps (asg_sdk c) (\<lambda>w. invar w \<and> stored w = S)"
    and "Q = (\<lambda>w1. invar w1 \<and> (\<forall>k. k \<noteq> ident r \<longrightarrow> stored w1 k = f k))" and "Q w1"
    and "run_tests 6 (prefix_set_tests api sub rg @ cleanup_tests c) w1 = Some (results, w')" and "\<forall>r \<in> set results. tr_status r = status_pass"
  shows "stored w' (ident r) = None"
proof -
  let ?p = "prefix_set_tests api sub rg"
  note p = prefix_set_service.prefix_tests_keep [OF assms(1) refl, of sub rg f, folded assms(2), folded assms(4)]
  obtain n1 t1 n2 t2 n3 t3 n4 where pl: "?p = [(n1, t1), (n2, t2), (n3, t3), (n4, \<lambda>w. done_with ''deleted'' (api_Delete api r w))]"
    unfolding prefix_set_tests_def Let_def assms(2) by blast
  have keep: "test_keeps Q t1" "test_keeps Q t2" "test_keeps Q t3" using p unfolding pl by simp_all
  obtain d1 v1 ss1 where s1: "t1 w1 = Some (Inr d1, v1)" "run_tests (6 + 1) ((n2, t2) # (n3, t3) # (n4, \<lambda>w. done_with ''deleted'' (api_Delete api r w)) #
      cleanup_tests c) v1 = Some (ss1, w')" "\<forall>r \<in> set ss1. tr_status r = status_pass"
    using run_tests_Cons_pass [OF assms(6) [unfolded pl append_Cons append_Nil] assms(7)] by blast
  obtain d2 v2 ss2 where s2: "t2 v1 = Some (Inr d2, v2)" "run_tests (6 + 1 + 1) ((n3, t3) # (n4, \<lambda>w. done_with ''deleted'' (api_Delete api r w)) #
      cleanup_tests c) v2 = Some (ss2, w')" "\<forall>r \<in> set ss2. tr_status r = status_pass" using run_tests_Cons_pass [OF s1(2,3)] by blast
  obtain d3 v3 ss3 where s3: "t3 v2 = Some (Inr d3, v3)" "run_tests (6 + 1 + 1 + 1) ((n4, \<lambda>w. done_with ''deleted'' (api_Delete api r w)) #
      cleanup_tests c) v3 = Some (ss3, w')" "\<forall>r \<in> set ss3. tr_status r = status_pass" using run_tests_Cons_pass [OF s2(2,3)] by blast
  obtain d4 v4 ss4 where s4: "done_with ''deleted'' (api_Delete api r v3) = Some (Inr d4, v4)" "run_tests (6 + 1 + 1 + 1 + 1) (cleanup_tests c) v4 = Some (ss4, w')"
    using run_tests_Cons_pass [OF s3(2,3)] by blast
  have "Q v1" using keep(1) s1(1) assms(5) unfolding test_keeps_def by blast
  then have "Q v2" using keep(2) s2(1) unfolding test_keeps_def by blast
  then have "Q v3" using keep(3) s3(1) unfolding test_keeps_def by blast
  then have v4: "invar v4 \<and> stored v4 (ident r) = None" using prefix_set_service.delete_test [OF assms(1) _ s4(1)] by (simp add: assms(4))
  have "invar w' \<and> stored w' = stored v4"
    by (rule run_tests_keep [OF asg_tests_keep(2) [OF assms(3) [rule_format]] s4(2)]) (simp add: v4)
  then show ?thesis using v4 by simp
qed


section \<open>Witness\<close>

text \<open>An SDK that always succeeds, in front of the in-memory client.\<close>

definition ex_sdk :: "(Client, string, unit, bool) azure_sdk" where
  "ex_sdk = \<lparr>az_Get = (\<lambda>rg name w. (Inr name, w)), az_BeginCreateOrUpdate = (\<lambda>rg name g w. (Inr (), w)), az_BeginDelete = (\<lambda>rg name w. (Inr (), w)),
     az_UpdateTags = (\<lambda>rg name tags w. (Inr name, w)), az_PollUntilDone = (\<lambda>p w. (Inr testASG, w)), az_NewListPager = (\<lambda>rg. False),
     az_NewListAllPager = False, az_More = (\<lambda>q. q), az_NextPage = (\<lambda>q w. ((Inr [], False), w))\<rparr>"

definition ex_testops_env :: "(Client, string, unit, bool) testops_env" where
  "ex_testops_env = \<lparr>te_Getenv = (\<lambda>v. ''x''), te_view = \<lparr>av_ID = Some, av_Location = (\<lambda>_. None), av_Name = Some, av_params = (\<lambda>loc tags. testASG)\<rparr>,
     te_NewASGClient = (\<lambda>sub rg. Inr \<lparr>asg_sdk = ex_sdk, asg_resourceGroup = rg\<rparr>), te_ForSubscription = (\<lambda>_. Inr fake_api)\<rparr>"

lemma ex_pages: "page_loop ex_sdk msg False acc w = Some (Inr acc, w)"
  by (subst page_loop.simps) (simp add: ex_sdk_def)

lemma ex_testops: "\<exists>results w'. testops_main ex_testops_env NewClient = Some ((0, results), w') \<and> length results = 10"
proof -
  let ?c = "\<lparr>asg_sdk = ex_sdk, asg_resourceGroup = ''x''\<rparr>"
  let ?v = "\<lparr>av_ID = Some, av_Location = (\<lambda>_. None), av_Name = Some, av_params = (\<lambda>loc tags. testASG)\<rparr>"
  have 1: "\<exists>rs. run_tests 1 (asg_tests ?v ?c ''x'') NewClient = Some (rs, NewClient) \<and> (\<forall>r \<in> set rs. tr_status r = status_pass) \<and> length rs = 5"
    by (simp add: asg_tests_def ASGClient_Get_def ASGClient_UpdateTags_def ASGClient_List_def ASGClient_ListAll_def ASGClient_CreateOrUpdate_def
        wrapping_def returning_def test_result_def ex_pages ex_sdk_def [THEN arg_cong, of az_Get] ex_sdk_def [THEN arg_cong, of az_UpdateTags]
        ex_sdk_def [THEN arg_cong, of az_NewListPager] ex_sdk_def [THEN arg_cong, of az_NewListAllPager]
        ex_sdk_def [THEN arg_cong, of az_BeginCreateOrUpdate] ex_sdk_def [THEN arg_cong, of az_PollUntilDone])
  have n: "consumeInjectedError k NewClient = (None, NewClient)" for k by (simp add: consumeInjectedError_def NewClient_def)
  have 2: "\<exists>rs w'. run_tests 6 (prefix_set_tests fake_api ''x'' ''x'' @ cleanup_tests ?c) NewClient = Some (rs, w') \<and>
      (\<forall>r \<in> set rs. tr_status r = status_pass) \<and> length rs = 5"
    by (simp add: prefix_set_tests_def cleanup_tests_def fake_api_def Client_Put_def Client_Get_def Client_List_def Client_Delete_def consumeInjectedError_def
        NewClient_def done_with_def returning_def test_result_def ASGClient_Delete_def ex_sdk_def Let_def)
  obtain rs1 where r1: "run_tests 1 (asg_tests ?v ?c ''x'') NewClient = Some (rs1, NewClient)" "\<forall>r \<in> set rs1. tr_status r = status_pass" "length rs1 = 5"
    using 1 by blast
  obtain rs2 w' where r2: "run_tests 6 (prefix_set_tests fake_api ''x'' ''x'' @ cleanup_tests ?c) NewClient = Some (rs2, w')"
    "\<forall>r \<in> set rs2. tr_status r = status_pass" "length rs2 = 5" using 2 by blast
  have "exit_status (rs1 @ rs2) = 0" using r1(2) r2(2) by (auto simp: exit_status_0)
  then show ?thesis using r1(1,3) r2(1,3) by (simp add: testops_main_def ex_testops_env_def Let_def)
qed


end
