(* ===== verification/Spec2Isabelle.thy ===== *)
theory Spec2Isabelle
  imports Cache_Fencing Cache_Parity Controller_System Reconcile_Ownership Arm_Server Arm_Tuning Client_Factory Trackers Pod_Controller Metrics
    Reconcile_Metrics Arm_Metrics Main_Program Test_Ops
begin

text \<open>
  Verification of the pod NSG controller: a Kubernetes controller that keeps Azure
  \<open>addressPrefixSets\<close> (children of application security groups) equal to the addresses of the pods that
  \<open>PodASGMapping\<close> resources select. All paths below are relative to \<open>src/\<close>.

  \<^bold>\<open>How the parts interact.\<close> A pod or mapping event enqueues requests for the mappings it concerns and updates a
  cache of desired states (\<open>internal/controller/pod_handler.go\<close>, \<open>internal/engine/desired_state_cache.go\<close>).
  A reconcile (\<open>internal/controller/mapping_reconciler.go\<close>) takes the desired state from the cache or computes it,
  reads the actual prefix sets from Azure, records in an annotation which sets it owns, computes the actions that lead from the
  actual to the desired state (\<open>internal/engine/diff.go\<close>), executes them (\<open>internal/azure/executor.go\<close>) through the
  interface \<open>AddressPrefixSetAPI\<close> (\<open>internal/azure/interfaces.go\<close>), writes the status and decides when to run again.
  The interface is implemented over HTTP (\<open>internal/azure/address_prefix_set_client.go\<close>) and in memory for tests. Every reconcile
  reports to trackers and recorders (\<open>internal/metrics\<close>), and \<open>cmd/main.go\<close> wires all of this together.

  \<^bold>\<open>Theories.\<close> Definitions have the names of the source, with a prefix or suffix where a name is taken.
  \<^item> \<open>Prelude\<close>: Go maps as association lists with distinct keys (\<open>gget\<close>, \<open>gput\<close>, \<open>gdel\<close>), sets as
    distinct lists, and the functions of \<open>strings\<close> that the code uses; \<open>gomap_simps\<close>, \<open>gostr_simps\<close>.
  \<^item> \<open>Api_Types\<close>, \<open>Resource_Model\<close>, \<open>Target_Key\<close>, \<open>Net_Ip\<close>: \<open>api/v1alpha1/types.go\<close>, \<open>internal/model\<close>
    (resource identifiers, ownership keys, selectors, the index), \<open>target_key.go\<close>, and the address parser behind \<open>toCIDR\<close>.
  \<^item> \<open>Diff\<close>: \<open>diff.go\<close>; the actions applied to the actual state give the desired state, with one action per target.
  \<^item> \<open>Desired_State\<close>, \<open>Examples\<close>: the three computations of the desired state
    (\<open>desired_state.go\<close>, \<open>desired_state_snapshot.go\<close>), their exact result and their equivalence.
  \<^item> \<open>Desired_Cache\<close>, \<open>Cache_Fencing\<close>, \<open>Cache_Parity\<close>: every operation of \<open>desired_state_cache.go\<close> with versions as 64 bit
    words; the fencing of stale recomputations on reachable caches; incremental updates give what a recomputation gives.
  \<^item> \<open>Arm_Errors\<close>, \<open>Prefix_Set_Api\<close>, \<open>Fake_Client\<close>: error values and retry decisions (\<open>interfaces.go\<close>, \<open>retry.go\<close>), the
    interface as the locales \<open>prefix_set_store\<close> and \<open>prefix_set_service\<close>, and its interpretation on \<open>fake/fake_client.go\<close>.
  \<^item> \<open>Executor\<close>: \<open>executor.go\<close>; in the locale, every successful action brings its target to the goal of the diff,
    conflicts of ETags are retried by recomputing, and a schedule of parallel actions gives the same result.
  \<^item> \<open>Status\<close>, \<open>Sha256\<close>, \<open>Status_Updater\<close>, \<open>Requeue_Policy\<close>: \<open>status.go\<close>, \<open>conditions.go\<close>, \<open>status_updater.go\<close>,
    \<open>errors.go\<close> and \<open>reconcile_metrics.go\<close>.
  \<^item> \<open>Json\<close>, \<open>Ownership_Store\<close>: a parser and a printer of JSON with their round trip, and \<open>ownership_store.go\<close>.
  \<^item> \<open>Pod_Handler\<close>, \<open>Event_Delivery\<close>: \<open>pod_handler.go\<close> and \<open>predicates.go\<close>; the handlers keep the parity of the cache, and
    a delivered event either leaves the selected pods alone or advances the version of the cached state.
  \<^item> \<open>Reconciler\<close>, \<open>Reconcile_Azure\<close>, \<open>Reconcile_Ownership\<close>: \<open>mapping_reconciler.go\<close> and \<open>error_policy.go\<close> with every exit; the
    lemmas in the locale of the service, its interpretation on a cluster with the in-memory client, and the theorems on whole reconciles.
  \<^item> \<open>Controller_System\<close>: the controller as a transition system in which pods change, events are delivered and reconciles run,
    also in the middle of each other's calls; every reachable cache is at parity with a recomputation, and a reconcile that
    succeeds leaves in Azure what the pods at one moment during it called for.
  \<^item> \<open>Arm_Http\<close>, \<open>Arm_Client\<close>, \<open>Client_Factory\<close>: the HTTP client with its retry loop, token cache, decoding, pages and polling
    (\<open>address_prefix_set_client.go\<close>, \<open>client_options.go\<close>), and \<open>client_factory.go\<close>.
  \<^item> \<open>Arm_Service\<close>, \<open>Arm_Server\<close>: what Azure promises about single requests (locale \<open>arm_service\<close>) makes the HTTP client a
    \<open>prefix_set_service\<close> (a \<open>sublocale\<close>), so the theorems on the executor and on whole reconciles hold for it; the interpretation is an HTTP server
    in front of the in-memory client.
  \<^item> \<open>Config\<close>, \<open>Rate_Limit\<close>, \<open>Arm_Tuning\<close>: \<open>internal/config/config.go\<close>, \<open>ratelimit.go\<close>, and the reload of the tuning in \<open>cmd/main.go\<close>.
  \<^item> \<open>Trackers\<close>, \<open>Metrics\<close>, \<open>Metric_Series\<close>: the trackers and the registration of \<open>internal/metrics\<close>, the work queue with gauges,
    the initializer, and the methods of the recorders as operations on collectors, with the series that exist after them.
  \<^item> \<open>Reconcile_Metrics\<close>: the reconcile loop with its trackers, its recorders and the committer of \<open>cmd/main.go\<close>; it does the same to
    Kubernetes, Azure and the cache as the loop without, counts each exit once, and keeps pending only what is current.
  \<^item> \<open>Arm_Metrics\<close>: the observers of \<open>metrics_options.go\<close> in requests, the executor and the rate limiter; they change nothing,
    each request sent is counted once, and the gauge of running actions comes back.
  \<^item> \<open>Pod_Controller\<close>: the legacy controller of \<open>pod_controller.go\<close> with \<open>asg_client.go\<close> and \<open>nic_client.go\<close>.
  \<^item> \<open>Main_Program\<close>, \<open>Test_Ops\<close>: \<open>main\<close> with its command line, its exits and the wiring (\<open>setup.go\<close>), and the test tool
    \<open>cmd/testops/main.go\<close>.

  \<^bold>\<open>State and effects.\<close> Everything outside the repository is a parameter: label matching (\<open>M :: matcher\<close>), the Kubernetes API
  (\<open>kube_client\<close>, \<open>reader\<close>), HTTP with clock and context (\<open>http_env\<close>), the Azure SDK, token buckets, the environment and the
  files. Such a parameter is a record of functions on a world \<open>'w\<close> that every call returns changed, so other writers may act
  between any two calls. A critical section under a mutex is one step. The goroutines of the executor run in the order of a
  schedule that is an argument. Errors are values of \<open>goerror\<close>; an error that may be absent is an option, a result that may fail a sum.

  \<^bold>\<open>Termination.\<close> Recursion is structural or has a measure: the retry loop of a request ends because the decision counts
  attempts (\<open>request_loop\<close>), the parser of JSON takes more fuel than its input is long, and \<open>json_fuel\<close> shows
  that no other fuel gives a different answer, the retries on ETag conflicts count down. Loops that only Azure ends (\<open>poll_loop\<close>,
  \<open>list_pages\<close>, \<open>page_loop\<close>) are partial functions, and that they return is proved from a measure on what the server answers.

  \<^bold>\<open>The system.\<close> \<open>controller_reach\<close> starts from an empty cache. A pod changes in the cluster and is handled in one step, the
  specification of the mapping stays fixed while it is watched, an \<open>Add\<close> event is about a pod that was not there, and a call lets fewer than
  \<open>2 ^ 60\<close> events in, so the versions, which are 64 bit words, do not come round between two reads of a fence.

  \<^bold>\<open>Not modelled.\<close> Logging; buckets, help texts and values of Prometheus collectors beyond the operations on them; the
  constructors of the SDK clients and the manager of controller-runtime; \<open>hasPendingIPPods\<close>, which nothing calls; generated deep copies and the
  registration of the scheme. Unicode beyond ASCII in case folding and trimming. Real-time behaviour: a clock is read where the code reads it, and
  nothing is assumed of it.
\<close>

text \<open>C6:
  Applying the diff of the desired state of all mappings to the actual Azure state leaves
  under each target key exactly the prefixes of the selected pods, and no prefix set under a
  key that no rule names.
\<close>

theorem reconcile_end_to_end:
  assumes "wf_state actual"
  shows "fold apply_action (ComputeDiff (ComputeDesiredState M cl mappings pods) actual threshold) (view actual) key =
    (if declared cl mappings key then Some (wanted M cl mappings pods key) else None)"
proof -
  have "fold apply_action (ComputeDiff (ComputeDesiredState M cl mappings pods) actual threshold) (view actual) =
      view (ComputeDesiredState M cl mappings pods)"
    using wf_ComputeDesiredState assms by (rule ComputeDiff_converges)
  then show ?thesis by (simp add: view_ComputeDesiredState)
qed

theorem reconcile_end_to_end_witness:
  "wf_state ex_actual \<and>
   fold apply_action (ComputeDiff (ComputeDesiredState doc_matches ''c'' [ex_mapping] [ex_pod ''p'' ''web'' ''10.0.0.1'']) ex_actual 50)
     (view ex_actual) (targetKey (ex_asg ''A'')) = Some {''10.0.0.1/32''}"
proof -
  have k: "rule_keys ''c'' ex_mapping (ex_rule app asg) = [targetKey (ex_asg asg)]" if "name_segment asg" for app asg
    using ex_resolve [OF that, of app] by (simp add: rule_keys_def prefix_set_name_def ex_mapping_def ex_psn)
  have n: "name_segment ''A''" "name_segment ''B''" by (simp_all add: name_segment_def)
  have d: "declared ''c'' [ex_mapping] (targetKey (ex_asg ''A''))"
    using k [OF n(1), of "''web''"] by (simp add: declared_def ex_mapping_def)
  have "rule_selects doc_matches ex_mapping (ex_rule app asg) (ex_pod ''p'' ''web'' ''10.0.0.1'') \<longleftrightarrow> app = ''web''" for app asg
    unfolding ex_mapping_def by (rule ex_rule_selects)
  moreover have "m_Mappings ex_mapping = [ex_rule ''web'' ''A'', ex_rule ''db'' ''B'']" by (simp add: ex_mapping_def)
  ultimately have "wanted doc_matches ''c'' [ex_mapping] [ex_pod ''p'' ''web'' ''10.0.0.1''] (targetKey (ex_asg ''A'')) = {toCIDR ''10.0.0.1''}"
    using k [OF n(1)] by (auto simp: wanted_def)
  moreover have "toCIDR ''10.0.0.1'' = ''10.0.0.1/32''" by (simp add: toCIDR_v4)
  ultimately show ?thesis
    using ex_wf(2) d reconcile_end_to_end [of ex_actual doc_matches "''c''" "[ex_mapping]" "[ex_pod ''p'' ''web'' ''10.0.0.1'']" 50
      "targetKey (ex_asg ''A'')"] by simp
qed

end
